(* ===== verification/Prelude.thy ===== *)
theory Prelude
  imports Main "HOL-Library.Word" "HOL-Library.Monad_Syntax"
begin

text \<open>
  Shared vocabulary of the development.

  \<^item> \<open>uchar\<close> is a Rust \<open>char\<close>, given by its Unicode scalar value; \<open>utext\<close> is a Rust
    \<open>str\<close>/\<open>String\<close> seen as its sequence of chars, the unit every editor offset counts in.
    Identifiers, messages and protocol strings, whose chars are never counted, are HOL strings.
  \<^item> A panic (a failed \<open>assert!\<close>, \<open>debug_assert!\<close>, \<open>expect\<close>, an index or an unsigned
    subtraction out of range) is the value \<open>None\<close> of an option type; the debug profile is
    modelled, where debug assertions are checked.  \<open>Result\<close> is a sum, with \<open>Inl\<close> the error.
  \<^item> \<open>usize\<close> and \<open>u64\<close> counters are natural numbers: they count chars, entries or revisions
    held in memory.  A width is written out where the code relies on it.
\<close>

named_theorems ops_simps \<open>laws of the operations the editor core is built from\<close>
named_theorems rope_simps \<open>what a rope operation returns, in terms of the chars it holds\<close>

type_synonym uchar = nat
type_synonym utext = "uchar list"

text \<open>A string literal of the source as a text: every char of an ASCII literal is its code.\<close>

definition ustr :: "string \<Rightarrow> utext" where
  "ustr s = map of_char s"

abbreviation newline :: uchar where "newline \<equiv> 10"
abbreviation carriage_return :: uchar where "carriage_return \<equiv> 13"

lemma length_ustr [simp]: "length (ustr s) = length s"
  by (simp add: ustr_def)

lemma ustr_append [simp]: "ustr (s @ t) = ustr s @ ustr t"
  by (simp add: ustr_def)

lemma ustr_Nil [simp]: "ustr [] = []"
  by (simp add: ustr_def)

section \<open>Options as panics\<close>

lemma bind_eq_Some_iff:
  "Option.bind x f = Some y \<longleftrightarrow> (\<exists>a. x = Some a \<and> f a = Some y)"
  by (cases x) auto

lemma those_eq:
  "(\<And>x. x \<in> set xs \<Longrightarrow> f x = Some (g x)) \<Longrightarrow> those (map f xs) = Some (map g xs)"
  by (induction xs) auto

lemma map_filter_append: "List.map_filter f (xs @ ys) = List.map_filter f xs @ List.map_filter f ys"
  by (simp add: List.map_filter_def)

lemma map_filter_set: "x \<in> set (List.map_filter f xs) \<longleftrightarrow> (\<exists>y\<in>set xs. f y = Some x)"
  by (induction xs) (auto simp: List.map_filter_simps split: option.split)

text \<open>\<open>find_map\<close> of an iterator: the first result there is.\<close>

fun find_map :: "('a \<Rightarrow> 'b option) \<Rightarrow> 'a list \<Rightarrow> 'b option" where
  "find_map f [] = None"
| "find_map f (x # xs) = (case f x of Some y \<Rightarrow> Some y | None \<Rightarrow> find_map f xs)"

section \<open>Slices of lists\<close>

text \<open>The chars \<open>from..to\<close> of a text, half open as a Rust range.\<close>

definition slice :: "nat \<Rightarrow> nat \<Rightarrow> 'a list \<Rightarrow> 'a list" where
  "slice from to xs = take (to - from) (drop from xs)"

lemma length_slice [simp]: "to \<le> length xs \<Longrightarrow> length (slice from to xs) = to - from"
  by (simp add: slice_def)

lemma slice_same [simp]: "slice i i xs = []"
  by (simp add: slice_def)

lemma slice_0 [simp]: "slice 0 n xs = take n xs"
  by (simp add: slice_def)

lemma slice_full: "slice 0 (length xs) xs = xs"
  by simp

lemma slice_drop: "slice i (i + n) xs = take n (drop i xs)"
  by (simp add: slice_def)

lemma nth_slice: "i < to - from \<Longrightarrow> to \<le> length xs \<Longrightarrow> slice from to xs ! i = xs ! (from + i)"
  by (simp add: slice_def)

lemma slice_append_slice:
  assumes "i \<le> j" "j \<le> k"
  shows "slice i j xs @ slice j k xs = slice i k xs"
proof -
  obtain m n where "j = i + m" "k = i + m + n"
    using assms by (metis le_iff_add)
  then show ?thesis by (simp add: slice_def take_add add.commute)
qed

lemma take_slice_drop:
  assumes "i \<le> j"
  shows "take i xs @ slice i j xs @ drop j xs = xs"
proof -
  obtain m where "j = i + m" using assms by (metis le_iff_add)
  then have "slice i j xs @ drop j xs = drop i xs"
    unfolding slice_def by (metis add_diff_cancel_left' append_take_drop_id drop_drop add.commute)
  then show ?thesis by simp
qed

lemma slice_append1: "to \<le> length xs \<Longrightarrow> slice from to (xs @ ys) = slice from to xs"
  by (simp add: slice_def)

lemma slice_append2:
  "length xs \<le> from \<Longrightarrow> slice from to (xs @ ys) = slice (from - length xs) (to - length xs) ys"
  by (simp add: slice_def)

end
