(* ===== verification/Rope.thy ===== *)
theory Rope
  imports Prelude
begin

text \<open>
  The rope interface.  \<open>ropey::Rope\<close> is a third-party package, so its type is a parameter
  \<open>'r\<close> and its operations are the fields of a record that every definition using a rope takes as
  an argument.  A rope and a borrowed slice of one are the same type here.  Operations that panic
  out of range return an option.

  The locales state what the editor relies on, the documented behaviour of ropey 1: a rope holds
  a sequence of chars (\<open>rope_text\<close>), cut into lines, each line break ending its line
  (\<open>rope_lines\<close>), and counts UTF-16 code units (\<open>rope_utf16\<close>).  \<open>list_rope\<close> is the rope
  that holds its chars as a list and breaks lines at the newline char; it satisfies every law.
\<close>

record 'r rope_api =
  rope_new :: "'r"
  rope_of :: "utext \<Rightarrow> 'r"
  rope_chars :: "'r \<Rightarrow> utext"
  rope_len :: "'r \<Rightarrow> nat"
  rope_slice :: "'r \<Rightarrow> nat \<Rightarrow> nat \<Rightarrow> 'r option"
  rope_append :: "'r \<Rightarrow> 'r \<Rightarrow> 'r"
  rope_insert :: "'r \<Rightarrow> nat \<Rightarrow> utext \<Rightarrow> 'r option"
  rope_len_lines :: "'r \<Rightarrow> nat"
  rope_char_to_line :: "'r \<Rightarrow> nat \<Rightarrow> nat option"
  rope_line_to_char :: "'r \<Rightarrow> nat \<Rightarrow> nat option"
  rope_line :: "'r \<Rightarrow> nat \<Rightarrow> 'r option"
  rope_len_utf16 :: "'r \<Rightarrow> nat"
  rope_char_to_utf16 :: "'r \<Rightarrow> nat \<Rightarrow> nat option"
  rope_utf16_to_char :: "'r \<Rightarrow> nat \<Rightarrow> nat option"

section \<open>The chars of a rope\<close>

locale rope_text =
  fixes R :: "'r rope_api"
  assumes chars_new [simp]: "rope_chars R (rope_new R) = []"
    and chars_of [simp]: "rope_chars R (rope_of R s) = s"
    and len_chars: "rope_len R r = length (rope_chars R r)"
    and slice_in: "a \<le> b \<Longrightarrow> b \<le> length (rope_chars R r) \<Longrightarrow>
      \<exists>x. rope_slice R r a b = Some x \<and> rope_chars R x = slice a b (rope_chars R r)"
    and slice_out: "\<not> (a \<le> b \<and> b \<le> length (rope_chars R r)) \<Longrightarrow> rope_slice R r a b = None"
    and chars_append [simp]: "rope_chars R (rope_append R r r2) = rope_chars R r @ rope_chars R r2"
    and insert_in: "i \<le> length (rope_chars R r) \<Longrightarrow>
      \<exists>x. rope_insert R r i t = Some x
        \<and> rope_chars R x = take i (rope_chars R r) @ t @ drop i (rope_chars R r)"
begin

lemma slice_cases:
  "(\<exists>x. a \<le> b \<and> b \<le> length (rope_chars R r) \<and> rope_slice R r a b = Some x
      \<and> rope_chars R x = slice a b (rope_chars R r))
   \<or> (rope_slice R r a b = None \<and> \<not> (a \<le> b \<and> b \<le> length (rope_chars R r)))"
  using slice_in slice_out by blast

lemma slice_Some:
  assumes "rope_slice R r a b = Some x"
  shows "a \<le> b" "b \<le> length (rope_chars R r)" "rope_chars R x = slice a b (rope_chars R r)"
  using assms slice_cases [of a b r] by auto

lemma insert_end:
  "\<exists>x. rope_insert R r (rope_len R r) t = Some x \<and> rope_chars R x = rope_chars R r @ t"
  using insert_in [of "rope_len R r" r t] by (simp add: len_chars)

end

section \<open>The lines of a rope\<close>

text \<open>
  \<open>line_to_char\<close> is defined up to and including the number of lines, where it is the length;
  a char index lies on the line whose bounds enclose it, the index past the last char on the last
  line; a newline char is the last of its line.
\<close>

locale rope_lines = rope_text R for R :: "'r rope_api" +
  assumes lines_pos: "0 < rope_len_lines R r"
    and line_start_in: "l \<le> rope_len_lines R r \<Longrightarrow>
      \<exists>s. rope_line_to_char R r l = Some s \<and> s \<le> length (rope_chars R r)"
    and line_start_out: "rope_len_lines R r < l \<Longrightarrow> rope_line_to_char R r l = None"
    and first_line: "rope_line_to_char R r 0 = Some 0"
    and past_lines: "rope_line_to_char R r (rope_len_lines R r) = Some (length (rope_chars R r))"
    and line_of_in: "i \<le> length (rope_chars R r) \<Longrightarrow>
      \<exists>l s e. rope_char_to_line R r i = Some l \<and> l < rope_len_lines R r
        \<and> rope_line_to_char R r l = Some s \<and> rope_line_to_char R r (Suc l) = Some e
        \<and> s \<le> i \<and> (i < e \<or> Suc l = rope_len_lines R r)"
    and line_of_out: "length (rope_chars R r) < i \<Longrightarrow> rope_char_to_line R r i = None"
    and line_mono: "l \<le> m \<Longrightarrow> rope_line_to_char R r l = Some s \<Longrightarrow>
      rope_line_to_char R r m = Some t \<Longrightarrow> s \<le> t"
    and line_of_unique: "rope_line_to_char R r l = Some s \<Longrightarrow>
      rope_line_to_char R r (Suc l) = Some e \<Longrightarrow> s \<le> i \<Longrightarrow>
      i < e \<or> (Suc l = rope_len_lines R r \<and> i \<le> e) \<Longrightarrow> rope_char_to_line R r i = Some l"
    and line_in: "rope_line_to_char R r l = Some s \<Longrightarrow> rope_line_to_char R r (Suc l) = Some e \<Longrightarrow>
      \<exists>x. rope_line R r l = Some x \<and> rope_chars R x = slice s e (rope_chars R r)"
    and line_out: "rope_len_lines R r \<le> l \<Longrightarrow> rope_line R r l = None"
    and line_break: "rope_line_to_char R r l = Some s \<Longrightarrow> rope_line_to_char R r (Suc l) = Some e \<Longrightarrow>
      s \<le> i \<Longrightarrow> i < e \<Longrightarrow> rope_chars R r ! i = newline \<Longrightarrow> Suc i = e"
    and line_nonempty: "rope_line_to_char R r l = Some s \<Longrightarrow> Suc l < rope_len_lines R r \<Longrightarrow>
      rope_line_to_char R r (Suc l) = Some e \<Longrightarrow> s < e"
    and last_unbroken: "rope_len_lines R r = Suc l \<Longrightarrow> rope_line_to_char R r l = Some s \<Longrightarrow>
      s \<le> i \<Longrightarrow> i < length (rope_chars R r) \<Longrightarrow> rope_chars R r ! i \<noteq> newline"

section \<open>UTF-16 code units\<close>

definition utf16_len :: "uchar \<Rightarrow> nat" where
  "utf16_len c = (if c < 65536 then 1 else 2)"

definition utf16_total :: "utext \<Rightarrow> nat" where
  "utf16_total s = sum_list (map utf16_len s)"

lemma utf16_total_simps [simp]:
  "utf16_total [] = 0"
  "utf16_total (c # s) = utf16_len c + utf16_total s"
  "utf16_total (s @ t) = utf16_total s + utf16_total t"
  by (simp_all add: utf16_total_def)

lemma utf16_len_pos [simp]: "0 < utf16_len c"
  by (simp add: utf16_len_def)

text \<open>The char a code unit belongs to: the last index whose prefix does not exceed it.\<close>

fun utf16_char :: "utext \<Rightarrow> nat \<Rightarrow> nat" where
  "utf16_char [] u = 0"
| "utf16_char (c # s) u = (if u < utf16_len c then 0 else Suc (utf16_char s (u - utf16_len c)))"

lemma utf16_char_prefix: "utf16_char s (utf16_total (take i s)) = min i (length s)"
proof (induction s arbitrary: i)
  case (Cons c s)
  then show ?case by (cases i) simp_all
qed simp

lemma utf16_char_le: "utf16_char s u \<le> length s"
  by (induction s u rule: utf16_char.induct) auto

locale rope_utf16 = rope_lines R for R :: "'r rope_api" +
  assumes len_utf16: "rope_len_utf16 R r = utf16_total (rope_chars R r)"
    and to_utf16_in: "i \<le> length (rope_chars R r) \<Longrightarrow>
      rope_char_to_utf16 R r i = Some (utf16_total (take i (rope_chars R r)))"
    and of_utf16_in: "u \<le> utf16_total (rope_chars R r) \<Longrightarrow>
      rope_utf16_to_char R r u = Some (utf16_char (rope_chars R r) u)"

section \<open>A rope that is a list of chars\<close>

fun list_line_start :: "utext \<Rightarrow> nat \<Rightarrow> nat option" where
  "list_line_start s 0 = Some 0"
| "list_line_start [] (Suc l) = (if l = 0 then Some 0 else None)"
| "list_line_start (c # s) (Suc l) =
     map_option Suc (list_line_start s (if c = newline then l else Suc l))"

fun list_line_of :: "utext \<Rightarrow> nat \<Rightarrow> nat" where
  "list_line_of s 0 = 0"
| "list_line_of [] (Suc i) = 0"
| "list_line_of (c # s) (Suc i) = (if c = newline then 1 else 0) + list_line_of s i"

fun list_lines :: "utext \<Rightarrow> nat" where
  "list_lines [] = 1"
| "list_lines (c # s) = (if c = newline then 1 else 0) + list_lines s"

definition list_line :: "utext \<Rightarrow> nat \<Rightarrow> utext option" where
  "list_line s l = (if l < list_lines s then
     (case (list_line_start s l, list_line_start s (Suc l)) of
        (Some a, Some b) \<Rightarrow> Some (slice a b s) | _ \<Rightarrow> None) else None)"

definition list_rope :: "utext rope_api" where
  "list_rope = \<lparr>
     rope_new = [],
     rope_of = (\<lambda>s. s),
     rope_chars = (\<lambda>s. s),
     rope_len = length,
     rope_slice = (\<lambda>s a b. if a \<le> b \<and> b \<le> length s then Some (slice a b s) else None),
     rope_append = (@),
     rope_insert = (\<lambda>s i t. if i \<le> length s then Some (take i s @ t @ drop i s) else None),
     rope_len_lines = list_lines,
     rope_char_to_line = (\<lambda>s i. if i \<le> length s then Some (list_line_of s i) else None),
     rope_line_to_char = list_line_start,
     rope_line = list_line,
     rope_len_utf16 = utf16_total,
     rope_char_to_utf16 =
       (\<lambda>s i. if i \<le> length s then Some (utf16_total (take i s)) else None),
     rope_utf16_to_char =
       (\<lambda>s u. if u \<le> utf16_total s then Some (utf16_char s u) else None)\<rparr>"

lemma list_rope_simps [simp]:
  "rope_new list_rope = []"
  "rope_of list_rope s = s"
  "rope_chars list_rope s = s"
  "rope_len list_rope s = length s"
  "rope_slice list_rope s a b = (if a \<le> b \<and> b \<le> length s then Some (slice a b s) else None)"
  "rope_append list_rope s t = s @ t"
  "rope_insert list_rope s i t = (if i \<le> length s then Some (take i s @ t @ drop i s) else None)"
  "rope_len_lines list_rope s = list_lines s"
  "rope_char_to_line list_rope s i = (if i \<le> length s then Some (list_line_of s i) else None)"
  "rope_line_to_char list_rope s i = list_line_start s i"
  "rope_line list_rope s i = list_line s i"
  "rope_len_utf16 list_rope s = utf16_total s"
  "rope_char_to_utf16 list_rope s i =
     (if i \<le> length s then Some (utf16_total (take i s)) else None)"
  "rope_utf16_to_char list_rope s u =
     (if u \<le> utf16_total s then Some (utf16_char s u) else None)"
  by (simp_all add: list_rope_def)

lemma list_lines_pos [simp]: "0 < list_lines s"
  by (induction s) auto

lemma list_lines_nonzero [simp]: "list_lines s \<noteq> 0"
  using list_lines_pos [of s] by simp

lemma list_line_start_in:
  "l \<le> list_lines s \<Longrightarrow> \<exists>a. list_line_start s l = Some a \<and> a \<le> length s"
  by (induction s l rule: list_line_start.induct) auto

lemma list_line_start_out: "list_lines s < l \<Longrightarrow> list_line_start s l = None"
  by (induction s l rule: list_line_start.induct) auto

lemma list_line_start_Some: "list_line_start s l = Some a \<Longrightarrow> l \<le> list_lines s"
  by (metis leI list_line_start_out option.distinct(1))

lemma list_past_lines: "list_line_start s (list_lines s) = Some (length s)"
proof (induction s)
  case (Cons c s)
  then show ?case using list_lines_pos [of s] by (cases "list_lines s") auto
qed simp

lemma list_line_of_bound: "i \<le> length s \<Longrightarrow> list_line_of s i < list_lines s"
  by (induction s i rule: list_line_of.induct) auto

lemma list_line_of_starts:
  "i \<le> length s \<Longrightarrow> \<exists>a b. list_line_start s (list_line_of s i) = Some a
     \<and> list_line_start s (Suc (list_line_of s i)) = Some b
     \<and> a \<le> i \<and> (i < b \<or> Suc (list_line_of s i) = list_lines s)"
proof (induction s i rule: list_line_of.induct)
  case (1 s)
  then show ?case
  proof (induction s)
    case (Cons c s)
    then show ?case by (cases s) auto
  qed simp
next
  case (3 c s i)
  then obtain a b where
    "list_line_start s (list_line_of s i) = Some a"
    "list_line_start s (Suc (list_line_of s i)) = Some b"
    "a \<le> i" "i < b \<or> Suc (list_line_of s i) = list_lines s"
    by auto
  then show ?case by (cases "list_line_of s i") auto
qed simp

lemma list_line_start_mono:
  "l \<le> m \<Longrightarrow> list_line_start s l = Some a \<Longrightarrow> list_line_start s m = Some b \<Longrightarrow> a \<le> b"
proof (induction s arbitrary: l m a b)
  case Nil
  then show ?case by (cases l; cases m) (auto split: if_splits)
next
  case (Cons c s)
  show ?case
  proof (cases l)
    case 0
    with Cons.prems show ?thesis by simp
  next
    case (Suc l')
    then obtain m' where m: "m = Suc m'" using Cons.prems by (cases m) auto
    define k n where "k = (if c = newline then l' else l)" "n = (if c = newline then m' else m)"
    obtain a' b' where "list_line_start s k = Some a'" "list_line_start s n = Some b'"
      "a = Suc a'" "b = Suc b'"
      using Cons.prems Suc m by (auto simp: k_n_def split: if_splits)
    moreover have "k \<le> n" using Cons.prems(1) Suc m by (simp add: k_n_def)
    ultimately show ?thesis using Cons.IH by auto
  qed
qed

text \<open>A line index in range is the line of every index its bounds enclose.\<close>

lemma list_line_of_0: "list_line_start s (Suc l) = Some b \<Longrightarrow> l = 0 \<or> 0 < b"
  by (cases s) (auto split: if_splits)

lemma list_line_of_unique:
  "list_line_start s l = Some a \<Longrightarrow> list_line_start s (Suc l) = Some b \<Longrightarrow> a \<le> i \<Longrightarrow>
   i < b \<or> (Suc l = list_lines s \<and> i \<le> b) \<Longrightarrow> list_line_of s i = l"
proof (induction s i arbitrary: l a b rule: list_line_of.induct)
  case (1 s)
  then have "a = 0" by simp
  then show ?case
    using "1.prems" by (cases s; cases l) (auto split: if_splits)
next
  case (2 i)
  then show ?case by (auto split: if_splits)
next
  case (3 c s i)
  show ?case
  proof (cases l)
    case 0
    show ?thesis
    proof (cases "c = newline")
      case True
      with 0 "3.prems" list_lines_pos [of s] show ?thesis by auto
    next
      case False
      with 0 "3.prems" obtain b' where "list_line_start s (Suc 0) = Some b'" "b = Suc b'" by auto
      with 0 False "3.prems" show ?thesis using "3.IH" [of 0 0 b'] by simp
    qed
  next
    case (Suc l')
    define m where "m = (if c = newline then l' else l)"
    from Suc "3.prems" obtain a' b' where
      "list_line_start s m = Some a'" "list_line_start s (Suc m) = Some b'" "a = Suc a'" "b = Suc b'"
      by (auto simp: m_def split: if_splits)
    with "3.prems" "3.IH" [of m a' b'] Suc show ?thesis
      by (auto simp: m_def split: if_splits)
  qed
qed

lemma list_line_break:
  "list_line_start s l = Some a \<Longrightarrow> list_line_start s (Suc l) = Some b \<Longrightarrow> a \<le> i \<Longrightarrow> i < b \<Longrightarrow>
   i < length s \<Longrightarrow> s ! i = newline \<Longrightarrow> Suc i = b"
proof (induction s arbitrary: l a b i)
  case (Cons c s)
  show ?case
  proof (cases i)
    case 0
    then show ?thesis using Cons.prems by (cases l) (auto split: if_splits)
  next
    case (Suc j)
    show ?thesis
    proof (cases l)
      case 0
      with Suc Cons.prems show ?thesis
        using Cons.IH [of 0 0 _ j] by (auto split: if_splits)
    next
      case (Suc l')
      with \<open>i = Suc j\<close> Cons.prems show ?thesis
        using Cons.IH [of "if c = newline then l' else Suc l'" _ _ j] by (auto split: if_splits)
    qed
  qed
qed simp

lemma list_line_nonempty:
  "list_line_start s l = Some a \<Longrightarrow> Suc l < list_lines s \<Longrightarrow> list_line_start s (Suc l) = Some b \<Longrightarrow> a < b"
proof (induction s arbitrary: l a b)
  case (Cons c s)
  then show ?case by (cases l) (auto split: if_splits)
qed simp

lemma list_last_unbroken:
  "list_lines s = Suc l \<Longrightarrow> list_line_start s l = Some a \<Longrightarrow> a \<le> i \<Longrightarrow> i < length s \<Longrightarrow>
   s ! i \<noteq> newline"
proof (induction s arbitrary: l a i)
  case (Cons c s)
  show ?case
  proof (cases l)
    case 0
    with Cons.prems(1) have c: "c \<noteq> newline" "list_lines s = Suc 0" by (auto split: if_splits)
    have "s ! (i - 1) \<noteq> newline" if "i - 1 < length s"
      by (rule Cons.IH [OF c(2) _ _ that, of 0]) simp_all
    with c(1) Cons.prems(4) show ?thesis by (cases i) simp_all
  next
    case (Suc l')
    define k where "k = (if c = newline then l' else l)"
    from Suc Cons.prems(2) obtain a' where "list_line_start s k = Some a'" "a = Suc a'"
      by (auto simp: k_def)
    moreover have "list_lines s = Suc k" using Cons.prems(1) Suc by (auto simp: k_def split: if_splits)
    moreover have "a' \<le> i - 1" "i = Suc (i - 1)" "i - 1 < length s"
      using Cons.prems(3,4) \<open>a = Suc a'\<close> by auto
    ultimately have "s ! (i - 1) \<noteq> newline" using Cons.IH by blast
    with \<open>i = Suc (i - 1)\<close> show ?thesis by (metis nth_Cons_Suc)
  qed
qed simp

lemma list_line_in:
  assumes "list_line_start s l = Some a" "list_line_start s (Suc l) = Some b"
  shows "list_line s l = Some (slice a b s)"
  using assms list_line_start_Some [of s "Suc l" b] by (simp add: list_line_def)

lemma list_line_start_bound: "list_line_start s l = Some a \<Longrightarrow> a \<le> length s"
  using list_line_start_in [of l s] list_line_start_Some [of s l a] by auto

interpretation list_rope: rope_text list_rope
  by unfold_locales (auto simp: slice_def)

interpretation list_rope: rope_lines list_rope
proof
  fix r :: utext and i
  assume i: "i \<le> length (rope_chars list_rope r)"
  show "\<exists>l s e. rope_char_to_line list_rope r i = Some l \<and> l < rope_len_lines list_rope r
        \<and> rope_line_to_char list_rope r l = Some s \<and> rope_line_to_char list_rope r (Suc l) = Some e
        \<and> s \<le> i \<and> (i < e \<or> Suc l = rope_len_lines list_rope r)"
    using i list_line_of_starts [of i r] list_line_of_bound [of i r] by auto
next
  fix r :: utext and l s e i
  assume "rope_line_to_char list_rope r l = Some s" "rope_line_to_char list_rope r (Suc l) = Some e"
    "s \<le> i" "i < e \<or> Suc l = rope_len_lines list_rope r \<and> i \<le> e"
  then show "rope_char_to_line list_rope r i = Some l"
    using list_line_of_unique [of r l s e i] list_line_start_bound [of r "Suc l" e] by auto
next
  fix r :: utext and l s e i
  assume "rope_line_to_char list_rope r l = Some s" "rope_line_to_char list_rope r (Suc l) = Some e"
    "s \<le> i" "i < e" "rope_chars list_rope r ! i = newline"
  then show "Suc i = e"
    using list_line_break [of r l s e i] list_line_start_bound [of r "Suc l" e] by auto
next
  fix r :: utext and l s e
  assume "rope_line_to_char list_rope r l = Some s" "rope_line_to_char list_rope r (Suc l) = Some e"
  then show "\<exists>x. rope_line list_rope r l = Some x
      \<and> rope_chars list_rope x = slice s e (rope_chars list_rope r)"
    by (simp add: list_line_in)
qed (simp_all add: list_line_start_in list_line_start_out list_past_lines
      list_line_def list_line_start_mono list_line_nonempty list_last_unbroken)

interpretation list_rope: rope_utf16 list_rope
  by unfold_locales simp_all

end
