(* ===== verification/Movement.thy ===== *)
theory Movement
  imports Rope
begin

text \<open>
  Cursor motion over a rope (\<open>crates/editor/src/movement.rs\<close>) and the conversion between char
  offsets and protocol positions in UTF-16 code units (\<open>crates/editor/src/position.rs\<close>).
  Every function takes the rope's operations; \<open>None\<close> is a panic of one of them.
\<close>

section \<open>Cursor motion\<close>

definition line_of :: "'r rope_api \<Rightarrow> 'r \<Rightarrow> nat \<Rightarrow> nat option" where
  "line_of R t pos = rope_char_to_line R t (min pos (rope_len R t))"

definition column_of :: "'r rope_api \<Rightarrow> 'r \<Rightarrow> nat \<Rightarrow> nat option" where
  "column_of R t pos =
     (let pos = min pos (rope_len R t) in
      do { l \<leftarrow> rope_char_to_line R t pos;
           s \<leftarrow> rope_line_to_char R t l;
           if pos < s then None else Some (pos - s) })"

definition line_start :: "'r rope_api \<Rightarrow> 'r \<Rightarrow> nat \<Rightarrow> nat option" where
  "line_start R t pos = do { l \<leftarrow> line_of R t pos; rope_line_to_char R t l }"

text \<open>The chars of a line before its newline char.\<close>

definition visible_len :: "'r rope_api \<Rightarrow> 'r \<Rightarrow> nat" where
  "visible_len R line =
     (let len = rope_len R line in
      if 0 < len \<and> rope_chars R line ! (len - 1) = newline then len - 1 else len)"

definition line_end :: "'r rope_api \<Rightarrow> 'r \<Rightarrow> nat \<Rightarrow> nat option" where
  "line_end R t pos =
     do { l \<leftarrow> line_of R t pos;
          start \<leftarrow> rope_line_to_char R t l;
          line \<leftarrow> rope_line R t l;
          Some (start + visible_len R line) }"

definition move_left :: "nat \<Rightarrow> nat" where
  "move_left pos = pos - 1"

definition move_right :: "'r rope_api \<Rightarrow> 'r \<Rightarrow> nat \<Rightarrow> nat" where
  "move_right R t pos = min (pos + 1) (rope_len R t)"

definition to_line :: "'r rope_api \<Rightarrow> 'r \<Rightarrow> nat \<Rightarrow> nat \<Rightarrow> nat option" where
  "to_line R t line column =
     do { start \<leftarrow> rope_line_to_char R t line;
          e \<leftarrow> line_end R t start;
          Some (min (start + column) e) }"

definition move_up :: "'r rope_api \<Rightarrow> 'r \<Rightarrow> nat \<Rightarrow> nat option \<Rightarrow> nat option" where
  "move_up R t pos goal =
     do { line \<leftarrow> line_of R t pos;
          if line = 0 then Some pos
          else do { c \<leftarrow> (case goal of Some g \<Rightarrow> Some g | None \<Rightarrow> column_of R t pos);
                    to_line R t (line - 1) c } }"

definition move_down :: "'r rope_api \<Rightarrow> 'r \<Rightarrow> nat \<Rightarrow> nat option \<Rightarrow> nat option" where
  "move_down R t pos goal =
     do { line \<leftarrow> line_of R t pos;
          if rope_len_lines R t \<le> line + 1 then Some pos
          else do { c \<leftarrow> (case goal of Some g \<Rightarrow> Some g | None \<Rightarrow> column_of R t pos);
                    to_line R t (line + 1) c } }"

section \<open>Protocol positions\<close>

text \<open>A cast to \<open>u32\<close> keeps the low bits.\<close>

definition utf16_position :: "'r rope_api \<Rightarrow> 'r \<Rightarrow> nat \<Rightarrow> (nat \<times> nat) option" where
  "utf16_position R t off =
     (let off = min off (rope_len R t) in
      do { l \<leftarrow> rope_char_to_line R t off;
           s \<leftarrow> rope_line_to_char R t l;
           line \<leftarrow> rope_line R t l;
           c \<leftarrow> (if off < s then None else rope_char_to_utf16 R line (off - s));
           Some (l mod 2 ^ 32, c mod 2 ^ 32) })"

definition offset_from_utf16 :: "'r rope_api \<Rightarrow> 'r \<Rightarrow> nat \<Rightarrow> nat \<Rightarrow> nat option" where
  "offset_from_utf16 R t line character =
     (if rope_len_lines R t \<le> line then Some (rope_len R t)
      else do { sl \<leftarrow> rope_line R t line;
                content \<leftarrow> rope_slice R sl 0
                  (rope_len R sl
                   - (if rope_chars R sl \<noteq> [] \<and> last (rope_chars R sl) = newline then 1 else 0));
                s \<leftarrow> rope_line_to_char R t line;
                c \<leftarrow> rope_utf16_to_char R content (min character (rope_len_utf16 R content));
                Some (s + c) })"

section \<open>Where a motion ends\<close>

text \<open>Every line but the last ends with a newline char: the document's only line breaks.\<close>

definition newline_lines :: "'r rope_api \<Rightarrow> 'r \<Rightarrow> bool" where
  "newline_lines R t \<longleftrightarrow> (\<forall>l e. Suc l < rope_len_lines R t \<longrightarrow> rope_line_to_char R t (Suc l) = Some e
     \<longrightarrow> 0 < e \<and> rope_chars R t ! (e - 1) = newline)"

context rope_lines begin

lemma line_bounds:
  assumes "pos \<le> length (rope_chars R t)"
  obtains l s e x where "rope_char_to_line R t pos = Some l" "l < rope_len_lines R t"
    "rope_line_to_char R t l = Some s" "rope_line_to_char R t (Suc l) = Some e"
    "s \<le> pos" "pos < e \<or> Suc l = rope_len_lines R t \<and> pos \<le> e" "e \<le> length (rope_chars R t)"
    "rope_line R t l = Some x" "rope_chars R x = slice s e (rope_chars R t)"
proof -
  obtain l s e where *: "rope_char_to_line R t pos = Some l" "l < rope_len_lines R t"
    "rope_line_to_char R t l = Some s" "rope_line_to_char R t (Suc l) = Some e"
    "s \<le> pos" "pos < e \<or> Suc l = rope_len_lines R t"
    using line_of_in [OF assms] by blast
  obtain e' where "rope_line_to_char R t (Suc l) = Some e'" "e' \<le> length (rope_chars R t)"
    using line_start_in [of "Suc l" t] *(2) by auto
  with *(4) have e: "e \<le> length (rope_chars R t)" by simp
  have "pos < e \<or> Suc l = rope_len_lines R t \<and> pos \<le> e"
    using *(4,6) past_lines [of t] assms by auto
  with * e line_in [OF *(3,4)] that show thesis by blast
qed

lemma visible_len_eq:
  assumes "rope_chars R x = slice s e (rope_chars R t)" "s \<le> e" "e \<le> length (rope_chars R t)"
  shows "visible_len R x
      = (if s < e \<and> rope_chars R t ! (e - 1) = newline then e - s - 1 else e - s)"
proof (cases "s < e")
  case True
  then have "rope_chars R x ! (e - s - 1) = rope_chars R t ! (e - 1)"
    using assms nth_slice [of "e - s - 1" e s "rope_chars R t"] by simp
  with True assms show ?thesis by (simp add: visible_len_def len_chars Let_def)
next
  case False
  with assms show ?thesis by (simp add: visible_len_def len_chars Let_def)
qed

lemma line_end_of:
  assumes "rope_line_to_char R t l = Some s" "rope_line_to_char R t (Suc l) = Some e"
    "s \<le> pos" "pos < e \<or> Suc l = rope_len_lines R t \<and> pos \<le> e"
  shows "line_end R t pos
      = Some (if s < e \<and> rope_chars R t ! (e - 1) = newline then e - 1 else e)"
proof -
  have "Suc l \<le> rope_len_lines R t"
    using assms(2) line_start_out [of t "Suc l"] by (cases "rope_len_lines R t < Suc l") auto
  then obtain e' where "rope_line_to_char R t (Suc l) = Some e'" "e' \<le> length (rope_chars R t)"
    using line_start_in by blast
  then have e: "e \<le> length (rope_chars R t)" using assms(2) by simp
  have se: "s \<le> e" using line_mono [OF _ assms(1,2)] by simp
  obtain x where x: "rope_line R t l = Some x" "rope_chars R x = slice s e (rope_chars R t)"
    using line_in [OF assms(1,2)] by blast
  have "pos \<le> length (rope_chars R t)" using assms(4) e by auto
  moreover have "rope_char_to_line R t pos = Some l"
    using line_of_unique [OF assms(1,2,3)] assms(4) by blast
  ultimately show ?thesis
    using assms(1) x visible_len_eq [OF x(2) se e] se
    by (auto simp: line_end_def line_of_def len_chars)
qed

lemma to_line_ok:
  assumes "l < rope_len_lines R t"
  obtains s e p where "rope_line_to_char R t l = Some s" "rope_line_to_char R t (Suc l) = Some e"
    "to_line R t l c = Some p" "s \<le> p" "p \<le> e" "e \<le> length (rope_chars R t)"
    "p = min (s + c) (if s < e \<and> rope_chars R t ! (e - 1) = newline then e - 1 else e)"
proof -
  obtain s e where *: "rope_line_to_char R t l = Some s" "rope_line_to_char R t (Suc l) = Some e"
    "e \<le> length (rope_chars R t)"
    using assms line_start_in [of l t] line_start_in [of "Suc l" t] by auto
  have se: "s \<le> e" using line_mono [OF _ *(1,2)] by simp
  have "s < e \<or> Suc l = rope_len_lines R t \<and> s \<le> e"
    using assms se line_nonempty [OF *(1) _ *(2)] by (cases "Suc l < rope_len_lines R t") auto
  from line_end_of [OF *(1,2) _ this]
  have "line_end R t s = Some (if s < e \<and> rope_chars R t ! (e - 1) = newline then e - 1 else e)"
    by simp
  with * se show thesis by (intro that) (auto simp: to_line_def)
qed

lemma column_of_ok:
  assumes "pos \<le> length (rope_chars R t)"
  obtains l s where "line_of R t pos = Some l" "l < rope_len_lines R t"
    "rope_line_to_char R t l = Some s" "column_of R t pos = Some (pos - s)" "s \<le> pos"
  using line_bounds [OF assms] assms that
  by (auto simp: line_of_def column_of_def len_chars)

lemma before_line_end:
  assumes "rope_line_to_char R t l = Some s" "rope_line_to_char R t (Suc l) = Some e"
    "s \<le> pos" "pos < e \<or> Suc l = rope_len_lines R t \<and> pos \<le> e"
  shows "pos \<le> (if s < e \<and> rope_chars R t ! (e - 1) = newline then e - 1 else e)"
proof (cases "pos < e")
  case False
  then have "rope_len_lines R t = Suc l" "e = length (rope_chars R t)" "pos = e"
    using assms past_lines [of t] by auto
  have "rope_chars R t ! (e - 1) \<noteq> newline" if "s < e"
    by (rule last_unbroken [OF \<open>rope_len_lines R t = Suc l\<close> assms(1)])
      (use that \<open>e = length _\<close> in auto)
  with \<open>pos = e\<close> show ?thesis by auto
qed auto

lemma motions_ok:
  assumes "pos \<le> length (rope_chars R t)"
  shows "\<exists>p. line_start R t pos = Some p \<and> p \<le> pos"
    "\<exists>p. line_end R t pos = Some p \<and> pos \<le> p \<and> p \<le> length (rope_chars R t)"
    "\<exists>p. move_up R t pos g = Some p \<and> p \<le> length (rope_chars R t)
       \<and> (line_of R t pos = Some 0 \<longrightarrow> p = pos)"
    "\<exists>p. move_down R t pos g = Some p \<and> p \<le> length (rope_chars R t)
       \<and> (line_of R t pos = Some (rope_len_lines R t - 1) \<longrightarrow> p = pos)"
proof -
  obtain l s e where l: "rope_char_to_line R t pos = Some l" "l < rope_len_lines R t"
    "rope_line_to_char R t l = Some s" "rope_line_to_char R t (Suc l) = Some e"
    "s \<le> pos" "pos < e \<or> Suc l = rope_len_lines R t \<and> pos \<le> e" "e \<le> length (rope_chars R t)"
    using line_bounds [OF assms] by metis
  then have lo: "line_of R t pos = Some l" using assms by (simp add: line_of_def len_chars)
  show "\<exists>p. line_start R t pos = Some p \<and> p \<le> pos"
    using l lo by (simp add: line_start_def)
  show "\<exists>p. line_end R t pos = Some p \<and> pos \<le> p \<and> p \<le> length (rope_chars R t)"
    using line_end_of [OF l(3,4,5,6)] before_line_end [OF l(3,4,5,6)] l(7) by auto
  obtain c where c: "(case g of Some c \<Rightarrow> Some c | None \<Rightarrow> column_of R t pos) = Some c"
  proof (cases g)
    case None
    obtain s where "column_of R t pos = Some (pos - s)" using column_of_ok [OF assms] by metis
    with None that show thesis by simp
  qed simp
  show "\<exists>p. move_up R t pos g = Some p \<and> p \<le> length (rope_chars R t)
      \<and> (line_of R t pos = Some 0 \<longrightarrow> p = pos)"
  proof (cases "l = 0")
    case False
    then have "l - 1 < rope_len_lines R t" using l(2) by simp
    then obtain p where "to_line R t (l - 1) c = Some p" "p \<le> length (rope_chars R t)"
      using to_line_ok [of "l - 1" t c] by (metis order_trans)
    with False lo c show ?thesis by (simp add: move_up_def)
  qed (use lo assms in \<open>simp add: move_up_def\<close>)
  show "\<exists>p. move_down R t pos g = Some p \<and> p \<le> length (rope_chars R t)
      \<and> (line_of R t pos = Some (rope_len_lines R t - 1) \<longrightarrow> p = pos)"
  proof (cases "rope_len_lines R t \<le> l + 1")
    case False
    then have "l + 1 < rope_len_lines R t" by simp
    then obtain p where "to_line R t (l + 1) c = Some p" "p \<le> length (rope_chars R t)"
      using to_line_ok [of "l + 1" t c] by (metis order_trans)
    with False lo c show ?thesis by (auto simp: move_down_def)
  qed (use lo assms in \<open>simp add: move_down_def\<close>)
qed

lemma to_line_lands:
  assumes "newline_lines R t" "l < rope_len_lines R t" "to_line R t l c = Some p"
  shows "line_of R t p = Some l" "p \<le> length (rope_chars R t)"
proof -
  obtain s e q where l: "rope_line_to_char R t l = Some s" "rope_line_to_char R t (Suc l) = Some e"
    "to_line R t l c = Some q" "s \<le> q" "q \<le> e" "e \<le> length (rope_chars R t)"
    "q = min (s + c) (if s < e \<and> rope_chars R t ! (e - 1) = newline then e - 1 else e)"
    using to_line_ok [OF assms(2), of c] by metis
  have "p < e \<or> Suc l = rope_len_lines R t \<and> p \<le> e"
  proof (cases "Suc l < rope_len_lines R t")
    case True
    then have "s < e" "rope_chars R t ! (e - 1) = newline"
      using line_nonempty [OF l(1) True l(2)] assms(1) l(2) by (auto simp: newline_lines_def)
    with l(3,7) assms(3) show ?thesis by auto
  qed (use l(3,5) assms(2,3) in auto)
  moreover have "s \<le> p" "p \<le> e" using l(3-5) assms(3) by auto
  ultimately show "line_of R t p = Some l" "p \<le> length (rope_chars R t)"
    using line_of_unique [OF l(1,2)] l(6) by (auto simp: line_of_def len_chars)
qed

lemma to_line_back:
  assumes "pos \<le> length (rope_chars R t)" "rope_char_to_line R t pos = Some l"
    "column_of R t pos = Some c"
  shows "to_line R t l c = Some pos"
proof -
  obtain s e where l: "l < rope_len_lines R t" "rope_line_to_char R t l = Some s"
    "rope_line_to_char R t (Suc l) = Some e" "s \<le> pos"
    "pos < e \<or> Suc l = rope_len_lines R t \<and> pos \<le> e"
    using line_bounds [OF assms(1)] assms(2) by (metis option.inject)
  then have "c = pos - s" using assms by (simp add: column_of_def len_chars)
  moreover note before_line_end [OF l(2,3,4,5)]
  moreover obtain p where "to_line R t l c = Some p"
    "p = min (s + c) (if s < e \<and> rope_chars R t ! (e - 1) = newline then e - 1 else e)"
    using to_line_ok [OF l(1), of c] l(2,3) by (metis option.inject)
  ultimately show ?thesis using l(4) by simp
qed

end

section \<open>The properties of motion\<close>

text \<open>
  From a cursor inside the document every motion ends inside it, without panicking; Home and End
  enclose the cursor, and Up on the first line and Down on the last leave it where it is.
\<close>

theorem motions_stay_in_document:
  assumes "rope_lines R" and "pos \<le> rope_len R t"
  shows "\<exists>l a b up down. line_of R t pos = Some l \<and> l < rope_len_lines R t
    \<and> line_start R t pos = Some a \<and> line_end R t pos = Some b
    \<and> a \<le> pos \<and> pos \<le> b \<and> b \<le> rope_len R t
    \<and> move_left pos \<le> rope_len R t \<and> move_right R t pos \<le> rope_len R t
    \<and> move_up R t pos goal = Some up \<and> up \<le> rope_len R t \<and> (l = 0 \<longrightarrow> up = pos)
    \<and> move_down R t pos goal = Some down \<and> down \<le> rope_len R t
    \<and> (Suc l = rope_len_lines R t \<longrightarrow> down = pos)"
proof -
  note len = rope_text.len_chars [OF rope_lines.axioms(1) [OF assms(1)]]
  have pos: "pos \<le> length (rope_chars R t)" using assms(2) by (simp add: len)
  note ok = rope_lines.motions_ok [OF assms(1) pos]
  obtain l where "line_of R t pos = Some l" "l < rope_len_lines R t"
    using rope_lines.column_of_ok [OF assms(1) pos] by metis
  moreover have "Suc l = rope_len_lines R t \<longleftrightarrow> l = rope_len_lines R t - 1"
    if "l < rope_len_lines R t" using that by auto
  ultimately show ?thesis
    using ok(1,2) ok(3,4) [of goal] pos by (auto simp: len move_left_def move_right_def)
qed

lemma motions_stay_in_document_witness:
  "\<exists>b. line_end list_rope (ustr [CHR ''a'', CHR ''b'', CHR ''c'']) 1 = Some b \<and> b \<le> 3"
  using motions_stay_in_document [OF list_rope.rope_lines_axioms,
    of 1 "ustr [CHR ''a'', CHR ''b'', CHR ''c'']" None]
  by auto

text \<open>
  The sticky column: in a document whose lines end with newline chars, moving down from a line
  that is not the last and then up again, with the column the motion started from as the goal,
  lands on the next line and comes back to where it started, however short that line is.
\<close>

theorem down_up_returns:
  assumes "rope_lines R" and "newline_lines R t" and "pos \<le> rope_len R t"
    and "line_of R t pos = Some l" and "Suc l < rope_len_lines R t"
  shows "\<exists>c p. column_of R t pos = Some c \<and> move_down R t pos (Some c) = Some p
    \<and> line_of R t p = Some (Suc l) \<and> move_up R t p (Some c) = Some pos"
proof -
  note len = rope_text.len_chars [OF rope_lines.axioms(1) [OF assms(1)]]
  have pos: "pos \<le> length (rope_chars R t)" using assms(3) by (simp add: len)
  obtain c where c: "column_of R t pos = Some c"
    using rope_lines.column_of_ok [OF assms(1) pos] by metis
  obtain p where p: "to_line R t (Suc l) c = Some p"
    using rope_lines.to_line_ok [OF assms(1,5)] by metis
  from rope_lines.to_line_lands [OF assms(1,2,5) this]
  have "line_of R t p = Some (Suc l)" by simp
  moreover have "to_line R t l c = Some pos"
    using rope_lines.to_line_back [OF assms(1) pos _ c] assms(4) pos by (simp add: line_of_def len)
  ultimately show ?thesis
    using c p assms(4,5) by (simp add: move_down_def move_up_def)
qed

lemma down_up_returns_witness:
  "\<exists>p. move_down list_rope [97, 98, 10, 99] 2 (Some 2) = Some p
     \<and> move_up list_rope [97, 98, 10, 99] p (Some 2) = Some 2"
proof -
  have "newline_lines list_rope [97, 98, 10, 99]"
    by (auto simp: newline_lines_def less_Suc_eq)
  from down_up_returns [OF list_rope.rope_lines_axioms this, of 2 0]
  show ?thesis by (auto simp: line_of_def column_of_def numeral_2_eq_2)
qed

section \<open>Protocol positions\<close>

lemma utf16_char_total: "utf16_char s (utf16_total s) = length s"
  using utf16_char_prefix [of s "length s"] by simp

lemma utf16_total_take: "utf16_total (take i s) \<le> utf16_total s"
  by (metis append_take_drop_id le_add1 utf16_total_simps(3))

context rope_utf16 begin

lemma utf16_position_ok:
  assumes "pos \<le> length (rope_chars R t)"
  obtains l s e where "rope_line_to_char R t l = Some s" "rope_line_to_char R t (Suc l) = Some e"
    "l < rope_len_lines R t" "s \<le> pos" "pos < e \<or> Suc l = rope_len_lines R t \<and> pos \<le> e"
    "utf16_position R t pos = Some (l mod 2 ^ 32,
       utf16_total (slice s pos (rope_chars R t)) mod 2 ^ 32)"
proof -
  obtain l s e x where l: "rope_char_to_line R t pos = Some l" "l < rope_len_lines R t"
    "rope_line_to_char R t l = Some s" "rope_line_to_char R t (Suc l) = Some e"
    "s \<le> pos" "pos < e \<or> Suc l = rope_len_lines R t \<and> pos \<le> e" "e \<le> length (rope_chars R t)"
    "rope_line R t l = Some x" "rope_chars R x = slice s e (rope_chars R t)"
    using line_bounds [OF assms] by metis
  have "pos \<le> e" using l(6) by auto
  then have "take (pos - s) (rope_chars R x) = slice s pos (rope_chars R t)"
    using l(9) by (simp add: slice_def min_def)
  moreover have "pos - s \<le> length (rope_chars R x)"
    using l(7,9) \<open>pos \<le> e\<close> by simp
  ultimately have "rope_char_to_utf16 R x (pos - s)
      = Some (utf16_total (slice s pos (rope_chars R t)))"
    using to_utf16_in by simp
  with l assms that show thesis by (simp add: utf16_position_def len_chars)
qed

text \<open>The content of a line: its chars before the newline char.\<close>

lemma offset_from_utf16_ok:
  assumes "l < rope_len_lines R t" "rope_line_to_char R t l = Some s"
    "rope_line_to_char R t (Suc l) = Some e"
  defines "v \<equiv> if s < e \<and> rope_chars R t ! (e - 1) = newline then e - 1 else e"
  shows "offset_from_utf16 R t l c
    = Some (s + utf16_char (slice s v (rope_chars R t))
        (min c (utf16_total (slice s v (rope_chars R t)))))"
    "s \<le> v" "v \<le> length (rope_chars R t)"
proof -
  obtain e' where "rope_line_to_char R t (Suc l) = Some e'" "e' \<le> length (rope_chars R t)"
    using line_start_in [of "Suc l" t] assms(1) by auto
  then have e: "e \<le> length (rope_chars R t)" using assms(3) by simp
  have se: "s \<le> e" using line_mono [OF _ assms(2,3)] by simp
  then show v: "s \<le> v" "v \<le> length (rope_chars R t)" using e by (auto simp: v_def)
  obtain x where x: "rope_line R t l = Some x" "rope_chars R x = slice s e (rope_chars R t)"
    using line_in [OF assms(2,3)] by blast
  have lx: "length (rope_chars R x) = e - s" using x(2) e by simp
  have "last (rope_chars R x) = rope_chars R t ! (e - 1)" if "s < e"
  proof -
    have "rope_chars R x \<noteq> []" using that lx by auto
    then have "last (rope_chars R x) = rope_chars R x ! (e - s - 1)"
      by (simp add: last_conv_nth lx)
    then show ?thesis using nth_slice [of "e - s - 1" e s "rope_chars R t"] that e x(2) by simp
  qed
  then have n: "rope_len R x
      - (if rope_chars R x \<noteq> [] \<and> last (rope_chars R x) = newline then 1 else 0) = v - s"
    using lx se by (cases "s < e") (auto simp: v_def len_chars)
  obtain y where y: "rope_slice R x 0 (v - s) = Some y"
    "rope_chars R y = slice 0 (v - s) (rope_chars R x)"
  proof -
    have "v - s \<le> length (rope_chars R x)" using lx by (auto simp: v_def)
    with slice_in [of 0 "v - s" x] that show thesis by blast
  qed
  have "rope_chars R y = slice s v (rope_chars R t)"
    using y(2) x(2) v by (simp add: slice_def min_def v_def)
  with n x y assms(1,2) show "offset_from_utf16 R t l c
    = Some (s + utf16_char (slice s v (rope_chars R t))
        (min c (utf16_total (slice s v (rope_chars R t)))))"
    using of_utf16_in [of "min c (rope_len_utf16 R y)" y]
    by (simp add: offset_from_utf16_def len_utf16)
qed

end

text \<open>
  Converting an offset to a protocol position and back gives the offset, on every char of the
  document and at its end, as long as its line and its column fit in 32 bits.
\<close>

theorem utf16_round_trip:
  assumes "rope_utf16 R" and "pos \<le> rope_len R t"
    and "rope_len_lines R t \<le> 2 ^ 32" and "utf16_total (rope_chars R t) < 2 ^ 32"
  shows "\<exists>l c. utf16_position R t pos = Some (l, c) \<and> offset_from_utf16 R t l c = Some pos"
proof -
  note lines = rope_utf16.axioms(1) [OF assms(1)]
  note len = rope_text.len_chars [OF rope_lines.axioms(1) [OF lines]]
  have pos: "pos \<le> length (rope_chars R t)" using assms(2) by (simp add: len)
  obtain l s e where l: "rope_line_to_char R t l = Some s" "rope_line_to_char R t (Suc l) = Some e"
    "l < rope_len_lines R t" "s \<le> pos" "pos < e \<or> Suc l = rope_len_lines R t \<and> pos \<le> e"
    "utf16_position R t pos = Some (l mod 2 ^ 32,
       utf16_total (slice s pos (rope_chars R t)) mod 2 ^ 32)"
    using rope_utf16.utf16_position_ok [OF assms(1) pos] by metis
  let ?v = "if s < e \<and> rope_chars R t ! (e - 1) = newline then e - 1 else e"
  note v = rope_utf16.offset_from_utf16_ok [OF assms(1) l(3,1,2)]
  have pv: "pos \<le> ?v" using rope_lines.before_line_end [OF lines l(1,2,4,5)] .
  let ?content = "slice s ?v (rope_chars R t)"
  have pre: "slice s pos (rope_chars R t) = take (pos - s) ?content"
    using pv by (simp add: slice_def min_def)
  have "utf16_total (slice s pos (rope_chars R t)) \<le> utf16_total (rope_chars R t)"
    unfolding slice_def using utf16_total_take
    by (metis append_take_drop_id le_add2 order_trans utf16_total_simps(3))
  then have "utf16_total (slice s pos (rope_chars R t)) < 2 ^ 32" using assms(4) by simp
  moreover have "utf16_char ?content (utf16_total (take (pos - s) ?content)) = pos - s"
    using utf16_char_prefix [of ?content "pos - s"] pv v(3) by simp
  ultimately show ?thesis
    using l v(1) assms(3) utf16_total_take [of "pos - s" ?content] unfolding pre by simp
qed

lemma utf16_round_trip_witness:
  "\<exists>l c. utf16_position list_rope [97, 128512, 10, 99] 2 = Some (l, c)
     \<and> offset_from_utf16 list_rope [97, 128512, 10, 99] l c = Some 2"
  using utf16_round_trip [OF list_rope.rope_utf16_axioms, of 2 "[97, 128512, 10, 99]"]
  by (simp add: utf16_len_def)

text \<open>
  Whatever position a server sends, the conversion does not panic and clamps it: past the last
  line it is the document's end, and otherwise it lies on the line, at most at its end.
\<close>

theorem utf16_positions_clamp:
  assumes "rope_utf16 R"
  shows "\<exists>p. offset_from_utf16 R t line c = Some p \<and> p \<le> rope_len R t
    \<and> (if rope_len_lines R t \<le> line then p = rope_len R t
       else \<exists>s b. rope_line_to_char R t line = Some s \<and> line_end R t s = Some b \<and> s \<le> p \<and> p \<le> b)"
proof (cases "rope_len_lines R t \<le> line")
  case True
  then show ?thesis by (simp add: offset_from_utf16_def)
next
  case False
  note lines = rope_utf16.axioms(1) [OF assms]
  note len = rope_text.len_chars [OF rope_lines.axioms(1) [OF lines]]
  obtain s e where l: "rope_line_to_char R t line = Some s" "rope_line_to_char R t (Suc line) = Some e"
    using rope_lines.to_line_ok [OF lines, of line t] False by (metis not_le)
  have "line < rope_len_lines R t" using False by simp
  define v where "v = (if s < e \<and> rope_chars R t ! (e - 1) = newline then e - 1 else e)"
  note v = rope_utf16.offset_from_utf16_ok [OF assms \<open>line < _\<close> l, folded v_def]
  have "s \<le> e" using rope_lines.line_mono [OF lines _ l] by simp
  then have "s < e \<or> Suc line = rope_len_lines R t \<and> s \<le> e"
    using rope_lines.line_nonempty [OF lines l(1) _ l(2)] False
    by (cases "Suc line < rope_len_lines R t") auto
  note b = rope_lines.line_end_of [OF lines l order.refl this, folded v_def]
  have "utf16_char (slice s v (rope_chars R t)) n \<le> v - s" for n
    using utf16_char_le [of "slice s v (rope_chars R t)" n] v(3) by simp
  from this [of "min c (utf16_total (slice s v (rope_chars R t)))"] False l(1) b v
  show ?thesis by (auto simp: len)
qed

lemma utf16_positions_clamp_witness:
  "\<exists>p. offset_from_utf16 list_rope [97, 128512, 10, 99] 0 70000 = Some p \<and> p \<le> 4"
  using utf16_positions_clamp [OF list_rope.rope_utf16_axioms, of "[97, 128512, 10, 99]" 0 70000]
  by auto

end
