(* ===== verification/Change.thy ===== *)
theory Change
  imports Rope
begin

text \<open>
  Changesets (\<open>crates/editor/src/change.rs\<close>): a complete traversal of a document as a list of
  operations, built in a canonical form, applied to a rope, inverted, composed, and used to map
  positions and to classify what an edit did to a range.

  \<open>denote\<close> is the abstract meaning of an operation list on plain texts; the lemmas relate every
  operation of the code to it.
\<close>

datatype assoc = Before | After

datatype range_effect = Untouched | InsertedInside | PartlyDeleted

datatype operation = Retain nat | Delete nat | Insert utext

record change_set =
  cs_ops :: "operation list"
  cs_len_before :: nat
  cs_len_after :: nat

record changed_span =
  before_start :: nat
  before_end :: nat
  after_start :: nat
  after_end :: nat

record change_set_builder =
  bd_ops :: "operation list"
  bd_len_before :: nat
  bd_consumed :: nat

section \<open>The builder\<close>

definition cs_builder :: "nat \<Rightarrow> change_set_builder" where
  "cs_builder len_before = \<lparr>bd_ops = [], bd_len_before = len_before, bd_consumed = 0\<rparr>"

definition bd_retain :: "change_set_builder \<Rightarrow> nat \<Rightarrow> change_set_builder" where
  "bd_retain b n =
     (if n = 0 then b
      else b\<lparr>bd_consumed := bd_consumed b + n,
             bd_ops :=
               (case rev (bd_ops b) of
                  Retain prev # front \<Rightarrow> rev front @ [Retain (prev + n)]
                | _ \<Rightarrow> bd_ops b @ [Retain n])\<rparr>)"

text \<open>The index a deletion goes to: in front of a trailing insertion.\<close>

definition delete_at :: "operation list \<Rightarrow> nat" where
  "delete_at ops =
     (case rev ops of Insert _ # _ \<Rightarrow> length ops - 1 | _ \<Rightarrow> length ops)"

definition delete_op :: "operation list \<Rightarrow> nat \<Rightarrow> operation list" where
  "delete_op ops n =
     (let at = delete_at ops in
      case (if 0 < at then Some (ops ! (at - 1)) else None) of
        Some (Delete prev) \<Rightarrow> ops[at - 1 := Delete (prev + n)]
      | _ \<Rightarrow> take at ops @ [Delete n] @ drop at ops)"

definition bd_delete :: "change_set_builder \<Rightarrow> nat \<Rightarrow> change_set_builder" where
  "bd_delete b n =
     (if n = 0 then b
      else b\<lparr>bd_consumed := bd_consumed b + n, bd_ops := delete_op (bd_ops b) n\<rparr>)"

definition bd_insert :: "change_set_builder \<Rightarrow> utext \<Rightarrow> change_set_builder" where
  "bd_insert b s =
     (if s = [] then b
      else b\<lparr>bd_ops :=
               (case rev (bd_ops b) of
                  Insert prev # front \<Rightarrow> rev front @ [Insert (prev @ s)]
                | _ \<Rightarrow> bd_ops b @ [Insert s])\<rparr>)"

fun op_out :: "operation \<Rightarrow> nat" where
  "op_out (Retain n) = n"
| "op_out (Delete _) = 0"
| "op_out (Insert s) = length s"

text \<open>\<open>None\<close>: more of the document was consumed than it has (\<open>expect\<close>).\<close>

definition bd_build :: "change_set_builder \<Rightarrow> change_set option" where
  "bd_build b =
     (if bd_len_before b < bd_consumed b then None
      else let b' = bd_retain b (bd_len_before b - bd_consumed b) in
        Some \<lparr>cs_ops = bd_ops b', cs_len_before = bd_len_before b',
              cs_len_after = sum_list (map op_out (bd_ops b'))\<rparr>)"

section \<open>Changesets\<close>

definition cs_identity :: "nat \<Rightarrow> change_set option" where
  "cs_identity len = bd_build (cs_builder len)"

text \<open>\<open>to - from\<close> underflows, and panics, when the bounds are reversed.\<close>

definition cs_replace :: "nat \<Rightarrow> nat \<Rightarrow> nat \<Rightarrow> utext \<Rightarrow> change_set option" where
  "cs_replace len_before from to s =
     (if to < from then None
      else bd_build (bd_insert (bd_delete (bd_retain (cs_builder len_before) from) (to - from)) s))"

fun is_retain :: "operation \<Rightarrow> bool" where
  "is_retain (Retain _) = True"
| "is_retain _ = False"

definition cs_is_identity :: "change_set \<Rightarrow> bool" where
  "cs_is_identity cs = list_all is_retain (cs_ops cs)"

fun span_loop ::
  "operation list \<Rightarrow> nat \<Rightarrow> nat \<Rightarrow> (nat \<times> nat) option \<Rightarrow> nat \<times> nat \<Rightarrow>
   (nat \<times> nat) option \<times> (nat \<times> nat)" where
  "span_loop [] before after start end = (start, end)"
| "span_loop (Retain n # ops) before after start end =
     span_loop ops (before + n) (after + n) start end"
| "span_loop (Delete n # ops) before after start end =
     span_loop ops (before + n) after
       (case start of None \<Rightarrow> Some (before, after) | Some s \<Rightarrow> Some s) (before + n, after)"
| "span_loop (Insert s # ops) before after start end =
     span_loop ops before (after + length s)
       (case start of None \<Rightarrow> Some (before, after) | Some x \<Rightarrow> Some x) (before, after + length s)"

definition cs_changed_span :: "change_set \<Rightarrow> changed_span option" where
  "cs_changed_span cs =
     (case span_loop (cs_ops cs) 0 0 None (0, 0) of
        (None, _) \<Rightarrow> None
      | (Some (bs, as), (be, ae)) \<Rightarrow>
          Some \<lparr>before_start = bs, before_end = be, after_start = as, after_end = ae\<rparr>)"

fun apply_loop :: "'r rope_api \<Rightarrow> operation list \<Rightarrow> 'r \<Rightarrow> nat \<Rightarrow> 'r \<Rightarrow> 'r option" where
  "apply_loop R [] doc pos out = Some out"
| "apply_loop R (Retain n # ops) doc pos out =
     do { s \<leftarrow> rope_slice R doc pos (pos + n);
          apply_loop R ops doc (pos + n) (rope_append R out s) }"
| "apply_loop R (Delete n # ops) doc pos out = apply_loop R ops doc (pos + n) out"
| "apply_loop R (Insert s # ops) doc pos out =
     do { out' \<leftarrow> rope_insert R out (rope_len R out) s;
          apply_loop R ops doc pos out' }"

definition cs_apply :: "'r rope_api \<Rightarrow> change_set \<Rightarrow> 'r \<Rightarrow> 'r option" where
  "cs_apply R cs doc =
     (if rope_len R doc \<noteq> cs_len_before cs then None
      else apply_loop R (cs_ops cs) doc 0 (rope_new R))"

fun invert_loop ::
  "'r rope_api \<Rightarrow> operation list \<Rightarrow> 'r \<Rightarrow> nat \<Rightarrow> change_set_builder \<Rightarrow> change_set_builder option"
where
  "invert_loop R [] original pos b = Some b"
| "invert_loop R (Retain n # ops) original pos b =
     invert_loop R ops original (pos + n) (bd_retain b n)"
| "invert_loop R (Delete n # ops) original pos b =
     do { s \<leftarrow> rope_slice R original pos (pos + n);
          invert_loop R ops original (pos + n) (bd_insert b (rope_chars R s)) }"
| "invert_loop R (Insert s # ops) original pos b =
     invert_loop R ops original pos (bd_delete b (length s))"

definition cs_invert :: "'r rope_api \<Rightarrow> change_set \<Rightarrow> 'r \<Rightarrow> change_set option" where
  "cs_invert R cs original =
     (if rope_len R original \<noteq> cs_len_before cs then None
      else do { b \<leftarrow> invert_loop R (cs_ops cs) original 0 (cs_builder (cs_len_after cs));
                bd_build b })"

fun map_pos_loop :: "operation list \<Rightarrow> nat \<Rightarrow> assoc \<Rightarrow> nat \<Rightarrow> nat \<Rightarrow> nat" where
  "map_pos_loop [] pos a old new = new + (pos - old)"
| "map_pos_loop (Retain n # ops) pos a old new =
     (if pos < old + n then new + (pos - old)
      else map_pos_loop ops pos a (old + n) (new + n))"
| "map_pos_loop (Delete n # ops) pos a old new =
     (if pos < old + n then new else map_pos_loop ops pos a (old + n) new)"
| "map_pos_loop (Insert s # ops) pos a old new =
     (if pos = old then (case a of Before \<Rightarrow> new | After \<Rightarrow> new + length s)
      else map_pos_loop ops pos a old (new + length s))"

definition cs_map_pos :: "change_set \<Rightarrow> nat \<Rightarrow> assoc \<Rightarrow> nat" where
  "cs_map_pos cs pos a = map_pos_loop (cs_ops cs) pos a 0 0"

fun touches_loop :: "operation list \<Rightarrow> nat \<Rightarrow> nat \<Rightarrow> nat \<Rightarrow> range_effect \<Rightarrow> range_effect" where
  "touches_loop [] from to old effect = effect"
| "touches_loop (Retain n # ops) from to old effect = touches_loop ops from to (old + n) effect"
| "touches_loop (Delete n # ops) from to old effect =
     (if (if from = to then old < from \<and> from < old + n else old < to \<and> from < old + n)
      then PartlyDeleted
      else touches_loop ops from to (old + n) effect)"
| "touches_loop (Insert s # ops) from to old effect =
     touches_loop ops from to old (if from < old \<and> old < to then InsertedInside else effect)"

definition cs_touches :: "change_set \<Rightarrow> nat \<Rightarrow> nat \<Rightarrow> range_effect option" where
  "cs_touches cs from to =
     (if to < from then None else Some (touches_loop (cs_ops cs) from to 0 Untouched))"

section \<open>Composition\<close>

text \<open>
  The two iterators and their current items are the two lists of operations still to be read.
  \<open>carry\<close> puts an operation back unless it is used up.
\<close>

fun carry :: "operation \<Rightarrow> operation list \<Rightarrow> operation list" where
  "carry (Retain 0) ops = ops"
| "carry (Delete 0) ops = ops"
| "carry op ops = op # ops"

definition carry_insert :: "utext \<Rightarrow> nat \<Rightarrow> operation list \<Rightarrow> operation list" where
  "carry_insert s consumed ops =
     (let rest = drop consumed s in if rest = [] then ops else Insert rest # ops)"

definition take_chars :: "utext \<Rightarrow> nat \<Rightarrow> utext" where
  "take_chars s n = take n s"

lemma carry_retain: "carry (Retain n) ops = (if n = 0 then ops else Retain n # ops)"
  by (cases n) auto

lemma carry_delete: "carry (Delete n) ops = (if n = 0 then ops else Delete n # ops)"
  by (cases n) auto

lemma carry_insert_eq:
  "carry_insert s n ops = (if length s \<le> n then ops else Insert (drop n s) # ops)"
  by (simp add: carry_insert_def)

function compose_loop ::
  "operation list \<Rightarrow> operation list \<Rightarrow> change_set_builder \<Rightarrow> change_set_builder option"
where
  "compose_loop [] [] b = Some b"
| "compose_loop (Delete n # as) cs b = compose_loop as cs (bd_delete b n)"
| "compose_loop [] (Insert s # cs) b = compose_loop [] cs (bd_insert b s)"
| "compose_loop (Retain i # as) (Insert s # cs) b =
     compose_loop (Retain i # as) cs (bd_insert b s)"
| "compose_loop (Insert r # as) (Insert s # cs) b =
     compose_loop (Insert r # as) cs (bd_insert b s)"
| "compose_loop (Retain i # as) (Retain j # cs) b =
     (let n = min i j in
      compose_loop (carry (Retain (i - n)) as) (carry (Retain (j - n)) cs) (bd_retain b n))"
| "compose_loop (Retain i # as) (Delete j # cs) b =
     (let n = min i j in
      compose_loop (carry (Retain (i - n)) as) (carry (Delete (j - n)) cs) (bd_delete b n))"
| "compose_loop (Insert s # as) (Retain j # cs) b =
     (let n = min (length s) j in
      compose_loop (carry_insert s n as) (carry (Retain (j - n)) cs)
        (bd_insert b (take_chars s n)))"
| "compose_loop (Insert s # as) (Delete j # cs) b =
     (let n = min (length s) j in
      compose_loop (carry_insert s n as) (carry (Delete (j - n)) cs) b)"
| "compose_loop [] (Retain j # cs) b = None"
| "compose_loop [] (Delete j # cs) b = None"
| "compose_loop (Retain i # as) [] b = None"
| "compose_loop (Insert s # as) [] b = None"
  by pat_completeness auto
termination
  by (relation "measure (\<lambda>(as, cs, b). length as + length cs)")
    (auto simp: carry_retain carry_delete carry_insert_eq min_def)

definition cs_compose :: "change_set \<Rightarrow> change_set \<Rightarrow> change_set option" where
  "cs_compose a c =
     (if cs_len_after a \<noteq> cs_len_before c then None
      else do { b \<leftarrow> compose_loop (cs_ops a) (cs_ops c) (cs_builder (cs_len_before a));
                bd_build b })"

section \<open>What an operation list means\<close>

fun op_in :: "operation \<Rightarrow> nat" where
  "op_in (Retain n) = n"
| "op_in (Delete n) = n"
| "op_in (Insert _) = 0"

definition in_len :: "operation list \<Rightarrow> nat" where
  "in_len ops = sum_list (map op_in ops)"

definition out_len :: "operation list \<Rightarrow> nat" where
  "out_len ops = sum_list (map op_out ops)"

fun denote :: "operation list \<Rightarrow> utext \<Rightarrow> utext" where
  "denote [] t = []"
| "denote (Retain n # ops) t = take n t @ denote ops (drop n t)"
| "denote (Delete n # ops) t = denote ops (drop n t)"
| "denote (Insert s # ops) t = s @ denote ops t"

lemma in_len_simps [simp]:
  "in_len [] = 0" "in_len (x # xs) = op_in x + in_len xs" "in_len (xs @ ys) = in_len xs + in_len ys"
  by (simp_all add: in_len_def)

lemma out_len_simps [simp]:
  "out_len [] = 0" "out_len (x # xs) = op_out x + out_len xs"
  "out_len (xs @ ys) = out_len xs + out_len ys"
  by (simp_all add: out_len_def)

lemma denote_append:
  "denote (xs @ ys) t = denote xs t @ denote ys (drop (in_len xs) t)"
  by (induction xs t rule: denote.induct) (simp_all add: add.commute)

lemma length_denote: "in_len ops \<le> length t \<Longrightarrow> length (denote ops t) = out_len ops"
  by (induction ops t rule: denote.induct) auto

lemma carry_sem [simp]:
  "denote (carry (Retain n) ops) t = denote (Retain n # ops) t"
  "denote (carry (Delete n) ops) t = denote (Delete n # ops) t"
  "in_len (carry (Retain n) ops) = n + in_len ops"
  "in_len (carry (Delete n) ops) = n + in_len ops"
  "out_len (carry (Retain n) ops) = n + out_len ops"
  "out_len (carry (Delete n) ops) = out_len ops"
  by (simp_all add: carry_retain carry_delete)

lemma carry_insert_sem [simp]:
  "denote (carry_insert s n ops) t = drop n s @ denote ops t"
  "in_len (carry_insert s n ops) = in_len ops"
  "out_len (carry_insert s n ops) = length s - n + out_len ops"
  by (auto simp: carry_insert_eq)

section \<open>The canonical form\<close>

fun nonzero :: "operation \<Rightarrow> bool" where
  "nonzero (Retain n) = (n \<noteq> 0)"
| "nonzero (Delete n) = (n \<noteq> 0)"
| "nonzero (Insert s) = (s \<noteq> [])"

fun may_follow :: "operation \<Rightarrow> operation \<Rightarrow> bool" where
  "may_follow (Retain _) (Retain _) = False"
| "may_follow (Delete _) (Delete _) = False"
| "may_follow (Insert _) (Insert _) = False"
| "may_follow (Insert _) (Delete _) = False"
| "may_follow _ _ = True"

definition canonical :: "operation list \<Rightarrow> bool" where
  "canonical ops \<longleftrightarrow> list_all nonzero ops \<and> successively may_follow ops"

definition wf_cs :: "change_set \<Rightarrow> bool" where
  "wf_cs cs \<longleftrightarrow> canonical (cs_ops cs) \<and> in_len (cs_ops cs) = cs_len_before cs
     \<and> out_len (cs_ops cs) = cs_len_after cs"

definition wf_builder :: "change_set_builder \<Rightarrow> bool" where
  "wf_builder b \<longleftrightarrow> canonical (bd_ops b) \<and> in_len (bd_ops b) = bd_consumed b"

lemma canonical_simps:
  "canonical []"
  "canonical (xs @ ys) \<longleftrightarrow> canonical xs \<and> canonical ys
     \<and> (xs \<noteq> [] \<and> ys \<noteq> [] \<longrightarrow> may_follow (last xs) (hd ys))"
  "canonical [x] = nonzero x"
  "canonical (x # y # ys) \<longleftrightarrow> nonzero x \<and> may_follow x y \<and> canonical (y # ys)"
  by (auto simp: canonical_def successively_append_iff)

lemma may_follow_iff [simp]:
  "may_follow x (Retain n) \<longleftrightarrow> (\<forall>m. x \<noteq> Retain m)"
  "may_follow x (Delete n) \<longleftrightarrow> (\<exists>m. x = Retain m)"
  "may_follow x (Insert s) \<longleftrightarrow> (\<forall>r. x \<noteq> Insert r)"
  by (cases x; simp)+

text \<open>The shapes a list of operations can have when an operation is pushed onto it.\<close>

lemma ops_tail_cases:
  obtains (nil) "ops = []"
  | (retain) xs n where "ops = xs @ [Retain n]"
  | (delete) xs n where "ops = xs @ [Delete n]"
  | (insert) s where "ops = [Insert s]"
  | (retain_insert) xs n s where "ops = xs @ [Retain n, Insert s]"
  | (delete_insert) xs n s where "ops = xs @ [Delete n, Insert s]"
  | (insert_insert) xs r s where "ops = xs @ [Insert r, Insert s]"
proof (cases ops rule: rev_cases)
  case (snoc xs x)
  show ?thesis
  proof (cases x)
    case (Insert s)
    show ?thesis
    proof (cases xs rule: rev_cases)
      case (snoc ys y)
      with \<open>ops = _\<close> Insert show ?thesis
        by (cases y) (use retain_insert delete_insert insert_insert in auto)
    qed (use snoc Insert insert in auto)
  qed (use snoc retain delete in auto)
qed (use nil in simp)

lemma delete_op_simps [simp]:
  "delete_op [] n = [Delete n]"
  "delete_op (xs @ [Retain m]) n = xs @ [Retain m, Delete n]"
  "delete_op (xs @ [Delete m]) n = xs @ [Delete (m + n)]"
  "delete_op [Insert s] n = [Delete n, Insert s]"
  "delete_op (xs @ [Retain m, Insert s]) n = xs @ [Retain m, Delete n, Insert s]"
  "delete_op (xs @ [Delete m, Insert s]) n = xs @ [Delete (m + n), Insert s]"
  "delete_op (xs @ [Insert r, Insert s]) n = xs @ [Insert r, Delete n, Insert s]"
  by (simp_all add: delete_op_def delete_at_def nth_append list_update_append)

lemma canonical_delete_op:
  "canonical ops \<Longrightarrow> 0 < n \<Longrightarrow> canonical (delete_op ops n)"
  by (cases ops rule: ops_tail_cases) (auto simp: canonical_simps)

lemma delete_op_sem:
  "in_len (delete_op ops n) = in_len ops + n \<and> out_len (delete_op ops n) = out_len ops
   \<and> denote (delete_op ops n) t = denote ops t"
  by (cases ops rule: ops_tail_cases) (simp_all add: denote_append)

lemma bd_retain_ops:
  "0 < n \<Longrightarrow> bd_ops b = xs @ [Retain m] \<Longrightarrow> bd_ops (bd_retain b n) = xs @ [Retain (m + n)]"
  "0 < n \<Longrightarrow> (\<And>xs m. bd_ops b \<noteq> xs @ [Retain m]) \<Longrightarrow>
     bd_ops (bd_retain b n) = bd_ops b @ [Retain n]"
proof -
  show "0 < n \<Longrightarrow> bd_ops b = xs @ [Retain m] \<Longrightarrow> bd_ops (bd_retain b n) = xs @ [Retain (m + n)]"
    by (simp add: bd_retain_def)
  show "0 < n \<Longrightarrow> (\<And>xs m. bd_ops b \<noteq> xs @ [Retain m]) \<Longrightarrow>
     bd_ops (bd_retain b n) = bd_ops b @ [Retain n]"
    by (cases "bd_ops b" rule: rev_cases; cases "last (bd_ops b)") (auto simp: bd_retain_def)
qed

lemma bd_insert_ops:
  "s \<noteq> [] \<Longrightarrow> bd_ops b = xs @ [Insert r] \<Longrightarrow> bd_ops (bd_insert b s) = xs @ [Insert (r @ s)]"
  "s \<noteq> [] \<Longrightarrow> (\<And>xs r. bd_ops b \<noteq> xs @ [Insert r]) \<Longrightarrow>
     bd_ops (bd_insert b s) = bd_ops b @ [Insert s]"
proof -
  show "s \<noteq> [] \<Longrightarrow> bd_ops b = xs @ [Insert r] \<Longrightarrow> bd_ops (bd_insert b s) = xs @ [Insert (r @ s)]"
    by (simp add: bd_insert_def)
  show "s \<noteq> [] \<Longrightarrow> (\<And>xs r. bd_ops b \<noteq> xs @ [Insert r]) \<Longrightarrow>
     bd_ops (bd_insert b s) = bd_ops b @ [Insert s]"
    by (cases "bd_ops b" rule: rev_cases; cases "last (bd_ops b)") (auto simp: bd_insert_def)
qed

lemma bd_fields [ops_simps]:
  "bd_len_before (bd_retain b n) = bd_len_before b"
  "bd_consumed (bd_retain b n) = bd_consumed b + n"
  "bd_len_before (bd_delete b n) = bd_len_before b"
  "bd_consumed (bd_delete b n) = bd_consumed b + n"
  "bd_len_before (bd_insert b s) = bd_len_before b"
  "bd_consumed (bd_insert b s) = bd_consumed b"
  by (simp_all add: bd_retain_def bd_delete_def bd_insert_def)

lemma bd_retain_all:
  "in_len (bd_ops (bd_retain b n)) = in_len (bd_ops b) + n
   \<and> out_len (bd_ops (bd_retain b n)) = out_len (bd_ops b) + n
   \<and> denote (bd_ops (bd_retain b n)) t = denote (bd_ops b) t @ take n (drop (in_len (bd_ops b)) t)"
proof (cases "n = 0")
  case True
  then show ?thesis by (simp add: bd_retain_def)
next
  case False
  then show ?thesis
  proof (cases "\<exists>xs m. bd_ops b = xs @ [Retain m]")
    case True
    then obtain xs m where "bd_ops b = xs @ [Retain m]" by blast
    with False bd_retain_ops(1) [of n b xs m] show ?thesis
      by (simp add: denote_append take_add add.commute)
  next
    case F: False
    then have "bd_ops (bd_retain b n) = bd_ops b @ [Retain n]"
      using False by (intro bd_retain_ops(2)) auto
    then show ?thesis by (simp add: denote_append)
  qed
qed

lemma bd_insert_all:
  "in_len (bd_ops (bd_insert b s)) = in_len (bd_ops b)
   \<and> out_len (bd_ops (bd_insert b s)) = out_len (bd_ops b) + length s
   \<and> denote (bd_ops (bd_insert b s)) t = denote (bd_ops b) t @ s"
proof (cases "s = []")
  case True
  then show ?thesis by (simp add: bd_insert_def)
next
  case False
  then show ?thesis
  proof (cases "\<exists>xs r. bd_ops b = xs @ [Insert r]")
    case True
    then obtain xs r where "bd_ops b = xs @ [Insert r]" by blast
    with False bd_insert_ops(1) [of s b xs r] show ?thesis by (simp add: denote_append)
  next
    case F: False
    then have "bd_ops (bd_insert b s) = bd_ops b @ [Insert s]"
      using False by (intro bd_insert_ops(2)) auto
    then show ?thesis by (simp add: denote_append)
  qed
qed

lemma bd_delete_all:
  "in_len (bd_ops (bd_delete b n)) = in_len (bd_ops b) + n
   \<and> out_len (bd_ops (bd_delete b n)) = out_len (bd_ops b)
   \<and> denote (bd_ops (bd_delete b n)) t = denote (bd_ops b) t"
  by (simp add: bd_delete_def delete_op_sem)

lemmas bd_sem [ops_simps] =
  bd_retain_all [THEN conjunct1] bd_retain_all [THEN conjunct2, THEN conjunct1]
  bd_retain_all [THEN conjunct2, THEN conjunct2]
  bd_delete_all [THEN conjunct1] bd_delete_all [THEN conjunct2, THEN conjunct1]
  bd_delete_all [THEN conjunct2, THEN conjunct2]
  bd_insert_all [THEN conjunct1] bd_insert_all [THEN conjunct2, THEN conjunct1]
  bd_insert_all [THEN conjunct2, THEN conjunct2]

lemma cs_builder_sem [ops_simps]:
  "bd_len_before (cs_builder n) = n" "bd_consumed (cs_builder n) = 0" "bd_ops (cs_builder n) = []"
  by (simp_all add: cs_builder_def)

lemma wf_builder_steps [intro, simp]:
  "wf_builder (cs_builder n)"
  "wf_builder b \<Longrightarrow> wf_builder (bd_retain b n)"
  "wf_builder b \<Longrightarrow> wf_builder (bd_delete b n)"
  "wf_builder b \<Longrightarrow> wf_builder (bd_insert b s)"
proof -
  show "wf_builder (cs_builder n)"
    by (simp add: wf_builder_def cs_builder_def canonical_simps)
  show "wf_builder b \<Longrightarrow> wf_builder (bd_retain b n)"
    by (cases "bd_ops b" rule: ops_tail_cases)
      (auto simp: wf_builder_def bd_retain_def canonical_simps neq_Nil_conv)
  show "wf_builder b \<Longrightarrow> wf_builder (bd_delete b n)"
    by (auto simp: wf_builder_def bd_delete_def canonical_delete_op delete_op_sem)
  show "wf_builder b \<Longrightarrow> wf_builder (bd_insert b s)"
    by (cases "bd_ops b" rule: ops_tail_cases)
      (auto simp: wf_builder_def bd_insert_def canonical_simps)
qed

text \<open>Building: no panic as long as no more is consumed than there is, and the result is canonical.\<close>

lemma bd_build_ok:
  assumes "wf_builder b" "bd_consumed b \<le> bd_len_before b"
  obtains cs where "bd_build b = Some cs" "wf_cs cs" "cs_len_before cs = bd_len_before b"
    "\<And>t. length t = bd_len_before b \<Longrightarrow>
       denote (cs_ops cs) t = denote (bd_ops b) t @ drop (bd_consumed b) t"
    "cs_len_after cs = out_len (bd_ops b) + (bd_len_before b - bd_consumed b)"
proof -
  define b' where "b' = bd_retain b (bd_len_before b - bd_consumed b)"
  define cs where "cs = \<lparr>cs_ops = bd_ops b', cs_len_before = bd_len_before b',
    cs_len_after = out_len (bd_ops b')\<rparr>"
  have "wf_builder b'" using assms by (simp add: b'_def)
  then have "wf_cs cs"
    using assms by (auto simp: wf_cs_def wf_builder_def cs_def b'_def ops_simps)
  moreover have "bd_build b = Some cs"
    using assms by (simp add: bd_build_def Let_def cs_def out_len_def b'_def)
  ultimately show thesis
    using that [of cs] assms by (auto simp: cs_def b'_def ops_simps wf_builder_def)
qed

section \<open>Applying a changeset to a rope\<close>

context rope_text begin

lemma apply_loop_denote:
  "pos + in_len ops \<le> length (rope_chars R doc) \<Longrightarrow>
   \<exists>x. apply_loop R ops doc pos out = Some x
     \<and> rope_chars R x = rope_chars R out @ denote ops (drop pos (rope_chars R doc))"
proof (induction ops arbitrary: pos out)
  case (Cons op ops)
  show ?case
  proof (cases op)
    case (Retain n)
    with Cons.prems obtain s where "rope_slice R doc pos (pos + n) = Some s"
      "rope_chars R s = take n (drop pos (rope_chars R doc))"
      using slice_in [of pos "pos + n" doc] by (auto simp: slice_drop)
    with Retain Cons.prems Cons.IH [of "pos + n" "rope_append R out s"] show ?thesis
      by (simp add: add.commute)
  next
    case (Delete n)
    with Cons.prems Cons.IH [of "pos + n" out] show ?thesis by (simp add: add.commute)
  next
    case (Insert s)
    obtain out' where "rope_insert R out (rope_len R out) s = Some out'"
      "rope_chars R out' = rope_chars R out @ s"
      using insert_end by blast
    with Insert Cons.prems Cons.IH [of pos out'] show ?thesis by simp
  qed
qed simp

lemma apply_denote:
  assumes "wf_cs cs" "length (rope_chars R doc) = cs_len_before cs"
  obtains x where "cs_apply R cs doc = Some x" "rope_chars R x = denote (cs_ops cs) (rope_chars R doc)"
    "length (rope_chars R x) = cs_len_after cs"
  using assms apply_loop_denote [of 0 "cs_ops cs" doc "rope_new R"]
    length_denote [of "cs_ops cs" "rope_chars R doc"]
  by (auto simp: cs_apply_def wf_cs_def len_chars)

lemma apply_Some:
  assumes "wf_cs cs" "cs_apply R cs doc = Some x"
  shows "length (rope_chars R doc) = cs_len_before cs"
    "rope_chars R x = denote (cs_ops cs) (rope_chars R doc)"
    "length (rope_chars R x) = cs_len_after cs"
proof -
  show *: "length (rope_chars R doc) = cs_len_before cs"
    using assms by (simp add: cs_apply_def len_chars split: if_splits)
  from apply_denote [OF assms(1) *] assms(2)
  show "rope_chars R x = denote (cs_ops cs) (rope_chars R doc)"
    "length (rope_chars R x) = cs_len_after cs" by fastforce+
qed

end

section \<open>Replacing a range\<close>

lemma cs_replace_ok:
  assumes "from \<le> to" "to \<le> n"
  obtains cs where "cs_replace n from to s = Some cs" "wf_cs cs" "cs_len_before cs = n"
    "\<And>t. length t = n \<Longrightarrow> denote (cs_ops cs) t = take from t @ s @ drop to t"
    "cs_len_after cs = n - (to - from) + length s"
proof -
  define b where "b = bd_insert (bd_delete (bd_retain (cs_builder n) from) (to - from)) s"
  have "wf_builder b" by (simp add: b_def)
  moreover have "bd_consumed b \<le> bd_len_before b" using assms by (simp add: b_def ops_simps)
  ultimately obtain cs where "bd_build b = Some cs" "wf_cs cs" "cs_len_before cs = bd_len_before b"
    "\<And>t. length t = bd_len_before b \<Longrightarrow>
       denote (cs_ops cs) t = denote (bd_ops b) t @ drop (bd_consumed b) t"
    "cs_len_after cs = out_len (bd_ops b) + (bd_len_before b - bd_consumed b)"
    using bd_build_ok by blast
  then show thesis using that [of cs] assms by (simp add: cs_replace_def b_def ops_simps)
qed

lemma cs_replace_panics: "to < from \<or> n < to \<Longrightarrow> cs_replace n from to s = None"
  by (auto simp: cs_replace_def bd_build_def ops_simps)

lemma cs_identity_ok:
  obtains cs where "cs_identity n = Some cs" "wf_cs cs" "cs_len_before cs = n" "cs_is_identity cs"
proof -
  have "cs_identity n = Some \<lparr>cs_ops = (if n = 0 then [] else [Retain n]), cs_len_before = n,
    cs_len_after = n\<rparr>"
    by (simp add: cs_identity_def bd_build_def cs_builder_def bd_retain_def)
  then show thesis
    by (rule that) (auto simp: wf_cs_def canonical_simps cs_is_identity_def)
qed

lemma denote_identity:
  "list_all is_retain ops \<Longrightarrow> in_len ops = length t \<Longrightarrow> denote ops t = t"
proof (induction ops arbitrary: t)
  case (Cons op ops)
  then show ?case by (cases op) auto
qed simp

section \<open>Undoing\<close>

context rope_text begin

lemma invert_loop_ok:
  assumes "wf_builder b" "pos + in_len ops \<le> length (rope_chars R original)"
  shows "\<exists>b'. invert_loop R ops original pos b = Some b' \<and> wf_builder b'
     \<and> bd_len_before b' = bd_len_before b \<and> bd_consumed b' = bd_consumed b + out_len ops
     \<and> out_len (bd_ops b') = out_len (bd_ops b) + in_len ops
     \<and> (\<forall>t. drop (in_len (bd_ops b)) t = denote ops (drop pos (rope_chars R original)) @ u \<longrightarrow>
          denote (bd_ops b') t
            = denote (bd_ops b) t @ take (in_len ops) (drop pos (rope_chars R original)))"
  using assms
proof (induction ops arbitrary: pos b)
  case (Cons op ops)
  let ?src = "rope_chars R original"
  show ?case
  proof (cases op)
    case (Retain n)
    with Cons.prems obtain b' where b': "invert_loop R ops original (pos + n) (bd_retain b n) = Some b'"
      "wf_builder b'" "bd_len_before b' = bd_len_before b"
      "bd_consumed b' = bd_consumed b + n + out_len ops"
      "out_len (bd_ops b') = out_len (bd_ops b) + n + in_len ops"
      "\<And>t. drop (in_len (bd_ops b) + n) t = denote ops (drop (pos + n) ?src) @ u \<Longrightarrow>
         denote (bd_ops b') t = denote (bd_ops (bd_retain b n)) t @ take (in_len ops) (drop (pos + n) ?src)"
      using Cons.IH [of "bd_retain b n" "pos + n"] by (auto simp: ops_simps)
    have "denote (bd_ops b') t = denote (bd_ops b) t @ take (in_len (op # ops)) (drop pos ?src)"
      if *: "drop (in_len (bd_ops b)) t = denote (op # ops) (drop pos ?src) @ u" for t
    proof -
      have "drop (in_len (bd_ops b) + n) t = drop n (drop (in_len (bd_ops b)) t)"
        by (simp add: add.commute)
      also have "\<dots> = denote ops (drop (pos + n) ?src) @ u"
        using * Retain Cons.prems by (simp add: add.commute)
      finally show ?thesis
        using b'(6) [of t] * Retain Cons.prems by (simp add: ops_simps take_add add.commute)
    qed
    with b' Retain show ?thesis by simp
  next
    case (Delete n)
    with Cons.prems obtain s where s: "rope_slice R original pos (pos + n) = Some s"
      "rope_chars R s = take n (drop pos ?src)"
      using slice_in [of pos "pos + n" original] by (auto simp: slice_drop)
    with Delete Cons.prems Cons.IH [of "bd_insert b (rope_chars R s)" "pos + n"] show ?thesis
      by (auto simp: ops_simps take_add add.commute)
  next
    case (Insert s)
    have "drop (in_len (bd_ops b) + length s) t = denote ops (drop pos ?src) @ u"
      if "drop (in_len (bd_ops b)) t = s @ denote ops (drop pos ?src) @ u" for t
      using that by (metis add.commute append_eq_conv_conj drop_drop)
    with Insert Cons.prems Cons.IH [of "bd_delete b (length s)" pos] show ?thesis
      by (auto simp: ops_simps)
  qed
qed auto

lemma invert_ok:
  assumes "wf_cs cs" "length (rope_chars R doc) = cs_len_before cs"
  obtains inv where "cs_invert R cs doc = Some inv" "wf_cs inv"
    "cs_len_before inv = cs_len_after cs" "cs_len_after inv = cs_len_before cs"
    "denote (cs_ops inv) (denote (cs_ops cs) (rope_chars R doc)) = rope_chars R doc"
proof -
  have len: "length (denote (cs_ops cs) (rope_chars R doc)) = cs_len_after cs"
    using assms length_denote [of "cs_ops cs" "rope_chars R doc"] by (simp add: wf_cs_def)
  from invert_loop_ok [of "cs_builder (cs_len_after cs)" 0 "cs_ops cs" doc "[]"] assms
  obtain b where b: "invert_loop R (cs_ops cs) doc 0 (cs_builder (cs_len_after cs)) = Some b"
    "wf_builder b" "bd_len_before b = cs_len_after cs" "bd_consumed b = cs_len_after cs"
    "out_len (bd_ops b) = cs_len_before cs"
    "denote (bd_ops b) (denote (cs_ops cs) (rope_chars R doc)) = rope_chars R doc"
    by (auto simp: wf_cs_def ops_simps)
  then obtain inv where "bd_build b = Some inv" "wf_cs inv" "cs_len_before inv = cs_len_after cs"
    "cs_len_after inv = cs_len_before cs"
    "denote (cs_ops inv) (denote (cs_ops cs) (rope_chars R doc)) = rope_chars R doc"
    using bd_build_ok [of b] len by (metis add.right_neutral append_Nil2 diff_self_eq_0 drop_all le_refl)
  then show thesis using that [of inv] b(1) assms by (simp add: cs_invert_def len_chars)
qed

end

section \<open>Composing\<close>

lemma nonzero_carry [simp]:
  "list_all nonzero (carry (Retain n) ops) \<longleftrightarrow> list_all nonzero ops"
  "list_all nonzero (carry (Delete n) ops) \<longleftrightarrow> list_all nonzero ops"
  "list_all nonzero (carry_insert s n ops) \<longleftrightarrow> list_all nonzero ops"
  by (auto simp: carry_retain carry_delete carry_insert_eq)

lemma compose_loop_ok:
  assumes "wf_builder b" "out_len as = in_len cs" "list_all nonzero as" "list_all nonzero cs"
  shows "\<exists>b'. compose_loop as cs b = Some b' \<and> wf_builder b'
     \<and> bd_len_before b' = bd_len_before b \<and> bd_consumed b' = bd_consumed b + in_len as
     \<and> out_len (bd_ops b') = out_len (bd_ops b) + out_len cs
     \<and> (\<forall>t. length t = in_len (bd_ops b) + in_len as \<longrightarrow>
          denote (bd_ops b') t
            = denote (bd_ops b) t @ denote cs (denote as (drop (in_len (bd_ops b)) t)))"
  using assms
proof (induction as cs b rule: compose_loop.induct)
  case (6 i as j cs b)
  show ?case
  proof (cases "i \<le> j")
    case True
    then obtain k where "j = i + k" using le_iff_add by blast
    with 6 show ?thesis by (auto simp: ops_simps ac_simps)
  next
    case False
    then obtain k where "i = j + k" by (metis le_iff_add nat_le_linear)
    with 6 show ?thesis by (auto simp: ops_simps ac_simps drop_take)
  qed
next
  case (7 i as j cs b)
  show ?case
  proof (cases "i \<le> j")
    case True
    then obtain k where "j = i + k" using le_iff_add by blast
    with 7 show ?thesis by (auto simp: ops_simps ac_simps)
  next
    case False
    then obtain k where "i = j + k" by (metis le_iff_add nat_le_linear)
    with 7 show ?thesis by (auto simp: ops_simps ac_simps drop_take)
  qed
next
  case (8 s as j cs b)
  show ?case
  proof (cases "length s \<le> j")
    case True
    then obtain k where "j = length s + k" using le_iff_add by blast
    with 8 show ?thesis by (auto simp: ops_simps take_chars_def)
  next
    case False
    with 8 show ?thesis by (auto simp: ops_simps take_chars_def min_def)
  qed
next
  case (9 s as j cs b)
  show ?case
  proof (cases "length s \<le> j")
    case True
    then obtain k where "j = length s + k" using le_iff_add by blast
    with 9 show ?thesis by (auto simp: ops_simps)
  next
    case False
    with 9 show ?thesis by (auto simp: ops_simps min_def)
  qed
qed (auto simp: ops_simps add.commute)

lemma compose_ok:
  assumes "wf_cs a" "wf_cs b" "cs_len_after a = cs_len_before b"
  obtains c where "cs_compose a b = Some c" "wf_cs c"
    "cs_len_before c = cs_len_before a" "cs_len_after c = cs_len_after b"
    "\<And>t. length t = cs_len_before a \<Longrightarrow>
       denote (cs_ops c) t = denote (cs_ops b) (denote (cs_ops a) t)"
proof -
  have "list_all nonzero (cs_ops a)" "list_all nonzero (cs_ops b)" "out_len (cs_ops a) = in_len (cs_ops b)"
    using assms by (auto simp: wf_cs_def canonical_def)
  with compose_loop_ok [of "cs_builder (cs_len_before a)" "cs_ops a" "cs_ops b"] assms
  obtain d where d: "compose_loop (cs_ops a) (cs_ops b) (cs_builder (cs_len_before a)) = Some d"
    "wf_builder d" "bd_len_before d = cs_len_before a" "bd_consumed d = cs_len_before a"
    "out_len (bd_ops d) = cs_len_after b"
    "\<And>t. length t = cs_len_before a \<Longrightarrow> denote (bd_ops d) t = denote (cs_ops b) (denote (cs_ops a) t)"
    by (auto simp: wf_cs_def ops_simps)
  have "bd_consumed d \<le> bd_len_before d" using d by simp
  from bd_build_ok [OF d(2) this] obtain c where c: "bd_build d = Some c" "wf_cs c"
    "cs_len_before c = bd_len_before d"
    "\<And>t. length t = bd_len_before d \<Longrightarrow>
       denote (cs_ops c) t = denote (bd_ops d) t @ drop (bd_consumed d) t"
    "cs_len_after c = out_len (bd_ops d) + (bd_len_before d - bd_consumed d)"
    by blast
  show thesis
    by (rule that [of c]) (use c d assms in \<open>simp_all add: cs_compose_def\<close>)
qed

lemma compose_panics: "cs_len_after a \<noteq> cs_len_before b \<Longrightarrow> cs_compose a b = None"
  by (simp add: cs_compose_def)

section \<open>The properties\<close>

text \<open>The calls an author makes on a builder, as operations.\<close>

fun bd_step :: "operation \<Rightarrow> change_set_builder \<Rightarrow> change_set_builder" where
  "bd_step (Retain n) b = bd_retain b n"
| "bd_step (Delete n) b = bd_delete b n"
| "bd_step (Insert s) b = bd_insert b s"

lemma bd_steps_ok:
  assumes "wf_builder b"
  shows "wf_builder (fold bd_step ops b)
    \<and> bd_len_before (fold bd_step ops b) = bd_len_before b
    \<and> bd_consumed (fold bd_step ops b) = bd_consumed b + in_len ops
    \<and> denote (bd_ops (fold bd_step ops b)) t
        = denote (bd_ops b) t @ denote ops (drop (bd_consumed b) t)"
  using assms
proof (induction ops arbitrary: b)
  case (Cons op ops)
  then have "in_len (bd_ops b) = bd_consumed b" by (simp add: wf_builder_def)
  with Cons show ?case by (cases op) (auto simp: ops_simps add.commute add.left_commute)
qed simp

text \<open>
  Whatever calls an author makes on a builder, \<open>build\<close> panics exactly when they consume more of
  the document than it has; otherwise the changeset is in canonical form, its two lengths are those
  of its traversal, and it edits a document as the calls say, keeping the tail they left alone.
\<close>

theorem builder_canonical:
  "case bd_build (fold bd_step ops (cs_builder n)) of
     None \<Rightarrow> n < in_len ops
   | Some cs \<Rightarrow> in_len ops \<le> n \<and> wf_cs cs \<and> cs_len_before cs = n
       \<and> (\<forall>t. length t = n \<longrightarrow> denote (cs_ops cs) t = denote ops t @ drop (in_len ops) t)"
proof -
  let ?b = "fold bd_step ops (cs_builder n)"
  have ok: "wf_builder ?b" "bd_len_before ?b = n" "bd_consumed ?b = in_len ops"
    "\<And>t. denote (bd_ops ?b) t = denote ops t"
    using bd_steps_ok [of "cs_builder n" ops] by (simp_all add: ops_simps)
  show ?thesis
  proof (cases "in_len ops \<le> n")
    case True
    then have "bd_consumed ?b \<le> bd_len_before ?b" using ok by simp
    from bd_build_ok [OF ok(1) this] obtain cs where "bd_build ?b = Some cs" "wf_cs cs"
      "cs_len_before cs = bd_len_before ?b"
      "\<And>t. length t = bd_len_before ?b \<Longrightarrow>
         denote (cs_ops cs) t = denote (bd_ops ?b) t @ drop (bd_consumed ?b) t"
      by metis
    with True ok show ?thesis by simp
  next
    case False
    then have "bd_build ?b = None" using ok by (simp add: bd_build_def)
    with False show ?thesis by simp
  qed
qed

text \<open>A changeset as a witness uses it: in \<open>hello\<close>, replace \<open>el\<close> by \<open>ip\<close>.\<close>

definition sample_cs :: change_set where
  "sample_cs = \<lparr>cs_ops = [Retain 1, Delete 2, Insert [105, 112, 112], Retain 2],
     cs_len_before = 5, cs_len_after = 6\<rparr>"

definition sample_cs2 :: change_set where
  "sample_cs2 = \<lparr>cs_ops = [Delete 2, Retain 3, Insert [33], Retain 1],
     cs_len_before = 6, cs_len_after = 5\<rparr>"

lemma wf_sample_cs: "wf_cs sample_cs" "wf_cs sample_cs2"
  by (simp_all add: wf_cs_def sample_cs_def sample_cs2_def canonical_simps)

lemma builder_canonical_witness:
  "(case bd_build (fold bd_step [Retain 1, Insert [9], Delete 2] (cs_builder 5)) of
      None \<Rightarrow> False
    | Some cs \<Rightarrow> denote (cs_ops cs) [1, 2, 3, 4, 5] = [1, 9, 4, 5])"
  using builder_canonical [where ops = "[Retain 1, Insert [9], Delete 2]" and n = 5]
  by (auto split: option.splits)

text \<open>
  A changeset replacing \<open>from..to\<close> by a text exists exactly when the range lies in the document
  (otherwise the constructor panics), and applied to any document of that length it keeps the chars
  before \<open>from\<close> and from \<open>to\<close> on, with the text between them.
\<close>

theorem replace_splices:
  assumes "rope_text R" and "rope_len R doc = n"
  shows "case cs_replace n from to s of
     None \<Rightarrow> to < from \<or> n < to
   | Some cs \<Rightarrow> from \<le> to \<and> to \<le> n \<and> wf_cs cs \<and>
       (\<exists>out. cs_apply R cs doc = Some out \<and>
          rope_chars R out = take from (rope_chars R doc) @ s @ drop to (rope_chars R doc))"
proof (cases "from \<le> to \<and> to \<le> n")
  case True
  then obtain cs where cs: "cs_replace n from to s = Some cs" "wf_cs cs" "cs_len_before cs = n"
    "\<And>t. length t = n \<Longrightarrow> denote (cs_ops cs) t = take from t @ s @ drop to t"
    using cs_replace_ok [of "from" to n s] by blast
  from assms have "length (rope_chars R doc) = cs_len_before cs"
    using cs(3) by (simp add: rope_text.len_chars)
  from rope_text.apply_denote [OF assms(1) cs(2) this] obtain out where
    "cs_apply R cs doc = Some out" "rope_chars R out = denote (cs_ops cs) (rope_chars R doc)"
    by metis
  with cs \<open>length (rope_chars R doc) = _\<close> True show ?thesis by simp
next
  case False
  then have "to < from \<or> n < to" by auto
  with cs_replace_panics [OF this] show ?thesis by simp
qed

lemma replace_splices_witness:
  "case cs_replace 5 1 3 [9] of
     None \<Rightarrow> False
   | Some cs \<Rightarrow> \<exists>out. cs_apply list_rope cs [1, 2, 3, 4, 5] = Some out \<and> out = [1, 9, 4, 5]"
  using replace_splices [OF list_rope.rope_text_axioms,
    of "[1, 2, 3, 4, 5]" 5 3 1 "[9]"]
  by (auto split: option.splits)

text \<open>
  C1. Two changesets that follow one another compose without panicking into one canonical changeset,
  and applying it gives the text that applying the first and then the second gives.
\<close>

theorem compose_is_sequential:
  assumes "rope_text R" and "wf_cs a" and "wf_cs b" and "cs_len_after a = cs_len_before b"
    and "rope_len R doc = cs_len_before a"
  shows "\<exists>c mid out out'. cs_compose a b = Some c \<and> wf_cs c
    \<and> cs_apply R a doc = Some mid \<and> cs_apply R b mid = Some out
    \<and> cs_apply R c doc = Some out' \<and> rope_chars R out' = rope_chars R out"
proof -
  from compose_ok [OF assms(2-4)] obtain c where c: "cs_compose a b = Some c" "wf_cs c"
    "cs_len_before c = cs_len_before a"
    "\<And>t. length t = cs_len_before a \<Longrightarrow> denote (cs_ops c) t = denote (cs_ops b) (denote (cs_ops a) t)"
    by metis
  have len: "length (rope_chars R doc) = cs_len_before a"
    using assms by (simp add: rope_text.len_chars)
  obtain mid where mid: "cs_apply R a doc = Some mid"
    "rope_chars R mid = denote (cs_ops a) (rope_chars R doc)"
    "length (rope_chars R mid) = cs_len_after a"
    using rope_text.apply_denote [OF assms(1,2) len] by metis
  obtain out where "cs_apply R b mid = Some out" "rope_chars R out = denote (cs_ops b) (rope_chars R mid)"
    using rope_text.apply_denote [OF assms(1,3)] mid assms(4) by metis
  moreover obtain out' where "cs_apply R c doc = Some out'"
    "rope_chars R out' = denote (cs_ops c) (rope_chars R doc)"
    using rope_text.apply_denote [OF assms(1) c(2)] c(3) len by metis
  ultimately show ?thesis using c mid len by auto
qed

lemma compose_is_sequential_witness:
  "\<exists>c out. cs_compose sample_cs sample_cs2 = Some c \<and> cs_apply list_rope c [1, 2, 3, 4, 5] = Some out"
  using compose_is_sequential
    [OF list_rope.rope_text_axioms wf_sample_cs(1) wf_sample_cs(2), where doc = "[1, 2, 3, 4, 5]"]
  by (auto simp: sample_cs_def sample_cs2_def)

text \<open>
  C2. The inverse of a changeset, taken against the document it is applied to, is computed without
  panicking and applies to the changed document, giving back the original text.
\<close>

theorem invert_restores:
  assumes "rope_text R" and "wf_cs cs" and "rope_len R doc = cs_len_before cs"
  shows "\<exists>inv mid orig. cs_invert R cs doc = Some inv \<and> wf_cs inv
    \<and> cs_apply R cs doc = Some mid \<and> cs_apply R inv mid = Some orig
    \<and> rope_chars R orig = rope_chars R doc"
proof -
  have len: "length (rope_chars R doc) = cs_len_before cs"
    using assms by (simp add: rope_text.len_chars)
  obtain inv where inv: "cs_invert R cs doc = Some inv" "wf_cs inv" "cs_len_before inv = cs_len_after cs"
    "denote (cs_ops inv) (denote (cs_ops cs) (rope_chars R doc)) = rope_chars R doc"
    using rope_text.invert_ok [OF assms(1,2) len] by metis
  obtain mid where mid: "cs_apply R cs doc = Some mid"
    "rope_chars R mid = denote (cs_ops cs) (rope_chars R doc)"
    "length (rope_chars R mid) = cs_len_after cs"
    using rope_text.apply_denote [OF assms(1,2) len] by metis
  then obtain orig where "cs_apply R inv mid = Some orig"
    "rope_chars R orig = denote (cs_ops inv) (rope_chars R mid)"
    using rope_text.apply_denote [OF assms(1) inv(2)] inv(3) by metis
  with inv mid show ?thesis by auto
qed

lemma invert_restores_witness:
  "\<exists>inv. cs_invert list_rope sample_cs [1, 2, 3, 4, 5] = Some inv"
  using invert_restores [OF list_rope.rope_text_axioms wf_sample_cs(1), where doc = "[1, 2, 3, 4, 5]"]
  by (auto simp: sample_cs_def)

end
