(* ===== verification/Change_Position.thy ===== *)
theory Change_Position
  imports Change
begin

text \<open>
  Positions and ranges under a changeset (\<open>crates/editor/src/change.rs\<close>): where \<open>map_pos\<close> puts
  a position, what \<open>touches\<close> guarantees of a range, and what \<open>changed_span\<close> delimits.
\<close>

section \<open>Mapping positions\<close>

text \<open>\<open>map_pos\<close> relative to where the traversal stands.\<close>

fun map_rel :: "operation list \<Rightarrow> nat \<Rightarrow> assoc \<Rightarrow> nat" where
  "map_rel [] p a = p"
| "map_rel (Retain n # ops) p a = (if p < n then p else n + map_rel ops (p - n) a)"
| "map_rel (Delete n # ops) p a = (if p < n then 0 else map_rel ops (p - n) a)"
| "map_rel (Insert s # ops) p a =
     (if p = 0 then (case a of Before \<Rightarrow> 0 | After \<Rightarrow> length s) else length s + map_rel ops p a)"

lemma map_pos_loop_rel: "old \<le> pos \<Longrightarrow> map_pos_loop ops pos a old new = new + map_rel ops (pos - old) a"
proof (induction ops pos a old new rule: map_pos_loop.induct)
  case (2 n ops pos a old new)
  then show ?case by (cases "pos < old + n") auto
next
  case (3 n ops pos a old new)
  then show ?case by (cases "pos < old + n") auto
qed (auto split: assoc.splits)

lemma cs_map_pos_rel: "cs_map_pos cs p a = map_rel (cs_ops cs) p a"
  by (simp add: cs_map_pos_def map_pos_loop_rel)

lemma map_rel_mono: "p \<le> q \<Longrightarrow> map_rel ops p a \<le> map_rel ops q a"
proof (induction ops arbitrary: p q)
  case (Cons op ops)
  show ?case
  proof (cases op)
    case (Retain n)
    with Cons.prems Cons.IH [of "p - n" "q - n"] show ?thesis by auto
  next
    case (Delete n)
    with Cons.prems Cons.IH [of "p - n" "q - n"] show ?thesis by auto
  next
    case (Insert s)
    with Cons.prems Cons.IH [of p q] show ?thesis by (auto split: assoc.splits)
  qed
qed simp

lemma map_rel_bound: "p \<le> in_len ops \<Longrightarrow> map_rel ops p a \<le> out_len ops"
proof (induction ops arbitrary: p)
  case (Cons op ops)
  then show ?case
  proof (cases op)
    case (Retain n)
    with Cons.prems Cons.IH [of "p - n"] show ?thesis by auto
  next
    case (Delete n)
    with Cons.prems Cons.IH [of "p - n"] show ?thesis by auto
  next
    case (Insert s)
    with Cons.prems Cons.IH [of p] show ?thesis by (auto split: assoc.splits)
  qed
qed simp

fun retained :: "operation list \<Rightarrow> nat \<Rightarrow> bool" where
  "retained [] p = False"
| "retained (Retain n # ops) p = (p < n \<or> retained ops (p - n))"
| "retained (Delete n # ops) p = (n \<le> p \<and> retained ops (p - n))"
| "retained (Insert s # ops) p = retained ops p"

lemma canonical_Cons: "canonical (x # xs) \<Longrightarrow> canonical xs"
  by (cases xs) (auto simp: canonical_simps)

lemma canonical_after_insert:
  assumes "canonical (Insert s # ops)" "ops \<noteq> []"
  obtains n rest where "ops = Retain n # rest" "0 < n"
proof (cases ops)
  case (Cons op rest)
  with assms that show ?thesis by (cases op) (auto simp: canonical_simps canonical_def)
qed (use assms in simp)

text \<open>A retained char is found where \<open>After\<close> maps its position.\<close>

lemma map_rel_retained:
  "canonical ops \<Longrightarrow> retained ops p \<Longrightarrow> in_len ops \<le> length t \<Longrightarrow>
   map_rel ops p After < out_len ops \<and> denote ops t ! map_rel ops p After = t ! p"
proof (induction ops arbitrary: p t)
  case (Cons op ops)
  note can = canonical_Cons [OF Cons.prems(1)]
  show ?case
  proof (cases op)
    case (Retain n)
    then show ?thesis
      using Cons.prems Cons.IH [OF can, of "p - n" "drop n t"] by (auto simp: nth_append)
  next
    case (Delete n)
    then show ?thesis
      using Cons.prems Cons.IH [OF can, of "p - n" "drop n t"] by auto
  next
    case (Insert s)
    show ?thesis
    proof (cases "p = 0")
      case True
      with Insert Cons.prems have "ops \<noteq> []" by auto
      with Insert Cons.prems obtain n rest where "ops = Retain n # rest" "0 < n"
        using canonical_after_insert by blast
      with True Insert Cons.prems show ?thesis by (auto simp: nth_append)
    next
      case False
      with Insert Cons.prems Cons.IH [OF can, of p t] show ?thesis by auto
    qed
  qed
qed simp

section \<open>What an edit did to a range\<close>

fun inserts_at :: "operation list \<Rightarrow> nat \<Rightarrow> bool" where
  "inserts_at [] p = False"
| "inserts_at (Retain n # ops) p = (n \<le> p \<and> inserts_at ops (p - n))"
| "inserts_at (Delete n # ops) p = (n \<le> p \<and> inserts_at ops (p - n))"
| "inserts_at (Insert s # ops) p = (p = 0 \<or> inserts_at ops p)"

lemma map_rel_assoc: "\<not> inserts_at ops p \<Longrightarrow> map_rel ops p Before = map_rel ops p After"
proof (induction ops arbitrary: p)
  case (Cons op ops)
  then show ?case by (cases op) auto
qed simp

lemma touches_InsertedInside: "touches_loop ops from to old InsertedInside \<noteq> Untouched"
proof (induction ops arbitrary: old)
  case (Cons op ops)
  then show ?case by (cases op) auto
qed simp

lemma touches_inside:
  "touches_loop ops from to old e = Untouched \<Longrightarrow> from < old \<Longrightarrow> old \<le> to \<Longrightarrow>
   list_all nonzero ops \<Longrightarrow> to - old \<le> in_len ops \<Longrightarrow> in_len ops \<le> length t \<Longrightarrow>
   take (to - old) (denote ops t) = take (to - old) t
     \<and> map_rel ops (to - old) Before = to - old"
proof (induction ops arbitrary: old e t)
  case (Cons op ops)
  show ?case
  proof (cases op)
    case (Retain n)
    show ?thesis
    proof (cases "to - old < n")
      case True
      with Retain Cons.prems show ?thesis by (auto simp: min_def)
    next
      case False
      with Cons.prems(3) obtain k where "to = old + n + k" by (metis le_iff_add linorder_not_less less_diff_conv2 add.commute)
      with Retain Cons.prems Cons.IH [of "old + n" e "drop n t"] show ?thesis
        by (simp add: take_add)
    qed
  next
    case (Delete n)
    with Cons.prems have "old = to" by (auto split: if_splits)
    with Delete Cons.prems show ?thesis by simp
  next
    case (Insert s)
    have "old = to"
    proof (rule ccontr)
      assume "old \<noteq> to"
      with Insert Cons.prems show False using touches_InsertedInside by auto
    qed
    then show ?thesis using Insert by simp
  qed
qed simp

lemma touches_untouched:
  "touches_loop ops from to old e = Untouched \<Longrightarrow> old \<le> from \<Longrightarrow> from < to \<Longrightarrow>
   canonical ops \<Longrightarrow> to - old \<le> in_len ops \<Longrightarrow> in_len ops \<le> length t \<Longrightarrow>
   take (to - from) (drop (map_rel ops (from - old) After) (denote ops t))
       = take (to - from) (drop (from - old) t)
     \<and> map_rel ops (to - old) Before = map_rel ops (from - old) After + (to - from)
     \<and> retained ops (from - old)"
proof (induction ops arbitrary: old e t)
  case (Cons op ops)
  note can = canonical_Cons [OF Cons.prems(4)]
  then have nz: "list_all nonzero ops" by (simp add: canonical_def)
  show ?case
  proof (cases op)
    case (Retain n)
    have u: "touches_loop ops from to (old + n) e = Untouched" using Cons.prems Retain by simp
    show ?thesis
    proof (cases "old + n \<le> from")
      case True
      then obtain k where "from = old + n + k" using le_iff_add by blast
      with Retain Cons.prems Cons.IH [OF u True _ can, of "drop n t"] show ?thesis
        by (simp add: ac_simps)
    next
      case False
      show ?thesis
      proof (cases "to < old + n")
        case True
        with Retain Cons.prems False show ?thesis
          by (auto simp: drop_take)
      next
        case to: False
        with False Retain Cons.prems touches_inside [OF u _ _ nz, of "drop n t"]
        have *: "take (to - (old + n)) (denote ops (drop n t)) = take (to - (old + n)) (drop n t)"
          "map_rel ops (to - (old + n)) Before = to - (old + n)"
          by auto
        obtain f where f: "from = old + f" using Cons.prems le_iff_add by blast
        obtain k where k: "n = f + k" using False f by (metis le_iff_add nat_add_left_cancel_le nat_le_linear)
        obtain m where m: "to = old + f + k + m" using to k by (metis add.assoc le_iff_add linorder_not_less)
        have "take (k + m) (drop f (take (f + k) t @ denote ops (drop (f + k) t)))
            = take k (drop f t) @ take m (drop (f + k) t)"
          using Cons.prems Retain * by (simp add: drop_take f k m)
        also have "\<dots> = take (k + m) (drop f t)"
          by (simp add: take_add add.commute)
        finally show ?thesis using Retain False Cons.prems * by (simp add: f k m)
      qed
    qed
  next
    case (Delete n)
    with Cons.prems have "old + n \<le> from" by (simp split: if_splits)
    moreover from this have u: "touches_loop ops from to (old + n) e = Untouched"
      using Cons.prems Delete by (simp split: if_splits)
    ultimately obtain k where k: "from = old + n + k" using le_iff_add by blast
    have "to - (old + n) \<le> in_len ops" "in_len ops \<le> length (drop n t)"
      using Cons.prems Delete by auto
    note IH = Cons.IH [OF u _ Cons.prems(3) can this]
    have "map_rel (Delete n # ops) (to - old) a = map_rel ops (to - (old + n)) a" for a
      using k Cons.prems(3) by auto
    with IH k Delete show ?thesis by (simp add: add.commute)
  next
    case (Insert s)
    then have u: "touches_loop ops from to old e = Untouched" using Cons.prems by auto
    note IH = Cons.IH [OF u Cons.prems(2,3) can, of t]
    show ?thesis
    proof (cases "from = old")
      case False
      with Insert IH Cons.prems show ?thesis by simp
    next
      case True
      with Insert Cons.prems have "ops \<noteq> []" by auto
      then obtain n rest where "ops = Retain n # rest" "0 < n"
        using canonical_after_insert Cons.prems Insert by blast
      with True Insert IH Cons.prems show ?thesis by simp
    qed
  qed
qed simp

lemma untouched_slice:
  assumes "wf_cs cs" "length t = cs_len_before cs" "from < to" "to \<le> cs_len_before cs"
    "touches_loop (cs_ops cs) from to 0 Untouched = Untouched"
  shows "slice (cs_map_pos cs from After) (cs_map_pos cs to Before) (denote (cs_ops cs) t)
      = slice from to t
    \<and> cs_map_pos cs to Before = cs_map_pos cs from After + (to - from)"
  using touches_untouched [OF assms(5) _ assms(3), of t] assms(1,2,4)
  by (simp add: wf_cs_def cs_map_pos_rel slice_def)

section \<open>The changed span\<close>

text \<open>Everything before the span and everything after it is the same text in both documents.\<close>

lemma span_loop_retains: "list_all is_retain ops \<Longrightarrow> span_loop ops b a s e = (s, e)"
proof (induction ops arbitrary: b a)
  case (Cons op ops)
  then show ?case by (cases op) auto
qed simp

lemma span_loop_started:
  "span_loop ops b a (Some s) (eb, ea) = (s', (be, ae)) \<Longrightarrow>
   b + in_len ops \<le> length t \<Longrightarrow> length u + out_len ops = length v \<Longrightarrow> length u = a \<Longrightarrow>
   v = u @ denote ops (drop b t) \<Longrightarrow> eb \<le> b \<Longrightarrow> ea \<le> a \<Longrightarrow> drop ea u = slice eb b t \<Longrightarrow>
   s' = Some s \<and> be \<le> b + in_len ops \<and> eb \<le> be \<and> ea \<le> ae \<and> ae \<le> length v
     \<and> drop ae v = slice be (b + in_len ops) t"
proof (induction ops arbitrary: b a eb ea u)
  case (Cons op ops)
  show ?case
  proof (cases op)
    case (Retain n)
    let ?u = "u @ take n (drop b t)"
    have len: "length (take n (drop b t)) = n" using Cons.prems Retain by simp
    have "drop ea ?u = slice eb (b + n) t"
      using Cons.prems Retain slice_append_slice [of eb b "b + n" t] by (simp add: slice_drop)
    with Cons.IH [of "b + n" "a + n" eb ea ?u] Cons.prems Retain len show ?thesis
      by (simp add: ac_simps)
  next
    case (Delete n)
    have v: "v = u @ denote ops (drop (b + n) t)" using Cons.prems Delete by (simp add: add.commute)
    have "span_loop ops (b + n) a (Some s) (b + n, a) = (s', be, ae)" using Cons.prems Delete by simp
    from Cons.IH [OF this _ _ _ v] Cons.prems Delete show ?thesis
      by (auto simp: add.assoc)
  next
    case (Insert s')
    with Cons.IH [of b "a + length s'" b "a + length s'" "u @ s'"] Cons.prems show ?thesis
      by auto
  qed
qed (auto simp: slice_def)

lemma span_loop_unstarted:
  "span_loop ops b b None e = (st, (be, ae)) \<Longrightarrow> b + in_len ops = length t \<Longrightarrow>
   v = take b t @ denote ops (drop b t) \<Longrightarrow>
   (case st of None \<Rightarrow> list_all is_retain ops
    | Some (bs, as) \<Rightarrow> \<not> list_all is_retain ops \<and> bs = as \<and> b \<le> bs \<and> bs \<le> be \<and> be \<le> length t
        \<and> as \<le> ae \<and> ae \<le> length v \<and> take bs v = take bs t \<and> drop ae v = drop be t)"
proof (induction ops arbitrary: b e)
  case (Cons op ops)
  have tail: "drop ae v = drop be t" if "drop ae v = slice be (length t) t" for be ae
    using that by (simp add: slice_def)
  have out: "out_len ops = length (denote ops (drop (b + n) t))" if "in_len ops \<le> length t - (b + n)" for n
    using that by (simp add: length_denote)
  show ?case
  proof (cases op)
    case (Retain n)
    have "v = take (b + n) t @ denote ops (drop (b + n) t)"
      using Cons.prems Retain by (simp add: take_add add.commute)
    with Retain Cons.prems Cons.IH [of "b + n" e] show ?thesis
      by (auto simp: add.assoc split: option.splits)
  next
    case (Delete n)
    have "span_loop ops (b + n) b (Some (b, b)) (b + n, b) = (st, be, ae)"
      using Cons.prems Delete by simp
    note sl = this
    have v: "v = take b t @ denote ops (drop (b + n) t)" and t: "b + n + in_len ops = length t"
      using Cons.prems Delete by (simp_all add: add.commute)
    have u: "length (take b t) = b" "length (take b t) + out_len ops = length v"
      "drop b (take b t) = slice (b + n) (b + n) t"
      using t v out [of n] by auto
    from span_loop_started [OF sl eq_imp_le [OF t] u(2,1) v order.refl order.refl u(3)]
    have A: "st = Some (b, b)" "be \<le> length t" "b + n \<le> be" "b \<le> ae" "ae \<le> length v"
      "drop ae v = slice be (length t) t"
      by (simp_all only: t)
    have "take b v = take b t" using u(1) v by simp
    with A(1-5) tail [OF A(6)] Delete show ?thesis by simp
  next
    case (Insert s)
    have "span_loop ops b (b + length s) (Some (b, b)) (b, b + length s) = (st, be, ae)"
      using Cons.prems Insert by simp
    then have A: "st = Some (b, b) \<and> be \<le> length t \<and> b \<le> be \<and> b + length s \<le> ae \<and> ae \<le> length v
        \<and> drop ae v = slice be (length t) t"
      using span_loop_started [of ops b "b + length s" "(b, b)" b "b + length s" st be ae t
          "take b t @ s" v] Cons.prems Insert out [of 0]
      by (auto simp: slice_def)
    have "b \<le> length t" using Cons.prems by simp
    then have "take b v = take b t" using Cons.prems Insert by simp
    with A tail [of ae be] Insert show ?thesis by simp
  qed
qed auto

section \<open>The properties\<close>

text \<open>
  A char an edit retains is found, in the edited document, exactly where \<open>map_pos\<close> with
  \<open>After\<close> sends its position.
\<close>

theorem map_pos_follows_char:
  assumes "rope_text R" and "wf_cs cs" and "cs_apply R cs doc = Some out"
    and "retained (cs_ops cs) p"
  shows "cs_map_pos cs p After < rope_len R out
    \<and> rope_chars R out ! cs_map_pos cs p After = rope_chars R doc ! p"
proof -
  note out = rope_text.apply_Some [OF assms(1-3)]
  have "canonical (cs_ops cs)" "in_len (cs_ops cs) \<le> length (rope_chars R doc)"
    using assms(2) out(1) by (auto simp: wf_cs_def)
  from map_rel_retained [OF this(1) assms(4) this(2)] show ?thesis
    using out assms(1,2) by (simp add: cs_map_pos_rel rope_text.len_chars wf_cs_def)
qed

lemma map_pos_follows_char_witness:
  "cs_map_pos sample_cs 3 After < 6 \<and> [1, 105, 112, 112, 4, 5] ! cs_map_pos sample_cs 3 After = (4 :: nat)"
proof -
  have "cs_apply list_rope sample_cs [1, 2, 3, 4, 5] = Some [1, 105, 112, 112, 4, 5]"
    by (simp add: cs_apply_def sample_cs_def slice_def)
  from map_pos_follows_char [OF list_rope.rope_text_axioms wf_sample_cs(1) this, of 3]
  show ?thesis by (simp add: sample_cs_def)
qed

text \<open>
  Mapping positions keeps their order, whatever the tie-break, and keeps every position of the
  old document inside the new one.
\<close>

theorem map_pos_ordered_in_bounds:
  assumes "wf_cs cs" and "p \<le> q" and "q \<le> cs_len_before cs"
  shows "cs_map_pos cs p a \<le> cs_map_pos cs q a \<and> cs_map_pos cs q a \<le> cs_len_after cs"
  using assms map_rel_mono [of p q "cs_ops cs" a] map_rel_bound [of q "cs_ops cs" a]
  by (simp add: cs_map_pos_rel wf_cs_def)

lemma map_pos_ordered_in_bounds_witness:
  "cs_map_pos sample_cs 2 Before \<le> cs_map_pos sample_cs 5 Before \<and> cs_map_pos sample_cs 5 Before \<le> 6"
  using map_pos_ordered_in_bounds [OF wf_sample_cs(1), of 2 5 Before]
  by (simp add: sample_cs_def)

text \<open>
  When \<open>touches\<close> reports a non-empty range untouched, the whole range survives in one piece:
  the edited document reads the same between the position \<open>After\<close> the range's start and the
  position \<open>Before\<close> its end; mapping the end with \<open>After\<close> gives the same position unless the
  edit inserted text exactly there.
\<close>

theorem untouched_range_survives:
  assumes "rope_text R" and "wf_cs cs" and "cs_apply R cs doc = Some out"
    and "from < to" and "to \<le> cs_len_before cs" and "cs_touches cs from to = Some Untouched"
  shows "slice (cs_map_pos cs from After) (cs_map_pos cs to Before) (rope_chars R out)
      = slice from to (rope_chars R doc)
    \<and> cs_map_pos cs to Before = cs_map_pos cs from After + (to - from)
    \<and> (\<not> inserts_at (cs_ops cs) to \<longrightarrow> cs_map_pos cs to After = cs_map_pos cs to Before)"
proof -
  note out = rope_text.apply_Some [OF assms(1-3)]
  have "touches_loop (cs_ops cs) from to 0 Untouched = Untouched"
    using assms(4,6) by (simp add: cs_touches_def)
  from untouched_slice [OF assms(2) out(1) assms(4,5) this] show ?thesis
    using out map_rel_assoc [of "cs_ops cs" to] by (auto simp: cs_map_pos_rel)
qed

lemma untouched_range_survives_witness:
  "cs_map_pos sample_cs 5 Before = cs_map_pos sample_cs 3 After + 2"
proof -
  have "cs_apply list_rope sample_cs [1, 2, 3, 4, 5] = Some [1, 105, 112, 112, 4, 5]"
    by (simp add: cs_apply_def sample_cs_def slice_def)
  from untouched_range_survives [OF list_rope.rope_text_axioms wf_sample_cs(1) this, of 3 5]
  show ?thesis by (simp add: sample_cs_def cs_touches_def)
qed

text \<open>
  The changed span is missing exactly for an identity changeset; otherwise it lies within both
  documents, starts at the same offset in both, and everything before it and everything after it is
  the same text in both.
\<close>

theorem changed_span_covers_edit:
  assumes "rope_text R" and "wf_cs cs" and "cs_apply R cs doc = Some out"
  shows "case cs_changed_span cs of
     None \<Rightarrow> cs_is_identity cs \<and> rope_chars R out = rope_chars R doc
   | Some sp \<Rightarrow> \<not> cs_is_identity cs \<and> before_start sp = after_start sp
       \<and> before_start sp \<le> before_end sp \<and> before_end sp \<le> rope_len R doc
       \<and> after_start sp \<le> after_end sp \<and> after_end sp \<le> rope_len R out
       \<and> take (after_start sp) (rope_chars R out) = take (before_start sp) (rope_chars R doc)
       \<and> drop (after_end sp) (rope_chars R out) = drop (before_end sp) (rope_chars R doc)"
proof -
  note out = rope_text.apply_Some [OF assms(1-3)]
  obtain st be ae where sp: "span_loop (cs_ops cs) 0 0 None (0, 0) = (st, (be, ae))"
    by (metis prod.exhaust_sel)
  have "0 + in_len (cs_ops cs) = length (rope_chars R doc)"
    "rope_chars R out = take 0 (rope_chars R doc) @ denote (cs_ops cs) (drop 0 (rope_chars R doc))"
    using out assms(2) by (simp_all add: wf_cs_def)
  from span_loop_unstarted [OF sp this] show ?thesis
    using sp out assms(1,2) denote_identity [of "cs_ops cs" "rope_chars R doc"]
    by (auto simp: cs_changed_span_def cs_is_identity_def rope_text.len_chars wf_cs_def
        split: option.splits prod.splits)
qed

lemma changed_span_covers_edit_witness:
  "case cs_changed_span sample_cs of
     None \<Rightarrow> False
   | Some sp \<Rightarrow> drop (after_end sp) [1, 105, 112, 112, 4, 5] = drop (before_end sp) [1, 2, 3, 4, (5 :: nat)]"
proof -
  have "cs_apply list_rope sample_cs [1, 2, 3, 4, 5] = Some [1, 105, 112, 112, 4, 5]"
    by (simp add: cs_apply_def sample_cs_def slice_def)
  from changed_span_covers_edit [OF list_rope.rope_text_axioms wf_sample_cs(1) this]
  show ?thesis by (simp add: sample_cs_def cs_is_identity_def split: option.splits)
qed

end
