(* ===== verification/Edit_History.thy ===== *)
theory Edit_History
  imports Change_Position
begin

text \<open>
  Selections, transactions and the undo log (\<open>crates/editor/src/selection.rs\<close>,
  \<open>transaction.rs\<close>, \<open>history.rs\<close>).

  The undo log holds no document: it hands back a changeset.  \<open>timeline\<close> says which texts its
  entries lead through; the locale \<open>change_algebra\<close> is what the log relies on of changesets, that
  composing follows one change by the next, and \<open>changes\<close> is its interpretation on the changesets
  of the code.
\<close>

section \<open>Selections\<close>

record range =
  anchor :: nat
  head :: nat

definition range_new :: "nat \<Rightarrow> nat \<Rightarrow> range" where
  "range_new a h = \<lparr>anchor = a, head = h\<rparr>"

definition range_point :: "nat \<Rightarrow> range" where
  "range_point at = \<lparr>anchor = at, head = at\<rparr>"

definition range_is_empty :: "range \<Rightarrow> bool" where
  "range_is_empty r = (anchor r = head r)"

definition range_start :: "range \<Rightarrow> nat" where
  "range_start r = min (anchor r) (head r)"

definition range_end :: "range \<Rightarrow> nat" where
  "range_end r = max (anchor r) (head r)"

definition range_len :: "range \<Rightarrow> nat" where
  "range_len r = range_end r - range_start r"

definition range_map :: "change_set \<Rightarrow> range \<Rightarrow> range" where
  "range_map cs r = \<lparr>anchor = cs_map_pos cs (anchor r) After, head = cs_map_pos cs (head r) After\<rparr>"

record selection =
  sel_ranges :: "range list"
  sel_primary :: nat

definition selection_single :: "range \<Rightarrow> selection" where
  "selection_single r = \<lparr>sel_ranges = [r], sel_primary = 0\<rparr>"

definition selection_point :: "nat \<Rightarrow> selection" where
  "selection_point at = selection_single (range_point at)"

definition selection_default :: selection where
  "selection_default = selection_point 0"

text \<open>Indexing out of bounds panics.\<close>

definition selection_primary :: "selection \<Rightarrow> range option" where
  "selection_primary s =
     (if sel_primary s < length (sel_ranges s) then Some (sel_ranges s ! sel_primary s) else None)"

definition selection_map :: "change_set \<Rightarrow> selection \<Rightarrow> selection" where
  "selection_map cs s = \<lparr>sel_ranges = map (range_map cs) (sel_ranges s), sel_primary = sel_primary s\<rparr>"

definition selection_in :: "nat \<Rightarrow> selection \<Rightarrow> bool" where
  "selection_in n s \<longleftrightarrow> sel_primary s < length (sel_ranges s)
     \<and> (\<forall>r \<in> set (sel_ranges s). anchor r \<le> n \<and> head r \<le> n)"

lemma selection_in_point [simp]: "selection_in n (selection_point p) \<longleftrightarrow> p \<le> n"
  by (simp add: selection_in_def selection_point_def selection_single_def range_point_def)

lemma selection_in_primary:
  assumes "selection_in n s"
  obtains r where "selection_primary s = Some r" "anchor r \<le> n" "head r \<le> n"
    "r \<in> set (sel_ranges s)"
  using assms by (auto simp: selection_in_def selection_primary_def)

lemma selection_primary_point [simp]:
  "selection_primary (selection_point p) = Some (range_point p)"
  by (simp add: selection_primary_def selection_point_def selection_single_def)

lemma selection_in_map:
  assumes "wf_cs cs" "selection_in (cs_len_before cs) s"
  shows "selection_in (cs_len_after cs) (selection_map cs s)"
  using assms map_rel_bound [of _ "cs_ops cs" After]
  by (auto simp: selection_in_def selection_map_def range_map_def cs_map_pos_rel wf_cs_def)

lemma range_bounds [simp]:
  "anchor r \<le> n \<Longrightarrow> head r \<le> n \<Longrightarrow> range_end r \<le> n"
  "range_start r \<le> range_end r"
  "range_is_empty r \<Longrightarrow> range_start r = head r"
  by (auto simp: range_start_def range_end_def range_is_empty_def)

section \<open>Transactions\<close>

type_synonym version = nat
type_synonym undo_group_id = nat
type_synonym buffer_id = nat
type_synonym proposal_id = nat

definition version_next :: "version \<Rightarrow> version" where
  "version_next v = v + 1"

datatype edit_source = Keyboard | Paste | Formatter | Lsp | Agent proposal_id | Replace

fun coalesces :: "edit_source \<Rightarrow> bool" where
  "coalesces Keyboard = True"
| "coalesces _ = False"

record edit_transaction =
  tx_buffer :: buffer_id
  tx_base_version :: version
  tx_changes :: change_set
  tx_source :: edit_source
  tx_undo_group :: undo_group_id
  tx_selection :: "selection option"

definition tx_new ::
  "buffer_id \<Rightarrow> version \<Rightarrow> change_set \<Rightarrow> edit_source \<Rightarrow> undo_group_id \<Rightarrow> edit_transaction"
where
  "tx_new b v cs src g =
     \<lparr>tx_buffer = b, tx_base_version = v, tx_changes = cs, tx_source = src, tx_undo_group = g,
      tx_selection = None\<rparr>"

definition tx_with_selection :: "edit_transaction \<Rightarrow> selection \<Rightarrow> edit_transaction" where
  "tx_with_selection tx s = tx\<lparr>tx_selection := Some s\<rparr>"

definition tx_is_empty :: "edit_transaction \<Rightarrow> bool" where
  "tx_is_empty tx = cs_is_identity (tx_changes tx)"

definition tx_proposal :: "edit_transaction \<Rightarrow> proposal_id option" where
  "tx_proposal tx = (case tx_source tx of Agent p \<Rightarrow> Some p | _ \<Rightarrow> None)"

lemma tx_new_simps [simp]:
  "tx_buffer (tx_new b v cs src g) = b" "tx_base_version (tx_new b v cs src g) = v"
  "tx_changes (tx_new b v cs src g) = cs" "tx_source (tx_new b v cs src g) = src"
  "tx_undo_group (tx_new b v cs src g) = g" "tx_selection (tx_new b v cs src g) = None"
  by (simp_all add: tx_new_def)

section \<open>The undo log\<close>

record entry =
  e_group :: undo_group_id
  e_forward :: change_set
  e_inverse :: change_set

record history =
  applied :: "entry list"
  undone :: "entry list"
  next_group :: nat
  last_source :: "edit_source option"
  group_broken :: bool

definition history_new :: history where
  "history_new = \<lparr>applied = [], undone = [], next_group = 0, last_source = None,
     group_broken = False\<rparr>"

definition group_for :: "history \<Rightarrow> edit_source \<Rightarrow> undo_group_id \<times> history" where
  "group_for h src =
     (if \<not> group_broken h \<and> coalesces src \<and> last_source h = Some src \<and> applied h \<noteq> []
      then (e_group (last (applied h)), h)
      else (next_group h + 1, h\<lparr>next_group := next_group h + 1\<rparr>))"

definition break_group :: "history \<Rightarrow> history" where
  "break_group h = h\<lparr>group_broken := True\<rparr>"

definition history_push :: "history \<Rightarrow> edit_transaction \<Rightarrow> change_set \<Rightarrow> history" where
  "history_push h tx inv_cs =
     (if tx_is_empty tx then h
      else h\<lparr>undone := [], group_broken := False, last_source := Some (tx_source tx),
             applied := applied h @ [\<lparr>e_group = tx_undo_group tx, e_forward = tx_changes tx,
                                     e_inverse = inv_cs\<rparr>]\<rparr>)"

definition can_undo :: "history \<Rightarrow> bool" where
  "can_undo h = (applied h \<noteq> [])"

definition can_redo :: "history \<Rightarrow> bool" where
  "can_redo h = (undone h \<noteq> [])"

text \<open>
  The two loops pop entries of one group from the end of a vector, here its reverse, compose what
  they do and push them onto the other vector.  Composing can panic.
\<close>

definition compose_acc :: "change_set option \<Rightarrow> change_set \<Rightarrow> change_set option" where
  "compose_acc acc cs = (case acc of None \<Rightarrow> Some cs | Some a \<Rightarrow> cs_compose a cs)"

fun undo_loop ::
  "undo_group_id \<Rightarrow> entry list \<Rightarrow> entry list \<Rightarrow> change_set option \<Rightarrow>
   (entry list \<times> entry list \<times> change_set option) option" where
  "undo_loop g [] ud acc = Some ([], ud, acc)"
| "undo_loop g (e # ap) ud acc =
     (if e_group e = g
      then do { acc' \<leftarrow> compose_acc acc (e_inverse e); undo_loop g ap (ud @ [e]) (Some acc') }
      else Some (rev (e # ap), ud, acc))"

definition history_undo :: "history \<Rightarrow> (change_set option \<times> history) option" where
  "history_undo h =
     (case rev (applied h) of
        [] \<Rightarrow> Some (None, h)
      | e # _ \<Rightarrow>
          do { (ap, ud, composed) \<leftarrow> undo_loop (e_group e) (rev (applied h)) (undone h) None;
               Some (composed,
                 h\<lparr>applied := ap, undone := ud, group_broken := True, last_source := None\<rparr>) })"

fun redo_loop ::
  "undo_group_id \<Rightarrow> entry list \<Rightarrow> entry list \<Rightarrow> change_set option \<Rightarrow>
   (entry list \<times> entry list \<times> change_set option) option" where
  "redo_loop g [] ap acc = Some ([], ap, acc)"
| "redo_loop g (e # ud) ap acc =
     (if e_group e = g
      then do { acc' \<leftarrow> compose_acc acc (e_forward e); redo_loop g ud (ap @ [e]) (Some acc') }
      else Some (rev (e # ud), ap, acc))"

definition history_redo :: "history \<Rightarrow> (change_set option \<times> history) option" where
  "history_redo h =
     (case rev (undone h) of
        [] \<Rightarrow> Some (None, h)
      | e # _ \<Rightarrow>
          do { (ud, ap, composed) \<leftarrow> redo_loop (e_group e) (rev (undone h)) (applied h) None;
               Some (composed,
                 h\<lparr>applied := ap, undone := ud, group_broken := True, last_source := None\<rparr>) })"


section \<open>What the log relies on\<close>

text \<open>\<open>edit_path C cs t u\<close>: the changes \<open>cs\<close>, one after the other, lead from \<open>t\<close> to \<open>u\<close>.\<close>

fun edit_path :: "('c \<Rightarrow> 't \<Rightarrow> 't \<Rightarrow> bool) \<Rightarrow> 'c list \<Rightarrow> 't \<Rightarrow> 't \<Rightarrow> bool" where
  "edit_path C [] t u = (t = u)"
| "edit_path C (c # cs) t u = (\<exists>m. C c t m \<and> edit_path C cs m u)"

lemma path_append: "edit_path C (xs @ ys) t u \<longleftrightarrow> (\<exists>m. edit_path C xs t m \<and> edit_path C ys m u)"
  by (induction xs arbitrary: t) auto

lemma path_snoc: "edit_path C (xs @ [y]) t u \<longleftrightarrow> (\<exists>m. edit_path C xs t m \<and> C y m u)"
  by (simp add: path_append)

fun compose_all :: "('c \<Rightarrow> 'c \<Rightarrow> 'c option) \<Rightarrow> 'c \<Rightarrow> 'c list \<Rightarrow> 'c option" where
  "compose_all compose a [] = Some a"
| "compose_all compose a (c # cs) = do { ac \<leftarrow> compose a c; compose_all compose ac cs }"

locale change_algebra =
  fixes carries :: "'c \<Rightarrow> 't \<Rightarrow> 't \<Rightarrow> bool"
    and compose :: "'c \<Rightarrow> 'c \<Rightarrow> 'c option"
  assumes compose_carries: "carries a t u \<Longrightarrow> carries b u v \<Longrightarrow>
    \<exists>c. compose a b = Some c \<and> carries c t v"
begin

text \<open>Accumulating a path of changes never panics and gives one change with its effect.\<close>

lemma accumulate:
  assumes "carries a t m" "edit_path carries cs m u"
  shows "\<exists>c. compose_all compose a cs = Some c \<and> carries c t u"
  using assms
proof (induction cs arbitrary: a m)
  case (Cons x cs)
  then obtain n where "carries x m n" "edit_path carries cs n u" by auto
  with Cons compose_carries [of a t m x n] show ?case by auto
qed auto

lemma reverse_path:
  assumes "edit_path (\<lambda>e t u. carries (fwd e) t u \<and> carries (bwd e) u t) es t u"
  shows "edit_path (\<lambda>e. carries (fwd e)) es t u" "edit_path (\<lambda>e. carries (bwd e)) (rev es) u t"
  using assms by (induction es arbitrary: t) (auto simp: path_snoc)

end

text \<open>A changeset carries a text to the text it edits it into.\<close>

definition carries :: "change_set \<Rightarrow> utext \<Rightarrow> utext \<Rightarrow> bool" where
  "carries cs t u \<longleftrightarrow> wf_cs cs \<and> length t = cs_len_before cs \<and> denote (cs_ops cs) t = u"

lemma carries_length: "carries cs t u \<Longrightarrow> length u = cs_len_after cs"
  using length_denote [of "cs_ops cs" t] by (auto simp: carries_def wf_cs_def)

interpretation changes: change_algebra carries cs_compose
proof
  fix a b t u v
  assume a: "carries a t u" and b: "carries b u v"
  then have "wf_cs a" "wf_cs b" "cs_len_after a = cs_len_before b"
    using carries_length [OF a] by (auto simp: carries_def)
  from compose_ok [OF this] obtain c where "cs_compose a b = Some c" "wf_cs c"
    "cs_len_before c = cs_len_before a"
    "\<And>t. length t = cs_len_before a \<Longrightarrow> denote (cs_ops c) t = denote (cs_ops b) (denote (cs_ops a) t)"
    by metis
  with a b show "\<exists>c. cs_compose a b = Some c \<and> carries c t v"
    by (auto simp: carries_def)
qed

context rope_text begin

lemma apply_carries:
  assumes "carries cs (rope_chars R doc) u"
  obtains out where "cs_apply R cs doc = Some out" "rope_chars R out = u"
  using assms apply_denote [of cs doc] unfolding carries_def by metis

lemma invert_carries:
  assumes "carries cs (rope_chars R doc) u"
  obtains inv where "cs_invert R cs doc = Some inv" "carries inv u (rope_chars R doc)"
proof -
  from assms have cs: "wf_cs cs" "length (rope_chars R doc) = cs_len_before cs"
    "u = denote (cs_ops cs) (rope_chars R doc)"
    by (auto simp: carries_def)
  from invert_ok [OF cs(1,2)] obtain inv where "cs_invert R cs doc = Some inv" "wf_cs inv"
    "cs_len_before inv = cs_len_after cs"
    "denote (cs_ops inv) (denote (cs_ops cs) (rope_chars R doc)) = rope_chars R doc"
    by metis
  then show thesis
    using that [of inv] cs carries_length [OF assms] by (auto simp: carries_def)
qed

end

text \<open>A replacement is an identity only when there is nothing to replace and nothing to insert.\<close>

lemma retains_steps:
  "list_all is_retain (bd_ops (bd_retain b n)) \<longleftrightarrow> list_all is_retain (bd_ops b)"
  "list_all is_retain (bd_ops (bd_delete b n)) \<longleftrightarrow> n = 0 \<and> list_all is_retain (bd_ops b)"
  "list_all is_retain (bd_ops (bd_insert b s)) \<longleftrightarrow> s = [] \<and> list_all is_retain (bd_ops b)"
  by (cases "bd_ops b" rule: ops_tail_cases; simp add: bd_retain_def bd_delete_def bd_insert_def)+

lemma cs_replace_identity:
  "cs_replace n from to s = Some cs \<Longrightarrow> cs_is_identity cs \<longleftrightarrow> from = to \<and> s = []"
  by (auto simp: cs_replace_def bd_build_def Let_def cs_is_identity_def retains_steps cs_builder_def
      split: if_splits)

section \<open>Undo and redo\<close>

text \<open>An entry leads from one text to the next, and its inverse back.\<close>

definition entry_ok :: "entry \<Rightarrow> utext \<Rightarrow> utext \<Rightarrow> bool" where
  "entry_ok e t u \<longleftrightarrow> carries (e_forward e) t u \<and> carries (e_inverse e) u t"

definition log_ok :: "history \<Rightarrow> utext \<Rightarrow> bool" where
  "log_ok h t \<longleftrightarrow> (\<exists>base. edit_path entry_ok (applied h) base t)
     \<and> (\<exists>top. edit_path entry_ok (rev (undone h)) t top)
     \<and> (applied h \<noteq> [] \<longrightarrow> undone h \<noteq> [] \<longrightarrow> e_group (last (applied h)) \<noteq> e_group (last (undone h)))"

lemma entry_paths:
  assumes "edit_path entry_ok es t u"
  shows "edit_path carries (map e_forward es) t u" "edit_path carries (map e_inverse (rev es)) u t"
  using assms by (induction es arbitrary: t) (auto simp: path_snoc entry_ok_def)

lemma entry_path_unique: "edit_path entry_ok es t u \<Longrightarrow> edit_path entry_ok es t v \<Longrightarrow> u = v"
  by (induction es arbitrary: t) (auto simp: entry_ok_def carries_def)

lemma entry_path_source:
  "edit_path entry_ok es t v \<Longrightarrow> edit_path entry_ok es u v \<Longrightarrow> t = u"
proof (induction es arbitrary: v rule: rev_induct)
  case (snoc e es)
  then obtain m n where "edit_path entry_ok es t m" "entry_ok e m v" "edit_path entry_ok es u n" "entry_ok e n v"
    by (auto simp: path_snoc)
  moreover from this have "m = n" by (auto simp: entry_ok_def carries_def)
  ultimately show ?case using snoc.IH by blast
qed simp

text \<open>What the loops accumulate, panics included.\<close>

fun accumulate :: "change_set option \<Rightarrow> change_set list \<Rightarrow> change_set option option" where
  "accumulate acc [] = Some acc"
| "accumulate acc (c # cs) = do { a \<leftarrow> compose_acc acc c; accumulate (Some a) cs }"

lemma accumulate_Some: "accumulate (Some a) cs = map_option Some (compose_all cs_compose a cs)"
  by (induction cs arbitrary: a)
    (auto simp: compose_acc_def split: option.splits bind_splits)

lemma accumulate_path:
  assumes "edit_path carries cs t u" "cs \<noteq> []"
  obtains c where "accumulate None cs = Some (Some c)" "carries c t u"
proof -
  obtain a as m where "cs = a # as" "carries a t m" "edit_path carries as m u"
    using assms by (cases cs) auto
  with changes.accumulate [of a t m as u] that show thesis
    by (auto simp: compose_acc_def accumulate_Some)
qed

lemma undo_loop_eq:
  "undo_loop g ap ud acc =
     map_option (\<lambda>c. (rev (dropWhile (\<lambda>e. e_group e = g) ap), ud @ takeWhile (\<lambda>e. e_group e = g) ap, c))
       (accumulate acc (map e_inverse (takeWhile (\<lambda>e. e_group e = g) ap)))"
proof (induction ap arbitrary: ud acc)
  case (Cons e ap)
  then show ?case by (cases "compose_acc acc (e_inverse e)") auto
qed simp

lemma redo_loop_eq:
  "redo_loop g ud ap acc =
     map_option (\<lambda>c. (rev (dropWhile (\<lambda>e. e_group e = g) ud), ap @ takeWhile (\<lambda>e. e_group e = g) ud, c))
       (accumulate acc (map e_forward (takeWhile (\<lambda>e. e_group e = g) ud)))"
proof (induction ud arbitrary: ap acc)
  case (Cons e ud)
  then show ?case by (cases "compose_acc acc (e_forward e)") auto
qed simp

text \<open>
  What undo and redo do: the last group of one vector moves, reversed, onto the other, and the
  changeset handed back has its effect.
\<close>

definition group_split :: "entry list \<Rightarrow> entry list \<Rightarrow> entry list \<Rightarrow> bool" where
  "group_split all keep es \<longleftrightarrow> all = keep @ es \<and> es \<noteq> []
     \<and> (\<forall>e \<in> set es. e_group e = e_group (last all))
     \<and> (keep \<noteq> [] \<longrightarrow> e_group (last keep) \<noteq> e_group (last all))"

lemma group_splitI:
  assumes "rev all = e # rest" "g = e_group e"
  shows "group_split all (rev (dropWhile (\<lambda>e. e_group e = g) (rev all)))
    (rev (takeWhile (\<lambda>e. e_group e = g) (rev all)))"
proof -
  define tw dw where d: "tw = takeWhile (\<lambda>e. e_group e = g) (rev all)"
    "dw = dropWhile (\<lambda>e. e_group e = g) (rev all)"
  have "rev all = tw @ dw" by (simp add: d)
  then have all: "all = rev dw @ rev tw" by (metis rev_append rev_rev_ident)
  have "tw = e # takeWhile (\<lambda>e. e_group e = g) rest"
    unfolding d assms(1) using assms(2) by simp
  then have tw: "last (rev tw) = e" "tw \<noteq> []" by (simp_all add: last_rev)
  then have last: "last all = e" unfolding all by simp
  have dw: "e_group (last (rev dw)) \<noteq> g" if "dw \<noteq> []"
    using hd_dropWhile [of "\<lambda>e. e_group e = g" "rev all"] that by (simp add: last_rev d)
  have "\<forall>x \<in> set tw. e_group x = g"
    unfolding d(1) using set_takeWhileD by fast
  with all tw(2) dw show ?thesis
    unfolding d [symmetric] group_split_def last by (simp add: assms(2))
qed

lemma group_splitD:
  assumes "group_split all keep es"
  shows "all = keep @ es" "es \<noteq> []" "e \<in> set es \<Longrightarrow> e_group e = e_group (last all)"
    "keep \<noteq> [] \<Longrightarrow> e_group (last keep) \<noteq> e_group (last all)"
  using assms unfolding group_split_def by blast+

lemmas group_split_keep = group_splitD(4)
lemmas group_split_groups = group_splitD(3)

lemma history_undo_empty: "applied h = [] \<Longrightarrow> history_undo h = Some (None, h)"
  by (simp add: history_undo_def)

lemma history_redo_empty: "undone h = [] \<Longrightarrow> history_redo h = Some (None, h)"
  by (simp add: history_redo_def)

lemma history_undo_ok:
  assumes "log_ok h t" "applied h \<noteq> []"
  obtains c h' es u where "history_undo h = Some (Some c, h')" "carries c t u"
    "edit_path entry_ok es u t" "group_split (applied h) (applied h') es"
    "undone h' = undone h @ rev es" "log_ok h' u" "group_broken h'"
proof -
  obtain e rest where e: "rev (applied h) = e # rest" using assms(2) by (cases "rev (applied h)") auto
  define g tw dw where gs: "g = e_group e" "tw = takeWhile (\<lambda>e. e_group e = g) (rev (applied h))"
    "dw = dropWhile (\<lambda>e. e_group e = g) (rev (applied h))"
  have split: "group_split (applied h) (rev dw) (rev tw)"
    using group_splitI [OF e gs(1)] by (simp add: gs)
  then have app: "applied h = rev dw @ rev tw" "tw \<noteq> []" using group_splitD(1,2) [OF split] by simp_all
  obtain base top where "edit_path entry_ok (applied h) base t" "edit_path entry_ok (rev (undone h)) t top"
    using assms(1) by (auto simp: log_ok_def)
  then obtain u where u: "edit_path entry_ok (rev dw) base u" "edit_path entry_ok (rev tw) u t"
    using app by (auto simp: path_append)
  from entry_paths(2) [OF u(2)] app(2) obtain c where
    c: "accumulate None (map e_inverse tw) = Some (Some c)" "carries c t u"
    using accumulate_path [of "map e_inverse tw" t u] by auto
  define h' where "h' = h\<lparr>applied := rev dw, undone := undone h @ tw, group_broken := True,
    last_source := None\<rparr>"
  have undo: "history_undo h = Some (Some c, h')"
    using e c by (simp add: history_undo_def undo_loop_eq h'_def gs)
  have "edit_path entry_ok (rev (undone h')) u top"
    using u(2) \<open>edit_path entry_ok (rev (undone h)) t top\<close> by (auto simp: h'_def path_append)
  moreover have "e_group (last (rev dw)) \<noteq> e_group (last tw)" if "dw \<noteq> []"
    using group_split_keep [OF split] group_split_groups [OF split, of "last tw"] app(2) that
    by (metis last_in_set rev_is_Nil_conv set_rev)
  ultimately have "log_ok h' u"
    using u(1) app(2) by (auto simp: log_ok_def h'_def)
  with that [of c h' u "rev tw"] undo c(2) u(2) split show thesis by (simp add: h'_def)
qed

lemma history_redo_ok:
  assumes "log_ok h t" "undone h \<noteq> []"
  obtains c h' es u where "history_redo h = Some (Some c, h')" "carries c t u"
    "edit_path entry_ok (rev es) t u" "group_split (undone h) (undone h') es"
    "applied h' = applied h @ rev es" "log_ok h' u" "group_broken h'"
proof -
  obtain e rest where e: "rev (undone h) = e # rest" using assms(2) by (cases "rev (undone h)") auto
  define g tw dw where gs: "g = e_group e" "tw = takeWhile (\<lambda>e. e_group e = g) (rev (undone h))"
    "dw = dropWhile (\<lambda>e. e_group e = g) (rev (undone h))"
  have split: "group_split (undone h) (rev dw) (rev tw)"
    using group_splitI [OF e gs(1)] by (simp add: gs)
  then have und: "undone h = rev dw @ rev tw" "tw \<noteq> []" using group_splitD(1,2) [OF split] by simp_all
  obtain base top where "edit_path entry_ok (applied h) base t" "edit_path entry_ok (rev (undone h)) t top"
    using assms(1) by (auto simp: log_ok_def)
  then obtain u where u: "edit_path entry_ok dw u top" "edit_path entry_ok tw t u"
    using und by (auto simp: path_append)
  from entry_paths(1) [OF u(2)] und(2) obtain c where
    c: "accumulate None (map e_forward tw) = Some (Some c)" "carries c t u"
    using accumulate_path [of "map e_forward tw" t u] by auto
  define h' where "h' = h\<lparr>applied := applied h @ tw, undone := rev dw, group_broken := True,
    last_source := None\<rparr>"
  have redo: "history_redo h = Some (Some c, h')"
    using e c by (simp add: history_redo_def redo_loop_eq h'_def gs)
  have "edit_path entry_ok (applied h') base u"
    using u(2) \<open>edit_path entry_ok (applied h) base t\<close> by (auto simp: h'_def path_append)
  moreover have "e_group (last tw) \<noteq> e_group (last (rev dw))" if "dw \<noteq> []"
    using group_split_keep [OF split] group_split_groups [OF split, of "last tw"] und(2) that
    by (metis last_in_set rev_is_Nil_conv set_rev)
  ultimately have "log_ok h' u"
    using u(1) und(2) by (auto simp: log_ok_def h'_def)
  with that [of c h' u "rev tw"] redo c(2) u(2) split show thesis by (simp add: h'_def)
qed

lemma log_ok_new: "log_ok history_new t"
  by (auto simp: log_ok_def history_new_def)

lemma log_ok_break [simp]: "log_ok (break_group h) t = log_ok h t"
  by (simp add: log_ok_def break_group_def)

lemma group_for_log [simp]:
  "applied (snd (group_for h src)) = applied h" "undone (snd (group_for h src)) = undone h"
  by (simp_all add: group_for_def)

lemma log_ok_group_for [simp]: "log_ok (snd (group_for h src)) t = log_ok h t"
  by (simp add: log_ok_def)

lemma log_ok_push:
  assumes "log_ok h t" "carries (tx_changes tx) t u" "carries back_cs u t"
  shows "log_ok (history_push h tx back_cs) u"
proof (cases "tx_is_empty tx")
  case True
  then have "u = t"
    using assms(2) denote_identity [of "cs_ops (tx_changes tx)" t]
    by (auto simp: tx_is_empty_def cs_is_identity_def carries_def wf_cs_def)
  with True assms(1) show ?thesis by (simp add: history_push_def)
next
  case False
  with assms show ?thesis
    by (auto simp: log_ok_def history_push_def path_snoc entry_ok_def)
qed

text \<open>Undoing and then redoing leaves the two vectors as they were.\<close>

lemma split_unique:
  assumes "group_split all keep es" "group_split all keep' es'"
  shows "keep = keep' \<and> es = es'"
proof -
  define P where "P = (\<lambda>e :: entry. e_group e = e_group (last all))"
  have "rev es = takeWhile P (rev all) \<and> rev keep = dropWhile P (rev all)"
    if "group_split all keep es" for keep es
  proof -
    have es: "\<forall>x \<in> set (rev es). P x"
      using group_splitD(3) [OF that] unfolding P_def by (metis set_rev)
    have all: "rev all = rev es @ rev keep"
      using group_splitD(1) [OF that] by (metis rev_append)
    have "takeWhile P (rev keep) = [] \<and> dropWhile P (rev keep) = rev keep"
      using group_split_keep [OF that] by (cases keep rule: rev_cases) (auto simp: P_def)
    moreover have "takeWhile P (rev es @ rev keep) = rev es @ takeWhile P (rev keep)"
      "dropWhile P (rev es @ rev keep) = dropWhile P (rev keep)"
      using es by (blast intro: takeWhile_append2 dropWhile_append2)+
    ultimately show ?thesis unfolding all by simp
  qed
  from this [OF assms(1)] this [OF assms(2)] show ?thesis by (metis rev_rev_ident)
qed

lemma undo_redo_log:
  assumes "log_ok h t" "history_undo h = Some (Some c, h1)" "history_redo h1 = Some (Some d, h2)"
  shows "applied h2 = applied h \<and> undone h2 = undone h"
proof -
  have "applied h \<noteq> []" using assms(2) by (auto simp: history_undo_def)
  from history_undo_ok [OF assms(1) this] assms(2) obtain es u where
    1: "group_split (applied h) (applied h1) es" "undone h1 = undone h @ rev es" "log_ok h1 u"
    by (metis Pair_inject option.inject)
  then have "undone h1 \<noteq> []" using group_splitD(2) [OF 1(1)] by simp
  from history_redo_ok [OF 1(3) this] assms(3) obtain fs where
    2: "group_split (undone h1) (undone h2) fs" "applied h2 = applied h1 @ rev fs"
    by (metis Pair_inject option.inject)
  have es: "es \<noteq> []" using group_splitD(2) [OF 1(1)] .
  then have "hd es \<in> set es" "last (undone h1) = hd es"
    unfolding 1(2) by (simp_all add: last_rev)
  moreover have "undone h \<noteq> [] \<Longrightarrow> e_group (last (undone h)) \<noteq> e_group (last (applied h))"
    using assms(1) \<open>applied h \<noteq> []\<close> by (auto simp: log_ok_def)
  moreover have "\<forall>e \<in> set (rev es). e_group e = e_group (last (applied h))" "es \<noteq> []"
    "applied h = applied h1 @ es"
    using group_splitD(1-3) [OF 1(1)] by (metis set_rev)+
  ultimately have "group_split (undone h1) (undone h) (rev es)"
    unfolding group_split_def by (metis 1(2) rev_is_Nil_conv set_rev)
  from split_unique [OF this 2(1)] show ?thesis
    using 2(2) \<open>applied h = applied h1 @ es\<close> by auto
qed

end
