(* ===== verification/Decoration.thy ===== *)
theory Decoration
  imports Edit_History "HOL-Library.Product_Lexorder" "HOL-Library.Multiset"
begin

text \<open>
  The overlays on a buffer's text (\<open>crates/editor/src/decoration.rs\<close>) and the fate of a proposal
  hunk under an edit (\<open>ConflictReason\<close> and \<open>HunkState\<close> of \<open>crates/editor/src/lib.rs\<close>).
  A decoration's range is a parameter the producers choose; \<open>decorations_in n\<close> says that every
  range is ordered and ends within a document of length \<open>n\<close>.
\<close>

section \<open>What an edit means for a hunk\<close>

datatype conflict_reason = EditedInsideRange | AnchorDeleted

fun from_effect :: "range_effect \<Rightarrow> conflict_reason option" where
  "from_effect Untouched = None"
| "from_effect InsertedInside = Some EditedInsideRange"
| "from_effect PartlyDeleted = Some AnchorDeleted"

fun conflict_reason_fmt :: "conflict_reason \<Rightarrow> string" where
  "conflict_reason_fmt EditedInsideRange = ''you edited inside this change''"
| "conflict_reason_fmt AnchorDeleted = ''the code this change referred to is gone''"

datatype hunk_state = Clean | Conflicted conflict_reason | Satisfied

fun is_applicable :: "hunk_state \<Rightarrow> bool" where
  "is_applicable Clean = True"
| "is_applicable _ = False"

lemma from_effect_None [simp]: "from_effect e = None \<longleftrightarrow> e = Untouched"
  by (cases e) auto

section \<open>Decorations\<close>

datatype severity = Error | Warning | Info | Hint

datatype syntax_kind = Keyword | StringLit | Comment | Number | Type | Function

datatype hunk_side = Removed | Added

datatype decoration_class =
    Syntax syntax_kind
  | Diagnostic severity
  | Hunk proposal_id hunk_side hunk_state
  | Match bool

fun is_derived :: "decoration_class \<Rightarrow> bool" where
  "is_derived (Syntax _) = True"
| "is_derived (Diagnostic _) = True"
| "is_derived (Match _) = True"
| "is_derived (Hunk _ _ _) = False"

record decoration =
  d_start :: nat
  d_end :: nat
  d_class :: decoration_class

definition decoration_new :: "nat \<Rightarrow> nat \<Rightarrow> decoration_class \<Rightarrow> decoration" where
  "decoration_new s e c = \<lparr>d_start = s, d_end = e, d_class = c\<rparr>"

definition decoration_is_empty :: "decoration \<Rightarrow> bool" where
  "decoration_is_empty d = (d_start d = d_end d)"

record line_decoration =
  l_start :: nat
  l_end :: nat
  l_class :: decoration_class

record decoration_set =
  items :: "decoration list"

definition decs_new :: decoration_set where
  "decs_new = \<lparr>items = []\<rparr>"

definition decs_push :: "decoration_set \<Rightarrow> decoration \<Rightarrow> decoration_set" where
  "decs_push ds d = ds\<lparr>items := items ds @ [d]\<rparr>"

definition decs_len :: "decoration_set \<Rightarrow> nat" where
  "decs_len ds = length (items ds)"

definition decs_is_empty :: "decoration_set \<Rightarrow> bool" where
  "decs_is_empty ds = (items ds = [])"

definition clear_syntax :: "decoration_set \<Rightarrow> decoration_set" where
  "clear_syntax ds = ds\<lparr>items :=
     filter (\<lambda>d. case d_class d of Syntax _ \<Rightarrow> False | _ \<Rightarrow> True) (items ds)\<rparr>"

definition clear_matches :: "decoration_set \<Rightarrow> decoration_set" where
  "clear_matches ds = ds\<lparr>items :=
     filter (\<lambda>d. case d_class d of Match _ \<Rightarrow> False | _ \<Rightarrow> True) (items ds)\<rparr>"

definition clear_diagnostics :: "decoration_set \<Rightarrow> decoration_set" where
  "clear_diagnostics ds = ds\<lparr>items :=
     filter (\<lambda>d. case d_class d of Diagnostic _ \<Rightarrow> False | _ \<Rightarrow> True) (items ds)\<rparr>"

definition clear_derived :: "decoration_set \<Rightarrow> decoration_set" where
  "clear_derived ds = ds\<lparr>items := filter (\<lambda>d. \<not> is_derived (d_class d)) (items ds)\<rparr>"

definition remove_proposal :: "decoration_set \<Rightarrow> proposal_id \<Rightarrow> decoration_set" where
  "remove_proposal ds p = ds\<lparr>items :=
     filter (\<lambda>d. case d_class d of Hunk q _ _ \<Rightarrow> q \<noteq> p | _ \<Rightarrow> True) (items ds)\<rparr>"

text \<open>The closure of \<open>map\<close>: the decoration moved, or dropped, or a panic in \<open>touches\<close>.\<close>

definition decoration_moved :: "change_set \<Rightarrow> decoration \<Rightarrow> decoration_class \<Rightarrow> decoration" where
  "decoration_moved cs d c =
     \<lparr>d_start = cs_map_pos cs (d_start d) After, d_end = cs_map_pos cs (d_end d) After, d_class = c\<rparr>"

definition map_item :: "change_set \<Rightarrow> decoration \<Rightarrow> decoration option option" where
  "map_item cs d =
     do { effect \<leftarrow> cs_touches cs (d_start d) (d_end d);
          Some (case d_class d of
              Hunk p side state \<Rightarrow>
                Some (decoration_moved cs d
                  (Hunk p side (case from_effect effect of Some r \<Rightarrow> Conflicted r | None \<Rightarrow> state)))
            | c \<Rightarrow> if effect \<noteq> Untouched then None else Some (decoration_moved cs d c)) }"

fun retain_mut :: "('a \<Rightarrow> 'a option option) \<Rightarrow> 'a list \<Rightarrow> 'a list option" where
  "retain_mut f [] = Some []"
| "retain_mut f (x # xs) =
     do { y \<leftarrow> f x;
          ys \<leftarrow> retain_mut f xs;
          Some (case y of None \<Rightarrow> ys | Some z \<Rightarrow> z # ys) }"

definition decs_map :: "decoration_set \<Rightarrow> change_set \<Rightarrow> decoration_set option" where
  "decs_map ds cs = map_option (\<lambda>xs. ds\<lparr>items := xs\<rparr>) (retain_mut (map_item cs) (items ds))"

definition overlaps :: "decoration \<Rightarrow> nat \<Rightarrow> nat \<Rightarrow> bool" where
  "overlaps d line_start line_end =
     (if decoration_is_empty d then line_start \<le> d_start d \<and> d_start d \<le> line_end
      else d_start d < line_end \<and> line_start < d_end d)"

text \<open>\<open>clamp\<close> panics when its bounds are reversed.\<close>

definition clamp :: "nat \<Rightarrow> nat \<Rightarrow> nat \<Rightarrow> nat option" where
  "clamp x lo hi = (if hi < lo then None else Some (max lo (min x hi)))"

definition line_item :: "nat \<Rightarrow> nat \<Rightarrow> decoration \<Rightarrow> line_decoration option" where
  "line_item line_start line_end d =
     do { s \<leftarrow> clamp (d_start d) line_start line_end;
          e \<leftarrow> clamp (d_end d) line_start line_end;
          Some \<lparr>l_start = s - line_start, l_end = e - line_start, l_class = d_class d\<rparr> }"

definition for_line :: "decoration_set \<Rightarrow> nat \<Rightarrow> nat \<Rightarrow> line_decoration list option" where
  "for_line ds line_start line_end =
     map_option (sort_key (\<lambda>d. (l_start d, l_end d)))
       (those (map (line_item line_start line_end)
         (filter (\<lambda>d. overlaps d line_start line_end) (items ds))))"

section \<open>What an edit does to the overlays\<close>

definition decorations_in :: "nat \<Rightarrow> decoration_set \<Rightarrow> bool" where
  "decorations_in n ds \<longleftrightarrow> (\<forall>d \<in> set (items ds). d_start d \<le> d_end d \<and> d_end d \<le> n)"

definition effect_on :: "change_set \<Rightarrow> decoration \<Rightarrow> range_effect" where
  "effect_on cs d = touches_loop (cs_ops cs) (d_start d) (d_end d) 0 Untouched"

fun is_hunk :: "decoration_class \<Rightarrow> bool" where
  "is_hunk (Hunk _ _ _) = True"
| "is_hunk _ = False"

text \<open>The class a decoration has after an edit with the given effect on it.\<close>

fun class_after :: "range_effect \<Rightarrow> decoration_class \<Rightarrow> decoration_class" where
  "class_after e (Hunk p side state) =
     Hunk p side (case from_effect e of Some r \<Rightarrow> Conflicted r | None \<Rightarrow> state)"
| "class_after e c = c"

definition survives :: "change_set \<Rightarrow> decoration \<Rightarrow> bool" where
  "survives cs d \<longleftrightarrow> is_hunk (d_class d) \<or> effect_on cs d = Untouched"

definition after_edit :: "change_set \<Rightarrow> decoration \<Rightarrow> decoration" where
  "after_edit cs d = decoration_moved cs d (class_after (effect_on cs d) (d_class d))"

lemma decorations_in_new [simp]: "decorations_in n decs_new"
  by (simp add: decorations_in_def decs_new_def)

lemma map_item_eq:
  "d_start d \<le> d_end d \<Longrightarrow>
   map_item cs d = Some (if survives cs d then Some (after_edit cs d) else None)"
  by (cases "d_class d")
    (auto simp: map_item_def cs_touches_def survives_def after_edit_def effect_on_def)

lemma retain_mut_eq:
  "(\<And>x. x \<in> set xs \<Longrightarrow> f x = Some (if P x then Some (g x) else None)) \<Longrightarrow>
   retain_mut f xs = Some (map g (filter P xs))"
  by (induction xs) auto

lemma decs_map_eq:
  assumes "decorations_in n ds"
  shows "decs_map ds cs = Some \<lparr>items = map (after_edit cs) (filter (survives cs) (items ds))\<rparr>"
  using assms retain_mut_eq [of "items ds" "map_item cs" "survives cs" "after_edit cs"]
  by (simp add: decs_map_def decorations_in_def map_item_eq)

lemma after_edit_bounds:
  assumes "wf_cs cs" "d_start d \<le> d_end d" "d_end d \<le> cs_len_before cs"
  shows "d_start (after_edit cs d) \<le> d_end (after_edit cs d)"
    "d_end (after_edit cs d) \<le> cs_len_after cs"
  using assms map_rel_mono [of "d_start d" "d_end d" "cs_ops cs" After]
    map_rel_bound [of "d_end d" "cs_ops cs" After]
  by (auto simp: after_edit_def decoration_moved_def cs_map_pos_rel wf_cs_def)

lemma decs_map_ok:
  assumes "wf_cs cs" "decorations_in (cs_len_before cs) ds"
  obtains ds' where "decs_map ds cs = Some ds'" "decorations_in (cs_len_after cs) ds'"
proof -
  have "decorations_in (cs_len_after cs)
      \<lparr>items = map (after_edit cs) (filter (survives cs) (items ds))\<rparr>"
    using assms after_edit_bounds [OF assms(1)] by (auto simp: decorations_in_def)
  with decs_map_eq [OF assms(2)] that show thesis by blast
qed

lemma is_hunk_class_after [simp]: "is_hunk (class_after e c) = is_hunk c"
  by (cases c) auto

lemma hunks_after_edit:
  "filter (\<lambda>d. is_hunk (d_class d)) (map (after_edit cs) (filter (survives cs) ds))
     = map (after_edit cs) (filter (\<lambda>d. is_hunk (d_class d)) ds)"
  by (induction ds) (auto simp: after_edit_def survives_def decoration_moved_def)

section \<open>The properties\<close>

text \<open>
  Carrying the overlays through an edit never panics and leaves every range inside the edited
  document.  Every agent hunk is still there, in its order, moved, and conflicted exactly when the
  edit disturbed its range.  A syntax, diagnostic or match overlay is kept only when its range is
  untouched, and then covers the same text as before, unless the edit inserted at its very end.
\<close>

theorem hunks_never_vanish:
  assumes "rope_text R" and "wf_cs cs" and "cs_apply R cs doc = Some out"
    and "decorations_in (rope_len R doc) ds"
  shows "\<exists>ds'. decs_map ds cs = Some ds' \<and> decorations_in (rope_len R out) ds'
    \<and> list_all2 (\<lambda>d d'. d_class d' = class_after (effect_on cs d) (d_class d)
           \<and> d_start d' = cs_map_pos cs (d_start d) After \<and> d_end d' = cs_map_pos cs (d_end d) After)
        (filter (\<lambda>d. is_hunk (d_class d)) (items ds)) (filter (\<lambda>d. is_hunk (d_class d)) (items ds'))
    \<and> (\<forall>d' \<in> set (items ds'). is_derived (d_class d') \<longrightarrow>
         (\<exists>d \<in> set (items ds). d_class d' = d_class d \<and> effect_on cs d = Untouched
            \<and> (d_start d < d_end d \<and> \<not> inserts_at (cs_ops cs) (d_end d) \<longrightarrow>
                slice (d_start d') (d_end d') (rope_chars R out)
                  = slice (d_start d) (d_end d) (rope_chars R doc))))"
proof -
  note out = rope_text.apply_Some [OF assms(1-3)]
  have in_doc: "decorations_in (cs_len_before cs) ds"
    using assms(1,4) out(1) by (simp add: rope_text.len_chars)
  obtain ds' where ds': "decs_map ds cs = Some ds'" "decorations_in (cs_len_after cs) ds'"
    using decs_map_ok [OF assms(2) in_doc] by metis
  have items: "items ds' = map (after_edit cs) (filter (survives cs) (items ds))"
    using ds'(1) decs_map_eq [OF in_doc] by auto
  have "list_all2 (\<lambda>d d'. d_class d' = class_after (effect_on cs d) (d_class d)
       \<and> d_start d' = cs_map_pos cs (d_start d) After \<and> d_end d' = cs_map_pos cs (d_end d) After)
     (filter (\<lambda>d. is_hunk (d_class d)) (items ds)) (filter (\<lambda>d. is_hunk (d_class d)) (items ds'))"
    unfolding items hunks_after_edit
    by (simp add: list_all2_map2 list_all2_same after_edit_def decoration_moved_def)
  moreover have "\<exists>d \<in> set (items ds). d_class d' = d_class d \<and> effect_on cs d = Untouched
      \<and> (d_start d < d_end d \<and> \<not> inserts_at (cs_ops cs) (d_end d) \<longrightarrow>
          slice (d_start d') (d_end d') (rope_chars R out)
            = slice (d_start d) (d_end d) (rope_chars R doc))"
    if kept: "d' \<in> set (items ds')" "is_derived (d_class d')" for d'
  proof -
    obtain d where d: "d \<in> set (items ds)" "survives cs d" "d' = after_edit cs d"
      using kept(1) items by auto
    have "\<not> is_hunk (d_class d)"
      using kept(2) d(3) by (cases "d_class d") (auto simp: after_edit_def decoration_moved_def)
    with d(2) have e: "effect_on cs d = Untouched" by (simp add: survives_def)
    have "slice (d_start d') (d_end d') (rope_chars R out)
        = slice (d_start d) (d_end d) (rope_chars R doc)"
      if "d_start d < d_end d" "\<not> inserts_at (cs_ops cs) (d_end d)"
      using untouched_slice [OF assms(2) out(1) that(1), THEN conjunct1] e d(1,3) in_doc out(2)
        map_rel_assoc [OF that(2)]
      by (simp add: effect_on_def decorations_in_def after_edit_def decoration_moved_def cs_map_pos_rel)
    moreover have "d_class d' = d_class d"
      using \<open>\<not> is_hunk _\<close> d(3) by (cases "d_class d") (auto simp: after_edit_def decoration_moved_def)
    ultimately show ?thesis using d(1) e by blast
  qed
  moreover have "rope_len R out = cs_len_after cs"
    using out(3) assms(1) by (simp add: rope_text.len_chars)
  ultimately show ?thesis using ds' by auto
qed

text \<open>In \<open>hello\<close>, a hunk on \<open>el\<close> and a keyword on \<open>lo\<close>.\<close>

definition sample_decorations :: decoration_set where
  "sample_decorations = \<lparr>items = [decoration_new 1 3 (Hunk 7 Removed Clean),
     decoration_new 3 5 (Syntax Keyword)]\<rparr>"

lemma hunks_never_vanish_witness:
  "case decs_map sample_decorations sample_cs of
     None \<Rightarrow> False
   | Some ds \<Rightarrow> map d_class (filter (\<lambda>d. is_hunk (d_class d)) (items ds))
       = [Hunk 7 Removed (Conflicted AnchorDeleted)]"
proof -
  have "cs_apply list_rope sample_cs [1, 2, 3, 4, 5] = Some [1, 105, 112, 112, 4, 5]"
    by (simp add: cs_apply_def sample_cs_def slice_def)
  from hunks_never_vanish [OF list_rope.rope_text_axioms wf_sample_cs(1) this, of sample_decorations]
  show ?thesis
    by (auto simp: sample_decorations_def decorations_in_def decoration_new_def effect_on_def
        sample_cs_def list_all2_Cons1)
qed

text \<open>
  For a line whose bounds are in order, \<open>for_line\<close> returns exactly the decorations that overlap
  it, each with its class and clipped to the line, its bounds in order and relative to the line's
  start, sorted by start and then end.
\<close>

theorem for_line_sorted_and_clipped:
  assumes "a \<le> b" and "decorations_in n ds"
  shows "\<exists>out. for_line ds a b = Some out
    \<and> sorted (map (\<lambda>d. (l_start d, l_end d)) out)
    \<and> mset out = image_mset (\<lambda>d. \<lparr>l_start = max a (min (d_start d) b) - a,
         l_end = max a (min (d_end d) b) - a, l_class = d_class d\<rparr>)
         {#d \<in># mset (items ds). overlaps d a b#}
    \<and> (\<forall>l \<in> set out. l_start l \<le> l_end l \<and> l_end l \<le> b - a)"
proof -
  let ?clip = "\<lambda>d. \<lparr>l_start = max a (min (d_start d) b) - a,
    l_end = max a (min (d_end d) b) - a, l_class = d_class d\<rparr>"
  let ?ds = "filter (\<lambda>d. overlaps d a b) (items ds)"
  have "those (map (line_item a b) ?ds) = Some (map ?clip ?ds)"
    using assms(1) by (intro those_eq) (simp add: line_item_def clamp_def)
  then have "for_line ds a b = Some (sort_key (\<lambda>d. (l_start d, l_end d)) (map ?clip ?ds))"
    by (simp add: for_line_def)
  moreover have "l_start l \<le> l_end l \<and> l_end l \<le> b - a" if "l \<in> set (map ?clip ?ds)" for l
    using that assms by (auto simp: decorations_in_def)
  ultimately show ?thesis by (simp add: sorted_sort_key)
qed

lemma for_line_sorted_and_clipped_witness:
  "\<exists>out. for_line sample_decorations 0 2 = Some out \<and> length out = 1"
  using for_line_sorted_and_clipped [of 0 2 5 sample_decorations]
  by (auto simp: sample_decorations_def decorations_in_def decoration_new_def overlaps_def
      decoration_is_empty_def dest: arg_cong [where f = size])

end
