(* ===== verification/Utf8.thy ===== *)
theory Utf8
  imports Prelude
begin

text \<open>
  Bytes and UTF-8: what the source relies on of the standard library's \<open>String::from_utf8\<close>,
  \<open>as_bytes\<close>, \<open>char::is_ascii...\<close> and integer parsing.  A byte is a natural number below 256;
  \<open>valid_char\<close> says that a number is a Unicode scalar value, the values a \<open>char\<close> can have.
\<close>

type_synonym byte = nat
type_synonym bytes = "byte list"

definition valid_char :: "uchar \<Rightarrow> bool" where
  "valid_char c \<longleftrightarrow> c < 0xD800 \<or> (0xE000 \<le> c \<and> c < 0x110000)"

definition valid_text :: "utext \<Rightarrow> bool" where
  "valid_text s \<longleftrightarrow> list_all valid_char s"

section \<open>Encoding\<close>

definition utf8_char :: "uchar \<Rightarrow> bytes" where
  "utf8_char c =
     (if c < 0x80 then [c]
      else if c < 0x800 then [0xC0 + c div 0x40, 0x80 + c mod 0x40]
      else if c < 0x10000 then [0xE0 + c div 0x1000, 0x80 + c div 0x40 mod 0x40, 0x80 + c mod 0x40]
      else [0xF0 + c div 0x40000, 0x80 + c div 0x1000 mod 0x40, 0x80 + c div 0x40 mod 0x40,
            0x80 + c mod 0x40])"

definition utf8_encode :: "utext \<Rightarrow> bytes" where
  "utf8_encode s = concat (map utf8_char s)"

lemma utf8_encode_simps [simp]:
  "utf8_encode [] = []"
  "utf8_encode (c # s) = utf8_char c @ utf8_encode s"
  "utf8_encode (s @ t) = utf8_encode s @ utf8_encode t"
  by (simp_all add: utf8_encode_def)

section \<open>Decoding\<close>

definition continuation :: "byte \<Rightarrow> bool" where
  "continuation b \<longleftrightarrow> 0x80 \<le> b \<and> b < 0xC0"

text \<open>The char whose encoding starts a byte sequence, and what follows it.\<close>

fun utf8_next :: "bytes \<Rightarrow> (uchar \<times> bytes) option" where
  "utf8_next [] = None"
| "utf8_next (a # r) =
     (if a < 0x80 then Some (a, r)
      else if 0xC2 \<le> a \<and> a < 0xE0 then
        (case r of b # r' \<Rightarrow>
           if continuation b then Some ((a - 0xC0) * 0x40 + (b - 0x80), r') else None
         | _ \<Rightarrow> None)
      else if 0xE0 \<le> a \<and> a < 0xF0 then
        (case r of b # c # r' \<Rightarrow>
           let x = (a - 0xE0) * 0x1000 + (b - 0x80) * 0x40 + (c - 0x80) in
           if continuation b \<and> continuation c \<and> 0x800 \<le> x \<and> valid_char x
           then Some (x, r') else None
         | _ \<Rightarrow> None)
      else if 0xF0 \<le> a \<and> a < 0xF5 then
        (case r of b # c # d # r' \<Rightarrow>
           let x = (a - 0xF0) * 0x40000 + (b - 0x80) * 0x1000 + (c - 0x80) * 0x40 + (d - 0x80) in
           if continuation b \<and> continuation c \<and> continuation d \<and> 0x10000 \<le> x \<and> valid_char x
           then Some (x, r') else None
         | _ \<Rightarrow> None)
      else None)"

lemma utf8_next_shorter: "utf8_next bs = Some (c, r) \<Longrightarrow> length r < length bs"
  by (cases bs) (auto split: if_splits list.splits simp: Let_def)

function utf8_decode :: "bytes \<Rightarrow> utext option" where
  "utf8_decode bs =
     (if bs = [] then Some []
      else case utf8_next bs of
             None \<Rightarrow> None
           | Some (c, r) \<Rightarrow> map_option ((#) c) (utf8_decode r))"
  by auto
termination
  by (relation "measure length") (auto dest: utf8_next_shorter)

declare utf8_decode.simps [simp del]

lemma utf8_decode_Nil [simp]: "utf8_decode [] = Some []"
  by (simp add: utf8_decode.simps)

lemma utf8_next_char:
  assumes "valid_char c"
  shows "utf8_next (utf8_char c @ r) = Some (c, r)"
proof -
  consider "c < 0x80" | "0x80 \<le> c" "c < 0x800" | "0x800 \<le> c" "c < 0x10000"
    | "0x10000 \<le> c" "c < 0x110000"
    using assms unfolding valid_char_def by linarith
  then show ?thesis
  proof cases
    case 1
    then show ?thesis by (simp add: utf8_char_def)
  next
    case 2
    define q r' where "q = c div 64" "r' = c mod 64"
    have "2 \<le> q" "q < 32" "r' < 64" "c = q * 64 + r'"
      using 2 by (simp_all add: q_r'_def)
    then show ?thesis using 2
      by (simp add: utf8_char_def continuation_def q_r'_def [symmetric])
  next
    case 3
    define q p r' where "q = c div 4096" "p = c div 64 mod 64" "r' = c mod 64"
    have "c div 4096 = c div 64 div 64" by (simp flip: div_mult2_eq)
    then have *: "q < 16" "p < 64" "r' < 64" "q * 4096 + p * 64 + r' = c"
      using 3 mult_div_mod_eq [of 64 "c div 64"] mult_div_mod_eq [of 64 c]
      unfolding q_p_r'_def by linarith+
    then show ?thesis using 3 assms
      by (simp add: utf8_char_def continuation_def Let_def q_p_r'_def [symmetric])
  next
    case 4
    define x y q where "x = c div 64" "y = x div 64" "q = y div 64"
    define p m r' where "p = y mod 64" "m = x mod 64" "r' = c mod 64"
    have div: "c div 4096 = y" "c div 262144 = q" "c div 64 = x"
      by (simp_all add: x_y_q_def flip: div_mult2_eq)
    have "x * 64 + r' = c" "y * 64 + m = x" "q * 64 + p = y" "p < 64" "m < 64" "r' < 64"
      by (simp_all add: x_y_q_def p_m_r'_def)
    then have "q < 5" "q * 262144 + p * 4096 + m * 64 + r' = c" "p < 64" "m < 64" "r' < 64"
      using 4 by linarith+
    then show ?thesis using 4 assms
      by (simp add: utf8_char_def continuation_def Let_def div p_m_r'_def [symmetric])
  qed
qed

lemma utf8_char_nonempty [simp]: "utf8_char c \<noteq> []"
  by (simp add: utf8_char_def)

lemma utf8_decode_encode: "valid_text s \<Longrightarrow> utf8_decode (utf8_encode s) = Some s"
proof (induction s)
  case (Cons c s)
  then have "utf8_next (utf8_encode (c # s)) = Some (c, utf8_encode s)"
    using utf8_next_char [of c "utf8_encode s"] by (simp add: valid_text_def)
  with Cons show ?case
    by (subst utf8_decode.simps) (simp add: valid_text_def)
qed simp

lemma valid_text_simps [simp]:
  "valid_text []" "valid_text (c # s) \<longleftrightarrow> valid_char c \<and> valid_text s"
  "valid_text (s @ t) \<longleftrightarrow> valid_text s \<and> valid_text t"
  by (simp_all add: valid_text_def)

end
