(* ===== verification/Filesystem.thy ===== *)
theory Filesystem
  imports Utf8 "HOL-Library.List_Lexorder" "HOL-Library.Product_Lexorder"
begin

text \<open>
  Paths, the filesystem vocabulary (\<open>crates/core/src/fs.rs\<close>), the service boundary
  (\<open>crates/filesystem/src/service.rs\<close>) and its in-memory implementation
  (\<open>crates/test-support/src/fake_fs.rs\<close>).

  The trait \<open>FileSystemService\<close> is a record of operations on a state \<open>'w\<close>; the locale
  \<open>file_service\<close> states what its callers rely on, and the in-memory filesystem is shown to
  provide it.  A path is its sequence of components, a name the sequence of its chars; the Unicode
  case table of the standard library is the parameter \<open>lower\<close>.
\<close>

section \<open>Paths\<close>

datatype path_component = RootDir | CurDir | ParentDir | Normal utext

type_synonym path = "path_component list"

fun component_rank :: "path_component \<Rightarrow> nat" where
  "component_rank RootDir = 0"
| "component_rank CurDir = 1"
| "component_rank ParentDir = 2"
| "component_rank (Normal _) = 3"

fun component_name :: "path_component \<Rightarrow> utext" where
  "component_name (Normal s) = s"
| "component_name _ = []"

text \<open>Components are ordered as the derived order of \<open>std::path::Component\<close> orders them.\<close>

instantiation path_component :: linorder
begin

definition less_eq_path_component :: "path_component \<Rightarrow> path_component \<Rightarrow> bool" where
  "less_eq_path_component x y =
     ((component_rank x, component_name x) \<le> (component_rank y, component_name y))"

definition less_path_component :: "path_component \<Rightarrow> path_component \<Rightarrow> bool" where
  "less_path_component x y =
     ((component_rank x, component_name x) < (component_rank y, component_name y))"

instance
proof
  fix x y z :: path_component
  show "x < y \<longleftrightarrow> x \<le> y \<and> \<not> y \<le> x"
    by (auto simp: less_eq_path_component_def less_path_component_def)
  show "x \<le> x" by (simp add: less_eq_path_component_def)
  show "x \<le> y \<Longrightarrow> y \<le> z \<Longrightarrow> x \<le> z"
    unfolding less_eq_path_component_def by (rule order_trans)
  show "x \<le> y \<or> y \<le> x" unfolding less_eq_path_component_def by (rule linear)
  assume "x \<le> y" "y \<le> x"
  then have "component_rank x = component_rank y \<and> component_name x = component_name y"
    unfolding less_eq_path_component_def by (metis Pair_inject order.antisym)
  then show "x = y" by (cases x; cases y) auto
qed

end

definition path_parent :: "path \<Rightarrow> path option" where
  "path_parent p = (if p = [] \<or> last p = RootDir then None else Some (butlast p))"

definition path_file_name :: "path \<Rightarrow> utext option" where
  "path_file_name p =
     (if p = [] then None else case last p of Normal s \<Rightarrow> Some s | _ \<Rightarrow> None)"

definition path_starts_with :: "path \<Rightarrow> path \<Rightarrow> bool" where
  "path_starts_with p base \<longleftrightarrow> take (length base) p = base"

text \<open>Joining an absolute path replaces what is there.\<close>

definition path_join :: "path \<Rightarrow> path \<Rightarrow> path" where
  "path_join p q = (case q of RootDir # _ \<Rightarrow> q | _ \<Rightarrow> p @ q)"

definition path_strip_prefix :: "path \<Rightarrow> path \<Rightarrow> path option" where
  "path_strip_prefix p base =
     (if path_starts_with p base then Some (drop (length base) p) else None)"

definition path_pop :: "path \<Rightarrow> path" where
  "path_pop p = (case path_parent p of Some q \<Rightarrow> q | None \<Rightarrow> p)"

lemma path_starts_with_refl [simp]: "path_starts_with p p"
  by (simp add: path_starts_with_def)

lemma path_starts_with_append [simp]: "path_starts_with (p @ q) p"
  by (simp add: path_starts_with_def)

lemma path_starts_withE:
  assumes "path_starts_with p base"
  obtains q where "p = base @ q"
  using assms by (metis append_take_drop_id path_starts_with_def)

section \<open>The vocabulary\<close>

datatype entry_kind = Dir | File | Symlink

fun sort_rank :: "entry_kind \<Rightarrow> nat" where
  "sort_rank Dir = 0"
| "sort_rank File = 1"
| "sort_rank Symlink = 1"

record dir_entry_info =
  de_name :: utext
  de_path :: path
  de_kind :: entry_kind

datatype fs_error =
    NotFound path
  | PermissionDenied path
  | NotADirectory path
  | AlreadyExists path
  | Other path string

fun fs_error_path :: "fs_error \<Rightarrow> path" where
  "fs_error_path (NotFound p) = p"
| "fs_error_path (PermissionDenied p) = p"
| "fs_error_path (NotADirectory p) = p"
| "fs_error_path (AlreadyExists p) = p"
| "fs_error_path (Other p _) = p"

type_synonym 'a fs_result = "fs_error + 'a"

definition sort_entries :: "(utext \<Rightarrow> utext) \<Rightarrow> dir_entry_info list \<Rightarrow> dir_entry_info list" where
  "sort_entries lower = sort_key (\<lambda>e. (sort_rank (de_kind e), lower (de_name e), de_name e))"

record 'w fs_api =
  fs_read_dir :: "'w \<Rightarrow> path \<Rightarrow> dir_entry_info list fs_result"
  fs_read_file :: "'w \<Rightarrow> path \<Rightarrow> bytes fs_result"
  fs_create_file :: "'w \<Rightarrow> path \<Rightarrow> unit fs_result \<times> 'w"
  fs_write_file :: "'w \<Rightarrow> path \<Rightarrow> bytes \<Rightarrow> unit fs_result \<times> 'w"
  fs_create_dir :: "'w \<Rightarrow> path \<Rightarrow> unit fs_result \<times> 'w"
  fs_rename :: "'w \<Rightarrow> path \<Rightarrow> path \<Rightarrow> (unit fs_result \<times> 'w) option"
  fs_remove_file :: "'w \<Rightarrow> path \<Rightarrow> unit fs_result \<times> 'w"
  fs_remove_dir_all :: "'w \<Rightarrow> path \<Rightarrow> unit fs_result \<times> 'w"
  fs_canonicalize :: "'w \<Rightarrow> path \<Rightarrow> path fs_result"

section \<open>The in-memory filesystem\<close>

datatype fake_node = NDir | NFile bytes | NSymlink path

text \<open>
  A \<open>BTreeMap\<close> is its list of entries in key order.
\<close>

fun bt_insert :: "'k :: linorder \<Rightarrow> 'v \<Rightarrow> ('k \<times> 'v) list \<Rightarrow> ('k \<times> 'v) list" where
  "bt_insert k v [] = [(k, v)]"
| "bt_insert k v ((a, b) # m) =
     (if k < a then (k, v) # (a, b) # m
      else if k = a then (k, v) # m
      else (a, b) # bt_insert k v m)"

definition bt_remove :: "'k \<Rightarrow> ('k \<times> 'v) list \<Rightarrow> ('k \<times> 'v) list" where
  "bt_remove k m = filter (\<lambda>e. fst e \<noteq> k) m"

definition bt_or_insert :: "'k :: linorder \<Rightarrow> 'v \<Rightarrow> ('k \<times> 'v) list \<Rightarrow> ('k \<times> 'v) list" where
  "bt_or_insert k v m = (case map_of m k of None \<Rightarrow> bt_insert k v m | Some _ \<Rightarrow> m)"

lemma map_of_bt_insert [simp]:
  "sorted_wrt (<) (map fst m) \<Longrightarrow> map_of (bt_insert k v m) = (map_of m)(k \<mapsto> v)"
proof (induction m)
  case (Cons e m)
  then show ?case by (cases e) (auto simp: fun_eq_iff)
qed auto

lemma set_bt_insert: "set (map fst (bt_insert k v m)) = insert k (set (map fst m))"
proof (induction m)
  case (Cons e m)
  then show ?case by (cases e) auto
qed simp

lemma sorted_bt_insert [simp]:
  "sorted_wrt (<) (map fst m) \<Longrightarrow> sorted_wrt (<) (map fst (bt_insert k v m))"
proof (induction m)
  case (Cons e m)
  obtain a b where e: "e = (a, b)" by (cases e)
  have "a < x" if "k > a" "x \<in> set (map fst (bt_insert k v m))" for x
    using Cons.prems that set_bt_insert [of k v m] by (auto simp: e)
  with Cons e show ?case by (auto simp: not_less le_less)
qed simp

lemma map_of_bt_remove [simp]: "map_of (bt_remove k m) = (map_of m)(k := None)"
  by (induction m) (auto simp: bt_remove_def fun_eq_iff)

lemma sorted_filter_keys:
  "sorted_wrt (<) (map fst m) \<Longrightarrow> sorted_wrt (<) (map fst (filter P m))"
  by (induction m) auto

lemma sorted_bt_remove [simp]:
  "sorted_wrt (<) (map fst m) \<Longrightarrow> sorted_wrt (<) (map fst (bt_remove k m))"
  by (simp add: bt_remove_def sorted_filter_keys)

lemma map_of_bt_or_insert [simp]:
  "sorted_wrt (<) (map fst m) \<Longrightarrow> map_of (bt_or_insert k v m)
     = (case map_of m k of None \<Rightarrow> (map_of m)(k \<mapsto> v) | Some _ \<Rightarrow> map_of m)"
  by (auto simp: bt_or_insert_def split: option.splits)

lemma sorted_bt_or_insert [simp]:
  "sorted_wrt (<) (map fst m) \<Longrightarrow> sorted_wrt (<) (map fst (bt_or_insert k v m))"
  by (auto simp: bt_or_insert_def split: option.splits)

record fake_fs =
  ff_nodes :: "(path \<times> fake_node) list"
  ff_failures :: "(path \<times> fs_error) list"

definition fake_new :: fake_fs where
  "fake_new = \<lparr>ff_nodes = [([RootDir], NDir)], ff_failures = []\<rparr>"

fun normalize_loop :: "path \<Rightarrow> path \<Rightarrow> path" where
  "normalize_loop out [] = out"
| "normalize_loop out (c # cs) =
     normalize_loop (case c of ParentDir \<Rightarrow> path_pop out | CurDir \<Rightarrow> out
                     | _ \<Rightarrow> path_join out [c]) cs"

definition fake_normalize :: "path \<Rightarrow> path" where
  "fake_normalize p = (let out = normalize_loop [] p in if out = [] then [RootDir] else out)"

fun ancestors_loop ::
  "(path \<times> fake_node) list \<Rightarrow> path \<Rightarrow> path \<Rightarrow> path \<Rightarrow> (path \<times> fake_node) list" where
  "ancestors_loop nodes p cur [] = nodes"
| "ancestors_loop nodes p cur (c # cs) =
     (let cur = path_join cur [c] in
      ancestors_loop (if cur \<noteq> p then bt_or_insert cur NDir nodes else nodes) p cur cs)"

definition insert_ancestors :: "(path \<times> fake_node) list \<Rightarrow> path \<Rightarrow> (path \<times> fake_node) list" where
  "insert_ancestors nodes p = ancestors_loop nodes p [] p"

fun kind_of :: "fake_node \<Rightarrow> entry_kind" where
  "kind_of NDir = Dir"
| "kind_of (NFile _) = File"
| "kind_of (NSymlink _) = Symlink"

definition fake_add_dir :: "fake_fs \<Rightarrow> path \<Rightarrow> fake_fs" where
  "fake_add_dir f p =
     (let p = fake_normalize p in
      f\<lparr>ff_nodes := bt_insert p NDir (insert_ancestors (ff_nodes f) p)\<rparr>)"

definition fake_add_file :: "fake_fs \<Rightarrow> path \<Rightarrow> bytes \<Rightarrow> fake_fs" where
  "fake_add_file f p bs =
     (let p = fake_normalize p in
      f\<lparr>ff_nodes := bt_insert p (NFile bs) (insert_ancestors (ff_nodes f) p)\<rparr>)"

definition fake_add_symlink :: "fake_fs \<Rightarrow> path \<Rightarrow> path \<Rightarrow> fake_fs" where
  "fake_add_symlink f p target =
     (let p = fake_normalize p in
      f\<lparr>ff_nodes := bt_insert p (NSymlink target) (insert_ancestors (ff_nodes f) p)\<rparr>)"

definition fake_fail :: "fake_fs \<Rightarrow> path \<Rightarrow> fs_error \<Rightarrow> fake_fs" where
  "fake_fail f p e = f\<lparr>ff_failures := bt_insert (fake_normalize p) e (ff_failures f)\<rparr>"

definition fake_paths :: "fake_fs \<Rightarrow> path list" where
  "fake_paths f = map fst (ff_nodes f)"

definition check_failure :: "fake_fs \<Rightarrow> path \<Rightarrow> fs_error option" where
  "check_failure f p = map_of (ff_failures f) p"

definition fake_read_dir ::
  "(utext \<Rightarrow> utext) \<Rightarrow> fake_fs \<Rightarrow> path \<Rightarrow> dir_entry_info list fs_result" where
  "fake_read_dir lower f p =
     (let p = fake_normalize p in
      case check_failure f p of Some e \<Rightarrow> Inl e
      | None \<Rightarrow>
        (case map_of (ff_nodes f) p of
           None \<Rightarrow> Inl (NotFound p)
         | Some NDir \<Rightarrow>
             Inr (sort_entries lower
               (map (\<lambda>(q, node). \<lparr>de_name = (case path_file_name q of Some s \<Rightarrow> s | None \<Rightarrow> []),
                                  de_path = q, de_kind = kind_of node\<rparr>)
                  (filter (\<lambda>(q, _). path_parent q = Some p) (ff_nodes f))))
         | Some _ \<Rightarrow> Inl (NotADirectory p)))"

definition fake_read_file :: "fake_fs \<Rightarrow> path \<Rightarrow> bytes fs_result" where
  "fake_read_file f p =
     (let p = fake_normalize p in
      case check_failure f p of Some e \<Rightarrow> Inl e
      | None \<Rightarrow>
        (case map_of (ff_nodes f) p of
           Some (NFile bs) \<Rightarrow> Inr bs
         | Some _ \<Rightarrow> Inl (Other p ''not a regular file'')
         | None \<Rightarrow> Inl (NotFound p)))"

definition fake_create_file :: "fake_fs \<Rightarrow> path \<Rightarrow> unit fs_result \<times> fake_fs" where
  "fake_create_file f p =
     (let p = fake_normalize p in
      case check_failure f p of Some e \<Rightarrow> (Inl e, f)
      | None \<Rightarrow>
        if map_of (ff_nodes f) p \<noteq> None then (Inl (AlreadyExists p), f)
        else (Inr (), f\<lparr>ff_nodes := bt_insert p (NFile []) (insert_ancestors (ff_nodes f) p)\<rparr>))"

definition fake_write_file :: "fake_fs \<Rightarrow> path \<Rightarrow> bytes \<Rightarrow> unit fs_result \<times> fake_fs" where
  "fake_write_file f p bs =
     (let p = fake_normalize p in
      case check_failure f p of Some e \<Rightarrow> (Inl e, f)
      | None \<Rightarrow>
        (Inr (), f\<lparr>ff_nodes := bt_insert p (NFile bs) (insert_ancestors (ff_nodes f) p)\<rparr>))"

definition fake_create_dir :: "fake_fs \<Rightarrow> path \<Rightarrow> unit fs_result \<times> fake_fs" where
  "fake_create_dir f p =
     (let p = fake_normalize p in
      case check_failure f p of Some e \<Rightarrow> (Inl e, f)
      | None \<Rightarrow> (Inr (), f\<lparr>ff_nodes := bt_or_insert p NDir (insert_ancestors (ff_nodes f) p)\<rparr>))"

text \<open>The subtree moves node by node, in key order.\<close>

fun rename_loop ::
  "path \<Rightarrow> path \<Rightarrow> path list \<Rightarrow> (path \<times> fake_node) list \<Rightarrow> (path \<times> fake_node) list option" where
  "rename_loop src dst [] nodes = Some nodes"
| "rename_loop src dst (old # rest) nodes =
     do { node \<leftarrow> map_of nodes old;
          suffix \<leftarrow> path_strip_prefix old src;
          rename_loop src dst rest (bt_insert (path_join dst suffix) node (bt_remove old nodes)) }"

definition fake_rename :: "fake_fs \<Rightarrow> path \<Rightarrow> path \<Rightarrow> (unit fs_result \<times> fake_fs) option" where
  "fake_rename f src dst =
     (let src = fake_normalize src; dst = fake_normalize dst in
      case check_failure f src of Some e \<Rightarrow> Some (Inl e, f)
      | None \<Rightarrow>
        if map_of (ff_nodes f) src = None then Some (Inl (NotFound src), f)
        else if map_of (ff_nodes f) dst \<noteq> None then Some (Inl (AlreadyExists dst), f)
        else do { nodes \<leftarrow> rename_loop src dst
                    (filter (\<lambda>p. path_starts_with p src) (map fst (ff_nodes f))) (ff_nodes f);
                  Some (Inr (), f\<lparr>ff_nodes := insert_ancestors nodes dst\<rparr>) })"

definition fake_remove_file :: "fake_fs \<Rightarrow> path \<Rightarrow> unit fs_result \<times> fake_fs" where
  "fake_remove_file f p =
     (let p = fake_normalize p in
      case check_failure f p of Some e \<Rightarrow> (Inl e, f)
      | None \<Rightarrow>
        (case map_of (ff_nodes f) p of
           Some NDir \<Rightarrow> (Inl (Other p ''is a directory''), f)
         | Some _ \<Rightarrow> (Inr (), f\<lparr>ff_nodes := bt_remove p (ff_nodes f)\<rparr>)
         | None \<Rightarrow> (Inl (NotFound p), f)))"

definition fake_remove_dir_all :: "fake_fs \<Rightarrow> path \<Rightarrow> unit fs_result \<times> fake_fs" where
  "fake_remove_dir_all f p =
     (let p = fake_normalize p in
      case check_failure f p of Some e \<Rightarrow> (Inl e, f)
      | None \<Rightarrow>
        if map_of (ff_nodes f) p = None then (Inl (NotFound p), f)
        else (Inr (), f\<lparr>ff_nodes := filter (\<lambda>e. \<not> path_starts_with (fst e) p) (ff_nodes f)\<rparr>))"

definition fake_canonicalize :: "fake_fs \<Rightarrow> path \<Rightarrow> path fs_result" where
  "fake_canonicalize f p =
     (let p = fake_normalize p in
      case check_failure f p of Some e \<Rightarrow> Inl e
      | None \<Rightarrow> if map_of (ff_nodes f) p \<noteq> None then Inr p else Inl (NotFound p))"

section \<open>What a caller of the service relies on\<close>

text \<open>
  \<open>resolve\<close> maps a path to the file it names.  A write that succeeds is read back and leaves the
  other files alone; an operation that fails changes nothing; creating never clobbers a file.
\<close>

locale file_service =
  fixes F :: "'w fs_api"
    and ok :: "'w \<Rightarrow> bool"
    and resolve :: "path \<Rightarrow> path"
  assumes write_ok: "ok w \<Longrightarrow> fs_write_file F w p bs = (r, w') \<Longrightarrow> ok w'"
    and write_fails: "fs_write_file F w p bs = (Inl e, w') \<Longrightarrow> w' = w"
    and write_read: "ok w \<Longrightarrow> fs_write_file F w p bs = (Inr u, w') \<Longrightarrow> fs_read_file F w' p = Inr bs"
    and write_other: "ok w \<Longrightarrow> fs_write_file F w p bs = (Inr u, w') \<Longrightarrow> resolve q \<noteq> resolve p \<Longrightarrow>
      fs_read_file F w q = Inr c \<Longrightarrow> fs_read_file F w' q = Inr c"
    and create_ok: "ok w \<Longrightarrow> fs_create_file F w p = (r, w') \<Longrightarrow> ok w'"
    and create_fails: "fs_create_file F w p = (Inl e, w') \<Longrightarrow> w' = w"
    and create_new: "ok w \<Longrightarrow> fs_create_file F w p = (Inr u, w') \<Longrightarrow>
      fs_read_file F w p \<noteq> Inr c \<and> fs_read_file F w' p = Inr []"
begin

text \<open>Files that exist survive every attempt to create a file.\<close>

lemma create_keeps:
  assumes "ok w" "fs_create_file F w p = (r, w')" "fs_read_file F w p = Inr c"
  shows "w' = w" "\<exists>e. r = Inl e"
proof -
  have "\<exists>e. r = Inl e"
  proof (cases r)
    case (Inr u)
    with create_new [OF assms(1)] assms(2,3) show ?thesis by blast
  qed simp
  then show "\<exists>e. r = Inl e" "w' = w" using create_fails assms(2) by auto
qed

end

definition fake_ok :: "fake_fs \<Rightarrow> bool" where
  "fake_ok f \<longleftrightarrow> sorted_wrt (<) (map fst (ff_nodes f))"

lemma ancestors_loop_ok:
  assumes "sorted_wrt (<) (map fst nodes)"
  shows "sorted_wrt (<) (map fst (ancestors_loop nodes p cur cs))
    \<and> (\<forall>q n. map_of nodes q = Some n \<longrightarrow> map_of (ancestors_loop nodes p cur cs) q = Some n)"
  using assms
proof (induction nodes p cur cs rule: ancestors_loop.induct)
  case (2 nodes p cur c cs)
  define nodes' where "nodes' = (if path_join cur [c] \<noteq> p then bt_or_insert (path_join cur [c]) NDir nodes else nodes)"
  have s: "sorted_wrt (<) (map fst nodes')" using 2(2) by (simp add: nodes'_def)
  have k: "map_of nodes' q = Some n" if "map_of nodes q = Some n" for q n
    using that 2(2) by (auto simp: nodes'_def split: option.splits)
  from 2(1) [OF refl s [unfolded nodes'_def]] k show ?case
    by (simp add: Let_def nodes'_def [symmetric])
qed simp

lemma insert_ancestors_ok:
  assumes "sorted_wrt (<) (map fst nodes)"
  shows "sorted_wrt (<) (map fst (insert_ancestors nodes p))"
    "map_of nodes q = Some n \<Longrightarrow> map_of (insert_ancestors nodes p) q = Some n"
  using ancestors_loop_ok [OF assms] by (auto simp: insert_ancestors_def)

definition fake_api :: "(utext \<Rightarrow> utext) \<Rightarrow> fake_fs fs_api" where
  "fake_api lower = \<lparr>
     fs_read_dir = fake_read_dir lower,
     fs_read_file = fake_read_file,
     fs_create_file = fake_create_file,
     fs_write_file = fake_write_file,
     fs_create_dir = fake_create_dir,
     fs_rename = fake_rename,
     fs_remove_file = fake_remove_file,
     fs_remove_dir_all = fake_remove_dir_all,
     fs_canonicalize = fake_canonicalize\<rparr>"

lemma fake_read_file_Inr:
  "fake_read_file f p = Inr c \<longleftrightarrow> check_failure f (fake_normalize p) = None
     \<and> map_of (ff_nodes f) (fake_normalize p) = Some (NFile c)"
  by (auto simp: fake_read_file_def Let_def split: option.splits fake_node.splits)

lemma fake_write_cases:
  assumes "fake_ok f" "fake_write_file f p bs = (r, f')"
  shows "(\<exists>e. r = Inl e \<and> f' = f) \<or> (r = Inr () \<and> fake_ok f' \<and> fake_read_file f' p = Inr bs
    \<and> (\<forall>q c. fake_normalize q \<noteq> fake_normalize p \<longrightarrow> fake_read_file f q = Inr c
         \<longrightarrow> fake_read_file f' q = Inr c))"
proof (cases "check_failure f (fake_normalize p)")
  case None
  note anc = insert_ancestors_ok [of "ff_nodes f", OF assms(1) [unfolded fake_ok_def]]
  have f': "r = Inr ()" "f' = f\<lparr>ff_nodes := bt_insert (fake_normalize p) (NFile bs)
      (insert_ancestors (ff_nodes f) (fake_normalize p))\<rparr>"
    using assms(2) None by (simp_all add: fake_write_file_def Let_def)
  then show ?thesis
    using anc None by (simp add: fake_read_file_Inr fake_ok_def check_failure_def)
qed (use assms in \<open>auto simp: fake_write_file_def Let_def\<close>)

lemma fake_create_cases:
  assumes "fake_ok f" "fake_create_file f p = (r, f')"
  shows "(\<exists>e. r = Inl e \<and> f' = f) \<or> (r = Inr () \<and> fake_ok f' \<and> fake_read_file f' p = Inr []
    \<and> (\<forall>c. fake_read_file f p \<noteq> Inr c))"
proof (cases "check_failure f (fake_normalize p)")
  case None
  note anc = insert_ancestors_ok [of "ff_nodes f", OF assms(1) [unfolded fake_ok_def]]
  show ?thesis
    using assms anc None
    by (auto simp: fake_create_file_def fake_read_file_Inr fake_ok_def check_failure_def Let_def
        split: if_splits)
qed (use assms in \<open>auto simp: fake_create_file_def Let_def\<close>)

interpretation fake_fs: file_service "fake_api lower" fake_ok fake_normalize for lower
proof
  show "fs_write_file (fake_api lower) w p bs = (Inl e, w') \<Longrightarrow> w' = w" for w p bs e w'
    by (auto simp: fake_api_def fake_write_file_def Let_def split: option.splits)
  show "fs_create_file (fake_api lower) w p = (Inl e, w') \<Longrightarrow> w' = w" for w p e w'
    by (auto simp: fake_api_def fake_create_file_def Let_def split: option.splits if_splits)
qed (use fake_write_cases fake_create_cases in \<open>fastforce simp: fake_api_def\<close>)+

section \<open>Renaming\<close>

lemma rename_loop_total:
  assumes "distinct ks" "\<forall>k \<in> set ks. map_of nodes k \<noteq> None \<and> path_starts_with k src"
    "sorted_wrt (<) (map fst nodes)"
  shows "\<exists>nodes'. rename_loop src dst ks nodes = Some nodes' \<and> sorted_wrt (<) (map fst nodes')"
  using assms
proof (induction ks arbitrary: nodes)
  case (Cons k ks)
  then obtain n where n: "map_of nodes k = Some n" by auto
  obtain q where q: "path_strip_prefix k src = Some q"
    using Cons.prems by (simp add: path_strip_prefix_def)
  define nodes' where "nodes' = bt_insert (path_join dst q) n (bt_remove k nodes)"
  have "sorted_wrt (<) (map fst nodes')" using Cons.prems by (simp add: nodes'_def)
  moreover have "\<forall>x \<in> set ks. map_of nodes' x \<noteq> None \<and> path_starts_with x src"
    using Cons.prems by (auto simp: nodes'_def)
  ultimately show ?case using Cons n q by (simp add: nodes'_def)
qed simp

lemma fake_rename_ok:
  assumes "fake_ok f"
  shows "\<exists>r f'. fake_rename f src dst = Some (r, f') \<and> fake_ok f'"
proof -
  let ?src = "fake_normalize src" and ?dst = "fake_normalize dst"
  let ?ks = "filter (\<lambda>p. path_starts_with p ?src) (map fst (ff_nodes f))"
  have s: "sorted_wrt (<) (map fst (ff_nodes f))" using assms by (simp add: fake_ok_def)
  then have "distinct ?ks" by (simp add: strict_sorted_iff)
  moreover have "\<forall>k \<in> set ?ks. map_of (ff_nodes f) k \<noteq> None \<and> path_starts_with k ?src"
    by (auto simp: map_of_eq_None_iff)
  ultimately obtain nodes where "rename_loop ?src ?dst ?ks (ff_nodes f) = Some nodes"
    "sorted_wrt (<) (map fst nodes)"
    using rename_loop_total s by blast
  with assms show ?thesis
    by (auto simp: fake_rename_def fake_ok_def insert_ancestors_ok Let_def split: option.splits)
qed

section \<open>The properties\<close>

text \<open>
  Listing a directory of the in-memory filesystem gives exactly its direct children, each once,
  directories first and then by name regardless of case; listing anything else is an error.
\<close>

theorem fake_read_dir_lists_children:
  assumes "fake_ok f" and "check_failure f (fake_normalize p) = None"
  shows "case fake_read_dir lower f p of
      Inl e \<Rightarrow> map_of (ff_nodes f) (fake_normalize p) \<noteq> Some NDir
    | Inr es \<Rightarrow> map_of (ff_nodes f) (fake_normalize p) = Some NDir
        \<and> distinct (map de_path es)
        \<and> (\<forall>q k. (\<exists>e \<in> set es. de_path e = q \<and> de_kind e = k) \<longleftrightarrow>
             path_parent q = Some (fake_normalize p)
             \<and> (\<exists>n. map_of (ff_nodes f) q = Some n \<and> kind_of n = k))
        \<and> sorted (map (\<lambda>e. (sort_rank (de_kind e), lower (de_name e), de_name e)) es)"
proof -
  let ?p = "fake_normalize p"
  define info where "info = (\<lambda>(q, node). \<lparr>de_name = (case path_file_name q of Some s \<Rightarrow> s | None \<Rightarrow> []),
    de_path = q, de_kind = kind_of node\<rparr>)"
  define kids where "kids = filter (\<lambda>(q, _ :: fake_node). path_parent q = Some ?p) (ff_nodes f)"
  have d: "distinct (map fst (ff_nodes f))"
    using assms(1) by (simp add: fake_ok_def strict_sorted_iff)
  then have "distinct (map fst kids)" by (simp add: kids_def distinct_map_filter)
  moreover have "map de_path (map info kids) = map fst kids"
    by (auto simp: info_def)
  ultimately have "distinct (map de_path (map info kids))" by (simp only:)
  then have "distinct (map info kids) \<and> inj_on de_path (set (map info kids))"
    by (simp only: distinct_map)
  then have "distinct (map de_path (sort_entries lower (map info kids)))"
    by (simp only: distinct_map sort_entries_def distinct_sort set_sort)
  moreover have "(\<exists>e \<in> set (sort_entries lower (map info kids)). de_path e = q \<and> de_kind e = k) \<longleftrightarrow>
      path_parent q = Some ?p \<and> (\<exists>n. map_of (ff_nodes f) q = Some n \<and> kind_of n = k)" for q k
    by (force simp: sort_entries_def info_def kids_def map_of_eq_Some_iff [OF d])
  moreover have "sorted (map (\<lambda>e. (sort_rank (de_kind e), lower (de_name e), de_name e))
      (sort_entries lower (map info kids)))"
    by (simp add: sort_entries_def)
  moreover have "fake_read_dir lower f p = (case map_of (ff_nodes f) ?p of None \<Rightarrow> Inl (NotFound ?p)
      | Some NDir \<Rightarrow> Inr (sort_entries lower (map info kids)) | Some _ \<Rightarrow> Inl (NotADirectory ?p))"
    unfolding info_def kids_def fake_read_dir_def Let_def assms(2) option.case ..
  ultimately show ?thesis by (auto split: option.splits fake_node.splits)
qed

text \<open>\<open>/a/b\<close>, a directory, and \<open>/a/f\<close>, a file.\<close>

definition sample_fs :: fake_fs where
  "sample_fs = fake_add_file (fake_add_dir fake_new [RootDir, Normal (ustr ''a''), Normal (ustr ''b'')])
     [RootDir, Normal (ustr ''a''), Normal (ustr ''f'')] [1, 2]"

lemma sample_fs_nodes:
  "sample_fs = \<lparr>ff_nodes = [([RootDir], NDir), ([RootDir, Normal [97]], NDir),
      ([RootDir, Normal [97], Normal [98]], NDir),
      ([RootDir, Normal [97], Normal [102]], NFile [1, 2])], ff_failures = []\<rparr>"
  by (simp add: sample_fs_def fake_add_file_def fake_add_dir_def fake_new_def fake_normalize_def
      path_join_def insert_ancestors_def bt_or_insert_def ustr_def Let_def
      less_path_component_def)

lemma fake_read_dir_lists_children_witness:
  "\<exists>es. fake_read_dir (\<lambda>s. s) sample_fs [RootDir, Normal [97]] = Inr es \<and> distinct (map de_path es)"
proof -
  have n: "fake_normalize [RootDir, Normal [97]] = [RootDir, Normal [97]]"
    by (simp add: fake_normalize_def path_join_def)
  have "fake_ok sample_fs"
    by (simp add: fake_ok_def sample_fs_nodes less_path_component_def)
  moreover have "check_failure sample_fs (fake_normalize [RootDir, Normal [97]]) = None"
    by (simp add: sample_fs_nodes check_failure_def)
  moreover have "map_of (ff_nodes sample_fs) [RootDir, Normal [97]] = Some NDir"
    by (simp add: sample_fs_nodes)
  ultimately show ?thesis
    using fake_read_dir_lists_children [of sample_fs "[RootDir, Normal [97]]" "\<lambda>s. s"]
    by (cases "fake_read_dir (\<lambda>s. s) sample_fs [RootDir, Normal [97]]") (simp_all add: n)
qed

text \<open>
  A write to the in-memory filesystem either fails and changes nothing, or is read back and
  leaves every other file readable as it was; creating a file never clobbers one that can be read;
  renaming never panics.
\<close>

theorem fake_files_are_kept:
  assumes "fake_ok f"
  shows "(case fake_write_file f p bs of
      (Inl e, f') \<Rightarrow> f' = f
    | (Inr _, f') \<Rightarrow> fake_ok f' \<and> fake_read_file f' p = Inr bs
        \<and> (\<forall>q c. fake_normalize q \<noteq> fake_normalize p \<and> fake_read_file f q = Inr c
             \<longrightarrow> fake_read_file f' q = Inr c))
    \<and> (fake_read_file f p = Inr c \<longrightarrow> (\<exists>e. fake_create_file f p = (Inl e, f)))
    \<and> (\<exists>r f'. fake_rename f p p' = Some (r, f') \<and> fake_ok f')"
proof -
  obtain r f' where w: "fake_write_file f p bs = (r, f')" by (cases "fake_write_file f p bs")
  obtain r2 f2 where c: "fake_create_file f p = (r2, f2)" by (cases "fake_create_file f p")
  have "fake_read_file f p = Inr c \<longrightarrow> (\<exists>e. fake_create_file f p = (Inl e, f))"
    using fake_fs.create_keeps [OF assms, of _ p r2 f2 c] c by (auto simp: fake_api_def)
  then show ?thesis
    using fake_write_cases [OF assms w] fake_rename_ok [OF assms, of p p'] w
    by (auto split: sum.splits)
qed

lemma fake_files_are_kept_witness:
  "\<exists>e. fake_create_file sample_fs [RootDir, Normal [97], Normal [102]] = (Inl e, sample_fs)"
proof -
  have "fake_ok sample_fs"
    by (simp add: fake_ok_def sample_fs_nodes less_path_component_def)
  moreover have "fake_read_file sample_fs [RootDir, Normal [97], Normal [102]] = Inr [1, 2]"
    by (simp add: fake_read_file_Inr sample_fs_nodes check_failure_def fake_normalize_def path_join_def)
  ultimately show ?thesis
    using fake_files_are_kept [of sample_fs "[RootDir, Normal [97], Normal [102]]" "[]" "[1, 2]" "[]"]
    by blast
qed

end
