(* ===== verification/Buffer.thy ===== *)
theory Buffer
  imports Movement Decoration Filesystem
begin

text \<open>
  The buffer (\<open>crates/editor/src/buffer.rs\<close>): a document held in a rope, its revision, cursor,
  undo log, overlays and the changes not yet reported for document sync.  Every operation takes
  the rope's operations; a result \<open>None\<close> is a panic, \<open>Inl\<close> a returned error.
\<close>

section \<open>Line endings\<close>

datatype line_ending = Lf | Crlf

text \<open>\<open>matches("\r\n").count()\<close> and \<open>replace("\r\n", "\n")\<close>.\<close>

fun count_crlf :: "utext \<Rightarrow> nat" where
  "count_crlf [] = 0"
| "count_crlf [c] = 0"
| "count_crlf (c # d # s) =
     (if c = carriage_return \<and> d = newline then Suc (count_crlf s) else count_crlf (d # s))"

definition count_lf :: "utext \<Rightarrow> nat" where
  "count_lf s = length (filter (\<lambda>c. c = newline) s)"

fun crlf_to_lf :: "utext \<Rightarrow> utext" where
  "crlf_to_lf [] = []"
| "crlf_to_lf [c] = [c]"
| "crlf_to_lf (c # d # s) =
     (if c = carriage_return \<and> d = newline then newline # crlf_to_lf s else c # crlf_to_lf (d # s))"

definition lf_to_crlf :: "utext \<Rightarrow> utext" where
  "lf_to_crlf s = concat (map (\<lambda>c. if c = newline then [carriage_return, newline] else [c]) s)"

definition line_ending_detect :: "utext \<Rightarrow> line_ending" where
  "line_ending_detect s =
     (let crlf = count_crlf s; lf = count_lf s - crlf in if crlf > lf then Crlf else Lf)"

section \<open>Errors and state\<close>

datatype edit_error =
    StaleVersion version version
  | LengthMismatch nat nat
  | NotUtf8 path
  | Fs fs_error

record 'r buffer =
  b_id :: buffer_id
  b_path :: "path option"
  b_text :: 'r
  b_version :: version
  b_selection :: selection
  b_history :: history
  b_line_ending :: line_ending
  b_saved_version :: "version option"
  b_goal_column :: "nat option"
  b_decorations :: decoration_set
  b_pending :: "change_set list"
  b_scroll_top :: nat

definition buffer_new :: "'r rope_api \<Rightarrow> buffer_id \<Rightarrow> 'r buffer" where
  "buffer_new R i =
     \<lparr>b_id = i, b_path = None, b_text = rope_new R, b_version = 0, b_selection = selection_default,
      b_history = history_new, b_line_ending = Lf, b_saved_version = None, b_goal_column = None,
      b_decorations = decs_new, b_pending = [], b_scroll_top = 0\<rparr>"

definition buffer_from_text :: "'r rope_api \<Rightarrow> buffer_id \<Rightarrow> path option \<Rightarrow> utext \<Rightarrow> 'r buffer" where
  "buffer_from_text R i p s =
     \<lparr>b_id = i, b_path = p, b_text = rope_of R (crlf_to_lf s), b_version = 0,
      b_selection = selection_default, b_history = history_new,
      b_line_ending = line_ending_detect s, b_saved_version = Some 0, b_goal_column = None,
      b_decorations = decs_new, b_pending = [], b_scroll_top = 0\<rparr>"

definition buffer_load ::
  "'r rope_api \<Rightarrow> 'w fs_api \<Rightarrow> 'w \<Rightarrow> buffer_id \<Rightarrow> path \<Rightarrow> edit_error + 'r buffer" where
  "buffer_load R F w i p =
     (case fs_read_file F w p of
        Inl e \<Rightarrow> Inl (Fs e)
      | Inr bs \<Rightarrow>
          (case utf8_decode bs of
             None \<Rightarrow> Inl (NotUtf8 p)
           | Some s \<Rightarrow> Inr (buffer_from_text R i (Some p) s)))"

definition to_disk_string :: "'r rope_api \<Rightarrow> 'r buffer \<Rightarrow> utext" where
  "to_disk_string R b =
     (case b_line_ending b of
        Lf \<Rightarrow> rope_chars R (b_text b)
      | Crlf \<Rightarrow> lf_to_crlf (rope_chars R (b_text b)))"

definition buffer_save ::
  "'r rope_api \<Rightarrow> 'w fs_api \<Rightarrow> 'w \<Rightarrow> 'r buffer \<Rightarrow> (edit_error + unit) \<times> 'r buffer \<times> 'w" where
  "buffer_save R F w b =
     (case b_path b of
        None \<Rightarrow> (Inl (Fs (Other [] ''buffer has no path; save-as is not wired up yet'')), b, w)
      | Some p \<Rightarrow>
          (case fs_write_file F w p (utf8_encode (to_disk_string R b)) of
             (Inl e, w') \<Rightarrow> (Inl (Fs e), b, w')
           | (Inr _, w') \<Rightarrow>
               (Inr (), b\<lparr>b_saved_version := Some (b_version b),
                          b_history := break_group (b_history b)\<rparr>, w')))"

definition set_selection :: "selection \<Rightarrow> 'r buffer \<Rightarrow> 'r buffer" where
  "set_selection s b = b\<lparr>b_selection := s, b_history := break_group (b_history b)\<rparr>"

definition is_dirty :: "'r buffer \<Rightarrow> bool" where
  "is_dirty b = (b_saved_version b \<noteq> Some (b_version b))"

definition buffer_can_undo :: "'r buffer \<Rightarrow> bool" where
  "buffer_can_undo b = can_undo (b_history b)"

definition buffer_can_redo :: "'r buffer \<Rightarrow> bool" where
  "buffer_can_redo b = can_redo (b_history b)"

definition take_pending_changes :: "'r buffer \<Rightarrow> change_set list \<times> 'r buffer" where
  "take_pending_changes b = (b_pending b, b\<lparr>b_pending := []\<rparr>)"

definition transaction :: "change_set \<Rightarrow> edit_source \<Rightarrow> 'r buffer \<Rightarrow> edit_transaction \<times> 'r buffer" where
  "transaction cs src b =
     (let (g, h) = group_for (b_history b) src in
      (tx_new (b_id b) (b_version b) cs src g, b\<lparr>b_history := h\<rparr>))"

section \<open>Applying a transaction\<close>

definition buffer_apply ::
  "'r rope_api \<Rightarrow> edit_transaction \<Rightarrow> 'r buffer \<Rightarrow> ((edit_error + unit) \<times> 'r buffer) option" where
  "buffer_apply R tx b =
     (if tx_base_version tx \<noteq> b_version b
      then Some (Inl (StaleVersion (tx_base_version tx) (b_version b)), b)
      else if cs_len_before (tx_changes tx) \<noteq> rope_len R (b_text b)
      then Some (Inl (LengthMismatch (cs_len_before (tx_changes tx)) (rope_len R (b_text b))), b)
      else if tx_is_empty tx then Some (Inr (), b)
      else do {
        inv \<leftarrow> cs_invert R (tx_changes tx) (b_text b);
        txt' \<leftarrow> cs_apply R (tx_changes tx) (b_text b);
        ds \<leftarrow> decs_map (b_decorations b) (tx_changes tx);
        Some (Inr (), b\<lparr>
          b_text := txt',
          b_version := version_next (b_version b),
          b_decorations := ds,
          b_selection := (case tx_selection tx of Some s \<Rightarrow> s
                          | None \<Rightarrow> selection_map (tx_changes tx) (b_selection b)),
          b_pending := b_pending b @ [tx_changes tx],
          b_history := history_push (b_history b) tx inv\<rparr>) })"

definition edit ::
  "'r rope_api \<Rightarrow> nat \<Rightarrow> nat \<Rightarrow> utext \<Rightarrow> edit_source \<Rightarrow> 'r buffer \<Rightarrow>
   ((edit_error + unit) \<times> 'r buffer) option" where
  "edit R from to s src b =
     do { cs \<leftarrow> cs_replace (rope_len R (b_text b)) from to s;
          let (tx, b') = transaction cs src b;
          buffer_apply R tx b' }"

definition mark_saved :: "version \<Rightarrow> 'r buffer \<Rightarrow> 'r buffer" where
  "mark_saved v b = b\<lparr>b_saved_version := Some v, b_history := break_group (b_history b)\<rparr>"

section \<open>Cursor motion\<close>

definition cursor :: "'r buffer \<Rightarrow> nat option" where
  "cursor b = map_option head (selection_primary (b_selection b))"

definition place_cursor :: "nat \<Rightarrow> 'r buffer \<Rightarrow> 'r buffer" where
  "place_cursor pos b = set_selection (selection_point pos) (b\<lparr>b_goal_column := None\<rparr>)"

definition buffer_left :: "'r buffer \<Rightarrow> 'r buffer option" where
  "buffer_left b = do { c \<leftarrow> cursor b; Some (place_cursor (move_left c) b) }"

definition buffer_right :: "'r rope_api \<Rightarrow> 'r buffer \<Rightarrow> 'r buffer option" where
  "buffer_right R b = do { c \<leftarrow> cursor b; Some (place_cursor (move_right R (b_text b) c) b) }"

definition buffer_line_start :: "'r rope_api \<Rightarrow> 'r buffer \<Rightarrow> 'r buffer option" where
  "buffer_line_start R b =
     do { c \<leftarrow> cursor b; p \<leftarrow> line_start R (b_text b) c; Some (place_cursor p b) }"

definition buffer_line_end :: "'r rope_api \<Rightarrow> 'r buffer \<Rightarrow> 'r buffer option" where
  "buffer_line_end R b =
     do { c \<leftarrow> cursor b; p \<leftarrow> line_end R (b_text b) c; Some (place_cursor p b) }"

definition buffer_move_line :: "'r rope_api \<Rightarrow> bool \<Rightarrow> 'r buffer \<Rightarrow> 'r buffer option" where
  "buffer_move_line R down b =
     do { c \<leftarrow> cursor b;
          goal \<leftarrow> (case b_goal_column b of Some g \<Rightarrow> Some (Some g)
                   | None \<Rightarrow> map_option Some (column_of R (b_text b) c));
          pos \<leftarrow> (if down then move_down R (b_text b) c goal else move_up R (b_text b) c goal);
          Some ((set_selection (selection_point pos) b)\<lparr>b_goal_column := goal\<rparr>) }"

definition line_range :: "'r rope_api \<Rightarrow> nat \<Rightarrow> 'r buffer \<Rightarrow> (nat \<times> nat) option" where
  "line_range R line b =
     (if rope_len_lines R (b_text b) \<le> line
      then let e = rope_len R (b_text b) in Some (e, e)
      else do { s \<leftarrow> rope_line_to_char R (b_text b) line;
                e \<leftarrow> line_end R (b_text b) s;
                Some (s, e) })"

definition cursor_position :: "'r rope_api \<Rightarrow> 'r buffer \<Rightarrow> (nat \<times> nat) option" where
  "cursor_position R b =
     do { c \<leftarrow> cursor b;
          l \<leftarrow> line_of R (b_text b) c;
          col \<leftarrow> column_of R (b_text b) c;
          Some (l, col) }"

definition scroll_to_cursor :: "'r rope_api \<Rightarrow> nat \<Rightarrow> 'r buffer \<Rightarrow> 'r buffer option" where
  "scroll_to_cursor R height b =
     (if height = 0 then Some b
      else do {
        let margin = (if height > 4 then 1 else 0 :: nat);
        (line, _) \<leftarrow> cursor_position R b;
        Some (if line < b_scroll_top b + margin then b\<lparr>b_scroll_top := line - margin\<rparr>
              else if line + margin \<ge> b_scroll_top b + height
              then b\<lparr>b_scroll_top := line + margin + 1 - height\<rparr>
              else b) })"

section \<open>Text entry\<close>

definition buffer_insert ::
  "'r rope_api \<Rightarrow> utext \<Rightarrow> edit_source \<Rightarrow> 'r buffer \<Rightarrow> ((edit_error + unit) \<times> 'r buffer) option" where
  "buffer_insert R s src b =
     do { r \<leftarrow> selection_primary (b_selection b);
          edit R (range_start r) (range_end r) s src (b\<lparr>b_goal_column := None\<rparr>) }"

definition delete_backward ::
  "'r rope_api \<Rightarrow> 'r buffer \<Rightarrow> ((edit_error + unit) \<times> 'r buffer) option" where
  "delete_backward R b =
     do { r \<leftarrow> selection_primary (b_selection b);
          let b = b\<lparr>b_goal_column := None\<rparr>;
          if \<not> range_is_empty r then edit R (range_start r) (range_end r) [] Keyboard b
          else if head r = 0 then Some (Inr (), b)
          else edit R (head r - 1) (head r) [] Keyboard b }"

definition delete_forward ::
  "'r rope_api \<Rightarrow> 'r buffer \<Rightarrow> ((edit_error + unit) \<times> 'r buffer) option" where
  "delete_forward R b =
     do { r \<leftarrow> selection_primary (b_selection b);
          let b = b\<lparr>b_goal_column := None\<rparr>;
          if \<not> range_is_empty r then edit R (range_start r) (range_end r) [] Keyboard b
          else if rope_len R (b_text b) \<le> head r then Some (Inr (), b)
          else edit R (head r) (head r + 1) [] Keyboard b }"

text \<open>\<open>replay\<close>, with its debug assertion.\<close>

definition replay :: "'r rope_api \<Rightarrow> change_set \<Rightarrow> 'r buffer \<Rightarrow> 'r buffer option" where
  "replay R cs b =
     (if cs_len_before cs \<noteq> rope_len R (b_text b) then None
      else do { txt' \<leftarrow> cs_apply R cs (b_text b);
                ds \<leftarrow> decs_map (b_decorations b) cs;
                Some (b\<lparr>b_text := txt', b_version := version_next (b_version b),
                        b_selection := selection_map cs (b_selection b),
                        b_decorations := ds, b_pending := b_pending b @ [cs]\<rparr>) })"

definition buffer_undo :: "'r rope_api \<Rightarrow> 'r buffer \<Rightarrow> (bool \<times> 'r buffer) option" where
  "buffer_undo R b =
     do { (r, h) \<leftarrow> history_undo (b_history b);
          case r of
            Some cs \<Rightarrow> map_option (Pair True) (replay R cs (b\<lparr>b_history := h\<rparr>))
          | None \<Rightarrow> Some (False, b\<lparr>b_history := h\<rparr>) }"

definition buffer_redo :: "'r rope_api \<Rightarrow> 'r buffer \<Rightarrow> (bool \<times> 'r buffer) option" where
  "buffer_redo R b =
     do { (r, h) \<leftarrow> history_redo (b_history b);
          case r of
            Some cs \<Rightarrow> map_option (Pair True) (replay R cs (b\<lparr>b_history := h\<rparr>))
          | None \<Rightarrow> Some (False, b\<lparr>b_history := h\<rparr>) }"

section \<open>The invariant\<close>

text \<open>
  The undo log leads to the document, the selection is a non-empty set of ranges inside it with its
  primary index in range, and every overlay lies inside it.
\<close>

definition buffer_ok :: "'r rope_api \<Rightarrow> 'r buffer \<Rightarrow> bool" where
  "buffer_ok R b \<longleftrightarrow> log_ok (b_history b) (rope_chars R (b_text b))
     \<and> selection_in (length (rope_chars R (b_text b))) (b_selection b)
     \<and> decorations_in (length (rope_chars R (b_text b))) (b_decorations b)"

text \<open>What an edit may change of a buffer besides its document.\<close>

definition edited :: "'r rope_api \<Rightarrow> change_set \<Rightarrow> utext \<Rightarrow> 'r buffer \<Rightarrow> 'r buffer \<Rightarrow> bool" where
  "edited R cs u b b' \<longleftrightarrow> rope_chars R (b_text b') = u \<and> carries cs (rope_chars R (b_text b)) u
     \<and> b_version b' = b_version b + 1 \<and> b_pending b' = b_pending b @ [cs]
     \<and> b_saved_version b' = b_saved_version b \<and> b_line_ending b' = b_line_ending b
     \<and> b_path b' = b_path b \<and> b_id b' = b_id b"

lemma carries_replace:
  assumes "cs_replace (length t) from to s = Some cs"
  shows "carries cs t (take from t @ s @ drop to t)" "from \<le> to" "to \<le> length t"
proof -
  have *: "from \<le> to \<and> to \<le> length t"
    using assms cs_replace_panics [of to "from" "length t" s] by (metis not_le option.distinct(1))
  then show "from \<le> to" "to \<le> length t" by auto
  from * obtain cs' where "cs_replace (length t) from to s = Some cs'" "wf_cs cs'"
    "cs_len_before cs' = length t" "\<And>t'. length t' = length t \<Longrightarrow>
      denote (cs_ops cs') t' = take from t' @ s @ drop to t'"
    using cs_replace_ok [of "from" to "length t" s] by metis
  with assms show "carries cs t (take from t @ s @ drop to t)" by (simp add: carries_def)
qed

lemma carries_identity: "carries cs t u \<Longrightarrow> cs_is_identity cs \<Longrightarrow> u = t"
  using denote_identity [of "cs_ops cs" t] by (auto simp: carries_def cs_is_identity_def wf_cs_def)

context rope_text begin

lemma buffer_apply_ok:
  assumes "buffer_ok R b" "carries (tx_changes tx) (rope_chars R (b_text b)) u"
    "tx_base_version tx = b_version b" "\<not> tx_is_empty tx"
    "case tx_selection tx of None \<Rightarrow> True | Some s \<Rightarrow> selection_in (length u) s"
  obtains b' e where "buffer_apply R tx b = Some (Inr (), b')" "buffer_ok R b'"
    "edited R (tx_changes tx) u b b'"
    "b_history b' = (b_history b)\<lparr>undone := [], group_broken := False,
       last_source := Some (tx_source tx), applied := applied (b_history b) @ [e]\<rparr>"
    "e_group e = tx_undo_group tx" "entry_ok e (rope_chars R (b_text b)) u"
    "b_selection b' = (case tx_selection tx of Some s \<Rightarrow> s
       | None \<Rightarrow> selection_map (tx_changes tx) (b_selection b))"
proof -
  let ?cs = "tx_changes tx" and ?t = "rope_chars R (b_text b)"
  have cs: "wf_cs ?cs" "length ?t = cs_len_before ?cs" "length u = cs_len_after ?cs"
    using assms(2) carries_length by (auto simp: carries_def)
  obtain inv where inv: "cs_invert R ?cs (b_text b) = Some inv" "carries inv u ?t"
    using invert_carries [OF assms(2)] by metis
  obtain out where out: "cs_apply R ?cs (b_text b) = Some out" "rope_chars R out = u"
    using apply_carries [OF assms(2)] by metis
  have ok: "log_ok (b_history b) ?t" "selection_in (cs_len_before ?cs) (b_selection b)"
    "decorations_in (cs_len_before ?cs) (b_decorations b)"
    using assms(1) cs(2) by (simp_all add: buffer_ok_def)
  obtain ds where ds: "decs_map (b_decorations b) ?cs = Some ds" "decorations_in (cs_len_after ?cs) ds"
    using decs_map_ok [OF cs(1) ok(3)] by metis
  define sel where "sel = (case tx_selection tx of Some s \<Rightarrow> s
    | None \<Rightarrow> selection_map ?cs (b_selection b))"
  have sel: "selection_in (length u) sel"
    using assms(5) selection_in_map [OF cs(1) ok(2)] cs(3) by (auto simp: sel_def split: option.splits)
  define e where "e = \<lparr>e_group = tx_undo_group tx, e_forward = ?cs, e_inverse = inv\<rparr>"
  define b' where "b' = b\<lparr>b_text := out, b_version := version_next (b_version b),
    b_decorations := ds, b_selection := sel, b_pending := b_pending b @ [?cs],
    b_history := history_push (b_history b) tx inv\<rparr>"
  have "buffer_apply R tx b = Some (Inr (), b')"
    using assms(3,4) cs(2) inv(1) out(1) ds(1)
    by (simp add: buffer_apply_def b'_def sel_def len_chars)
  moreover have "buffer_ok R b'"
    using log_ok_push [OF ok(1) assms(2) inv(2)] sel ds(2) out(2) cs(3)
    by (simp add: buffer_ok_def b'_def)
  moreover have "edited R ?cs u b b'"
    using out(2) assms(2) by (simp add: edited_def b'_def version_next_def)
  moreover have "b_history b' = (b_history b)\<lparr>undone := [], group_broken := False,
       last_source := Some (tx_source tx), applied := applied (b_history b) @ [e]\<rparr>"
    using assms(4) by (simp add: b'_def history_push_def e_def)
  moreover have "entry_ok e ?t u" using assms(2) inv(2) by (simp add: entry_ok_def e_def)
  ultimately show thesis using that [of b' e] by (simp add: e_def b'_def sel_def)
qed

lemma replay_ok:
  assumes "carries cs (rope_chars R (b_text b)) u" "log_ok (b_history b) u"
    "selection_in (length (rope_chars R (b_text b))) (b_selection b)"
    "decorations_in (length (rope_chars R (b_text b))) (b_decorations b)"
  obtains b' where "replay R cs b = Some b'" "buffer_ok R b'" "edited R cs u b b'"
    "b_history b' = b_history b"
proof -
  let ?t = "rope_chars R (b_text b)"
  have cs: "wf_cs cs" "length ?t = cs_len_before cs" "length u = cs_len_after cs"
    using assms(1) carries_length by (auto simp: carries_def)
  obtain out where out: "cs_apply R cs (b_text b) = Some out" "rope_chars R out = u"
    using apply_carries [OF assms(1)] by metis
  obtain ds where ds: "decs_map (b_decorations b) cs = Some ds" "decorations_in (cs_len_after cs) ds"
    using decs_map_ok [OF cs(1)] assms(4) cs(2) by metis
  have "selection_in (length u) (selection_map cs (b_selection b))"
    using selection_in_map [OF cs(1)] assms(3) cs(2,3) by simp
  with that [of "b\<lparr>b_text := out, b_version := version_next (b_version b),
      b_selection := selection_map cs (b_selection b), b_decorations := ds,
      b_pending := b_pending b @ [cs]\<rparr>"] out ds cs assms
  show thesis
    by (simp add: replay_def len_chars buffer_ok_def edited_def version_next_def)
qed

lemma edit_ok:
  assumes "buffer_ok R b" "from \<le> to" "to \<le> length (rope_chars R (b_text b))"
  obtains b' where "edit R from to s src b = Some (Inr (), b')" "buffer_ok R b'"
    "rope_chars R (b_text b')
       = take from (rope_chars R (b_text b)) @ s @ drop to (rope_chars R (b_text b))"
    "(from = to \<and> s = [] \<and> b' = b\<lparr>b_history := snd (group_for (b_history b) src)\<rparr>)
     \<or> ((from < to \<or> s \<noteq> []) \<and> (\<exists>cs e u. edited R cs u b b'
        \<and> b_selection b' = selection_map cs (b_selection b)
        \<and> cs_replace (length (rope_chars R (b_text b))) from to s = Some cs
        \<and> b_history b' = (snd (group_for (b_history b) src))\<lparr>undone := [], group_broken := False,
            last_source := Some src, applied := applied (b_history b) @ [e]\<rparr>
        \<and> e_group e = fst (group_for (b_history b) src)
        \<and> entry_ok e (rope_chars R (b_text b)) (rope_chars R (b_text b'))))"
proof -
  let ?t = "rope_chars R (b_text b)"
  obtain cs where cs: "cs_replace (length ?t) from to s = Some cs"
    using cs_replace_ok [OF assms(2,3), of s] by metis
  note c = carries_replace(1) [OF cs]
  obtain g h where gh: "group_for (b_history b) src = (g, h)" by fastforce
  define b1 where "b1 = b\<lparr>b_history := h\<rparr>"
  define tx where "tx = tx_new (b_id b) (b_version b) cs src g"
  have ed: "edit R from to s src b = buffer_apply R tx b1"
    using cs gh by (simp add: edit_def transaction_def tx_def b1_def len_chars)
  have ok1: "buffer_ok R b1"
    using assms(1) log_ok_group_for [of "b_history b" src] gh by (simp add: buffer_ok_def b1_def)
  note id = cs_replace_identity [OF cs]
  show thesis
  proof (cases "cs_is_identity cs")
    case True
    then have "buffer_apply R tx b1 = Some (Inr (), b1)"
      using c by (simp add: buffer_apply_def tx_is_empty_def tx_def b1_def len_chars carries_def)
    with that [of b1] ed ok1 id True gh show thesis by (simp add: b1_def)
  next
    case False
    then have "\<not> tx_is_empty tx" by (simp add: tx_is_empty_def tx_def)
    from buffer_apply_ok [OF ok1 _ _ this, of "take from ?t @ s @ drop to ?t"] c
    obtain b' e where b': "buffer_apply R tx b1 = Some (Inr (), b')" "buffer_ok R b'"
      "edited R cs (take from ?t @ s @ drop to ?t) b1 b'"
      "b_history b' = h\<lparr>undone := [], group_broken := False,
         last_source := Some src, applied := applied h @ [e]\<rparr>"
      "e_group e = g" "entry_ok e ?t (take from ?t @ s @ drop to ?t)"
      "b_selection b' = selection_map cs (b_selection b)"
      by (auto simp: tx_def b1_def)
    have "applied h = applied (b_history b)" using group_for_log(1) [of "b_history b" src] gh by simp
    with b' have 1: "edited R cs (take from ?t @ s @ drop to ?t) b b'
        \<and> b_history b' = h\<lparr>undone := [], group_broken := False,
            last_source := Some src, applied := applied (b_history b) @ [e]\<rparr>"
      by (simp add: edited_def b1_def)
    show thesis
    proof (rule that [of b'])
      show "rope_chars R (b_text b') = take from ?t @ s @ drop to ?t"
        using 1 by (simp add: edited_def)
      then show "(from = to \<and> s = [] \<and> b' = b\<lparr>b_history := snd (group_for (b_history b) src)\<rparr>)
     \<or> ((from < to \<or> s \<noteq> []) \<and> (\<exists>cs e u. edited R cs u b b'
        \<and> b_selection b' = selection_map cs (b_selection b)
        \<and> cs_replace (length (rope_chars R (b_text b))) from to s = Some cs
        \<and> b_history b' = (snd (group_for (b_history b) src))\<lparr>undone := [], group_broken := False,
            last_source := Some src, applied := applied (b_history b) @ [e]\<rparr>
        \<and> e_group e = fst (group_for (b_history b) src)
        \<and> entry_ok e (rope_chars R (b_text b)) (rope_chars R (b_text b'))))"
        using 1 b'(5-7) cs gh id False assms(2) by (auto simp: le_less)
    qed (use b' ed in simp_all)
  qed
qed

lemma undo_ok:
  assumes "buffer_ok R b" "applied (b_history b) \<noteq> []"
  obtains b' c h es u where "buffer_undo R b = Some (True, b')" "buffer_ok R b'" "edited R c u b b'"
    "history_undo (b_history b) = Some (Some c, h)" "b_history b' = h"
    "edit_path entry_ok es u (rope_chars R (b_text b))"
    "group_split (applied (b_history b)) (applied h) es" "undone h = undone (b_history b) @ rev es"
    "group_broken h"
proof -
  have ok: "log_ok (b_history b) (rope_chars R (b_text b))" using assms(1) by (simp add: buffer_ok_def)
  from history_undo_ok [OF ok assms(2)] obtain c h es u where
    u: "history_undo (b_history b) = Some (Some c, h)" "carries c (rope_chars R (b_text b)) u"
    "edit_path entry_ok es u (rope_chars R (b_text b))"
    "group_split (applied (b_history b)) (applied h) es"
    "undone h = undone (b_history b) @ rev es" "log_ok h u" "group_broken h"
    by metis
  obtain b' where "replay R c (b\<lparr>b_history := h\<rparr>) = Some b'" "buffer_ok R b'"
    "edited R c u (b\<lparr>b_history := h\<rparr>) b'" "b_history b' = h"
    using replay_ok [of c "b\<lparr>b_history := h\<rparr>" u] u(2,6) assms(1) by (auto simp: buffer_ok_def)
  with that [of b' c u h es] u show thesis by (simp add: buffer_undo_def edited_def)
qed

lemma redo_ok:
  assumes "buffer_ok R b" "undone (b_history b) \<noteq> []"
  obtains b' c h es u where "buffer_redo R b = Some (True, b')" "buffer_ok R b'" "edited R c u b b'"
    "history_redo (b_history b) = Some (Some c, h)" "b_history b' = h"
    "edit_path entry_ok (rev es) (rope_chars R (b_text b)) u"
    "group_split (undone (b_history b)) (undone h) es" "applied h = applied (b_history b) @ rev es"
proof -
  have ok: "log_ok (b_history b) (rope_chars R (b_text b))" using assms(1) by (simp add: buffer_ok_def)
  from history_redo_ok [OF ok assms(2)] obtain c h es u where
    u: "history_redo (b_history b) = Some (Some c, h)" "carries c (rope_chars R (b_text b)) u"
    "edit_path entry_ok (rev es) (rope_chars R (b_text b)) u"
    "group_split (undone (b_history b)) (undone h) es"
    "applied h = applied (b_history b) @ rev es" "log_ok h u"
    by metis
  obtain b' where "replay R c (b\<lparr>b_history := h\<rparr>) = Some b'" "buffer_ok R b'"
    "edited R c u (b\<lparr>b_history := h\<rparr>) b'" "b_history b' = h"
    using replay_ok [of c "b\<lparr>b_history := h\<rparr>" u] u(2,6) assms(1) by (auto simp: buffer_ok_def)
  with that [of b' c u h es] u show thesis by (simp add: buffer_redo_def edited_def)
qed

lemma undo_empty: "applied (b_history b) = [] \<Longrightarrow> buffer_undo R b = Some (False, b)"
  by (simp add: buffer_undo_def history_undo_empty)

lemma redo_empty: "undone (b_history b) = [] \<Longrightarrow> buffer_redo R b = Some (False, b)"
  by (simp add: buffer_redo_def history_redo_empty)

end

section \<open>Every operation of the buffer\<close>

text \<open>The operations the rest of the program calls, with what the caller hands over.\<close>

datatype buffer_op =
    Apply edit_transaction
  | InsertText utext edit_source
  | EditRange nat nat utext edit_source
  | DeleteBackward
  | DeleteForward
  | Undo
  | Redo
  | MoveLeft
  | MoveRight
  | MoveLineStart
  | MoveLineEnd
  | MoveLine bool
  | SetSelection selection
  | ScrollToCursor nat
  | MarkSaved version
  | TakePending
  | SetDecorations decoration_set

fun buffer_step :: "'r rope_api \<Rightarrow> buffer_op \<Rightarrow> 'r buffer \<Rightarrow> 'r buffer option" where
  "buffer_step R (Apply tx) b = map_option snd (buffer_apply R tx b)"
| "buffer_step R (InsertText s src) b = map_option snd (buffer_insert R s src b)"
| "buffer_step R (EditRange i j s src) b = map_option snd (edit R i j s src b)"
| "buffer_step R DeleteBackward b = map_option snd (delete_backward R b)"
| "buffer_step R DeleteForward b = map_option snd (delete_forward R b)"
| "buffer_step R Undo b = map_option snd (buffer_undo R b)"
| "buffer_step R Redo b = map_option snd (buffer_redo R b)"
| "buffer_step R MoveLeft b = buffer_left b"
| "buffer_step R MoveRight b = buffer_right R b"
| "buffer_step R MoveLineStart b = buffer_line_start R b"
| "buffer_step R MoveLineEnd b = buffer_line_end R b"
| "buffer_step R (MoveLine down) b = buffer_move_line R down b"
| "buffer_step R (SetSelection s) b = Some (set_selection s b)"
| "buffer_step R (ScrollToCursor h) b = scroll_to_cursor R h b"
| "buffer_step R (MarkSaved v) b = Some (mark_saved v b)"
| "buffer_step R TakePending b = Some (snd (take_pending_changes b))"
| "buffer_step R (SetDecorations ds) b = Some (b\<lparr>b_decorations := ds\<rparr>)"

text \<open>
  What the caller owes: a transaction in canonical form whose pinned selection, if any, lies in the
  edited document; ranges, selections and overlays inside the document.
\<close>

fun op_allowed :: "'r rope_api \<Rightarrow> 'r buffer \<Rightarrow> buffer_op \<Rightarrow> bool" where
  "op_allowed R b (Apply tx) \<longleftrightarrow> wf_cs (tx_changes tx)
     \<and> (case tx_selection tx of None \<Rightarrow> True | Some s \<Rightarrow> selection_in (cs_len_after (tx_changes tx)) s)"
| "op_allowed R b (EditRange i j s src) \<longleftrightarrow> i \<le> j \<and> j \<le> rope_len R (b_text b)"
| "op_allowed R b (SetSelection s) \<longleftrightarrow> selection_in (rope_len R (b_text b)) s"
| "op_allowed R b (SetDecorations ds) \<longleftrightarrow> decorations_in (rope_len R (b_text b)) ds"
| "op_allowed R b _ \<longleftrightarrow> True"

text \<open>
  How an operation relates the documents before and after: it edits the document as one changeset,
  which it reports for document sync, or leaves the document and the revision alone.
\<close>

definition tracked :: "'r rope_api \<Rightarrow> 'r buffer \<Rightarrow> 'r buffer \<Rightarrow> bool" where
  "tracked R b b' \<longleftrightarrow> (\<exists>cs u. edited R cs u b b')
     \<or> (b_text b' = b_text b \<and> b_version b' = b_version b \<and> b_pending b' = b_pending b)"

context rope_lines begin

lemma cursor_ok:
  assumes "buffer_ok R b"
  obtains r where "selection_primary (b_selection b) = Some r" "cursor b = Some (head r)"
    "head r \<le> length (rope_chars R (b_text b))" "range_end r \<le> length (rope_chars R (b_text b))"
    "anchor r \<le> length (rope_chars R (b_text b))"
proof -
  have "selection_in (length (rope_chars R (b_text b))) (b_selection b)"
    using assms by (simp add: buffer_ok_def)
  from selection_in_primary [OF this] obtain r where "selection_primary (b_selection b) = Some r"
    "anchor r \<le> length (rope_chars R (b_text b))" "head r \<le> length (rope_chars R (b_text b))"
    by metis
  with that [of r] show thesis by (simp add: cursor_def)
qed

lemma buffer_ok_place [simp]:
  "buffer_ok R (place_cursor p b) \<longleftrightarrow> p \<le> length (rope_chars R (b_text b)) \<and>
     log_ok (b_history b) (rope_chars R (b_text b)) \<and>
     decorations_in (length (rope_chars R (b_text b))) (b_decorations b)"
  by (auto simp: buffer_ok_def place_cursor_def set_selection_def)

lemma edit_tracked:
  assumes "buffer_ok R b" "from \<le> to" "to \<le> length (rope_chars R (b_text b))"
  shows "\<exists>b'. map_option snd (edit R from to s src b) = Some b' \<and> buffer_ok R b' \<and> tracked R b b'"
proof -
  from edit_ok [OF assms, of s src] obtain b' where b': "edit R from to s src b = Some (Inr (), b')"
    "buffer_ok R b'"
    "b' = b\<lparr>b_history := snd (group_for (b_history b) src)\<rparr> \<or> (\<exists>cs u. edited R cs u b b')"
    by metis
  then show ?thesis by (auto simp: tracked_def)
qed

lemma undo_tracked:
  assumes "buffer_ok R b"
  shows "\<exists>r b'. buffer_undo R b = Some (r, b') \<and> buffer_ok R b' \<and> tracked R b b'"
proof (cases "applied (b_history b) = []")
  case True
  with assms undo_empty [of b] show ?thesis unfolding tracked_def by blast
next
  case False
  from undo_ok [OF assms False] show ?thesis unfolding tracked_def by metis
qed

lemma redo_tracked:
  assumes "buffer_ok R b"
  shows "\<exists>r b'. buffer_redo R b = Some (r, b') \<and> buffer_ok R b' \<and> tracked R b b'"
proof (cases "undone (b_history b) = []")
  case True
  with assms redo_empty [of b] show ?thesis unfolding tracked_def by blast
next
  case False
  from redo_ok [OF assms False] show ?thesis unfolding tracked_def by metis
qed

lemma apply_tracked:
  assumes "buffer_ok R b" "op_allowed R b (Apply tx)"
  shows "\<exists>r b'. buffer_apply R tx b = Some (r, b') \<and> buffer_ok R b' \<and> tracked R b b'"
proof (cases "tx_base_version tx = b_version b
    \<and> cs_len_before (tx_changes tx) = rope_len R (b_text b) \<and> \<not> tx_is_empty tx")
  case True
  define u where "u = denote (cs_ops (tx_changes tx)) (rope_chars R (b_text b))"
  have "carries (tx_changes tx) (rope_chars R (b_text b)) u"
    using True assms(2) by (simp add: carries_def u_def len_chars)
  with assms True carries_length [OF this] show ?thesis
    unfolding tracked_def
    by (metis (no_types, lifting) buffer_apply_ok op_allowed.simps(1))
next
  case False
  then have "\<exists>r. buffer_apply R tx b = Some (r, b)" by (auto simp: buffer_apply_def)
  with assms(1) show ?thesis by (auto simp: tracked_def)
qed

lemma cursor_position_ok:
  assumes "buffer_ok R b"
  obtains l c where "cursor_position R b = Some (l, c)" "l < rope_len_lines R (b_text b)"
proof -
  obtain r :: range where "cursor b = Some (head r)" "head r \<le> length (rope_chars R (b_text b))"
    using cursor_ok [OF assms] by metis
  moreover from this obtain l s where "line_of R (b_text b) (head r) = Some l"
    "l < rope_len_lines R (b_text b)" "column_of R (b_text b) (head r) = Some (head r - s)"
    using column_of_ok [of "head r" "b_text b"] by metis
  ultimately show thesis using that by (simp add: cursor_position_def)
qed

lemma buffer_step_ok:
  assumes "buffer_ok R b" "op_allowed R b op"
  shows "\<exists>b'. buffer_step R op b = Some b' \<and> buffer_ok R b'
    \<and> (if op = TakePending then b' = b\<lparr>b_pending := []\<rparr> else tracked R b b')"
proof -
  obtain r where r: "selection_primary (b_selection b) = Some r" "cursor b = Some (head r)"
    "head r \<le> length (rope_chars R (b_text b))" "range_end r \<le> length (rope_chars R (b_text b))"
    "anchor r \<le> length (rope_chars R (b_text b))"
    using cursor_ok [OF assms(1)] by metis
  have parts: "log_ok (b_history b) (rope_chars R (b_text b))"
    "selection_in (length (rope_chars R (b_text b))) (b_selection b)"
    "decorations_in (length (rope_chars R (b_text b))) (b_decorations b)"
    using assms(1) by (simp_all add: buffer_ok_def)
  have goal: "buffer_ok R (b\<lparr>b_goal_column := None\<rparr>)"
    using assms(1) by (simp add: buffer_ok_def)
  have untrack: "tracked R b b'" if "tracked R (b\<lparr>b_goal_column := None\<rparr>) b'" for b'
    using that by (simp add: tracked_def edited_def)
  have goal_edit: "\<exists>b'. map_option snd (edit R i j s src (b\<lparr>b_goal_column := None\<rparr>)) = Some b'
      \<and> buffer_ok R b' \<and> tracked R b b'"
    if "i \<le> j" "j \<le> length (rope_chars R (b_text b))" for i j s src
    using edit_tracked [OF goal that(1), of s src] that(2) untrack by auto
  have place: "buffer_ok R (place_cursor p b) \<and> tracked R b (place_cursor p b)"
    if "p \<le> length (rope_chars R (b_text b))" for p
    using that parts by (simp add: tracked_def place_cursor_def set_selection_def buffer_ok_def)
  note motions = motions_ok [OF r(3)]
  show ?thesis
  proof (cases op)
    case (Apply tx)
    with apply_tracked [OF assms(1)] assms(2) show ?thesis by fastforce
  next
    case (InsertText s src)
    with goal_edit [of "range_start r" "range_end r" s src] r show ?thesis
      by (simp add: buffer_insert_def)
  next
    case (EditRange i j s src)
    with edit_tracked [OF assms(1)] assms(2) show ?thesis by (simp add: len_chars)
  next
    case DeleteBackward
    show ?thesis
    proof (cases "range_is_empty r \<and> head r = 0")
      case True
      with DeleteBackward r goal show ?thesis by (simp add: delete_backward_def tracked_def)
    next
      case False
      have "\<exists>i j. map_option snd (delete_backward R b)
            = map_option snd (edit R i j [] Keyboard (b\<lparr>b_goal_column := None\<rparr>))
          \<and> i \<le> j \<and> j \<le> length (rope_chars R (b_text b))"
      proof (cases "range_is_empty r")
        case True
        with False r show ?thesis
          by (intro exI [of _ "head r - 1"] exI [of _ "head r"]) (simp add: delete_backward_def)
      next
        case False
        with r show ?thesis
          by (intro exI [of _ "range_start r"] exI [of _ "range_end r"])
            (simp add: delete_backward_def)
      qed
      then obtain i j where "map_option snd (delete_backward R b)
            = map_option snd (edit R i j [] Keyboard (b\<lparr>b_goal_column := None\<rparr>))"
          "i \<le> j" "j \<le> length (rope_chars R (b_text b))" by blast
      with goal_edit [of i j "[]" Keyboard] DeleteBackward show ?thesis by simp
    qed
  next
    case DeleteForward
    show ?thesis
    proof (cases "range_is_empty r \<and> rope_len R (b_text b) \<le> head r")
      case True
      with DeleteForward r goal show ?thesis by (simp add: delete_forward_def tracked_def)
    next
      case False
      have "\<exists>i j. map_option snd (delete_forward R b)
            = map_option snd (edit R i j [] Keyboard (b\<lparr>b_goal_column := None\<rparr>))
          \<and> i \<le> j \<and> j \<le> length (rope_chars R (b_text b))"
      proof (cases "range_is_empty r")
        case True
        with False r show ?thesis
          by (intro exI [of _ "head r"] exI [of _ "head r + 1"])
            (simp add: delete_forward_def len_chars)
      next
        case False
        with r show ?thesis
          by (intro exI [of _ "range_start r"] exI [of _ "range_end r"])
            (simp add: delete_forward_def)
      qed
      then obtain i j where "map_option snd (delete_forward R b)
            = map_option snd (edit R i j [] Keyboard (b\<lparr>b_goal_column := None\<rparr>))"
          "i \<le> j" "j \<le> length (rope_chars R (b_text b))" by blast
      with goal_edit [of i j "[]" Keyboard] DeleteForward show ?thesis by simp
    qed
  next
    case Undo
    with undo_tracked [OF assms(1)] show ?thesis by fastforce
  next
    case Redo
    with redo_tracked [OF assms(1)] show ?thesis by fastforce
  next
    case MoveLeft
    with place [of "move_left (head r)"] r show ?thesis by (simp add: buffer_left_def move_left_def)
  next
    case MoveRight
    with place [of "move_right R (b_text b) (head r)"] r show ?thesis
      by (simp add: buffer_right_def move_right_def len_chars)
  next
    case MoveLineStart
    with motions(1) place r show ?thesis by (auto simp: buffer_line_start_def intro: order_trans)
  next
    case MoveLineEnd
    with motions(2) place r show ?thesis by (auto simp: buffer_line_end_def)
  next
    case (MoveLine down)
    obtain g where g: "(case b_goal_column b of Some g \<Rightarrow> Some (Some g)
        | None \<Rightarrow> map_option Some (column_of R (b_text b) (head r))) = Some g"
    proof (cases "b_goal_column b")
      case None
      obtain c where "column_of R (b_text b) (head r) = Some c" using column_of_ok [OF r(3)] by metis
      with None that show thesis by simp
    qed simp
    obtain p where p: "(if down then move_down R (b_text b) (head r) g
        else move_up R (b_text b) (head r) g) = Some p" "p \<le> length (rope_chars R (b_text b))"
      using motions(3,4) [of g] by (cases down) auto
    have "buffer_step R op b = Some ((set_selection (selection_point p) b)\<lparr>b_goal_column := g\<rparr>)"
      using r(2) g p(1) MoveLine by (simp add: buffer_move_line_def)
    then show ?thesis using p(2) parts MoveLine by (simp add: tracked_def set_selection_def buffer_ok_def)
  next
    case (SetSelection s)
    with assms parts show ?thesis
      by (simp add: set_selection_def buffer_ok_def tracked_def len_chars)
  next
    case (ScrollToCursor h)
    obtain l c where "cursor_position R b = Some (l, c)" using cursor_position_ok [OF assms(1)] by metis
    with ScrollToCursor parts show ?thesis
      by (simp add: scroll_to_cursor_def buffer_ok_def tracked_def Let_def)
  next
    case (MarkSaved v)
    with parts show ?thesis by (simp add: mark_saved_def buffer_ok_def tracked_def)
  next
    case TakePending
    with parts show ?thesis by (simp add: take_pending_changes_def buffer_ok_def tracked_def)
  next
    case (SetDecorations ds)
    with assms parts show ?thesis by (simp add: buffer_ok_def tracked_def len_chars)
  qed
qed

end

end
