(* ===== verification/Buffer_Safety.thy ===== *)
theory Buffer_Safety
  imports Buffer
begin

text \<open>
  What holds of every buffer the program can reach: no operation panics, the invariant is kept,
  undo and redo restore texts, every change is reported for document sync, a transaction that
  does not fit is refused, and a file read, edited and saved is read back.
\<close>

section \<open>Reachable buffers\<close>

inductive buffer_reach :: "'r rope_api \<Rightarrow> 'r buffer \<Rightarrow> bool" for R where
  reach_new: "buffer_reach R (buffer_new R i)"
| reach_text: "buffer_reach R (buffer_from_text R i p s)"
| reach_step: "buffer_reach R b \<Longrightarrow> op_allowed R b op \<Longrightarrow> buffer_step R op b = Some b' \<Longrightarrow>
    buffer_reach R b'"

fun buffer_run :: "'r rope_api \<Rightarrow> buffer_op list \<Rightarrow> 'r buffer \<Rightarrow> 'r buffer option" where
  "buffer_run R [] b = Some b"
| "buffer_run R (op # ops) b = do { b' \<leftarrow> buffer_step R op b; buffer_run R ops b' }"

fun ops_allowed :: "'r rope_api \<Rightarrow> buffer_op list \<Rightarrow> 'r buffer \<Rightarrow> bool" where
  "ops_allowed R [] b = True"
| "ops_allowed R (op # ops) b =
     (op_allowed R b op
      \<and> (case buffer_step R op b of None \<Rightarrow> True | Some b' \<Rightarrow> ops_allowed R ops b'))"

lemma decorations_in_empty [simp]: "decorations_in n \<lparr>items = []\<rparr>"
  by (simp add: decorations_in_def)

context rope_lines begin

lemma buffer_ok_new [simp]: "buffer_ok R (buffer_new R i)"
  by (simp add: buffer_ok_def buffer_new_def log_ok_new selection_default_def)

lemma buffer_ok_from_text [simp]: "buffer_ok R (buffer_from_text R i p s)"
  by (simp add: buffer_ok_def buffer_from_text_def log_ok_new selection_default_def)

lemma reach_ok: "buffer_reach R b \<Longrightarrow> buffer_ok R b"
proof (induction rule: buffer_reach.induct)
  case (reach_step b op b')
  from buffer_step_ok [OF reach_step.IH reach_step.hyps(2)] reach_step.hyps(3) show ?case by auto
qed simp_all

lemma tracked_path:
  assumes "tracked R b b'" "edit_path carries (b_pending b) t0 (rope_chars R (b_text b))"
  shows "edit_path carries (b_pending b') t0 (rope_chars R (b_text b'))
    \<and> b_version b' + length (b_pending b) = b_version b + length (b_pending b')"
  using assms by (auto simp: tracked_def edited_def path_snoc)

lemma run_ok:
  assumes "buffer_ok R b" "ops_allowed R ops b" "TakePending \<notin> set ops"
    "edit_path carries (b_pending b) t0 (rope_chars R (b_text b))"
  shows "\<exists>b'. buffer_run R ops b = Some b' \<and> buffer_ok R b'
    \<and> edit_path carries (b_pending b') t0 (rope_chars R (b_text b'))
    \<and> b_version b' + length (b_pending b) = b_version b + length (b_pending b')"
  using assms
proof (induction ops arbitrary: b)
  case (Cons op ops)
  then obtain b1 where b1: "buffer_step R op b = Some b1" "buffer_ok R b1" "tracked R b b1"
    using buffer_step_ok [of b op] by auto
  note p = tracked_path [OF b1(3) Cons.prems(4)]
  with Cons.IH [of b1] Cons.prems b1 show ?case by auto
qed simp

end

section \<open>Panics, revisions and document sync\<close>

text \<open>
  C3. A buffer created empty or from a text and taken through any sequence of operations is still
  in its invariant, and every operation the caller may perform next completes without panicking:
  it edits the document as one changeset, which bumps the revision and is queued for document
  sync, or leaves the document and the revision alone.
\<close>

theorem buffer_never_panics:
  assumes "rope_lines R" and "buffer_reach R b" and "op_allowed R b op"
  shows "buffer_ok R b \<and> (\<exists>b'. buffer_step R op b = Some b' \<and> buffer_ok R b'
    \<and> (if op = TakePending then b' = b\<lparr>b_pending := []\<rparr> else tracked R b b'))"
  using rope_lines.buffer_step_ok [OF assms(1) _ assms(3)] rope_lines.reach_ok [OF assms(1,2)]
  by blast

lemma buffer_never_panics_witness:
  "\<exists>b'. buffer_step list_rope (InsertText [104, 105] Keyboard) (buffer_new list_rope 0) = Some b'
     \<and> buffer_ok list_rope b'"
  using buffer_never_panics [OF list_rope.rope_lines_axioms
    buffer_reach.reach_new, of 0 "InsertText [104, 105] Keyboard"]
  by auto

text \<open>
  Document sync misses nothing: after the pending changes were drained, whatever operations
  follow, replaying the changes pending then, in order, on the text at the time of the draining
  gives the buffer's text, and the revision has advanced once per change.
\<close>

theorem document_sync_replays:
  assumes "rope_lines R" and "buffer_reach R b" and "ops_allowed R ops (snd (take_pending_changes b))"
    and "TakePending \<notin> set ops"
  shows "\<exists>b'. buffer_run R ops (snd (take_pending_changes b)) = Some b'
    \<and> edit_path carries (b_pending b') (rope_chars R (b_text b)) (rope_chars R (b_text b'))
    \<and> b_version b' = b_version b + length (b_pending b')"
proof -
  let ?b = "snd (take_pending_changes b)"
  have "buffer_ok R ?b"
    using rope_lines.reach_ok [OF assms(1,2)] by (simp add: take_pending_changes_def buffer_ok_def)
  from rope_lines.run_ok [OF assms(1) this assms(3,4), of "rope_chars R (b_text b)"]
  show ?thesis by (auto simp: take_pending_changes_def)
qed

lemma document_sync_replays_witness:
  "\<exists>b'. buffer_run list_rope [InsertText [104, 105] Keyboard, DeleteBackward]
       (snd (take_pending_changes (buffer_new list_rope 0))) = Some b'
     \<and> edit_path carries (b_pending b') [] (b_text b')"
proof -
  let ?b = "snd (take_pending_changes (buffer_new list_rope 0))"
  have "ops_allowed list_rope [InsertText [104, 105] Keyboard, DeleteBackward] ?b"
    by (auto split: option.splits)
  from document_sync_replays [OF list_rope.rope_lines_axioms buffer_reach.reach_new this]
  show ?thesis by (auto simp: buffer_new_def)
qed

text \<open>
  A transaction changes a buffer only when it was written against the buffer's revision and for
  a document of its length; otherwise it is refused with the error that names the mismatch and the
  buffer is as it was.  An identity changes nothing.  A transaction that is taken gives the
  document its changeset describes and pins the selection it asks for.
\<close>

theorem transactions_are_checked:
  assumes "rope_lines R" and "buffer_ok R b" and "op_allowed R b (Apply tx)"
  shows "if tx_base_version tx \<noteq> b_version b
     then buffer_apply R tx b = Some (Inl (StaleVersion (tx_base_version tx) (b_version b)), b)
     else if cs_len_before (tx_changes tx) \<noteq> rope_len R (b_text b)
     then buffer_apply R tx b = Some (Inl (LengthMismatch (cs_len_before (tx_changes tx))
        (rope_len R (b_text b))), b)
     else if tx_is_empty tx then buffer_apply R tx b = Some (Inr (), b)
     else \<exists>b'. buffer_apply R tx b = Some (Inr (), b') \<and> b_version b' = b_version b + 1
        \<and> rope_chars R (b_text b') = denote (cs_ops (tx_changes tx)) (rope_chars R (b_text b))
        \<and> (\<forall>s. tx_selection tx = Some s \<longrightarrow> b_selection b' = s)"
proof (cases "tx_base_version tx = b_version b
    \<and> cs_len_before (tx_changes tx) = rope_len R (b_text b) \<and> \<not> tx_is_empty tx")
  case True
  note rt = rope_lines.axioms(1) [OF assms(1)]
  define u where "u = denote (cs_ops (tx_changes tx)) (rope_chars R (b_text b))"
  have c: "carries (tx_changes tx) (rope_chars R (b_text b)) u"
    using True assms(3) by (simp add: carries_def u_def rope_text.len_chars [OF rt])
  have "case tx_selection tx of None \<Rightarrow> True | Some s \<Rightarrow> selection_in (length u) s"
    using assms(3) carries_length [OF c] by (auto split: option.splits)
  from rope_text.buffer_apply_ok [OF rt assms(2) c _ _ this] True obtain b' where
    "buffer_apply R tx b = Some (Inr (), b')" "edited R (tx_changes tx) u b b'"
    "b_selection b' = (case tx_selection tx of Some s \<Rightarrow> s
       | None \<Rightarrow> selection_map (tx_changes tx) (b_selection b))"
    by metis
  with True show ?thesis by (auto simp: edited_def u_def)
next
  case False
  then show ?thesis by (auto simp: buffer_apply_def)
qed

lemma transactions_are_checked_witness:
  "buffer_apply list_rope (tx_new 0 3 sample_cs Lsp 1) (buffer_new list_rope 0)
     = Some (Inl (StaleVersion 3 0), buffer_new list_rope 0)"
proof -
  have "buffer_ok list_rope (buffer_new list_rope 0)" by (rule list_rope.buffer_ok_new)
  from transactions_are_checked [OF list_rope.rope_lines_axioms this, of "tx_new 0 3 sample_cs Lsp 1"]
  show ?thesis by (simp add: wf_sample_cs buffer_new_def)
qed

section \<open>Undo and redo\<close>

context rope_text begin

lemma undo_redo_ok:
  assumes "buffer_ok R b" "applied (b_history b) \<noteq> []"
  obtains b1 b2 es where "buffer_undo R b = Some (True, b1)" "buffer_redo R b1 = Some (True, b2)"
    "rope_chars R (b_text b2) = rope_chars R (b_text b)"
    "applied (b_history b2) = applied (b_history b)" "undone (b_history b2) = undone (b_history b)"
    "b_version b2 = b_version b + 2"
    "edit_path entry_ok es (rope_chars R (b_text b1)) (rope_chars R (b_text b))"
    "group_split (applied (b_history b)) (applied (b_history b1)) es"
proof -
  from undo_ok [OF assms] obtain b1 c h es u where
    1: "buffer_undo R b = Some (True, b1)" "buffer_ok R b1" "edited R c u b b1"
    "history_undo (b_history b) = Some (Some c, h)" "b_history b1 = h"
    "edit_path entry_ok es u (rope_chars R (b_text b))"
    "group_split (applied (b_history b)) (applied h) es" "undone h = undone (b_history b) @ rev es"
    by metis
  then have "undone (b_history b1) \<noteq> []" using group_splitD(2) [OF 1(7)] by simp
  from redo_ok [OF 1(2) this] obtain b2 d h2 fs v where
    2: "buffer_redo R b1 = Some (True, b2)" "edited R d v b1 b2"
    "history_redo (b_history b1) = Some (Some d, h2)" "b_history b2 = h2"
    "edit_path entry_ok (rev fs) (rope_chars R (b_text b1)) v"
    "group_split (undone (b_history b1)) (undone h2) fs"
    by metis
  have log: "log_ok (b_history b) (rope_chars R (b_text b))" using assms(1) by (simp add: buffer_ok_def)
  have h2: "applied h2 = applied (b_history b)" "undone h2 = undone (b_history b)"
    using undo_redo_log [OF log 1(4) 2(3) [unfolded 1(5)]] 2(4) by simp_all
  have "undone h = undone h2 @ fs" using group_splitD(1) [OF 2(6)] 1(5) 2(4) by simp
  then have "fs = rev es" unfolding 1(8) h2(2) by simp
  then have "edit_path entry_ok es u v" using 2(5) 1(3) by (simp add: edited_def)
  then have "v = rope_chars R (b_text b)" using entry_path_unique [OF 1(6)] by simp
  then have "rope_chars R (b_text b2) = rope_chars R (b_text b)" "b_version b2 = b_version b + 2"
    using 1(3) 2(2) by (simp_all add: edited_def)
  moreover have "rope_chars R (b_text b1) = u" using 1(3) by (simp add: edited_def)
  ultimately show thesis using that [of b1 b2 es] 1 2(1,4) h2 by simp
qed

end

text \<open>
  C4. Undoing and then redoing gives back the document, with the same edits applied and undone as
  before, two revisions later; both complete without panicking, and undo reports that it did
  something exactly when there is an edit to undo.
\<close>

theorem undo_redo_round_trip:
  assumes "rope_lines R" and "buffer_ok R b"
  shows "if applied (b_history b) = [] then buffer_undo R b = Some (False, b)
     else \<exists>b1 b2. buffer_undo R b = Some (True, b1) \<and> buffer_redo R b1 = Some (True, b2)
       \<and> rope_chars R (b_text b2) = rope_chars R (b_text b)
       \<and> applied (b_history b2) = applied (b_history b) \<and> undone (b_history b2) = undone (b_history b)
       \<and> b_version b2 = b_version b + 2"
proof (cases "applied (b_history b) = []")
  case True
  then show ?thesis
    using rope_text.undo_empty [OF rope_lines.axioms(1) [OF assms(1)]] by simp
next
  case False
  from rope_text.undo_redo_ok [OF rope_lines.axioms(1) [OF assms(1)] assms(2) False]
  obtain b1 b2 where "buffer_undo R b = Some (True, b1)" "buffer_redo R b1 = Some (True, b2)"
    "rope_chars R (b_text b2) = rope_chars R (b_text b)"
    "applied (b_history b2) = applied (b_history b)" "undone (b_history b2) = undone (b_history b)"
    "b_version b2 = b_version b + 2"
    by metis
  with False show ?thesis by simp
qed

text \<open>\<open>hi\<close>, typed into an empty buffer.\<close>

definition sample_buffer :: "utext buffer" where
  "sample_buffer = the (buffer_run list_rope [InsertText [104] Keyboard, InsertText [105] Keyboard]
     (buffer_new list_rope 0))"

lemma sample_buffer_ok: "buffer_ok list_rope sample_buffer"
  and sample_buffer_applied: "length (applied (b_history sample_buffer)) = 2"
proof -
  let ?ops = "[InsertText [104] Keyboard, InsertText [105] Keyboard]"
  have "ops_allowed list_rope ?ops (buffer_new list_rope 0)"
    by (auto split: option.splits)
  moreover have "edit_path carries (b_pending (buffer_new list_rope 0)) []
      (rope_chars list_rope (b_text (buffer_new list_rope 0)))"
    by (simp add: buffer_new_def)
  ultimately show "buffer_ok list_rope sample_buffer"
    using list_rope.run_ok [of "buffer_new list_rope 0" ?ops "[]"]
    by (auto simp: sample_buffer_def)
  show "length (applied (b_history sample_buffer)) = 2" by code_simp
qed

lemma undo_redo_round_trip_witness:
  "\<exists>b1 b2. buffer_undo list_rope sample_buffer = Some (True, b1)
     \<and> buffer_redo list_rope b1 = Some (True, b2) \<and> b_text b2 = b_text sample_buffer"
proof -
  have "applied (b_history sample_buffer) \<noteq> []" using sample_buffer_applied by auto
  with undo_redo_round_trip [OF list_rope.rope_lines_axioms sample_buffer_ok] show ?thesis
    by auto
qed

text \<open>Every group in the log was handed out by it.\<close>

definition groups_handed_out :: "history \<Rightarrow> bool" where
  "groups_handed_out h \<longleftrightarrow> (\<forall>e \<in> set (applied h). e_group e \<le> next_group h)"

text \<open>A run of typing so far: its entries lead from the text where it started to the text now.\<close>

definition typing_run :: "'r rope_api \<Rightarrow> 'r buffer \<Rightarrow> 'r buffer \<Rightarrow> bool" where
  "typing_run R b b' \<longleftrightarrow> (\<exists>es. es \<noteq> [] \<and> applied (b_history b') = applied (b_history b) @ es
     \<and> (\<forall>e \<in> set es. e_group e = next_group (b_history b) + 1)
     \<and> edit_path entry_ok es (rope_chars R (b_text b)) (rope_chars R (b_text b'))
     \<and> \<not> group_broken (b_history b') \<and> last_source (b_history b') = Some Keyboard)"

context rope_text begin

lemma edit_entry:
  assumes "buffer_ok R b" "from \<le> to" "to \<le> length (rope_chars R (b_text b))" "from < to \<or> s \<noteq> []"
  shows "\<exists>b' e. edit R from to s src b = Some (Inr (), b') \<and> buffer_ok R b'
    \<and> b_history b' = (snd (group_for (b_history b) src))\<lparr>undone := [], group_broken := False,
       last_source := Some src, applied := applied (b_history b) @ [e]\<rparr>
    \<and> e_group e = fst (group_for (b_history b) src)
    \<and> entry_ok e (rope_chars R (b_text b)) (rope_chars R (b_text b'))"
  using assms(4) by (rule_tac edit_ok [OF assms(1-3), of s src]) blast+

end

context rope_lines begin

lemma insert_ok:
  assumes "buffer_ok R b" "s \<noteq> []"
  obtains b' e where "buffer_step R (InsertText s src) b = Some b'" "buffer_ok R b'"
    "b_history b' = (snd (group_for (b_history b) src))\<lparr>undone := [], group_broken := False,
       last_source := Some src, applied := applied (b_history b) @ [e]\<rparr>"
    "e_group e = fst (group_for (b_history b) src)"
    "entry_ok e (rope_chars R (b_text b)) (rope_chars R (b_text b'))"
proof -
  obtain r where r: "selection_primary (b_selection b) = Some r"
    "range_end r \<le> length (rope_chars R (b_text b))"
    using cursor_ok [OF assms(1)] by metis
  have ok: "buffer_ok R (b\<lparr>b_goal_column := None\<rparr>)" using assms(1) by (simp add: buffer_ok_def)
  from edit_entry [OF ok, of "range_start r" "range_end r" s src] r(2) assms(2) obtain b' e where
    "edit R (range_start r) (range_end r) s src (b\<lparr>b_goal_column := None\<rparr>) = Some (Inr (), b')"
    "buffer_ok R b'"
    "b_history b' = (snd (group_for (b_history b) src))\<lparr>undone := [], group_broken := False,
       last_source := Some src, applied := applied (b_history b) @ [e]\<rparr>"
    "e_group e = fst (group_for (b_history b) src)"
    "entry_ok e (rope_chars R (b_text b)) (rope_chars R (b_text b'))"
    by auto
  with r(1) that show thesis by (simp add: buffer_insert_def)
qed

lemma typing_run_start:
  assumes "buffer_ok R b" "s \<noteq> []" "group_broken (b_history b) \<or> last_source (b_history b) \<noteq> Some Keyboard"
  obtains b' where "buffer_step R (InsertText s Keyboard) b = Some b'" "buffer_ok R b'"
    "typing_run R b b'"
proof -
  from insert_ok [OF assms(1,2), of Keyboard] obtain b' e where b':
    "buffer_step R (InsertText s Keyboard) b = Some b'" "buffer_ok R b'"
    "b_history b' = (snd (group_for (b_history b) Keyboard))\<lparr>undone := [], group_broken := False,
       last_source := Some Keyboard, applied := applied (b_history b) @ [e]\<rparr>"
    "e_group e = fst (group_for (b_history b) Keyboard)"
    "entry_ok e (rope_chars R (b_text b)) (rope_chars R (b_text b'))"
    by metis
  moreover have "fst (group_for (b_history b) Keyboard) = next_group (b_history b) + 1"
    using assms(3) by (auto simp: group_for_def)
  ultimately have "typing_run R b b'"
    unfolding typing_run_def by (intro exI [of _ "[e]"]) simp
  with b' that show thesis by blast
qed

lemma typing_run_step:
  assumes "typing_run R b b'" "buffer_ok R b'" "s \<noteq> []"
  obtains b'' where "buffer_step R (InsertText s Keyboard) b' = Some b''" "buffer_ok R b''"
    "typing_run R b b''"
proof -
  from assms(1) obtain es where es: "es \<noteq> []" "applied (b_history b') = applied (b_history b) @ es"
    "\<forall>e \<in> set es. e_group e = next_group (b_history b) + 1"
    "edit_path entry_ok es (rope_chars R (b_text b)) (rope_chars R (b_text b'))"
    "\<not> group_broken (b_history b')" "last_source (b_history b') = Some Keyboard"
    unfolding typing_run_def by metis
  from insert_ok [OF assms(2,3), of Keyboard] obtain b'' e where b'':
    "buffer_step R (InsertText s Keyboard) b' = Some b''" "buffer_ok R b''"
    "b_history b'' = (snd (group_for (b_history b') Keyboard))\<lparr>undone := [], group_broken := False,
       last_source := Some Keyboard, applied := applied (b_history b') @ [e]\<rparr>"
    "e_group e = fst (group_for (b_history b') Keyboard)"
    "entry_ok e (rope_chars R (b_text b')) (rope_chars R (b_text b''))"
    by metis
  moreover have "fst (group_for (b_history b') Keyboard) = e_group (last es)"
    using es by (simp add: group_for_def)
  then have "fst (group_for (b_history b') Keyboard) = next_group (b_history b) + 1"
    using es(1,3) by simp
  ultimately have "typing_run R b b''"
    unfolding typing_run_def using es
    by (intro exI [of _ "es @ [e]"]) (auto simp: path_snoc)
  with b'' that show thesis by blast
qed

lemma typing_run_all:
  assumes "typing_run R b b'" "buffer_ok R b'" "[] \<notin> set ss"
  shows "\<exists>b''. buffer_run R (map (\<lambda>s. InsertText s Keyboard) ss) b' = Some b''
    \<and> buffer_ok R b'' \<and> typing_run R b b''"
  using assms
proof (induction ss arbitrary: b')
  case (Cons s ss)
  then have "s \<noteq> []" by auto
  from typing_run_step [OF Cons.prems(1,2) this] Cons show ?case by fastforce
qed simp

end

text \<open>
  A run of typing that follows a break is one undo step however many insertions it took: undo
  gives back the document the run started from, and redo the document it ended with.
\<close>

theorem typing_undoes_as_one:
  assumes "rope_lines R" and "buffer_ok R b" and "groups_handed_out (b_history b)"
    and "group_broken (b_history b) \<or> last_source (b_history b) \<noteq> Some Keyboard"
    and "ss \<noteq> []" and "[] \<notin> set ss"
  shows "\<exists>b1 b2 b3. buffer_run R (map (\<lambda>s. InsertText s Keyboard) ss) b = Some b1
    \<and> buffer_undo R b1 = Some (True, b2) \<and> rope_chars R (b_text b2) = rope_chars R (b_text b)
    \<and> buffer_redo R b2 = Some (True, b3) \<and> rope_chars R (b_text b3) = rope_chars R (b_text b1)"
proof -
  note rt = rope_lines.axioms(1) [OF assms(1)]
  obtain s ss' where ss: "ss = s # ss'" "s \<noteq> []" "[] \<notin> set ss'"
    using assms(5,6) by (cases ss) auto
  from rope_lines.typing_run_start [OF assms(1,2) ss(2) assms(4)] obtain b0 where
    b0: "buffer_step R (InsertText s Keyboard) b = Some b0" "buffer_ok R b0" "typing_run R b b0"
    by metis
  from rope_lines.typing_run_all [OF assms(1) b0(3,2) ss(3)] obtain b1 where
    b1: "buffer_run R (map (\<lambda>s. InsertText s Keyboard) ss') b0 = Some b1" "buffer_ok R b1"
    "typing_run R b b1" by metis
  from b1(3) obtain es where es: "es \<noteq> []" "applied (b_history b1) = applied (b_history b) @ es"
    "\<forall>e \<in> set es. e_group e = next_group (b_history b) + 1"
    "edit_path entry_ok es (rope_chars R (b_text b)) (rope_chars R (b_text b1))"
    unfolding typing_run_def by metis
  have last: "e_group (last (applied (b_history b1))) = next_group (b_history b) + 1"
    using es(1-3) by simp
  have "e_group (last (applied (b_history b))) \<le> next_group (b_history b)"
    if "applied (b_history b) \<noteq> []"
    using assms(3) that by (simp add: groups_handed_out_def)
  then have split: "group_split (applied (b_history b1)) (applied (b_history b)) es"
    unfolding group_split_def last using es(1-3) by fastforce
  have "applied (b_history b1) \<noteq> []" using es(1,2) by simp
  from rope_text.undo_redo_ok [OF rt b1(2) this] obtain b2 b3 fs where
    2: "buffer_undo R b1 = Some (True, b2)" "buffer_redo R b2 = Some (True, b3)"
    "rope_chars R (b_text b3) = rope_chars R (b_text b1)"
    "edit_path entry_ok fs (rope_chars R (b_text b2)) (rope_chars R (b_text b1))"
    "group_split (applied (b_history b1)) (applied (b_history b2)) fs"
    by metis
  have "fs = es" using split_unique [OF split 2(5)] by simp
  then have "rope_chars R (b_text b2) = rope_chars R (b_text b)"
    using entry_path_source [OF 2(4)] es(4) by simp
  with b0 b1 2 ss(1) show ?thesis by auto
qed

lemma typing_undoes_as_one_witness:
  "\<exists>b1 b2. buffer_run list_rope (map (\<lambda>s. InsertText s Keyboard) [[104], [105]])
       (buffer_new list_rope 0) = Some b1
     \<and> buffer_undo list_rope b1 = Some (True, b2) \<and> b_text b2 = []"
  using typing_undoes_as_one [OF list_rope.rope_lines_axioms list_rope.buffer_ok_new,
    of 0 "[[104], [105]]"]
  by (auto simp: groups_handed_out_def buffer_new_def history_new_def)

text \<open>
  Scrolling to the cursor of a reachable buffer, in a viewport of at least one line, shows the
  line the cursor is on, and changes nothing when it was shown with its margin already.
\<close>

theorem scrolling_shows_cursor:
  assumes "rope_lines R" and "buffer_reach R b" and "0 < height"
  shows "\<exists>b' l c. scroll_to_cursor R height b = Some b' \<and> cursor_position R b = Some (l, c)
    \<and> b_scroll_top b' \<le> l \<and> l < b_scroll_top b' + height
    \<and> b' = b\<lparr>b_scroll_top := b_scroll_top b'\<rparr>
    \<and> (b_scroll_top b + 1 \<le> l \<and> l + 1 < b_scroll_top b + height \<longrightarrow> b' = b)"
proof -
  obtain l c where "cursor_position R b = Some (l, c)"
    using rope_lines.cursor_position_ok [OF assms(1) rope_lines.reach_ok [OF assms(1,2)]] by metis
  with assms(3) show ?thesis by (auto simp: scroll_to_cursor_def Let_def)
qed

lemma scrolling_shows_cursor_witness:
  "\<exists>b'. scroll_to_cursor list_rope 5 (buffer_new list_rope 0) = Some b' \<and> b_scroll_top b' = 0"
  using scrolling_shows_cursor [OF list_rope.rope_lines_axioms buffer_reach.reach_new, of 5 0]
  by (auto simp: cursor_position_def cursor_def buffer_new_def selection_default_def
      range_point_def line_of_def column_of_def)

end
