(* ===== verification/Buffer_Files.thy ===== *)
theory Buffer_Files
  imports Buffer_Safety
begin

text \<open>
  Line endings and files: what opening normalizes, what saving restores, and that a buffer saved
  through the filesystem service is read back as it was.
\<close>

section \<open>Line endings\<close>

lemma lf_to_crlf_simps [simp]:
  "lf_to_crlf [] = []"
  "lf_to_crlf (c # s) = (if c = newline then [carriage_return, newline] else [c]) @ lf_to_crlf s"
  by (simp_all add: lf_to_crlf_def)

lemma count_lf_simps [simp]:
  "count_lf [] = 0"
  "count_lf (c # s) = (if c = newline then Suc (count_lf s) else count_lf s)"
  by (simp_all add: count_lf_def)

lemma lf_to_crlf_start: "lf_to_crlf s = c # t \<Longrightarrow> c \<noteq> newline"
  by (cases s) (auto split: if_splits)

lemma crlf_Cons:
  "(\<And>d u. t = d # u \<Longrightarrow> d \<noteq> newline) \<Longrightarrow> crlf_to_lf (c # t) = c # crlf_to_lf t"
  "(\<And>d u. t = d # u \<Longrightarrow> d \<noteq> newline) \<Longrightarrow> count_crlf (c # t) = count_crlf t"
  by (cases t; simp)+

lemma crlf_to_lf_to_crlf [simp]: "crlf_to_lf (lf_to_crlf s) = s"
proof (induction s)
  case (Cons c s)
  then show ?case using crlf_Cons(1) [of "lf_to_crlf s" c] lf_to_crlf_start by (auto simp: neq_Nil_conv)
qed simp

lemma count_crlf_lf_to_crlf [simp]: "count_crlf (lf_to_crlf s) = count_lf s"
proof (induction s)
  case (Cons c s)
  then show ?case using crlf_Cons(2) [of "lf_to_crlf s" c] lf_to_crlf_start by (auto simp: neq_Nil_conv)
qed simp

lemma count_lf_lf_to_crlf [simp]: "count_lf (lf_to_crlf s) = count_lf s"
  by (induction s) auto

lemma count_crlf_le: "count_crlf s \<le> count_lf s"
  by (induction s rule: count_crlf.induct) auto

lemma crlf_to_lf_none: "count_crlf s = 0 \<Longrightarrow> crlf_to_lf s = s"
  by (induction s rule: count_crlf.induct) (auto split: if_splits)

lemma crlf_to_lf_uniform: "count_crlf s = count_lf s \<Longrightarrow> lf_to_crlf (crlf_to_lf s) = s"
proof (induction s rule: crlf_to_lf.induct)
  case (3 c d s)
  have "count_crlf (d # s) \<le> count_lf (d # s)" by (rule count_crlf_le)
  with 3 show ?case by (auto split: if_splits)
qed (auto split: if_splits)

lemma detect_lf_to_crlf:
  "line_ending_detect (lf_to_crlf s) = (if newline \<in> set s then Crlf else Lf)"
proof -
  have "0 < count_lf s \<longleftrightarrow> newline \<in> set s" by (induction s) auto
  then show ?thesis by (simp add: line_ending_detect_def)
qed

lemma detect_no_crlf: "count_crlf s = 0 \<Longrightarrow> line_ending_detect s = Lf"
  by (simp add: line_ending_detect_def)

text \<open>
  A file whose line endings are all of one kind is written back byte for byte when it is opened
  and saved without an edit; a mixed file is written with its dominant ending throughout, and
  either way the document the editor holds has the same lines.
\<close>

theorem line_endings_restored:
  assumes "rope_text R"
  shows "(count_crlf s = 0 \<or> count_crlf s = count_lf s \<longrightarrow>
      to_disk_string R (buffer_from_text R i p s) = s)
    \<and> to_disk_string R (buffer_from_text R i p s)
        = (case line_ending_detect s of Lf \<Rightarrow> crlf_to_lf s | Crlf \<Rightarrow> lf_to_crlf (crlf_to_lf s))
    \<and> (line_ending_detect s = Crlf \<longleftrightarrow> 2 * count_crlf s > count_lf s)"
proof -
  have "line_ending_detect s = Crlf \<longleftrightarrow> 2 * count_crlf s > count_lf s"
    using count_crlf_le [of s] by (auto simp: line_ending_detect_def Let_def)
  moreover have "to_disk_string R (buffer_from_text R i p s)
        = (case line_ending_detect s of Lf \<Rightarrow> crlf_to_lf s | Crlf \<Rightarrow> lf_to_crlf (crlf_to_lf s))"
    by (simp add: to_disk_string_def buffer_from_text_def rope_text.chars_of [OF assms]
        split: line_ending.split)
  moreover have "(case line_ending_detect s of Lf \<Rightarrow> crlf_to_lf s | Crlf \<Rightarrow> lf_to_crlf (crlf_to_lf s)) = s"
    if "count_crlf s = 0 \<or> count_crlf s = count_lf s"
  proof (cases "count_crlf s = 0")
    case True
    then show ?thesis by (simp add: detect_no_crlf crlf_to_lf_none)
  next
    case False
    with that have "line_ending_detect s = Crlf" by (simp add: line_ending_detect_def)
    with False that show ?thesis by (simp add: crlf_to_lf_uniform)
  qed
  ultimately show ?thesis by simp
qed

lemma line_endings_restored_witness:
  "to_disk_string list_rope (buffer_from_text list_rope 0 None [97, 13, 10, 98, 13, 10])
     = [97, 13, 10, 98, 13, 10]"
  using line_endings_restored [OF list_rope.rope_text_axioms, of "[97, 13, 10, 98, 13, 10]" 0 None]
  by simp

section \<open>Saving and loading\<close>

lemma valid_lf_to_crlf [simp]: "valid_text (lf_to_crlf s) = valid_text s"
  by (induction s) (auto simp: valid_char_def)

lemma save_is_mark_saved:
  "case buffer_save R F w b of
     (Inl e, b', w') \<Rightarrow> b' = b
   | (Inr u, b', w') \<Rightarrow> b' = mark_saved (b_version b) b"
  by (auto simp: buffer_save_def mark_saved_def split: option.split prod.split sum.split)

context file_service begin

lemma save_then_load:
  assumes "ok w" "rope_text R" "valid_text (rope_chars R (b_text b))"
    "buffer_save R F w b = (Inr u, b', w')" "b_path b = Some p"
  shows "buffer_load R F w' i p = Inr (buffer_from_text R i (Some p) (to_disk_string R b))"
    "ok w'" "b' = mark_saved (b_version b) b"
proof -
  have w: "fs_write_file F w p (utf8_encode (to_disk_string R b)) = (Inr (), w')"
    and b': "b' = mark_saved (b_version b) b"
    using assms(4,5) by (auto simp: buffer_save_def mark_saved_def split: prod.splits sum.splits)
  have "valid_text (to_disk_string R b)"
    using assms(3) by (simp add: to_disk_string_def split: line_ending.split)
  with write_read [OF assms(1) w]
  show "buffer_load R F w' i p = Inr (buffer_from_text R i (Some p) (to_disk_string R b))"
    by (simp add: buffer_load_def utf8_decode_encode)
  show "ok w'" by (rule write_ok [OF assms(1) w])
  show "b' = mark_saved (b_version b) b" by (rule b')
qed

end

text \<open>
  C37. A buffer saved through a filesystem that keeps what is written to it is clean afterwards, and
  loading its path gives the same document, provided that it is no \<open>Lf\<close> document with a
  carriage return in front of a newline; the line ending it is saved with is detected again as
  soon as the document has a line break.
\<close>

theorem save_load_round_trip:
  assumes "file_service F ok resolve" and "ok w" and "rope_text R"
    and "valid_text (rope_chars R (b_text b))"
    and "b_line_ending b = Lf \<longrightarrow> count_crlf (rope_chars R (b_text b)) = 0"
    and "b_path b = Some p" and "buffer_save R F w b = (Inr u, b', w')"
  shows "\<not> is_dirty b' \<and> (\<exists>b2. buffer_load R F w' i p = Inr b2 \<and> \<not> is_dirty b2
    \<and> rope_chars R (b_text b2) = rope_chars R (b_text b)
    \<and> (newline \<in> set (rope_chars R (b_text b)) \<longrightarrow> b_line_ending b2 = b_line_ending b))"
proof -
  note s = file_service.save_then_load [OF assms(1,2,3,4,7,6)]
  let ?t = "rope_chars R (b_text b)"
  have "crlf_to_lf (to_disk_string R b) = ?t"
    using assms(5) by (cases "b_line_ending b") (simp_all add: to_disk_string_def crlf_to_lf_none)
  moreover have "line_ending_detect (to_disk_string R b) = b_line_ending b" if "newline \<in> set ?t"
    using assms(5) that
    by (cases "b_line_ending b") (simp_all add: to_disk_string_def detect_no_crlf detect_lf_to_crlf)
  ultimately show ?thesis
    using s(1) [of i] s(3)
    by (simp add: is_dirty_def mark_saved_def buffer_from_text_def rope_text.chars_of [OF assms(3)])
qed

text \<open>The file \<open>/a/f\<close> opened from the in-memory filesystem.\<close>

definition opened_buffer :: "utext buffer" where
  "opened_buffer = buffer_from_text list_rope 0 (Some [RootDir, Normal [97], Normal [102]]) [104, 10]"

lemma save_load_round_trip_witness:
  "\<exists>b2. buffer_load list_rope (fake_api (\<lambda>s. s))
      (snd (snd (buffer_save list_rope (fake_api (\<lambda>s. s)) sample_fs opened_buffer))) 1
      [RootDir, Normal [97], Normal [102]] = Inr b2 \<and> b_text b2 = [104, 10]"
proof -
  let ?F = "fake_api (\<lambda>s. s)"
  obtain u b' w' where s: "buffer_save list_rope ?F sample_fs opened_buffer = (Inr u, b', w')"
    by (auto simp: buffer_save_def opened_buffer_def buffer_from_text_def fake_api_def
        fake_write_file_def Let_def check_failure_def sample_fs_nodes)
  have "fake_ok sample_fs"
    by (simp add: fake_ok_def sample_fs_nodes less_path_component_def)
  from save_load_round_trip [OF fake_fs.file_service_axioms this list_rope.rope_text_axioms _ _ _ s, of
    "[RootDir, Normal [97], Normal [102]]" 1] s
  show ?thesis
    by (auto simp: opened_buffer_def buffer_from_text_def valid_char_def)
qed

end
