(* ===== verification/Text_Search.thy ===== *)
theory Text_Search
  imports Change
begin

text \<open>
  Finding text in a buffer (\<open>crates/editor/src/search.rs\<close>).  The Unicode tables of the standard
  library are a parameter: \<open>u_lower\<close> is \<open>str::to_lowercase\<close> and \<open>u_is_upper\<close> is
  \<open>char::is_uppercase\<close>.
\<close>

record unicode_api =
  u_lower :: "utext \<Rightarrow> utext"
  u_is_upper :: "uchar \<Rightarrow> bool"

type_synonym text_match = "nat \<times> nat"

datatype case_mode = Smart | Sensitive | Insensitive

fun sensitive_for :: "unicode_api \<Rightarrow> case_mode \<Rightarrow> utext \<Rightarrow> bool" where
  "sensitive_for U Sensitive needle = True"
| "sensitive_for U Insensitive needle = False"
| "sensitive_for U Smart needle = list_ex (u_is_upper U) needle"

text \<open>
  \<open>match_indices\<close>, with each byte offset converted to a count of chars: the occurrences of a
  non-empty needle, left to right, not overlapping.
\<close>

function match_starts :: "'a list \<Rightarrow> 'a list \<Rightarrow> nat \<Rightarrow> nat list" where
  "match_starts needle hay pos =
     (if needle = [] \<or> length hay < length needle then []
      else if take (length needle) hay = needle
      then pos # match_starts needle (drop (length needle) hay) (pos + length needle)
      else match_starts needle (tl hay) (pos + 1))"
  by auto
termination
  by (relation "measure (\<lambda>(needle, hay, pos). length hay)") (auto simp flip: length_greater_0_conv)

declare match_starts.simps [simp del]

definition find_all ::
  "unicode_api \<Rightarrow> 'r rope_api \<Rightarrow> 'r \<Rightarrow> utext \<Rightarrow> case_mode \<Rightarrow> text_match list" where
  "find_all U R t needle mode =
     (if needle = [] then []
      else
        let sensitive = sensitive_for U mode needle;
            hay = rope_chars R t;
            (hay, needle) = (if sensitive then (hay, needle) else (u_lower U hay, u_lower U needle))
        in map (\<lambda>s. (s, s + length needle)) (match_starts needle hay 0))"

fun position_of :: "(text_match \<Rightarrow> bool) \<Rightarrow> text_match list \<Rightarrow> nat option" where
  "position_of P [] = None"
| "position_of P (m # ms) = (if P m then Some 0 else map_option Suc (position_of P ms))"

definition rposition_of :: "(text_match \<Rightarrow> bool) \<Rightarrow> text_match list \<Rightarrow> nat option" where
  "rposition_of P ms = map_option (\<lambda>i. length ms - 1 - i) (position_of P (rev ms))"

definition next_from :: "text_match list \<Rightarrow> nat \<Rightarrow> nat option" where
  "next_from ms from =
     (if ms = [] then None
      else Some (case position_of (\<lambda>m. from \<le> fst m) ms of Some i \<Rightarrow> i | None \<Rightarrow> 0))"

definition prev_from :: "text_match list \<Rightarrow> nat \<Rightarrow> nat option" where
  "prev_from ms from =
     (if ms = [] then None
      else Some (case rposition_of (\<lambda>m. fst m < from) ms of Some i \<Rightarrow> i | None \<Rightarrow> length ms - 1))"

section \<open>What the search finds\<close>

text \<open>\<open>occurs needle hay i\<close>: the needle stands at index \<open>i\<close>.\<close>

definition occurs :: "'a list \<Rightarrow> 'a list \<Rightarrow> nat \<Rightarrow> bool" where
  "occurs needle hay i \<longleftrightarrow> take (length needle) (drop i hay) = needle"

lemma match_starts_cases:
  "needle = [] \<or> length hay < length needle \<Longrightarrow> match_starts needle hay pos = []"
  "needle \<noteq> [] \<Longrightarrow> length needle \<le> length hay \<Longrightarrow> occurs needle hay 0 \<Longrightarrow>
     match_starts needle hay pos
       = pos # match_starts needle (drop (length needle) hay) (pos + length needle)"
  "needle \<noteq> [] \<Longrightarrow> length needle \<le> length hay \<Longrightarrow> \<not> occurs needle hay 0 \<Longrightarrow>
     match_starts needle hay pos = match_starts needle (drop 1 hay) (pos + 1)"
  by (subst match_starts.simps; simp add: occurs_def drop_Suc)+

lemma occurs_length: "occurs needle hay i \<Longrightarrow> needle \<noteq> [] \<Longrightarrow> i + length needle \<le> length hay"
proof -
  assume o: "occurs needle hay i" and "needle \<noteq> []"
  then have "0 < length needle" by simp
  moreover have "min (length hay - i) (length needle) = length needle"
    using arg_cong [OF o [unfolded occurs_def], of length] by simp
  ultimately show ?thesis by linarith
qed

lemma occurs_drop: "occurs needle (drop n hay) i \<longleftrightarrow> occurs needle hay (n + i)"
  by (simp add: occurs_def add.commute)

text \<open>
  The starts reported are occurrences, in order and a needle's length apart, and every occurrence
  starts within a needle's length of one that is reported, at or before it.
\<close>

lemma match_starts_spec:
  assumes "needle \<noteq> []"
  shows "sorted_wrt (\<lambda>x y. x + length needle \<le> y) (match_starts needle hay pos)
    \<and> (\<forall>x \<in> set (match_starts needle hay pos). pos \<le> x \<and> occurs needle hay (x - pos))
    \<and> (\<forall>i. occurs needle hay i \<longrightarrow> (\<exists>x \<in> set (match_starts needle hay pos).
         x \<le> pos + i \<and> pos + i < x + length needle))"
  using assms
proof (induction needle hay pos rule: match_starts.induct)
  case (1 needle hay pos)
  consider "length hay < length needle" | "length needle \<le> length hay" "occurs needle hay 0"
    | "length needle \<le> length hay" "\<not> occurs needle hay 0"
    by linarith
  then show ?case
  proof cases
    case 1
    then show ?thesis
      using occurs_length [of needle hay] \<open>needle \<noteq> []\<close>
      by (auto simp: match_starts_cases(1))
  next
    case 2
    let ?rest = "match_starts needle (drop (length needle) hay) (pos + length needle)"
    have IH: "sorted_wrt (\<lambda>x y. x + length needle \<le> y) ?rest"
      "\<And>x. x \<in> set ?rest \<Longrightarrow> pos + length needle \<le> x
         \<and> occurs needle hay (length needle + (x - (pos + length needle)))"
      "\<And>i. occurs needle hay (length needle + i) \<Longrightarrow> \<exists>x \<in> set ?rest.
         x \<le> pos + length needle + i \<and> pos + length needle + i < x + length needle"
    proof -
      have "take (length needle) hay = needle" "\<not> (needle = [] \<or> length hay < length needle)"
        using 2 \<open>needle \<noteq> []\<close> by (auto simp: occurs_def)
      note IH = "1.IH"(1) [OF this(2,1) \<open>needle \<noteq> []\<close>, unfolded occurs_drop]
      then show "sorted_wrt (\<lambda>x y. x + length needle \<le> y) ?rest"
        "\<And>x. x \<in> set ?rest \<Longrightarrow> pos + length needle \<le> x
         \<and> occurs needle hay (length needle + (x - (pos + length needle)))"
        "\<And>i. occurs needle hay (length needle + i) \<Longrightarrow> \<exists>x \<in> set ?rest.
         x \<le> pos + length needle + i \<and> pos + length needle + i < x + length needle"
        by blast+
    qed
    have hit: "match_starts needle hay pos = pos # ?rest"
      using match_starts_cases(2) 2 \<open>needle \<noteq> []\<close> by blast
    have "\<exists>x \<in> set (match_starts needle hay pos). x \<le> pos + i \<and> pos + i < x + length needle"
      if o: "occurs needle hay i" for i
    proof (cases "i < length needle")
      case True
      then show ?thesis by (simp add: hit)
    next
      case False
      then obtain k where "i = length needle + k" by (metis le_iff_add not_le)
      with IH(3) [of k] o hit show ?thesis by (auto simp: add.assoc)
    qed
    moreover have "occurs needle hay (x - pos)" if "x \<in> set ?rest" for x
      using IH(2) [OF that] by (auto simp: le_iff_add add.assoc)
    ultimately show ?thesis using IH(1,2) 2(2) hit by fastforce
  next
    case 3
    let ?rest = "match_starts needle (drop 1 hay) (pos + 1)"
    have IH: "sorted_wrt (\<lambda>x y. x + length needle \<le> y) ?rest"
      "\<And>x. x \<in> set ?rest \<Longrightarrow> pos + 1 \<le> x \<and> occurs needle hay (1 + (x - (pos + 1)))"
      "\<And>i. occurs needle hay (1 + i) \<Longrightarrow> \<exists>x \<in> set ?rest.
         x \<le> pos + 1 + i \<and> pos + 1 + i < x + length needle"
    proof -
      have "take (length needle) hay \<noteq> needle" "\<not> (needle = [] \<or> length hay < length needle)"
        using 3 \<open>needle \<noteq> []\<close> by (auto simp: occurs_def)
      moreover have "tl hay = drop 1 hay" by (simp add: drop_Suc)
      ultimately have IH: "sorted_wrt (\<lambda>x y. x + length needle \<le> y) ?rest
        \<and> (\<forall>x \<in> set ?rest. pos + 1 \<le> x \<and> occurs needle (drop 1 hay) (x - (pos + 1)))
        \<and> (\<forall>i. occurs needle (drop 1 hay) i \<longrightarrow> (\<exists>x \<in> set ?rest.
             x \<le> pos + 1 + i \<and> pos + 1 + i < x + length needle))"
        using "1.IH"(2) \<open>needle \<noteq> []\<close> by metis
      then show "sorted_wrt (\<lambda>x y. x + length needle \<le> y) ?rest"
        "\<And>x. x \<in> set ?rest \<Longrightarrow> pos + 1 \<le> x \<and> occurs needle hay (1 + (x - (pos + 1)))"
        "\<And>i. occurs needle hay (1 + i) \<Longrightarrow> \<exists>x \<in> set ?rest.
         x \<le> pos + 1 + i \<and> pos + 1 + i < x + length needle"
        unfolding occurs_drop by blast+
    qed
    have miss: "match_starts needle hay pos = ?rest"
      using match_starts_cases(3) 3 \<open>needle \<noteq> []\<close> by blast
    have "\<exists>x \<in> set ?rest. x \<le> pos + i \<and> pos + i < x + length needle" if o: "occurs needle hay i" for i
    proof (cases i)
      case (Suc k)
      with IH(3) [of k] o show ?thesis by simp
    qed (use 3 o in simp)
    moreover have "occurs needle hay (x - pos)" if "x \<in> set ?rest" for x
      using IH(2) [OF that] by (auto simp: le_iff_add)
    ultimately show ?thesis using IH(1,2) miss by fastforce
  qed
qed

section \<open>The properties\<close>

text \<open>
  The matches found are exactly what a reader would mark from left to right: each is the needle,
  in the document or, when case is ignored, in its lower-case form; they are in order and do not
  overlap; and every occurrence starts inside one of them.  They lie in the document whenever
  lower-casing keeps the number of chars.
\<close>

theorem find_all_exact:
  assumes "rope_text R" and "needle \<noteq> []"
    and "(hay, nd) = (if sensitive_for U mode needle then (rope_chars R t, needle)
       else (u_lower U (rope_chars R t), u_lower U needle))"
    and "nd \<noteq> []"
  shows "sorted_wrt (\<lambda>x y. snd x \<le> fst y) (find_all U R t needle mode)
    \<and> (\<forall>(s, e) \<in> set (find_all U R t needle mode). s < e \<and> slice s e hay = nd)
    \<and> (\<forall>i. occurs nd hay i \<longrightarrow> (\<exists>(s, e) \<in> set (find_all U R t needle mode). s \<le> i \<and> i < e))
    \<and> (length hay = rope_len R t \<longrightarrow>
         (\<forall>(s, e) \<in> set (find_all U R t needle mode). e \<le> rope_len R t))"
proof -
  have ms: "find_all U R t needle mode
      = map (\<lambda>s. (s, s + length nd)) (match_starts nd hay 0)"
    using assms(2,3) by (cases "sensitive_for U mode needle") (simp_all add: find_all_def)
  note spec = match_starts_spec [OF assms(4), of hay 0]
  have "sorted_wrt (\<lambda>x y. snd x \<le> fst y) (find_all U R t needle mode)"
    using spec by (simp add: ms sorted_wrt_map)
  moreover have "slice x (x + length nd) hay = nd" "x + length nd \<le> length hay"
    if "x \<in> set (match_starts nd hay 0)" for x
    using spec that occurs_length [of nd hay x] assms(4) by (auto simp: occurs_def slice_def)
  moreover have "rope_len R t = length (rope_chars R t)"
    using assms(1) by (rule rope_text.len_chars)
  ultimately show ?thesis using spec assms(4) by (auto simp: ms)
qed

definition ascii_lower :: "uchar \<Rightarrow> uchar" where
  "ascii_lower c = (if 65 \<le> c \<and> c \<le> 90 then c + 32 else c)"

definition ascii_unicode :: unicode_api where
  "ascii_unicode = \<lparr>u_lower = map ascii_lower, u_is_upper = (\<lambda>c. 65 \<le> c \<and> c \<le> 90)\<rparr>"

lemma find_all_exact_witness:
  "\<exists>(s, e) \<in> set (find_all ascii_unicode list_rope [97, 66, 65, 98] [97, 98] Smart). s \<le> 2 \<and> 2 < e"
  using find_all_exact [OF list_rope.rope_text_axioms, of "[97, 98]" "[97, 98, 97, 98]" "[97, 98]"
    ascii_unicode Smart "[97, 66, 65, 98]"]
  by (simp add: ascii_unicode_def ascii_lower_def occurs_def)

lemma position_of_spec:
  fixes ms :: "text_match list"
  shows "case position_of P ms of
     None \<Rightarrow> \<forall>m \<in> set ms. \<not> P m
   | Some i \<Rightarrow> i < length ms \<and> P (ms ! i) \<and> (\<forall>j < i. \<not> P (ms ! j))"
proof (induction ms)
  case (Cons m ms)
  show ?case
  proof (cases "P m \<or> position_of P ms = None")
    case False
    then obtain i where "position_of P ms = Some i" "\<not> P m" by auto
    with Cons show ?thesis by (auto simp: nth_Cons split: nat.splits)
  qed (use Cons in auto)
qed simp

lemma rposition_of_spec:
  fixes ms :: "text_match list"
  shows "case rposition_of P ms of
     None \<Rightarrow> \<forall>m \<in> set ms. \<not> P m
   | Some i \<Rightarrow> i < length ms \<and> P (ms ! i) \<and> (\<forall>j. i < j \<and> j < length ms \<longrightarrow> \<not> P (ms ! j))"
proof (cases "position_of P (rev ms)")
  case None
  with position_of_spec [where ms = "rev ms" and P = P] show ?thesis by (simp add: rposition_of_def)
next
  case (Some k)
  with position_of_spec [where ms = "rev ms" and P = P] have k: "k < length ms" "P (rev ms ! k)"
    "\<forall>j < k. \<not> P (rev ms ! j)"
    by auto
  have "\<not> P (ms ! j)" if "length ms - 1 - k < j" "j < length ms" for j
    using k(3) [rule_format, of "length ms - 1 - j"] that by (simp add: rev_nth)
  with Some k show ?thesis by (simp add: rposition_of_def rev_nth)
qed

lemma next_from_spec:
  "case next_from ms from of
      None \<Rightarrow> ms = []
    | Some i \<Rightarrow> i < length ms \<and> (if \<exists>m \<in> set ms. from \<le> fst m
        then from \<le> fst (ms ! i) \<and> (\<forall>j < i. fst (ms ! j) < from) else i = 0)"
proof (cases "position_of (\<lambda>m. from \<le> fst m) ms")
  case None
  with position_of_spec [where ms = ms and P = "\<lambda>m. from \<le> fst m"] show ?thesis
    by (auto simp: next_from_def)
next
  case (Some i)
  with position_of_spec [where ms = ms and P = "\<lambda>m. from \<le> fst m"]
  have i: "i < length ms" "from \<le> fst (ms ! i)" "\<forall>j < i. \<not> from \<le> fst (ms ! j)" by auto
  then have "\<exists>m \<in> set ms. from \<le> fst m" "ms \<noteq> []" using nth_mem [OF i(1)] i(1) by auto
  with Some i show ?thesis by (simp add: next_from_def not_le)
qed

lemma prev_from_spec:
  "case prev_from ms from of
      None \<Rightarrow> ms = []
    | Some i \<Rightarrow> i < length ms \<and> (if \<exists>m \<in> set ms. fst m < from
        then fst (ms ! i) < from \<and> (\<forall>j. i < j \<and> j < length ms \<longrightarrow> from \<le> fst (ms ! j))
        else i = length ms - 1)"
proof (cases "rposition_of (\<lambda>m. fst m < from) ms")
  case None
  with rposition_of_spec [where ms = ms and P = "\<lambda>m. fst m < from"] show ?thesis
    by (auto simp: prev_from_def)
next
  case (Some i)
  with rposition_of_spec [where ms = ms and P = "\<lambda>m. fst m < from"]
  have i: "i < length ms" "fst (ms ! i) < from"
    "\<forall>j. i < j \<and> j < length ms \<longrightarrow> \<not> fst (ms ! j) < from" by auto
  then have "\<exists>m \<in> set ms. fst m < from" "ms \<noteq> []" using nth_mem [OF i(1)] i(1) by auto
  with Some i show ?thesis by (simp add: prev_from_def not_less)
qed

text \<open>
  Moving to the next match goes to the first match that starts at the cursor or after it, and to
  the first of all when there is none; moving back goes to the last one that starts before it, and
  to the last of all when there is none; with no matches there is nowhere to go.
\<close>

theorem match_navigation:
  "(case next_from ms from of
      None \<Rightarrow> ms = []
    | Some i \<Rightarrow> i < length ms \<and> (if \<exists>m \<in> set ms. from \<le> fst m
        then from \<le> fst (ms ! i) \<and> (\<forall>j < i. fst (ms ! j) < from) else i = 0))
   \<and> (case prev_from ms from of
      None \<Rightarrow> ms = []
    | Some i \<Rightarrow> i < length ms \<and> (if \<exists>m \<in> set ms. fst m < from
        then fst (ms ! i) < from \<and> (\<forall>j. i < j \<and> j < length ms \<longrightarrow> from \<le> fst (ms ! j))
        else i = length ms - 1))"
  using next_from_spec [of ms "from"] prev_from_spec [of ms "from"] by blast

lemma match_navigation_witness:
  "next_from [(1, 3), (5, 7)] 2 = Some 1 \<and> prev_from [(1, 3), (5, 7)] 1 = Some 1"
  using match_navigation [of "[(1, 3), (5, 7)]" 2] match_navigation [of "[(1, 3), (5, 7)]" 1]
  by (auto split: option.splits simp: less_Suc_eq numeral_2_eq_2)

text \<open>
  When case is ignored, the reported offsets count the chars of the lower-cased text: with the
  Unicode rule that the capital I with a dot (U+0130) lower-cases to two chars, a match after such
  a char lies past the end of the document, and building the edit that replaces it panics.
\<close>

theorem insensitive_match_past_end:
  assumes "u_lower U [304, 97] = [105, 775, 97]" and "u_lower U [97] = [97]"
  shows "find_all U list_rope [304, 97] [97] Insensitive = [(2, 3)]
    \<and> rope_len list_rope [304, 97] = 2 \<and> cs_replace 2 2 3 s = None"
proof -
  have "match_starts [97 :: uchar] [105, 775, 97] 0 = [2]"
    by (simp add: match_starts.simps numeral_2_eq_2)
  then show ?thesis
    using assms cs_replace_panics [of 3 2 2 s] by (simp add: find_all_def)
qed

definition dotted_unicode :: unicode_api where
  "dotted_unicode = \<lparr>u_lower = (\<lambda>s. concat (map (\<lambda>c. if c = 304 then [105, 775] else [ascii_lower c]) s)),
     u_is_upper = (\<lambda>c. 65 \<le> c \<and> c \<le> 90 \<or> c = 304)\<rparr>"

lemma insensitive_match_past_end_witness:
  "find_all dotted_unicode list_rope [304, 97] [97] Insensitive = [(2, 3)]"
  using insensitive_match_past_end [of dotted_unicode "[]"]
  by (simp add: dotted_unicode_def ascii_lower_def)

end
