(* ===== verification/Find_Replace.thy ===== *)
theory Find_Replace
  imports Text_Search
begin

text \<open>
  Replacing every match in one transaction (\<open>replace_all\<close> of \<open>crates/app/src/model.rs\<close>): the
  changeset built from the stored matches.  The matches are those of the last search, which the
  program keeps while the document is edited.
\<close>

text \<open>\<open>None\<close>: \<open>start - at\<close> or \<open>end - start\<close> underflows.\<close>

fun replace_loop ::
  "text_match list \<Rightarrow> nat \<Rightarrow> utext \<Rightarrow> change_set_builder \<Rightarrow> change_set_builder option" where
  "replace_loop [] at rep b = Some b"
| "replace_loop ((s, e) # ms) at rep b =
     (if s < at \<or> e < s then None
      else replace_loop ms e rep (bd_insert (bd_delete (bd_retain b (s - at)) (e - s)) rep))"

definition replace_all_changes :: "nat \<Rightarrow> text_match list \<Rightarrow> utext \<Rightarrow> change_set option" where
  "replace_all_changes len ms rep =
     do { b \<leftarrow> replace_loop ms 0 rep (cs_builder len); bd_build b }"

section \<open>What it does\<close>

text \<open>The matches lie in a document of length \<open>n\<close>, in order from \<open>at\<close> and without overlap.\<close>

fun matches_in :: "nat \<Rightarrow> nat \<Rightarrow> text_match list \<Rightarrow> bool" where
  "matches_in n at [] \<longleftrightarrow> at \<le> n"
| "matches_in n at ((s, e) # ms) \<longleftrightarrow> at \<le> s \<and> s \<le> e \<and> matches_in n e ms"

text \<open>The text from \<open>at\<close> on, with every match replaced.\<close>

fun replace_matches :: "text_match list \<Rightarrow> nat \<Rightarrow> utext \<Rightarrow> utext \<Rightarrow> utext" where
  "replace_matches [] at rep t = drop at t"
| "replace_matches ((s, e) # ms) at rep t = slice at s t @ rep @ replace_matches ms e rep t"

lemma replace_loop_spec:
  assumes "wf_builder b" "bd_consumed b = at"
  shows "case replace_loop ms at rep b of
      None \<Rightarrow> \<not> matches_in n at ms
    | Some b' \<Rightarrow> wf_builder b' \<and> bd_len_before b' = bd_len_before b
        \<and> (matches_in n at ms \<longleftrightarrow> bd_consumed b' \<le> n)
        \<and> denote (bd_ops b') t @ drop (bd_consumed b') t
            = denote (bd_ops b) t @ replace_matches ms at rep t"
  using assms
proof (induction ms arbitrary: at b)
  case (Cons m ms)
  obtain s e where m: "m = (s, e)" by (cases m)
  show ?case
  proof (cases "s < at \<or> e < s")
    case True
    with m show ?thesis by auto
  next
    case False
    let ?b = "bd_insert (bd_delete (bd_retain b (s - at)) (e - s)) rep"
    have "in_len (bd_ops b) = at" using Cons.prems by (simp add: wf_builder_def)
    with False have "denote (bd_ops ?b) t = denote (bd_ops b) t @ slice at s t @ rep"
      by (simp add: ops_simps slice_def)
    moreover have "wf_builder ?b" "bd_consumed ?b = e" "bd_len_before ?b = bd_len_before b"
      using Cons.prems False by (simp_all add: ops_simps)
    ultimately show ?thesis
      using Cons.IH [of ?b e] False m by (auto split: option.splits)
  qed
qed simp

text \<open>
  Replacing all matches panics exactly when some match is out of order or lies past the
  document's end; otherwise the changeset is canonical and edits the document into the text with
  every match replaced and everything between the matches kept.
\<close>

theorem replace_all_splices:
  assumes "rope_text R" and "rope_len R doc = n"
  shows "case replace_all_changes n ms rep of
      None \<Rightarrow> \<not> matches_in n 0 ms
    | Some cs \<Rightarrow> matches_in n 0 ms \<and> wf_cs cs \<and> (\<exists>out. cs_apply R cs doc = Some out
        \<and> rope_chars R out = replace_matches ms 0 rep (rope_chars R doc))"
proof -
  have len: "length (rope_chars R doc) = n" using assms by (simp add: rope_text.len_chars)
  note spec = replace_loop_spec [where b = "cs_builder n" and at = 0 and ms = ms and rep = rep and n = n
    and t = "rope_chars R doc"]
  show ?thesis
  proof (cases "replace_loop ms 0 rep (cs_builder n)")
    case None
    with spec show ?thesis by (simp add: replace_all_changes_def ops_simps)
  next
    case (Some b)
    with spec have b: "wf_builder b" "bd_len_before b = n" "matches_in n 0 ms \<longleftrightarrow> bd_consumed b \<le> n"
      "denote (bd_ops b) (rope_chars R doc) @ drop (bd_consumed b) (rope_chars R doc)
         = replace_matches ms 0 rep (rope_chars R doc)"
      by (simp_all add: ops_simps)
    show ?thesis
    proof (cases "bd_consumed b \<le> n")
      case True
      then have "bd_consumed b \<le> bd_len_before b" using b by simp
      from bd_build_ok [OF b(1) this] obtain cs where cs: "bd_build b = Some cs" "wf_cs cs"
        "cs_len_before cs = bd_len_before b"
        "\<And>t. length t = bd_len_before b \<Longrightarrow>
           denote (cs_ops cs) t = denote (bd_ops b) t @ drop (bd_consumed b) t"
        by metis
      have "length (rope_chars R doc) = cs_len_before cs" using len cs(3) b(2) by simp
      from rope_text.apply_denote [OF assms(1) cs(2) this] obtain out where
        "cs_apply R cs doc = Some out" "rope_chars R out = denote (cs_ops cs) (rope_chars R doc)"
        by metis
      with Some cs b True len show ?thesis by (simp add: replace_all_changes_def)
    next
      case False
      with Some b show ?thesis by (simp add: replace_all_changes_def bd_build_def)
    qed
  qed
qed

lemma replace_all_splices_witness:
  "\<exists>cs. replace_all_changes 5 [(0, 1), (3, 4)] [120, 120] = Some cs
     \<and> cs_apply list_rope cs [97, 98, 99, 97, 98] = Some [120, 120, 98, 99, 120, 120, 98]"
  using replace_all_splices [OF list_rope.rope_text_axioms,
    of "[97, 98, 99, 97, 98]" 5 "[(0, 1), (3, 4)]" "[120, 120]"]
  by (auto simp: slice_def split: option.splits)

end
