(* ===== verification/Proposal.thy ===== *)
theory Proposal
  imports Decoration Text_Search Filesystem
begin

text \<open>
  Reviewable hunks from an agent's diff (\<open>crates/agent/src/proposal.rs\<close>): deriving them from the
  whole-file texts, carrying them onto the document as it stands now, and the changeset that
  applies the accepted ones.

  The line diff of the package \<open>similar\<close> is the parameter \<open>D\<close>, its result the list of tagged
  ranges of line indices that \<open>ops()\<close> returns.  The locale \<open>line_differ\<close> states what the code
  relies on, its documented behaviour on texts whose only line break is the newline char: the
  operations cover both line sequences in order, and an \<open>Equal\<close> one covers equal lines.
\<close>

section \<open>Lines\<close>

fun split_inclusive :: "utext \<Rightarrow> utext list" where
  "split_inclusive [] = []"
| "split_inclusive (c # s) =
     (if c = newline then [c] # split_inclusive s
      else case split_inclusive s of [] \<Rightarrow> [[c]] | l # ls \<Rightarrow> (c # l) # ls)"

fun offsets_loop :: "nat \<Rightarrow> utext list \<Rightarrow> nat list" where
  "offsets_loop acc [] = [acc]"
| "offsets_loop acc (l # ls) = acc # offsets_loop (acc + length l) ls"

definition line_offsets :: "utext \<Rightarrow> nat list" where
  "line_offsets s = offsets_loop 0 (split_inclusive s)"

section \<open>Hunks\<close>

record hunk =
  h_start :: nat
  h_end :: nat
  h_text :: utext
  h_state :: hunk_state

definition hunk_new :: "nat \<Rightarrow> nat \<Rightarrow> utext \<Rightarrow> hunk" where
  "hunk_new s e t = \<lparr>h_start = s, h_end = e, h_text = t, h_state = Clean\<rparr>"

definition hunk_is_insertion :: "hunk \<Rightarrow> bool" where
  "hunk_is_insertion h = (h_start h = h_end h)"

definition hunk_is_deletion :: "hunk \<Rightarrow> bool" where
  "hunk_is_deletion h = (h_text h = [])"

datatype diff_tag = Equal | Deleted | Inserted | Replaced

record diff_op =
  op_tag :: diff_tag
  op_old :: "nat \<times> nat"
  op_new :: "nat \<times> nat"

type_synonym line_diff = "utext \<Rightarrow> utext \<Rightarrow> diff_op list"

text \<open>Indexing, and slicing by a range, panic out of bounds.\<close>

definition nth_opt :: "'a list \<Rightarrow> nat \<Rightarrow> 'a option" where
  "nth_opt xs i = (if i < length xs then Some (xs ! i) else None)"

definition slice_opt :: "'a list \<Rightarrow> nat \<times> nat \<Rightarrow> 'a list option" where
  "slice_opt xs r = (if fst r \<le> snd r \<and> snd r \<le> length xs then Some (slice (fst r) (snd r) xs) else None)"

definition op_hunk :: "nat list \<Rightarrow> utext list \<Rightarrow> diff_op \<Rightarrow> hunk option" where
  "op_hunk offsets new_lines op =
     do { s \<leftarrow> nth_opt offsets (fst (op_old op));
          e \<leftarrow> nth_opt offsets (snd (op_old op));
          ls \<leftarrow> slice_opt new_lines (op_new op);
          Some (hunk_new s e (concat ls)) }"

definition hunks_from_diff :: "line_diff \<Rightarrow> utext \<Rightarrow> utext \<Rightarrow> hunk list option" where
  "hunks_from_diff D old new =
     those (map (op_hunk (line_offsets old) (split_inclusive new))
       (filter (\<lambda>op. op_tag op \<noteq> Equal) (D old new)))"

text \<open>
  The changeset of accepted hunks: a debug assertion that they do not overlap, a subtraction that
  underflows on a reversed hunk, and the \<open>expect\<close> of \<open>build\<close>.
\<close>

fun hunks_loop :: "hunk list \<Rightarrow> nat \<Rightarrow> change_set_builder \<Rightarrow> change_set_builder option" where
  "hunks_loop [] at b = Some b"
| "hunks_loop (h # hs) at b =
     (if h_start h < at \<or> h_end h < h_start h then None
      else hunks_loop hs (h_end h)
             (bd_insert (bd_delete (bd_retain b (h_start h - at)) (h_end h - h_start h)) (h_text h)))"

definition changeset_from_hunks :: "hunk list \<Rightarrow> nat \<Rightarrow> change_set option" where
  "changeset_from_hunks hs len_before =
     do { b \<leftarrow> hunks_loop (sort_key (\<lambda>h. (h_start h, h_end h)) hs) 0 (cs_builder len_before);
          bd_build b }"

section \<open>Carrying hunks forward\<close>

definition rebase_hunk :: "hunk list \<Rightarrow> change_set \<Rightarrow> hunk \<Rightarrow> hunk option" where
  "rebase_hunk human catchup h =
     (if list_ex (\<lambda>g. h_start g = h_start h \<and> h_end g = h_end h \<and> h_text g = h_text h) human
      then Some (h\<lparr>h_state := Satisfied\<rparr>)
      else do { effect \<leftarrow> cs_touches catchup (h_start h) (h_end h);
                Some (case from_effect effect of
                    Some reason \<Rightarrow> h\<lparr>h_state := Conflicted reason\<rparr>
                  | None \<Rightarrow> h\<lparr>h_start := cs_map_pos catchup (h_start h) After,
                             h_end := cs_map_pos catchup (h_end h) After\<rparr>) })"

definition rebase_hunks :: "line_diff \<Rightarrow> hunk list \<Rightarrow> utext \<Rightarrow> utext \<Rightarrow> hunk list option" where
  "rebase_hunks D hs base_text current_text =
     (if base_text = current_text then Some hs
      else do { human \<leftarrow> hunks_from_diff D base_text current_text;
                catchup \<leftarrow> changeset_from_hunks human (length base_text);
                those (map (rebase_hunk human catchup) hs) })"

record edit_proposal =
  ep_id :: proposal_id
  ep_path :: path
  ep_base_version :: "version option"
  ep_base_text :: utext
  ep_proposed_text :: utext
  ep_hunks :: "hunk list"

definition proposal_refresh :: "line_diff \<Rightarrow> edit_proposal \<Rightarrow> utext \<Rightarrow> edit_proposal option" where
  "proposal_refresh D p current_text =
     do { hs \<leftarrow> hunks_from_diff D (ep_base_text p) (ep_proposed_text p);
          hs' \<leftarrow> rebase_hunks D hs (ep_base_text p) current_text;
          Some (p\<lparr>ep_hunks := hs'\<rparr>) }"

definition proposal_new ::
  "line_diff \<Rightarrow> proposal_id \<Rightarrow> path \<Rightarrow> version option \<Rightarrow> utext \<Rightarrow> utext \<Rightarrow> utext \<Rightarrow> edit_proposal option"
where
  "proposal_new D i p v base_text proposed_text current_text =
     proposal_refresh D
       \<lparr>ep_id = i, ep_path = p, ep_base_version = v, ep_base_text = base_text,
        ep_proposed_text = proposed_text, ep_hunks = []\<rparr> current_text"

definition applicable :: "edit_proposal \<Rightarrow> hunk list" where
  "applicable p = filter (\<lambda>h. is_applicable (h_state h)) (ep_hunks p)"

definition has_conflicts :: "edit_proposal \<Rightarrow> bool" where
  "has_conflicts p = list_ex (\<lambda>h. case h_state h of Conflicted _ \<Rightarrow> True | _ \<Rightarrow> False) (ep_hunks p)"

definition is_settled :: "edit_proposal \<Rightarrow> bool" where
  "is_settled p = list_all (\<lambda>h. h_state h = Satisfied) (ep_hunks p)"

section \<open>Placing a fragment\<close>

datatype anchor_failure = NotFound | Ambiguous

text \<open>Offsets into the text count its chars here; the code's count its bytes.\<close>

definition whole_file_from_permission_diff ::
  "utext \<Rightarrow> utext \<Rightarrow> utext \<Rightarrow> anchor_failure + utext" where
  "whole_file_from_permission_diff current old_text new_text =
     (if old_text = current then Inr new_text
      else if old_text = [] then Inl Ambiguous
      else case match_starts old_text current 0 of
             [] \<Rightarrow> Inl anchor_failure.NotFound
           | [at] \<Rightarrow> Inr (take at current @ new_text @ drop (at + length old_text) current)
           | _ \<Rightarrow> Inl Ambiguous)"

section \<open>The lines of a text\<close>

lemma concat_split_inclusive [simp]: "concat (split_inclusive s) = s"
  by (induction s) (auto split: list.splits)

lemma length_offsets_loop [simp]: "length (offsets_loop acc ls) = Suc (length ls)"
  by (induction ls arbitrary: acc) auto

lemma offsets_loop_nth:
  "i \<le> length ls \<Longrightarrow> offsets_loop acc ls ! i = acc + length (concat (take i ls))"
proof (induction ls arbitrary: acc i)
  case (Cons l ls)
  then show ?case by (cases i) simp_all
qed simp

lemma line_offset:
  "i \<le> length (split_inclusive s) \<Longrightarrow>
   nth_opt (line_offsets s) i = Some (length (concat (take i (split_inclusive s))))"
  by (simp add: nth_opt_def line_offsets_def offsets_loop_nth)

lemma slice_concat:
  assumes "i \<le> j" "j \<le> length ls"
  shows "slice (length (concat (take i ls))) (length (concat (take j ls))) (concat ls)
    = concat (slice i j ls)"
proof -
  obtain k where j: "j = i + k" using assms(1) le_iff_add by blast
  have "concat ls = concat (take i ls) @ concat (slice i j ls) @ concat (drop j ls)"
    by (metis assms(1) concat_append take_slice_drop)
  moreover have "concat (take j ls) = concat (take i ls) @ concat (slice i j ls)"
    by (simp add: j slice_def take_add)
  ultimately show ?thesis by (simp add: slice_def)
qed

lemma offset_mono: "i \<le> j \<Longrightarrow> length (concat (take i ls)) \<le> length (concat (take j ls))"
proof -
  assume "i \<le> j"
  then obtain k where "j = i + k" using le_iff_add by blast
  then show ?thesis by (simp add: take_add)
qed

lemma offset_bound: "length (concat (take i ls)) \<le> length (concat ls)"
  by (metis append_take_drop_id concat_append length_append le_add1)

section \<open>What the code relies on of the line diff\<close>

fun diff_covers :: "diff_op list \<Rightarrow> utext list \<Rightarrow> utext list \<Rightarrow> nat \<Rightarrow> nat \<Rightarrow> bool" where
  "diff_covers [] ls ns i j \<longleftrightarrow> i = length ls \<and> j = length ns"
| "diff_covers (op # ops) ls ns i j \<longleftrightarrow>
     fst (op_old op) = i \<and> i \<le> snd (op_old op) \<and> snd (op_old op) \<le> length ls
     \<and> fst (op_new op) = j \<and> j \<le> snd (op_new op) \<and> snd (op_new op) \<le> length ns
     \<and> (op_tag op = Equal \<longrightarrow> slice i (snd (op_old op)) ls = slice j (snd (op_new op)) ns)
     \<and> diff_covers ops ls ns (snd (op_old op)) (snd (op_new op))"

text \<open>Hunks in document order, without overlap, inside a document of length \<open>n\<close>, from \<open>at\<close> on.\<close>

fun hunks_in :: "nat \<Rightarrow> nat \<Rightarrow> hunk list \<Rightarrow> bool" where
  "hunks_in n at [] \<longleftrightarrow> at \<le> n"
| "hunks_in n at (h # hs) \<longleftrightarrow> at \<le> h_start h \<and> h_start h \<le> h_end h \<and> hunks_in n (h_end h) hs"

text \<open>The text from \<open>at\<close> on with every hunk applied.\<close>

fun splice_hunks :: "hunk list \<Rightarrow> nat \<Rightarrow> utext \<Rightarrow> utext" where
  "splice_hunks [] at t = drop at t"
| "splice_hunks (h # hs) at t = slice at (h_start h) t @ h_text h @ splice_hunks hs (h_end h) t"

lemma splice_hunks_skip:
  "hunks_in n at hs \<Longrightarrow> i \<le> at \<Longrightarrow> splice_hunks hs i t = slice i at t @ splice_hunks hs at t"
proof (cases hs)
  case Nil
  assume "i \<le> at"
  then obtain k where "at = i + k" using le_iff_add by blast
  with Nil show ?thesis by (simp add: slice_def) (metis append_take_drop_id drop_drop add.commute)
next
  case (Cons h hs')
  assume "hunks_in n at hs" "i \<le> at"
  with Cons slice_append_slice [of i at "h_start h" t] show ?thesis by simp
qed

lemma hunks_in_bound: "hunks_in n at hs \<Longrightarrow> at \<le> n"
  by (induction hs arbitrary: at) force+

lemma hunks_from_ops:
  assumes "diff_covers ops ls ns i j" "i \<le> length ls" "j \<le> length ns"
  defines "off \<equiv> \<lambda>i. length (concat (take i ls))"
  shows "\<exists>hs. those (map (op_hunk (offsets_loop 0 ls) ns) (filter (\<lambda>op. op_tag op \<noteq> Equal) ops)) = Some hs
    \<and> hunks_in (length (concat ls)) (off i) hs
    \<and> splice_hunks hs (off i) (concat ls) = concat (drop j ns)
    \<and> list_all (\<lambda>h. h_state h = Clean) hs"
  using assms(1-3)
proof (induction ops arbitrary: i j)
  case Nil
  then show ?case using offset_bound [of i ls] by (simp add: off_def)
next
  case (Cons op ops)
  obtain i' j' where r: "op_old op = (i, i')" "op_new op = (j, j')"
    "i \<le> i'" "i' \<le> length ls" "j \<le> j'" "j' \<le> length ns"
    using Cons.prems by (cases "op_old op"; cases "op_new op") auto
  have cov: "diff_covers ops ls ns i' j'" using Cons.prems(1) r by simp
  from Cons.IH [OF cov r(4,6)] obtain hs where
    hs: "those (map (op_hunk (offsets_loop 0 ls) ns) (filter (\<lambda>op. op_tag op \<noteq> Equal) ops)) = Some hs"
    "hunks_in (length (concat ls)) (off i') hs"
    "splice_hunks hs (off i') (concat ls) = concat (drop j' ns)" "list_all (\<lambda>h. h_state h = Clean) hs"
    by blast
  have mono: "off i \<le> off i'" using offset_mono [OF r(3)] by (simp add: off_def)
  have ns: "concat (drop j ns) = concat (slice j j' ns) @ concat (drop j' ns)"
    using r(5) slice_drop [of j "j' - j" ns]
    by (metis append_take_drop_id concat_append drop_drop le_add_diff_inverse2 le_add_diff_inverse)
  show ?case
  proof (cases "op_tag op = Equal")
    case True
    have "slice (off i) (off i') (concat ls) = concat (slice j j' ns)"
      using slice_concat [OF r(3,4)] True Cons.prems(1) r by (simp add: off_def)
    then have "splice_hunks hs (off i) (concat ls) = concat (drop j ns)"
      using splice_hunks_skip [OF hs(2) mono] hs(3) ns by simp
    moreover have "hunks_in (length (concat ls)) (off i) hs"
      using hs(2) mono by (cases hs) auto
    ultimately show ?thesis using True hs by auto
  next
    case False
    let ?h = "hunk_new (off i) (off i') (concat (slice j j' ns))"
    have "op_hunk (offsets_loop 0 ls) ns op = Some ?h"
      using r by (simp add: op_hunk_def nth_opt_def slice_opt_def offsets_loop_nth off_def)
    then show ?thesis
      using False hs ns mono by (auto simp: hunk_new_def)
  qed
qed

locale line_differ =
  fixes D :: line_diff
  assumes covers: "carriage_return \<notin> set s \<Longrightarrow> carriage_return \<notin> set t \<Longrightarrow>
    diff_covers (D s t) (split_inclusive s) (split_inclusive t) 0 0"
begin

text \<open>Deriving hunks never panics, and applying all of them gives the new text.\<close>

lemma hunks_from_diff_ok:
  assumes "carriage_return \<notin> set old" "carriage_return \<notin> set new"
  obtains hs where "hunks_from_diff D old new = Some hs" "hunks_in (length old) 0 hs"
    "splice_hunks hs 0 old = new" "list_all (\<lambda>h. h_state h = Clean) hs"
  using hunks_from_ops [OF covers [OF assms]] that
  by (auto simp: hunks_from_diff_def line_offsets_def)

end

section \<open>The changeset of hunks\<close>

lemma hunks_in_sorted: "hunks_in n at hs \<Longrightarrow> sorted (map (\<lambda>h. (h_start h, h_end h)) hs)
    \<and> (\<forall>h \<in> set hs. at \<le> h_start h)"
proof (induction hs arbitrary: at)
  case (Cons h hs)
  then have "sorted (map (\<lambda>h. (h_start h, h_end h)) hs)" "\<forall>g \<in> set hs. h_end h \<le> h_start g"
    "at \<le> h_start h" "h_start h \<le> h_end h"
    by auto
  moreover have "(h_start h, h_end h) \<le> (h_start g, h_end g)" if "g \<in> set hs" for g
  proof -
    have "h_start g \<le> h_end g" using Cons.prems that
      by (induction hs arbitrary: at h) auto
    with calculation that show ?thesis by (auto simp: less_eq_prod_def)
  qed
  ultimately show ?case by force
qed simp

lemma sort_hunks: "hunks_in n at hs \<Longrightarrow> sort_key (\<lambda>h. (h_start h, h_end h)) hs = hs"
  by (rule sort_key_id_if_sorted) (use hunks_in_sorted in blast)

lemma hunks_loop_spec:
  assumes "wf_builder b" "bd_consumed b = at" "hunks_in n at hs"
  shows "\<exists>b'. hunks_loop hs at b = Some b' \<and> wf_builder b' \<and> bd_len_before b' = bd_len_before b
    \<and> bd_consumed b' \<le> n
    \<and> (\<forall>t. denote (bd_ops b') t @ drop (bd_consumed b') t = denote (bd_ops b) t @ splice_hunks hs at t)"
  using assms
proof (induction hs arbitrary: at b)
  case (Cons h hs)
  let ?b = "bd_insert (bd_delete (bd_retain b (h_start h - at)) (h_end h - h_start h)) (h_text h)"
  have "in_len (bd_ops b) = at" using Cons.prems by (simp add: wf_builder_def)
  with Cons.prems(3) have "denote (bd_ops ?b) t
      = denote (bd_ops b) t @ slice at (h_start h) t @ h_text h" for t
    by (simp add: ops_simps slice_def)
  moreover have "wf_builder ?b" "bd_consumed ?b = h_end h" "bd_len_before ?b = bd_len_before b"
    using Cons.prems by (simp_all add: ops_simps)
  ultimately show ?case using Cons.IH [of ?b "h_end h"] Cons.prems(3) by auto
qed simp

lemma changeset_from_hunks_ok:
  assumes "hunks_in n 0 hs"
  obtains cs where "changeset_from_hunks hs n = Some cs" "wf_cs cs" "cs_len_before cs = n"
    "\<And>t. length t = n \<Longrightarrow> denote (cs_ops cs) t = splice_hunks hs 0 t"
proof -
  obtain b where b: "hunks_loop hs 0 (cs_builder n) = Some b" "wf_builder b" "bd_len_before b = n"
    "bd_consumed b \<le> n" "\<And>t. denote (bd_ops b) t @ drop (bd_consumed b) t = splice_hunks hs 0 t"
    using hunks_loop_spec [of "cs_builder n" 0 n hs] assms by (auto simp: ops_simps)
  then have "bd_consumed b \<le> bd_len_before b" by simp
  from bd_build_ok [OF b(2) this] obtain cs where "bd_build b = Some cs" "wf_cs cs"
    "cs_len_before cs = bd_len_before b"
    "\<And>t. length t = bd_len_before b \<Longrightarrow>
       denote (cs_ops cs) t = denote (bd_ops b) t @ drop (bd_consumed b) t"
    by metis
  with that [of cs] b show thesis by (simp add: changeset_from_hunks_def sort_hunks [OF assms])
qed

end
