(* ===== verification/Proposal_Rebase.thy ===== *)
theory Proposal_Rebase
  imports Proposal Edit_History
begin

text \<open>
  Carrying a proposal forward: what accepting its clean hunks may touch, a concrete line diff that
  satisfies what the code relies on, and the properties of \<open>crates/agent/src/proposal.rs\<close>.
\<close>

section \<open>Rebasing\<close>

text \<open>The hunk a rebase makes of one, and the human's edit it does so with.\<close>

definition rebased :: "hunk list \<Rightarrow> change_set \<Rightarrow> hunk \<Rightarrow> hunk" where
  "rebased human cs h =
     (if list_ex (\<lambda>g. h_start g = h_start h \<and> h_end g = h_end h \<and> h_text g = h_text h) human
      then h\<lparr>h_state := Satisfied\<rparr>
      else case from_effect (touches_loop (cs_ops cs) (h_start h) (h_end h) 0 Untouched) of
             Some reason \<Rightarrow> h\<lparr>h_state := Conflicted reason\<rparr>
           | None \<Rightarrow> h\<lparr>h_start := cs_map_pos cs (h_start h) After,
                      h_end := cs_map_pos cs (h_end h) After\<rparr>)"

lemma hunks_in_ordered: "hunks_in n at hs \<Longrightarrow> h \<in> set hs \<Longrightarrow> h_start h \<le> h_end h \<and> h_end h \<le> n"
proof (induction hs arbitrary: at)
  case (Cons g hs)
  then show ?case using hunks_in_bound [of n "h_end g" hs] by auto
qed simp

lemma rebase_hunk_eq:
  "h_start h \<le> h_end h \<Longrightarrow> rebase_hunk human cs h = Some (rebased human cs h)"
  by (simp add: rebase_hunk_def rebased_def cs_touches_def)

lemma rebase_all:
  assumes "hunks_in n at hs"
  shows "those (map (rebase_hunk human cs) hs) = Some (map (rebased human cs) hs)"
  using hunks_in_ordered [OF assms] by (intro those_eq rebase_hunk_eq) blast

text \<open>A hunk still clean after a rebase was moved, and the human's edit left its range alone.\<close>

lemma rebased_clean:
  assumes "h_state (rebased human cs h) = Clean"
  shows "h_start (rebased human cs h) = cs_map_pos cs (h_start h) After"
    "h_end (rebased human cs h) = cs_map_pos cs (h_end h) After"
    "h_text (rebased human cs h) = h_text h"
    "touches_loop (cs_ops cs) (h_start h) (h_end h) 0 Untouched = Untouched"
  using assms by (auto simp: rebased_def split: if_splits option.splits)

lemma rebased_in:
  assumes "wf_cs cs" "hunks_in (cs_len_before cs) at hs"
  shows "hunks_in (cs_len_after cs) (cs_map_pos cs at After)
    (filter (\<lambda>h. is_applicable (h_state h)) (map (rebased human cs) hs))"
  using assms(2)
proof (induction hs arbitrary: at)
  case Nil
  then show ?case using map_rel_bound [of at "cs_ops cs" After] assms(1)
    by (simp add: cs_map_pos_rel wf_cs_def)
next
  case (Cons h hs)
  let ?p = "\<lambda>x. cs_map_pos cs x After"
  have mono: "x \<le> y \<Longrightarrow> ?p x \<le> ?p y" for x y by (simp add: cs_map_pos_rel map_rel_mono)
  have IH: "hunks_in (cs_len_after cs) (?p (h_end h))
      (filter (\<lambda>h. is_applicable (h_state h)) (map (rebased human cs) hs))"
    using Cons by simp
  show ?case
  proof (cases "h_state (rebased human cs h) = Clean")
    case True
    then show ?thesis using IH rebased_clean [OF True] Cons.prems mono by simp
  next
    case False
    then have "\<not> is_applicable (h_state (rebased human cs h))"
      by (cases "h_state (rebased human cs h)") auto
    moreover have "?p at \<le> ?p (h_end h)" using Cons.prems by (intro mono) simp
    then have "hunks_in (cs_len_after cs) (?p at)
      (filter (\<lambda>h. is_applicable (h_state h)) (map (rebased human cs) hs))"
      using IH by (cases "filter (\<lambda>h. is_applicable (h_state h)) (map (rebased human cs) hs)") auto
    ultimately show ?thesis by simp
  qed
qed

context line_differ begin

text \<open>The human's edit, as the catch-up changeset a rebase synthesises.\<close>

lemma catchup_ok:
  assumes "carriage_return \<notin> set base" "carriage_return \<notin> set current"
  obtains human cs where "hunks_from_diff D base current = Some human"
    "changeset_from_hunks human (length base) = Some cs" "carries cs base current"
proof -
  from hunks_from_diff_ok [OF assms] obtain human where
    h: "hunks_from_diff D base current = Some human" "hunks_in (length base) 0 human"
    "splice_hunks human 0 base = current" by metis
  from changeset_from_hunks_ok [OF h(2)] obtain cs where
    "changeset_from_hunks human (length base) = Some cs" "wf_cs cs" "cs_len_before cs = length base"
    "\<And>t. length t = length base \<Longrightarrow> denote (cs_ops cs) t = splice_hunks human 0 t"
    by metis
  with h show thesis by (intro that [of human cs]) (auto simp: carries_def)
qed

lemma refresh_ok:
  assumes "carriage_return \<notin> set (ep_base_text p)" "carriage_return \<notin> set (ep_proposed_text p)"
    "carriage_return \<notin> set current"
  obtains hs where "hunks_from_diff D (ep_base_text p) (ep_proposed_text p) = Some hs"
    "hunks_in (length (ep_base_text p)) 0 hs" "splice_hunks hs 0 (ep_base_text p) = ep_proposed_text p"
    "list_all (\<lambda>h. h_state h = Clean) hs"
    "ep_base_text p = current \<longrightarrow> proposal_refresh D p current = Some (p\<lparr>ep_hunks := hs\<rparr>)"
    "ep_base_text p \<noteq> current \<longrightarrow> (\<exists>human cs. hunks_from_diff D (ep_base_text p) current = Some human
       \<and> changeset_from_hunks human (length (ep_base_text p)) = Some cs
       \<and> carries cs (ep_base_text p) current
       \<and> proposal_refresh D p current = Some (p\<lparr>ep_hunks := map (rebased human cs) hs\<rparr>))"
proof -
  from hunks_from_diff_ok [OF assms(1,2)] obtain hs where
    hs: "hunks_from_diff D (ep_base_text p) (ep_proposed_text p) = Some hs"
    "hunks_in (length (ep_base_text p)) 0 hs" "splice_hunks hs 0 (ep_base_text p) = ep_proposed_text p"
    "list_all (\<lambda>h. h_state h = Clean) hs" by metis
  from catchup_ok [OF assms(1,3)] obtain human cs where
    "hunks_from_diff D (ep_base_text p) current = Some human"
    "changeset_from_hunks human (length (ep_base_text p)) = Some cs"
    "carries cs (ep_base_text p) current" by metis
  with hs show thesis
    by (intro that [of hs]) (auto simp: proposal_refresh_def rebase_hunks_def rebase_all [OF hs(2)])
qed

end

section \<open>A line diff\<close>

text \<open>
  The diff that finds the longest common prefix and the longest common suffix of the rest, and
  replaces what is between them.
\<close>

fun common_prefix :: "'a list \<Rightarrow> 'a list \<Rightarrow> nat" where
  "common_prefix (x # xs) (y # ys) = (if x = y then Suc (common_prefix xs ys) else 0)"
| "common_prefix _ _ = 0"

definition trim_diff :: line_diff where
  "trim_diff s t =
     (let ls = split_inclusive s; ns = split_inclusive t;
          p = common_prefix ls ns;
          q = common_prefix (rev (drop p ls)) (rev (drop p ns));
          i = length ls - q; j = length ns - q
      in (if p = 0 then [] else [\<lparr>op_tag = Equal, op_old = (0, p), op_new = (0, p)\<rparr>])
         @ (if i = p \<and> j = p then []
            else [\<lparr>op_tag = (if j = p then Deleted else if i = p then Inserted else Replaced),
                   op_old = (p, i), op_new = (p, j)\<rparr>])
         @ (if q = 0 then [] else [\<lparr>op_tag = Equal, op_old = (i, length ls), op_new = (j, length ns)\<rparr>]))"

lemma common_prefix_ok:
  "common_prefix xs ys \<le> length xs" "common_prefix xs ys \<le> length ys"
  "take (common_prefix xs ys) xs = take (common_prefix xs ys) ys"
  by (induction xs ys rule: common_prefix.induct) auto

lemma slice_to_end: "slice i (length xs) xs = drop i xs"
  by (simp add: slice_def)

lemma trim_diff_covers: "diff_covers (trim_diff s t) (split_inclusive s) (split_inclusive t) 0 0"
proof -
  define ls ns where "ls = split_inclusive s" "ns = split_inclusive t"
  define p q where "p = common_prefix ls ns" "q = common_prefix (rev (drop p ls)) (rev (drop p ns))"
  have p: "p \<le> length ls" "p \<le> length ns" "take p ls = take p ns"
    unfolding p_q_def(1) by (rule common_prefix_ok)+
  have q: "q \<le> length ls - p" "q \<le> length ns - p"
    "take q (rev (drop p ls)) = take q (rev (drop p ns))"
    unfolding p_q_def(2)
    using common_prefix_ok [of "rev (drop p ls)" "rev (drop p ns)"] by simp_all
  have "drop (length ls - q) ls = drop (length ns - q) ns"
  proof -
    have "drop (length ls - q) ls = rev (take q (rev (drop p ls)))"
      using p q by (simp add: take_rev)
    also have "\<dots> = drop (length ns - q) ns" unfolding q(3) using p q by (simp add: take_rev)
    finally show ?thesis .
  qed
  then have "slice (length ls - q) (length ls) ls = slice (length ns - q) (length ns) ns"
    by (simp only: slice_to_end)
  moreover have "slice 0 p ls = slice 0 p ns" using p(3) by simp
  moreover define i j where "i = length ls - q" "j = length ns - q"
  moreover have "p \<le> i" "p \<le> j" "i \<le> length ls" "j \<le> length ns"
    "q = 0 \<longrightarrow> i = length ls \<and> j = length ns"
    using p(1,2) q(1,2) by (auto simp: i_j_def)
  ultimately show ?thesis
    unfolding trim_diff_def Let_def ls_ns_def [symmetric] p_q_def [symmetric] i_j_def [symmetric]
    by (cases "p = 0"; cases "q = 0"; cases "i = p \<and> j = p") (auto simp: slice_to_end)
qed

interpretation trim: line_differ trim_diff
  by unfold_locales (rule trim_diff_covers)

text \<open>The text a changeset inserts exactly at a position of the old text.\<close>

fun inserted_at :: "operation list \<Rightarrow> nat \<Rightarrow> utext" where
  "inserted_at [] p = []"
| "inserted_at (Retain n # ops) p = (if p < n then [] else inserted_at ops (p - n))"
| "inserted_at (Delete n # ops) p = (if p < n then [] else inserted_at ops (p - n))"
| "inserted_at (Insert s # ops) p = (if p = 0 then s else inserted_at ops p)"

lemma inserted_at_denote:
  "in_len ops \<le> length t \<Longrightarrow>
   map_rel ops p After = map_rel ops p Before + length (inserted_at ops p)
     \<and> take (length (inserted_at ops p)) (drop (map_rel ops p Before) (denote ops t)) = inserted_at ops p"
proof (induction ops arbitrary: p t)
  case (Cons op ops)
  show ?case
  proof (cases op)
    case (Retain n)
    with Cons.prems Cons.IH [of "drop n t" "p - n"] show ?thesis by auto
  next
    case (Delete n)
    with Cons.prems Cons.IH [of "drop n t" "p - n"] show ?thesis by auto
  next
    case (Insert s)
    with Cons.prems Cons.IH [of t p] show ?thesis by auto
  qed
qed simp

lemma identity_positions:
  "list_all is_retain ops \<Longrightarrow> map_rel ops p a = p \<and> inserted_at ops p = []"
proof (induction ops arbitrary: p)
  case (Cons op ops)
  then show ?case by (cases op) auto
qed simp

text \<open>
  What rebasing over a changeset makes of a clean hunk: the replacement stays and both ends move with
  the text.  The range of one that replaces text reads, in the current text, as the very text it was
  written against, followed by what the changeset inserts exactly at its end.
\<close>

definition carried_hunk :: "utext \<Rightarrow> utext \<Rightarrow> change_set \<Rightarrow> hunk \<Rightarrow> hunk \<Rightarrow> bool" where
  "carried_hunk base current cs h h' \<longleftrightarrow> h_text h' = h_text h
    \<and> h_start h' = cs_map_pos cs (h_start h) After \<and> h_end h' = cs_map_pos cs (h_end h) After
    \<and> (h_start h < h_end h \<longrightarrow>
        slice (h_start h') (h_end h') current
          = slice (h_start h) (h_end h) base @ inserted_at (cs_ops cs) (h_end h))"

lemma carried_hunk_same: "cs_is_identity cs \<Longrightarrow> carried_hunk t t cs h h"
  by (simp add: carried_hunk_def cs_is_identity_def cs_map_pos_rel identity_positions)

lemma carried_hunk_rebased:
  assumes "carries cs base current" "hunks_in (length base) 0 hs" "h \<in> set hs"
    "h_state (rebased human cs h) = Clean"
  shows "carried_hunk base current cs h (rebased human cs h)"
proof -
  have wf: "wf_cs cs" "length base = cs_len_before cs" "denote (cs_ops cs) base = current"
    using assms(1) by (auto simp: carries_def)
  note c = rebased_clean [OF assms(4)]
  let ?s = "cs_map_pos cs (h_start h) After" and ?e = "cs_map_pos cs (h_end h) After"
    and ?b = "cs_map_pos cs (h_end h) Before" and ?ins = "inserted_at (cs_ops cs) (h_end h)"
  have "slice ?s ?e current = slice (h_start h) (h_end h) base @ ?ins" if "h_start h < h_end h"
  proof -
    have "h_end h \<le> cs_len_before cs" using hunks_in_ordered [OF assms(2,3)] wf(2) by simp
    note u = untouched_slice [OF wf(1,2) that this c(4)]
    have i: "?e = ?b + length ?ins" "take (length ?ins) (drop ?b current) = ?ins"
      using inserted_at_denote [of "cs_ops cs" base "h_end h"] wf by (simp_all add: cs_map_pos_rel wf_cs_def)
    have "slice ?s ?e current = slice ?s ?b current @ slice ?b ?e current"
      using u i(1) by (intro slice_append_slice [symmetric]) auto
    also have "slice ?b ?e current = ?ins" using i by (simp add: slice_drop)
    finally show ?thesis using u [THEN conjunct1] wf(3) by metis
  qed
  with c show ?thesis unfolding carried_hunk_def by simp
qed

lemma rebased_in_text:
  assumes "carries cs base current" "hunks_in (length base) 0 hs"
  shows "hunks_in (length current) 0
    (filter (\<lambda>h. is_applicable (h_state h)) (map (rebased human cs) hs))"
proof -
  have "wf_cs cs" "cs_len_before cs = length base" "cs_len_after cs = length current"
    using assms(1) carries_length by (auto simp: carries_def)
  from rebased_in [OF this(1), of 0 hs human] this(2,3) assms(2)
  have "hunks_in (length current) (cs_map_pos cs 0 After)
    (filter (\<lambda>h. is_applicable (h_state h)) (map (rebased human cs) hs))" by simp
  then show ?thesis
    by (cases "filter (\<lambda>h. is_applicable (h_state h)) (map (rebased human cs) hs)") auto
qed

context line_differ begin

lemma refresh_spec:
  assumes "carriage_return \<notin> set (ep_base_text p)" "carriage_return \<notin> set (ep_proposed_text p)"
    "carriage_return \<notin> set current"
  obtains hs hs' cs where "hunks_from_diff D (ep_base_text p) (ep_proposed_text p) = Some hs"
    "proposal_refresh D p current = Some (p\<lparr>ep_hunks := hs'\<rparr>)"
    "carries cs (ep_base_text p) current" "ep_base_text p = current \<longrightarrow> cs_is_identity cs"
    "ep_base_text p \<noteq> current \<longrightarrow> (\<exists>human. hunks_from_diff D (ep_base_text p) current = Some human
       \<and> changeset_from_hunks human (length (ep_base_text p)) = Some cs)"
    "hunks_in (length current) 0 (filter (\<lambda>h. is_applicable (h_state h)) hs')"
    "list_all2 (\<lambda>h h'. is_applicable (h_state h') \<longrightarrow> carried_hunk (ep_base_text p) current cs h h') hs hs'"
proof -
  from refresh_ok [OF assms] obtain hs where
    hs: "hunks_from_diff D (ep_base_text p) (ep_proposed_text p) = Some hs"
    "hunks_in (length (ep_base_text p)) 0 hs" "list_all (\<lambda>h. h_state h = Clean) hs"
    "ep_base_text p = current \<longrightarrow> proposal_refresh D p current = Some (p\<lparr>ep_hunks := hs\<rparr>)"
    "ep_base_text p \<noteq> current \<longrightarrow> (\<exists>human cs. hunks_from_diff D (ep_base_text p) current = Some human
       \<and> changeset_from_hunks human (length (ep_base_text p)) = Some cs
       \<and> carries cs (ep_base_text p) current
       \<and> proposal_refresh D p current = Some (p\<lparr>ep_hunks := map (rebased human cs) hs\<rparr>))"
    by metis
  show thesis
  proof (cases "ep_base_text p = current")
    case True
    obtain cs where cs: "wf_cs cs" "cs_len_before cs = length current" "cs_is_identity cs"
      using cs_identity_ok [of "length current"] by metis
    then have "carries cs current current"
      using denote_identity [of "cs_ops cs" current] by (simp add: carries_def wf_cs_def cs_is_identity_def)
    moreover have "filter (\<lambda>h. is_applicable (h_state h)) hs = hs"
      using hs(3) by (induction hs) auto
    moreover have "list_all2 (\<lambda>h h'. is_applicable (h_state h') \<longrightarrow> carried_hunk current current cs h h') hs hs"
      using carried_hunk_same [OF cs(3)] by (simp add: list_all2_same)
    ultimately show thesis using that [of hs hs cs] hs True cs(3) by simp
  next
    case False
    with hs(5) obtain human cs where h: "carries cs (ep_base_text p) current"
      "hunks_from_diff D (ep_base_text p) current = Some human"
      "changeset_from_hunks human (length (ep_base_text p)) = Some cs"
      "proposal_refresh D p current = Some (p\<lparr>ep_hunks := map (rebased human cs) hs\<rparr>)"
      by blast
    have "carried_hunk (ep_base_text p) current cs g (rebased human cs g)"
      if kept: "g \<in> set hs" "is_applicable (h_state (rebased human cs g))" for g
    proof -
      have "h_state (rebased human cs g) = Clean"
        using kept(2) by (cases "h_state (rebased human cs g)") auto
      from carried_hunk_rebased [OF h(1) hs(2) kept(1) this] show ?thesis .
    qed
    then have "list_all2 (\<lambda>h h'. is_applicable (h_state h') \<longrightarrow> carried_hunk (ep_base_text p) current cs h h')
        hs (map (rebased human cs) hs)"
      by (simp add: list_all2_map2 list_all2_same)
    with that [of hs "map (rebased human cs) hs" cs] hs(1) h rebased_in_text [OF h(1) hs(2)] False
    show thesis by simp
  qed
qed

end

text \<open>A changeset that carries one text to another applies.\<close>

lemma carries_list:
  assumes "carries cs t u"
  shows "cs_apply list_rope cs t = Some u"
proof -
  have "carries cs (rope_chars list_rope t) u" using assms by simp
  from list_rope.apply_carries [OF this] show ?thesis by auto
qed

section \<open>The properties\<close>

text \<open>
  C6. As long as neither text holds a carriage return, the hunks derived from a whole-file diff lie
  in the old text in order and without overlap, and accepting all of them, as one changeset, turns
  the old text into exactly the new one; neither deriving nor applying them panics.  The condition
  is needed: the diff ends a line at a carriage return that stands alone, the code that reads its
  line numbers back only at a newline, so a diff of such a text can name a line the code has not
  counted.
\<close>

theorem hunks_rebuild_proposed:
  assumes "line_differ D" and "carriage_return \<notin> set old" and "carriage_return \<notin> set new"
  shows "\<exists>hs cs. hunks_from_diff D old new = Some hs \<and> hunks_in (length old) 0 hs
    \<and> changeset_from_hunks hs (length old) = Some cs
    \<and> cs_apply list_rope cs old = Some new"
proof -
  from line_differ.hunks_from_diff_ok [OF assms] obtain hs where
    hs: "hunks_from_diff D old new = Some hs" "hunks_in (length old) 0 hs"
    "splice_hunks hs 0 old = new" by metis
  from changeset_from_hunks_ok [OF hs(2)] obtain cs where
    cs: "changeset_from_hunks hs (length old) = Some cs" "wf_cs cs" "cs_len_before cs = length old"
    "\<And>t. length t = length old \<Longrightarrow> denote (cs_ops cs) t = splice_hunks hs 0 t"
    by metis
  have "carries cs old new" using cs hs(3) by (simp add: carries_def)
  from carries_list [OF this] have "cs_apply list_rope cs old = Some new" .
  with hs cs show ?thesis by blast
qed

lemma hunks_rebuild_proposed_witness:
  "\<exists>hs. hunks_from_diff trim_diff [97, 10, 98, 10] [97, 10, 99, 10] = Some hs
     \<and> hunks_in 4 0 hs"
  using hunks_rebuild_proposed [OF trim.line_differ_axioms, of "[97, 10, 98, 10]" "[97, 10, 99, 10]"]
  by (auto simp: eval_nat_numeral)

text \<open>
  C5. As long as the base, the proposed and the current text hold no carriage return, refreshing a
  proposal against the document as it stands never panics and keeps its immutable texts.  Its hunks
  are those of the agent's diff, carried over the human's edit: the changeset the diff of base and
  current gives, which takes the one to the other.  The range of a clean hunk that replaces text
  reads, in the current document, as the very text the agent saw, followed only by what that edit
  inserted exactly at its end (which accepting the hunk then replaces: see C38).  The clean
  hunks lie in the document in order, so accepting them all is one changeset that applies.
\<close>

theorem refreshed_hunks_apply:
  assumes "line_differ D" and "carriage_return \<notin> set (ep_base_text p)"
    and "carriage_return \<notin> set (ep_proposed_text p)" and "carriage_return \<notin> set current"
  shows "\<exists>p' human accepted hs. proposal_refresh D p current = Some p'
    \<and> ep_base_text p' = ep_base_text p \<and> ep_proposed_text p' = ep_proposed_text p
    \<and> hunks_from_diff D (ep_base_text p) (ep_proposed_text p) = Some hs
    \<and> carries human (ep_base_text p) current
    \<and> (if ep_base_text p = current then cs_is_identity human
       else \<exists>gs. hunks_from_diff D (ep_base_text p) current = Some gs
              \<and> changeset_from_hunks gs (length (ep_base_text p)) = Some human)
    \<and> list_all2 (\<lambda>h h'. is_applicable (h_state h') \<longrightarrow> carried_hunk (ep_base_text p) current human h h')
         hs (ep_hunks p')
    \<and> hunks_in (length current) 0 (applicable p')
    \<and> changeset_from_hunks (applicable p') (length current) = Some accepted
    \<and> cs_apply list_rope accepted current = Some (splice_hunks (applicable p') 0 current)"
proof -
  from line_differ.refresh_spec [OF assms] obtain hs hs' human where
    p': "hunks_from_diff D (ep_base_text p) (ep_proposed_text p) = Some hs"
    "proposal_refresh D p current = Some (p\<lparr>ep_hunks := hs'\<rparr>)"
    "carries human (ep_base_text p) current" "ep_base_text p = current \<longrightarrow> cs_is_identity human"
    "ep_base_text p \<noteq> current \<longrightarrow> (\<exists>gs. hunks_from_diff D (ep_base_text p) current = Some gs
       \<and> changeset_from_hunks gs (length (ep_base_text p)) = Some human)"
    "hunks_in (length current) 0 (filter (\<lambda>h. is_applicable (h_state h)) hs')"
    "list_all2 (\<lambda>h h'. is_applicable (h_state h') \<longrightarrow> carried_hunk (ep_base_text p) current human h h') hs hs'"
    by blast
  have in_text: "hunks_in (length current) 0 (applicable (p\<lparr>ep_hunks := hs'\<rparr>))"
    using p'(6) by (simp add: applicable_def)
  from changeset_from_hunks_ok [OF in_text] obtain cs where
    cs: "changeset_from_hunks (applicable (p\<lparr>ep_hunks := hs'\<rparr>)) (length current) = Some cs" "wf_cs cs"
    "cs_len_before cs = length current" "\<And>t. length t = length current \<Longrightarrow>
       denote (cs_ops cs) t = splice_hunks (applicable (p\<lparr>ep_hunks := hs'\<rparr>)) 0 t"
    by metis
  then have "carries cs current (splice_hunks (applicable (p\<lparr>ep_hunks := hs'\<rparr>)) 0 current)"
    by (simp add: carries_def)
  from carries_list [OF this]
  have "cs_apply list_rope cs current = Some (splice_hunks (applicable (p\<lparr>ep_hunks := hs'\<rparr>)) 0 current)" .
  then show ?thesis using p'(1-5,7) in_text cs(1)
    by (intro exI [of _ "p\<lparr>ep_hunks := hs'\<rparr>"] exI [of _ human] exI [of _ cs] exI [of _ hs]) simp
qed

text \<open>The agent replaces the second of three lines.\<close>

definition sample_proposal :: edit_proposal where
  "sample_proposal = \<lparr>ep_id = 1, ep_path = [RootDir, Normal [97]], ep_base_version = None,
     ep_base_text = ustr ''one'' @ [10] @ ustr ''two'' @ [10] @ ustr ''three'' @ [10],
     ep_proposed_text = ustr ''one'' @ [10] @ ustr ''TWO'' @ [10] @ ustr ''three'' @ [10],
     ep_hunks = []\<rparr>"

lemma sample_proposal_newlines:
  "carriage_return \<notin> set (ep_base_text sample_proposal)"
  "carriage_return \<notin> set (ep_proposed_text sample_proposal)"
  by (simp_all add: sample_proposal_def ustr_def)

lemma refreshed_hunks_apply_witness:
  "\<exists>p' cs. proposal_refresh trim_diff sample_proposal [111, 110, 101, 10] = Some p'
     \<and> changeset_from_hunks (applicable p') (length [111, 110, 101, 10 :: uchar]) = Some cs"
proof -
  have "carriage_return \<notin> set [111, 110, 101, 10 :: uchar]" by simp
  from refreshed_hunks_apply [OF trim.line_differ_axioms sample_proposal_newlines this]
  show ?thesis by blast
qed




text \<open>
  A fragment the agent wants to edit is placed only when it is certain where: the whole file is
  replaced by the new text, or the fragment stands at one place, up to occurrences that overlap it,
  and just that place is rewritten; a fragment that is not there, is empty or stands at several
  places is refused.
\<close>

theorem fragment_placed_once:
  "case whole_file_from_permission_diff current old new of
     Inr t \<Rightarrow> (old = current \<and> t = new)
       \<or> (\<exists>a b. old \<noteq> [] \<and> current = a @ old @ b \<and> t = a @ new @ b
            \<and> (\<forall>i. occurs old current i \<longrightarrow> length a \<le> i \<and> i < length a + length old))
   | Inl anchor_failure.NotFound \<Rightarrow> old \<noteq> current \<and> (\<forall>i. \<not> occurs old current i)
   | Inl Ambiguous \<Rightarrow> old \<noteq> current
       \<and> (old = [] \<or> (\<exists>i j. occurs old current i \<and> occurs old current j \<and> i + length old \<le> j))"
proof (cases "old = current \<or> old = []")
  case True
  then show ?thesis by (auto simp: whole_file_from_permission_diff_def)
next
  case False
  then have "old \<noteq> []" by simp
  note spec = match_starts_spec [OF this, of current 0]
  show ?thesis
  proof (cases "match_starts old current 0")
    case Nil
    with False spec show ?thesis by (auto simp: whole_file_from_permission_diff_def)
  next
    case (Cons x xs)
    show ?thesis
    proof (cases xs)
      case Nil
      with Cons spec have x: "occurs old current x"
        "\<forall>i. occurs old current i \<longrightarrow> x \<le> i \<and> i < x + length old" by auto
      have "x + length old \<le> length current" using occurs_length [OF x(1) \<open>old \<noteq> []\<close>] .
      moreover have "current = take x current @ old @ drop (x + length old) current"
        using x(1) unfolding occurs_def by (metis append_take_drop_id drop_drop add.commute)
      ultimately have "\<exists>a b. old \<noteq> [] \<and> current = a @ old @ b
          \<and> take x current @ new @ drop (x + length old) current = a @ new @ b
          \<and> (\<forall>i. occurs old current i \<longrightarrow> length a \<le> i \<and> i < length a + length old)"
        using x(2) \<open>old \<noteq> []\<close>
        by (intro exI [of _ "take x current"] exI [of _ "drop (x + length old) current"]) auto
      with False Cons Nil show ?thesis by (simp add: whole_file_from_permission_diff_def)
    next
      case (Cons y ys)
      with \<open>match_starts old current 0 = x # xs\<close> spec False show ?thesis
        by (auto simp: whole_file_from_permission_diff_def)
    qed
  qed
qed

lemma fragment_placed_once_witness:
  "case whole_file_from_permission_diff [97, 98, 97] [98] [99] of
     Inl _ \<Rightarrow> True | Inr t \<Rightarrow> t = [97, 99, 97]"
proof -
  have "whole_file_from_permission_diff [97, 98, 97] [98] [99] = Inr [97, 99, 97]"
    by (simp add: whole_file_from_permission_diff_def match_starts.simps)
  with fragment_placed_once [of "[97, 98, 97]" "[98]" "[99]"] show ?thesis by simp
qed

text \<open>
  Occurrences that overlap are counted once: two closing lines are placed in a run of three
  although they stand there twice.
\<close>

theorem overlapping_fragment_not_ambiguous:
  "whole_file_from_permission_diff [125, 10, 125, 10, 125, 10] [125, 10, 125, 10] s
     = Inr (s @ [125, 10])
   \<and> occurs [125 :: uchar, 10, 125, 10] [125, 10, 125, 10, 125, 10] 0
   \<and> occurs [125 :: uchar, 10, 125, 10] [125, 10, 125, 10, 125, 10] 2"
  by (simp add: whole_file_from_permission_diff_def match_starts.simps occurs_def eval_nat_numeral)

end
