(* ===== verification/File_Tree.thy ===== *)
theory File_Tree
  imports Filesystem "HOL-Library.AList" "HOL-Library.Multiset"
begin

text \<open>
  The file explorer's tree (\<open>crates/filesystem/src/tree.rs\<close>): an append-only arena of nodes that a
  directory listing is reconciled against.  \<open>NodeId\<close> is an index of the arena; a name is its
  sequence of chars.  Loops that walk the arena (\<open>kill_subtree\<close>, \<open>nearest_live_ancestor\<close>) are partial
  functions, so that a walk that never ends is \<open>None\<close>; \<open>push_rows\<close> recurses with a bound on its
  depth, the size of the arena.  The claims about the tree are in \<open>File_Tree_Safety\<close>.
\<close>

type_synonym node_id = nat

datatype child_state = Unloaded | Loading | Loaded "node_id list" | LoadError fs_error

record tree_node =
  tn_id :: node_id
  tn_parent :: "node_id option"
  tn_name :: utext
  tn_path :: path
  tn_kind :: entry_kind
  tn_expanded :: bool
  tn_children :: child_state
  tn_alive :: bool

definition is_expandable :: "tree_node \<Rightarrow> bool" where
  "is_expandable n \<longleftrightarrow> tn_kind n = Dir"

text \<open>How \<open>FsError\<close> and a path are displayed.\<close>

fun path_components_display :: "path \<Rightarrow> utext" where
  "path_components_display [] = []"
| "path_components_display [c] =
     (case c of RootDir \<Rightarrow> ustr ''/'' | CurDir \<Rightarrow> ustr ''.'' | ParentDir \<Rightarrow> ustr ''..'' | Normal s \<Rightarrow> s)"
| "path_components_display (c # cs) =
     (case c of RootDir \<Rightarrow> ustr ''/'' | CurDir \<Rightarrow> ustr ''./'' | ParentDir \<Rightarrow> ustr ''../''
        | Normal s \<Rightarrow> s @ ustr ''/'') @ path_components_display cs"

fun fs_error_fmt :: "fs_error \<Rightarrow> utext" where
  "fs_error_fmt (NotFound p) = ustr ''not found: '' @ path_components_display p"
| "fs_error_fmt (PermissionDenied p) = ustr ''permission denied: '' @ path_components_display p"
| "fs_error_fmt (NotADirectory p) = ustr ''not a directory: '' @ path_components_display p"
| "fs_error_fmt (AlreadyExists p) = ustr ''already exists: '' @ path_components_display p"
| "fs_error_fmt (Other p m) = path_components_display p @ ustr '': '' @ ustr m"

record tree_row =
  r_id :: node_id
  r_depth :: nat
  r_name :: utext
  r_kind :: entry_kind
  r_expanded :: bool
  r_is_expandable :: bool
  r_error :: "utext option"
  r_loading :: bool

record file_tree =
  ft_nodes :: "tree_node list"
  ft_root :: node_id
  ft_selected :: node_id

definition tree_new :: "path \<Rightarrow> utext \<Rightarrow> file_tree" where
  "tree_new root_path display_name =
     \<lparr>ft_nodes = [\<lparr>tn_id = 0, tn_parent = None, tn_name = display_name, tn_path = root_path,
        tn_kind = Dir, tn_expanded = False, tn_children = Unloaded, tn_alive = True\<rparr>],
      ft_root = 0, ft_selected = 0\<rparr>"

definition live_node :: "tree_node list \<Rightarrow> node_id \<Rightarrow> tree_node option" where
  "live_node ns i = (if i < length ns \<and> tn_alive (ns ! i) then Some (ns ! i) else None)"

definition tree_node_of :: "file_tree \<Rightarrow> node_id \<Rightarrow> tree_node option" where
  "tree_node_of t i = live_node (ft_nodes t) i"

definition update_node :: "(tree_node \<Rightarrow> tree_node) \<Rightarrow> node_id \<Rightarrow> file_tree \<Rightarrow> file_tree" where
  "update_node f i t =
     (case tree_node_of t i of None \<Rightarrow> t
      | Some n \<Rightarrow> t\<lparr>ft_nodes := (ft_nodes t)[i := f n]\<rparr>)"

definition path_of :: "file_tree \<Rightarrow> node_id \<Rightarrow> path option" where
  "path_of t i = map_option tn_path (tree_node_of t i)"

definition begin_load :: "node_id \<Rightarrow> file_tree \<Rightarrow> path option \<times> file_tree" where
  "begin_load i t =
     (case tree_node_of t i of None \<Rightarrow> (None, t)
      | Some n \<Rightarrow>
          if tn_kind n \<noteq> Dir then (None, t)
          else (case tn_children n of
              Unloaded \<Rightarrow> (Some (tn_path n), update_node (\<lambda>n. n\<lparr>tn_children := Loading\<rparr>) i t)
            | LoadError _ \<Rightarrow> (Some (tn_path n), update_node (\<lambda>n. n\<lparr>tn_children := Loading\<rparr>) i t)
            | _ \<Rightarrow> (None, t)))"

definition tree_expand :: "node_id \<Rightarrow> file_tree \<Rightarrow> path option \<times> file_tree" where
  "tree_expand i t =
     (case tree_node_of t i of None \<Rightarrow> (None, t)
      | Some n \<Rightarrow>
          if tn_kind n \<noteq> Dir then (None, t)
          else begin_load i (update_node (\<lambda>n. n\<lparr>tn_expanded := True\<rparr>) i t))"

definition tree_collapse :: "node_id \<Rightarrow> file_tree \<Rightarrow> file_tree" where
  "tree_collapse i t = update_node (\<lambda>n. n\<lparr>tn_expanded := False\<rparr>) i t"

definition tree_toggle :: "node_id \<Rightarrow> file_tree \<Rightarrow> path option \<times> file_tree" where
  "tree_toggle i t =
     (case tree_node_of t i of None \<Rightarrow> (None, t)
      | Some n \<Rightarrow>
          if is_expandable n \<and> tn_expanded n then (None, tree_collapse i t)
          else if is_expandable n then tree_expand i t
          else (None, t))"

definition set_error :: "node_id \<Rightarrow> fs_error \<Rightarrow> file_tree \<Rightarrow> file_tree" where
  "set_error i e t = update_node (\<lambda>n. n\<lparr>tn_children := LoadError e\<rparr>) i t"

section \<open>Absorbing a listing\<close>

definition push_node :: "node_id option \<Rightarrow> dir_entry_info \<Rightarrow> tree_node list \<Rightarrow> node_id \<times> tree_node list" where
  "push_node parent e ns =
     (length ns, ns @ [\<lparr>tn_id = length ns, tn_parent = parent, tn_name = de_name e,
        tn_path = de_path e, tn_kind = de_kind e, tn_expanded = False, tn_children = Unloaded,
        tn_alive = True\<rparr>])"

text \<open>The stack's top is the head: \<open>extend\<close> pushes the children in order, \<open>pop\<close> takes the last.\<close>

partial_function (option) kill_loop :: "node_id list \<Rightarrow> tree_node list \<Rightarrow> tree_node list option" where
  "kill_loop stack ns =
     (case stack of [] \<Rightarrow> Some ns
      | cur # rest \<Rightarrow>
          if cur < length ns
          then kill_loop
            ((case tn_children (ns ! cur) of Loaded cs \<Rightarrow> rev cs | _ \<Rightarrow> []) @ rest)
            (ns[cur := (ns ! cur)\<lparr>tn_alive := False\<rparr>])
          else kill_loop rest ns)"

declare kill_loop.simps [code]

definition kill_subtree :: "node_id \<Rightarrow> tree_node list \<Rightarrow> tree_node list option" where
  "kill_subtree i ns = kill_loop [i] ns"

partial_function (option) ancestor_loop ::
  "tree_node list \<Rightarrow> node_id \<Rightarrow> node_id option \<Rightarrow> node_id option" where
  "ancestor_loop ns root cur =
     (case cur of None \<Rightarrow> Some root
      | Some i \<Rightarrow>
          if live_node ns i \<noteq> None then Some i
          else ancestor_loop ns root (if i < length ns then tn_parent (ns ! i) else None))"

declare ancestor_loop.simps [code]

definition nearest_live_ancestor :: "file_tree \<Rightarrow> node_id \<Rightarrow> node_id option" where
  "nearest_live_ancestor t i = ancestor_loop (ft_nodes t) (ft_root t) (Some i)"

text \<open>\<open>existing\<close>: the live children by name, later ones replacing earlier ones of the same name.\<close>

definition existing_children :: "tree_node list \<Rightarrow> tree_node \<Rightarrow> (utext \<times> node_id) list" where
  "existing_children ns parent =
     (case tn_children parent of
        Loaded ids \<Rightarrow>
          fold (\<lambda>(k, c). AList.update k c)
            (List.map_filter (\<lambda>c. map_option (\<lambda>n. (tn_name n, c)) (live_node ns c)) ids) []
      | _ \<Rightarrow> [])"

fun absorb_entries ::
  "node_id \<Rightarrow> (utext \<times> node_id) list \<Rightarrow> dir_entry_info list \<Rightarrow>
   tree_node list \<times> node_id list \<times> node_id list \<Rightarrow> tree_node list \<times> node_id list \<times> node_id list"
where
  "absorb_entries i ex [] (ns, kept, new) = (ns, kept, new)"
| "absorb_entries i ex (e # es) (ns, kept, new) =
     (case map_of ex (de_name e) of
        Some c \<Rightarrow>
          if map_option tn_kind (live_node ns c) = Some (de_kind e)
          then absorb_entries i ex es
            (ns[c := (ns ! c)\<lparr>tn_path := de_path e\<rparr>], kept @ [c], new @ [c])
          else (case push_node (Some i) e ns of (c', ns') \<Rightarrow>
            absorb_entries i ex es (ns', kept, new @ [c']))
      | None \<Rightarrow> (case push_node (Some i) e ns of (c', ns') \<Rightarrow>
            absorb_entries i ex es (ns', kept, new @ [c'])))"

text \<open>The hash map's order of iteration does not matter here: killing subtrees commutes.\<close>

fun kill_vanished :: "node_id list \<Rightarrow> (utext \<times> node_id) list \<Rightarrow> tree_node list \<Rightarrow> tree_node list option" where
  "kill_vanished kept [] ns = Some ns"
| "kill_vanished kept ((_, c) # ex) ns =
     (if c \<notin> set kept then do { ns' \<leftarrow> kill_subtree c ns; kill_vanished kept ex ns' }
      else kill_vanished kept ex ns)"

definition set_children :: "node_id \<Rightarrow> dir_entry_info list \<Rightarrow> file_tree \<Rightarrow> file_tree option" where
  "set_children i entries t =
     (case tree_node_of t i of None \<Rightarrow> Some t
      | Some parent \<Rightarrow>
          let ex = existing_children (ft_nodes t) parent in
          case absorb_entries i ex entries (ft_nodes t, [], []) of (ns, kept, new) \<Rightarrow>
          do { ns' \<leftarrow> kill_vanished kept ex ns;
               let t' = update_node (\<lambda>n. n\<lparr>tn_children := Loaded new\<rparr>) i (t\<lparr>ft_nodes := ns'\<rparr>) in
               if tree_node_of t' (ft_selected t') = None
               then do { s \<leftarrow> nearest_live_ancestor t' i; Some (t'\<lparr>ft_selected := s\<rparr>) }
               else Some t' })"

section \<open>Rows\<close>

definition row_of :: "node_id \<Rightarrow> nat \<Rightarrow> tree_node \<Rightarrow> tree_row" where
  "row_of i depth n =
     \<lparr>r_id = i, r_depth = depth, r_name = tn_name n, r_kind = tn_kind n,
      r_expanded = tn_expanded n, r_is_expandable = is_expandable n,
      r_error = (case tn_children n of LoadError e \<Rightarrow> Some (fs_error_fmt e) | _ \<Rightarrow> None),
      r_loading = (tn_children n = Loading)\<rparr>"

text \<open>The first argument bounds the depth of the recursion; \<open>None\<close> says that it was exceeded.\<close>

fun push_rows :: "nat \<Rightarrow> tree_node list \<Rightarrow> node_id \<Rightarrow> nat \<Rightarrow> tree_row list option" where
  "push_rows 0 ns i depth = None"
| "push_rows (Suc k) ns i depth =
     (case live_node ns i of None \<Rightarrow> Some []
      | Some n \<Rightarrow>
          if \<not> tn_expanded n then Some [row_of i depth n]
          else (case tn_children n of
              Loaded cs \<Rightarrow>
                do { rss \<leftarrow> those (map (\<lambda>c. push_rows k ns c (depth + 1)) cs);
                     Some (row_of i depth n # concat rss) }
            | _ \<Rightarrow> Some [row_of i depth n]))"

definition visible_rows :: "file_tree \<Rightarrow> tree_row list option" where
  "visible_rows t = push_rows (length (ft_nodes t)) (ft_nodes t) (ft_root t) 0"

section \<open>Finding what to read again\<close>

definition find_by_path :: "file_tree \<Rightarrow> path \<Rightarrow> node_id option" where
  "find_by_path t p = map_option tn_id (find (\<lambda>n. tn_alive n \<and> tn_path n = p) (ft_nodes t))"

definition is_loaded_dir :: "file_tree \<Rightarrow> node_id \<Rightarrow> bool" where
  "is_loaded_dir t i =
     (case tree_node_of t i of None \<Rightarrow> False
      | Some n \<Rightarrow> (case tn_children n of Loaded _ \<Rightarrow> True | _ \<Rightarrow> False))"

definition keep_if :: "('a \<Rightarrow> bool) \<Rightarrow> 'a option \<Rightarrow> 'a option" where
  "keep_if P x = (case x of Some a \<Rightarrow> if P a then Some a else None | None \<Rightarrow> None)"

definition refresh_candidate :: "file_tree \<Rightarrow> path \<Rightarrow> node_id option" where
  "refresh_candidate t p =
     keep_if (is_loaded_dir t)
       (case keep_if (is_loaded_dir t) (find_by_path t p) of
          Some i \<Rightarrow> Some i
        | None \<Rightarrow> Option.bind (path_parent p) (find_by_path t))"

fun refresh_loop :: "file_tree \<Rightarrow> path list \<Rightarrow> node_id list \<Rightarrow> node_id list" where
  "refresh_loop t [] out = out"
| "refresh_loop t (p # ps) out =
     refresh_loop t ps
       (case refresh_candidate t p of
          Some i \<Rightarrow> if i \<in> set out then out else out @ [i]
        | None \<Rightarrow> out)"

definition dirs_to_refresh :: "file_tree \<Rightarrow> path list \<Rightarrow> node_id list" where
  "dirs_to_refresh t changed = refresh_loop t changed []"

definition loaded_directories :: "file_tree \<Rightarrow> (node_id \<times> path) list" where
  "loaded_directories t =
     map (\<lambda>n. (tn_id n, tn_path n))
       (filter (\<lambda>n. tn_alive n \<and> tn_kind n = Dir
          \<and> (case tn_children n of Loaded _ \<Rightarrow> True | _ \<Rightarrow> False)) (ft_nodes t))"

definition tree_refresh :: "node_id \<Rightarrow> file_tree \<Rightarrow> path option" where
  "tree_refresh i t = map_option tn_path (keep_if (\<lambda>n. tn_kind n = Dir) (tree_node_of t i))"

section \<open>Selection\<close>

definition tree_select :: "node_id \<Rightarrow> file_tree \<Rightarrow> file_tree" where
  "tree_select i t = (if tree_node_of t i \<noteq> None then t\<lparr>ft_selected := i\<rparr> else t)"

fun row_position :: "node_id \<Rightarrow> tree_row list \<Rightarrow> nat option" where
  "row_position i [] = None"
| "row_position i (r # rs) = (if r_id r = i then Some 0 else map_option Suc (row_position i rs))"

definition selected_row :: "file_tree \<Rightarrow> nat option" where
  "selected_row t = map_option (\<lambda>rows. case row_position (ft_selected t) rows of
     Some k \<Rightarrow> k | None \<Rightarrow> 0) (visible_rows t)"

definition move_selection :: "int \<Rightarrow> file_tree \<Rightarrow> file_tree option" where
  "move_selection delta t =
     do { rows \<leftarrow> visible_rows t;
          if rows = [] then Some t
          else (let cur = (case row_position (ft_selected t) rows of Some k \<Rightarrow> int k | None \<Rightarrow> 0);
                    next = nat (max 0 (min (cur + delta) (int (length rows) - 1))) in
                Some (t\<lparr>ft_selected := r_id (rows ! next)\<rparr>)) }"

definition select_next :: "file_tree \<Rightarrow> file_tree option" where
  "select_next t = move_selection 1 t"

definition select_prev :: "file_tree \<Rightarrow> file_tree option" where
  "select_prev t = move_selection (- 1) t"

definition collapse_or_parent :: "file_tree \<Rightarrow> file_tree" where
  "collapse_or_parent t =
     (case tree_node_of t (ft_selected t) of None \<Rightarrow> t
      | Some n \<Rightarrow>
          if is_expandable n \<and> tn_expanded n then tree_collapse (tn_id n) t
          else (case tn_parent n of Some p \<Rightarrow> t\<lparr>ft_selected := p\<rparr> | None \<Rightarrow> t))"

text \<open>What a client does with a tree.\<close>

datatype tree_op =
    BeginLoad node_id
  | ExpandNode node_id
  | CollapseNode node_id
  | ToggleNode node_id
  | ReadFailed node_id fs_error
  | ReadDone node_id "dir_entry_info list"
  | SelectNode node_id
  | SelectNext
  | SelectPrev
  | CollapseOrParent

fun tree_step :: "tree_op \<Rightarrow> file_tree \<Rightarrow> file_tree option" where
  "tree_step (BeginLoad i) t = Some (snd (begin_load i t))"
| "tree_step (ExpandNode i) t = Some (snd (tree_expand i t))"
| "tree_step (CollapseNode i) t = Some (tree_collapse i t)"
| "tree_step (ToggleNode i) t = Some (snd (tree_toggle i t))"
| "tree_step (ReadFailed i e) t = Some (set_error i e t)"
| "tree_step (ReadDone i es) t = set_children i es t"
| "tree_step (SelectNode i) t = Some (tree_select i t)"
| "tree_step SelectNext t = select_next t"
| "tree_step SelectPrev t = select_prev t"
| "tree_step CollapseOrParent t = Some (collapse_or_parent t)"

end
