(* ===== verification/File_Tree_Safety.thy ===== *)
theory File_Tree_Safety
  imports File_Tree
begin

text \<open>
  What the explorer's tree keeps true: \<open>arena_ok\<close> says that the live nodes of the arena form a tree
  whose edges are the loaded listings, with every parent in front of its children.  Every loop over
  the arena ends because of that order.  The law of every operation is \<open>tree_step_ok\<close>.
\<close>

section \<open>The arena as a forest\<close>

definition kids_of :: "tree_node \<Rightarrow> node_id list" where
  "kids_of n = (case tn_children n of Loaded cs \<Rightarrow> cs | _ \<Rightarrow> [])"

definition child_rel :: "tree_node list \<Rightarrow> (node_id \<times> node_id) set" where
  "child_rel ns = {(a, b). a < length ns \<and> b \<in> set (kids_of (ns ! a))}"

definition forward :: "tree_node list \<Rightarrow> bool" where
  "forward ns \<longleftrightarrow> (\<forall>i < length ns. \<forall>c \<in> set (kids_of (ns ! i)). i < c \<and> c < length ns)"

definition arena_ok :: "tree_node list \<Rightarrow> bool" where
  "arena_ok ns \<longleftrightarrow> ns \<noteq> [] \<and> tn_alive (ns ! 0) \<and> forward ns
     \<and> (\<forall>i < length ns. tn_id (ns ! i) = i)
     \<and> (\<forall>i < length ns. tn_alive (ns ! i) \<longrightarrow>
          distinct (map (\<lambda>c. tn_name (ns ! c)) (kids_of (ns ! i)))
          \<and> (\<forall>c \<in> set (kids_of (ns ! i)). tn_alive (ns ! c) \<and> tn_parent (ns ! c) = Some i))
     \<and> (\<forall>i < length ns. tn_alive (ns ! i) \<longrightarrow>
          (case tn_parent (ns ! i) of None \<Rightarrow> i = 0
           | Some p \<Rightarrow> p < i \<and> tn_alive (ns ! p) \<and> i \<in> set (kids_of (ns ! p))))"

definition tree_ok :: "file_tree \<Rightarrow> bool" where
  "tree_ok t \<longleftrightarrow> arena_ok (ft_nodes t) \<and> ft_root t = 0 \<and> tree_node_of t (ft_selected t) \<noteq> None"

text \<open>The fields the invariant looks at.\<close>

definition shape :: "tree_node \<Rightarrow> node_id \<times> node_id option \<times> utext \<times> bool \<times> node_id list" where
  "shape n = (tn_id n, tn_parent n, tn_name n, tn_alive n, kids_of n)"

lemma kids_of_simps [simp]:
  "kids_of (n\<lparr>tn_alive := b\<rparr>) = kids_of n" "kids_of (n\<lparr>tn_path := p\<rparr>) = kids_of n"
  "kids_of (n\<lparr>tn_expanded := b\<rparr>) = kids_of n" "kids_of (n\<lparr>tn_children := Loaded cs\<rparr>) = cs"
  "kids_of (n\<lparr>tn_children := Loading\<rparr>) = []" "kids_of (n\<lparr>tn_children := LoadError e\<rparr>) = []"
  by (simp_all add: kids_of_def)

lemma shape_fields:
  assumes "shape m = shape n"
  shows "tn_id m = tn_id n" "tn_parent m = tn_parent n" "tn_name m = tn_name n"
    "tn_alive m = tn_alive n" "kids_of m = kids_of n"
  using assms by (simp_all add: shape_def)

lemma forwardD:
  assumes "forward ns" "i < length ns" "c \<in> set (kids_of (ns ! i))"
  shows "i < c" "c < length ns"
  using assms unfolding forward_def by blast+

lemma kids_eq:
  assumes "map kids_of ns' = map kids_of ns"
  shows "length ns' = length ns" "i < length ns \<Longrightarrow> kids_of (ns' ! i) = kids_of (ns ! i)"
proof -
  show l: "length ns' = length ns" using assms by (rule map_eq_imp_length_eq)
  show "i < length ns \<Longrightarrow> kids_of (ns' ! i) = kids_of (ns ! i)"
    using arg_cong [OF assms, of "\<lambda>xs. xs ! i"] l by simp
qed

lemma child_rel_kids:
  assumes "map kids_of ns' = map kids_of ns"
  shows "child_rel ns' = child_rel ns"
  using kids_eq [OF assms] by (auto simp: child_rel_def)

lemma forward_kids:
  assumes "map kids_of ns' = map kids_of ns"
  shows "forward ns' = forward ns"
  unfolding forward_def kids_eq(1) [OF assms] by (rule all_cong) (simp add: kids_eq(2) [OF assms])

lemma arena_ok_shape:
  assumes "arena_ok ns" and same: "map shape ns' = map shape ns"
  shows "arena_ok ns'"
proof -
  have l: "length ns' = length ns" using same by (metis length_map)
  have "shape (ns' ! i) = shape (ns ! i)" if "i < length ns" for i
    using that l same by (metis nth_map)
  note f = shape_fields [OF this]
  have fw: "forward ns" using assms(1) by (simp add: arena_ok_def)
  moreover have "map kids_of ns' = map kids_of ns" using l f(5) by (simp add: list_eq_iff_nth_eq)
  ultimately have fw': "forward ns'" using forward_kids by blast
  have ne: "0 < length ns" using assms(1) by (simp add: arena_ok_def)
  have c: "tn_alive (ns' ! c) = tn_alive (ns ! c)" "tn_parent (ns' ! c) = tn_parent (ns ! c)"
    "tn_name (ns' ! c) = tn_name (ns ! c)" if "i < length ns" "c \<in> set (kids_of (ns ! i))" for i c
    using f(2,3,4) [OF forwardD(2) [OF fw that]] by simp_all
  have p: "case tn_parent (ns ! i) of None \<Rightarrow> i = 0
       | Some p \<Rightarrow> p < i \<and> tn_alive (ns' ! p) \<and> i \<in> set (kids_of (ns' ! p))"
    if "i < length ns" "tn_alive (ns ! i)" for i
  proof -
    have "case tn_parent (ns ! i) of None \<Rightarrow> i = 0
       | Some p \<Rightarrow> p < i \<and> tn_alive (ns ! p) \<and> i \<in> set (kids_of (ns ! p))"
      using assms(1) that by (simp add: arena_ok_def)
    then show ?thesis using that by (simp add: f split: option.splits)
  qed
  have m: "map (\<lambda>c. tn_name (ns' ! c)) (kids_of (ns ! i)) = map (\<lambda>c. tn_name (ns ! c)) (kids_of (ns ! i))"
    if "i < length ns" for i using c(3) [OF that] by simp
  have d: "distinct (map (\<lambda>c. tn_name (ns ! c)) (kids_of (ns ! i)))"
    "\<forall>c \<in> set (kids_of (ns ! i)). tn_alive (ns' ! c) \<and> tn_parent (ns' ! c) = Some i"
    if "i < length ns" "tn_alive (ns ! i)" for i
    using assms(1) that c(1,2) [OF that(1)] by (simp_all add: arena_ok_def)
  have "tn_alive (ns ! 0)" "\<forall>i < length ns. tn_id (ns ! i) = i" using assms(1) by (simp_all add: arena_ok_def)
  then show ?thesis
    unfolding arena_ok_def using fw' ne by (simp add: l f m d p flip: length_greater_0_conv)
qed

lemma update_node_shape:
  assumes "\<And>n. tree_node_of t i = Some n \<Longrightarrow> shape (f n) = shape n"
  shows "map shape (ft_nodes (update_node f i t)) = map shape (ft_nodes t)"
proof (cases "tree_node_of t i")
  case (Some n)
  then have i: "i < length (ft_nodes t)" "n = ft_nodes t ! i"
    by (auto simp: tree_node_of_def live_node_def split: if_splits)
  then show ?thesis
    using assms [OF Some] Some by (simp add: update_node_def map_update list_update_same_conv)
qed (simp add: update_node_def)

lemma update_node_fields [simp]:
  "ft_root (update_node f i t) = ft_root t" "ft_selected (update_node f i t) = ft_selected t"
  "length (ft_nodes (update_node f i t)) = length (ft_nodes t)"
  by (auto simp: update_node_def split: option.splits)

lemma live_node_shape:
  assumes "map shape ns' = map shape ns"
  shows "live_node ns' i = None \<longleftrightarrow> live_node ns i = None"
proof -
  have "length ns' = length ns" using assms by (metis length_map)
  moreover have "i < length ns \<Longrightarrow> tn_alive (ns' ! i) = tn_alive (ns ! i)"
    using assms calculation shape_fields(4) by (metis nth_map)
  ultimately show ?thesis by (auto simp: live_node_def)
qed

lemma tree_ok_shape:
  assumes "tree_ok t" "map shape (ft_nodes t') = map shape (ft_nodes t)"
    "ft_root t' = ft_root t" "tree_node_of t (ft_selected t') \<noteq> None"
  shows "tree_ok t'"
  using assms arena_ok_shape [OF _ assms(2)] live_node_shape [OF assms(2)]
  by (simp add: tree_ok_def tree_node_of_def)

section \<open>Killing a subtree\<close>

lemma forward_below:
  assumes "forward ns" "(a, b) \<in> (child_rel ns)\<^sup>*"
  shows "a = b \<or> (a < b \<and> a < length ns \<and> b < length ns)"
  using assms(2)
proof (induction rule: rtrancl_induct)
  case (step y z)
  then have "y < length ns" "z \<in> set (kids_of (ns ! y))" by (auto simp: child_rel_def)
  moreover from this have "y < z" "z < length ns" using forwardD [OF assms(1)] by blast+
  ultimately show ?case using step.IH by auto
qed simp

definition killed :: "tree_node list \<Rightarrow> node_id set \<Rightarrow> node_id \<Rightarrow> bool" where
  "killed ns D j \<longleftrightarrow> (\<exists>d \<in> D. (d, j) \<in> (child_rel ns)\<^sup>*)"

definition kill :: "node_id set \<Rightarrow> tree_node list \<Rightarrow> tree_node list" where
  "kill D ns = map (\<lambda>j. (ns ! j)\<lparr>tn_alive := tn_alive (ns ! j) \<and> \<not> killed ns D j\<rparr>) [0..<length ns]"

lemma length_kill [simp]: "length (kill D ns) = length ns"
  by (simp add: kill_def)

lemma nth_kill [simp]:
  "j < length ns \<Longrightarrow> kill D ns ! j = (ns ! j)\<lparr>tn_alive := tn_alive (ns ! j) \<and> \<not> killed ns D j\<rparr>"
  by (simp add: kill_def)

lemma kids_kill [simp]: "map kids_of (kill D ns) = map kids_of ns"
  by (rule nth_equalityI) auto

lemma kill_empty [simp]: "kill {} ns = ns"
  by (rule nth_equalityI) (auto simp: killed_def)

lemma kill_kill: "kill D (kill E ns) = kill (E \<union> D) ns"
proof -
  have "killed (kill E ns) D j = killed ns D j" for j
    by (simp add: killed_def child_rel_kids [OF kids_kill])
  then have "killed (kill E ns) D j \<or> killed ns E j \<longleftrightarrow> killed ns (E \<union> D) j" for j
    by (auto simp: killed_def)
  then have "\<not> killed ns E j \<and> \<not> killed (kill E ns) D j \<longleftrightarrow> \<not> killed ns (E \<union> D) j" for j
    by blast
  then show ?thesis by (intro nth_equalityI) (simp_all add: conj_assoc)
qed

lemma kill_step:
  assumes "cur < length ns"
  shows "kill (set (kids_of (ns ! cur)) \<union> D) (ns[cur := (ns ! cur)\<lparr>tn_alive := False\<rparr>])
    = kill (insert cur D) ns"
proof -
  let ?ns = "ns[cur := (ns ! cur)\<lparr>tn_alive := False\<rparr>]"
  have k: "map kids_of ?ns = map kids_of ns" by (simp add: map_update list_update_same_conv assms)
  have "killed ns (insert cur D) j \<longleftrightarrow> j = cur \<or> killed ns (set (kids_of (ns ! cur)) \<union> D) j" for j
  proof -
    have "(cur, j) \<in> (child_rel ns)\<^sup>* \<longleftrightarrow> j = cur \<or> (\<exists>c \<in> set (kids_of (ns ! cur)). (c, j) \<in> (child_rel ns)\<^sup>*)"
      using assms by (auto simp: child_rel_def elim: converse_rtranclE intro: converse_rtrancl_into_rtrancl)
    then show ?thesis by (auto simp: killed_def)
  qed
  moreover have "killed ?ns E j = killed ns E j" for E j
    by (simp add: killed_def child_rel_kids [OF k])
  ultimately show ?thesis
    using assms by (intro nth_equalityI) (auto simp: nth_list_update)
qed

lemma kill_loop_ok:
  assumes "forward ns" "set stack \<subseteq> {..<length ns}"
  shows "kill_loop stack ns = Some (kill (set stack) ns)"
  using assms
proof (induction "mset (map (\<lambda>i. length ns - i) stack)" arbitrary: stack ns
    rule: wf_induct_rule [OF wf_mult [OF wf_less_than]])
  case (1 stack ns)
  show ?case
  proof (cases stack)
    case Nil
    then show ?thesis by (subst kill_loop.simps) simp
  next
    case (Cons cur rest)
    define ks where "ks = kids_of (ns ! cur)"
    define ns1 where "ns1 = ns[cur := (ns ! cur)\<lparr>tn_alive := False\<rparr>]"
    have cur: "cur < length ns" using "1.prems"(2) Cons by simp
    have k: "map kids_of ns1 = map kids_of ns"
      using cur by (simp add: ns1_def map_update list_update_same_conv)
    have l: "length ns1 = length ns" by (simp add: ns1_def)
    have ks: "\<forall>c \<in> set ks. cur < c \<and> c < length ns"
      using forwardD [OF "1.prems"(1) cur] by (simp add: ks_def)
    have "(mset (map (\<lambda>i. length ns - i) rest) + mset (map (\<lambda>i. length ns - i) ks),
        mset (map (\<lambda>i. length ns - i) rest) + {#length ns - cur#}) \<in> mult less_than"
      using ks cur by (intro one_step_implies_mult) (auto intro: diff_less_mono2)
    then have "(mset (map (\<lambda>i. length ns1 - i) (rev ks @ rest)), mset (map (\<lambda>i. length ns - i) stack))
        \<in> mult less_than"
      by (simp add: Cons l add.commute)
    moreover have "set (rev ks @ rest) \<subseteq> {..<length ns1}"
      using ks "1.prems"(2) Cons by (auto simp: l)
    ultimately have "kill_loop (rev ks @ rest) ns1 = Some (kill (set (rev ks @ rest)) ns1)"
      using "1.hyps" "1.prems"(1) forward_kids [OF k] by blast
    moreover have "kill (set (rev ks @ rest)) ns1 = kill (set stack) ns"
      using kill_step [OF cur, of "set rest"] by (simp add: ks_def ns1_def Cons)
    moreover have "kill_loop stack ns = kill_loop (rev ks @ rest) ns1"
      unfolding Cons by (subst kill_loop.simps)
        (simp add: cur ks_def ns1_def kids_of_def split: child_state.splits)
    ultimately show ?thesis by simp
  qed
qed

lemma kill_vanished_ok:
  assumes "forward ns" "snd ` set ex \<subseteq> {..<length ns}"
  shows "kill_vanished kept ex ns = Some (kill (snd ` set ex - set kept) ns)"
  using assms
proof (induction ex arbitrary: ns)
  case (Cons x ex)
  obtain k c where x: "x = (k, c)" by (cases x)
  have "kill_subtree c ns = Some (kill {c} ns)"
    using Cons.prems x by (simp add: kill_subtree_def kill_loop_ok)
  moreover have B: "kill_vanished kept ex (kill E ns) = Some (kill (E \<union> (snd ` set ex - set kept)) ns)" for E
    using Cons.prems Cons.IH [of "kill E ns"] forward_kids [OF kids_kill] by (simp add: kill_kill)
  ultimately show ?case
    using B [of "{c}"] B [of "{}"] by (auto simp: x insert_Diff_if)
qed simp

section \<open>Absorbing a listing\<close>

text \<open>The child that an entry of a listing keeps.\<close>

definition same_child :: "tree_node list \<Rightarrow> node_id \<Rightarrow> dir_entry_info \<Rightarrow> node_id option" where
  "same_child ns i e =
     find (\<lambda>c. tn_name (ns ! c) = de_name e \<and> tn_kind (ns ! c) = de_kind e) (kids_of (ns ! i))"

definition lists :: "tree_node list \<Rightarrow> dir_entry_info \<Rightarrow> node_id \<Rightarrow> bool" where
  "lists ns e c \<longleftrightarrow> c < length ns \<and> tn_name (ns ! c) = de_name e \<and> tn_path (ns ! c) = de_path e
     \<and> tn_kind (ns ! c) = de_kind e"

definition identified :: "tree_node list \<Rightarrow> node_id \<Rightarrow> dir_entry_info \<Rightarrow> node_id \<Rightarrow> bool" where
  "identified ns i e c \<longleftrightarrow> (case same_child ns i e of Some c' \<Rightarrow> c = c' | None \<Rightarrow> length ns \<le> c)"

definition absorbed ::
  "tree_node list \<Rightarrow> node_id \<Rightarrow> dir_entry_info list \<Rightarrow> tree_node list \<Rightarrow> node_id list \<Rightarrow> node_id list \<Rightarrow> bool"
where
  "absorbed ns i es ns' kept new \<longleftrightarrow>
     length ns \<le> length ns'
     \<and> (\<forall>j < length ns. ns' ! j = (ns ! j)\<lparr>tn_path := tn_path (ns' ! j)\<rparr>
          \<and> (j \<notin> set kept \<longrightarrow> ns' ! j = ns ! j))
     \<and> (\<forall>j. length ns \<le> j \<and> j < length ns' \<longrightarrow> j \<in> set new \<and> tn_id (ns' ! j) = j
          \<and> tn_parent (ns' ! j) = Some i \<and> tn_alive (ns' ! j) \<and> tn_children (ns' ! j) = Unloaded)
     \<and> list_all2 (lists ns') es new \<and> list_all2 (identified ns i) es new
     \<and> kept = filter (\<lambda>c. c < length ns) new \<and> set kept \<subseteq> set (kids_of (ns ! i))"

lemma update_new: "k \<notin> set (map fst al) \<Longrightarrow> AList.update k v al = al @ [(k, v)]"
  by (induction al) auto

lemma existing_children_eq:
  assumes "arena_ok ns" "i < length ns" "tn_alive (ns ! i)"
  shows "existing_children ns (ns ! i) = map (\<lambda>c. (tn_name (ns ! c), c)) (kids_of (ns ! i))"
proof -
  let ?f = "\<lambda>c. (tn_name (ns ! c), c)"
  have "live_node ns c = Some (ns ! c)" if "c \<in> set (kids_of (ns ! i))" for c
  proof -
    have "tn_alive (ns ! c)" using assms that by (simp add: arena_ok_def)
    moreover have "forward ns" using assms(1) by (simp add: arena_ok_def)
    ultimately show ?thesis using forwardD(2) [OF _ assms(2) that] by (simp add: live_node_def)
  qed
  then have "List.map_filter (\<lambda>c. map_option (\<lambda>n. (tn_name n, c)) (live_node ns c)) (kids_of (ns ! i))
      = map ?f (kids_of (ns ! i))"
    by (induction "kids_of (ns ! i)" rule: rev_induct) (simp_all add: List.map_filter_def)
  moreover have "fold (\<lambda>(k, c). AList.update k c) (map ?f cs) acc = acc @ map ?f cs"
    if "distinct (map fst acc @ map (\<lambda>c. tn_name (ns ! c)) cs)" for cs acc
    using that
  proof (induction cs arbitrary: acc)
    case (Cons c cs)
    then have "AList.update (tn_name (ns ! c)) c acc = acc @ [?f c]"
      by (intro update_new) (auto simp: )
    then show ?case using Cons by auto
  qed simp
  moreover have "distinct (map (\<lambda>c. tn_name (ns ! c)) (kids_of (ns ! i)))"
    using assms by (simp add: arena_ok_def)
  ultimately show ?thesis
    by (cases "tn_children (ns ! i)") (simp_all add: existing_children_def kids_of_def)
qed

lemma find_unique:
  assumes "distinct (map f cs)" "c \<in> set cs"
  shows "find (\<lambda>x. f x = f c \<and> P x) cs = (if P c then Some c else None)"
    and "map_of (map (\<lambda>x. (f x, x)) cs) (f c) = Some c"
proof -
  have "c \<in> set cs \<Longrightarrow> find (\<lambda>x. f x = f c \<and> P x) cs = (if P c then Some c else None)
      \<and> map_of (map (\<lambda>x. (f x, x)) cs) (f c) = Some c"
    using assms(1)
  proof (induction cs)
    case (Cons a cs)
    show ?case
    proof (cases "a = c")
      case True
      then have "find (\<lambda>x. f x = f c \<and> P x) cs = None" using Cons.prems(2) by (simp add: find_None_iff image_iff) metis
      with True show ?thesis by simp
    next
      case False
      then have "c \<in> set cs" "f a \<noteq> f c" using Cons.prems by auto
      then show ?thesis using Cons by simp
    qed
  qed simp
  then show "find (\<lambda>x. f x = f c \<and> P x) cs = (if P c then Some c else None)"
    "map_of (map (\<lambda>x. (f x, x)) cs) (f c) = Some c" using assms(2) by simp_all
qed

lemma same_child_eq:
  assumes "arena_ok ns" "i < length ns" "tn_alive (ns ! i)"
  shows "same_child ns i e =
    (case map_of (map (\<lambda>c. (tn_name (ns ! c), c)) (kids_of (ns ! i))) (de_name e) of
       Some c \<Rightarrow> if tn_kind (ns ! c) = de_kind e then Some c else None
     | None \<Rightarrow> None)"
proof -
  have d: "distinct (map (\<lambda>c. tn_name (ns ! c)) (kids_of (ns ! i)))"
    using assms by (simp add: arena_ok_def)
  show ?thesis
  proof (cases "\<exists>c \<in> set (kids_of (ns ! i)). tn_name (ns ! c) = de_name e")
    case True
    then obtain c where "c \<in> set (kids_of (ns ! i))" "de_name e = tn_name (ns ! c)" by metis
    then show ?thesis using find_unique [OF d] by (simp add: same_child_def)
  next
    case False
    then have "map_of (map (\<lambda>c. (tn_name (ns ! c), c)) (kids_of (ns ! i))) (de_name e) = None"
      by (auto simp: map_of_eq_None_iff)
    moreover have "same_child ns i e = None" using False by (auto simp: same_child_def find_None_iff)
    ultimately show ?thesis by simp
  qed
qed

lemma path_onlyD:
  assumes "n' = n\<lparr>tn_path := p\<rparr>"
  shows "tn_id n' = tn_id n" "tn_parent n' = tn_parent n" "tn_name n' = tn_name n"
    "tn_alive n' = tn_alive n" "tn_children n' = tn_children n" "kids_of n' = kids_of n"
    "tn_kind n' = tn_kind n" "tn_expanded n' = tn_expanded n"
  using assms by simp_all

lemma absorb_entries_ok:
  assumes ok: "arena_ok ns" and i: "i < length ns" "tn_alive (ns ! i)"
    and "absorbed ns i ds ns1 kept new" "distinct (map de_name (ds @ es))"
  shows "\<exists>ns2 kept2 new2. absorb_entries i (existing_children ns (ns ! i)) es (ns1, kept, new)
      = (ns2, kept2, new2) \<and> absorbed ns i (ds @ es) ns2 kept2 new2"
  using assms(4,5)
proof (induction es arbitrary: ds ns1 kept new)
  case (Cons e es)
  note ab = Cons.prems(1) [unfolded absorbed_def]
  let ?ex = "existing_children ns (ns ! i)"
  have ex: "?ex = map (\<lambda>c. (tn_name (ns ! c), c)) (kids_of (ns ! i))"
    by (rule existing_children_eq [OF ok i])
  have fw: "forward ns" using ok by (simp add: arena_ok_def)
  have l: "length ns \<le> length ns1" using ab by blast
  have old: "ns1 ! j = (ns ! j)\<lparr>tn_path := tn_path (ns1 ! j)\<rparr>" if "j < length ns" for j using ab that by blast
  have new1: "tn_name (ns1 ! c) \<noteq> de_name e" if cn: "c \<in> set new" for c
  proof -
    obtain k where k: "k < length new" "c = new ! k" using cn by (metis in_set_conv_nth)
    have "list_all2 (lists ns1) ds new" using ab by blast
    then have "length ds = length new" "lists ns1 (ds ! k) c"
      using k by (auto simp: list_all2_conv_all_nth)
    moreover have "de_name (ds ! k) \<noteq> de_name e"
    proof -
      have "ds ! k \<in> set ds" using k calculation by simp
      from imageI [OF this, of de_name] show ?thesis using Cons.prems(2) by auto
    qed
    ultimately show ?thesis by (simp add: lists_def)
  qed
  show ?case
  proof (cases "same_child ns i e")
    case (Some c)
    then have c: "map_of ?ex (de_name e) = Some c" "tn_kind (ns ! c) = de_kind e"
      by (auto simp: same_child_eq [OF ok i] ex split: option.splits if_splits)
    then have ck: "c \<in> set (kids_of (ns ! i))" "tn_name (ns ! c) = de_name e"
      by (auto simp: ex dest!: map_of_SomeD)
    have cl: "c < length ns" using forwardD(2) [OF fw i(1) ck(1)] .
    have ca: "tn_alive (ns ! c)" using ok i ck(1) by (simp add: arena_ok_def)
    have live: "live_node ns1 c = Some (ns1 ! c)" "tn_kind (ns1 ! c) = de_kind e"
      "tn_name (ns1 ! c) = de_name e"
      using path_onlyD [OF old [OF cl]] cl l ca c(2) ck(2) by (simp_all add: live_node_def)
    define ns2 where "ns2 = ns1[c := (ns1 ! c)\<lparr>tn_path := de_path e\<rparr>]"
    have nc: "c \<notin> set new" using new1 live(3) by blast
    have "absorbed ns i (ds @ [e]) ns2 (kept @ [c]) (new @ [c])"
      unfolding absorbed_def
    proof (intro conjI)
      show "length ns \<le> length ns2" using l by (simp add: ns2_def)
      show "\<forall>j < length ns. ns2 ! j = (ns ! j)\<lparr>tn_path := tn_path (ns2 ! j)\<rparr>
          \<and> (j \<notin> set (kept @ [c]) \<longrightarrow> ns2 ! j = ns ! j)"
      proof (intro allI impI)
        fix j assume j: "j < length ns"
        show "ns2 ! j = (ns ! j)\<lparr>tn_path := tn_path (ns2 ! j)\<rparr> \<and> (j \<notin> set (kept @ [c]) \<longrightarrow> ns2 ! j = ns ! j)"
        proof (cases "j = c")
          case True
          have "ns2 ! c = (ns1 ! c)\<lparr>tn_path := de_path e\<rparr>" using cl l by (simp add: ns2_def)
          then have "ns2 ! c = (ns ! c)\<lparr>tn_path := de_path e\<rparr>"
            using arg_cong [OF old [OF cl], of "\<lambda>n. n\<lparr>tn_path := de_path e\<rparr>"] by simp
          then show ?thesis using True by simp
        next
          case False
          then have "ns2 ! j = ns1 ! j" by (simp add: ns2_def)
          then show ?thesis using ab j False by auto
        qed
      qed
      show "\<forall>j. length ns \<le> j \<and> j < length ns2 \<longrightarrow> j \<in> set (new @ [c]) \<and> tn_id (ns2 ! j) = j
          \<and> tn_parent (ns2 ! j) = Some i \<and> tn_alive (ns2 ! j) \<and> tn_children (ns2 ! j) = Unloaded"
        using ab cl by (auto simp: ns2_def nth_list_update)
      have "list_all2 (lists ns2) ds new"
      proof (rule list.rel_mono_strong)
        show "list_all2 (lists ns1) ds new" using ab by blast
        show "lists ns2 x y" if "y \<in> set new" "lists ns1 x y" for x y
          using that nc by (cases "y = c") (simp_all add: lists_def ns2_def)
      qed
      moreover have "lists ns2 e c" using live cl l by (simp add: lists_def ns2_def)
      ultimately show "list_all2 (lists ns2) (ds @ [e]) (new @ [c])" by (simp add: list_all2_appendI)
      show "list_all2 (identified ns i) (ds @ [e]) (new @ [c])"
        using ab Some by (simp add: identified_def list_all2_appendI)
      show "kept @ [c] = filter (\<lambda>c. c < length ns) (new @ [c])" using ab cl by simp
      have "set kept \<subseteq> set (kids_of (ns ! i))" using ab by blast
      then show "set (kept @ [c]) \<subseteq> set (kids_of (ns ! i))" using ck(1) by simp
    qed
    from Cons.IH [OF this] Cons.prems(2) live show ?thesis
      by (simp add: c(1) ns2_def)
  next
    case None
    let ?n = "\<lparr>tn_id = length ns1, tn_parent = Some i, tn_name = de_name e, tn_path = de_path e,
      tn_kind = de_kind e, tn_expanded = False, tn_children = Unloaded, tn_alive = True\<rparr>"
    have "absorbed ns i (ds @ [e]) (ns1 @ [?n]) kept (new @ [length ns1])"
      unfolding absorbed_def
    proof (intro conjI)
      show "\<forall>j. length ns \<le> j \<and> j < length (ns1 @ [?n]) \<longrightarrow> j \<in> set (new @ [length ns1])
          \<and> tn_id ((ns1 @ [?n]) ! j) = j \<and> tn_parent ((ns1 @ [?n]) ! j) = Some i
          \<and> tn_alive ((ns1 @ [?n]) ! j) \<and> tn_children ((ns1 @ [?n]) ! j) = Unloaded"
        using ab by (auto simp: nth_append less_Suc_eq)
      have "list_all2 (lists (ns1 @ [?n])) ds new"
        using ab by (auto simp: list_all2_conv_all_nth lists_def nth_append)
      then show "list_all2 (lists (ns1 @ [?n])) (ds @ [e]) (new @ [length ns1])"
        by (simp add: list_all2_appendI lists_def)
      show "list_all2 (identified ns i) (ds @ [e]) (new @ [length ns1])"
        using ab None l by (simp add: identified_def list_all2_appendI)
    qed (use ab l in \<open>auto simp: nth_append\<close>)
    note IH = Cons.IH [OF this]
    have "absorb_entries i ?ex (e # es) (ns1, kept, new)
        = absorb_entries i ?ex es (ns1 @ [?n], kept, new @ [length ns1])"
    proof (cases "map_of ?ex (de_name e)")
      case (Some c)
      then have k: "tn_kind (ns ! c) \<noteq> de_kind e"
        using None by (simp add: same_child_eq [OF ok i] ex split: if_splits)
      have "c \<in> set (kids_of (ns ! i))" using Some by (auto simp: ex dest!: map_of_SomeD)
      then have "c < length ns" using forwardD(2) [OF fw i(1)] by blast
      then have "map_option tn_kind (live_node ns1 c) \<noteq> Some (de_kind e)"
        using path_onlyD(7) [OF old] k by (simp add: live_node_def)
      then show ?thesis using Some by (auto simp: push_node_def)
    qed (simp add: push_node_def)
    then show ?thesis using IH Cons.prems(2) by simp
  qed
qed simp

lemma arenaD:
  assumes "arena_ok ns"
  shows "forward ns" "ns \<noteq> []" "tn_alive (ns ! 0)" "i < length ns \<Longrightarrow> tn_id (ns ! i) = i"
    and "i < length ns \<Longrightarrow> tn_alive (ns ! i) \<Longrightarrow> distinct (map (\<lambda>c. tn_name (ns ! c)) (kids_of (ns ! i)))"
    and "i < length ns \<Longrightarrow> tn_alive (ns ! i) \<Longrightarrow> c \<in> set (kids_of (ns ! i))
      \<Longrightarrow> tn_alive (ns ! c) \<and> tn_parent (ns ! c) = Some i"
    and "i < length ns \<Longrightarrow> tn_alive (ns ! i) \<Longrightarrow> (case tn_parent (ns ! i) of None \<Rightarrow> i = 0
           | Some p \<Rightarrow> p < i \<and> tn_alive (ns ! p) \<and> i \<in> set (kids_of (ns ! p)))"
  using assms unfolding arena_ok_def by blast+

lemma below_alive:
  assumes "arena_ok ns" "a < length ns" "tn_alive (ns ! a)" "(a, b) \<in> (child_rel ns)\<^sup>*"
  shows "b < length ns \<and> tn_alive (ns ! b)"
  using assms(4)
proof (induction rule: rtrancl_induct)
  case (step y z)
  then have "y < length ns" "tn_alive (ns ! y)" "z \<in> set (kids_of (ns ! y))" by (auto simp: child_rel_def)
  then show ?case using arenaD(6) [OF assms(1)] forwardD(2) [OF arenaD(1) [OF assms(1)]] by blast
qed (use assms in simp)

lemma below_parent:
  assumes "arena_ok ns" "a < length ns" "tn_alive (ns ! a)" "(a, b) \<in> (child_rel ns)\<^sup>*" "a \<noteq> b"
  obtains k where "tn_parent (ns ! b) = Some k" "(a, k) \<in> (child_rel ns)\<^sup>*"
proof -
  obtain k where k: "(a, k) \<in> (child_rel ns)\<^sup>*" "(k, b) \<in> child_rel ns"
    using assms(4,5) by (meson rtranclE)
  then have "b \<in> set (kids_of (ns ! k))" "k < length ns" by (auto simp: child_rel_def)
  moreover have "tn_alive (ns ! k)" using below_alive [OF assms(1-3) k(1)] by simp
  ultimately have "tn_parent (ns ! b) = Some k" using arenaD(6) [OF assms(1)] by blast
  then show ?thesis using that k(1) by blast
qed

text \<open>The arena after a listing was absorbed.\<close>

definition relisted :: "tree_node list \<Rightarrow> node_id \<Rightarrow> tree_node list \<Rightarrow> node_id list \<Rightarrow> node_id list \<Rightarrow> tree_node list" where
  "relisted ns i ns1 kept new =
     (let ns2 = kill (set (kids_of (ns ! i)) - set kept) ns1 in
      ns2[i := (ns2 ! i)\<lparr>tn_children := Loaded new\<rparr>])"

lemma absorbedD:
  assumes "absorbed ns i es ns1 kept new"
  shows "length ns \<le> length ns1"
    and "j < length ns \<Longrightarrow> ns1 ! j = (ns ! j)\<lparr>tn_path := tn_path (ns1 ! j)\<rparr>"
    and "j < length ns \<Longrightarrow> j \<notin> set kept \<Longrightarrow> ns1 ! j = ns ! j"
    and "length ns \<le> j \<Longrightarrow> j < length ns1 \<Longrightarrow> j \<in> set new \<and> tn_id (ns1 ! j) = j
          \<and> tn_parent (ns1 ! j) = Some i \<and> tn_alive (ns1 ! j) \<and> tn_children (ns1 ! j) = Unloaded"
    and "list_all2 (lists ns1) es new" "list_all2 (identified ns i) es new"
    and "kept = filter (\<lambda>c. c < length ns) new" "set kept \<subseteq> set (kids_of (ns ! i))"
  using assms unfolding absorbed_def by blast+

lemma absorbed_fields:
  assumes "absorbed ns i es ns1 kept new" "j < length ns"
  shows "tn_id (ns1 ! j) = tn_id (ns ! j)" "tn_parent (ns1 ! j) = tn_parent (ns ! j)"
    "tn_name (ns1 ! j) = tn_name (ns ! j)" "tn_alive (ns1 ! j) = tn_alive (ns ! j)"
    "tn_children (ns1 ! j) = tn_children (ns ! j)" "kids_of (ns1 ! j) = kids_of (ns ! j)"
    "tn_kind (ns1 ! j) = tn_kind (ns ! j)" "tn_expanded (ns1 ! j) = tn_expanded (ns ! j)"
  using path_onlyD [OF absorbedD(2) [OF assms]] by blast+

lemma absorbed_child_rel:
  assumes "absorbed ns i es ns1 kept new"
  shows "child_rel ns1 = child_rel ns"
proof -
  have "kids_of (ns1 ! a) = []" if "length ns \<le> a" "a < length ns1" for a
    using absorbedD(4) [OF assms that] by (simp add: kids_of_def)
  then have "(a, b) \<in> child_rel ns1 \<longleftrightarrow> (a, b) \<in> child_rel ns" for a b
    using absorbed_fields(6) [OF assms] absorbedD(1) [OF assms]
    by (cases "a < length ns") (auto simp: child_rel_def)
  then show ?thesis by auto
qed

lemma absorbed_forward:
  assumes "arena_ok ns" "absorbed ns i es ns1 kept new"
  shows "forward ns1"
  unfolding forward_def
proof (intro allI impI ballI)
  fix j c assume j: "j < length ns1" "c \<in> set (kids_of (ns1 ! j))"
  have "j < length ns"
  proof (rule ccontr)
    assume "\<not> j < length ns"
    then show False using absorbedD(4) [OF assms(2), of j] j by (simp add: kids_of_def)
  qed
  then show "j < c \<and> c < length ns1"
    using forwardD [OF arenaD(1) [OF assms(1)], of j c] absorbed_fields(6) [OF assms(2)] j
      absorbedD(1) [OF assms(2)] by auto
qed

lemma relisted_ok:
  assumes ok: "arena_ok ns" and i: "i < length ns" "tn_alive (ns ! i)"
    and ab: "absorbed ns i es ns1 kept new" and d: "distinct (map de_name es)"
  shows "arena_ok (relisted ns i ns1 kept new)"
proof -
  note A = absorbedD [OF ab] and F = absorbed_fields [OF ab] and O = arenaD [OF ok]
  define D where "D = set (kids_of (ns ! i)) - set kept"
  define ns3 where "ns3 = relisted ns i ns1 kept new"
  have l: "length ns3 = length ns1" by (simp add: ns3_def relisted_def Let_def)
  have n3: "ns3 ! j = (if j = i then (ns1 ! i)\<lparr>tn_alive := tn_alive (ns1 ! i) \<and> \<not> killed ns D i,
        tn_children := Loaded new\<rparr> else (ns1 ! j)\<lparr>tn_alive := tn_alive (ns1 ! j) \<and> \<not> killed ns D j\<rparr>)"
    if "j < length ns1" for j
    using that i A(1)
    by (simp add: ns3_def relisted_def Let_def D_def killed_def absorbed_child_rel [OF ab])
  have D: "d < length ns" "tn_alive (ns ! d)" "i < d" "tn_parent (ns ! d) = Some i" if "d \<in> D" for d
    using that forwardD [OF O(1) i(1)] O(6) [OF i] by (auto simp: D_def)
  have kill: "i < j \<and> j < length ns \<and> tn_alive (ns ! j)" if kj: "killed ns D j" for j
  proof -
    obtain d where d: "d \<in> D" "(d, j) \<in> (child_rel ns)\<^sup>*" using kj by (auto simp: killed_def)
    show ?thesis using below_alive [OF ok D(1,2) [OF d(1)] d(2)] forward_below [OF O(1) d(2)] D(3) [OF d(1)]
      by linarith
  qed
  have up: "j \<in> D \<or> (\<exists>k. tn_parent (ns ! j) = Some k \<and> killed ns D k)" if "killed ns D j" for j
    using that below_parent [OF ok D(1,2)] unfolding killed_def by metis
  have nd: "c < length ns1" "tn_alive (ns1 ! c)" "tn_parent (ns1 ! c) = Some i" "i < c"
    "\<not> killed ns D c" if "c \<in> set new" for c
  proof -
    show c: "c < length ns1" using A(5) that
      by (auto simp: list_all2_conv_all_nth in_set_conv_nth lists_def)
    have "tn_alive (ns1 ! c) \<and> tn_parent (ns1 ! c) = Some i \<and> i < c \<and> \<not> killed ns D c"
    proof (cases "c < length ns")
      case True
      then have k: "c \<in> set kept" using A(7) that by simp
      then have ck: "c \<in> set (kids_of (ns ! i))" using A(8) by blast
      have p: "tn_parent (ns ! c) = Some i" "tn_alive (ns ! c)" using O(6) [OF i ck] by simp_all
      have "\<not> killed ns D c" using up [of c] kill [of i] k p(1) by (auto simp: D_def)
      then show "tn_alive (ns1 ! c) \<and> tn_parent (ns1 ! c) = Some i \<and> i < c \<and> \<not> killed ns D c"
        using forwardD(1) [OF O(1) i(1) ck] F(2,4) [OF True] p by simp
    next
      case False
      then show "tn_alive (ns1 ! c) \<and> tn_parent (ns1 ! c) = Some i \<and> i < c \<and> \<not> killed ns D c"
        using A(4) [of c] c kill [of c] i that by auto
    qed
    then show "tn_alive (ns1 ! c)" "tn_parent (ns1 ! c) = Some i" "i < c" "\<not> killed ns D c" by simp_all
  qed
  have ks: "kids_of (ns3 ! j) = (if j = i then new else if j < length ns then kids_of (ns ! j) else [])"
    if "j < length ns1" for j
    using n3 [OF that] F(6) A(4) [of j] that by (auto simp: kids_of_def)
  have al: "tn_alive (ns3 ! j) \<longleftrightarrow> tn_alive (ns1 ! j) \<and> \<not> killed ns D j"
    "tn_parent (ns3 ! j) = tn_parent (ns1 ! j)" "tn_name (ns3 ! j) = tn_name (ns1 ! j)"
    "tn_id (ns3 ! j) = tn_id (ns1 ! j)" if "j < length ns1" for j
    using n3 [OF that] by simp_all
  have fw: "forward ns3"
    unfolding forward_def
  proof (intro allI impI ballI)
    fix j c assume j: "j < length ns3" "c \<in> set (kids_of (ns3 ! j))"
    show "j < c \<and> c < length ns3"
      using j ks [of j] nd [of c] forwardD [OF O(1), of j c] A(1) l by (auto split: if_splits)
  qed
  have kids: "distinct (map (\<lambda>c. tn_name (ns3 ! c)) (kids_of (ns3 ! j)))
      \<and> (\<forall>c \<in> set (kids_of (ns3 ! j)). tn_alive (ns3 ! c) \<and> tn_parent (ns3 ! c) = Some j)"
    if j: "j < length ns3" "tn_alive (ns3 ! j)" for j
  proof (cases "j = i")
    case True
    have "map (\<lambda>c. tn_name (ns3 ! c)) new = map de_name es"
      using A(5) nd(1) al(3) by (auto simp: list_all2_conv_all_nth lists_def intro!: nth_equalityI)
    with d True show ?thesis using ks [of i] nd al i(1) A(1) by simp
  next
    case other: False
    show ?thesis
    proof (cases "j < length ns")
      case True
      have kj: "kids_of (ns3 ! j) = kids_of (ns ! j)" using ks [of j] j l True other by simp
      have aj: "tn_alive (ns ! j)" "\<not> killed ns D j" using al(1) [of j] j l F(4) [OF True] by auto
      have c: "c < length ns" "tn_alive (ns3 ! c)" "tn_parent (ns3 ! c) = Some j" "tn_name (ns3 ! c) = tn_name (ns ! c)"
        if cj: "c \<in> set (kids_of (ns ! j))" for c
      proof -
        show c: "c < length ns" using forwardD(2) [OF O(1) True cj] .
        have p: "tn_parent (ns ! c) = Some j" "tn_alive (ns ! c)" using O(6) [OF True aj(1) cj] by simp_all
        have "\<not> killed ns D c" using up [of c] D(4) [of c] p(1) aj(2) other by auto
        then show "tn_alive (ns3 ! c)" "tn_parent (ns3 ! c) = Some j" "tn_name (ns3 ! c) = tn_name (ns ! c)"
          using al(1-3) [of c] F(2,3,4) [OF c] c A(1) p by simp_all
      qed
      have "map (\<lambda>c. tn_name (ns3 ! c)) (kids_of (ns ! j)) = map (\<lambda>c. tn_name (ns ! c)) (kids_of (ns ! j))"
        by (rule map_cong [OF refl]) (rule c(4))
      then have "distinct (map (\<lambda>c. tn_name (ns3 ! c)) (kids_of (ns ! j)))"
        using O(5) [OF True aj(1)] by (simp only:)
      then show ?thesis using c(2,3) kj by simp
    qed (use ks [of j] j l other in simp)
  qed
  have up3: "case tn_parent (ns3 ! j) of None \<Rightarrow> j = 0
      | Some p \<Rightarrow> p < j \<and> tn_alive (ns3 ! p) \<and> j \<in> set (kids_of (ns3 ! p))"
    if j: "j < length ns3" "tn_alive (ns3 ! j)" for j
  proof (cases "j < length ns")
    case True
    have aj: "tn_alive (ns ! j)" "\<not> killed ns D j" "tn_parent (ns3 ! j) = tn_parent (ns ! j)"
      using al(1,2) [of j] j l F(2,4) [OF True] by auto
    show ?thesis
    proof (cases "tn_parent (ns ! j)")
      case None
      then show ?thesis using O(7) [OF True aj(1)] aj(3) by simp
    next
      case (Some q)
      then have q: "q < j" "tn_alive (ns ! q)" "j \<in> set (kids_of (ns ! q))" using O(7) [OF True aj(1)] by simp_all
      have ql: "q < length ns" "q < length ns1" using q(1) True A(1) by simp_all
      have "(q, j) \<in> child_rel ns" using q ql by (simp add: child_rel_def)
      then have "\<not> killed ns D q" using aj(2) unfolding killed_def by (meson rtrancl_into_rtrancl)
      moreover have "j \<in> set (kids_of (ns3 ! q))"
      proof (cases "q = i")
        case qi: True
        have "j \<in> set kept" using aj(2) q(3) qi unfolding killed_def D_def by blast
        then show ?thesis using ks [OF ql(2)] qi A(7) by simp
      qed (use ks [OF ql(2)] ql q in simp)
      ultimately show ?thesis using Some aj(3) al(1) [OF ql(2)] F(4) [OF ql(1)] q by simp
    qed
  next
    case False
    have "j \<in> set new" "tn_parent (ns1 ! j) = Some i" using A(4) [of j] False j l by auto
    moreover have "tn_alive (ns3 ! i)" using al(1) [of i] F(4) [OF i(1)] i A(1) kill [of i] by auto
    ultimately show ?thesis using al(2) [of j] ks [of i] j l i A(1) False by simp
  qed
  have "tn_id (ns3 ! j) = j" if "j < length ns3" for j
    using al(4) [of j] F(1) [of j] O(4) [of j] A(4) [of j] that l by (cases "j < length ns") auto
  moreover have "0 < length ns1" using order.strict_trans2 [OF i(1) A(1)] by auto
  then have "tn_alive (ns3 ! 0)" "ns3 \<noteq> []"
    using al(1) [of 0] F(4) [of 0] O(2,3) kill [of 0] l by auto
  ultimately show ?thesis
    unfolding arena_ok_def ns3_def [symmetric] using fw kids up3 by blast
qed

lemma live_node_iff: "live_node ns i = Some n \<longleftrightarrow> i < length ns \<and> tn_alive (ns ! i) \<and> n = ns ! i"
  by (auto simp: live_node_def)

lemma set_children_ok:
  assumes "tree_ok t" and node: "tree_node_of t i = Some n" and d: "distinct (map de_name es)"
  obtains ns1 kept new where "absorbed (ft_nodes t) i es ns1 kept new"
    "arena_ok (relisted (ft_nodes t) i ns1 kept new)"
    "live_node (relisted (ft_nodes t) i ns1 kept new) i \<noteq> None"
    "set_children i es t = Some (t\<lparr>ft_nodes := relisted (ft_nodes t) i ns1 kept new,
       ft_selected := (if live_node (relisted (ft_nodes t) i ns1 kept new) (ft_selected t) = None
                       then i else ft_selected t)\<rparr>)"
proof -
  define ns where "ns = ft_nodes t"
  have ok: "arena_ok ns" using assms(1) by (simp add: tree_ok_def ns_def)
  have i: "i < length ns" "tn_alive (ns ! i)" "n = ns ! i"
    using node by (simp_all add: tree_node_of_def live_node_iff ns_def)
  have "absorbed ns i [] ns [] []" by (simp add: absorbed_def)
  from absorb_entries_ok [OF ok i(1,2) this, of es] d obtain ns1 kept new where
    e: "absorb_entries i (existing_children ns n) es (ns, [], []) = (ns1, kept, new)"
    and ab: "absorbed ns i es ns1 kept new" by (auto simp: i(3))
  define ns3 where "ns3 = relisted ns i ns1 kept new"
  have ok3: "arena_ok ns3" using relisted_ok [OF ok i(1,2) ab d] by (simp add: ns3_def)
  have l: "length ns \<le> length ns1" using absorbedD(1) [OF ab] .
  let ?D = "set (kids_of (ns ! i)) - set kept"
  have fw1: "forward ns1" using absorbed_forward [OF ok ab] .
  have kl: "snd ` set (existing_children ns n) = set (kids_of (ns ! i))"
    by (force simp: i(3) existing_children_eq [OF ok i(1,2)])
  then have v: "kill_vanished kept (existing_children ns n) ns1 = Some (kill ?D ns1)"
    using kill_vanished_ok [OF fw1, of "existing_children ns n"] forwardD(2) [OF arenaD(1) [OF ok] i(1)] l
    by fastforce
  have "\<not> killed ns1 ?D i"
  proof
    assume "killed ns1 ?D i"
    then obtain d where "d \<in> set (kids_of (ns ! i))" "(d, i) \<in> (child_rel ns1)\<^sup>*" by (auto simp: killed_def)
    then show False
      using forwardD(1) [OF arenaD(1) [OF ok] i(1)] forward_below [OF fw1] by fastforce
  qed
  then have li: "tree_node_of (t\<lparr>ft_nodes := kill ?D ns1\<rparr>) i = Some (kill ?D ns1 ! i)"
    "live_node ns3 i \<noteq> None"
    using i l absorbed_fields(4) [OF ab i(1)]
    by (simp_all add: tree_node_of_def live_node_def ns3_def relisted_def Let_def)
  have u: "update_node (\<lambda>n. n\<lparr>tn_children := Loaded new\<rparr>) i (t\<lparr>ft_nodes := kill ?D ns1\<rparr>)
      = t\<lparr>ft_nodes := ns3\<rparr>"
    by (simp add: update_node_def li ns3_def relisted_def Let_def)
  have "nearest_live_ancestor (t\<lparr>ft_nodes := ns3\<rparr>) i = Some i"
    using li(2) by (simp add: nearest_live_ancestor_def ancestor_loop.simps)
  then have "set_children i es t = Some (t\<lparr>ft_nodes := ns3,
      ft_selected := (if live_node ns3 (ft_selected t) = None then i else ft_selected t)\<rparr>)"
  proof -
    have n: "ft_nodes t = ns" by (simp add: ns_def)
    have s: "tree_node_of (t\<lparr>ft_nodes := ns3\<rparr>) j = live_node ns3 j" for j by (simp add: tree_node_of_def)
    show ?thesis
      using v \<open>nearest_live_ancestor _ _ = _\<close> by (simp add: set_children_def node n e Let_def u s)
  qed
  then show ?thesis using that ab ok3 li(2) by (simp add: ns3_def ns_def)
qed

section \<open>Every operation\<close>

text \<open>Nodes are never dropped, never change their identity and are never resurrected.\<close>

definition ages :: "file_tree \<Rightarrow> file_tree \<Rightarrow> bool" where
  "ages t t' \<longleftrightarrow> length (ft_nodes t) \<le> length (ft_nodes t')
     \<and> (\<forall>j < length (ft_nodes t). tn_id (ft_nodes t' ! j) = tn_id (ft_nodes t ! j)
        \<and> tn_parent (ft_nodes t' ! j) = tn_parent (ft_nodes t ! j)
        \<and> tn_name (ft_nodes t' ! j) = tn_name (ft_nodes t ! j)
        \<and> tn_kind (ft_nodes t' ! j) = tn_kind (ft_nodes t ! j)
        \<and> (tn_alive (ft_nodes t' ! j) \<longrightarrow> tn_alive (ft_nodes t ! j)))"

text \<open>What the client may do: entries of one listing have distinct names, and a read is only reported
  as failed for a directory that holds no listing.\<close>

fun tree_op_allowed :: "file_tree \<Rightarrow> tree_op \<Rightarrow> bool" where
  "tree_op_allowed t (ReadFailed i e) \<longleftrightarrow> \<not> is_loaded_dir t i"
| "tree_op_allowed t (ReadDone i es) \<longleftrightarrow> distinct (map de_name es)"
| "tree_op_allowed t op \<longleftrightarrow> True"

text \<open>A step that keeps the shape of every node, and its kind.\<close>

definition reshaped :: "file_tree \<Rightarrow> file_tree \<Rightarrow> bool" where
  "reshaped t t' \<longleftrightarrow> map (\<lambda>n. (shape n, tn_kind n)) (ft_nodes t') = map (\<lambda>n. (shape n, tn_kind n)) (ft_nodes t)
     \<and> ft_root t' = ft_root t"

lemma reshaped_refl [simp]: "reshaped t t" "reshaped t (t\<lparr>ft_selected := s\<rparr>)"
  by (simp_all add: reshaped_def)

lemma reshaped_trans: "reshaped t u \<Longrightarrow> reshaped u v \<Longrightarrow> reshaped t v"
  by (simp add: reshaped_def)

lemma reshaped_ok:
  assumes "reshaped t t'" "tree_ok t" "tree_node_of t (ft_selected t') \<noteq> None"
  shows "tree_ok t' \<and> ages t t'"
proof
  have m: "map (\<lambda>n. (shape n, tn_kind n)) (ft_nodes t') = map (\<lambda>n. (shape n, tn_kind n)) (ft_nodes t)"
    using assms(1) by (simp add: reshaped_def)
  have "map shape (ft_nodes t') = map shape (ft_nodes t)"
    using arg_cong [OF m, of "map fst"] by (simp add: comp_def)
  then show "tree_ok t'" using tree_ok_shape [OF assms(2) _ _ assms(3)] assms(1) by (simp add: reshaped_def)
  have l: "length (ft_nodes t') = length (ft_nodes t)" using m by (rule map_eq_imp_length_eq)
  have "shape (ft_nodes t' ! j) = shape (ft_nodes t ! j) \<and> tn_kind (ft_nodes t' ! j) = tn_kind (ft_nodes t ! j)"
    if "j < length (ft_nodes t)" for j
    using arg_cong [OF m, of "\<lambda>xs. xs ! j"] that l by simp
  then show "ages t t'"
    unfolding ages_def l by (blast dest: shape_fields)
qed

lemma update_node_reshaped:
  assumes "\<And>n. tree_node_of t i = Some n \<Longrightarrow> shape (f n) = shape n \<and> tn_kind (f n) = tn_kind n"
  shows "reshaped t (update_node f i t)"
proof (cases "tree_node_of t i")
  case (Some n)
  then have i: "i < length (ft_nodes t)" "n = ft_nodes t ! i"
    by (auto simp: tree_node_of_def live_node_def split: if_splits)
  then show ?thesis
    using assms [OF Some] Some by (simp add: reshaped_def update_node_def map_update list_update_same_conv)
qed (simp add: update_node_def)

lemma collapse_reshaped: "reshaped t (tree_collapse i t)"
  unfolding tree_collapse_def by (rule update_node_reshaped) (simp add: shape_def)

lemma begin_load_reshaped:
  "reshaped t (snd (begin_load i t)) \<and> ft_selected (snd (begin_load i t)) = ft_selected t"
proof -
  have "reshaped t (update_node (\<lambda>n. n\<lparr>tn_children := Loading\<rparr>) i t)"
    if "\<And>n. tree_node_of t i = Some n \<Longrightarrow> kids_of n = []"
    using that by (intro update_node_reshaped) (simp add: shape_def)
  then show ?thesis by (auto simp: begin_load_def kids_of_def split: option.split child_state.split)
qed

lemma expand_reshaped:
  "reshaped t (snd (tree_expand i t)) \<and> ft_selected (snd (tree_expand i t)) = ft_selected t"
proof -
  have "reshaped t (update_node (\<lambda>n. n\<lparr>tn_expanded := True\<rparr>) i t)"
    by (rule update_node_reshaped) (simp add: shape_def)
  from reshaped_trans [OF this] begin_load_reshaped show ?thesis
    by (auto simp: tree_expand_def split: option.split)
qed

lemma toggle_reshaped:
  "reshaped t (snd (tree_toggle i t)) \<and> ft_selected (snd (tree_toggle i t)) = ft_selected t"
  using expand_reshaped collapse_reshaped [of t i]
  by (auto simp: tree_toggle_def tree_collapse_def split: option.split)

lemma set_error_reshaped:
  assumes "\<not> is_loaded_dir t i"
  shows "reshaped t (set_error i e t)"
  unfolding set_error_def
proof (rule update_node_reshaped)
  fix n assume "tree_node_of t i = Some n"
  then have "kids_of n = []" using assms by (auto simp: is_loaded_dir_def kids_of_def split: child_state.splits)
  then show "shape (n\<lparr>tn_children := LoadError e\<rparr>) = shape n
      \<and> tn_kind (n\<lparr>tn_children := LoadError e\<rparr>) = tn_kind n" by (simp add: shape_def)
qed

lemma set_children_ages:
  assumes "tree_ok t" "distinct (map de_name es)"
  shows "\<exists>t'. set_children i es t = Some t' \<and> tree_ok t' \<and> ages t t'"
proof (cases "tree_node_of t i")
  case None
  with assms show ?thesis by (simp add: set_children_def ages_def)
next
  case (Some n)
  obtain ns1 kept new where R: "absorbed (ft_nodes t) i es ns1 kept new"
    "arena_ok (relisted (ft_nodes t) i ns1 kept new)"
    "live_node (relisted (ft_nodes t) i ns1 kept new) i \<noteq> None"
    "set_children i es t = Some (t\<lparr>ft_nodes := relisted (ft_nodes t) i ns1 kept new,
       ft_selected := (if live_node (relisted (ft_nodes t) i ns1 kept new) (ft_selected t) = None
                       then i else ft_selected t)\<rparr>)"
    using set_children_ok [OF assms(1) Some assms(2)] by metis
  let ?ns3 = "relisted (ft_nodes t) i ns1 kept new"
  have "tn_id (?ns3 ! j) = tn_id (ft_nodes t ! j) \<and> tn_parent (?ns3 ! j) = tn_parent (ft_nodes t ! j)
      \<and> tn_name (?ns3 ! j) = tn_name (ft_nodes t ! j) \<and> tn_kind (?ns3 ! j) = tn_kind (ft_nodes t ! j)
      \<and> (tn_alive (?ns3 ! j) \<longrightarrow> tn_alive (ft_nodes t ! j))" if "j < length (ft_nodes t)" for j
    using absorbed_fields [OF R(1) that] absorbedD(1) [OF R(1)] that
    by (cases "j = i") (simp_all add: relisted_def Let_def)
  with R assms(1) absorbedD(1) [OF R(1)] show ?thesis
    by (auto simp: tree_ok_def tree_node_of_def ages_def relisted_def Let_def)
qed

section \<open>Rows\<close>

definition open_rel :: "tree_node list \<Rightarrow> (node_id \<times> node_id) set" where
  "open_rel ns = {(a, b). (a, b) \<in> child_rel ns \<and> tn_expanded (ns ! a)}"

lemma open_below: "(a, b) \<in> (open_rel ns)\<^sup>* \<Longrightarrow> (a, b) \<in> (child_rel ns)\<^sup>*"
  by (rule subsetD [OF rtrancl_mono]) (auto simp: open_rel_def)

lemma below_linear:
  assumes ok: "arena_ok ns" and a: "a < length ns" "tn_alive (ns ! a)" and b: "b < length ns" "tn_alive (ns ! b)"
    and "(a, j) \<in> (child_rel ns)\<^sup>*" "(b, j) \<in> (child_rel ns)\<^sup>*"
  shows "(a, b) \<in> (child_rel ns)\<^sup>* \<or> (b, a) \<in> (child_rel ns)\<^sup>*"
  using assms(6,7)
proof (induction rule: rtrancl_induct)
  case (step y z)
  show ?case
  proof (cases "b = z")
    case True
    with step.hyps show ?thesis by auto
  next
    case False
    obtain k where k: "tn_parent (ns ! z) = Some k" "(b, k) \<in> (child_rel ns)\<^sup>*"
      using below_parent [OF ok b step.prems False] by metis
    have "y < length ns" "tn_alive (ns ! y)" using below_alive [OF ok a step.hyps(1)] by simp_all
    then have "tn_parent (ns ! z) = Some y"
      using arenaD(6) [OF ok] step.hyps(2) by (auto simp: child_rel_def)
    with k step.IH show ?thesis by simp
  qed
qed simp

lemma siblings_apart:
  assumes ok: "arena_ok ns" and i: "i < length ns" "tn_alive (ns ! i)"
    and c: "c \<in> set (kids_of (ns ! i))" "d \<in> set (kids_of (ns ! i))" "c \<noteq> d"
    and "(c, j) \<in> (child_rel ns)\<^sup>*" "(d, j) \<in> (child_rel ns)\<^sup>*"
  shows False
proof -
  have *: False if "x \<in> set (kids_of (ns ! i))" "y \<in> set (kids_of (ns ! i))" "x \<noteq> y"
    "(x, y) \<in> (child_rel ns)\<^sup>*" for x y
  proof -
    have x: "i < x" "x < length ns" "tn_alive (ns ! x)"
      using forwardD [OF arenaD(1) [OF ok] i(1) that(1)] arenaD(6) [OF ok i that(1)] by simp_all
    from below_parent [OF ok x(2,3) that(4,3)] obtain k
      where "tn_parent (ns ! y) = Some k" "(x, k) \<in> (child_rel ns)\<^sup>*" by metis
    then have "(x, i) \<in> (child_rel ns)\<^sup>*" using arenaD(6) [OF ok i that(2)] by simp
    then show False using forward_below [OF arenaD(1) [OF ok]] x(1) by fastforce
  qed
  have "c < length ns" "tn_alive (ns ! c)" "d < length ns" "tn_alive (ns ! d)"
    using forwardD(2) [OF arenaD(1) [OF ok] i(1)] arenaD(6) [OF ok i] c by simp_all
  from below_linear [OF ok this assms(7,8)] show False using * c by metis
qed

lemma distinct_concat_map:
  assumes "distinct cs" "\<And>c. c \<in> set cs \<Longrightarrow> distinct (f c)"
    "\<And>c d j. c \<in> set cs \<Longrightarrow> d \<in> set cs \<Longrightarrow> c \<noteq> d \<Longrightarrow> j \<in> set (f c) \<Longrightarrow> j \<notin> set (f d)"
  shows "distinct (concat (map f cs))"
  using assms
proof (induction cs)
  case (Cons c cs)
  have "distinct (concat (map f cs))" using Cons.prems by (intro Cons.IH) auto
  moreover have "set (f c) \<inter> set (concat (map f cs)) = {}"
    using Cons.prems(1,3) by fastforce
  ultimately show ?case using Cons.prems(2) by simp
qed simp

lemma push_rows_ok:
  assumes ok: "arena_ok ns"
  shows "i < length ns \<Longrightarrow> tn_alive (ns ! i) \<Longrightarrow> length ns - i \<le> k \<Longrightarrow>
    \<exists>rs. push_rows k ns i depth = Some rs \<and> rs \<noteq> [] \<and> hd rs = row_of i depth (ns ! i)
      \<and> distinct (map r_id rs) \<and> set (map r_id rs) = {j. (i, j) \<in> (open_rel ns)\<^sup>*}
      \<and> (\<forall>r \<in> set rs. depth \<le> r_depth r \<and> r = row_of (r_id r) (r_depth r) (ns ! r_id r))"
proof (induction k arbitrary: i depth)
  case (Suc k)
  have live: "live_node ns i = Some (ns ! i)" using Suc.prems by (simp add: live_node_def)
  have step: "(i, j) \<in> (open_rel ns)\<^sup>* \<longleftrightarrow> j = i
      \<or> (tn_expanded (ns ! i) \<and> (\<exists>c \<in> set (kids_of (ns ! i)). (c, j) \<in> (open_rel ns)\<^sup>*))" for j
    using Suc.prems(1)
    by (auto simp: open_rel_def child_rel_def elim: converse_rtranclE intro: converse_rtrancl_into_rtrancl)
  show ?case
  proof (cases "tn_expanded (ns ! i) \<and> (\<exists>cs. tn_children (ns ! i) = Loaded cs)")
    case False
    then have "push_rows (Suc k) ns i depth = Some [row_of i depth (ns ! i)]"
      "\<not> tn_expanded (ns ! i) \<or> kids_of (ns ! i) = []"
      by (auto simp: live kids_of_def split: child_state.splits)
    then show ?thesis using step by (auto simp: row_of_def)
  next
    case True
    then obtain cs where cs: "tn_children (ns ! i) = Loaded cs" "kids_of (ns ! i) = cs"
      by (auto simp: kids_of_def)
    define f where "f c = the (push_rows k ns c (depth + 1))" for c
    have f: "push_rows k ns c (depth + 1) = Some (f c)" "distinct (map r_id (f c))"
      "set (map r_id (f c)) = {j. (c, j) \<in> (open_rel ns)\<^sup>*}" "f c \<noteq> []"
      "\<forall>r \<in> set (f c). depth + 1 \<le> r_depth r \<and> r = row_of (r_id r) (r_depth r) (ns ! r_id r)"
      if c: "c \<in> set cs" for c
    proof -
      have "i < c" "c < length ns" "tn_alive (ns ! c)"
        using forwardD [OF arenaD(1) [OF ok] Suc.prems(1)] arenaD(6) [OF ok Suc.prems(1,2)] c cs by simp_all
      moreover from this have "length ns - c \<le> k" using Suc.prems(3) by linarith
      ultimately obtain rs where "push_rows k ns c (depth + 1) = Some rs" "rs \<noteq> []" "distinct (map r_id rs)"
        "set (map r_id rs) = {j. (c, j) \<in> (open_rel ns)\<^sup>*}"
        "\<forall>r \<in> set rs. depth + 1 \<le> r_depth r \<and> r = row_of (r_id r) (r_depth r) (ns ! r_id r)"
        using Suc.IH by metis
      moreover from this(1) have "f c = rs" by (simp add: f_def)
      ultimately show "push_rows k ns c (depth + 1) = Some (f c)" "distinct (map r_id (f c))"
        "set (map r_id (f c)) = {j. (c, j) \<in> (open_rel ns)\<^sup>*}" "f c \<noteq> []"
        "\<forall>r \<in> set (f c). depth + 1 \<le> r_depth r \<and> r = row_of (r_id r) (r_depth r) (ns ! r_id r)"
        by simp_all
    qed
    define rs where "rs = row_of i depth (ns ! i) # concat (map f cs)"
    have "push_rows (Suc k) ns i depth = Some rs"
    proof -
      have "those (map (\<lambda>c. push_rows k ns c (Suc depth)) cs) = Some (map f cs)"
        by (rule those_eq) (use f(1) in simp)
      then show ?thesis using True by (simp add: live cs rs_def)
    qed
    moreover have "distinct (map r_id rs)"
    proof -
      have "distinct cs" using arenaD(5) [OF ok Suc.prems(1,2)] cs(2) by (simp add: distinct_map)
      moreover have "j \<notin> set (map r_id (f d))" if "c \<in> set cs" "d \<in> set cs" "c \<noteq> d" "j \<in> set (map r_id (f c))" for c d j
        using siblings_apart [OF ok Suc.prems(1,2), of c d j] that f(3) [of c] f(3) [of d] cs(2)
        by (auto dest: open_below)
      ultimately have "distinct (concat (map (\<lambda>c. map r_id (f c)) cs))"
        using f(2) by (intro distinct_concat_map) auto
      moreover have "i \<notin> r_id ` set (f c)" if "c \<in> set cs" for c
      proof
        assume "i \<in> r_id ` set (f c)"
        then have "(c, i) \<in> (child_rel ns)\<^sup>*" using f(3) [OF that] by (auto dest: open_below)
        then show False using forward_below [OF arenaD(1) [OF ok]]
            forwardD(1) [OF arenaD(1) [OF ok] Suc.prems(1), of c] that cs(2) by fastforce
      qed
      ultimately show ?thesis by (auto simp: rs_def row_of_def map_concat comp_def)
    qed
    moreover have "set (map r_id rs) = {j. (i, j) \<in> (open_rel ns)\<^sup>*}"
    proof -
      have "set (map r_id (concat (map f cs))) = (\<Union>c \<in> set cs. set (map r_id (f c)))" by auto
      also have "\<dots> = (\<Union>c \<in> set cs. {j. (c, j) \<in> (open_rel ns)\<^sup>*})" using f(3) by simp
      finally show ?thesis using True cs(2) step by (auto simp: rs_def row_of_def)
    qed
    moreover have "\<forall>r \<in> set rs. depth \<le> r_depth r \<and> r = row_of (r_id r) (r_depth r) (ns ! r_id r)"
      using f(5) by (fastforce simp: rs_def row_of_def)
    ultimately show ?thesis by (simp add: rs_def)
  qed
qed simp

lemma visible_rows_ok:
  assumes "tree_ok t"
  obtains rs where "visible_rows t = Some rs" "rs \<noteq> []" "hd rs = row_of 0 0 (ft_nodes t ! 0)"
    "distinct (map r_id rs)" "set (map r_id rs) = {j. (0, j) \<in> (open_rel (ft_nodes t))\<^sup>*}"
    "\<forall>r \<in> set rs. r = row_of (r_id r) (r_depth r) (ft_nodes t ! r_id r)"
    "\<forall>r \<in> set rs. tree_node_of t (r_id r) \<noteq> None"
proof -
  have ok: "arena_ok (ft_nodes t)" "ft_root t = 0" using assms by (simp_all add: tree_ok_def)
  have z: "0 < length (ft_nodes t)" "tn_alive (ft_nodes t ! 0)" using arenaD(2,3) [OF ok(1)] by simp_all
  from push_rows_ok [OF ok(1) z, of "length (ft_nodes t)" 0] obtain rs where rs: "visible_rows t = Some rs"
    "rs \<noteq> []" "hd rs = row_of 0 0 (ft_nodes t ! 0)" "distinct (map r_id rs)"
    "set (map r_id rs) = {j. (0, j) \<in> (open_rel (ft_nodes t))\<^sup>*}"
    "\<forall>r \<in> set rs. r = row_of (r_id r) (r_depth r) (ft_nodes t ! r_id r)"
    unfolding visible_rows_def ok(2) by auto
  have "tree_node_of t (r_id r) \<noteq> None" if "r \<in> set rs" for r
  proof -
    have "(0, r_id r) \<in> (open_rel (ft_nodes t))\<^sup>*" using that rs(5) by auto
    from below_alive [OF ok(1) z open_below [OF this]] show ?thesis
      by (simp add: tree_node_of_def live_node_def)
  qed
  with rs that show ?thesis by blast
qed

lemma move_selection_ok:
  assumes "tree_ok t"
  shows "\<exists>s. move_selection delta t = Some (t\<lparr>ft_selected := s\<rparr>) \<and> tree_node_of t s \<noteq> None"
proof -
  obtain rs where rs: "visible_rows t = Some rs" "rs \<noteq> []" "\<forall>r \<in> set rs. tree_node_of t (r_id r) \<noteq> None"
    using visible_rows_ok [OF assms] by metis
  define k where "k = nat (max 0 (min ((case row_position (ft_selected t) rs of Some k \<Rightarrow> int k | None \<Rightarrow> 0)
    + delta) (int (length rs) - 1)))"
  have "0 < length rs" using rs(2) by simp
  then have "k < length rs" unfolding k_def by linarith
  then have "tree_node_of t (r_id (rs ! k)) \<noteq> None" using rs(3) by simp
  then show ?thesis using rs(1,2) by (auto simp: move_selection_def Let_def k_def)
qed

lemma tree_step_ok:
  assumes ok: "tree_ok t" and "tree_op_allowed t op"
  shows "\<exists>t'. tree_step op t = Some t' \<and> tree_ok t' \<and> ages t t'"
proof -
  have sel: "tree_node_of t (ft_selected t) \<noteq> None" using ok by (simp add: tree_ok_def)
  have move: "\<exists>t'. move_selection delta t = Some t' \<and> tree_ok t' \<and> ages t t'" for delta
    using move_selection_ok [OF ok, of delta] reshaped_ok [OF reshaped_refl(2) ok] by fastforce
  have collapse: "tree_ok (tree_collapse i t) \<and> ages t (tree_collapse i t)" for i
    using reshaped_ok [OF collapse_reshaped ok] sel by (simp add: tree_collapse_def)
  show ?thesis
  proof (cases op)
    case (BeginLoad i)
    then show ?thesis using reshaped_ok [OF _ ok] begin_load_reshaped [of t i] sel by simp
  next
    case (ExpandNode i)
    then show ?thesis using reshaped_ok [OF _ ok] expand_reshaped [of t i] sel by simp
  next
    case (ToggleNode i)
    then show ?thesis using reshaped_ok [OF _ ok] toggle_reshaped [of t i] sel by simp
  next
    case (ReadFailed i e)
    then show ?thesis using reshaped_ok [OF set_error_reshaped ok] sel assms(2) by (simp add: set_error_def)
  next
    case (SelectNode i)
    then show ?thesis using reshaped_ok [OF reshaped_refl(2) ok, of i] reshaped_ok [OF reshaped_refl(1) ok sel]
      by (simp add: tree_select_def)
  next
    case CollapseOrParent
    obtain n where n: "tree_node_of t (ft_selected t) = Some n" using sel by auto
    have "tree_node_of t p \<noteq> None" if "tn_parent n = Some p" for p
    proof -
      have "ft_selected t < length (ft_nodes t)" "tn_alive (ft_nodes t ! ft_selected t)" "n = ft_nodes t ! ft_selected t"
        using n by (simp_all add: tree_node_of_def live_node_iff)
      then show ?thesis
        using arenaD(7) [of "ft_nodes t" "ft_selected t"] ok that
        by (auto simp: tree_ok_def tree_node_of_def live_node_def)
    qed
    then show ?thesis
      using n CollapseOrParent collapse reshaped_ok [OF reshaped_refl(2) ok] reshaped_ok [OF reshaped_refl(1) ok sel]
      by (auto simp: collapse_or_parent_def split: option.split)
  qed (use move collapse set_children_ages [OF ok] assms(2) in
      \<open>auto simp: select_next_def select_prev_def\<close>)
qed

lemma tree_new_ok: "tree_ok (tree_new p s)"
  by (simp add: tree_ok_def tree_new_def arena_ok_def forward_def kids_of_def tree_node_of_def live_node_def)

end
