(* ===== verification/File_Tree_Churn.thy ===== *)
theory File_Tree_Churn
  imports File_Tree_Safety
begin

text \<open>
  The explorer's tree when anything may happen to it: a directory that is loaded may fail to be read
  again, and a listing may name an entry twice.  Then a node can outlive its directory, so the live
  nodes are no tree any more; \<open>loose\<close> is what remains of \<open>arena_ok\<close>, and \<open>churn_step\<close> the law of every
  operation over it.
\<close>

section \<open>The arena in order\<close>

definition loose :: "tree_node list \<Rightarrow> bool" where
  "loose ns \<longleftrightarrow> ns \<noteq> [] \<and> tn_alive (ns ! 0) \<and> forward ns \<and> (\<forall>i < length ns. tn_id (ns ! i) = i)"

lemma arena_loose: "arena_ok ns \<Longrightarrow> loose ns"
  by (auto simp: loose_def arena_ok_def)

text \<open>The second arena has the nodes of the first, with the same identity, and perhaps more, without children.\<close>

definition grown :: "tree_node list \<Rightarrow> tree_node list \<Rightarrow> bool" where
  "grown ns ns' \<longleftrightarrow> length ns \<le> length ns'
     \<and> (\<forall>j < length ns. shape (ns' ! j) = shape (ns ! j) \<and> tn_kind (ns' ! j) = tn_kind (ns ! j))
     \<and> (\<forall>j. length ns \<le> j \<and> j < length ns' \<longrightarrow> tn_id (ns' ! j) = j \<and> kids_of (ns' ! j) = [])"

lemma grown_refl [simp]: "grown ns ns"
  by (auto simp: grown_def)

lemma grown_trans:
  assumes "grown xs ys" "grown ys zs"
  shows "grown xs zs"
proof -
  have l: "length xs \<le> length ys" "length ys \<le> length zs" using assms by (simp_all add: grown_def)
  have "tn_id (zs ! j) = j \<and> kids_of (zs ! j) = []" if "length xs \<le> j" "j < length zs" for j
  proof (cases "j < length ys")
    case True
    then have "shape (zs ! j) = shape (ys ! j)" using assms(2) by (simp add: grown_def)
    from shape_fields [OF this] True that(1) assms(1) show ?thesis by (simp add: grown_def)
  next
    case False
    with that(2) assms(2) show ?thesis by (simp add: grown_def)
  qed
  with assms l show ?thesis by (simp add: grown_def)
qed

lemma grown_update:
  assumes "j < length ns" "shape n = shape (ns ! j)" "tn_kind n = tn_kind (ns ! j)"
  shows "grown ns (ns[j := n])"
  using assms by (auto simp: grown_def nth_list_update)

lemma grown_append:
  assumes "tn_id n = length ns" "tn_children n = Unloaded"
  shows "grown ns (ns @ [n])"
  using assms by (auto simp: grown_def nth_append kids_of_def)

lemma grown_fields:
  assumes "grown ns ns'" "j < length ns"
  shows "tn_id (ns' ! j) = tn_id (ns ! j)" "tn_parent (ns' ! j) = tn_parent (ns ! j)"
    "tn_name (ns' ! j) = tn_name (ns ! j)" "tn_alive (ns' ! j) = tn_alive (ns ! j)"
    "kids_of (ns' ! j) = kids_of (ns ! j)" "tn_kind (ns' ! j) = tn_kind (ns ! j)" "j < length ns'"
proof -
  have "shape (ns' ! j) = shape (ns ! j)" using assms by (simp add: grown_def)
  note s = shape_fields [OF this]
  show "tn_id (ns' ! j) = tn_id (ns ! j)" "tn_parent (ns' ! j) = tn_parent (ns ! j)"
    "tn_name (ns' ! j) = tn_name (ns ! j)" "tn_alive (ns' ! j) = tn_alive (ns ! j)"
    "kids_of (ns' ! j) = kids_of (ns ! j)" by (fact s)+
  show "tn_kind (ns' ! j) = tn_kind (ns ! j)" "j < length ns'" using assms by (auto simp: grown_def)
qed

lemma grown_loose:
  assumes "grown ns ns'" "loose ns"
  shows "loose ns'"
proof -
  have l: "length ns \<le> length ns'" "0 < length ns" using assms by (simp_all add: grown_def loose_def)
  have ids: "tn_id (ns' ! j) = j" if "j < length ns'" for j
    using assms grown_fields(1) [OF assms(1), of j] that by (cases "j < length ns") (simp_all add: loose_def grown_def)
  have "j < c \<and> c < length ns'" if c: "j < length ns'" "c \<in> set (kids_of (ns' ! j))" for j c
  proof -
    have "j < length ns" using c assms(1) by (cases "j < length ns") (auto simp: grown_def)
    moreover from this have "c \<in> set (kids_of (ns ! j))" using c grown_fields(5) [OF assms(1)] by simp
    moreover have "forward ns" using assms(2) by (simp add: loose_def)
    ultimately have "j < c" "c < length ns" using forwardD by blast+
    with l(1) show ?thesis by linarith
  qed
  then have "forward ns'" unfolding forward_def by blast
  moreover have "tn_alive (ns' ! 0)" using grown_fields(4) [OF assms(1) l(2)] assms(2) by (simp add: loose_def)
  moreover have "ns' \<noteq> []" using l by auto
  ultimately show ?thesis using ids by (simp add: loose_def)
qed

section \<open>Absorbing any listing\<close>

lemma absorb_grown:
  assumes "snd ` set ex \<subseteq> {i<..<length ns}" "length ns \<le> length ns1" "set new \<subseteq> {i<..<length ns1}"
    "i < length ns" "absorb_entries i ex es (ns1, kept, new) = (ns2, kept2, new2)"
  shows "grown ns1 ns2 \<and> set new2 \<subseteq> {i<..<length ns2}"
  using assms(2,3,5)
proof (induction es arbitrary: ns1 kept new)
  case (Cons e es)
  let ?n = "\<lparr>tn_id = length ns1, tn_parent = Some i, tn_name = de_name e, tn_path = de_path e,
      tn_kind = de_kind e, tn_expanded = False, tn_children = Unloaded, tn_alive = True\<rparr>"
  have fresh: "grown ns1 ns2 \<and> set new2 \<subseteq> {i<..<length ns2}"
    if "absorb_entries i ex es (ns1 @ [?n], kept, new @ [length ns1]) = (ns2, kept2, new2)"
  proof -
    have "grown ns1 (ns1 @ [?n])" by (rule grown_append) simp_all
    moreover have "grown (ns1 @ [?n]) ns2 \<and> set new2 \<subseteq> {i<..<length ns2}"
      using Cons.prems(1,2) assms(4) by (intro Cons.IH [OF _ _ that]) auto
    ultimately show ?thesis using grown_trans by blast
  qed
  show ?case
  proof (cases "\<exists>c. map_of ex (de_name e) = Some c \<and> map_option tn_kind (live_node ns1 c) = Some (de_kind e)")
    case True
    then obtain c where c: "map_of ex (de_name e) = Some c" "map_option tn_kind (live_node ns1 c) = Some (de_kind e)"
      by blast
    let ?ns = "ns1[c := (ns1 ! c)\<lparr>tn_path := de_path e\<rparr>]"
    have in_ex: "c \<in> snd ` set ex" using c(1) by (force dest: map_of_SomeD)
    then have cl: "i < c" "c < length ns1" using assms(1) Cons.prems(1) by auto
    have "grown ns1 ?ns" using cl by (intro grown_update) (simp_all add: shape_def)
    moreover have "absorb_entries i ex es (?ns, kept @ [c], new @ [c]) = (ns2, kept2, new2)"
      using Cons.prems(3) c by simp
    then have "grown ?ns ns2 \<and> set new2 \<subseteq> {i<..<length ns2}"
      using Cons.prems(1,2) cl by (intro Cons.IH) auto
    ultimately show ?thesis using grown_trans by blast
  next
    case False
    then have "absorb_entries i ex es (ns1 @ [?n], kept, new @ [length ns1]) = (ns2, kept2, new2)"
      using Cons.prems(3) by (auto simp: push_node_def split: option.splits if_splits)
    then show ?thesis by (rule fresh)
  qed
qed simp

lemma existing_bound:
  assumes "forward ns" "i < length ns"
  shows "snd ` set (existing_children ns (ns ! i)) \<subseteq> {i<..<length ns}"
proof -
  have upd: "snd ` set (AList.update k v al) \<subseteq> insert v (snd ` set al)" for k v and al :: "(utext \<times> node_id) list"
    by (induction al) auto
  have fold_in: "snd ` set (fold (\<lambda>(k, c). AList.update k c) xs acc) \<subseteq> snd ` set acc \<union> snd ` set xs"
    for xs and acc :: "(utext \<times> node_id) list"
  proof (induction xs arbitrary: acc)
    case (Cons x xs)
    obtain k v where x: "x = (k, v)" by (cases x)
    from upd [of k v acc] Cons.IH [of "AList.update k v acc"] 
    have "snd ` set (fold (\<lambda>(k, c). AList.update k c) xs (AList.update k v acc)) \<subseteq> insert v (snd ` set acc) \<union> snd ` set xs"
      by blast
    then show ?case unfolding x by simp
  qed simp
  let ?named = "\<lambda>c. map_option (\<lambda>n. (tn_name n, c)) (live_node ns c)"
  have "snd ` set (List.map_filter ?named cs) \<subseteq> set cs" for cs
    by (auto simp: List.map_filter_def)
  then have "snd ` set (fold (\<lambda>(k, c). AList.update k c) (List.map_filter ?named cs) []) \<subseteq> set cs" for cs
    using fold_in [of "List.map_filter ?named cs" "[]"] by fastforce
  then have "snd ` set (existing_children ns (ns ! i)) \<subseteq> set (kids_of (ns ! i))"
    by (cases "tn_children (ns ! i)") (simp_all add: existing_children_def kids_of_def)
  moreover have "set (kids_of (ns ! i)) \<subseteq> {i<..<length ns}" using forwardD [OF assms] by auto
  ultimately show ?thesis by blast
qed

lemma kill_grown_fields:
  assumes "j < length ns"
  shows "kids_of (kill D ns ! j) = kids_of (ns ! j)" "tn_id (kill D ns ! j) = tn_id (ns ! j)"
  using assms by simp_all

lemma not_killed_below:
  assumes "forward ns" "D \<subseteq> {i<..<length ns}" "j \<le> i"
  shows "\<not> killed ns D j"
  using forward_below [OF assms(1)] assms(2,3) by (fastforce simp: killed_def)

lemma set_children_churn:
  assumes ok: "loose (ft_nodes t)" and root: "ft_root t = 0" and live: "tree_node_of t i \<noteq> None"
  shows "\<exists>t'. set_children i es t = Some t' \<and> loose (ft_nodes t') \<and> ft_root t' = 0 \<and> ages t t'
    \<and> tree_node_of t' (ft_selected t') \<noteq> None"
proof -
  define ns where "ns = ft_nodes t"
  have i: "i < length ns" "tn_alive (ns ! i)" "tree_node_of t i = Some (ns ! i)"
    using live by (auto simp: ns_def tree_node_of_def live_node_def split: if_splits)
  have fw: "forward ns" using ok by (simp add: loose_def ns_def)
  define ex where "ex = existing_children ns (ns ! i)"
  have ex: "snd ` set ex \<subseteq> {i<..<length ns}" unfolding ex_def by (rule existing_bound [OF fw i(1)])
  obtain ns1 kept new where ab: "absorb_entries i ex es (ns, [], []) = (ns1, kept, new)" by (metis surj_pair)
  have g: "grown ns ns1" "set new \<subseteq> {i<..<length ns1}"
    using absorb_grown [OF ex order_refl _ i(1) ab] by simp_all
  have l1: "loose ns1" using grown_loose [OF g(1)] ok by (simp add: ns_def)
  have len: "length ns \<le> length ns1" using g(1) by (simp add: grown_def)
  define D where "D = snd ` set ex - set kept"
  have D: "D \<subseteq> {i<..<length ns1}" using ex len by (auto simp: D_def)
  define ns2 where "ns2 = kill D ns1"
  have fw1: "forward ns1" using l1 by (simp add: loose_def)
  have kv: "kill_vanished kept ex ns1 = Some ns2"
    unfolding ns2_def D_def using ex len by (intro kill_vanished_ok [OF fw1]) auto
  have i2: "i < length ns2" "tn_alive (ns2 ! i)"
    using i len grown_fields(4) [OF g(1) i(1)] not_killed_below [OF fw1 D order_refl] by (simp_all add: ns2_def)
  define ns3 where "ns3 = ns2[i := (ns2 ! i)\<lparr>tn_children := Loaded new\<rparr>]"
  let ?s = "if live_node ns3 (ft_selected t) = None then i else ft_selected t"
  have l3: "length ns3 = length ns1" by (simp add: ns3_def ns2_def)
  have live_i: "live_node ns3 i \<noteq> None" using i2 by (simp add: ns3_def live_node_def)
  have step: "set_children i es t = Some (t\<lparr>ft_nodes := ns3, ft_selected := ?s\<rparr>)"
  proof -
    have u: "update_node (\<lambda>n. n\<lparr>tn_children := Loaded new\<rparr>) i (t\<lparr>ft_nodes := ns2\<rparr>) = t\<lparr>ft_nodes := ns3\<rparr>"
      using i2 by (simp add: update_node_def tree_node_of_def live_node_def ns3_def)
    have "ancestor_loop ns3 0 (Some i) = Some i" using live_i by (subst ancestor_loop.simps) simp
    then have a: "nearest_live_ancestor (t\<lparr>ft_nodes := ns3\<rparr>) i = Some i"
      by (simp add: nearest_live_ancestor_def root)
    have n: "tree_node_of (t\<lparr>ft_nodes := ns3\<rparr>) s = live_node ns3 s" for s by (simp add: tree_node_of_def)
    show ?thesis
      by (simp add: set_children_def i(3) ns_def [symmetric] ex_def [symmetric] ab kv u Let_def a n)
  qed
  have fields: "tn_id (ns3 ! j) = tn_id (ns1 ! j)" "tn_parent (ns3 ! j) = tn_parent (ns1 ! j)"
    "tn_name (ns3 ! j) = tn_name (ns1 ! j)" "tn_kind (ns3 ! j) = tn_kind (ns1 ! j)"
    "tn_alive (ns3 ! j) = (tn_alive (ns1 ! j) \<and> \<not> killed ns1 D j)"
    "kids_of (ns3 ! j) = (if j = i then new else kids_of (ns1 ! j))" if "j < length ns1" for j
    using that i(1) len by (cases "j = i"; simp add: ns3_def ns2_def)+
  have fw3: "forward ns3"
    unfolding forward_def
  proof (intro allI impI ballI)
    fix j c assume j: "j < length ns3" "c \<in> set (kids_of (ns3 ! j))"
    show "j < c \<and> c < length ns3"
      using j g(2) fields(6) [of j] forwardD [OF fw1, of j c] l3 by (cases "j = i") auto
  qed
  have "0 < length ns1" using l1 by (simp add: loose_def)
  then have l3ok: "loose ns3"
    using l1 fw3 fields l3 not_killed_below [OF fw1 D, of 0] by (auto simp: loose_def simp flip: length_greater_0_conv)
  have "ages t (t\<lparr>ft_nodes := ns3, ft_selected := ?s\<rparr>)"
    using fields grown_fields [OF g(1)] len l3 by (auto simp: ages_def ns_def [symmetric])
  then show ?thesis using step l3ok root live_i by (auto simp: tree_node_of_def)
qed

section \<open>Drawing\<close>

lemma push_rows_churn:
  assumes "forward ns"
  shows "length ns - i \<le> k \<Longrightarrow> i < length ns \<Longrightarrow>
    \<exists>rs. push_rows k ns i depth = Some rs \<and> (live_node ns i \<noteq> None \<longrightarrow> rs \<noteq> [])
      \<and> (\<forall>r \<in> set rs. live_node ns (r_id r) \<noteq> None)"
proof (induction k arbitrary: i depth)
  case (Suc k)
  show ?case
  proof (cases "\<exists>n cs. live_node ns i = Some n \<and> tn_expanded n \<and> tn_children n = Loaded cs")
    case True
    then obtain n cs where n: "live_node ns i = Some n" "tn_expanded n" "tn_children n = Loaded cs" by blast
    then have "kids_of (ns ! i) = cs" by (simp add: live_node_def kids_of_def split: if_splits)
    then have cs: "i < c \<and> c < length ns" if "c \<in> set cs" for c using forwardD [OF assms Suc.prems(2)] that by blast
    have ih: "\<exists>rs. push_rows k ns c (depth + 1) = Some rs \<and> (\<forall>r \<in> set rs. live_node ns (r_id r) \<noteq> None)"
      if "c \<in> set cs" for c
    proof -
      have "length ns - c \<le> k" "c < length ns" using cs [OF that] Suc.prems(1) by linarith+
      from Suc.IH [OF this] show ?thesis by blast
    qed
    define f where "f c = the (push_rows k ns c (depth + 1))" for c
    have f: "push_rows k ns c (depth + 1) = Some (f c)" "\<forall>r \<in> set (f c). live_node ns (r_id r) \<noteq> None"
      if "c \<in> set cs" for c
      using ih [OF that] by (auto simp: f_def)
    have "those (map (\<lambda>c. push_rows k ns c (depth + 1)) cs) = Some (map f cs)"
      by (rule those_eq) (use f(1) in simp)
    then have "push_rows (Suc k) ns i depth = Some (row_of i depth n # concat (map f cs))"
      using n by simp
    moreover have "\<forall>r \<in> set (row_of i depth n # concat (map f cs)). live_node ns (r_id r) \<noteq> None"
      using f(2) n(1) by (auto simp: row_of_def)
    ultimately show ?thesis by blast
  next
    case False
    then have "push_rows (Suc k) ns i depth = Some (case live_node ns i of Some n \<Rightarrow> [row_of i depth n] | None \<Rightarrow> [])"
      by (auto split: option.splits child_state.splits)
    then show ?thesis by (auto simp: row_of_def split: option.splits)
  qed
qed simp

lemma move_selection_churn:
  assumes "loose (ft_nodes t)" "ft_root t = 0"
  shows "\<exists>s. move_selection delta t = Some (t\<lparr>ft_selected := s\<rparr>) \<and> tree_node_of t s \<noteq> None"
proof -
  have "forward (ft_nodes t)" "0 < length (ft_nodes t)" "live_node (ft_nodes t) 0 \<noteq> None"
    using assms(1) by (simp_all add: loose_def live_node_def)
  with push_rows_churn [of "ft_nodes t" 0 "length (ft_nodes t)" 0] obtain rs where
    rs: "visible_rows t = Some rs" "rs \<noteq> []" "\<forall>r \<in> set rs. tree_node_of t (r_id r) \<noteq> None"
    unfolding visible_rows_def assms(2) tree_node_of_def by auto
  define k where "k = nat (max 0 (min ((case row_position (ft_selected t) rs of Some k \<Rightarrow> int k | None \<Rightarrow> 0)
    + delta) (int (length rs) - 1)))"
  have "0 < length rs" using rs(2) by simp
  then have "k < length rs" unfolding k_def by linarith
  then have "tree_node_of t (r_id (rs ! k)) \<noteq> None" using rs(3) by simp
  then show ?thesis using rs(1,2) by (auto simp: move_selection_def Let_def k_def)
qed

section \<open>Every operation\<close>

lemma reshaped_churn:
  assumes "reshaped t t'" "loose (ft_nodes t)" "ft_root t = 0"
  shows "loose (ft_nodes t') \<and> ft_root t' = 0 \<and> ages t t'
    \<and> (tree_node_of t' j = None \<longleftrightarrow> tree_node_of t j = None)"
proof -
  have m: "map (\<lambda>n. (shape n, tn_kind n)) (ft_nodes t') = map (\<lambda>n. (shape n, tn_kind n)) (ft_nodes t)"
    using assms(1) by (simp add: reshaped_def)
  have l: "length (ft_nodes t') = length (ft_nodes t)" using m by (rule map_eq_imp_length_eq)
  have s: "shape (ft_nodes t' ! j) = shape (ft_nodes t ! j) \<and> tn_kind (ft_nodes t' ! j) = tn_kind (ft_nodes t ! j)"
    if "j < length (ft_nodes t)" for j
    using arg_cong [OF m, of "\<lambda>xs. xs ! j"] that l by simp
  then have g: "grown (ft_nodes t) (ft_nodes t')" using l by (auto simp: grown_def)
  then have "loose (ft_nodes t')" using grown_loose assms(2) by blast
  moreover have "ages t t'"
    unfolding ages_def l using s by (blast dest: shape_fields)
  moreover have "map shape (ft_nodes t') = map shape (ft_nodes t)"
    using arg_cong [OF m, of "map fst"] by (simp add: comp_def)
  moreover have "ft_root t' = ft_root t" using assms(1) by (simp add: reshaped_def)
  ultimately show ?thesis
    using live_node_shape [of "ft_nodes t'" "ft_nodes t" j] assms(3) by (simp add: tree_node_of_def)
qed

text \<open>A failed read drops the listing a directory had; its children stay, and stay alive.\<close>

lemma set_error_churn:
  assumes "loose (ft_nodes t)" "ft_root t = 0"
  shows "loose (ft_nodes (set_error i e t)) \<and> ft_root (set_error i e t) = 0 \<and> ages t (set_error i e t)
    \<and> (tree_node_of (set_error i e t) j = None \<longleftrightarrow> tree_node_of t j = None)
    \<and> ft_selected (set_error i e t) = ft_selected t"
proof (cases "tree_node_of t i")
  case None
  then show ?thesis using assms by (simp add: set_error_def update_node_def ages_def)
next
  case (Some n)
  let ?ns = "ft_nodes t" and ?n = "n\<lparr>tn_children := LoadError e\<rparr>"
  have i: "i < length ?ns" "n = ?ns ! i"
    using Some by (auto simp: tree_node_of_def live_node_def split: if_splits)
  have eq: "set_error i e t = t\<lparr>ft_nodes := ?ns[i := ?n]\<rparr>" using Some by (simp add: set_error_def update_node_def)
  have f: "tn_id (?ns[i := ?n] ! k) = tn_id (?ns ! k)" "tn_parent (?ns[i := ?n] ! k) = tn_parent (?ns ! k)"
    "tn_name (?ns[i := ?n] ! k) = tn_name (?ns ! k)" "tn_kind (?ns[i := ?n] ! k) = tn_kind (?ns ! k)"
    "tn_alive (?ns[i := ?n] ! k) = tn_alive (?ns ! k)"
    "kids_of (?ns[i := ?n] ! k) = (if k = i then [] else kids_of (?ns ! k))" for k
    using i by (cases "k = i"; simp)+
  have fw: "forward ?ns" using assms(1) by (simp add: loose_def)
  have "forward (?ns[i := ?n])"
    unfolding forward_def length_list_update f(6)
  proof (intro allI impI ballI)
    fix k c assume k: "k < length ?ns" "c \<in> set (if k = i then [] else kids_of (?ns ! k))"
    then have "c \<in> set (kids_of (?ns ! k))" by (cases "k = i") simp_all
    from forwardD [OF fw k(1) this] show "k < c \<and> c < length ?ns" by simp
  qed
  moreover have "?ns \<noteq> []" "tn_alive (?ns ! 0)" "\<forall>k < length ?ns. tn_id (?ns ! k) = k"
    using assms(1) by (simp_all add: loose_def)
  ultimately have "loose (?ns[i := ?n])"
    unfolding loose_def length_list_update f by simp
  moreover have "live_node (?ns[i := ?n]) j = None \<longleftrightarrow> live_node ?ns j = None"
    unfolding live_node_def length_list_update f by simp
  moreover have "ages t (t\<lparr>ft_nodes := ?ns[i := ?n]\<rparr>)"
    unfolding ages_def by (simp add: f del: nth_list_update)
  ultimately show ?thesis
    using assms(2) by (simp add: eq tree_node_of_def)
qed

lemma churn_step:
  assumes ok: "loose (ft_nodes t)" "ft_root t = 0"
  shows "\<exists>t'. tree_step op t = Some t' \<and> loose (ft_nodes t') \<and> ft_root t' = 0 \<and> ages t t'
    \<and> (tree_node_of t (ft_selected t) \<noteq> None \<and> tree_node_of t' (ft_selected t') = None \<longrightarrow>
        op = CollapseOrParent
        \<and> (\<exists>n. tree_node_of t (ft_selected t) = Some n \<and> tn_parent n = Some (ft_selected t')))"
proof -
  have same: ?thesis if "tree_step op t = Some t'" "reshaped t t'"
    "tree_node_of t (ft_selected t) \<noteq> None \<longrightarrow> tree_node_of t (ft_selected t') \<noteq> None" for t'
    using that(1,3) reshaped_churn [OF that(2) ok, of "ft_selected t'"] by (intro exI [of _ t']) auto
  have move: ?thesis if "tree_step op t = move_selection delta t" for delta
  proof -
    obtain s where "move_selection delta t = Some (t\<lparr>ft_selected := s\<rparr>)" "tree_node_of t s \<noteq> None"
      using move_selection_churn [OF ok] by blast
    then show ?thesis using that by (intro same [of "t\<lparr>ft_selected := s\<rparr>"]) simp_all
  qed
  show ?thesis
  proof (cases op)
    case (BeginLoad i)
    then show ?thesis using begin_load_reshaped [of t i] by (intro same) auto
  next
    case (ExpandNode i)
    then show ?thesis using expand_reshaped [of t i] by (intro same) auto
  next
    case (CollapseNode i)
    then show ?thesis using collapse_reshaped [of t i]
      by (intro same [of "tree_collapse i t"]) (auto simp: tree_collapse_def)
  next
    case (ToggleNode i)
    then show ?thesis using toggle_reshaped [of t i] by (intro same) auto
  next
    case (ReadFailed i e)
    then show ?thesis using set_error_churn [OF ok, of i e "ft_selected t"] by auto
  next
    case (ReadDone i es)
    show ?thesis
    proof (cases "tree_node_of t i")
      case None
      then show ?thesis using ReadDone by (intro same [of t]) (simp_all add: set_children_def)
    next
      case (Some n)
      then show ?thesis using ReadDone set_children_churn [OF ok, of i es] by auto
    qed
  next
    case (SelectNode i)
    then show ?thesis by (intro same [of "tree_select i t"]) (simp_all add: tree_select_def)
  next
    case SelectNext
    then show ?thesis by (intro move [of 1]) (simp add: select_next_def)
  next
    case SelectPrev
    then show ?thesis by (intro move [of "- 1"]) (simp add: select_prev_def)
  next
    case CollapseOrParent
    let ?t = "collapse_or_parent t"
    have "reshaped t ?t"
      using collapse_reshaped by (auto simp: collapse_or_parent_def split: option.split)
    moreover have "ft_selected ?t = ft_selected t
        \<or> (\<exists>n. tree_node_of t (ft_selected t) = Some n \<and> tn_parent n = Some (ft_selected ?t))"
      by (auto simp: collapse_or_parent_def tree_collapse_def split: option.split)
    ultimately show ?thesis
      using CollapseOrParent reshaped_churn [of t ?t, OF _ ok] by (auto intro!: exI [of _ ?t])
  qed
qed

end
