(* ===== verification/File_Tree_Claims.thy ===== *)
theory File_Tree_Claims
  imports File_Tree_Churn
begin

text \<open>
  The claims about the file explorer's tree, over the trees a client can reach from a new one:
  \<open>tree_lives\<close> by any operations, \<open>tree_reach\<close> by those that fail no read of a loaded directory and
  list no name twice.
\<close>

inductive tree_lives :: "file_tree \<Rightarrow> bool" where
  lives_new: "tree_lives (tree_new p s)"
| lives_step: "tree_lives t \<Longrightarrow> tree_step op t = Some t' \<Longrightarrow> tree_lives t'"

lemma tree_lives_loose: "tree_lives t \<Longrightarrow> loose (ft_nodes t) \<and> ft_root t = 0"
proof (induction rule: tree_lives.induct)
  case (lives_new p s)
  show ?case using arena_loose tree_new_ok [of p s] by (simp add: tree_ok_def)
next
  case (lives_step t op t')
  then show ?case using churn_step [of t op] by auto
qed

inductive tree_reach :: "file_tree \<Rightarrow> bool" where
  reach_new: "tree_reach (tree_new p s)"
| reach_step: "tree_reach t \<Longrightarrow> tree_op_allowed t op \<Longrightarrow> tree_step op t = Some t' \<Longrightarrow> tree_reach t'"

lemma tree_reach_ok: "tree_reach t \<Longrightarrow> tree_ok t"
proof (induction rule: tree_reach.induct)
  case (reach_step t op t')
  then show ?case using tree_step_ok [of t op] by auto
qed (rule tree_new_ok)

fun tree_run :: "tree_op list \<Rightarrow> file_tree \<Rightarrow> file_tree option" where
  "tree_run [] t = Some t"
| "tree_run (op # ops) t = do { t' \<leftarrow> tree_step op t; tree_run ops t' }"

fun tree_ops_allowed :: "tree_op list \<Rightarrow> file_tree \<Rightarrow> bool" where
  "tree_ops_allowed [] t \<longleftrightarrow> True"
| "tree_ops_allowed (op # ops) t \<longleftrightarrow> tree_op_allowed t op
     \<and> (case tree_step op t of Some t' \<Rightarrow> tree_ops_allowed ops t' | None \<Rightarrow> True)"

lemma tree_run_reach:
  "tree_reach t \<Longrightarrow> tree_ops_allowed ops t \<Longrightarrow> tree_run ops t = Some t' \<Longrightarrow> tree_reach t'"
  by (induction ops arbitrary: t) (simp, auto simp: bind_eq_Some_iff dest: tree_reach.intros(2))

text \<open>A directory with a subdirectory and a file, both expanded as far as they go.\<close>

definition sample_tree :: file_tree where
  "sample_tree = the (tree_run
     [ExpandNode 0,
      ReadDone 0 [\<lparr>de_name = [97], de_path = [RootDir, Normal [97]], de_kind = Dir\<rparr>,
                  \<lparr>de_name = [98], de_path = [RootDir, Normal [98]], de_kind = File\<rparr>],
      ExpandNode 1,
      ReadDone 1 [\<lparr>de_name = [99], de_path = [RootDir, Normal [97], Normal [99]], de_kind = File\<rparr>]]
     (tree_new [RootDir] [114]))"

lemma sample_tree_reach: "tree_reach sample_tree"
proof -
  let ?ops = "[ExpandNode 0,
      ReadDone 0 [\<lparr>de_name = [97], de_path = [RootDir, Normal [97]], de_kind = Dir\<rparr>,
                  \<lparr>de_name = [98], de_path = [RootDir, Normal [98]], de_kind = File\<rparr>],
      ExpandNode 1,
      ReadDone 1 [\<lparr>de_name = [99], de_path = [RootDir, Normal [97], Normal [99]], de_kind = File\<rparr>]]"
  have "tree_run ?ops (tree_new [RootDir] [114]) \<noteq> None" by code_simp
  then have "tree_run ?ops (tree_new [RootDir] [114]) = Some sample_tree" unfolding sample_tree_def by simp
  moreover have "tree_ops_allowed ?ops (tree_new [RootDir] [114])" by code_simp
  ultimately show ?thesis using tree_run_reach tree_reach.intros(1) by blast
qed

text \<open>
  C39. Whatever listings, failures and commands a tree goes through, the next operation completes: no walk
  over the arena runs forever or out of it.  Nodes are never dropped, never change their name, kind,
  parent or id, and a node that vanished never comes back.  The selection is a node that exists as long
  as no read of a loaded directory fails and no listing names an entry twice; and even after that it is
  only ever lost by stepping up to a parent that is gone.  (A failed refresh leaves the children of the
  directory behind, and then its parent can vanish without them: \<open>failed_refresh_loses_selection\<close>.)
\<close>

theorem tree_never_breaks:
  assumes "tree_lives t"
  shows "\<exists>t'. tree_step op t = Some t' \<and> ages t t'
    \<and> (tree_reach t \<and> tree_op_allowed t op \<longrightarrow>
        tree_node_of t (ft_selected t) \<noteq> None \<and> tree_node_of t' (ft_selected t') \<noteq> None)
    \<and> (tree_node_of t (ft_selected t) \<noteq> None \<and> tree_node_of t' (ft_selected t') = None \<longrightarrow>
        op = CollapseOrParent
        \<and> (\<exists>n. tree_node_of t (ft_selected t) = Some n \<and> tn_parent n = Some (ft_selected t')))"
proof -
  have "loose (ft_nodes t)" "ft_root t = 0" using tree_lives_loose [OF assms] by simp_all
  from churn_step [OF this, of op] obtain t' where t': "tree_step op t = Some t'" "ages t t'"
    "tree_node_of t (ft_selected t) \<noteq> None \<and> tree_node_of t' (ft_selected t') = None \<longrightarrow>
        op = CollapseOrParent
        \<and> (\<exists>n. tree_node_of t (ft_selected t) = Some n \<and> tn_parent n = Some (ft_selected t'))"
    by blast
  moreover have "tree_node_of t (ft_selected t) \<noteq> None \<and> tree_node_of t' (ft_selected t') \<noteq> None"
    if "tree_reach t \<and> tree_op_allowed t op"
    using tree_step_ok [OF tree_reach_ok, of t op] tree_reach_ok [of t] that t'(1) by (auto simp: tree_ok_def)
  ultimately show ?thesis by blast
qed

lemma tree_never_breaks_witness:
  "\<exists>t'. tree_step (ReadDone 0 []) sample_tree = Some t'
      \<and> tree_node_of t' (ft_selected t') \<noteq> None \<and> ages sample_tree t'"
proof -
  have "tree_lives t" if "tree_reach t" for t
    using that by (induction rule: tree_reach.induct) (auto intro: tree_lives.intros)
  from tree_never_breaks [OF this [OF sample_tree_reach], of "ReadDone 0 []"] sample_tree_reach
  show ?thesis by auto
qed

text \<open>
  A refresh of the loaded directory 1 fails, its parent is listed without it, and the left arrow takes
  the selection from the child that stayed behind to the directory that is gone.
\<close>

lemma failed_refresh_loses_selection:
  "case tree_run
      [ExpandNode 0, ReadDone 0 [\<lparr>de_name = [97], de_path = [RootDir, Normal [97]], de_kind = Dir\<rparr>],
       ExpandNode 1,
       ReadDone 1 [\<lparr>de_name = [98], de_path = [RootDir, Normal [97], Normal [98]], de_kind = File\<rparr>],
       SelectNode 2, ReadFailed 1 (NotFound [RootDir, Normal [97]]), ReadDone 0 [], CollapseOrParent]
      (tree_new [RootDir] [114]) of
     None \<Rightarrow> False
   | Some t \<Rightarrow> ft_selected t = 1 \<and> tree_node_of t 1 = None \<and> tree_node_of t 2 \<noteq> None"
  by code_simp

text \<open>
  The rows drawn are the root and everything below it whose ancestors are all expanded, each node
  once and with the fields it has, the root first; drawing ends, and the selection moves along the
  rows, resting at either end.
\<close>

theorem rows_show_open_directories:
  assumes "tree_reach t"
  shows "\<exists>rs. visible_rows t = Some rs \<and> rs \<noteq> [] \<and> hd rs = row_of 0 0 (ft_nodes t ! 0)
    \<and> distinct (map r_id rs) \<and> set (map r_id rs) = {j. (0, j) \<in> (open_rel (ft_nodes t))\<^sup>*}
    \<and> (\<forall>r \<in> set rs. r = row_of (r_id r) (r_depth r) (ft_nodes t ! r_id r))
    \<and> (\<forall>k < length rs. ft_selected t = r_id (rs ! k) \<longrightarrow>
         select_next t = Some (t\<lparr>ft_selected := r_id (rs ! min (k + 1) (length rs - 1))\<rparr>)
         \<and> select_prev t = Some (t\<lparr>ft_selected := r_id (rs ! (k - 1))\<rparr>))"
proof -
  obtain rs where rs: "visible_rows t = Some rs" "rs \<noteq> []" "hd rs = row_of 0 0 (ft_nodes t ! 0)"
    "distinct (map r_id rs)" "set (map r_id rs) = {j. (0, j) \<in> (open_rel (ft_nodes t))\<^sup>*}"
    "\<forall>r \<in> set rs. r = row_of (r_id r) (r_depth r) (ft_nodes t ! r_id r)"
    using visible_rows_ok [OF tree_reach_ok [OF assms]] by metis
  have pos: "row_position (r_id (xs ! k)) xs = Some k" if "distinct (map r_id xs)" "k < length xs" for k xs
    using that by (induction xs arbitrary: k) (auto simp: nth_Cons' image_iff split: if_splits)
  have "select_next t = Some (t\<lparr>ft_selected := r_id (rs ! min (k + 1) (length rs - 1))\<rparr>)
      \<and> select_prev t = Some (t\<lparr>ft_selected := r_id (rs ! (k - 1))\<rparr>)"
    if k: "k < length rs" "ft_selected t = r_id (rs ! k)" for k
  proof -
    have at: "nat (max 0 (min (int k + 1) (int (length rs) - 1))) = min (k + 1) (length rs - 1)"
      "nat (max 0 (min (int k + - 1) (int (length rs) - 1))) = k - 1" using k(1) by linarith+
    have row: "row_position (ft_selected t) rs = Some k" using pos [OF rs(4) k(1)] k(2) by simp
    show ?thesis
      unfolding select_next_def select_prev_def move_selection_def rs(1) by (simp only: at row rs(2) bind.bind_lunit option.case if_False if_True Let_def simp_thms)
  qed
  with rs show ?thesis by blast
qed

lemma rows_show_open_directories_witness:
  "\<exists>rs. visible_rows sample_tree = Some rs
    \<and> set (map r_id rs) = {j. (0, j) \<in> (open_rel (ft_nodes sample_tree))\<^sup>*}"
  using rows_show_open_directories [OF sample_tree_reach] by blast

text \<open>
  Absorbing a listing reconciles: the directory's children become the listed entries, in order; an
  entry listed before with the same name and kind is the same node, expanded and loaded as it was;
  every other entry is a new node.  A child that is listed no more is gone with everything below
  it, and no other node is touched.
\<close>

theorem relisting_reconciles:
  assumes "tree_reach t" and "tree_node_of t i = Some n" and "distinct (map de_name es)"
  shows "\<exists>t' new. set_children i es t = Some t' \<and> tn_children (ft_nodes t' ! i) = Loaded new
    \<and> list_all2 (lists (ft_nodes t')) es new \<and> list_all2 (identified (ft_nodes t) i) es new
    \<and> (\<forall>j < length (ft_nodes t).
         (tree_node_of t' j \<noteq> None \<longleftrightarrow> tree_node_of t j \<noteq> None
           \<and> \<not> (\<exists>c \<in> set (kids_of n) - set new. (c, j) \<in> (child_rel (ft_nodes t))\<^sup>*))
         \<and> tn_expanded (ft_nodes t' ! j) = tn_expanded (ft_nodes t ! j)
         \<and> (j \<noteq> i \<longrightarrow> tn_children (ft_nodes t' ! j) = tn_children (ft_nodes t ! j))
         \<and> (j \<notin> set new \<longrightarrow> tn_path (ft_nodes t' ! j) = tn_path (ft_nodes t ! j)))"
proof -
  obtain ns1 kept new where R: "absorbed (ft_nodes t) i es ns1 kept new"
    "set_children i es t = Some (t\<lparr>ft_nodes := relisted (ft_nodes t) i ns1 kept new,
       ft_selected := (if live_node (relisted (ft_nodes t) i ns1 kept new) (ft_selected t) = None
                       then i else ft_selected t)\<rparr>)"
    using set_children_ok [OF tree_reach_ok [OF assms(1)] assms(2,3)] by metis
  let ?ns = "ft_nodes t" and ?ns3 = "relisted (ft_nodes t) i ns1 kept new"
  note A = absorbedD [OF R(1)] and F = absorbed_fields [OF R(1)]
  have i: "i < length ?ns" "n = ?ns ! i" using assms(2) by (simp_all add: tree_node_of_def live_node_iff)
  have l: "length ?ns3 = length ns1" by (simp add: relisted_def Let_def)
  have keep: "set (kids_of n) - set new = set (kids_of (?ns ! i)) - set kept"
    using A(7) forwardD(2) [OF arenaD(1) i(1)] tree_reach_ok [OF assms(1)] i(2) by (auto simp: tree_ok_def)
  have "lists ?ns3 e c" if "lists ns1 e c" for e c
    using that i A(1) by (cases "c = i") (auto simp: lists_def relisted_def Let_def)
  then have "list_all2 (lists ?ns3) es new" using A(5) by (rule list_all2_mono [rotated])
  moreover have "(live_node ?ns3 j \<noteq> None \<longleftrightarrow> live_node ?ns j \<noteq> None
           \<and> \<not> (\<exists>c \<in> set (kids_of n) - set new. (c, j) \<in> (child_rel ?ns)\<^sup>*))
      \<and> tn_expanded (?ns3 ! j) = tn_expanded (?ns ! j)
      \<and> (j \<noteq> i \<longrightarrow> tn_children (?ns3 ! j) = tn_children (?ns ! j))
      \<and> (j \<notin> set new \<longrightarrow> tn_path (?ns3 ! j) = tn_path (?ns ! j))" if j: "j < length ?ns" for j
  proof -
    have "j \<notin> set new \<Longrightarrow> ns1 ! j = ?ns ! j" using A(3) [OF j] A(7) by simp
    then show ?thesis
      using F(4,5,8) [OF j] j A(1) l
      by (cases "j = i") (auto simp: live_node_def relisted_def Let_def killed_def keep absorbed_child_rel [OF R(1)])
  qed
  moreover have "tn_children (?ns3 ! i) = Loaded new" using i A(1) by (simp add: relisted_def Let_def)
  ultimately show ?thesis using R(2) A(6) by (auto simp: tree_node_of_def)
qed

lemma relisting_reconciles_witness:
  "\<exists>t' new. set_children 0 [\<lparr>de_name = [97], de_path = [RootDir, Normal [97]], de_kind = Dir\<rparr>] sample_tree = Some t'
    \<and> tn_children (ft_nodes t' ! 0) = Loaded new"
proof -
  have "tree_node_of sample_tree 0 \<noteq> None" by code_simp
  then obtain n where "tree_node_of sample_tree 0 = Some n" by blast
  from relisting_reconciles [OF sample_tree_reach this,
      of "[\<lparr>de_name = [97], de_path = [RootDir, Normal [97]], de_kind = Dir\<rparr>]"]
  show ?thesis by auto
qed

text \<open>A refresh of a loaded directory that fails, and the directory read again.\<close>

definition failed_refresh :: "tree_op list" where
  "failed_refresh =
     (let a = \<lparr>de_name = [97], de_path = [RootDir, Normal [97]], de_kind = Dir\<rparr>;
          d = \<lparr>de_name = [100], de_path = [RootDir, Normal [97], Normal [100]], de_kind = Dir\<rparr> in
      [ExpandNode 0, ReadDone 0 [a], ExpandNode 1, ReadDone 1 [d], ExpandNode 2, ReadDone 2 [],
       ReadFailed 1 (NotFound [RootDir, Normal [97]]),
       ExpandNode 1, ReadDone 1 [d], ExpandNode 3, ReadDone 3 []])"

text \<open>
  A read that fails on a loaded directory, as a refresh that races a rename does, leaves its
  former children alive and out of the tree.  When the directory is read again they stand beside
  the new ones with the same paths, and a change on disk refreshes the directory nobody sees: the
  one on the screen goes stale.
\<close>

theorem failed_refresh_goes_stale:
  "case tree_run failed_refresh (tree_new [RootDir] [114]) of
     None \<Rightarrow> False
   | Some t \<Rightarrow> path_of t 2 = path_of t 3 \<and> is_loaded_dir t 2 \<and> is_loaded_dir t 3
       \<and> map_option (map r_id) (visible_rows t) = Some [0, 1, 3]
       \<and> dirs_to_refresh t [[RootDir, Normal [97], Normal [100], Normal [120]]] = [2]"
  by code_simp

end
