(* ===== verification/Actions.thy ===== *)
theory Actions
  imports Std_Text
begin

text \<open>
  The command vocabulary (\<open>crates/core/src/lib.rs\<close>): the named actions that the keymap, the
  palette and the configuration files refer to by their stable ids, the commands of the shell, and
  the registry.  Ids and titles are HOL strings.
\<close>

datatype (plugins only: code) action =
    FileOpen
  | FileSave
  | FileNew
  | FolderNew
  | FileRename
  | FileDelete
  | WorkspaceSearch
  | WorkspaceRestoreDrafts
  | PaneSplitRight
  | FocusProject
  | FocusEditor
  | FocusAgent
  | TerminalNew
  | TerminalRun
  | TerminalFocus
  | TerminalNext
  | TerminalPrevious
  | TerminalRestart
  | TerminalClose
  | TerminalCopyMode
  | GitShow
  | GitStage
  | GitUnstage
  | GitCommit
  | GitBranchCheckout
  | GitFetch
  | GitPull
  | GitPush
  | TaskRun
  | TaskCancel
  | ProblemsShow
  | ProblemsNext
  | ProblemsPrevious
  | EditorGotoDefinition
  | LspHover
  | LspCompletion
  | LspReferences
  | LspDocumentSymbols
  | LspWorkspaceSymbols
  | LspRename
  | LspCodeAction
  | LspFormat
  | LspRestart
  | EditorApplyTransaction
  | AgentSessionNew
  | AgentPrompt
  | AgentMode
  | AgentProposalAccept
  | AgentProposalReject
  | HelpShow
  | ConfigReload

primrec action_id :: "action \<Rightarrow> string" where
  "action_id FileOpen = ''file.open''"
| "action_id FileSave = ''file.save''"
| "action_id FileNew = ''file.new''"
| "action_id FolderNew = ''file.new_folder''"
| "action_id FileRename = ''file.rename''"
| "action_id FileDelete = ''file.delete''"
| "action_id WorkspaceSearch = ''workspace.search''"
| "action_id WorkspaceRestoreDrafts = ''workspace.restore_drafts''"
| "action_id PaneSplitRight = ''pane.split_right''"
| "action_id FocusProject = ''focus.project''"
| "action_id FocusEditor = ''focus.editor''"
| "action_id FocusAgent = ''focus.agent''"
| "action_id TerminalNew = ''terminal.new''"
| "action_id TerminalRun = ''terminal.run''"
| "action_id TerminalFocus = ''terminal.focus''"
| "action_id TerminalNext = ''terminal.next''"
| "action_id TerminalPrevious = ''terminal.previous''"
| "action_id TerminalRestart = ''terminal.restart''"
| "action_id TerminalClose = ''terminal.close''"
| "action_id TerminalCopyMode = ''terminal.copy_mode''"
| "action_id GitShow = ''git.show''"
| "action_id GitStage = ''git.stage''"
| "action_id GitUnstage = ''git.unstage''"
| "action_id GitCommit = ''git.commit''"
| "action_id GitBranchCheckout = ''git.branch.checkout''"
| "action_id GitFetch = ''git.fetch''"
| "action_id GitPull = ''git.pull''"
| "action_id GitPush = ''git.push''"
| "action_id TaskRun = ''task.run''"
| "action_id TaskCancel = ''task.cancel''"
| "action_id ProblemsShow = ''problems.show''"
| "action_id ProblemsNext = ''problems.next''"
| "action_id ProblemsPrevious = ''problems.previous''"
| "action_id EditorGotoDefinition = ''editor.goto_definition''"
| "action_id LspHover = ''lsp.hover''"
| "action_id LspCompletion = ''lsp.completion''"
| "action_id LspReferences = ''lsp.references''"
| "action_id LspDocumentSymbols = ''lsp.symbols.document''"
| "action_id LspWorkspaceSymbols = ''lsp.symbols.workspace''"
| "action_id LspRename = ''lsp.rename''"
| "action_id LspCodeAction = ''lsp.code_action''"
| "action_id LspFormat = ''lsp.format''"
| "action_id LspRestart = ''lsp.restart''"
| "action_id EditorApplyTransaction = ''editor.apply_transaction''"
| "action_id AgentSessionNew = ''agent.session.new''"
| "action_id AgentPrompt = ''agent.prompt''"
| "action_id AgentMode = ''agent.mode''"
| "action_id AgentProposalAccept = ''agent.proposal.accept''"
| "action_id AgentProposalReject = ''agent.proposal.reject''"
| "action_id HelpShow = ''help.show''"
| "action_id ConfigReload = ''config.reload''"

primrec action_title :: "action \<Rightarrow> string" where
  "action_title FileOpen = ''Open File''"
| "action_title FileSave = ''Save File''"
| "action_title FileNew = ''New File''"
| "action_title FolderNew = ''New Folder''"
| "action_title FileRename = ''Rename''"
| "action_title FileDelete = ''Delete''"
| "action_title WorkspaceSearch = ''Search in Workspace''"
| "action_title WorkspaceRestoreDrafts = ''Workspace: Restore Drafts''"
| "action_title PaneSplitRight = ''Split Pane Right''"
| "action_title FocusProject = ''Focus Project''"
| "action_title FocusEditor = ''Focus Editor''"
| "action_title FocusAgent = ''Focus Agent''"
| "action_title TerminalNew = ''New Terminal''"
| "action_title TerminalRun = ''Run in Terminal''"
| "action_title TerminalFocus = ''Focus Terminal''"
| "action_title TerminalNext = ''Next Terminal''"
| "action_title TerminalPrevious = ''Previous Terminal''"
| "action_title TerminalRestart = ''Restart Terminal''"
| "action_title TerminalClose = ''Close Terminal''"
| "action_title TerminalCopyMode = ''Terminal Copy Mode''"
| "action_title GitShow = ''Git: Show Changes''"
| "action_title GitStage = ''Git: Stage File''"
| "action_title GitUnstage = ''Git: Unstage File''"
| "action_title GitCommit = ''Git: Commit''"
| "action_title GitBranchCheckout = ''Git: Switch Branch''"
| "action_title GitFetch = ''Git: Fetch''"
| "action_title GitPull = ''Git: Pull''"
| "action_title GitPush = ''Git: Push''"
| "action_title TaskRun = ''Run Task''"
| "action_title TaskCancel = ''Cancel Task''"
| "action_title ProblemsShow = ''Show Problems''"
| "action_title ProblemsNext = ''Next Problem''"
| "action_title ProblemsPrevious = ''Previous Problem''"
| "action_title EditorGotoDefinition = ''Code: Go to Definition''"
| "action_title LspHover = ''Code: Hover''"
| "action_title LspCompletion = ''Code: Complete''"
| "action_title LspReferences = ''Code: Find References''"
| "action_title LspDocumentSymbols = ''Code: Document Symbols''"
| "action_title LspWorkspaceSymbols = ''Code: Workspace Symbols''"
| "action_title LspRename = ''Code: Rename Symbol''"
| "action_title LspCodeAction = ''Code: Quick Fix''"
| "action_title LspFormat = ''Code: Format Document''"
| "action_title LspRestart = ''Code: Restart Language Server''"
| "action_title EditorApplyTransaction = ''Apply Edit''"
| "action_title AgentSessionNew = ''New Agent Session''"
| "action_title AgentPrompt = ''Prompt Agent''"
| "action_title AgentMode = ''Agent: Session Mode''"
| "action_title AgentProposalAccept = ''Accept Agent Edit''"
| "action_title AgentProposalReject = ''Reject Agent Edit''"
| "action_title HelpShow = ''Help: Keys and Actions''"
| "action_title ConfigReload = ''Config: Reload''"

text \<open>What an agent must ask for before it runs.\<close>

definition agent_needs_permission :: "action \<Rightarrow> bool" where
  "agent_needs_permission a \<longleftrightarrow> a \<in> {
     FileSave, FileNew, FolderNew, FileRename, FileDelete, WorkspaceRestoreDrafts, TerminalRun
     , AgentMode, GitStage, GitUnstage, GitCommit, GitBranchCheckout, GitFetch, GitPull, GitPush
     , TaskRun, LspRename, LspCodeAction, LspFormat, LspRestart, EditorApplyTransaction}"

datatype (plugins only: code) command =
    Action action
  | FocusNext
  | FocusPrev
  | GrowSidebar
  | ShrinkSidebar
  | GrowBottom
  | ShrinkBottom
  | OpenPalette
  | CloseOverlay
  | Quit
  | ExplorerNext
  | ExplorerPrev
  | ExplorerToggle
  | ExplorerCollapseOrParent
  | EditorCursorLeft
  | EditorCursorRight
  | EditorCursorUp
  | EditorCursorDown
  | EditorLineStart
  | EditorLineEnd
  | EditorInsertNewline
  | EditorBackspace
  | EditorDeleteForward
  | EditorUndo
  | EditorRedo
  | EditorFind
  | EditorFindNext
  | EditorFindPrev
  | EditorReplace
  | EditorNextTab
  | EditorPrevTab
  | EditorCloseTab
  | TerminalCopyLeft
  | TerminalCopyRight
  | TerminalCopyUp
  | TerminalCopyDown
  | TerminalCopyExtendLeft
  | TerminalCopyExtendRight
  | TerminalCopyExtendUp
  | TerminalCopyExtendDown
  | TerminalCopyPageUp
  | TerminalCopyPageDown
  | TerminalCopyConfirm
  | TerminalCopyCancel
  | TerminalScrollUp
  | TerminalScrollDown
  | AgentScrollUp
  | AgentScrollDown
  | AgentAllowOnce
  | AgentAllowAlways
  | AgentDeny

definition is_pane_focus :: "command \<Rightarrow> bool" where
  "is_pane_focus c \<longleftrightarrow>
     c \<in> {Action FocusProject, Action FocusEditor, Action FocusAgent, Action TerminalFocus}"

section \<open>The registry\<close>

type_synonym action_registry = "action list"

definition registry_with_defaults :: action_registry where
  "registry_with_defaults = [
     FileOpen, FileSave, FileNew, FolderNew, FileRename, FileDelete, WorkspaceSearch
     , WorkspaceRestoreDrafts, PaneSplitRight, FocusProject, FocusEditor, FocusAgent
     , TerminalNew, TerminalRun, TerminalFocus, TerminalNext, TerminalPrevious, TerminalRestart
     , TerminalClose, TerminalCopyMode, GitShow, GitStage, GitUnstage, GitCommit
     , GitBranchCheckout, GitFetch, GitPull, GitPush, TaskRun, TaskCancel, ProblemsShow
     , ProblemsNext, ProblemsPrevious, EditorGotoDefinition, LspHover, LspCompletion
     , LspReferences, LspDocumentSymbols, LspWorkspaceSymbols, LspRename, LspCodeAction
     , LspFormat, LspRestart, EditorApplyTransaction, AgentSessionNew, AgentPrompt, AgentMode
     , AgentProposalAccept, AgentProposalReject, HelpShow, ConfigReload]"

definition registry_ids :: "action_registry \<Rightarrow> string list" where
  "registry_ids r = map action_id r"

definition registry_find :: "action_registry \<Rightarrow> utext \<Rightarrow> action option" where
  "registry_find r t = find (\<lambda>a. ustr (action_id a) = t) r"

end
