(* ===== verification/Keymap.thy ===== *)
theory Keymap
  imports Actions Utf8 "HOL-Library.AList"
begin

text \<open>
  Keys, chords and keymaps: \<open>crates/core/src/input.rs\<close>, \<open>crates/config/src/lib.rs\<close> and the user's
  \<open>keymap.toml\<close> (\<open>crates/config/src/keymap_file.rs\<close>).  TOML is a third-party format: what its parser
  makes of the file is a parameter of \<open>apply_keymap_file\<close>.  A keymap, a hash map in the source, is
  the list of its entries in the order of an iteration, one per key; the claims hold whatever that
  order is.
\<close>

section \<open>Keys and chords\<close>

datatype key =
    Key_Char uchar
  | Key_Enter
  | Key_Esc
  | Key_Tab
  | Key_BackTab
  | Key_Backspace
  | Key_Delete
  | Key_Up
  | Key_Down
  | Key_Left
  | Key_Right
  | Key_Home
  | Key_End
  | Key_PageUp
  | Key_PageDown
  | Key_F "8 word"

record mods =
  m_ctrl :: bool
  m_alt :: bool
  m_shift :: bool

definition mods_none :: mods where
  "mods_none = \<lparr>m_ctrl = False, m_alt = False, m_shift = False\<rparr>"

definition mods_is_none :: "mods \<Rightarrow> bool" where
  "mods_is_none m \<longleftrightarrow> \<not> m_ctrl m \<and> \<not> m_alt m \<and> \<not> m_shift m"

datatype key_context = Global | Project | Editor | Agent | Terminal

record key_chord =
  kc_key :: key
  kc_mods :: mods

definition chord_new :: "key \<Rightarrow> mods \<Rightarrow> key_chord" where
  "chord_new k m = \<lparr>kc_key = k, kc_mods = m\<rparr>"

definition chord_plain :: "key \<Rightarrow> key_chord" where
  "chord_plain k = chord_new k mods_none"

definition chord_ctrl :: "key \<Rightarrow> key_chord" where
  "chord_ctrl k = chord_new k (mods_none\<lparr>m_ctrl := True\<rparr>)"

definition chord_ctrl_shift :: "key \<Rightarrow> key_chord" where
  "chord_ctrl_shift k = chord_new k (mods_none\<lparr>m_ctrl := True, m_shift := True\<rparr>)"

definition chord_alt :: "key \<Rightarrow> key_chord" where
  "chord_alt k = chord_new k (mods_none\<lparr>m_alt := True\<rparr>)"

definition chord_shift :: "key \<Rightarrow> key_chord" where
  "chord_shift k = chord_new k (mods_none\<lparr>m_shift := True\<rparr>)"

text \<open>i, m, j, h, the opening bracket, the backquote, the at sign and the space.\<close>

definition is_terminal_ambiguous :: "key_chord \<Rightarrow> bool" where
  "is_terminal_ambiguous c \<longleftrightarrow>
     (if \<not> m_ctrl (kc_mods c) \<or> m_alt (kc_mods c) then False
      else if m_shift (kc_mods c) \<and> (case kc_key c of Key_Char _ \<Rightarrow> True | _ \<Rightarrow> False) then True
      else (case kc_key c of Key_Char k \<Rightarrow> k \<in> {105, 109, 106, 104, 91, 96, 64, 32} | _ \<Rightarrow> False))"

fun key_fmt :: "key \<Rightarrow> utext" where
  "key_fmt (Key_Char c) = (if c = 32 then ustr ''Space'' else [char_to_ascii_uppercase c])"
| "key_fmt Key_Enter = ustr ''Enter''"
| "key_fmt Key_Esc = ustr ''Esc''"
| "key_fmt Key_Tab = ustr ''Tab''"
| "key_fmt Key_BackTab = ustr ''Shift+Tab''"
| "key_fmt Key_Backspace = ustr ''Backspace''"
| "key_fmt Key_Delete = ustr ''Del''"
| "key_fmt Key_Up = [0x2191]"
| "key_fmt Key_Down = [0x2193]"
| "key_fmt Key_Left = [0x2190]"
| "key_fmt Key_Right = [0x2192]"
| "key_fmt Key_Home = ustr ''Home''"
| "key_fmt Key_End = ustr ''End''"
| "key_fmt Key_PageUp = ustr ''PgUp''"
| "key_fmt Key_PageDown = ustr ''PgDn''"
| "key_fmt (Key_F n) = ustr ''F'' @ decimal (unat n)"

definition chord_fmt :: "key_chord \<Rightarrow> utext" where
  "chord_fmt c =
     (if m_ctrl (kc_mods c) then ustr ''Ctrl+'' else [])
     @ (if m_alt (kc_mods c) then ustr ''Alt+'' else [])
     @ (if m_shift (kc_mods c) \<and> kc_key c \<noteq> Key_BackTab then ustr ''Shift+'' else [])
     @ key_fmt (kc_key c)"

section \<open>Keymaps\<close>

type_synonym keymap = "((key_context \<times> key_chord) \<times> command) list"

definition keymap_new :: keymap where
  "keymap_new = []"

definition bind_in :: "key_context \<Rightarrow> key_chord \<Rightarrow> command \<Rightarrow> keymap \<Rightarrow> keymap" where
  "bind_in ctx chord cmd km = AList.update (ctx, chord) cmd km"

definition bind_global :: "key_chord \<Rightarrow> command \<Rightarrow> keymap \<Rightarrow> keymap" where
  "bind_global chord cmd km = bind_in Global chord cmd km"

definition resolve :: "keymap \<Rightarrow> key_chord \<Rightarrow> key_context \<Rightarrow> command option" where
  "resolve km chord ctx =
     (case map_of km (ctx, chord) of Some c \<Rightarrow> Some c | None \<Rightarrow> map_of km (Global, chord))"

fun chord_for_loop ::
  "keymap \<Rightarrow> command \<Rightarrow> (key_context \<times> key_chord) option \<Rightarrow> (key_context \<times> key_chord) option" where
  "chord_for_loop [] cmd best = best"
| "chord_for_loop (((ctx, chord), bound) # km) cmd best =
     (if bound \<noteq> cmd then chord_for_loop km cmd best
      else
        let better = (case best of None \<Rightarrow> True
                      | Some (c, _) \<Rightarrow> if c = Global then False else ctx = Global) in
        chord_for_loop km cmd (if better then Some (ctx, chord) else best))"

definition chord_for :: "keymap \<Rightarrow> command \<Rightarrow> key_chord option" where
  "chord_for km cmd = map_option snd (chord_for_loop km cmd None)"

definition default_bindings :: "(key_context \<times> key_chord \<times> command) list" where
  "default_bindings =
     [(Global, chord_ctrl (Key_Char 112), Action FileOpen),
      (Global, chord_plain (Key_F 10), OpenPalette),
      (Global, chord_alt (Key_Char 112), OpenPalette),
      (Global, chord_plain (Key_F 11), Action HelpShow),
      (Global, chord_alt (Key_Char 104), Action HelpShow),
      (Global, chord_ctrl (Key_Char 113), Quit),
      (Global, chord_plain Key_Esc, CloseOverlay),
      (Global, chord_plain Key_Tab, FocusNext),
      (Global, chord_plain Key_BackTab, FocusPrev),
      (Global, chord_alt Key_Left, ShrinkSidebar),
      (Global, chord_alt Key_Right, GrowSidebar),
      (Global, chord_alt Key_Up, ShrinkBottom),
      (Global, chord_alt Key_Down, GrowBottom),
      (Global, chord_plain (Key_F 1), Action FocusProject),
      (Global, chord_plain (Key_F 2), Action FocusEditor),
      (Global, chord_plain (Key_F 6), Action TerminalFocus),
      (Global, chord_plain (Key_F 7), Action FocusAgent),
      (Project, chord_plain Key_Down, ExplorerNext),
      (Project, chord_plain Key_Up, ExplorerPrev),
      (Project, chord_plain Key_Enter, ExplorerToggle),
      (Project, chord_plain Key_Right, ExplorerToggle),
      (Project, chord_plain Key_Left, ExplorerCollapseOrParent),
      (Project, chord_plain Key_Delete, Action FileDelete),
      (Editor, chord_plain Key_Left, EditorCursorLeft),
      (Editor, chord_plain Key_Right, EditorCursorRight),
      (Editor, chord_plain Key_Up, EditorCursorUp),
      (Editor, chord_plain Key_Down, EditorCursorDown),
      (Editor, chord_plain Key_Home, EditorLineStart),
      (Editor, chord_plain Key_End, EditorLineEnd),
      (Editor, chord_plain Key_Enter, EditorInsertNewline),
      (Editor, chord_plain Key_Backspace, EditorBackspace),
      (Editor, chord_plain Key_Delete, EditorDeleteForward),
      (Agent, chord_plain Key_Enter, Action AgentPrompt),
      (Agent, chord_plain (Key_Char 97), Action AgentProposalAccept),
      (Agent, chord_plain (Key_Char 114), Action AgentProposalReject),
      (Agent, chord_plain Key_Up, AgentScrollUp),
      (Agent, chord_plain Key_Down, AgentScrollDown),
      (Agent, chord_plain Key_PageUp, AgentScrollUp),
      (Agent, chord_plain Key_PageDown, AgentScrollDown),
      (Agent, chord_plain (Key_Char 121), AgentAllowOnce),
      (Agent, chord_plain (Key_Char 65), AgentAllowAlways),
      (Agent, chord_plain (Key_Char 110), AgentDeny),
      (Terminal, chord_alt (Key_Char 99), Action TerminalCopyMode),
      (Terminal, chord_plain Key_Left, TerminalCopyLeft),
      (Terminal, chord_plain Key_Right, TerminalCopyRight),
      (Terminal, chord_plain Key_Up, TerminalCopyUp),
      (Terminal, chord_plain Key_Down, TerminalCopyDown),
      (Terminal, chord_shift Key_Left, TerminalCopyExtendLeft),
      (Terminal, chord_shift Key_Right, TerminalCopyExtendRight),
      (Terminal, chord_shift Key_Up, TerminalCopyExtendUp),
      (Terminal, chord_shift Key_Down, TerminalCopyExtendDown),
      (Terminal, chord_plain Key_PageUp, TerminalCopyPageUp),
      (Terminal, chord_plain Key_PageDown, TerminalCopyPageDown),
      (Terminal, chord_plain Key_Enter, TerminalCopyConfirm),
      (Terminal, chord_plain Key_Esc, TerminalCopyCancel),
      (Terminal, chord_shift Key_PageUp, TerminalScrollUp),
      (Terminal, chord_shift Key_PageDown, TerminalScrollDown),
      (Editor, chord_ctrl (Key_Char 102), EditorFind),
      (Editor, chord_ctrl (Key_Char 114), EditorReplace),
      (Global, chord_plain (Key_F 3), EditorFindNext),
      (Global, chord_shift (Key_F 3), EditorFindPrev),
      (Global, chord_ctrl Key_Tab, EditorNextTab),
      (Global, chord_ctrl Key_BackTab, EditorPrevTab),
      (Global, chord_ctrl (Key_Char 119), EditorCloseTab),
      (Global, chord_ctrl (Key_Char 122), EditorUndo),
      (Global, chord_ctrl (Key_Char 121), EditorRedo),
      (Global, chord_ctrl (Key_Char 115), Action FileSave),
      (Global, chord_plain (Key_F 9), Action WorkspaceSearch),
      (Global, chord_alt (Key_Char 102), Action WorkspaceSearch),
      (Global, chord_plain (Key_F 5), Action TaskRun),
      (Global, chord_shift (Key_F 5), Action TaskCancel),
      (Global, chord_plain (Key_F 8), Action ProblemsNext),
      (Global, chord_shift (Key_F 8), Action ProblemsPrevious),
      (Global, chord_plain (Key_F 12), Action EditorGotoDefinition),
      (Global, chord_shift (Key_F 12), Action LspReferences),
      (Global, chord_alt (Key_Char 107), Action LspHover),
      (Global, chord_alt (Key_Char 47), Action LspCompletion),
      (Global, chord_alt (Key_Char 111), Action LspDocumentSymbols),
      (Global, chord_alt Key_Enter, Action LspCodeAction),
      (Global, chord_plain (Key_F 4), Action AgentPrompt),
      (Global, chord_alt (Key_Char 105), Action AgentPrompt),
      (Global, chord_ctrl (Key_Char 103), Action GitStage)]"

definition default_keymap :: keymap where
  "default_keymap = fold (\<lambda>(ctx, chord, cmd). bind_in ctx chord cmd) default_bindings keymap_new"

section \<open>The text of a chord\<close>

text \<open>A text between single quotes, as messages cite it.\<close>

definition quoted :: "utext \<Rightarrow> utext" where
  "quoted t = ustr [CHR 0x27] @ t @ ustr [CHR 0x27]"

definition parse_key :: "utext \<Rightarrow> utext + key" where
  "parse_key text =
     (let lower = to_ascii_lowercase text;
          named =
            (if lower = ustr ''enter'' then Some Key_Enter
             else if lower = ustr ''esc'' \<or> lower = ustr ''escape'' then Some Key_Esc
             else if lower = ustr ''tab'' then Some Key_Tab
             else if lower = ustr ''backtab'' then Some Key_BackTab
             else if lower = ustr ''backspace'' then Some Key_Backspace
             else if lower = ustr ''delete'' \<or> lower = ustr ''del'' then Some Key_Delete
             else if lower = ustr ''up'' then Some Key_Up
             else if lower = ustr ''down'' then Some Key_Down
             else if lower = ustr ''left'' then Some Key_Left
             else if lower = ustr ''right'' then Some Key_Right
             else if lower = ustr ''home'' then Some Key_Home
             else if lower = ustr ''end'' then Some Key_End
             else if lower = ustr ''pageup'' then Some Key_PageUp
             else if lower = ustr ''pagedown'' then Some Key_PageDown
             else if lower = ustr ''space'' then Some (Key_Char 32)
             else None) in
      case named of Some k \<Rightarrow> Inr k
      | None \<Rightarrow>
          (case Option.bind (strip_prefix (ustr ''f'') lower) (parse_unsigned 255) of
             Some n \<Rightarrow> Inr (Key_F (of_nat n))
           | None \<Rightarrow>
               (case text of
                  [] \<Rightarrow> Inl (quoted text @ ustr '' names no key'')
                | [c] \<Rightarrow> Inr (Key_Char c)
                | _ \<Rightarrow> Inl (ustr ''unknown key '' @ quoted text))))"

fun parse_mods :: "utext list \<Rightarrow> mods \<Rightarrow> utext + mods" where
  "parse_mods [] m = Inr m"
| "parse_mods (part # parts) m =
     (let p = to_ascii_lowercase part in
      if p = ustr ''ctrl'' then parse_mods parts (m\<lparr>m_ctrl := True\<rparr>)
      else if p = ustr ''alt'' then parse_mods parts (m\<lparr>m_alt := True\<rparr>)
      else if p = ustr ''shift'' then parse_mods parts (m\<lparr>m_shift := True\<rparr>)
      else Inl (ustr ''unknown modifier '' @ quoted p))"

definition parse_chord :: "utext \<Rightarrow> utext + key_chord" where
  "parse_chord text =
     (let parts = split_char 43 text; key_part = last parts in
      if key_part = [] then Inl (quoted text @ ustr '' names no key'')
      else (case parse_mods (butlast parts) mods_none of
              Inl e \<Rightarrow> Inl e
            | Inr m \<Rightarrow> (case parse_key key_part of Inl e \<Rightarrow> Inl e | Inr k \<Rightarrow> Inr (chord_new k m))))"

fun render_key :: "key \<Rightarrow> utext" where
  "render_key (Key_Char c) = (if c = 32 then ustr ''space'' else [c])"
| "render_key Key_Enter = ustr ''enter''"
| "render_key Key_Esc = ustr ''esc''"
| "render_key Key_Tab = ustr ''tab''"
| "render_key Key_BackTab = ustr ''backtab''"
| "render_key Key_Backspace = ustr ''backspace''"
| "render_key Key_Delete = ustr ''delete''"
| "render_key Key_Up = ustr ''up''"
| "render_key Key_Down = ustr ''down''"
| "render_key Key_Left = ustr ''left''"
| "render_key Key_Right = ustr ''right''"
| "render_key Key_Home = ustr ''home''"
| "render_key Key_End = ustr ''end''"
| "render_key Key_PageUp = ustr ''pageup''"
| "render_key Key_PageDown = ustr ''pagedown''"
| "render_key (Key_F n) = ustr ''f'' @ decimal (unat n)"

definition render_chord :: "key_chord \<Rightarrow> utext" where
  "render_chord c =
     (if m_ctrl (kc_mods c) then ustr ''ctrl+'' else [])
     @ (if m_alt (kc_mods c) then ustr ''alt+'' else [])
     @ (if m_shift (kc_mods c) then ustr ''shift+'' else [])
     @ render_key (kc_key c)"

section \<open>The user's keymap file\<close>

record config_diagnostic =
  cd_line :: "nat option"
  cd_problem :: utext
  cd_fallback :: utext

definition diagnostic :: "nat option \<Rightarrow> utext \<Rightarrow> string \<Rightarrow> config_diagnostic" where
  "diagnostic l problem fallback =
     \<lparr>cd_line = l, cd_problem = problem, cd_fallback = ustr fallback\<rparr>"

text \<open>The prefix of \<open>n\<close> bytes, unless it would end inside a char; the count is a \<open>u32\<close>.\<close>

fun byte_prefix :: "nat \<Rightarrow> utext \<Rightarrow> utext option" where
  "byte_prefix n [] = (if n = 0 then Some [] else None)"
| "byte_prefix n (c # s) =
     (if n = 0 then Some []
      else if n < length (utf8_char c) then None
      else map_option ((#) c) (byte_prefix (n - length (utf8_char c)) s))"

definition line_of_byte :: "utext \<Rightarrow> nat \<Rightarrow> nat" where
  "line_of_byte text n =
     count_list (case byte_prefix (min n (length (utf8_encode text))) text of
        Some p \<Rightarrow> p | None \<Rightarrow> text) newline mod 2 ^ 32 + 1"

record keymap_file =
  kf_version :: nat
  kf_global :: "(utext \<times> utext) list"
  kf_project :: "(utext \<times> utext) list"
  kf_editor :: "(utext \<times> utext) list"
  kf_terminal :: "(utext \<times> utext) list"
  kf_agent :: "(utext \<times> utext) list"

definition known_top_level_keys :: "utext list" where
  "known_top_level_keys =
     map ustr [''version'', ''global'', ''project'', ''editor'', ''terminal'', ''agent'']"

text \<open>One line of the file: the diagnostic it earns, or the binding it makes.\<close>

definition file_binding :: "utext \<Rightarrow> utext \<Rightarrow> config_diagnostic + (key_chord \<times> command)" where
  "file_binding chord_text act_id =
     (case parse_chord chord_text of
        Inl reason \<Rightarrow> Inl (diagnostic None (quoted chord_text @ ustr '': '' @ reason)
          ''skipping this binding'')
      | Inr chord \<Rightarrow>
          if is_terminal_ambiguous chord
          then Inl (diagnostic None (quoted chord_text @ ustr '' cannot be delivered by a terminal'')
            ''skipping this binding'')
          else (case registry_find registry_with_defaults act_id of
              None \<Rightarrow> Inl (diagnostic None (ustr ''unknown action id '' @ quoted act_id)
                ''skipping this binding'')
            | Some a \<Rightarrow> Inr (chord, Action a)))"

fun apply_bindings ::
  "(key_context \<times> utext \<times> utext) list \<Rightarrow> keymap \<times> config_diagnostic list \<Rightarrow> keymap \<times> config_diagnostic list"
where
  "apply_bindings [] (km, ps) = (km, ps)"
| "apply_bindings ((ctx, t, a) # bs) (km, ps) =
     (case file_binding t a of
        Inl d \<Rightarrow> apply_bindings bs (km, ps @ [d])
      | Inr (chord, cmd) \<Rightarrow> apply_bindings bs (bind_in ctx chord cmd km, ps))"

definition file_entries :: "keymap_file \<Rightarrow> (key_context \<times> utext \<times> utext) list" where
  "file_entries f =
     map (Pair Global) (kf_global f) @ map (Pair Project) (kf_project f)
     @ map (Pair Editor) (kf_editor f) @ map (Pair Terminal) (kf_terminal f)
     @ map (Pair Agent) (kf_agent f)"

text \<open>
  \<open>parsed\<close> is what the TOML parser makes of the text as a keymap file, an error with the byte it
  starts at and its message or the file; \<open>raw\<close> the keys of the text as a plain table, if it is one.
\<close>

definition apply_keymap_file ::
  "(nat option \<times> utext) + keymap_file \<Rightarrow> utext list option \<Rightarrow> utext \<Rightarrow> keymap
   \<Rightarrow> keymap \<times> config_diagnostic list"
where
  "apply_keymap_file parsed raw text km =
     (case parsed of
        Inl (span, msg) \<Rightarrow>
          (km, [diagnostic (map_option (line_of_byte text) span) msg ''keeping the default keymap''])
      | Inr f \<Rightarrow>
          let unknown = (case raw of None \<Rightarrow> []
                | Some ks \<Rightarrow> map (\<lambda>k. diagnostic None (ustr ''unknown key or context '' @ quoted k)
                    ''ignoring it and keeping the remaining bindings'')
                    (filter (\<lambda>k. k \<notin> set known_top_level_keys) ks));
              newer = (if kf_version f > 1
                then [diagnostic None (ustr ''version '' @ decimal (kf_version f)
                    @ ustr '' is newer than this build understands (current: 1)'')
                    ''loaded what was understood; newer bindings may not have been applied'']
                else []) in
          apply_bindings (file_entries f) (km, unknown @ newer))"

end
