(* ===== verification/Keymap_Claims.thy ===== *)
theory Keymap_Claims
  imports Keymap
begin

text \<open>
  The claims about keys, chords and keymaps: the text of a chord is read back, the compiled defaults
  do not contend for a chord, a user's file is an overlay on them, and the hint shown for a command
  is a chord that runs it.
\<close>

section \<open>The text of a chord\<close>

lemma short_lower:
  assumes "length t \<noteq> length s"
  shows "to_ascii_lowercase t \<noteq> ustr s"
  using assms by (metis length_to_ascii_lowercase length_ustr)

lemma parse_key_char: "parse_key [c] = Inr (Key_Char c)"
proof -
  obtain d where d: "to_ascii_lowercase [c] = [d]" by (simp add: to_ascii_lowercase_def)
  have "Option.bind (strip_prefix (ustr ''f'') [d]) (parse_unsigned 255) = None"
    by (auto simp: strip_prefix_def ustr_def parse_unsigned_def)
  then show ?thesis by (simp add: parse_key_def Let_def d ustr_def)
qed

lemma lower_decimal: "to_ascii_lowercase (decimal n) = decimal n"
proof -
  have "list_all is_ascii_digit s \<Longrightarrow> to_ascii_lowercase s = s" for s
    by (induction s) (auto simp: to_ascii_lowercase_def is_ascii_digit_def)
  then show ?thesis using decimal_digits by blast
qed

lemma parse_key_F: "parse_key (ustr ''f'' @ decimal (unat n)) = Inr (Key_F n)"
proof -
  have "to_ascii_lowercase (ustr ''f'' @ decimal (unat n)) = 102 # decimal (unat n)"
    using lower_decimal [of "unat n"] by (simp add: to_ascii_lowercase_def ustr_def)
  moreover have "unat n \<le> 255" using unsigned_less [where ?'a = nat, of n] by simp
  moreover obtain d ds where "decimal (unat n) = d # ds" "is_ascii_digit d"
    using decimal_digits [of "unat n"] by (cases "decimal (unat n)") auto
  ultimately show ?thesis
    using parse_decimal [of 255 "unat n"]
    by (simp add: parse_key_def Let_def ustr_def strip_prefix_def is_ascii_digit_def)
qed

lemma parse_render_key: "parse_key (render_key k) = Inr k"
proof (cases k)
  case (Key_Char c)
  then show ?thesis
    by (cases "c = 32") (simp_all add: parse_key_char, simp add: parse_key_def to_ascii_lowercase_def ustr_def)
next
  case (Key_F n)
  then show ?thesis using parse_key_F by simp
qed (simp_all add: parse_key_def to_ascii_lowercase_def ustr_def)

lemma render_key_plain: "k \<noteq> Key_Char 43 \<Longrightarrow> 43 \<notin> set (render_key k) \<and> render_key k \<noteq> []"
  by (cases k) (auto simp: ustr_def decimal_not_in is_ascii_digit_def)

text \<open>
  The text a chord is written as is read back as that chord, whatever its key and modifiers; the
  plus key is the one that cannot be written, and its text is refused, never misread.
\<close>

theorem chord_text_round_trip:
  "case parse_chord (render_chord c) of
     Inr c' \<Rightarrow> c' = c \<and> kc_key c \<noteq> Key_Char 43
   | Inl _ \<Rightarrow> kc_key c = Key_Char 43"
proof -
  obtain k m where c: "c = \<lparr>kc_key = k, kc_mods = m\<rparr>" by (cases c)
  define ps where "ps = (if m_ctrl m then [ustr ''ctrl''] else []) @ (if m_alt m then [ustr ''alt''] else [])
    @ (if m_shift m then [ustr ''shift''] else [])"
  have t: "render_chord c = concat (map (\<lambda>p. p @ [43]) ps) @ render_key k"
    by (simp add: render_chord_def c ps_def ustr_def)
  have s: "split_char 43 (concat (map (\<lambda>p. p @ [43]) ps) @ r) = ps @ split_char 43 r" for r
    by (simp add: ps_def ustr_def)
  have m: "parse_mods ps mods_none = Inr m"
    by (cases m) (simp add: ps_def mods_none_def Let_def ustr_def to_ascii_lowercase_def)
  show ?thesis
  proof (cases "k = Key_Char 43")
    case True
    have "parse_chord (render_chord c) = Inl (quoted (render_chord c) @ ustr '' names no key'')"
      using s [of "[43]"] True by (simp add: parse_chord_def t)
    with True show ?thesis by (simp add: c)
  next
    case False
    have "parse_chord (render_chord c) = Inr c"
      using render_key_plain [OF False]
      by (simp add: parse_chord_def t s split_char_none m parse_render_key chord_new_def) (simp add: c)
    with False show ?thesis by (simp add: c)
  qed
qed

section \<open>Keymaps\<close>

lemma fold_bind_in:
  assumes "distinct (map (\<lambda>(ctx, chord, _). (ctx, chord)) bs)"
  shows "map_of (fold (\<lambda>(ctx, chord, cmd). bind_in ctx chord cmd) bs km)
    = map_of km ++ map_of (map (\<lambda>(ctx, chord, cmd). ((ctx, chord), cmd)) bs)"
  using assms
proof (induction bs arbitrary: km)
  case (Cons b bs)
  obtain ctx chord cmd where b: "b = (ctx, chord, cmd)" by (cases b)
  have "(ctx, chord) \<notin> fst ` (\<lambda>(ctx, chord, cmd). ((ctx, chord), cmd)) ` set bs"
    using Cons.prems by (auto simp: b image_iff split: prod.splits)
  then have "(ctx, chord) \<notin> dom (map_of (map (\<lambda>(ctx, chord, cmd). ((ctx, chord), cmd)) bs))"
    by (simp add: dom_map_of_conv_image_fst)
  then show ?case
    using Cons by (auto simp: b bind_in_def update_conv' fun_eq_iff map_add_def domIff split: option.splits)
qed simp

lemma defaults_distinct: "distinct (map (\<lambda>(ctx, chord, _). (ctx, chord)) default_bindings)"
  by code_simp

lemma defaults_deliverable: "list_all (\<lambda>(_, chord, _). \<not> is_terminal_ambiguous chord) default_bindings"
  by code_simp

text \<open>
  The compiled keymap is what its list of bindings says: no two of them claim one chord in one
  context, every chord can be told apart by a terminal, and each is found again; and each of the
  panes can be reached by a chord that works everywhere.
\<close>

theorem defaults_do_not_collide:
  "(\<forall>(ctx, chord, cmd) \<in> set default_bindings.
      resolve default_keymap chord ctx = Some cmd \<and> \<not> is_terminal_ambiguous chord)
   \<and> length default_keymap = length default_bindings
   \<and> (\<forall>pane \<in> {FocusProject, FocusEditor, FocusAgent, TerminalFocus}. \<exists>chord.
        (Global, chord, Action pane) \<in> set default_bindings)"
proof -
  have m: "map_of default_keymap = map_of (map (\<lambda>(ctx, chord, cmd). ((ctx, chord), cmd)) default_bindings)"
    using fold_bind_in [OF defaults_distinct, of "[]"] by (simp add: default_keymap_def keymap_new_def)
  have "map_of default_keymap (ctx, chord) = Some cmd" if "(ctx, chord, cmd) \<in> set default_bindings" for ctx chord cmd
  proof -
    have "distinct (map fst (map (\<lambda>(ctx, chord, cmd). ((ctx, chord), cmd)) default_bindings))"
      using defaults_distinct by (simp add: comp_def case_prod_unfold)
    moreover have "((ctx, chord), cmd) \<in> set (map (\<lambda>(ctx, chord, cmd). ((ctx, chord), cmd)) default_bindings)"
      using that by force
    ultimately show ?thesis unfolding m by (rule map_of_is_SomeI)
  qed
  moreover have "length default_keymap = length default_bindings" by code_simp
  moreover have "(Global, chord_plain (Key_F 1), Action FocusProject) \<in> set default_bindings
      \<and> (Global, chord_plain (Key_F 2), Action FocusEditor) \<in> set default_bindings
      \<and> (Global, chord_plain (Key_F 7), Action FocusAgent) \<in> set default_bindings
      \<and> (Global, chord_plain (Key_F 6), Action TerminalFocus) \<in> set default_bindings"
    by (simp add: default_bindings_def)
  ultimately show ?thesis
    using defaults_deliverable by (auto simp: resolve_def list_all_iff)
qed

lemma defaults_do_not_collide_witness:
  "resolve default_keymap (chord_ctrl (Key_Char 115)) Editor = Some (Action FileSave)"
proof -
  have "(Global, chord_ctrl (Key_Char 115), Action FileSave) \<in> set default_bindings"
    by (simp add: default_bindings_def)
  then have "resolve default_keymap (chord_ctrl (Key_Char 115)) Global = Some (Action FileSave)"
    using defaults_do_not_collide by auto
  moreover have "map_of default_keymap (Editor, chord_ctrl (Key_Char 115)) = None" by code_simp
  ultimately show ?thesis by (simp add: resolve_def split: option.splits)
qed

lemma registry_complete: "a \<in> set registry_with_defaults"
  by (cases a) (simp_all add: registry_with_defaults_def)

lemma registry_distinct: "distinct (map action_id registry_with_defaults)"
  by code_simp

text \<open>
  Every action is registered once and has an id of its own, so that an id in a configuration file
  names exactly one action and every action can be named.
\<close>

theorem action_ids_name_actions:
  "registry_find registry_with_defaults (ustr (action_id a)) = Some a
   \<and> distinct registry_with_defaults
   \<and> (registry_find registry_with_defaults t = Some b \<longleftrightarrow> t = ustr (action_id b))"
proof -
  have inj: "action_id a = action_id b \<Longrightarrow> a = b" for a b
    using registry_distinct registry_complete by (metis distinct_map inj_on_eq_iff)
  have find: "registry_find registry_with_defaults (ustr (action_id a)) = Some a" for a
  proof (cases "registry_find registry_with_defaults (ustr (action_id a))")
    case None
    then show ?thesis using registry_complete by (auto simp: registry_find_def find_None_iff)
  next
    case (Some b)
    then have "action_id b = action_id a" by (auto simp: registry_find_def find_Some_iff)
    with inj Some show ?thesis by blast
  qed
  moreover have "t = ustr (action_id b)" if "registry_find registry_with_defaults t = Some b"
    using that by (auto simp: registry_find_def find_Some_iff)
  moreover have "distinct registry_with_defaults" using registry_distinct by (simp add: distinct_map)
  ultimately show ?thesis by auto
qed

lemma chord_for_loop_spec:
  "case chord_for_loop km cmd best of
     None \<Rightarrow> best = None \<and> (\<forall>k. (k, cmd) \<notin> set km)
   | Some (ctx, chord) \<Rightarrow> (((ctx, chord), cmd) \<in> set km \<or> best = Some (ctx, chord))
       \<and> (ctx = Global \<or> ((\<forall>ch. ((Global, ch), cmd) \<notin> set km) \<and> (\<forall>ch. best \<noteq> Some (Global, ch))))"
proof (induction km arbitrary: best)
  case (Cons e km)
  obtain ctx chord bound where e: "e = ((ctx, chord), bound)" by (metis prod.exhaust)
  have "chord_for_loop (e # km) cmd best = chord_for_loop km cmd
      (if bound = cmd \<and> (case best of None \<Rightarrow> True | Some (c, _) \<Rightarrow> c \<noteq> Global \<and> ctx = Global)
       then Some (ctx, chord) else best)"
    by (auto simp: e Let_def split: option.splits)
  then show ?case
    using Cons.IH [of "if bound = cmd \<and> (case best of None \<Rightarrow> True | Some (c, _) \<Rightarrow> c \<noteq> Global \<and> ctx = Global)
       then Some (ctx, chord) else best"]
    by (auto simp: e split: option.splits if_splits prod.splits)
qed (auto split: option.splits)

text \<open>
  The chord shown as a hint for a command is bound to it, and works everywhere when some chord
  bound to it does; there is a hint whenever the command is bound at all.  This holds in whatever
  order the hash map is walked.
\<close>

theorem hints_are_bindings:
  assumes "distinct (map fst km)"
  shows "case chord_for km cmd of
      None \<Rightarrow> \<forall>ctx chord. map_of km (ctx, chord) \<noteq> Some cmd
    | Some chord \<Rightarrow> \<exists>ctx. map_of km (ctx, chord) = Some cmd
        \<and> ((\<exists>ch. map_of km (Global, ch) = Some cmd) \<longrightarrow> map_of km (Global, chord) = Some cmd)"
  using chord_for_loop_spec [where km = km and cmd = cmd and best = None] map_of_eq_Some_iff [OF assms]
  by (fastforce simp: chord_for_def split: option.splits prod.splits)

lemma hints_are_bindings_witness:
  "case chord_for [((Editor, chord_plain Key_Enter), Quit), ((Global, chord_plain Key_Esc), Quit)] Quit of
      None \<Rightarrow> False
    | Some chord \<Rightarrow> chord = chord_plain Key_Esc"
  using hints_are_bindings [of "[((Editor, chord_plain Key_Enter), Quit), ((Global, chord_plain Key_Esc), Quit)]" Quit]
  by (simp add: chord_for_def)

section \<open>The user's file\<close>

definition accepted :: "(key_context \<times> utext \<times> utext) list \<Rightarrow> ((key_context \<times> key_chord) \<times> command) list" where
  "accepted bs = concat (map (\<lambda>(ctx, t, a). case file_binding t a of
     Inl _ \<Rightarrow> [] | Inr (chord, cmd) \<Rightarrow> [((ctx, chord), cmd)]) bs)"

definition rejected :: "(key_context \<times> utext \<times> utext) list \<Rightarrow> config_diagnostic list" where
  "rejected bs = concat (map (\<lambda>(ctx, t, a). case file_binding t a of
     Inl d \<Rightarrow> [d] | Inr _ \<Rightarrow> []) bs)"

lemma apply_bindings_eq:
  "apply_bindings bs (km, ps) = (fold (\<lambda>((ctx, chord), cmd). bind_in ctx chord cmd) (accepted bs) km, ps @ rejected bs)"
  by (induction bs arbitrary: km ps)
    (auto simp: accepted_def rejected_def split: sum.splits)

lemma map_of_fold_bind:
  "map_of (fold (\<lambda>((ctx, chord), cmd). bind_in ctx chord cmd) bs km) = map_of km ++ map_of (rev bs)"
  by (induction bs arbitrary: km) (auto simp: bind_in_def update_conv' fun_eq_iff map_add_def split: option.splits)

text \<open>
  The user's file is an overlay: a chord it binds runs what its last good line for that chord
  says, and every other chord runs what it did before.  Every line that is refused, because its
  chord cannot be read, cannot be delivered, or its action does not exist, costs exactly that
  binding and earns one diagnostic; a file that is no TOML changes nothing.
\<close>

theorem keymap_file_overlays:
  "apply_keymap_file (Inl (span, msg)) raw text km
     = (km, [diagnostic (map_option (line_of_byte text) span) msg ''keeping the default keymap''])
   \<and> (case apply_keymap_file (Inr f) raw text km of (km', ps) \<Rightarrow>
        (\<forall>ctx chord. map_of km' (ctx, chord) =
           (case map_of (rev (accepted (file_entries f))) (ctx, chord) of
              Some cmd \<Rightarrow> Some cmd | None \<Rightarrow> map_of km (ctx, chord)))
        \<and> length ps + length (accepted (file_entries f)) = length (file_entries f)
            + (case raw of None \<Rightarrow> 0 | Some ks \<Rightarrow> length (filter (\<lambda>k. k \<notin> set known_top_level_keys) ks))
            + (if kf_version f > 1 then 1 else 0))
   \<and> (\<forall>((ctx, chord), cmd) \<in> set (accepted (file_entries f)).
        \<not> is_terminal_ambiguous chord \<and> (\<exists>t a. (ctx, t, ustr (action_id a)) \<in> set (file_entries f)
          \<and> parse_chord t = Inr chord \<and> cmd = Action a))"
proof -
  have l: "length (rejected bs) + length (accepted bs) = length bs" for bs
    by (induction bs) (auto simp: accepted_def rejected_def split: sum.splits)
  have good: "\<not> is_terminal_ambiguous chord \<and> (\<exists>a. act = ustr (action_id a) \<and> parse_chord t = Inr chord \<and> cmd = Action a)"
    if "file_binding t act = Inr (chord, cmd)" for t act chord cmd
    using that by (auto simp: file_binding_def registry_find_def find_Some_iff split: sum.splits if_splits option.splits)
  have acc: "\<not> is_terminal_ambiguous chord \<and> (\<exists>t a. (ctx, t, ustr (action_id a)) \<in> set bs
      \<and> parse_chord t = Inr chord \<and> cmd = Action a)" if in_acc: "((ctx, chord), cmd) \<in> set (accepted bs)" for ctx chord cmd bs
  proof -
    obtain t act where "(ctx, t, act) \<in> set bs" "file_binding t act = Inr (chord, cmd)"
      using in_acc by (auto simp: accepted_def split: sum.splits)
    with good show ?thesis by blast
  qed
  show ?thesis
    using l [of "file_entries f"] acc [of _ _ _ "file_entries f"]
    by (auto simp: apply_keymap_file_def Let_def apply_bindings_eq map_of_fold_bind map_add_def
        split: option.splits)
qed

definition sample_keymap_file :: keymap_file where
  "sample_keymap_file =
     \<lparr>kf_version = 1, kf_global = [(ustr ''alt+g'', ustr ''git.show''), (ustr ''ctrl+i'', ustr ''git.show'')],
      kf_project = [], kf_editor = [(ustr ''alt+g'', ustr ''git.shwo'')], kf_terminal = [], kf_agent = []\<rparr>"

lemma keymap_file_overlays_witness:
  "case apply_keymap_file (Inr sample_keymap_file) None [] default_keymap of (km', ps) \<Rightarrow>
     map_of km' (Global, chord_alt (Key_Char 103)) = Some (Action GitShow)
     \<and> (\<forall>((ctx, chord), cmd) \<in> set (accepted (file_entries sample_keymap_file)).
          \<not> is_terminal_ambiguous chord) \<and> length ps = 2"
proof -
  have "accepted (file_entries sample_keymap_file) = [((Global, chord_alt (Key_Char 103)), Action GitShow)]"
    by code_simp
  moreover have "length (file_entries sample_keymap_file) = 3" "kf_version sample_keymap_file = 1" by code_simp+
  ultimately show ?thesis
    using keymap_file_overlays [of undefined undefined None "[]" default_keymap sample_keymap_file]
    by (auto split: prod.splits)
qed

end
