(* ===== verification/Permissions.thy ===== *)
theory Permissions
  imports File_Tree Std_Text
begin

text \<open>
  Remembered agent commands (\<open>crates/workspace/src/permissions.rs\<close>): the grants, the policy made of
  them, and the workspace file they are kept in.  TOML is a third-party format; \<open>toml_item\<close> is its
  data model and the parser and printer of documents are the parameter \<open>toml_api\<close>.  The filesystem
  is the record of \<open>Filesystem\<close>.
\<close>

section \<open>Paths from text\<close>

text \<open>\<open>Path::new(s).components()\<close>: empty pieces vanish, and so does a dot that does not lead.\<close>

definition piece_component :: "utext \<Rightarrow> path_component" where
  "piece_component s =
     (if s = [46] then CurDir else if s = [46, 46] then ParentDir else Normal s)"

definition path_of_text :: "utext \<Rightarrow> path" where
  "path_of_text s =
     (let ps = split_char 47 s; abs = starts_with s [47];
          lead = (if \<not> abs \<and> hd ps = [46] then [CurDir] else []) in
      (if abs then [RootDir] else []) @ lead
        @ map piece_component (filter (\<lambda>p. p \<noteq> [] \<and> p \<noteq> [46]) ps))"

definition is_absolute :: "path \<Rightarrow> bool" where
  "is_absolute p \<longleftrightarrow> p \<noteq> [] \<and> hd p = RootDir"

definition name_ok :: "utext \<Rightarrow> bool" where
  "name_ok s \<longleftrightarrow> s \<noteq> [] \<and> 47 \<notin> set s \<and> s \<noteq> [46] \<and> s \<noteq> [46, 46]"

lemma display_names:
  assumes "ns \<noteq> []" "list_all name_ok ns"
  shows "split_char 47 (path_components_display (map Normal ns)) = ns"
  using assms
proof (induction ns)
  case (Cons n ns)
  then show ?case
    by (cases ns) (simp_all add: name_ok_def split_char_none split_char_append ustr_def)
qed simp

lemma path_of_display:
  assumes "ns \<noteq> []" "list_all name_ok ns"
  shows "path_of_text (path_components_display (map Normal ns)) = map Normal ns"
proof -
  let ?t = "path_components_display (map Normal ns)"
  have s: "split_char 47 ?t = ns" by (rule display_names [OF assms])
  obtain n ms where n: "ns = n # ms" "name_ok n" using assms by (cases ns) auto
  have "\<not> starts_with ?t [47]"
  proof
    assume "starts_with ?t [47]"
    then have "hd (split_char 47 ?t) = []" by (cases ?t) (auto simp: starts_with_def)
    then show False using n s by (simp add: name_ok_def)
  qed
  moreover have "filter (\<lambda>p. p \<noteq> [] \<and> p \<noteq> [46]) ns = ns"
    using assms(2) by (intro filter_True) (auto simp: list_all_iff name_ok_def)
  moreover have "map piece_component ns = map Normal ns"
    using assms(2) by (auto simp: list_all_iff name_ok_def piece_component_def)
  ultimately show ?thesis using n s by (simp add: path_of_text_def Let_def name_ok_def)
qed

section \<open>Grants\<close>

record terminal_spec =
  ts_program :: utext
  ts_args :: "utext list"
  ts_cwd :: path
  ts_env :: "(utext \<times> utext) list"

record command_grant =
  cg_program :: utext
  cg_args :: "utext list"
  cg_cwd :: path

fun clean_absolute_loop :: "path \<Rightarrow> path \<Rightarrow> path option" where
  "clean_absolute_loop [] clean = Some clean"
| "clean_absolute_loop (c # cs) clean =
     (case c of
        ParentDir \<Rightarrow> None
      | CurDir \<Rightarrow> clean_absolute_loop cs clean
      | RootDir \<Rightarrow> clean_absolute_loop cs (path_join clean [RootDir])
      | Normal s \<Rightarrow> clean_absolute_loop cs (path_join clean [Normal s]))"

definition clean_absolute :: "path \<Rightarrow> path option" where
  "clean_absolute p = (if \<not> is_absolute p then None else clean_absolute_loop p [])"

fun clean_relative_loop :: "path \<Rightarrow> path \<Rightarrow> path option" where
  "clean_relative_loop [] clean = Some clean"
| "clean_relative_loop (c # cs) clean =
     (case c of
        Normal s \<Rightarrow> clean_relative_loop cs (path_join clean [Normal s])
      | CurDir \<Rightarrow> clean_relative_loop cs clean
      | _ \<Rightarrow> None)"

definition clean_relative :: "path \<Rightarrow> path option" where
  "clean_relative p =
     (if is_absolute p then None
      else map_option (\<lambda>c. if c = [] then [CurDir] else c) (clean_relative_loop p []))"

definition grant_from_spec :: "path \<Rightarrow> terminal_spec \<Rightarrow> command_grant option" where
  "grant_from_spec root spec =
     (if ts_program spec = [] \<or> ts_env spec \<noteq> [] then None
      else do { root' \<leftarrow> clean_absolute root;
                cwd \<leftarrow> clean_absolute (ts_cwd spec);
                relative \<leftarrow> path_strip_prefix cwd root';
                Some \<lparr>cg_program = ts_program spec, cg_args = ts_args spec,
                      cg_cwd = (if relative = [] then [CurDir] else relative)\<rparr> })"

record permission_policy =
  pp_grants :: "command_grant list"
  pp_dirty :: bool

definition policy_default :: permission_policy where
  "policy_default = \<lparr>pp_grants = [], pp_dirty = False\<rparr>"

definition permits :: "permission_policy \<Rightarrow> path \<Rightarrow> terminal_spec \<Rightarrow> bool" where
  "permits pol root spec =
     (case grant_from_spec root spec of None \<Rightarrow> False | Some g \<Rightarrow> g \<in> set (pp_grants pol))"

definition remember :: "path \<Rightarrow> terminal_spec \<Rightarrow> permission_policy \<Rightarrow> bool \<times> permission_policy" where
  "remember root spec pol =
     (case grant_from_spec root spec of None \<Rightarrow> (False, pol)
      | Some g \<Rightarrow>
          (True, if g \<notin> set (pp_grants pol)
                 then pol\<lparr>pp_grants := pp_grants pol @ [g], pp_dirty := True\<rparr> else pol))"

definition policy_mark_saved :: "permission_policy \<Rightarrow> permission_policy" where
  "policy_mark_saved pol = pol\<lparr>pp_dirty := False\<rparr>"

section \<open>The workspace file\<close>

datatype toml_item =
    TString utext
  | TArray "toml_item list"
  | TTable "(utext \<times> toml_item) list"
  | TTables "(utext \<times> toml_item) list list"
  | TOther

type_synonym toml_table = "(utext \<times> toml_item) list"

record toml_api =
  toml_parse :: "utext \<Rightarrow> string + toml_table"
  toml_print :: "toml_table \<Rightarrow> utext"

fun as_table :: "toml_item \<Rightarrow> toml_table option" where
  "as_table (TTable t) = Some t"
| "as_table _ = None"

fun as_str :: "toml_item \<Rightarrow> utext option" where
  "as_str (TString s) = Some s"
| "as_str _ = None"

fun as_array :: "toml_item \<Rightarrow> toml_item list option" where
  "as_array (TArray xs) = Some xs"
| "as_array _ = None"

fun as_array_of_tables :: "toml_item \<Rightarrow> toml_table list option" where
  "as_array_of_tables (TTables ts) = Some ts"
| "as_array_of_tables _ = None"

definition config_error :: "path \<Rightarrow> string \<Rightarrow> fs_error" where
  "config_error p msg = Other p msg"

definition settings_path :: "path \<Rightarrow> path" where
  "settings_path root = path_join (path_join root [Normal (ustr ''.termesh'')]) [Normal (ustr ''workspace.toml'')]"

definition ok_or :: "'e \<Rightarrow> 'a option \<Rightarrow> 'e + 'a" where
  "ok_or e x = (case x of None \<Rightarrow> Inl e | Some a \<Rightarrow> Inr a)"

definition sum_bind :: "'e + 'a \<Rightarrow> ('a \<Rightarrow> 'e + 'b) \<Rightarrow> 'e + 'b" where
  "sum_bind r f = (case r of Inl e \<Rightarrow> Inl e | Inr a \<Rightarrow> f a)"

fun string_args :: "fs_error \<Rightarrow> toml_item list \<Rightarrow> fs_error + utext list" where
  "string_args e [] = Inr []"
| "string_args e (x # xs) =
     (case as_str x of None \<Rightarrow> Inl e
      | Some s \<Rightarrow> sum_bind (string_args e xs) (\<lambda>ss. Inr (s # ss)))"

text \<open>The decimal index of a table, in its message.\<close>

definition indexed :: "path \<Rightarrow> nat \<Rightarrow> string \<Rightarrow> fs_error" where
  "indexed p i msg = config_error p (''command '' @ map char_of (decimal i) @ msg)"

definition grant_of_table :: "path \<Rightarrow> path \<Rightarrow> nat \<Rightarrow> toml_table \<Rightarrow> fs_error + command_grant" where
  "grant_of_table root p i t =
     (if list_ex (\<lambda>(k, _). k \<notin> {ustr ''program'', ustr ''args'', ustr ''cwd''}) t
      then Inl (indexed p i '' has an unknown field'')
      else
        sum_bind (ok_or (indexed p i '' needs a string program'')
          (Option.bind (map_of t (ustr ''program'')) as_str)) (\<lambda>prog.
        sum_bind (ok_or (indexed p i '' needs an args array'')
          (Option.bind (map_of t (ustr ''args'')) as_array)) (\<lambda>items.
        sum_bind (string_args (indexed p i '' args must be strings'') items) (\<lambda>args.
        sum_bind (ok_or (indexed p i '' needs a string cwd'')
          (Option.bind (map_of t (ustr ''cwd'')) as_str)) (\<lambda>stored.
        sum_bind (ok_or (indexed p i '' cwd must stay inside the workspace'')
          (clean_relative (path_of_text stored))) (\<lambda>relative.
        ok_or (indexed p i '' is unsafe'')
          (grant_from_spec root \<lparr>ts_program = prog, ts_args = args,
             ts_cwd = path_join root relative, ts_env = []\<rparr>)))))))"

fun policy_loop ::
  "path \<Rightarrow> path \<Rightarrow> nat \<Rightarrow> toml_table list \<Rightarrow> permission_policy \<Rightarrow> fs_error + permission_policy" where
  "policy_loop root p i [] pol = Inr pol"
| "policy_loop root p i (t # ts) pol =
     sum_bind (grant_of_table root p i t) (\<lambda>g.
       policy_loop root p (i + 1) ts
         (if g \<in> set (pp_grants pol) then pol else pol\<lparr>pp_grants := pp_grants pol @ [g]\<rparr>))"

definition policy_from_document :: "path \<Rightarrow> path \<Rightarrow> toml_table \<Rightarrow> fs_error + permission_policy" where
  "policy_from_document root p doc =
     (case map_of doc (ustr ''agent'') of None \<Rightarrow> Inr policy_default
      | Some agent \<Rightarrow>
          sum_bind (ok_or (config_error p ''agent must be a table'') (as_table agent)) (\<lambda>agent.
          case map_of agent (ustr ''permissions'') of None \<Rightarrow> Inr policy_default
          | Some perms \<Rightarrow>
              sum_bind (ok_or (config_error p ''agent.permissions must be a table'') (as_table perms)) (\<lambda>perms.
              case map_of perms (ustr ''commands'') of None \<Rightarrow> Inr policy_default
              | Some commands \<Rightarrow>
                  sum_bind (ok_or (config_error p ''agent.permissions.commands must be an array of tables'')
                    (as_array_of_tables commands)) (\<lambda>commands.
                  policy_loop root p 0 commands policy_default))))"

definition table_of_grant :: "command_grant \<Rightarrow> toml_table" where
  "table_of_grant g =
     [(ustr ''program'', TString (cg_program g)),
      (ustr ''args'', TArray (map TString (cg_args g))),
      (ustr ''cwd'', TString (path_components_display (cg_cwd g)))]"

definition replace_commands :: "path \<Rightarrow> toml_table \<Rightarrow> command_grant list \<Rightarrow> fs_error + toml_table" where
  "replace_commands p doc grants =
     (case (case map_of doc (ustr ''agent'') of None \<Rightarrow> Some [] | Some item \<Rightarrow> as_table item) of
        None \<Rightarrow> Inl (config_error p ''agent must be a table'')
      | Some agent \<Rightarrow>
          (case (case map_of agent (ustr ''permissions'') of None \<Rightarrow> Some [] | Some item \<Rightarrow> as_table item) of
             None \<Rightarrow> Inl (config_error p ''agent.permissions must be a table'')
           | Some perms \<Rightarrow>
               let perms' = AList.update (ustr ''commands'') (TTables (map table_of_grant grants)) perms;
                   agent' = AList.update (ustr ''permissions'') (TTable perms') agent in
               Inr (AList.update (ustr ''agent'') (TTable agent') doc)))"

definition parse_document :: "toml_api \<Rightarrow> path \<Rightarrow> utext \<Rightarrow> fs_error + toml_table" where
  "parse_document T p s =
     (case toml_parse T s of Inl m \<Rightarrow> Inl (config_error p m) | Inr d \<Rightarrow> Inr d)"

definition utf8_or_error :: "path \<Rightarrow> bytes \<Rightarrow> fs_error + utext" where
  "utf8_or_error p bs =
     ok_or (config_error p ''workspace settings are not valid UTF-8'') (utf8_decode bs)"

definition policy_load ::
  "toml_api \<Rightarrow> 'w fs_api \<Rightarrow> 'w \<Rightarrow> path \<Rightarrow> fs_error + permission_policy" where
  "policy_load T F w root =
     (let p = settings_path root in
      case fs_read_file F w p of
        Inl (NotFound _) \<Rightarrow> Inr policy_default
      | Inl e \<Rightarrow> Inl e
      | Inr bs \<Rightarrow>
          sum_bind (utf8_or_error p bs) (\<lambda>s.
          sum_bind (parse_document T p s) (policy_from_document root p)))"

definition policy_save ::
  "toml_api \<Rightarrow> 'w fs_api \<Rightarrow> 'w \<Rightarrow> path \<Rightarrow> permission_policy \<Rightarrow> (fs_error + unit) \<times> 'w" where
  "policy_save T F w root pol =
     (let p = settings_path root;
          document = (case fs_read_file F w p of
              Inr bs \<Rightarrow> sum_bind (utf8_or_error p bs) (parse_document T p)
            | Inl (NotFound _) \<Rightarrow> Inr []
            | Inl e \<Rightarrow> Inl e) in
      case sum_bind document (\<lambda>d. replace_commands p d (pp_grants pol)) of
        Inl e \<Rightarrow> (Inl e, w)
      | Inr doc \<Rightarrow>
          (case fs_create_dir F w (path_join root [Normal (ustr ''.termesh'')]) of
             (Inl e, w') \<Rightarrow> (Inl e, w')
           | (Inr _, w') \<Rightarrow> fs_write_file F w' p (utf8_encode (toml_print T doc))))"

end
