(* ===== verification/Permissions_Claims.thy ===== *)
theory Permissions_Claims
  imports Permissions "HOL-Library.Countable"
begin

text \<open>
  The claims about remembered commands: a policy permits exactly the commands that were remembered,
  and keeping it in the workspace file loses and adds nothing.
\<close>

section \<open>Directories of a file service\<close>

locale dir_service = file_service F ok resolve
  for F :: "'w fs_api" and ok :: "'w \<Rightarrow> bool" and resolve :: "path \<Rightarrow> path" +
  assumes create_dir_ok: "ok w \<Longrightarrow> fs_create_dir F w p = (r, w') \<Longrightarrow> ok w'"
begin

text \<open>Making a directory and writing a file: what was written is read.\<close>

lemma create_write_read:
  assumes "ok w" "fs_create_dir F w d = (r, w1)" "fs_write_file F w1 p bs = (Inr u, w2)"
  shows "fs_read_file F w2 p = Inr bs"
  using write_read [OF create_dir_ok [OF assms(1,2)] assms(3)] .

end

lemma fake_create_dir_ok: "fake_ok f \<Longrightarrow> fake_create_dir f p = (r, f') \<Longrightarrow> fake_ok f'"
  by (auto simp: fake_create_dir_def fake_ok_def Let_def insert_ancestors_ok sorted_bt_or_insert
      split: option.splits)

interpretation fake_dirs: dir_service "fake_api lower" fake_ok fake_normalize
  by unfold_locales (simp add: fake_api_def fake_create_dir_ok)

section \<open>Cleaned paths\<close>

definition plain :: "path \<Rightarrow> bool" where
  "plain p \<longleftrightarrow> CurDir \<notin> set p \<and> ParentDir \<notin> set p"

lemma clean_loop_plain: "clean_absolute_loop p acc = Some c \<Longrightarrow> plain acc \<Longrightarrow> plain c"
  by (induction p arbitrary: acc) (auto simp: plain_def path_join_def split: path_component.splits)

lemma clean_absolute_plain: "clean_absolute p = Some c \<Longrightarrow> plain c"
  using clean_loop_plain [of p "[]"] by (auto simp: clean_absolute_def plain_def split: if_splits)

lemma strip_prefix_iff: "path_strip_prefix p b = Some q \<longleftrightarrow> p = b @ q"
  by (auto simp: path_strip_prefix_def path_starts_with_def) (metis append_take_drop_id)

lemma grant_cwd:
  assumes "grant_from_spec root s = Some g"
  obtains r q where "clean_absolute root = Some r" "clean_absolute (ts_cwd s) = Some (r @ q)" "plain q"
    "cg_cwd g = (if q = [] then [CurDir] else q)" "cg_program g = ts_program s" "cg_args g = ts_args s"
    "ts_program s \<noteq> []" "ts_env s = []"
proof -
  obtain r c q where "clean_absolute root = Some r" "clean_absolute (ts_cwd s) = Some c"
    "path_strip_prefix c r = Some q"
    and g: "g = \<lparr>cg_program = ts_program s, cg_args = ts_args s, cg_cwd = (if q = [] then [CurDir] else q)\<rparr>"
    "ts_program s \<noteq> []" "ts_env s = []"
    using assms by (auto simp: grant_from_spec_def bind_eq_Some_iff split: if_splits)
  moreover from this have "c = r @ q" by (simp add: strip_prefix_iff)
  moreover from this have "plain q"
    using clean_absolute_plain [OF \<open>clean_absolute (ts_cwd s) = Some c\<close>] by (simp add: plain_def)
  ultimately show ?thesis using that by simp
qed

section \<open>The policy\<close>

definition policy_of :: "path \<Rightarrow> terminal_spec list \<Rightarrow> permission_policy" where
  "policy_of root specs = fold (\<lambda>s pol. snd (remember root s pol)) specs policy_default"

lemma policy_of_snoc: "policy_of root (specs @ [s]) = snd (remember root s (policy_of root specs))"
  by (simp add: policy_of_def)

lemma policy_of_grants:
  "set (pp_grants (policy_of root specs)) = {g. \<exists>s \<in> set specs. grant_from_spec root s = Some g}"
  "distinct (pp_grants (policy_of root specs))"
proof (induction specs rule: rev_induct)
  case (snoc s specs)
  {
    case 1
    show ?case using snoc(1) by (auto simp: policy_of_snoc remember_def split: option.split)
  next
    case 2
    show ?case using snoc(2) by (auto simp: policy_of_snoc remember_def split: option.split)
  }
qed (simp_all add: policy_of_def policy_default_def)

text \<open>A path as the operating system has them: the names hold no separator and are not dots.\<close>

definition path_ok :: "path \<Rightarrow> bool" where
  "path_ok p \<longleftrightarrow> (\<forall>s. Normal s \<in> set p \<longrightarrow> name_ok s) \<and> RootDir \<notin> set (tl p)"

lemma clean_loop_eq:
  "RootDir \<notin> set p \<Longrightarrow> clean_absolute_loop p acc =
     (if ParentDir \<in> set p then None else Some (acc @ filter (\<lambda>c. c \<noteq> CurDir) p))"
  by (induction p arbitrary: acc) (auto simp: path_join_def split: path_component.splits)

lemma clean_absolute_eq:
  assumes "path_ok p"
  shows "clean_absolute p = (if p \<noteq> [] \<and> hd p = RootDir \<and> ParentDir \<notin> set p
    then Some (filter (\<lambda>c. c \<noteq> CurDir) p) else None)"
  using assms
  by (cases p) (auto simp: clean_absolute_def is_absolute_def path_ok_def path_join_def clean_loop_eq)

section \<open>The workspace file\<close>

lemma clean_relative_names:
  assumes "ns \<noteq> []"
  shows "clean_relative (map Normal ns) = Some (map Normal ns)"
proof -
  have "clean_relative_loop (map Normal ns) acc = Some (acc @ map Normal ns)" for acc
    by (induction ns arbitrary: acc) (simp_all add: path_join_def)
  then show ?thesis using assms by (cases ns) (simp_all add: clean_relative_def is_absolute_def)
qed

text \<open>What a grant needs to be read back as it was written.\<close>

definition grant_ok :: "path \<Rightarrow> command_grant \<Rightarrow> bool" where
  "grant_ok root g \<longleftrightarrow> cg_program g \<noteq> []
     \<and> (cg_cwd g = [CurDir] \<or> (\<exists>ns. ns \<noteq> [] \<and> list_all name_ok ns \<and> cg_cwd g = map Normal ns))
     \<and> path_ok root \<and> (\<exists>r. clean_absolute root = Some r)"

lemma grant_from_spec_ok:
  assumes "grant_from_spec root s = Some g" "path_ok root" "path_ok (ts_cwd s)"
  shows "grant_ok root g"
proof -
  obtain r q where q: "clean_absolute root = Some r" "clean_absolute (ts_cwd s) = Some (r @ q)"
    "cg_cwd g = (if q = [] then [CurDir] else q)" "cg_program g = ts_program s" "ts_program s \<noteq> []"
    using grant_cwd [OF assms(1)] by metis
  obtain cs where cs: "ts_cwd s = RootDir # cs" "ParentDir \<notin> set cs" "r @ q = RootDir # filter (\<lambda>c. c \<noteq> CurDir) cs"
    using q(2) clean_absolute_eq [OF assms(3)] by (cases "ts_cwd s") (auto split: if_splits)
  have "r \<noteq> []" using q(1) clean_absolute_eq [OF assms(2)] by (cases root) (auto split: if_splits)
  then obtain r' where r': "r' @ q = filter (\<lambda>c. c \<noteq> CurDir) cs" using cs(3) by (cases r) auto
  have "set q \<subseteq> set cs - {CurDir}" using arg_cong [OF r', of set] by auto
  then have "\<forall>c \<in> set q. \<exists>n. c = Normal n \<and> name_ok n"
    using assms(3) cs(1,2) unfolding path_ok_def
    by (metis Diff_iff insertI1 list.sel(3) list.set_intros(2) path_component.exhaust subsetD)
  then have "\<exists>ns. list_all name_ok ns \<and> q = map Normal ns"
  proof (induction q)
    case (Cons c q)
    then obtain n ns where "c = Normal n" "name_ok n" "list_all name_ok ns" "q = map Normal ns" by auto
    then show ?case by (intro exI [of _ "n # ns"]) simp
  qed simp
  then show ?thesis using q assms(2) by (auto simp: grant_ok_def)
qed

lemma grant_of_table_of_grant:
  assumes "grant_ok root g"
  shows "grant_of_table root p i (table_of_grant g) = Inr g"
proof -
  obtain r where r: "clean_absolute root = Some r" and rp: "path_ok root" "cg_program g \<noteq> []"
    using assms by (auto simp: grant_ok_def)
  have args: "string_args e (map TString as) = Inr as" for e as
    by (induction as) (simp_all add: sum_bind_def)
  have root: "root \<noteq> []" "hd root = RootDir" "ParentDir \<notin> set root" "r = filter (\<lambda>c. c \<noteq> CurDir) root"
    using r clean_absolute_eq [OF rp(1)] by (auto split: if_splits)
  have keys: "distinct [ustr ''program'', ustr ''args'', ustr ''cwd'']" by (simp add: ustr_def)
  have "\<exists>rel. clean_relative (path_of_text (path_components_display (cg_cwd g))) = Some rel
      \<and> grant_from_spec root \<lparr>ts_program = cg_program g, ts_args = cg_args g,
          ts_cwd = path_join root rel, ts_env = []\<rparr> = Some g"
  proof (cases "cg_cwd g = [CurDir]")
    case True
    have "path_of_text (path_components_display [CurDir]) = [CurDir]"
      by (simp add: path_of_text_def ustr_def starts_with_def)
    moreover have "clean_relative [CurDir] = Some [CurDir]" by (simp add: clean_relative_def is_absolute_def)
    moreover have "clean_absolute (root @ [CurDir]) = Some r"
      using root rp by (subst clean_absolute_eq) (auto simp: path_ok_def tl_append split: list.split)
    ultimately show ?thesis
      using True rp(2) r by (simp add: grant_from_spec_def path_join_def strip_prefix_iff [THEN iffD2])
  next
    case False
    then obtain ns where ns: "ns \<noteq> []" "list_all name_ok ns" "cg_cwd g = map Normal ns"
      using assms by (auto simp: grant_ok_def)
    have "clean_absolute (root @ map Normal ns) = Some (r @ map Normal ns)"
      using root rp ns by (subst clean_absolute_eq)
        (auto simp: path_ok_def tl_append list_all_iff filter_map comp_def split: list.split)
    moreover have "path_join root (map Normal ns) = root @ map Normal ns"
      using ns(1) by (cases ns) (simp_all add: path_join_def)
    moreover have "path_strip_prefix (r @ map Normal ns) r = Some (map Normal ns)" by (simp add: strip_prefix_iff)
    ultimately show ?thesis
      using rp(2) r ns path_of_display [OF ns(1,2)] clean_relative_names [OF ns(1)]
      by (simp add: grant_from_spec_def)
  qed
  then show ?thesis
    using keys by (auto simp: grant_of_table_def table_of_grant_def sum_bind_def ok_or_def args)
qed

lemma policy_loop_tables:
  assumes "\<forall>g \<in> set gs. grant_ok root g" "distinct (pp_grants pol @ gs)"
  shows "policy_loop root p i (map table_of_grant gs) pol = Inr (pol\<lparr>pp_grants := pp_grants pol @ gs\<rparr>)"
  using assms
  by (induction gs arbitrary: pol i) (simp_all add: grant_of_table_of_grant sum_bind_def)

lemma replaced_is_read:
  assumes "replace_commands p d gs = Inr d'" "\<forall>g \<in> set gs. grant_ok root g" "distinct gs"
  shows "policy_from_document root p' d' = Inr \<lparr>pp_grants = gs, pp_dirty = False\<rparr>"
proof -
  obtain agent perms where "d' = AList.update (ustr ''agent'') (TTable (AList.update (ustr ''permissions'')
      (TTable (AList.update (ustr ''commands'') (TTables (map table_of_grant gs)) perms)) agent)) d"
    using assms(1) by (force simp: replace_commands_def Let_def simp del: update.simps split: option.split_asm)
  then show ?thesis
    using policy_loop_tables [OF assms(2), of policy_default p' 0] assms(3)
    by (simp add: policy_from_document_def update_conv' sum_bind_def ok_or_def policy_default_def)
qed

text \<open>
  What is remembered survives the workspace file: when the policy is saved through a filesystem
  that keeps what is written, loading gives exactly the same grants, whatever else the file holds,
  provided that the TOML printer's output is parsed back.
\<close>

theorem permissions_round_trip:
  assumes "dir_service F ok resolve" and "ok w"
    and "\<And>d. toml_parse T (toml_print T d) = Inr d" and "\<And>d. valid_text (toml_print T d)"
    and "path_ok root" and "\<forall>s \<in> set specs. path_ok (ts_cwd s)"
    and "policy_save T F w root (policy_of root specs) = (Inr u, w')"
  shows "policy_load T F w' root = Inr (policy_mark_saved (policy_of root specs))"
proof -
  let ?p = "settings_path root" and ?gs = "pp_grants (policy_of root specs)"
  obtain d w1 v d0 where d: "replace_commands ?p d0 ?gs = Inr d"
    "fs_create_dir F w (path_join root [Normal (ustr ''.termesh'')]) = (Inr v, w1)"
    "fs_write_file F w1 ?p (utf8_encode (toml_print T d)) = (Inr u, w')"
    using assms(7) by (auto simp: policy_save_def Let_def sum_bind_def split: sum.splits prod.splits)
  have "fs_read_file F w' ?p = Inr (utf8_encode (toml_print T d))"
    using dir_service.create_write_read [OF assms(1,2) d(2,3)] .
  moreover have "\<forall>g \<in> set ?gs. grant_ok root g"
    using grant_from_spec_ok [OF _ assms(5)] assms(6) by (auto simp: policy_of_grants(1))
  then have "policy_from_document root ?p d = Inr \<lparr>pp_grants = ?gs, pp_dirty = False\<rparr>"
    by (rule replaced_is_read [OF d(1) _ policy_of_grants(2)])
  ultimately show ?thesis
    by (simp add: policy_load_def Let_def utf8_or_error_def ok_or_def utf8_decode_encode assms(3,4)
        sum_bind_def parse_document_def policy_mark_saved_def)
qed

text \<open>A printer and parser of documents, by numbering them.\<close>

instance toml_item :: countable by countable_datatype

definition counting_toml :: toml_api where
  "counting_toml = \<lparr>toml_parse = \<lambda>s. Inr (from_nat (length s)), toml_print = \<lambda>d. replicate (to_nat d) 97\<rparr>"

definition sample_spec :: terminal_spec where
  "sample_spec = \<lparr>ts_program = ustr ''cargo'', ts_args = [ustr ''test''],
     ts_cwd = [RootDir, Normal [119], CurDir, Normal [97]], ts_env = []\<rparr>"

text \<open>
  C40. Remembering commands permits exactly those commands again: a command runs without a question if
  and only if a remembered one has the same program and arguments, neither sets any environment
  variable, and the two run in the same place, read lexically, inside the workspace.
\<close>

theorem only_remembered_commands_run:
  "permits (policy_of root specs) root spec \<longleftrightarrow>
    (\<exists>s \<in> set specs. ts_program s = ts_program spec \<and> ts_args s = ts_args spec \<and> ts_program spec \<noteq> []
       \<and> ts_env s = [] \<and> ts_env spec = []
       \<and> (\<exists>r q. clean_absolute root = Some r \<and> clean_absolute (ts_cwd s) = Some (r @ q)
            \<and> clean_absolute (ts_cwd spec) = Some (r @ q)))"
proof
  assume "permits (policy_of root specs) root spec"
  then obtain g s where g: "grant_from_spec root spec = Some g" "s \<in> set specs" "grant_from_spec root s = Some g"
    by (auto simp: permits_def policy_of_grants split: option.splits)
  obtain r q where 1: "clean_absolute root = Some r" "clean_absolute (ts_cwd spec) = Some (r @ q)" "plain q"
    "cg_cwd g = (if q = [] then [CurDir] else q)" "cg_program g = ts_program spec" "cg_args g = ts_args spec"
    "ts_program spec \<noteq> []" "ts_env spec = []" using grant_cwd [OF g(1)] by metis
  obtain r' q' where 2: "clean_absolute root = Some r'" "clean_absolute (ts_cwd s) = Some (r' @ q')" "plain q'"
    "cg_cwd g = (if q' = [] then [CurDir] else q')" "cg_program g = ts_program s" "cg_args g = ts_args s"
    "ts_env s = []" using grant_cwd [OF g(3)] by metis
  have "(if q = [] then [CurDir] else q) = (if q' = [] then [CurDir] else q')" using 1(4) 2(4) by simp
  then have "q = q'" using 1(3) 2(3) by (auto simp: plain_def split: if_splits)
  with 1 2 g(2) show "\<exists>s \<in> set specs. ts_program s = ts_program spec \<and> ts_args s = ts_args spec \<and> ts_program spec \<noteq> []
       \<and> ts_env s = [] \<and> ts_env spec = []
       \<and> (\<exists>r q. clean_absolute root = Some r \<and> clean_absolute (ts_cwd s) = Some (r @ q)
            \<and> clean_absolute (ts_cwd spec) = Some (r @ q))" by auto
next
  assume "\<exists>s \<in> set specs. ts_program s = ts_program spec \<and> ts_args s = ts_args spec \<and> ts_program spec \<noteq> []
       \<and> ts_env s = [] \<and> ts_env spec = []
       \<and> (\<exists>r q. clean_absolute root = Some r \<and> clean_absolute (ts_cwd s) = Some (r @ q)
            \<and> clean_absolute (ts_cwd spec) = Some (r @ q))"
  then obtain s r q where s: "s \<in> set specs" "ts_program s = ts_program spec" "ts_args s = ts_args spec"
    "ts_program spec \<noteq> []" "ts_env s = []" "ts_env spec = []" "clean_absolute root = Some r"
    "clean_absolute (ts_cwd s) = Some (r @ q)" "clean_absolute (ts_cwd spec) = Some (r @ q)" by blast
  then have "grant_from_spec root s = grant_from_spec root spec" "grant_from_spec root spec \<noteq> None"
    by (simp_all add: grant_from_spec_def strip_prefix_iff [THEN iffD2])
  with s(1) show "permits (policy_of root specs) root spec"
    by (auto simp: permits_def policy_of_grants)
qed

lemma only_remembered_commands_run_witness:
  "permits (policy_of [RootDir, Normal [119]] [sample_spec]) [RootDir, Normal [119]]
     (sample_spec\<lparr>ts_cwd := [RootDir, Normal [119], Normal [97]]\<rparr>)"
  using only_remembered_commands_run [of "[RootDir, Normal [119]]" "[sample_spec]"]
  by (simp add: sample_spec_def ustr_def clean_absolute_def is_absolute_def path_join_def)

lemma permissions_round_trip_witness:
  "\<exists>w'. policy_load counting_toml (fake_api id) w' [RootDir]
     = Inr (policy_mark_saved (policy_of [RootDir] [sample_spec]))"
proof -
  let ?p = "[RootDir, Normal (ustr ''.termesh''), Normal (ustr ''workspace.toml'')]"
  let ?d = "[RootDir, Normal (ustr ''.termesh'')]"
  have sp: "settings_path [RootDir] = ?p" "path_join [RootDir] [Normal (ustr ''.termesh'')] = ?d"
    by (simp_all add: settings_path_def path_join_def)
  have nz: "fake_normalize ?p = ?p" "fake_normalize ?d = ?d" "\<And>f. ff_failures f = [] \<Longrightarrow> check_failure f q = None" for q
    by (simp_all add: fake_normalize_def path_join_def check_failure_def)
  obtain f1 where f1: "fake_create_dir fake_new ?d = (Inr (), f1)" "ff_failures f1 = []"
    by (simp add: fake_create_dir_def nz fake_new_def Let_def)
  have "\<exists>w'. fake_write_file f1 ?p bs = (Inr (), w')" for bs
    by (simp add: fake_write_file_def nz f1(2) Let_def)
  moreover have "fake_read_file fake_new ?p = Inl (NotFound ?p)"
    by (simp add: fake_read_file_def nz fake_new_def Let_def)
  moreover obtain doc where "replace_commands ?p [] (pp_grants (policy_of [RootDir] [sample_spec])) = Inr doc"
    by (simp add: replace_commands_def)
  ultimately have "\<exists>w'. policy_save counting_toml (fake_api id) fake_new [RootDir] (policy_of [RootDir] [sample_spec]) = (Inr (), w')"
    by (simp add: policy_save_def sp fake_api_def Let_def sum_bind_def f1(1))
  then obtain w' where saved: "policy_save counting_toml (fake_api id) fake_new [RootDir] (policy_of [RootDir] [sample_spec])
      = (Inr (), w')" by blast
  have ok: "fake_ok fake_new" by (simp add: fake_ok_def fake_new_def)
  from permissions_round_trip [OF fake_dirs.dir_service_axioms ok _ _ _ _ saved] show ?thesis
    by (auto simp: counting_toml_def valid_text_def list_all_iff valid_char_def path_ok_def sample_spec_def
        name_ok_def ustr_def)
qed

end
