(* ===== verification/Json.thy ===== *)
theory Json
  imports Std_Text
begin

text \<open>
  JSON values as \<open>serde_json\<close> has them, with the accessors the source uses, and the JSON-RPC messages
  of the two protocols: \<open>crates/lsp/src/jsonrpc.rs\<close> and \<open>crates/agent/src/jsonrpc.rs\<close>.  A float is an
  opaque number; the text of a value is read and written by a third-party library and a parameter.
\<close>

section \<open>Values\<close>

datatype json =
    JNull
  | JBool bool
  | JInt int
  | JFloat nat
  | JString utext
  | JArray "json list"
  | JObject "(utext \<times> json) list"

fun jget :: "json \<Rightarrow> string \<Rightarrow> json option" where
  "jget (JObject fs) k = map_of fs (ustr k)"
| "jget _ k = None"

fun as_u64 :: "json \<Rightarrow> nat option" where
  "as_u64 (JInt i) = (if 0 \<le> i \<and> i < 2 ^ 64 then Some (nat i) else None)"
| "as_u64 _ = None"

fun as_i64 :: "json \<Rightarrow> int option" where
  "as_i64 (JInt i) = (if - (2 ^ 63) \<le> i \<and> i < 2 ^ 63 then Some i else None)"
| "as_i64 _ = None"

fun as_string :: "json \<Rightarrow> utext option" where
  "as_string (JString s) = Some s"
| "as_string _ = None"

fun as_bool :: "json \<Rightarrow> bool option" where
  "as_bool (JBool b) = Some b"
| "as_bool _ = None"

fun as_list :: "json \<Rightarrow> json list option" where
  "as_list (JArray vs) = Some vs"
| "as_list _ = None"

definition or_null :: "json option \<Rightarrow> json" where
  "or_null v = (case v of Some j \<Rightarrow> j | None \<Rightarrow> JNull)"

definition or_default :: "'a \<Rightarrow> 'a option \<Rightarrow> 'a" where
  "or_default d v = (case v of Some a \<Rightarrow> a | None \<Rightarrow> d)"

text \<open>\<open>value.get(key).and_then(Value::as_str)\<close>.\<close>

definition get_string :: "json \<Rightarrow> string \<Rightarrow> utext option" where
  "get_string v k = Option.bind (jget v k) as_string"


abbreviation jobj :: "(string \<times> json) list \<Rightarrow> json" where
  "jobj fs \<equiv> JObject (map (\<lambda>(k, v). (ustr k, v)) fs)"

section \<open>Messages\<close>

datatype rpc_message =
    Request nat utext json
  | Response nat json
  | Error nat int utext
  | Notification utext json

definition encode_value :: "rpc_message \<Rightarrow> json" where
  "encode_value m =
     (let v = (''jsonrpc'', JString (ustr ''2.0'')) in
      case m of
        Request i meth params \<Rightarrow>
          jobj [v, (''id'', JInt (int i)), (''method'', JString meth), (''params'', params)]
      | Response i r \<Rightarrow> jobj [v, (''id'', JInt (int i)), (''result'', r)]
      | Error i c msg \<Rightarrow>
          jobj [v, (''id'', JInt (int i)), (''error'', jobj [(''code'', JInt c), (''message'', JString msg)])]
      | Notification meth params \<Rightarrow> jobj [v, (''method'', JString meth), (''params'', params)])"

text \<open>\<open>None\<close> is a value that is no message; the callers wrap it in their own errors.\<close>

definition decode_value :: "json \<Rightarrow> rpc_message option" where
  "decode_value v =
     (let i = Option.bind (jget v ''id'') as_u64;
          meth = Option.bind (jget v ''method'') as_string;
          params = or_null (jget v ''params'') in
      case (i, meth) of
        (Some i, Some meth) \<Rightarrow> Some (Request i meth params)
      | (None, Some meth) \<Rightarrow> Some (Notification meth params)
      | (Some i, None) \<Rightarrow>
          (case jget v ''error'' of
             Some e \<Rightarrow> Some (Error i (or_default 0 (Option.bind (jget e ''code'') as_i64))
               (or_default (ustr ''unknown error'') (Option.bind (jget e ''message'') as_string)))
           | None \<Rightarrow> Some (Response i (or_null (jget v ''result''))))
      | (None, None) \<Rightarrow> None)"

text \<open>The language-server side: a value in, a message or \<open>Malformed\<close>.\<close>

datatype lsp_decode_error = LspMalformed utext

definition lsp_decode :: "(json \<Rightarrow> utext) \<Rightarrow> json \<Rightarrow> lsp_decode_error + rpc_message" where
  "lsp_decode show_json v =
     (case decode_value v of Some m \<Rightarrow> Inr m | None \<Rightarrow> Inl (LspMalformed (show_json v)))"

text \<open>The agent side: one message per line.\<close>

datatype acp_decode_error = NotJson utext | Malformed utext

definition is_whitespace :: "uchar \<Rightarrow> bool" where
  "is_whitespace c \<longleftrightarrow> (9 \<le> c \<and> c \<le> 13) \<or> (0x2000 \<le> c \<and> c \<le> 0x200A)
     \<or> c \<in> {32, 0x85, 0xA0, 0x1680, 0x2028, 0x2029, 0x202F, 0x205F, 0x3000}"

definition trim :: "utext \<Rightarrow> utext" where
  "trim s = rev (dropWhile is_whitespace (rev (dropWhile is_whitespace s)))"

definition acp_encode :: "(json \<Rightarrow> utext) \<Rightarrow> rpc_message \<Rightarrow> utext" where
  "acp_encode show_json m = show_json (encode_value m) @ [newline]"

definition acp_decode :: "(utext \<Rightarrow> json option) \<Rightarrow> utext \<Rightarrow> acp_decode_error + rpc_message" where
  "acp_decode parse_json line =
     (let l = trim line in
      if l = [] then Inl (NotJson [])
      else (case parse_json l of
          None \<Rightarrow> Inl (NotJson l)
        | Some v \<Rightarrow> (case decode_value v of Some m \<Rightarrow> Inr m | None \<Rightarrow> Inl (Malformed l))))"

definition truncate :: "utext \<Rightarrow> utext" where
  "truncate s = (if length s \<le> 120 then s else take 120 s @ [0x2026])"

fun acp_decode_error_fmt :: "acp_decode_error \<Rightarrow> utext" where
  "acp_decode_error_fmt (NotJson l) = ustr ''not JSON: '' @ truncate l"
| "acp_decode_error_fmt (Malformed l) = ustr ''not a JSON-RPC message: '' @ truncate l"

text \<open>Request ids, one counter per connection.\<close>

type_synonym request_ids = nat

definition allocate :: "request_ids \<Rightarrow> nat \<times> request_ids" where
  "allocate n = (n + 1, n + 1)"

section \<open>What it does\<close>

fun message_ok :: "rpc_message \<Rightarrow> bool" where
  "message_ok (Request i _ _) \<longleftrightarrow> i < 2 ^ 64"
| "message_ok (Response i _) \<longleftrightarrow> i < 2 ^ 64"
| "message_ok (Error i c _) \<longleftrightarrow> i < 2 ^ 64 \<and> - (2 ^ 63) \<le> c \<and> c < 2 ^ 63"
| "message_ok (Notification _ _) \<longleftrightarrow> True"

lemma decode_encode_value: "message_ok m \<Longrightarrow> decode_value (encode_value m) = Some m"
  by (cases m) (simp_all add: encode_value_def decode_value_def Let_def or_null_def or_default_def)

lemma trim_plain:
  assumes "s \<noteq> []" "\<not> is_whitespace (hd s)" "\<not> is_whitespace (last s)"
  shows "trim s = s" "trim (s @ [newline]) = s"
proof -
  obtain a s' where a: "s = a # s'" using assms(1) by (cases s) auto
  obtain r z where z: "s = r @ [z]" using assms(1) by (cases s rule: rev_cases) auto
  have w: "\<not> is_whitespace a" using assms(2) a by simp
  have "\<not> is_whitespace z" using assms(3) z by simp
  note w = w this
  have d: "dropWhile is_whitespace (s @ t) = s @ t" for t using a w by simp
  have r: "dropWhile is_whitespace (rev s) = rev s" using z w by simp
  show "trim s = s" using d [of "[]"] r by (simp add: trim_def)
  show "trim (s @ [newline]) = s" using d [of "[newline]"] r by (simp add: trim_def is_whitespace_def)
qed

text \<open>
  A message written to a peer is read back as the same message, on both wires: as a JSON value in
  a frame and as a line of text, whose final newline is the only one needed.  The text of a JSON
  object starts and ends with its braces and is parsed back.
\<close>

theorem rpc_round_trip:
  assumes "message_ok m" and "parse_json (show_json (encode_value m)) = Some (encode_value m)"
    and "show_json (encode_value m) = 123 # s @ [125]"
  shows "lsp_decode show_json (encode_value m) = Inr m
    \<and> acp_decode parse_json (acp_encode show_json m) = Inr m"
proof -
  have "trim (show_json (encode_value m) @ [newline]) = show_json (encode_value m)"
    by (rule trim_plain) (simp_all add: assms(3) is_whitespace_def)
  then show ?thesis
    using assms by (simp add: lsp_decode_def acp_decode_def acp_encode_def decode_encode_value Let_def)
qed

lemma rpc_round_trip_witness:
  "acp_decode (\<lambda>_. Some (encode_value (Notification [97] JNull)))
     (acp_encode (\<lambda>_. [123, 125]) (Notification [97] JNull)) = Inr (Notification [97] JNull)"
  using rpc_round_trip [of "Notification [97] JNull" "\<lambda>_. Some (encode_value (Notification [97] JNull))"
      "\<lambda>_. [123, 125]" "[]"] by simp

text \<open>
  The language-server protocol lets a request's id be a number or a string.  A call whose id is a
  string is taken for a notification, which carries no id, so it can never be answered: the server
  waits for a reply that does not come.
\<close>

theorem string_id_call_is_dropped:
  "decode_value (jobj [(''jsonrpc'', JString (ustr ''2.0'')), (''id'', JString i), (''method'', JString meth)])
     = Some (Notification meth JNull)"
  by (simp add: decode_value_def or_null_def)

end
