(* ===== verification/Framing.thy ===== *)
theory Framing
  imports Json Utf8
begin

text \<open>
  \<open>Content-Length\<close> framing of the language-server protocol (\<open>crates/lsp/src/framing.rs\<close>).  The reader
  keeps the bytes that arrived; \<open>from_slice\<close> and \<open>to_vec\<close> are the third-party JSON parser and
  printer.
\<close>

definition header_end :: bytes where
  "header_end = [13, 10, 13, 10]"

definition content_length :: bytes where
  "content_length = ustr ''Content-Length: ''"

definition encode_frame :: "(json \<Rightarrow> bytes) \<Rightarrow> json \<Rightarrow> bytes" where
  "encode_frame to_vec v =
     content_length @ decimal (length (to_vec v)) @ header_end @ to_vec v"

record frame_reader =
  fr_buffer :: bytes

definition reader_new :: frame_reader where
  "reader_new = \<lparr>fr_buffer = []\<rparr>"

definition push :: "bytes \<Rightarrow> frame_reader \<Rightarrow> frame_reader" where
  "push bs r = r\<lparr>fr_buffer := fr_buffer r @ bs\<rparr>"

text \<open>Where a sequence first stands: \<open>windows(n).position(...)\<close>.\<close>

fun find_seq :: "'a list \<Rightarrow> 'a list \<Rightarrow> nat option" where
  "find_seq p [] = (if p = [] then Some 0 else None)"
| "find_seq p (x # xs) =
     (if starts_with (x # xs) p then Some 0 else map_option Suc (find_seq p xs))"

definition header_length :: "utext \<Rightarrow> nat option" where
  "header_length line =
     (case split_once 58 line of None \<Rightarrow> None
      | Some (name, v) \<Rightarrow>
          if to_ascii_lowercase name = ustr ''content-length''
          then parse_unsigned (2 ^ 64 - 1) (trim v) else None)"

definition announced_length :: "bytes \<Rightarrow> nat option" where
  "announced_length header =
     Option.bind (utf8_decode header) (\<lambda>headers. find_map header_length (text_lines headers))"

lemma find_seq_bound: "find_seq p xs = Some i \<Longrightarrow> i + length p \<le> length xs"
  by (induction p xs arbitrary: i rule: find_seq.induct)
    (auto simp: starts_with_def split: if_splits dest: arg_cong [of _ _ length])

function next_frame :: "(bytes \<Rightarrow> json option) \<Rightarrow> frame_reader \<Rightarrow> json option \<times> frame_reader" where
  "next_frame from_slice r =
     (case find_seq header_end (fr_buffer r) of
        None \<Rightarrow> (None, r)
      | Some e \<Rightarrow>
          let body_start = e + length header_end in
          (case announced_length (take e (fr_buffer r)) of
             None \<Rightarrow> next_frame from_slice (r\<lparr>fr_buffer := drop body_start (fr_buffer r)\<rparr>)
           | Some n \<Rightarrow>
               if 2 ^ 64 \<le> body_start + n then (None, r\<lparr>fr_buffer := []\<rparr>)
               else
                 let frame_end = body_start + n in
                 if length (fr_buffer r) < frame_end then (None, r)
                 else
                   let body = from_slice (slice body_start frame_end (fr_buffer r));
                       r' = r\<lparr>fr_buffer := drop frame_end (fr_buffer r)\<rparr> in
                   if body \<noteq> None then (body, r') else next_frame from_slice r'))"
  by pat_completeness auto

termination
  by (relation "measure (\<lambda>(_, r). length (fr_buffer r))")
    (auto simp: header_end_def dest: find_seq_bound)

declare next_frame.simps [simp del]

text \<open>The loop of the session: every complete frame is taken, until there is none.\<close>

lemma next_frame_shorter:
  "next_frame from_slice r = (Some v, r') \<Longrightarrow> length (fr_buffer r') < length (fr_buffer r)"
proof (induction "length (fr_buffer r)" arbitrary: r rule: less_induct)
  case less
  show ?case
  proof (cases "find_seq header_end (fr_buffer r)")
    case None
    with less.prems show ?thesis by (simp add: next_frame.simps [of from_slice r])
  next
    case (Some e)
    have b: "e + 4 \<le> length (fr_buffer r)" using find_seq_bound [OF Some] by (simp add: header_end_def)
    have rec: ?thesis if "next_frame from_slice (r\<lparr>fr_buffer := drop k (fr_buffer r)\<rparr>) = (Some v, r')" "4 \<le> k" for k
    proof -
      have "length (drop k (fr_buffer r)) < length (fr_buffer r)" using b that(2) by simp
      then show ?thesis using less.hyps [OF _ that(1)] by simp
    qed
    show ?thesis
      using less.prems rec [of "e + length header_end"] b Some
      by (auto simp: next_frame.simps [of from_slice r] Let_def header_end_def
          dest: rec split: option.splits if_splits)
  qed
qed

function drain :: "(bytes \<Rightarrow> json option) \<Rightarrow> frame_reader \<Rightarrow> json list \<times> frame_reader" where
  "drain from_slice r =
     (case next_frame from_slice r of
        (None, r') \<Rightarrow> ([], r')
      | (Some v, r') \<Rightarrow> (case drain from_slice r' of (vs, r'') \<Rightarrow> (v # vs, r'')))"
  by pat_completeness auto

termination
  by (relation "measure (\<lambda>(_, r). length (fr_buffer r))") (auto dest: next_frame_shorter [OF sym])

declare drain.simps [simp del]

fun feed :: "(bytes \<Rightarrow> json option) \<Rightarrow> bytes list \<Rightarrow> frame_reader \<Rightarrow> json list \<times> frame_reader" where
  "feed from_slice [] r = ([], r)"
| "feed from_slice (c # cs) r =
     (case drain from_slice (push c r) of (vs, r') \<Rightarrow>
        (case feed from_slice cs r' of (ws, r'') \<Rightarrow> (vs @ ws, r'')))"

section \<open>Frames survive chunking\<close>

text \<open>A frame around any bytes; \<open>encode_frame\<close> puts the text of a value in it.\<close>

definition frame_of :: "bytes \<Rightarrow> bytes" where
  "frame_of body = content_length @ decimal (length body) @ header_end @ body"

lemma encode_frame_eq: "encode_frame to_vec v = frame_of (to_vec v)"
  by (simp add: encode_frame_def frame_of_def)

definition header_of :: "nat \<Rightarrow> bytes" where
  "header_of n = content_length @ decimal n"

lemma frame_of_eq: "frame_of body = header_of (length body) @ header_end @ body"
  by (simp add: frame_of_def header_of_def)

lemma header_of_ascii: "c \<in> set (header_of n) \<Longrightarrow> 31 < c \<and> c < 128"
  using decimal_digits [of n]
  by (auto simp: header_of_def content_length_def ustr_def is_ascii_digit_def list_all_iff)

lemma find_seq_first: "13 \<notin> set h \<Longrightarrow> find_seq header_end (h @ header_end @ y) = Some (length h)"
  by (induction h) (auto simp: header_end_def starts_with_def)

lemma find_seq_prefix:
  "13 \<notin> set h \<Longrightarrow> k < length h + 4 \<Longrightarrow> find_seq header_end (take k (h @ header_end)) = None"
proof (induction h arbitrary: k)
  case Nil
  then have "k \<in> {0, 1, 2, 3}" by auto
  then show ?case by (auto simp: header_end_def starts_with_def eval_nat_numeral)
next
  case (Cons a h)
  then show ?case by (cases k) (auto simp: header_end_def starts_with_def)
qed

lemma decode_ascii: "(\<And>c. c \<in> set s \<Longrightarrow> c < 128) \<Longrightarrow> utf8_decode s = Some s"
proof -
  assume a: "\<And>c. c \<in> set s \<Longrightarrow> c < 128"
  then have "utf8_encode s = s" by (induction s) (auto simp: utf8_char_def)
  moreover have "valid_text s" using a by (auto simp: valid_text_def list_all_iff valid_char_def dest!: a)
  ultimately show ?thesis using utf8_decode_encode by metis
qed

lemma announced_header: "announced_length (header_of n) = (if n < 2 ^ 64 then Some n else None)"
proof -
  have "utf8_decode (header_of n) = Some (header_of n)"
    using header_of_ascii by (intro decode_ascii) auto
  moreover have "newline \<notin> set (header_of n)" "header_of n \<noteq> []"
    using header_of_ascii [of newline n] by (auto, simp add: header_of_def)
  then have "text_lines (header_of n) = [header_of n]"
    by (simp add: text_lines_def split_char_none)
  moreover have "header_length (header_of n) = (if n < 2 ^ 64 then Some n else None)"
  proof -
    let ?name = "ustr ''Content-Length''"
    have "header_of n = ?name @ 58 # 32 # decimal n"
      by (simp add: header_of_def content_length_def ustr_def)
    moreover have "58 \<notin> set ?name" by (simp add: ustr_def)
    ultimately have "split_once 58 (header_of n) = Some (?name, 32 # decimal n)"
      using split_once_append by metis
    moreover have "to_ascii_lowercase ?name = ustr ''content-length''"
      by (simp add: to_ascii_lowercase_def ustr_def)
    moreover have "trim (32 # decimal n) = decimal n"
    proof -
      have nw: "c \<in> set (decimal n) \<Longrightarrow> \<not> is_whitespace c" for c
        using decimal_digits [of n] by (auto simp: list_all_iff is_ascii_digit_def is_whitespace_def)
      have "trim (32 # decimal n) = trim (decimal n)" by (simp add: trim_def is_whitespace_def)
      then show ?thesis using trim_plain(1) [of "decimal n"] nw by simp
    qed
    ultimately show ?thesis by (simp add: header_length_def parse_decimal)
  qed
  ultimately show ?thesis by (simp add: announced_length_def)
qed

lemma header_no_return: "13 \<notin> set (header_of n)"
  using header_of_ascii [of 13 n] by auto

lemma next_frame_whole:
  assumes "length (frame_of body) < 2 ^ 64"
  shows "next_frame from_slice \<lparr>fr_buffer = frame_of body @ x\<rparr> =
    (case from_slice body of Some v \<Rightarrow> (Some v, \<lparr>fr_buffer = x\<rparr>) | None \<Rightarrow> next_frame from_slice \<lparr>fr_buffer = x\<rparr>)"
proof -
  define h where "h = header_of (length body)"
  have b: "frame_of body @ x = h @ header_end @ body @ x" by (simp add: frame_of_eq h_def)
  have l: "length h + length header_end + length body < 2 ^ 64" "length body < 2 ^ 64"
    using assms by (simp_all add: frame_of_eq h_def)
  have "find_seq header_end (h @ header_end @ body @ x) = Some (length h)"
    using find_seq_first [OF header_no_return, of _ "body @ x"] by (simp add: h_def)
  moreover have "announced_length (take (length h) (h @ header_end @ body @ x)) = Some (length body)"
    using announced_header [of "length body"] l(2) by (simp add: h_def)
  moreover have "slice (length h + length header_end) (length h + length header_end + length body)
      (h @ header_end @ body @ x) = body" by (simp add: slice_def)
  moreover have "drop (length h + length header_end + length body) (h @ header_end @ body @ x) = x"
    by simp
  ultimately show ?thesis
    unfolding b using l(1)
    by (subst next_frame.simps) (auto simp: Let_def simp del: drop_append take_append split: option.split)
qed

lemma longer_prefix:
  assumes "length a \<le> length p" "p @ q = a @ b"
  obtains y where "p = a @ y"
proof -
  have "take (length a) p = a" using arg_cong [OF assms(2), of "take (length a)"] assms(1) by simp
  then show ?thesis using that by (metis append_take_drop_id)
qed

lemma next_frame_partial:
  assumes "length (frame_of body) < 2 ^ 64" "frame_of body = p @ q" "q \<noteq> []"
  shows "next_frame from_slice \<lparr>fr_buffer = p\<rparr> = (None, \<lparr>fr_buffer = p\<rparr>)"
proof -
  define h where "h = header_of (length body)"
  have f: "p @ q = h @ header_end @ body" using assms(2) by (simp add: frame_of_eq h_def)
  have lq: "length p < length h + 4 + length body"
  proof -
    have "length p + length q = length h + 4 + length body"
      using arg_cong [OF f, of length] by (simp add: header_end_def)
    moreover have "0 < length q" using assms(3) by simp
    ultimately show ?thesis by linarith
  qed
  show ?thesis
  proof (cases "length p < length h + 4")
    case True
    have "p = take (length p) ((h @ header_end) @ body)" using f by (metis append.assoc append_eq_conv_conj)
    also have "\<dots> = take (length p) (h @ header_end)"
    proof -
      have "length p - length (h @ header_end) = 0" using True by (simp add: header_end_def)
      then show ?thesis by (simp only: take_append [of _ "h @ header_end"] take_0 append_Nil2)
    qed
    finally have "find_seq header_end p = None"
      using find_seq_prefix [OF header_no_return True [unfolded h_def]] by (simp add: h_def)
    then show ?thesis by (subst next_frame.simps) simp
  next
    case False
    then have "length (h @ header_end) \<le> length p" by (simp add: header_end_def)
    moreover have "p @ q = (h @ header_end) @ body" using f by simp
    ultimately obtain y where "p = (h @ header_end) @ y" by (rule longer_prefix)
    then have y: "p = h @ header_end @ y" by simp
    have "find_seq header_end p = Some (length h)" "announced_length (take (length h) p) = Some (length body)"
      using find_seq_first [OF header_no_return, of _ y] announced_header [of "length body"] assms(1)
      by (simp_all add: y h_def frame_of_eq)
    moreover have "length h + length header_end + length body < 2 ^ 64"
      using assms(1) by (simp add: frame_of_eq h_def)
    ultimately show ?thesis using lq by (subst next_frame.simps) (simp add: Let_def header_end_def)
  qed
qed

lemma next_frame_empty: "next_frame from_slice \<lparr>fr_buffer = []\<rparr> = (None, \<lparr>fr_buffer = []\<rparr>)"
  by (subst next_frame.simps) (simp add: header_end_def)

lemma drain_whole:
  assumes "length (frame_of body) < 2 ^ 64"
  shows "drain from_slice \<lparr>fr_buffer = frame_of body @ x\<rparr> =
    (case drain from_slice \<lparr>fr_buffer = x\<rparr> of (vs, r) \<Rightarrow>
      ((case from_slice body of Some v \<Rightarrow> v # vs | None \<Rightarrow> vs), r))"
proof (cases "from_slice body")
  case None
  then have "next_frame from_slice \<lparr>fr_buffer = frame_of body @ x\<rparr> = next_frame from_slice \<lparr>fr_buffer = x\<rparr>"
    by (simp add: next_frame_whole [OF assms])
  then have "drain from_slice \<lparr>fr_buffer = frame_of body @ x\<rparr> = drain from_slice \<lparr>fr_buffer = x\<rparr>"
    by (simp add: drain.simps)
  with None show ?thesis by (simp split: prod.split)
next
  case (Some v)
  then show ?thesis by (subst drain.simps) (simp add: next_frame_whole [OF assms])
qed

text \<open>Draining takes every frame that is complete and keeps the beginning of the next.\<close>

definition values_of :: "(bytes \<Rightarrow> json option) \<Rightarrow> bytes list \<Rightarrow> json list" where
  "values_of from_slice bodies =
     concat (map (\<lambda>b. case from_slice b of Some v \<Rightarrow> [v] | None \<Rightarrow> []) bodies)"

lemma drain_ok:
  assumes "\<forall>b \<in> set bodies. length (frame_of b) < 2 ^ 64" "buf @ rest = concat (map frame_of bodies)"
  shows "\<exists>dn left r. drain from_slice \<lparr>fr_buffer = buf\<rparr> = (values_of from_slice dn, \<lparr>fr_buffer = r\<rparr>)
    \<and> bodies = dn @ left \<and> r @ rest = concat (map frame_of left)
    \<and> (left \<noteq> [] \<longrightarrow> length r < length (frame_of (hd left)))"
  using assms
proof (induction bodies arbitrary: buf)
  case Nil
  then show ?case
    by (intro exI [of _ "[]"]) (simp add: drain.simps next_frame_empty values_of_def)
next
  case (Cons b bodies)
  show ?case
  proof (cases "length buf < length (frame_of b)")
    case True
    then obtain q where q': "buf @ q = frame_of b"
      using Cons.prems(2) by (auto simp: append_eq_append_conv2)
    have q: "frame_of b = buf @ q" using q' by simp
    moreover have "q \<noteq> []" using True q by auto
    ultimately have "drain from_slice \<lparr>fr_buffer = buf\<rparr> = ([], \<lparr>fr_buffer = buf\<rparr>)"
    proof -
      have "length (frame_of b) < 2 ^ 64" using Cons.prems(1) by simp
      from next_frame_partial [OF this q] \<open>q \<noteq> []\<close> show ?thesis by (subst drain.simps) simp
    qed
    then show ?thesis
      using True Cons.prems(2) by (intro exI [of _ "[]"] exI [of _ "b # bodies"] exI [of _ buf]) (simp add: values_of_def)
  next
    case False
    then obtain x where x: "buf = frame_of b @ x"
      using longer_prefix [of "frame_of b" buf rest] Cons.prems(2) by auto
    then have "x @ rest = concat (map frame_of bodies)" using Cons.prems(2) by simp
    from Cons.IH [OF _ this] Cons.prems(1) obtain dn left r where
      "drain from_slice \<lparr>fr_buffer = x\<rparr> = (values_of from_slice dn, \<lparr>fr_buffer = r\<rparr>)"
      "bodies = dn @ left" "r @ rest = concat (map frame_of left)"
      "left \<noteq> [] \<longrightarrow> length r < length (frame_of (hd left))" by auto
    then show ?thesis
      using drain_whole [of b from_slice x] Cons.prems(1) x
      by (intro exI [of _ "b # dn"] exI [of _ left] exI [of _ r]) (simp add: values_of_def split: option.split)
  qed
qed

lemma feed_ok:
  assumes "\<forall>b \<in> set bodies. length (frame_of b) < 2 ^ 64"
    "buf @ concat chunks = concat (map frame_of bodies)"
    "bodies \<noteq> [] \<longrightarrow> length buf < length (frame_of (hd bodies))"
  shows "feed from_slice chunks \<lparr>fr_buffer = buf\<rparr> = (values_of from_slice bodies, \<lparr>fr_buffer = []\<rparr>)"
  using assms
proof (induction chunks arbitrary: buf bodies)
  case Nil
  then have "bodies = []" by (cases bodies) auto
  with Nil show ?case by (simp add: values_of_def)
next
  case (Cons c chunks)
  have "(buf @ c) @ concat chunks = concat (map frame_of bodies)" using Cons.prems(2) by simp
  from drain_ok [OF Cons.prems(1) this] obtain dn left r where
    d: "drain from_slice \<lparr>fr_buffer = buf @ c\<rparr> = (values_of from_slice dn, \<lparr>fr_buffer = r\<rparr>)"
    "bodies = dn @ left" "r @ concat chunks = concat (map frame_of left)"
    "left \<noteq> [] \<longrightarrow> length r < length (frame_of (hd left))" by metis
  have "feed from_slice chunks \<lparr>fr_buffer = r\<rparr> = (values_of from_slice left, \<lparr>fr_buffer = []\<rparr>)"
    using Cons.IH [of left r] Cons.prems(1) d by simp
  then show ?case using d(1,2) by (simp add: push_def values_of_def)
qed

text \<open>
  However the bytes of a stream of frames are cut into reads, inside a header, inside a char or
  across several frames, the reader hands out the values of the frames, each once and in order, and
  keeps nothing back; a frame whose body is no JSON is passed over.  A value that was framed is the
  value that comes out.
\<close>

theorem frames_survive_chunking:
  assumes "\<forall>b \<in> set bodies. length (frame_of b) < 2 ^ 64"
    and "concat chunks = concat (map frame_of bodies)"
  shows "feed from_slice chunks reader_new = (values_of from_slice bodies, reader_new)
    \<and> (bodies = map to_vec vs \<and> (\<forall>v \<in> set vs. from_slice (to_vec v) = Some v) \<longrightarrow>
         concat (map (encode_frame to_vec) vs) = concat chunks \<and> values_of from_slice bodies = vs)"
proof -
  have "\<forall>v \<in> set vs. from_slice (to_vec v) = Some v \<Longrightarrow> values_of from_slice (map to_vec vs) = vs"
    by (induction vs) (auto simp: values_of_def)
  moreover have "bodies \<noteq> [] \<longrightarrow> length [] < length (frame_of (hd bodies))"
    by (simp add: frame_of_def header_end_def)
  ultimately show ?thesis
    using feed_ok [OF assms(1), of "[]" chunks from_slice] assms(2)
    by (auto simp: reader_new_def encode_frame_eq [abs_def] comp_def)
qed

lemma frames_survive_chunking_witness:
  "feed (\<lambda>b. if b = [110] then Some JNull else None)
     [content_length @ [49, 13], [10, 13, 10], [110] @ frame_of [120] @ frame_of [110]] reader_new
   = ([JNull, JNull], reader_new)"
proof -
  have "decimal 1 = [49]" by (subst decimal.simps) simp
  then have "frame_of [110] = content_length @ [49, 13, 10, 13, 10, 110]" "frame_of [120] = content_length @ [49, 13, 10, 13, 10, 120]"
    by (simp_all add: frame_of_def header_end_def)
  moreover have "length content_length = 16" by (simp add: content_length_def)
  ultimately show ?thesis
    using frames_survive_chunking [of "[[110], [120], [110]]"
        "[content_length @ [49, 13], [10, 13, 10], [110] @ frame_of [120] @ frame_of [110]]"
        "\<lambda>b. if b = [110] then Some JNull else None"]
    by (simp add: values_of_def)
qed

end
