(* ===== verification/Acp_Types.thy ===== *)
theory Acp_Types
  imports Json Permissions
begin

text \<open>
  The agent vocabulary shared across the service boundary: \<open>crates/core/src/agent.rs\<close> and the
  agent's part of \<open>crates/core/src/terminal.rs\<close>.  Ids are numbers.
\<close>

type_synonym session_id = nat
type_synonym terminal_id = nat

datatype permission_decision = AllowOnce | AllowAlways | RejectOnce | RejectAlways

definition allows :: "permission_decision \<Rightarrow> bool" where
  "allows d \<longleftrightarrow> d = AllowOnce \<or> d = AllowAlways"

definition is_remembered :: "permission_decision \<Rightarrow> bool" where
  "is_remembered d \<longleftrightarrow> d = AllowAlways \<or> d = RejectAlways"

record prompt_capabilities =
  pc_image :: bool
  pc_audio :: bool
  pc_embedded_context :: bool

record agent_capabilities =
  ac_load_session :: bool
  ac_prompt_capabilities :: prompt_capabilities

datatype stop_reason = EndTurn | Cancelled | Refusal | MaxTokens

record terminal_exit =
  te_code :: "nat option"
  te_signal :: "utext option"

datatype terminal_operation =
    TCreate terminal_spec nat bool
  | TOutput terminal_id
  | TWaitForExit terminal_id
  | TKill terminal_id
  | TRelease terminal_id

datatype terminal_response =
    RCreated terminal_id
  | ROutput utext bool "terminal_exit option"
  | RExited terminal_exit
  | RAcknowledged
  | RError utext

datatype agent_request =
    NewSession path
  | SetMode session_id utext
  | Prompt session_id utext utext
  | FileContents session_id nat path "utext option"
  | Permission nat permission_decision
  | PermissionCancelled nat
  | TerminalResponse nat terminal_response
  | Cancel session_id
  | Shutdown

record proposed_edit_diff =
  pe_path :: path
  pe_old_text :: utext
  pe_new_text :: utext

record session_mode =
  sm_id :: utext
  sm_name :: utext
  sm_description :: "utext option"

datatype agent_event =
    Ready agent_capabilities
  | SessionStarted session_id
  | ModesAvailable session_id utext "session_mode list"
  | ModeChanged session_id utext
  | MessageChunk session_id utext
  | ThoughtChunk session_id utext
  | ReadFileRequested session_id nat path
  | ProposedEdit session_id nat path "utext option" utext
  | PermissionRequested session_id nat utext "utext list" "terminal_spec option"
      "proposed_edit_diff option"
  | TerminalRequest session_id nat terminal_operation
  | TerminalAttached session_id terminal_id
  | TurnEnded session_id stop_reason
  | AgentFailed session_id utext

end
