(* ===== verification/Acp_Parse.thy ===== *)
theory Acp_Parse
  imports Acp_Types
begin

text \<open>
  The pure half of \<open>crates/agent/src/protocol.rs\<close>: what is read out of the agent's JSON (terminal
  commands, edits, modes, capabilities, options) and the constants of the protocol; and the
  client's capabilities and review verdicts of \<open>crates/agent/src/service.rs\<close>.
\<close>

section \<open>Constants and options\<close>

definition protocol_version :: nat where "protocol_version = 1"
definition default_output_limit :: nat where "default_output_limit = 1048576"
definition max_output_limit :: nat where "max_output_limit = 8388608"

record permission_option =
  po_id :: utext
  po_kind :: utext

record client_capabilities =
  cc_read_text_file :: bool
  cc_write_text_file :: bool
  cc_terminal :: bool

definition client_capabilities_default :: client_capabilities where
  "client_capabilities_default = \<lparr>cc_read_text_file = True, cc_write_text_file = True, cc_terminal = False\<rparr>"

section \<open>Reading what the agent says\<close>

fun collect_results :: "('e + 'a) list \<Rightarrow> 'e + 'a list" where
  "collect_results [] = Inr []"
| "collect_results (r # rs) =
     (case r of
        Inl e \<Rightarrow> Inl e
      | Inr a \<Rightarrow> (case collect_results rs of Inl e \<Rightarrow> Inl e | Inr as \<Rightarrow> Inr (a # as)))"

definition string_array :: "json option \<Rightarrow> bool \<Rightarrow> string \<Rightarrow> utext + utext list" where
  "string_array v required label =
     (case v of
        None \<Rightarrow> if required then Inl (ustr label @ ustr '' must be an array'') else Inr []
      | Some v \<Rightarrow>
          (case as_list v of
             None \<Rightarrow> Inl (ustr label @ ustr '' must be an array'')
           | Some items \<Rightarrow>
               collect_results (map (\<lambda>item.
                 case as_string item of
                   None \<Rightarrow> Inl (ustr label @ ustr '' must contain only strings'')
                 | Some s \<Rightarrow> Inr s) items)))"

definition env_entry :: "string \<Rightarrow> json \<Rightarrow> utext + utext \<times> utext" where
  "env_entry label item =
     (case get_string item ''name'' of
        None \<Rightarrow> Inl (ustr label @ ustr '' entries need a valid name'')
      | Some name \<Rightarrow>
          if name = [] \<or> 61 \<in> set name \<or> 0 \<in> set name
          then Inl (ustr label @ ustr '' entries need a valid name'')
          else (case get_string item ''value'' of
              None \<Rightarrow> Inl (ustr label @ ustr '' entries need a string value'')
            | Some v \<Rightarrow>
                if 0 \<in> set v then Inl (ustr label @ ustr '' entries need a string value'')
                else Inr (name, v)))"

definition env_array :: "json option \<Rightarrow> bool \<Rightarrow> string \<Rightarrow> utext + (utext \<times> utext) list" where
  "env_array v required label =
     (case v of
        None \<Rightarrow> if required then Inl (ustr label @ ustr '' must be an array'') else Inr []
      | Some v \<Rightarrow>
          (case as_list v of
             None \<Rightarrow> Inl (ustr label @ ustr '' must be an array'')
           | Some items \<Rightarrow> collect_results (map (env_entry label) items)))"

definition valid_absolute_path :: "path \<Rightarrow> bool" where
  "valid_absolute_path p \<longleftrightarrow> is_absolute p \<and> ParentDir \<notin> set p"

definition terminal_spec_of_create :: "json \<Rightarrow> utext + terminal_spec" where
  "terminal_spec_of_create params =
     (case get_string params ''command'' of
        None \<Rightarrow> Inl (ustr ''terminal/create needs a non-empty command'')
      | Some program \<Rightarrow>
     if program = [] then Inl (ustr ''terminal/create needs a non-empty command'') else
     (case string_array (jget params ''args'') False ''terminal/create args'' of
        Inl e \<Rightarrow> Inl e
      | Inr args \<Rightarrow>
     (case get_string params ''cwd'' of
        None \<Rightarrow> Inl (ustr ''terminal/create cwd must be an absolute path without traversal'')
      | Some cwd \<Rightarrow>
     if \<not> valid_absolute_path (path_of_text cwd)
     then Inl (ustr ''terminal/create cwd must be an absolute path without traversal'') else
     (case env_array (jget params ''env'') False ''terminal/create env'' of
        Inl e \<Rightarrow> Inl e
      | Inr env \<Rightarrow>
          Inr \<lparr>ts_program = program, ts_args = args, ts_cwd = path_of_text cwd, ts_env = env\<rparr>))))"

definition terminal_spec_of_permission :: "json option \<Rightarrow> terminal_spec option" where
  "terminal_spec_of_permission tool =
     do { tool' \<leftarrow> tool;
          raw \<leftarrow> jget tool' ''rawInput'';
          case string_array (jget raw ''command'') True ''permission command'' of
            Inl _ \<Rightarrow> None
          | Inr [] \<Rightarrow> None
          | Inr (program # args) \<Rightarrow>
              do { cwd \<leftarrow> get_string raw ''cwd'';
                   if \<not> valid_absolute_path (path_of_text cwd) then None
                   else (case env_array (jget raw ''env'') True ''permission env'' of
                       Inl _ \<Rightarrow> None
                     | Inr env \<Rightarrow> Some \<lparr>ts_program = program, ts_args = args,
                         ts_cwd = path_of_text cwd, ts_env = env\<rparr>) } }"

definition edit_diff_of_content :: "json \<Rightarrow> proposed_edit_diff option" where
  "edit_diff_of_content content =
     do { ty \<leftarrow> get_string content ''type'';
          if ty \<noteq> ustr ''diff'' then None
          else do { p \<leftarrow> get_string content ''path'';
                    new \<leftarrow> get_string content ''newText'';
                    Some \<lparr>pe_path = path_of_text p,
                          pe_old_text = or_default [] (get_string content ''oldText''),
                          pe_new_text = new\<rparr> } }"

definition edit_diff_of_permission :: "json option \<Rightarrow> proposed_edit_diff option" where
  "edit_diff_of_permission tool =
     do { tool' \<leftarrow> tool;
          content \<leftarrow> jget tool' ''content'';
          contents \<leftarrow> as_list content;
          find_map edit_diff_of_content contents }"

definition output_limit :: "json \<Rightarrow> utext + nat" where
  "output_limit params =
     (case jget params ''outputByteLimit'' of
        None \<Rightarrow> Inr default_output_limit
      | Some v \<Rightarrow>
          (case as_u64 v of
             None \<Rightarrow> Inl (ustr ''outputByteLimit must be a non-negative integer'')
           | Some limit \<Rightarrow> Inr (min limit max_output_limit)))"

definition exit_status :: "terminal_exit \<Rightarrow> json" where
  "exit_status e =
     jobj [(''exitCode'', or_null (map_option (\<lambda>c. JInt (int c)) (te_code e))),
           (''signal'', or_null (map_option JString (te_signal e)))]"

definition text_of :: "json \<Rightarrow> utext option" where
  "text_of update =
     do { content \<leftarrow> jget update ''content''; t \<leftarrow> jget content ''text''; as_string t }"

definition flag :: "json option \<Rightarrow> string \<Rightarrow> bool" where
  "flag on key = or_default False (do { v \<leftarrow> on; b \<leftarrow> jget v key; as_bool b })"

definition parse_agent_capabilities :: "json \<Rightarrow> agent_capabilities" where
  "parse_agent_capabilities result =
     (let caps = jget result ''agentCapabilities'';
          pc = Option.bind caps (\<lambda>c. jget c ''promptCapabilities'') in
      \<lparr>ac_load_session = flag caps ''loadSession'',
       ac_prompt_capabilities = \<lparr>pc_image = flag pc ''image'', pc_audio = flag pc ''audio'',
         pc_embedded_context = flag pc ''embeddedContext''\<rparr>\<rparr>)"

definition parse_session_mode :: "json \<Rightarrow> session_mode option" where
  "parse_session_mode mode =
     do { i \<leftarrow> get_string mode ''id'';
          Some \<lparr>sm_id = i, sm_name = or_default i (get_string mode ''name''),
                sm_description = get_string mode ''description''\<rparr> }"

definition parse_session_modes :: "session_id \<Rightarrow> json option \<Rightarrow> agent_event option" where
  "parse_session_modes session modes =
     do { modes' \<leftarrow> modes;
          current \<leftarrow> get_string modes' ''currentModeId'';
          raw \<leftarrow> jget modes' ''availableModes'';
          items \<leftarrow> as_list raw;
          let available = List.map_filter parse_session_mode items;
          if available = [] then None else Some (ModesAvailable session current available) }"

definition argv_of :: "json option \<Rightarrow> utext list" where
  "argv_of tool =
     (case Option.bind tool (\<lambda>t. jget t ''rawInput'') of
        None \<Rightarrow> []
      | Some raw \<Rightarrow>
          (case Option.bind (jget raw ''command'') as_list of
             Some items \<Rightarrow> List.map_filter as_string items
           | None \<Rightarrow> (case get_string raw ''command'' of Some s \<Rightarrow> [s] | None \<Rightarrow> [])))"

fun wanted_kind :: "permission_decision \<Rightarrow> string" where
  "wanted_kind AllowOnce = ''allow_once''"
| "wanted_kind AllowAlways = ''allow_always''"
| "wanted_kind RejectOnce = ''reject_once''"
| "wanted_kind RejectAlways = ''reject_always''"

definition choose_option :: "permission_option list \<Rightarrow> permission_decision \<Rightarrow> utext option" where
  "choose_option options decision =
     map_option po_id
       (case List.find (\<lambda>opt. po_kind opt = ustr (wanted_kind decision)) options of
          Some found \<Rightarrow> Some found
        | None \<Rightarrow>
            (let fallback = (if allows decision then ''allow_once'' else ''reject_once'') in
             List.find (\<lambda>opt. po_kind opt = ustr fallback) options))"

text \<open>What a review of a proposal is answered with (\<open>service.rs\<close>).\<close>

definition permission_for_review :: "nat \<Rightarrow> nat \<Rightarrow> permission_decision" where
  "permission_for_review accepted offered =
     (if 0 < offered \<and> accepted = offered then AllowOnce else RejectOnce)"

end
