(* ===== verification/Acp_Translator.thy ===== *)
theory Acp_Translator
  imports Acp_Parse "HOL-Library.AList"
begin

text \<open>
  The translator between the editor's agent vocabulary and the agent client protocol,
  \<open>crates/agent/src/protocol.rs\<close>: its state, what it sends for a request and what it makes of a
  message.  A \<open>HashMap\<close> is an association list with distinct keys, a \<open>Vec\<close> a list.
\<close>

section \<open>State\<close>

datatype pending =
    PInitialize
  | PNewSession
  | PPrompt session_id
  | PSetMode session_id utext

record pending_permission =
  pp_wire_request :: nat
  pp_session :: session_id
  pp_options :: "permission_option list"
  pp_terminal_spec :: "terminal_spec option"

datatype terminal_rpc_kind =
    KCreate
  | KOutput terminal_id
  | KWait terminal_id
  | KKill terminal_id
  | KRelease terminal_id

record pending_terminal_rpc =
  pt_wire_request :: nat
  pt_session :: session_id
  pt_kind :: terminal_rpc_kind

record terminal_binding =
  tb_local :: terminal_id
  tb_wire :: utext
  tb_session :: session_id
  tb_released :: bool

record translator =
  tr_ids :: request_ids
  tr_pending :: "(nat \<times> pending) list"
  tr_sessions :: "(session_id \<times> utext) list"
  tr_permissions :: "(nat \<times> pending_permission) list"
  tr_reads :: "(nat \<times> nat) list"
  tr_terminal_rpcs :: "(nat \<times> pending_terminal_rpc) list"
  tr_terminals :: "terminal_binding list"
  tr_grants :: "(session_id \<times> terminal_spec) list"
  tr_next_session :: nat
  tr_next_id :: nat
  tr_ready :: bool
  tr_queued :: "agent_request list"

definition translator_new :: translator where
  "translator_new =
     \<lparr>tr_ids = 0, tr_pending = [], tr_sessions = [], tr_permissions = [], tr_reads = [],
      tr_terminal_rpcs = [], tr_terminals = [], tr_grants = [], tr_next_session = 0, tr_next_id = 0,
      tr_ready = False, tr_queued = []\<rparr>"

section \<open>Looking things up\<close>

definition wire_session :: "translator \<Rightarrow> session_id \<Rightarrow> utext option" where
  "wire_session t session = map_option snd (List.find (\<lambda>(ours, _). ours = session) (tr_sessions t))"

definition our_session :: "translator \<Rightarrow> utext \<Rightarrow> session_id option" where
  "our_session t wire = map_option fst (List.find (\<lambda>(_, theirs). theirs = wire) (tr_sessions t))"

definition find_binding :: "translator \<Rightarrow> utext \<Rightarrow> terminal_binding option" where
  "find_binding t wire = List.find (\<lambda>b. tb_wire b = wire) (tr_terminals t)"

definition live_terminal :: "translator \<Rightarrow> utext \<Rightarrow> session_id \<Rightarrow> terminal_id option" where
  "live_terminal t wire session =
     (case find_binding t wire of
        Some b \<Rightarrow> if tb_session b = session \<and> \<not> tb_released b then Some (tb_local b) else None
      | None \<Rightarrow> None)"

section \<open>What the editor sends\<close>

definition initialize :: "client_capabilities \<Rightarrow> translator \<Rightarrow> rpc_message \<times> translator" where
  "initialize cap t =
     (let (i, ids) = allocate (tr_ids t) in
      (Request i (ustr ''initialize'')
         (jobj [(''protocolVersion'', JInt (int protocol_version)),
                (''clientCapabilities'', jobj
                   [(''fs'', jobj [(''readTextFile'', JBool (cc_read_text_file cap)),
                                   (''writeTextFile'', JBool (cc_write_text_file cap))]),
                    (''terminal'', JBool (cc_terminal cap))])]),
       t\<lparr>tr_ids := ids, tr_pending := AList.update i PInitialize (tr_pending t)\<rparr>))"

text \<open>A request of ours: a fresh id, and what its answer will mean.\<close>

definition call :: "string \<Rightarrow> json \<Rightarrow> pending \<Rightarrow> translator \<Rightarrow> rpc_message option \<times> translator" where
  "call meth params p t =
     (let (i, ids) = allocate (tr_ids t) in
      (Some (Request i (ustr meth) params),
       t\<lparr>tr_ids := ids, tr_pending := AList.update i p (tr_pending t)\<rparr>))"

definition expire_terminal_grants :: "session_id \<Rightarrow> translator \<Rightarrow> translator" where
  "expire_terminal_grants session t =
     t\<lparr>tr_grants := filter (\<lambda>(owner, _). owner \<noteq> session) (tr_grants t)\<rparr>"

text \<open>\<open>iter_mut().find(..)\<close>: the first binding that is meant is released.\<close>

fun release_first :: "(terminal_binding \<Rightarrow> bool) \<Rightarrow> terminal_binding list \<Rightarrow> terminal_binding list" where
  "release_first P [] = []"
| "release_first P (b # bs) = (if P b then b\<lparr>tb_released := True\<rparr> # bs else b # release_first P bs)"

text \<open>The result a response means for the method it answers, or why it does not fit.\<close>

fun terminal_result ::
    "terminal_rpc_kind \<Rightarrow> terminal_response \<Rightarrow> session_id \<Rightarrow> translator \<Rightarrow> (utext + json) \<times> translator" where
  "terminal_result KCreate (RCreated terminal) session t =
     (if list_ex (\<lambda>b. tb_local b = terminal) (tr_terminals t)
      then (Inl (ustr ''terminal TerminalId('' @ decimal terminal @ ustr '') already has a wire id''), t)
      else (let wire = ustr ''termesh-'' @ decimal terminal in
            (Inr (jobj [(''terminalId'', JString wire)]),
             t\<lparr>tr_terminals := tr_terminals t
                 @ [\<lparr>tb_local = terminal, tb_wire = wire, tb_session = session, tb_released = False\<rparr>]\<rparr>)))"
| "terminal_result (KOutput _) (ROutput output truncated exit) session t =
     (Inr (jobj [(''output'', JString output), (''truncated'', JBool truncated),
                 (''exitStatus'', or_null (map_option exit_status exit))]), t)"
| "terminal_result (KWait _) (RExited exit) session t = (Inr (exit_status exit), t)"
| "terminal_result (KKill _) RAcknowledged session t = (Inr (jobj []), t)"
| "terminal_result (KRelease terminal) RAcknowledged session t =
     (Inr (jobj []),
      t\<lparr>tr_terminals := release_first
          (\<lambda>b. tb_local b = terminal \<and> tb_session b = session) (tr_terminals t)\<rparr>)"
| "terminal_result _ (RError msg) session t = (Inl msg, t)"
| "terminal_result _ _ session t = (Inl (ustr ''terminal response did not match its request''), t)"

definition encode_terminal_response ::
    "nat \<Rightarrow> terminal_response \<Rightarrow> translator \<Rightarrow> rpc_message option \<times> translator" where
  "encode_terminal_response request response t =
     (case map_of (tr_terminal_rpcs t) request of
        None \<Rightarrow> (None, t)
      | Some p \<Rightarrow>
          (let t = t\<lparr>tr_terminal_rpcs := AList.delete request (tr_terminal_rpcs t)\<rparr>;
               (result, t) = terminal_result (pt_kind p) response (pt_session p) t in
           (Some (case result of
                Inr v \<Rightarrow> Response (pt_wire_request p) v
              | Inl msg \<Rightarrow> Error (pt_wire_request p) (- 32000) msg), t)))"

definition text_block :: "utext \<Rightarrow> json" where
  "text_block s = jobj [(''type'', JString (ustr ''text'')), (''text'', JString s)]"

definition cancelled_outcome :: json where
  "cancelled_outcome = jobj [(''outcome'', jobj [(''outcome'', JString (ustr ''cancelled''))])]"

definition encode_new_session :: "path \<Rightarrow> translator \<Rightarrow> rpc_message option \<times> translator" where
  "encode_new_session cwd =
     call ''session/new''
       (jobj [(''cwd'', JString (path_components_display cwd)), (''mcpServers'', JArray [])]) PNewSession"

definition encode_set_mode :: "session_id \<Rightarrow> utext \<Rightarrow> translator \<Rightarrow> rpc_message option \<times> translator" where
  "encode_set_mode session mode t =
     (case wire_session t session of
        None \<Rightarrow> (None, t)
      | Some wire \<Rightarrow>
          call ''session/set_mode'' (jobj [(''sessionId'', JString wire), (''modeId'', JString mode)])
            (PSetMode session mode) t)"

definition encode_prompt ::
    "session_id \<Rightarrow> utext \<Rightarrow> utext \<Rightarrow> translator \<Rightarrow> rpc_message option \<times> translator" where
  "encode_prompt session txt ctxt t =
     (case wire_session t session of
        None \<Rightarrow> (None, t)
      | Some wire \<Rightarrow>
          (let blocks = (if ctxt = [] then [text_block txt] else [text_block ctxt, text_block txt]) in
           call ''session/prompt'' (jobj [(''sessionId'', JString wire), (''prompt'', JArray blocks)])
             (PPrompt session) t))"

definition encode_file_contents ::
    "nat \<Rightarrow> path \<Rightarrow> utext option \<Rightarrow> translator \<Rightarrow> rpc_message option \<times> translator" where
  "encode_file_contents request p contents t =
     (case map_of (tr_reads t) request of
        None \<Rightarrow> (None, t)
      | Some wire \<Rightarrow>
          (Some (case contents of
             Some content \<Rightarrow> Response wire (jobj [(''content'', JString content)])
           | None \<Rightarrow> Error wire (- 32000) (ustr ''cannot read '' @ path_components_display p)),
           t\<lparr>tr_reads := AList.delete request (tr_reads t)\<rparr>))"

definition encode_permission ::
    "nat \<Rightarrow> permission_decision \<Rightarrow> translator \<Rightarrow> rpc_message option \<times> translator" where
  "encode_permission request decision t =
     (case map_of (tr_permissions t) request of
        None \<Rightarrow> (None, t)
      | Some p \<Rightarrow>
          (let t = t\<lparr>tr_permissions := AList.delete request (tr_permissions t)\<rparr>;
               opt = choose_option (pp_options p) decision;
               t = (if opt \<noteq> None \<and> allows decision
                    then (case pp_terminal_spec p of
                        Some spec \<Rightarrow> t\<lparr>tr_grants := tr_grants t @ [(pp_session p, spec)]\<rparr>
                      | None \<Rightarrow> t)
                    else t) in
           (Some (Response (pp_wire_request p)
              (case opt of
                 Some i \<Rightarrow> jobj [(''outcome'', jobj [(''outcome'', JString (ustr ''selected'')),
                                                 (''optionId'', JString i)])]
               | None \<Rightarrow> cancelled_outcome)), t)))"

definition encode_permission_cancelled :: "nat \<Rightarrow> translator \<Rightarrow> rpc_message option \<times> translator" where
  "encode_permission_cancelled request t =
     (case map_of (tr_permissions t) request of
        None \<Rightarrow> (None, t)
      | Some p \<Rightarrow>
          (Some (Response (pp_wire_request p) cancelled_outcome),
           t\<lparr>tr_permissions := AList.delete request (tr_permissions t)\<rparr>))"

definition encode_cancel :: "session_id \<Rightarrow> translator \<Rightarrow> rpc_message option \<times> translator" where
  "encode_cancel session t =
     (let t = expire_terminal_grants session t in
      (map_option (\<lambda>wire. Notification (ustr ''session/cancel'') (jobj [(''sessionId'', JString wire)]))
         (wire_session t session), t))"

fun encode :: "agent_request \<Rightarrow> translator \<Rightarrow> rpc_message option \<times> translator" where
  "encode (NewSession cwd) t = encode_new_session cwd t"
| "encode (SetMode session mode) t = encode_set_mode session mode t"
| "encode (Prompt session txt ctxt) t = encode_prompt session txt ctxt t"
| "encode (FileContents _ request p contents) t = encode_file_contents request p contents t"
| "encode (Permission request decision) t = encode_permission request decision t"
| "encode (PermissionCancelled request) t = encode_permission_cancelled request t"
| "encode (TerminalResponse request response) t = encode_terminal_response request response t"
| "encode (Cancel session) t = encode_cancel session t"
| "encode Shutdown t = (None, t)"

definition outgoing :: "agent_request \<Rightarrow> translator \<Rightarrow> rpc_message list \<times> translator" where
  "outgoing request t =
     (if \<not> tr_ready t \<and> request \<noteq> Shutdown then ([], t\<lparr>tr_queued := tr_queued t @ [request]\<rparr>)
      else (let (m, t) = encode request t in (case m of Some m \<Rightarrow> [m] | None \<Rightarrow> [], t)))"

section \<open>What the agent sends\<close>

type_synonym heard = "(agent_event list \<times> rpc_message list) \<times> translator"

definition stop_reason_of :: "json \<Rightarrow> stop_reason" where
  "stop_reason_of result =
     (let r = get_string result ''stopReason'' in
      if r = Some (ustr ''cancelled'') then Cancelled
      else if r = Some (ustr ''refusal'') then Refusal
      else if r = Some (ustr ''max_tokens'') then MaxTokens
      else EndTurn)"

fun encode_all :: "agent_request list \<Rightarrow> translator \<Rightarrow> rpc_message list \<times> translator" where
  "encode_all [] t = ([], t)"
| "encode_all (r # rs) t =
     (let (m, t) = encode r t; (ms, t) = encode_all rs t in
      (case m of Some m \<Rightarrow> m # ms | None \<Rightarrow> ms, t))"

definition session_opened :: "json \<Rightarrow> translator \<Rightarrow> heard" where
  "session_opened result t =
     (case get_string result ''sessionId'' of
        None \<Rightarrow> (([AgentFailed 0 (ustr ''session/new returned no sessionId'')], []), t)
      | Some wire \<Rightarrow>
          (let session = tr_next_session t + 1;
               t = t\<lparr>tr_next_session := session, tr_sessions := tr_sessions t @ [(session, wire)]\<rparr> in
           ((SessionStarted session #
               (case parse_session_modes session (jget result ''modes'') of
                  Some modes \<Rightarrow> [modes] | None \<Rightarrow> []), []), t)))"

definition on_response :: "nat \<Rightarrow> json \<Rightarrow> translator \<Rightarrow> heard" where
  "on_response i result t =
     (let p = map_of (tr_pending t) i;
          t = t\<lparr>tr_pending := AList.delete i (tr_pending t)\<rparr> in
      case p of
        Some PInitialize \<Rightarrow>
          (let (messages, t') = encode_all (tr_queued t) (t\<lparr>tr_ready := True, tr_queued := []\<rparr>) in
           (([Ready (parse_agent_capabilities result)], messages), t'))
      | Some PNewSession \<Rightarrow> session_opened result t
      | Some (PPrompt session) \<Rightarrow>
          (([TurnEnded session (stop_reason_of result)], []), expire_terminal_grants session t)
      | Some (PSetMode session mode) \<Rightarrow> (([ModeChanged session mode], []), t)
      | None \<Rightarrow> (([], []), t))"

definition on_error :: "nat \<Rightarrow> utext \<Rightarrow> translator \<Rightarrow> heard" where
  "on_error i msg t =
     (let session = (case map_of (tr_pending t) i of
            Some (PPrompt session) \<Rightarrow> session
          | Some (PSetMode session _) \<Rightarrow> session
          | _ \<Rightarrow> 0) in
      (([AgentFailed session msg], []),
       expire_terminal_grants session (t\<lparr>tr_pending := AList.delete i (tr_pending t)\<rparr>)))"

text \<open>Edits and terminals that ride in on a tool call.\<close>

definition event_of_content ::
    "session_id \<Rightarrow> json \<Rightarrow> translator \<Rightarrow> agent_event option \<times> translator" where
  "event_of_content session content t =
     (let ty = get_string content ''type'' in
      if ty = Some (ustr ''diff'') then
        (case (get_string content ''path'', get_string content ''newText'') of
           (Some p, Some new_text) \<Rightarrow>
             (let i = tr_next_id t + 1 in
              (Some (ProposedEdit session i (path_of_text p) (get_string content ''oldText'') new_text),
               t\<lparr>tr_next_id := i\<rparr>))
         | _ \<Rightarrow> (None, t))
      else if ty = Some (ustr ''terminal'') then
        (case get_string content ''terminalId'' of
           None \<Rightarrow> (None, t)
         | Some wire \<Rightarrow>
             (case find_binding t wire of
                Some b \<Rightarrow>
                  (if tb_session b = session then Some (TerminalAttached session (tb_local b)) else None, t)
              | None \<Rightarrow> (None, t)))
      else (None, t))"

fun events_of_contents :: "session_id \<Rightarrow> json list \<Rightarrow> translator \<Rightarrow> agent_event list \<times> translator" where
  "events_of_contents session [] t = ([], t)"
| "events_of_contents session (c # cs) t =
     (let (e, t) = event_of_content session c t; (es, t) = events_of_contents session cs t in
      (case e of Some e \<Rightarrow> e # es | None \<Rightarrow> es, t))"

definition events_from_tool_call :: "session_id \<Rightarrow> json \<Rightarrow> translator \<Rightarrow> agent_event list \<times> translator" where
  "events_from_tool_call session update t =
     (case Option.bind (jget update ''content'') as_list of
        None \<Rightarrow> ([], t)
      | Some contents \<Rightarrow> events_of_contents session contents t)"

definition on_notification :: "utext \<Rightarrow> json \<Rightarrow> translator \<Rightarrow> agent_event list \<times> translator" where
  "on_notification meth params t =
     (if meth \<noteq> ustr ''session/update'' then ([], t) else
      case Option.bind (get_string params ''sessionId'') (our_session t) of
        None \<Rightarrow> ([], t)
      | Some session \<Rightarrow>
     (case jget params ''update'' of
        None \<Rightarrow> ([], t)
      | Some update \<Rightarrow>
          (let kind = or_default [] (get_string update ''sessionUpdate'') in
           if kind = ustr ''agent_message_chunk'' then
             (case text_of update of Some s \<Rightarrow> [MessageChunk session s] | None \<Rightarrow> [], t)
           else if kind = ustr ''agent_thought_chunk'' then
             (case text_of update of Some s \<Rightarrow> [ThoughtChunk session s] | None \<Rightarrow> [], t)
           else if kind = ustr ''tool_call'' \<or> kind = ustr ''tool_call_update'' then
             events_from_tool_call session update t
           else if kind = ustr ''current_mode_update'' then
             (case get_string update ''modeId'' of Some m \<Rightarrow> [ModeChanged session m] | None \<Rightarrow> [], t)
           else ([], t))))"

definition refuse_call :: "nat \<Rightarrow> int \<Rightarrow> utext \<Rightarrow> translator \<Rightarrow> heard" where
  "refuse_call i code msg t = (([], [Error i code msg]), t)"

definition invalid_params :: "nat \<Rightarrow> utext \<Rightarrow> translator \<Rightarrow> heard" where
  "invalid_params i msg = refuse_call i (- 32602) msg"

definition allocate_terminal_request ::
    "nat \<Rightarrow> session_id \<Rightarrow> terminal_rpc_kind \<Rightarrow> terminal_operation \<Rightarrow> translator \<Rightarrow> agent_event \<times> translator" where
  "allocate_terminal_request wire session kind operation t =
     (let request = tr_next_id t + 1 in
      (TerminalRequest session request operation,
       t\<lparr>tr_next_id := request,
         tr_terminal_rpcs := AList.update request
           \<lparr>pt_wire_request = wire, pt_session = session, pt_kind = kind\<rparr> (tr_terminal_rpcs t)\<rparr>))"

definition on_read_text_file :: "nat \<Rightarrow> session_id \<Rightarrow> json \<Rightarrow> translator \<Rightarrow> heard" where
  "on_read_text_file i session params t =
     (case get_string params ''path'' of
        None \<Rightarrow> invalid_params i (ustr ''fs/read_text_file needs a path'') t
      | Some p \<Rightarrow>
          (let request = tr_next_id t + 1 in
           (([ReadFileRequested session request (path_of_text p)], []),
            t\<lparr>tr_next_id := request, tr_reads := AList.update request i (tr_reads t)\<rparr>)))"

definition on_write_text_file :: "nat \<Rightarrow> session_id \<Rightarrow> json \<Rightarrow> translator \<Rightarrow> heard" where
  "on_write_text_file i session params t =
     (case (get_string params ''path'', get_string params ''content'') of
        (Some p, Some content) \<Rightarrow>
          (let proposal = tr_next_id t + 1 in
           (([ProposedEdit session proposal (path_of_text p) None content], [Response i JNull]),
            t\<lparr>tr_next_id := proposal\<rparr>))
      | _ \<Rightarrow> invalid_params i (ustr ''fs/write_text_file needs a path and content'') t)"

definition offered_option :: "json \<Rightarrow> permission_option option" where
  "offered_option v =
     do { i \<leftarrow> get_string v ''optionId'';
          Some \<lparr>po_id = i, po_kind = or_default [] (get_string v ''kind'')\<rparr> }"

definition on_request_permission :: "nat \<Rightarrow> session_id \<Rightarrow> json \<Rightarrow> translator \<Rightarrow> heard" where
  "on_request_permission i session params t =
     (let options = (case Option.bind (jget params ''options'') as_list of
            Some opts \<Rightarrow> List.map_filter offered_option opts | None \<Rightarrow> []);
          tool = jget params ''toolCall'';
          summary = or_default (ustr ''run a tool'') (Option.bind tool (\<lambda>v. get_string v ''title''));
          spec = terminal_spec_of_permission tool;
          request = tr_next_id t + 1 in
      (([PermissionRequested session request summary (argv_of tool) spec (edit_diff_of_permission tool)], []),
       t\<lparr>tr_next_id := request,
         tr_permissions := AList.update request
           \<lparr>pp_wire_request = i, pp_session = session, pp_options = options, pp_terminal_spec = spec\<rparr>
           (tr_permissions t)\<rparr>))"

text \<open>\<open>position\<close> and \<open>remove\<close>: the first grant that matches is spent.\<close>

fun spend :: "session_id \<times> terminal_spec \<Rightarrow> (session_id \<times> terminal_spec) list
    \<Rightarrow> bool \<times> (session_id \<times> terminal_spec) list" where
  "spend g [] = (False, [])"
| "spend g (h # hs) = (if h = g then (True, hs) else (let (b, hs) = spend g hs in (b, h # hs)))"

definition on_terminal_create :: "nat \<Rightarrow> session_id \<Rightarrow> json \<Rightarrow> translator \<Rightarrow> heard" where
  "on_terminal_create i session params t =
     (if session = 0 then invalid_params i (ustr ''terminal/create needs a known sessionId'') t else
      case terminal_spec_of_create params of
        Inl msg \<Rightarrow> invalid_params i msg t
      | Inr spec \<Rightarrow>
     (case output_limit params of
        Inl msg \<Rightarrow> invalid_params i msg t
      | Inr limit \<Rightarrow>
          (let (preauthorized, grants) = spend (session, spec) (tr_grants t);
               (event, t) = allocate_terminal_request i session KCreate
                 (TCreate spec limit preauthorized) (t\<lparr>tr_grants := grants\<rparr>) in
           (([event], []), t))))"

definition terminal_method :: "utext \<Rightarrow> terminal_id \<Rightarrow> terminal_rpc_kind \<times> terminal_operation" where
  "terminal_method meth terminal =
     (if meth = ustr ''terminal/output'' then (KOutput terminal, TOutput terminal)
      else if meth = ustr ''terminal/wait_for_exit'' then (KWait terminal, TWaitForExit terminal)
      else if meth = ustr ''terminal/kill'' then (KKill terminal, TKill terminal)
      else (KRelease terminal, TRelease terminal))"

definition on_terminal_method :: "nat \<Rightarrow> utext \<Rightarrow> session_id \<Rightarrow> json \<Rightarrow> translator \<Rightarrow> heard" where
  "on_terminal_method i meth session params t =
     (if session = 0 then invalid_params i (meth @ ustr '' needs a known sessionId'') t else
      case get_string params ''terminalId'' of
        None \<Rightarrow> invalid_params i (meth @ ustr '' needs a terminalId'') t
      | Some wire \<Rightarrow>
     (case live_terminal t wire session of
        None \<Rightarrow> invalid_params i (ustr ''unknown or released terminalId: '' @ wire) t
      | Some terminal \<Rightarrow>
          (let (kind, operation) = terminal_method meth terminal;
               (event, t) = allocate_terminal_request i session kind operation t in
           (([event], []), t))))"

definition on_request :: "nat \<Rightarrow> utext \<Rightarrow> json \<Rightarrow> translator \<Rightarrow> heard" where
  "on_request i meth params t =
     (let session = or_default 0 (Option.bind (get_string params ''sessionId'') (our_session t)) in
      if meth = ustr ''fs/read_text_file'' then on_read_text_file i session params t
      else if meth = ustr ''fs/write_text_file'' then on_write_text_file i session params t
      else if meth = ustr ''session/request_permission'' then on_request_permission i session params t
      else if meth = ustr ''terminal/create'' then on_terminal_create i session params t
      else if meth \<in> {ustr ''terminal/output'', ustr ''terminal/wait_for_exit'',
                      ustr ''terminal/kill'', ustr ''terminal/release''}
      then on_terminal_method i meth session params t
      else refuse_call i (- 32601) (meth @ ustr '' is not supported'') t)"

fun incoming :: "rpc_message \<Rightarrow> translator \<Rightarrow> heard" where
  "incoming (Response i result) t = on_response i result t"
| "incoming (Error i _ msg) t = on_error i msg t"
| "incoming (Notification meth params) t =
     (let (events, t) = on_notification meth params t in ((events, []), t))"
| "incoming (Request i meth params) t = on_request i meth params t"

end
