(* ===== verification/Fresh_Keys.thy ===== *)
theory Fresh_Keys
  imports Main "HOL-Library.AList" "HOL-Library.Multiset"
begin

text \<open>
  Association lists keyed by ids that a counter hands out: a new id is not a key yet, so an update
  appends; a deletion takes exactly one entry out of the list's bag.
\<close>

definition fresh_keys :: "nat \<Rightarrow> (nat \<times> 'a) list \<Rightarrow> bool" where
  "fresh_keys n al \<longleftrightarrow> distinct (map fst al) \<and> (\<forall>k\<in>set (map fst al). k \<le> n)"

lemma update_fresh: "k \<notin> fst ` set al \<Longrightarrow> AList.update k v al = al @ [(k, v)]"
  by (induction al) auto

lemma delete_absent: "k \<notin> fst ` set al \<Longrightarrow> AList.delete k al = al"
  by (induction al) auto

lemma mset_delete:
  assumes "distinct (map fst al)" "map_of al k = Some v"
  shows "add_mset (f (k, v)) (mset (map f (AList.delete k al))) = mset (map f al)"
  using assms
proof (induction al)
  case (Cons a al)
  show ?case
  proof (cases "fst a = k")
    case True
    then have "k \<notin> fst ` set al" using Cons.prems(1) by auto
    then show ?thesis using Cons.prems True by (cases a) (auto simp: delete_absent)
  next
    case False
    then show ?thesis using Cons by (cases a) auto
  qed
qed simp

lemma fresh_keys_Nil [simp]: "fresh_keys n []"
  by (simp add: fresh_keys_def)

lemma fresh_keys_delete: "fresh_keys n al \<Longrightarrow> fresh_keys n (AList.delete k al)"
  by (auto simp: fresh_keys_def delete_keys distinct_removeAll simp del: AList.delete_eq)

lemma fresh_keys_mono: "fresh_keys n al \<Longrightarrow> n \<le> m \<Longrightarrow> fresh_keys m al"
  by (auto simp: fresh_keys_def)

lemma fresh_keys_Suc: "fresh_keys n al \<Longrightarrow> fresh_keys (Suc n) al"
  by (rule fresh_keys_mono) auto

lemma fresh_keys_snoc: "fresh_keys n al \<Longrightarrow> fresh_keys (Suc n) (al @ [(Suc n, v)])"
  by (force simp: fresh_keys_def)

lemma update_next: "fresh_keys n al \<Longrightarrow> AList.update (Suc n) v al = al @ [(Suc n, v)]"
  by (rule update_fresh) (force simp: fresh_keys_def)

lemma update_next_keys: "fresh_keys n al \<Longrightarrow> fresh_keys (Suc n) (AList.update (Suc n) v al)"
  by (simp add: update_next fresh_keys_snoc)

lemma list_all_delete: "list_all P al \<Longrightarrow> list_all P (AList.delete k al)"
  by (auto simp: list_all_iff AList.delete_eq)

lemma fresh_keys_nth: "fresh_keys n al \<Longrightarrow> (k, v) \<in> set al \<Longrightarrow> k \<le> n"
  by (force simp: fresh_keys_def)

lemma fresh_keys_map_of: "fresh_keys n al \<Longrightarrow> (k, v) \<in> set al \<longleftrightarrow> map_of al k = Some v"
  by (simp add: fresh_keys_def)

lemma set_delete: "(k', v) \<in> set (AList.delete k al) \<longleftrightarrow> (k', v) \<in> set al \<and> k' \<noteq> k"
  by (auto simp: AList.delete_eq)

end
