(* ===== verification/Acp_Ledger.thy ===== *)
theory Acp_Ledger
  imports Acp_Translator Fresh_Keys
begin

text \<open>
  Runs of the translator and its books: which calls of the agent it owes an answer, what a
  reachable translator looks like, and that every step keeps the books straight.
\<close>

section \<open>Runs\<close>

datatype acp_traffic = Send agent_request | Hear rpc_message

fun acp_step :: "acp_traffic \<Rightarrow> translator \<Rightarrow> heard" where
  "acp_step (Send r) t = (let (ms, t) = outgoing r t in (([], ms), t))"
| "acp_step (Hear m) t = incoming m t"

fun acp_run :: "acp_traffic list \<Rightarrow> translator \<Rightarrow> heard" where
  "acp_run [] t = (([], []), t)"
| "acp_run (s # ss) t =
     (let ((es, ms), t) = acp_step s t; ((es', ms'), t) = acp_run ss t in ((es @ es', ms @ ms'), t))"

definition connected :: "client_capabilities \<Rightarrow> translator" where
  "connected cap = snd (initialize cap translator_new)"

lemma acp_run_append:
  "acp_run (xs @ ys) t =
     (let ((es, ms), t) = acp_run xs t; ((es', ms'), t) = acp_run ys t in ((es @ es', ms @ ms'), t))"
  by (induction xs arbitrary: t) (simp_all add: Let_def split: prod.split)

section \<open>The books\<close>

text \<open>The calls of the agent that wait for an answer, and the answers a list of messages holds.\<close>

definition owed :: "translator \<Rightarrow> nat multiset" where
  "owed t = mset (map snd (tr_reads t))
     + mset (map (\<lambda>(_, p). pp_wire_request p) (tr_permissions t))
     + mset (map (\<lambda>(_, p). pt_wire_request p) (tr_terminal_rpcs t))"

fun answer_id :: "rpc_message \<Rightarrow> nat list" where
  "answer_id (Response i _) = [i]"
| "answer_id (Error i _ _) = [i]"
| "answer_id _ = []"

fun call_id :: "acp_traffic \<Rightarrow> nat list" where
  "call_id (Hear (Request i _ _)) = [i]"
| "call_id _ = []"

abbreviation answered :: "rpc_message list \<Rightarrow> nat multiset" where
  "answered ms \<equiv> mset (concat (map answer_id ms))"

abbreviation called :: "acp_traffic list \<Rightarrow> nat multiset" where
  "called ss \<equiv> mset (concat (map call_id ss))"

definition books_ok :: "translator \<Rightarrow> bool" where
  "books_ok t \<longleftrightarrow> fresh_keys (tr_next_id t) (tr_reads t) \<and> fresh_keys (tr_next_id t) (tr_permissions t)
     \<and> fresh_keys (tr_next_id t) (tr_terminal_rpcs t) \<and> fresh_keys (tr_ids t) (tr_pending t)
     \<and> (tr_ready t \<longrightarrow> tr_queued t = []) \<and> (\<not> tr_ready t \<longrightarrow> list_all (\<lambda>(_, p). p = PInitialize) (tr_pending t))"

subsection \<open>What the editor sends\<close>

lemma owed_simps [simp]:
  "owed (t\<lparr>tr_ids := a\<rparr>) = owed t" "owed (t\<lparr>tr_pending := b\<rparr>) = owed t"
  "owed (t\<lparr>tr_sessions := c\<rparr>) = owed t" "owed (t\<lparr>tr_terminals := d\<rparr>) = owed t"
  "owed (t\<lparr>tr_grants := e\<rparr>) = owed t" "owed (t\<lparr>tr_next_session := f\<rparr>) = owed t"
  "owed (t\<lparr>tr_next_id := g\<rparr>) = owed t" "owed (t\<lparr>tr_ready := h\<rparr>) = owed t"
  "owed (t\<lparr>tr_queued := i\<rparr>) = owed t"
  by (simp_all add: owed_def)

lemma owed_without:
  assumes "books_ok t"
  shows "map_of (tr_reads t) k = Some w \<Longrightarrow>
      add_mset w (owed (t\<lparr>tr_reads := AList.delete k (tr_reads t)\<rparr>)) = owed t"
    and "map_of (tr_permissions t) k = Some p \<Longrightarrow>
      add_mset (pp_wire_request p) (owed (t\<lparr>tr_permissions := AList.delete k (tr_permissions t)\<rparr>)) = owed t"
    and "map_of (tr_terminal_rpcs t) k = Some q \<Longrightarrow>
      add_mset (pt_wire_request q) (owed (t\<lparr>tr_terminal_rpcs := AList.delete k (tr_terminal_rpcs t)\<rparr>)) = owed t"
  using assms mset_delete [of "tr_reads t" k w snd]
    mset_delete [of "tr_permissions t" k p "\<lambda>(_, p). pp_wire_request p"]
    mset_delete [of "tr_terminal_rpcs t" k q "\<lambda>(_, p). pt_wire_request p"]
  by (auto simp: owed_def books_ok_def fresh_keys_def)

text \<open>A step settles its part of the books.\<close>

definition settles :: "translator \<Rightarrow> nat multiset \<Rightarrow> rpc_message list \<Rightarrow> translator \<Rightarrow> bool" where
  "settles t new ms t' \<longleftrightarrow> books_ok t' \<and> owed t' + answered ms = owed t + new"

lemma settles_refl [simp]: "books_ok t \<Longrightarrow> settles t {#} [] t"
  by (simp add: settles_def)

lemma settles_trans: "settles t a ms u \<Longrightarrow> settles u b ms' v \<Longrightarrow> settles t (a + b) (ms @ ms') v"
  unfolding settles_def by (simp, metis union_assoc union_commute)

lemma books_okD:
  assumes "books_ok t"
  shows "books_ok (t\<lparr>tr_reads := AList.delete k (tr_reads t)\<rparr>)"
    "books_ok (t\<lparr>tr_permissions := AList.delete k (tr_permissions t)\<rparr>)"
    "books_ok (t\<lparr>tr_terminal_rpcs := AList.delete k (tr_terminal_rpcs t)\<rparr>)"
    "books_ok (t\<lparr>tr_pending := AList.delete k (tr_pending t)\<rparr>)"
    "books_ok (t\<lparr>tr_grants := g\<rparr>)" "books_ok (t\<lparr>tr_terminals := l\<rparr>)"
    "books_ok (t\<lparr>tr_next_session := n, tr_sessions := ss\<rparr>)"
  using assms
  by (auto simp: books_ok_def fresh_keys_delete list_all_delete simp del: AList.delete_eq)

lemma settles_call:
  assumes "books_ok t" "tr_ready t" "call meth params p t = (m, t')"
  shows "settles t {#} (case m of Some m \<Rightarrow> [m] | None \<Rightarrow> []) t'"
  using assms by (auto simp: call_def allocate_def settles_def owed_def books_ok_def update_next_keys)

lemma terminal_result_state:
  "\<exists>l. snd (terminal_result k r s t) = t\<lparr>tr_terminals := l\<rparr>"
  by (cases "(k, r, s, t)" rule: terminal_result.cases)
    (auto simp: Let_def intro: exI [of _ "tr_terminals t"])

lemma settles_terminal_response:
  assumes "books_ok t" "encode_terminal_response r resp t = (m, t')"
  shows "settles t {#} (case m of Some m \<Rightarrow> [m] | None \<Rightarrow> []) t'"
proof (cases "map_of (tr_terminal_rpcs t) r")
  case None
  then show ?thesis using assms by (simp add: encode_terminal_response_def)
next
  case (Some p)
  let ?u = "t\<lparr>tr_terminal_rpcs := AList.delete r (tr_terminal_rpcs t)\<rparr>"
  have u: "books_ok ?u" "add_mset (pt_wire_request p) (owed ?u) = owed t"
    using books_okD assms(1) owed_without(3) [OF assms(1) Some] by simp_all
  obtain l where "snd (terminal_result (pt_kind p) resp (pt_session p) ?u) = ?u\<lparr>tr_terminals := l\<rparr>"
    using terminal_result_state by blast
  then show ?thesis
    using assms(2) Some u books_okD(6) [OF u(1), of l]
    by (auto simp: encode_terminal_response_def settles_def Let_def split: prod.splits sum.splits)
qed

lemma settles_file_contents:
  assumes "books_ok t" "encode_file_contents r p c t = (m, t')"
  shows "settles t {#} (case m of Some m \<Rightarrow> [m] | None \<Rightarrow> []) t'"
  using assms owed_without(1) [OF assms(1), of r] books_okD(1) [OF assms(1)]
  by (auto simp: encode_file_contents_def settles_def split: option.splits)

lemma settles_permission:
  assumes "books_ok t" "encode_permission r d t = (m, t')"
  shows "settles t {#} (case m of Some m \<Rightarrow> [m] | None \<Rightarrow> []) t'"
  using assms owed_without(2) [OF assms(1), of r] books_okD(2) [OF assms(1), of r]
  by (auto simp: encode_permission_def settles_def Let_def books_okD(5) split: option.splits if_splits)

lemma settles_permission_cancelled:
  assumes "books_ok t" "encode_permission_cancelled r t = (m, t')"
  shows "settles t {#} (case m of Some m \<Rightarrow> [m] | None \<Rightarrow> []) t'"
  using assms owed_without(2) [OF assms(1), of r] books_okD(2) [OF assms(1), of r]
  by (auto simp: encode_permission_cancelled_def settles_def split: option.splits)

lemma settles_cancel:
  assumes "books_ok t" "encode_cancel s t = (m, t')"
  shows "settles t {#} (case m of Some m \<Rightarrow> [m] | None \<Rightarrow> []) t'"
  using assms books_okD(5)
  by (auto simp: encode_cancel_def expire_terminal_grants_def settles_def Let_def split: option.splits)

lemma settles_encode:
  assumes "books_ok t" "tr_ready t" "encode r t = (m, t')"
  shows "settles t {#} (case m of Some m \<Rightarrow> [m] | None \<Rightarrow> []) t'"
proof (cases r)
  case (SetMode s mode)
  show ?thesis
  proof (cases "wire_session t s")
    case (Some w)
    then show ?thesis
      using assms(3) settles_call [OF assms(1,2)] unfolding SetMode by (simp add: encode_set_mode_def)
  qed (use assms SetMode in \<open>auto simp: encode_set_mode_def\<close>)
next
  case (Prompt s a b)
  show ?thesis
  proof (cases "wire_session t s")
    case (Some w)
    then show ?thesis
      using assms(3) settles_call [OF assms(1,2)] unfolding Prompt by (simp add: encode_prompt_def Let_def)
  qed (use assms Prompt in \<open>auto simp: encode_prompt_def\<close>)
qed (use assms settles_call [OF assms(1,2)] settles_file_contents settles_permission
    settles_permission_cancelled settles_terminal_response settles_cancel
    in \<open>auto simp: encode_new_session_def\<close>)

lemma call_ready [simp]: "tr_ready (snd (call meth params p t)) = tr_ready t"
  by (simp add: call_def allocate_def)

lemma encode_terminal_response_state:
  assumes "map_of (tr_terminal_rpcs t) r = Some p"
  shows "\<exists>l. snd (encode_terminal_response r resp t)
    = t\<lparr>tr_terminal_rpcs := AList.delete r (tr_terminal_rpcs t), tr_terminals := l\<rparr>"
  using assms terminal_result_state by (simp add: encode_terminal_response_def Let_def case_prod_beta)

lemma encode_terminal_response_ready [simp]:
  "tr_ready (snd (encode_terminal_response r resp t)) = tr_ready t"
proof (cases "map_of (tr_terminal_rpcs t) r")
  case (Some p)
  then show ?thesis using encode_terminal_response_state [OF Some, of resp] by auto
qed (simp add: encode_terminal_response_def)

lemma encode_ready [simp]: "tr_ready (snd (encode r t)) = tr_ready t"
  by (cases r) (auto simp: encode_new_session_def encode_set_mode_def encode_prompt_def
      encode_file_contents_def encode_permission_def encode_permission_cancelled_def encode_cancel_def
      expire_terminal_grants_def Let_def split: option.split)

lemma settles_encode_all:
  assumes "books_ok t" "tr_ready t" "encode_all rs t = (ms, t')"
  shows "settles t {#} ms t'"
  using assms
proof (induction rs arbitrary: t ms t')
  case (Cons r rs)
  obtain m u where u: "encode r t = (m, u)" by fastforce
  obtain ns v where v: "encode_all rs u = (ns, v)" by fastforce
  have "tr_ready u" using Cons.prems(2) u encode_ready [of r t] by simp
  moreover have s: "settles t {#} (case m of Some m \<Rightarrow> [m] | None \<Rightarrow> []) u"
    by (rule settles_encode [OF Cons.prems(1,2) u])
  ultimately have "settles u {#} ns v" using Cons.IH [OF _ _ v] by (simp add: settles_def)
  from settles_trans [OF s this] show ?case using Cons.prems(3) u v by (cases m) auto
qed simp

lemma settles_outgoing:
  assumes "books_ok t" "outgoing r t = (ms, t')"
  shows "settles t {#} ms t'"
proof (cases "\<not> tr_ready t \<and> r \<noteq> Shutdown")
  case True
  then have "ms = []" "t' = t\<lparr>tr_queued := tr_queued t @ [r]\<rparr>"
    using assms(2) by (simp_all add: outgoing_def)
  then show ?thesis using assms(1) True by (simp add: settles_def books_ok_def)
next
  case False
  show ?thesis
  proof (cases "r = Shutdown")
    case True
    then show ?thesis using assms by (simp add: outgoing_def)
  next
    case no: False
    obtain m u where u: "encode r t = (m, u)" by fastforce
    have "settles t {#} (case m of Some m \<Rightarrow> [m] | None \<Rightarrow> []) u"
      using settles_encode [OF assms(1) _ u] False no by simp
    then show ?thesis using assms(2) False u by (auto simp: outgoing_def)
  qed
qed

subsection \<open>What the agent sends\<close>

lemma books_ok_ready:
  "books_ok t \<Longrightarrow> books_ok (t\<lparr>tr_ready := True, tr_queued := []\<rparr>)"
  by (simp add: books_ok_def)

lemma books_ok_next: "books_ok t \<Longrightarrow> books_ok (t\<lparr>tr_next_id := Suc (tr_next_id t)\<rparr>)"
  by (auto simp: books_ok_def fresh_keys_Suc)

lemma settles_response:
  assumes b: "books_ok t" and r: "on_response i v t = ((es, ms), t')"
  shows "settles t {#} ms t'"
proof -
  let ?u = "t\<lparr>tr_pending := AList.delete i (tr_pending t)\<rparr>"
  have u: "books_ok ?u" "owed ?u = owed t" using books_okD(4) [OF b] by simp_all
  have x: "settles ?u {#} ms t'" if "encode_all (tr_queued ?u) (?u\<lparr>tr_ready := True, tr_queued := []\<rparr>) = (ms, t')"
    using settles_encode_all [OF books_ok_ready [OF u(1)] _ that] by (simp add: settles_def)
  have y: "settles t {#} ms t'" if "settles ?u {#} ms t'"
    using that u(2) by (simp add: settles_def)
  show ?thesis
    using r x u books_okD(7) [OF u(1)] by (intro y)
     (auto simp: on_response_def session_opened_def expire_terminal_grants_def Let_def settles_def books_okD
        split: option.splits pending.splits prod.splits)
qed

lemma settles_error:
  assumes "books_ok t" "on_error i msg t = ((es, ms), t')"
  shows "settles t {#} ms t'"
  using assms by (auto simp: on_error_def expire_terminal_grants_def settles_def books_okD Let_def)

lemma event_of_content_state:
  "event_of_content s c t = (e, t') \<Longrightarrow> t' = t \<or> t' = t\<lparr>tr_next_id := Suc (tr_next_id t)\<rparr>"
  by (auto simp: event_of_content_def Let_def split: option.splits if_splits)

lemma settles_contents: "books_ok t \<Longrightarrow> events_of_contents s cs t = (es, t') \<Longrightarrow> settles t {#} [] t'"
proof (induction cs arbitrary: t es t')
  case (Cons c cs)
  obtain e u where u: "event_of_content s c t = (e, u)" by fastforce
  obtain fs v where v: "events_of_contents s cs u = (fs, v)" by fastforce
  have "books_ok u" "owed u = owed t"
    using event_of_content_state [OF u] Cons.prems(1) books_ok_next by auto
  then show ?case using Cons.IH [OF _ v] Cons.prems(2) u v by (simp add: settles_def)
qed simp

lemma settles_notification:
  assumes "books_ok t" "on_notification meth params t = (es, t')"
  shows "settles t {#} [] t'"
  using assms settles_contents [OF assms(1)]
  by (auto simp: on_notification_def events_from_tool_call_def Let_def split: option.splits if_splits)

lemma books_ok_asked:
  assumes "books_ok t"
  defines "n \<equiv> Suc (tr_next_id t)"
  shows "settles t {#w#} [] (t\<lparr>tr_next_id := n, tr_reads := AList.update n w (tr_reads t)\<rparr>)"
    "settles t {#pp_wire_request p#} []
       (t\<lparr>tr_next_id := n, tr_permissions := AList.update n p (tr_permissions t)\<rparr>)"
    "settles t {#pt_wire_request q#} []
       (t\<lparr>tr_next_id := n, tr_terminal_rpcs := AList.update n q (tr_terminal_rpcs t)\<rparr>)"
  using assms(1) unfolding n_def
  by (simp_all add: settles_def books_ok_def update_next_keys fresh_keys_Suc) (simp_all add: owed_def update_next)

lemma settles_terminal_request:
  assumes "books_ok t" "allocate_terminal_request i s k op t = (e, t')"
  shows "settles t {#i#} [] t'"
  using assms(2) books_ok_asked(3) [OF assms(1), of "\<lparr>pt_wire_request = i, pt_session = s, pt_kind = k\<rparr>"]
  by (auto simp: allocate_terminal_request_def Let_def)

lemma settles_refusal: "books_ok t \<Longrightarrow> refuse_call i c msg t = ((es, ms), t') \<Longrightarrow> settles t {#i#} ms t'"
  by (auto simp: refuse_call_def settles_def)

lemma settles_read:
  assumes "books_ok t" "on_read_text_file i s params t = ((es, ms), t')"
  shows "settles t {#i#} ms t'"
proof (cases "get_string params ''path''")
  case None
  then show ?thesis
    using assms settles_refusal by (simp add: on_read_text_file_def invalid_params_def)
next
  case (Some p)
  then show ?thesis
    using assms(2) books_ok_asked(1) [OF assms(1), of i] by (auto simp: on_read_text_file_def Let_def)
qed

lemma settles_write:
  assumes "books_ok t" "on_write_text_file i s params t = ((es, ms), t')"
  shows "settles t {#i#} ms t'"
  using assms books_ok_next
  by (auto simp: on_write_text_file_def invalid_params_def refuse_call_def settles_def Let_def split: option.splits)

lemma settles_ask:
  assumes "books_ok t" "on_request_permission i s params t = ((es, ms), t')"
  shows "settles t {#i#} ms t'"
  using assms(2) books_ok_asked(2) [OF assms(1), of "\<lparr>pp_wire_request = i, pp_session = s,
      pp_options = opts, pp_terminal_spec = spec\<rparr>" for opts spec]
  by (auto simp: on_request_permission_def Let_def)

lemma settles_create:
  assumes "books_ok t" "on_terminal_create i s params t = ((es, ms), t')"
  shows "settles t {#i#} ms t'"
proof -
  have x: "settles t {#i#} [] u" if "allocate_terminal_request i s k op (t\<lparr>tr_grants := g\<rparr>) = (e, u)" for k op g e u
    using settles_terminal_request [OF books_okD(5) [OF assms(1)] that] by (simp add: settles_def)
  show ?thesis
    using assms by (auto simp: on_terminal_create_def invalid_params_def settles_refusal Let_def x
        split: if_splits sum.splits prod.splits)
qed

lemma settles_method:
  assumes "books_ok t" "on_terminal_method i meth s params t = ((es, ms), t')"
  shows "settles t {#i#} ms t'"
  using assms by (auto simp: on_terminal_method_def invalid_params_def settles_refusal
      settles_terminal_request Let_def split: if_splits option.splits prod.splits)

lemma settles_request:
  assumes "books_ok t" "on_request i meth params t = ((es, ms), t')"
  shows "settles t {#i#} ms t'"
  using assms settles_read settles_write settles_ask settles_create settles_method settles_refusal
  unfolding on_request_def Let_def by (simp split: if_splits)

lemma settles_incoming:
  assumes "books_ok t" "incoming m t = ((es, ms), t')"
  shows "settles t (called [Hear m]) ms t'"
  using assms settles_response settles_error settles_request settles_notification
  by (cases m) (auto split: prod.splits)

lemma settles_step:
  assumes "books_ok t" "acp_step s t = ((es, ms), t')"
  shows "settles t (called [s]) ms t'"
  using assms settles_outgoing settles_incoming by (cases s) (auto split: prod.splits)

lemma settles_run:
  assumes "books_ok t" "acp_run ss t = ((es, ms), t')"
  shows "settles t (called ss) ms t'"
  using assms
proof (induction ss arbitrary: t es ms t')
  case (Cons s ss)
  obtain es1 ms1 u where u: "acp_step s t = ((es1, ms1), u)" by (metis surj_pair)
  obtain es2 ms2 v where v: "acp_run ss u = ((es2, ms2), v)" by (metis surj_pair)
  have s: "settles t (called [s]) ms1 u" by (rule settles_step [OF Cons.prems(1) u])
  then have "settles u (called ss) ms2 v" using Cons.IH [OF _ v] by (simp add: settles_def)
  from settles_trans [OF s this] show ?case using Cons.prems(2) u v by (simp add: add.commute)
qed simp

lemma connected_books: "books_ok (connected cap)" "owed (connected cap) = {#}"
  by (simp_all add: connected_def initialize_def allocate_def translator_new_def books_ok_def
      fresh_keys_def owed_def)

end
