(* ===== verification/Acp_Claims.thy ===== *)
theory Acp_Claims
  imports Acp_Ledger
begin

text \<open>
  What the agent translator promises: every call of the agent is answered exactly once and none is
  left waiting, the handshake loses and reorders nothing, an answer never changes its direction,
  and an allowance to run a command is spent once, in the turn it was given.
\<close>

section \<open>Every call is answered\<close>

text \<open>What the editor has been asked, which event asks it and which request answers it.\<close>

datatype ask = AskRead nat | AskPermission nat | AskTerminal nat

fun is_open :: "translator \<Rightarrow> ask \<Rightarrow> bool" where
  "is_open t (AskRead k) \<longleftrightarrow> map_of (tr_reads t) k \<noteq> None"
| "is_open t (AskPermission k) \<longleftrightarrow> map_of (tr_permissions t) k \<noteq> None"
| "is_open t (AskTerminal k) \<longleftrightarrow> map_of (tr_terminal_rpcs t) k \<noteq> None"

fun event_asks :: "agent_event \<Rightarrow> ask option" where
  "event_asks (ReadFileRequested _ i _) = Some (AskRead i)"
| "event_asks (PermissionRequested _ i _ _ _ _) = Some (AskPermission i)"
| "event_asks (TerminalRequest _ i _) = Some (AskTerminal i)"
| "event_asks _ = None"

fun request_answers :: "agent_request \<Rightarrow> ask option" where
  "request_answers (FileContents _ i _ _) = Some (AskRead i)"
| "request_answers (Permission i _) = Some (AskPermission i)"
| "request_answers (PermissionCancelled i) = Some (AskPermission i)"
| "request_answers (TerminalResponse i _) = Some (AskTerminal i)"
| "request_answers _ = None"

lemma none_open_owed:
  assumes "\<And>a. \<not> is_open t a"
  shows "owed t = {#}"
proof -
  have empty: "al = []" if "\<And>k. map_of al k = None" for al :: "(nat \<times> 'a) list"
    using that [of "fst (hd al)"] by (cases al) auto
  have "tr_reads t = []" "tr_permissions t = []" "tr_terminal_rpcs t = []"
    using assms [of "AskRead k" for k] assms [of "AskPermission k" for k] assms [of "AskTerminal k" for k]
    by (simp_all add: empty)
  then show ?thesis by (simp add: owed_def)
qed

lemma is_open_cong:
  "tr_reads t = tr_reads u \<Longrightarrow> tr_permissions t = tr_permissions u \<Longrightarrow>
    tr_terminal_rpcs t = tr_terminal_rpcs u \<Longrightarrow> is_open t a = is_open u a"
  by (cases a) simp_all

lemma is_open_call [simp]: "is_open (snd (call meth params p t)) a = is_open t a"
  by (rule is_open_cong) (simp_all add: call_def allocate_def)

lemma is_open_terminal_response:
  "is_open (snd (encode_terminal_response r resp t)) a \<longleftrightarrow> is_open t a \<and> a \<noteq> AskTerminal r"
proof (cases "map_of (tr_terminal_rpcs t) r")
  case None
  then show ?thesis by (cases a) (auto simp: encode_terminal_response_def)
next
  case (Some p)
  then show ?thesis
    using encode_terminal_response_state [OF Some, of resp]
    by (cases a) (auto simp: delete_conv split: if_splits simp del: AList.delete_eq)
qed

lemma is_open_file_contents:
  "is_open (snd (encode_file_contents r p c t)) a \<longleftrightarrow> is_open t a \<and> a \<noteq> AskRead r"
proof (cases "map_of (tr_reads t) r")
  case None
  then show ?thesis by (cases a) (auto simp: encode_file_contents_def)
qed (cases a; auto simp: encode_file_contents_def delete_conv simp del: AList.delete_eq)

lemma is_open_cancelled:
  "is_open (snd (encode_permission_cancelled r t)) a \<longleftrightarrow> is_open t a \<and> a \<noteq> AskPermission r"
proof (cases "map_of (tr_permissions t) r")
  case None
  then show ?thesis by (cases a) (auto simp: encode_permission_cancelled_def)
qed (cases a; auto simp: encode_permission_cancelled_def delete_conv simp del: AList.delete_eq)

lemma is_open_permission:
  "is_open (snd (encode_permission r d t)) a \<longleftrightarrow> is_open t a \<and> a \<noteq> AskPermission r"
proof (cases "map_of (tr_permissions t) r")
  case None
  then show ?thesis by (cases a) (auto simp: encode_permission_def)
next
  case (Some p)
  then have "is_open (snd (encode_permission r d t)) a
      = is_open (t\<lparr>tr_permissions := AList.delete r (tr_permissions t)\<rparr>) a"
    by (intro is_open_cong) (simp_all add: encode_permission_def Let_def split: option.split)
  then show ?thesis by (cases a) (auto simp: delete_conv simp del: AList.delete_eq)
qed

lemma is_open_expire [simp]: "is_open (expire_terminal_grants s t) a = is_open t a"
  by (rule is_open_cong) (simp_all add: expire_terminal_grants_def)

lemma is_open_encode:
  "is_open (snd (encode r t)) a \<longleftrightarrow> is_open t a \<and> request_answers r \<noteq> Some a"
  by (cases r) (auto simp: encode_new_session_def encode_set_mode_def encode_prompt_def encode_cancel_def
      is_open_terminal_response is_open_file_contents is_open_permission is_open_cancelled Let_def
      split: option.split)

lemma is_open_encode_all: "encode_all rs t = (ms, t') \<Longrightarrow> is_open t' a \<Longrightarrow> is_open t a"
proof (induction rs arbitrary: t ms)
  case (Cons r rs)
  obtain ns where "encode_all rs (snd (encode r t)) = (ns, t')"
    using Cons.prems(1) by (auto split: prod.splits)
  then show ?case using Cons.IH Cons.prems(2) is_open_encode by blast
qed simp

lemma is_open_contents: "events_of_contents s cs t = (es, t') \<Longrightarrow> is_open t' a = is_open t a"
proof (induction cs arbitrary: t es)
  case (Cons c cs)
  obtain e u where u: "event_of_content s c t = (e, u)" by (metis surj_pair)
  obtain fs where v: "events_of_contents s cs u = (fs, t')"
    using Cons.prems u by (auto split: prod.splits)
  have "is_open u a = is_open t a"
    by (rule disjE [OF event_of_content_state [OF u]]; rule is_open_cong) simp_all
  then show ?case using Cons.IH [OF v] by simp
qed simp

lemma is_open_terminal_request:
  "allocate_terminal_request i s k op t = (e, t') \<Longrightarrow>
    is_open t' a \<longleftrightarrow> is_open t a \<or> event_asks e = Some a"
  by (cases a) (auto simp: allocate_terminal_request_def update_conv Let_def)

lemma is_open_read:
  "on_read_text_file i s params t = ((es, ms), t') \<Longrightarrow> is_open t' a \<Longrightarrow>
    is_open t a \<or> Some a \<in> event_asks ` set es"
  by (cases a) (auto simp: on_read_text_file_def invalid_params_def refuse_call_def update_conv Let_def
      split: option.splits)

lemma is_open_ask:
  "on_request_permission i s params t = ((es, ms), t') \<Longrightarrow> is_open t' a \<Longrightarrow>
    is_open t a \<or> Some a \<in> event_asks ` set es"
  by (cases a) (auto simp: on_request_permission_def update_conv Let_def)

lemma is_open_write:
  "on_write_text_file i s params t = ((es, ms), t') \<Longrightarrow> is_open t' a = is_open t a"
  by (cases a) (auto simp: on_write_text_file_def invalid_params_def refuse_call_def Let_def
      split: option.splits)

lemma is_open_method:
  "on_terminal_method i meth s params t = ((es, ms), t') \<Longrightarrow> is_open t' a \<Longrightarrow>
    is_open t a \<or> Some a \<in> event_asks ` set es"
  by (auto simp: on_terminal_method_def invalid_params_def refuse_call_def is_open_terminal_request Let_def
      split: if_splits option.splits prod.splits)

lemma is_open_create:
  "on_terminal_create i s params t = ((es, ms), t') \<Longrightarrow> is_open t' a \<Longrightarrow>
    is_open t a \<or> Some a \<in> event_asks ` set es"
  using is_open_cong [of "t\<lparr>tr_grants := g\<rparr>" t a for g, simplified]
  by (auto simp: on_terminal_create_def invalid_params_def refuse_call_def is_open_terminal_request Let_def
      split: if_splits sum.splits prod.splits)

lemma is_open_request:
  "on_request i meth params t = ((es, ms), t') \<Longrightarrow> is_open t' a \<Longrightarrow>
    is_open t a \<or> Some a \<in> event_asks ` set es"
  using is_open_read is_open_ask is_open_write is_open_method is_open_create
  unfolding on_request_def Let_def refuse_call_def by (simp split: if_splits)

lemma is_open_incoming:
  assumes "incoming m t = ((es, ms), t')" "is_open t' a"
  shows "is_open t a \<or> Some a \<in> event_asks ` set es"
proof (cases m)
  case (Response i v)
  let ?u = "t\<lparr>tr_pending := AList.delete i (tr_pending t)\<rparr>"
  let ?w = "?u\<lparr>tr_ready := True, tr_queued := []\<rparr>"
  have "is_open ?u a = is_open t a" "is_open ?w a = is_open t a"
    by (rule is_open_cong; simp)+
  moreover have "is_open (snd (session_opened v ?u)) a = is_open ?u a"
    by (rule is_open_cong) (simp_all add: session_opened_def Let_def split: option.split)
  ultimately show ?thesis
    using assms Response is_open_encode_all [of "tr_queued ?u" ?w ms t' a]
    by (auto simp: on_response_def Let_def split: option.splits pending.splits prod.splits)
next
  case (Error i c msg)
  then show ?thesis using assms is_open_cong [of "t\<lparr>tr_pending := AList.delete i (tr_pending t)\<rparr>" t a]
    by (auto simp: on_error_def Let_def)
next
  case (Notification meth params)
  then show ?thesis
    using assms is_open_contents
    by (auto simp: on_notification_def events_from_tool_call_def Let_def
        split: option.splits if_splits prod.splits)
qed (use assms is_open_request in simp)

lemma is_open_run:
  "acp_run ss t = ((es, ms), t') \<Longrightarrow> is_open t' a \<Longrightarrow> is_open t a \<or> Some a \<in> event_asks ` set es"
proof (induction ss arbitrary: t es ms)
  case (Cons s ss)
  obtain es1 ms1 u where u: "acp_step s t = ((es1, ms1), u)" by (metis surj_pair)
  obtain es2 ms2 where v: "acp_run ss u = ((es2, ms2), t')" and es: "es = es1 @ es2"
    using Cons.prems(1) u by (auto split: prod.splits)
  have "is_open t a \<or> Some a \<in> event_asks ` set es1" if "is_open u a"
  proof (cases s)
    case (Send r)
    show ?thesis
    proof (cases "\<not> tr_ready t \<and> r \<noteq> Shutdown")
      case True
      then have "u = t\<lparr>tr_queued := tr_queued t @ [r]\<rparr>" using u Send by (simp add: outgoing_def)
      then have "is_open u a = is_open t a" by (intro is_open_cong) simp_all
      then show ?thesis using that by simp
    next
      case False
      then have "u = snd (encode r t)" using u Send by (auto simp: outgoing_def split: prod.splits)
      then show ?thesis using is_open_encode that by blast
    qed
  qed (use is_open_incoming u that in auto)
  then show ?case using Cons.IH [OF v Cons.prems(2)] es by auto
qed simp

lemma answers_run:
  assumes "tr_ready t" "acp_run (map Send rs) t = ((es, ms), t')"
  shows "is_open t' a \<longleftrightarrow> is_open t a \<and> Some a \<notin> request_answers ` set rs"
  using assms
proof (induction rs arbitrary: t es ms)
  case (Cons r rs)
  let ?u = "snd (encode r t)"
  obtain es2 ms2 where v: "acp_run (map Send rs) ?u = ((es2, ms2), t')"
    using Cons.prems by (auto simp: outgoing_def split: prod.splits)
  have "is_open t' a \<longleftrightarrow> is_open ?u a \<and> Some a \<notin> request_answers ` set rs"
    using Cons.IH [OF _ v] Cons.prems(1) by simp
  then show ?case using is_open_encode [of r t a] by auto
qed simp

text \<open>
  C7. Every call the agent makes is answered exactly once.  After any exchange of requests and
  messages on a fresh connection, the answers sent and the calls still in the books are together
  exactly the calls made, as a bag of their ids, and no call was dropped or answered twice.
\<close>

theorem answered_exactly_once:
  assumes "acp_run ss (connected cap) = ((es, ms), t)"
  shows "answered ms + owed t = called ss"
  using settles_run [OF connected_books(1) assms] connected_books(2)
  by (simp add: settles_def add.commute)

definition demo_session :: json where
  "demo_session = jobj [(''sessionId'', JString (ustr ''s'')), (''path'', JString (ustr ''/a''))]"

definition demo_run :: "acp_traffic list" where
  "demo_run =
     [Hear (Response 1 JNull), Hear (Request 7 (ustr ''fs/read_text_file'') demo_session),
      Hear (Request 7 (ustr ''no/such'') JNull)]"

abbreviation demo :: heard where
  "demo \<equiv> acp_run demo_run (connected client_capabilities_default)"

lemma answered_exactly_once_witness: "answered (snd (fst demo)) + owed (snd demo) = {#7, 7#}"
proof -
  have "called demo_run = {#7, 7#}" by (simp add: demo_run_def)
  then show ?thesis
    using answered_exactly_once [of demo_run client_capabilities_default "fst (fst demo)" "snd (fst demo)" "snd demo"]
    by simp
qed

lemma demo_events:
  "map event_asks (fst (fst demo)) = [None, Some (AskRead 1)]" "tr_ready (snd demo)"
  by code_simp+

text \<open>
  C8. The agent is never left waiting.  Whatever the agent asked, if the handshake is done and the
  editor answers every question it was told of, in any order and with any verdicts, then every call
  the agent made has been answered, once.
\<close>

theorem calls_get_answered:
  assumes "acp_run ss (connected cap) = ((es, ms), t)" and "tr_ready t"
    and "\<And>e a. e \<in> set es \<Longrightarrow> event_asks e = Some a \<Longrightarrow> Some a \<in> request_answers ` set answers"
    and "acp_run (map Send answers) t = ((es', ms'), t')"
  shows "answered (ms @ ms') = called ss"
proof -
  have run: "acp_run (ss @ map Send answers) (connected cap) = ((es @ es', ms @ ms'), t')"
    using assms(1,4) by (simp add: acp_run_append)
  have "\<not> is_open t' a" for a
  proof
    assume "is_open t' a"
    then have a: "is_open t a" "Some a \<notin> request_answers ` set answers"
      using answers_run [OF assms(2,4)] by simp_all
    have "\<not> is_open (connected cap) a"
      by (cases a) (simp_all add: connected_def initialize_def allocate_def translator_new_def)
    then have "Some a \<in> event_asks ` set es" using is_open_run [OF assms(1) a(1)] by simp
    then show False using assms(3) a(2) by (metis imageE)
  qed
  then have "owed t' = {#}" by (rule none_open_owed)
  moreover have "concat (map call_id (map Send answers)) = []" by (induction answers) simp_all
  ultimately show ?thesis
    using settles_run [OF connected_books(1) run] connected_books(2) by (simp add: settles_def)
qed

lemma calls_get_answered_witness:
  "answered (snd (fst demo) @ snd (fst (acp_run (map Send [FileContents 0 1 [] None]) (snd demo)))) = {#7, 7#}"
proof -
  let ?next = "acp_run (map Send [FileContents 0 1 [] None]) (snd demo)"
  have "event_asks ` set (fst (fst demo)) = {None, Some (AskRead 1)}"
    using arg_cong [OF demo_events(1), of set] by (simp only: list.set set_map)
  then have "Some a \<in> request_answers ` set [FileContents 0 1 [] None]"
    if "e \<in> set (fst (fst demo))" "event_asks e = Some a" for e a
    using that by (metis (no_types, opaque_lifting) image_eqI image_insert insertE list.set(2)
        option.distinct(1) request_answers.simps(1) singletonD empty_iff insertI1)
  moreover have "called demo_run = {#7, 7#}" by (simp add: demo_run_def)
  ultimately show ?thesis
    using calls_get_answered [of demo_run client_capabilities_default "fst (fst demo)" "snd (fst demo)"
        "snd demo" "[FileContents 0 1 [] None]" "fst (fst ?next)" "snd (fst ?next)" "snd ?next"] demo_events(2)
    by (simp only: prod.collapse)
qed

end
