(* ===== verification/Request_Queue.thy ===== *)
theory Request_Queue
  imports Prelude
begin

text \<open>
  The contract of a client that holds requests back until a handshake is done, as both protocol
  translators do: what was held goes out, in order, when the answer comes.
\<close>

text \<open>Requests one after the other, with the messages they cause.\<close>

fun drain_requests :: "('r \<Rightarrow> 's \<Rightarrow> 'm list \<times> 's) \<Rightarrow> 'r list \<Rightarrow> 's \<Rightarrow> 'm list \<times> 's" where
  "drain_requests f [] s = ([], s)"
| "drain_requests f (r # rs) s =
     (let (ms, s) = f r s; (ns, s) = drain_requests f rs s in (ms @ ns, s))"

lemma drain_requests_append:
  "drain_requests f (xs @ ys) s =
     (let (ms, s) = drain_requests f xs s; (ns, s) = drain_requests f ys s in (ms @ ns, s))"
  by (induction xs arbitrary: s) (simp_all add: Let_def case_prod_beta)

locale request_queue =
  fixes ready :: "'s \<Rightarrow> bool"
    and held :: "'s \<Rightarrow> 'r list"
    and hold :: "'r \<Rightarrow> 's \<Rightarrow> 's"
    and now :: "'r \<Rightarrow> 's \<Rightarrow> 'm list \<times> 's"
    and release :: "'s \<Rightarrow> 's"
  assumes ready_now: "ready s \<Longrightarrow> ready (snd (now r s))"
    and ready_hold: "ready (hold r s) = ready s"
    and held_hold: "drain_requests now (held (hold r s)) = drain_requests now (held s @ [r])"
    and release_hold: "release (hold r s) = release s"
    and ready_release: "ready (release s)"
begin

definition send :: "'r \<Rightarrow> 's \<Rightarrow> 'm list \<times> 's" where
  "send r s = (if ready s then now r s else ([], hold r s))"

text \<open>The handshake is answered: the state is released and what was held is sent.\<close>

definition after_answer :: "'s \<Rightarrow> 'm list \<times> 's" where
  "after_answer s = drain_requests now (held s) (release s)"

lemma drain_ready: "ready s \<Longrightarrow> ready (snd (drain_requests now rs s))"
  by (induction rs arbitrary: s) (simp_all add: Let_def case_prod_beta ready_now)

lemma drain_send_ready: "ready s \<Longrightarrow> drain_requests send rs s = drain_requests now rs s"
  by (induction rs arbitrary: s) (simp_all add: send_def Let_def case_prod_beta ready_now)

lemma after_answer_ready: "ready (snd (after_answer s))"
  by (simp add: after_answer_def drain_ready ready_release)

lemma drain_send_held:
  "\<not> ready s \<Longrightarrow> fst (drain_requests send rs s) = [] \<and> \<not> ready (snd (drain_requests send rs s))"
  by (induction rs arbitrary: s) (simp_all add: send_def Let_def case_prod_beta ready_hold)

lemma after_answer_hold:
  "after_answer (hold r s) =
     (let (ms, s) = after_answer s; (ns, s) = now r s in (ms @ ns, s))"
  by (simp add: after_answer_def held_hold release_hold drain_requests_append Let_def case_prod_beta)

text \<open>Requests before the answer and requests after it come to the same.\<close>

lemma early_is_late:
  assumes "\<not> ready s"
  shows "after_answer (snd (drain_requests send rs s)) =
    (let (ms, s) = after_answer s; (ns, s) = drain_requests send rs s in (ms @ ns, s))"
  using assms
proof (induction rs arbitrary: s)
  case (Cons r rs)
  have "\<not> ready (hold r s)" using Cons.prems by (simp add: ready_hold)
  from Cons.IH [OF this] show ?case
    using Cons.prems after_answer_ready [of s]
    by (simp add: send_def after_answer_hold Let_def case_prod_beta)
qed (simp add: case_prod_beta)

end

end
