(* ===== verification/Acp_Safety.thy ===== *)
theory Acp_Safety
  imports Acp_Ledger Request_Queue
begin

text \<open>
  The safety side of the agent translator: the handshake loses and reorders nothing, a verdict never
  changes its direction, an allowance to run a command is spent once and in its turn, and a terminal
  belongs to the session that opened it.
\<close>

section \<open>The handshake\<close>

text \<open>The translator is a queue of requests: how one is held back, sent, and the queue released.\<close>

definition acp_hold :: "agent_request \<Rightarrow> translator \<Rightarrow> translator" where
  "acp_hold r t = (if r = Shutdown then t else t\<lparr>tr_queued := tr_queued t @ [r]\<rparr>)"

definition acp_now :: "agent_request \<Rightarrow> translator \<Rightarrow> rpc_message list \<times> translator" where
  "acp_now r t = (let (m, t) = encode r t in (case m of Some m \<Rightarrow> [m] | None \<Rightarrow> [], t))"

definition acp_release :: "nat \<Rightarrow> translator \<Rightarrow> translator" where
  "acp_release i t = t\<lparr>tr_pending := AList.delete i (tr_pending t), tr_ready := True, tr_queued := []\<rparr>"

lemma encode_all_drain: "encode_all rs t = drain_requests acp_now rs t"
  by (induction rs arbitrary: t) (simp_all add: acp_now_def Let_def case_prod_beta split: option.split)

lemma acp_now_Shutdown: "acp_now Shutdown t = ([], t)"
  by (simp add: acp_now_def)

interpretation acp_queue: request_queue tr_ready tr_queued acp_hold acp_now "acp_release i" for i
proof unfold_locales
  show "drain_requests acp_now (tr_queued (acp_hold r s)) = drain_requests acp_now (tr_queued s @ [r])" for r s
    by (rule ext) (simp add: acp_hold_def drain_requests_append acp_now_Shutdown Let_def case_prod_beta)
qed (simp_all add: acp_now_def acp_hold_def acp_release_def case_prod_beta)

lemma outgoing_send: "outgoing r t = acp_queue.send r t"
  by (cases "r = Shutdown")
    (simp_all add: outgoing_def acp_queue.send_def acp_now_def acp_hold_def)

lemma sends_drain:
  "acp_run (map Send rs) t =
     (([], fst (drain_requests acp_queue.send rs t)), snd (drain_requests acp_queue.send rs t))"
  by (induction rs arbitrary: t) (simp_all add: outgoing_send Let_def case_prod_beta)

text \<open>
  A request made during the handshake is as good as one made after it: whatever was queued
  before, making requests and then hearing the answer to \<open>initialize\<close> has the same events, the same
  messages in the same order and the same final state as hearing it first.
\<close>

theorem handshake_loses_nothing:
  assumes "\<not> tr_ready t" and "map_of (tr_pending t) i = Some PInitialize"
  shows "acp_run (map Send rs @ [Hear (Response i v)]) t = acp_run (Hear (Response i v) # map Send rs) t"
proof -
  let ?u = "snd (drain_requests acp_queue.send rs t)"
  have pending: "tr_pending ?u = tr_pending t"
    using assms(1)
  proof (induction rs arbitrary: t)
    case (Cons r rs)
    have h: "\<not> tr_ready (acp_hold r t)" "tr_pending (acp_hold r t) = tr_pending t"
      using Cons.prems by (simp_all add: acp_hold_def)
    from Cons.IH [OF h(1)] show ?case
      using Cons.prems h(2) by (simp add: acp_queue.send_def Let_def case_prod_beta)
  qed simp
  have hear: "on_response i v w = (([Ready (parse_agent_capabilities v)], fst (acp_queue.after_answer i w)),
      snd (acp_queue.after_answer i w))" if "map_of (tr_pending w) i = Some PInitialize" for w
    using that by (simp add: on_response_def acp_queue.after_answer_def acp_release_def encode_all_drain
        Let_def case_prod_beta del: AList.delete_eq)
  show ?thesis
    using assms(2) acp_queue.early_is_late [OF assms(1), of i rs] acp_queue.drain_send_held [OF assms(1)]
    by (simp add: acp_run_append sends_drain hear pending Let_def case_prod_beta)
qed

lemma handshake_loses_nothing_witness:
  "acp_run (map Send [NewSession [RootDir], Cancel 1] @ [Hear (Response 1 JNull)])
       (connected client_capabilities_default)
     = acp_run (Hear (Response 1 JNull) # map Send [NewSession [RootDir], Cancel 1])
       (connected client_capabilities_default)"
  by (rule handshake_loses_nothing)
    (simp_all add: connected_def initialize_def allocate_def translator_new_def)

section \<open>Verdicts\<close>

lemma find_SomeD: "List.find P xs = Some x \<Longrightarrow> x \<in> set xs \<and> P x"
  by (auto simp: find_Some_iff)

definition selected_outcome :: "utext \<Rightarrow> json" where
  "selected_outcome i =
     jobj [(''outcome'', jobj [(''outcome'', JString (ustr ''selected'')), (''optionId'', JString i)])]"

text \<open>
  A verdict keeps its meaning on the wire.  The answer to a permission request selects an option
  the agent offered whose kind says exactly what the human decided, or, when there is none, the
  one-time kind of the same direction; with neither it cancels.  An option that allows is never
  selected for a refusal, and only an allowed command is recorded as a grant.
\<close>

theorem verdicts_keep_direction:
  assumes "map_of (tr_permissions t) r = Some p"
  shows "case encode_permission r d t of (m, t') \<Rightarrow>
    m = Some (Response (pp_wire_request p) cancelled_outcome)
      \<and> (\<forall>opt\<in>set (pp_options p). po_kind opt \<noteq> ustr (wanted_kind d)
           \<and> po_kind opt \<noteq> ustr (if allows d then ''allow_once'' else ''reject_once''))
      \<and> tr_grants t' = tr_grants t
    \<or> (\<exists>opt\<in>set (pp_options p). m = Some (Response (pp_wire_request p) (selected_outcome (po_id opt)))
         \<and> po_kind opt \<in> (if allows d then {ustr ''allow_once'', ustr ''allow_always''}
                          else {ustr ''reject_once'', ustr ''reject_always''})
         \<and> (po_kind opt = ustr (wanted_kind d)
              \<or> (\<forall>o'\<in>set (pp_options p). po_kind o' \<noteq> ustr (wanted_kind d)))
         \<and> (po_kind opt = ustr ''allow_always'' \<longrightarrow> d = AllowAlways)
         \<and> (po_kind opt = ustr ''reject_always'' \<longrightarrow> d = RejectAlways)
         \<and> tr_grants t' = tr_grants t @
             (case pp_terminal_spec p of
                Some spec \<Rightarrow> if allows d then [(pp_session p, spec)] else [] | None \<Rightarrow> []))"
proof (cases "choose_option (pp_options p) d")
  case None
  then have "\<forall>opt\<in>set (pp_options p). po_kind opt \<noteq> ustr (wanted_kind d)
      \<and> po_kind opt \<noteq> ustr (if allows d then ''allow_once'' else ''reject_once'')"
    by (auto simp: choose_option_def find_None_iff Let_def split: option.splits if_splits)
  then show ?thesis using assms None by (simp add: encode_permission_def Let_def del: AList.delete_eq)
next
  case (Some i)
  then obtain opt where opt: "opt \<in> set (pp_options p)" "po_id opt = i"
    "po_kind opt = ustr (wanted_kind d) \<or> po_kind opt = ustr (if allows d then ''allow_once'' else ''reject_once'')
       \<and> (\<forall>o'\<in>set (pp_options p). po_kind o' \<noteq> ustr (wanted_kind d))"
    by (fastforce simp: choose_option_def Let_def find_None_iff split: option.splits if_splits dest: find_SomeD)
  have kind: "po_kind opt \<in> (if allows d then {ustr ''allow_once'', ustr ''allow_always''}
        else {ustr ''reject_once'', ustr ''reject_always''})
      \<and> (po_kind opt = ustr (wanted_kind d) \<or> (\<forall>o'\<in>set (pp_options p). po_kind o' \<noteq> ustr (wanted_kind d)))
      \<and> (po_kind opt = ustr ''allow_always'' \<longrightarrow> d = AllowAlways)
      \<and> (po_kind opt = ustr ''reject_always'' \<longrightarrow> d = RejectAlways)"
    using opt(3) by (cases d) (auto simp: allows_def)
  have "encode_permission r d t = (Some (Response (pp_wire_request p) (selected_outcome (po_id opt))),
      snd (encode_permission r d t))"
    using assms Some opt(2) by (simp add: encode_permission_def selected_outcome_def Let_def)
  moreover have "tr_grants (snd (encode_permission r d t)) = tr_grants t @
      (case pp_terminal_spec p of Some spec \<Rightarrow> if allows d then [(pp_session p, spec)] else [] | None \<Rightarrow> [])"
    using assms Some by (simp add: encode_permission_def Let_def split: option.split)
  ultimately show ?thesis
    using opt(1) kind unfolding case_prod_beta by (intro disjI2 bexI [of _ opt]) (simp_all add: prod_eq_iff)
qed

section \<open>Allowances\<close>

fun preauthorized :: "session_id \<Rightarrow> terminal_spec \<Rightarrow> agent_event \<Rightarrow> bool" where
  "preauthorized s spec (TerminalRequest s' _ (TCreate spec' _ pre)) \<longleftrightarrow> s' = s \<and> spec' = spec \<and> pre"
| "preauthorized s spec _ \<longleftrightarrow> False"

fun asks_to_run :: "session_id \<Rightarrow> terminal_spec \<Rightarrow> nat \<Rightarrow> agent_event \<Rightarrow> bool" where
  "asks_to_run s spec i (PermissionRequested s' i' _ _ (Some spec') _) \<longleftrightarrow> s' = s \<and> i' = i \<and> spec' = spec"
| "asks_to_run s spec i _ \<longleftrightarrow> False"

fun allowing :: "nat \<Rightarrow> acp_traffic \<Rightarrow> bool" where
  "allowing i (Send (Permission j d)) \<longleftrightarrow> j = i \<and> allows d"
| "allowing i _ \<longleftrightarrow> False"

text \<open>The permission requests of a session for a command that wait for a verdict.\<close>

definition waits_to_run :: "translator \<Rightarrow> session_id \<Rightarrow> terminal_spec \<Rightarrow> nat \<Rightarrow> bool" where
  "waits_to_run t s spec i \<longleftrightarrow>
     (case map_of (tr_permissions t) i of
        Some p \<Rightarrow> pp_session p = s \<and> pp_terminal_spec p = Some spec | None \<Rightarrow> False)"

lemma spend_count:
  "spend g gs = (b, hs) \<Longrightarrow> count_list gs h = count_list hs h + (if b \<and> h = g then 1 else 0)"
  by (induction gs arbitrary: hs) (auto split: if_splits prod.splits)

lemma count_filter: "count_list (filter P xs) x \<le> count_list xs x"
  by (induction xs) auto

lemma call_fields [simp]:
  "tr_grants (snd (call meth params p t)) = tr_grants t"
  "tr_permissions (snd (call meth params p t)) = tr_permissions t"
  "tr_next_id (snd (call meth params p t)) = tr_next_id t"
  "tr_terminals (snd (call meth params p t)) = tr_terminals t"
  by (simp_all add: call_def allocate_def)

lemma terminal_response_fields [simp]:
  "tr_grants (snd (encode_terminal_response r resp t)) = tr_grants t"
  "tr_permissions (snd (encode_terminal_response r resp t)) = tr_permissions t"
  "tr_next_id (snd (encode_terminal_response r resp t)) = tr_next_id t"
proof -
  have "tr_grants (snd (encode_terminal_response r resp t)) = tr_grants t
    \<and> tr_permissions (snd (encode_terminal_response r resp t)) = tr_permissions t
    \<and> tr_next_id (snd (encode_terminal_response r resp t)) = tr_next_id t"
  proof (cases "map_of (tr_terminal_rpcs t) r")
    case (Some p)
    then show ?thesis using encode_terminal_response_state [OF Some, of resp] by auto
  qed (simp add: encode_terminal_response_def)
  then show "tr_grants (snd (encode_terminal_response r resp t)) = tr_grants t"
    "tr_permissions (snd (encode_terminal_response r resp t)) = tr_permissions t"
    "tr_next_id (snd (encode_terminal_response r resp t)) = tr_next_id t" by simp_all
qed

lemma encode_next_id [simp]: "tr_next_id (snd (encode r t)) = tr_next_id t"
  by (cases r) (simp_all add: encode_new_session_def encode_set_mode_def encode_prompt_def
      encode_file_contents_def encode_permission_def encode_permission_cancelled_def encode_cancel_def
      expire_terminal_grants_def Let_def split: option.split)

lemma waits_cong: "tr_permissions t = tr_permissions u \<Longrightarrow> waits_to_run t s spec i = waits_to_run u s spec i"
  by (simp add: waits_to_run_def)

lemma waits_delete:
  "waits_to_run (t\<lparr>tr_permissions := AList.delete r (tr_permissions t)\<rparr>) s spec i
     \<longleftrightarrow> waits_to_run t s spec i \<and> i \<noteq> r"
  by (simp add: waits_to_run_def delete_conv del: AList.delete_eq)

lemma waits_encode: "waits_to_run (snd (encode r t)) s spec i \<Longrightarrow> waits_to_run t s spec i"
  by (cases r) (auto simp: encode_new_session_def encode_set_mode_def encode_prompt_def waits_to_run_def
      encode_file_contents_def encode_permission_def encode_permission_cancelled_def encode_cancel_def
      expire_terminal_grants_def Let_def delete_conv simp del: AList.delete_eq split: option.splits if_splits)

lemma permission_grants:
  assumes "encode_permission r d t = (m, t')"
  shows "count_list (tr_grants t') (s, spec) \<le> count_list (tr_grants t) (s, spec)
    + (if waits_to_run t s spec r \<and> allows d then 1 else 0)"
    and "\<not> waits_to_run t' s spec r"
proof -
  show "count_list (tr_grants t') (s, spec) \<le> count_list (tr_grants t) (s, spec)
    + (if waits_to_run t s spec r \<and> allows d then 1 else 0)"
    using assms by (auto simp: encode_permission_def waits_to_run_def Let_def split: option.splits if_splits)
  show "\<not> waits_to_run t' s spec r"
    using assms by (auto simp: encode_permission_def waits_to_run_def Let_def delete_conv
        simp del: AList.delete_eq split: option.splits if_splits)
qed

lemma encode_grants:
  assumes "\<nexists>i d. r = Permission i d"
  shows "count_list (tr_grants (snd (encode r t))) g \<le> count_list (tr_grants t) g"
  using assms count_filter by (cases r) (auto simp: encode_new_session_def encode_set_mode_def encode_prompt_def
      encode_file_contents_def encode_permission_cancelled_def encode_cancel_def
      expire_terminal_grants_def Let_def split: option.splits if_splits)

lemma contents_fields:
  "events_of_contents s cs t = (es, t') \<Longrightarrow> tr_grants t' = tr_grants t
     \<and> tr_permissions t' = tr_permissions t \<and> tr_next_id t \<le> tr_next_id t'
     \<and> tr_terminals t' = tr_terminals t \<and> tr_ready t' = tr_ready t
     \<and> (\<forall>e\<in>set es. \<not> preauthorized s' spec e \<and> \<not> asks_to_run s' spec i e)"
proof (induction cs arbitrary: t es)
  case (Cons c cs)
  obtain e u where u: "event_of_content s c t = (e, u)" by (metis surj_pair)
  obtain fs where v: "events_of_contents s cs u = (fs, t')" and es: "es = (case e of Some e \<Rightarrow> e # fs | None \<Rightarrow> fs)"
    using Cons.prems u by (auto split: prod.splits)
  have "e = None \<or> (\<exists>a b c d. e = Some (ProposedEdit s a b c d)) \<or> (\<exists>a. e = Some (TerminalAttached s a))"
    using u by (auto simp: event_of_content_def Let_def split: option.splits if_splits)
  then show ?case
    using Cons.IH [OF v] event_of_content_state [OF u] es by auto
qed simp

lemma notification_fields:
  "on_notification meth params t = (es, t') \<Longrightarrow> tr_grants t' = tr_grants t
     \<and> tr_permissions t' = tr_permissions t \<and> tr_next_id t \<le> tr_next_id t'
     \<and> tr_terminals t' = tr_terminals t \<and> tr_ready t' = tr_ready t
     \<and> (\<forall>e\<in>set es. \<not> preauthorized s' spec e \<and> \<not> asks_to_run s' spec i e)"
  using contents_fields [of _ _ t es t' s' spec i]
  by (auto simp: on_notification_def events_from_tool_call_def Let_def split: option.splits if_splits)

text \<open>What one thing heard does to the allowances: it spends what it reports, asks with fresh ids.\<close>

definition spends :: "session_id \<Rightarrow> terminal_spec \<Rightarrow> translator \<Rightarrow> agent_event list \<Rightarrow> translator \<Rightarrow> bool" where
  "spends s spec t es t' \<longleftrightarrow>
     length (filter (preauthorized s spec) es) + count_list (tr_grants t') (s, spec)
       \<le> count_list (tr_grants t) (s, spec)
     \<and> tr_next_id t \<le> tr_next_id t' \<and> tr_ready t' = tr_ready t
     \<and> (\<forall>i. waits_to_run t' s spec i \<longrightarrow> waits_to_run t s spec i \<or> (\<exists>e\<in>set es. asks_to_run s spec i e))
     \<and> (\<forall>i. (\<exists>e\<in>set es. asks_to_run s spec i e) \<longrightarrow> tr_next_id t < i)"

lemma spends_nothing:
  assumes "tr_grants t' = tr_grants t" "tr_permissions t' = tr_permissions t" "tr_next_id t \<le> tr_next_id t'"
    and "tr_ready t' = tr_ready t" and "\<forall>e\<in>set es. \<not> preauthorized s spec e \<and> (\<forall>i. \<not> asks_to_run s spec i e)"
  shows "spends s spec t es t'"
proof -
  have "filter (preauthorized s spec) es = []" using assms(5) by (simp add: filter_empty_conv)
  then show ?thesis using assms waits_cong [OF assms(2)] by (simp add: spends_def)
qed

lemma spends_request:
  assumes "on_request i meth params t = ((es, ms), t')"
  shows "spends s spec t es t'"
proof -
  let ?s = "or_default 0 (Option.bind (get_string params ''sessionId'') (our_session t))"
  have refused: "spends s spec t es t'" if "refuse_call i c msg t = ((es, ms), t')" for c msg
    using that by (intro spends_nothing) (auto simp: refuse_call_def)
  have read: "spends s spec t es t'" if "on_read_text_file i ?s params t = ((es, ms), t')"
    using that refused by (cases "get_string params ''path''")
      (auto simp: on_read_text_file_def invalid_params_def Let_def intro!: spends_nothing)
  have "write": "spends s spec t es t'" if "on_write_text_file i ?s params t = ((es, ms), t')"
    using that refused by (cases "get_string params ''path''"; cases "get_string params ''content''")
      (auto simp: on_write_text_file_def invalid_params_def Let_def intro!: spends_nothing)
  have ask: "spends s spec t es t'" if "on_request_permission i ?s params t = ((es, ms), t')"
    using that by (cases "terminal_spec_of_permission (jget params ''toolCall'')")
      (auto simp: on_request_permission_def Let_def spends_def waits_to_run_def update_conv
         split: if_splits option.splits)
  have create: "spends s spec t es t'" if "on_terminal_create i ?s params t = ((es, ms), t')"
  proof (cases "?s = 0 \<or> (\<exists>e. terminal_spec_of_create params = Inl e) \<or> (\<exists>e. output_limit params = Inl e)")
    case True
    then have "\<exists>msg. refuse_call i (- 32602) msg t = ((es, ms), t')"
      using that by (auto simp: on_terminal_create_def invalid_params_def split: if_splits sum.splits)
    then show ?thesis using refused by blast
  next
    case False
    then obtain sp l where sp: "terminal_spec_of_create params = Inr sp" "output_limit params = Inr l"
      by (metis sumE)
    obtain b gs where "spend (?s, sp) (tr_grants t) = (b, gs)" by fastforce
    with spend_count [OF this, of "(s, spec)"] show ?thesis
      using that False sp by (auto simp: on_terminal_create_def allocate_terminal_request_def Let_def
          spends_def waits_to_run_def)
  qed
  have meth: "spends s spec t es t'" if "on_terminal_method i meth ?s params t = ((es, ms), t')"
    using that refused by (auto simp: on_terminal_method_def invalid_params_def allocate_terminal_request_def
        terminal_method_def Let_def intro!: spends_nothing split: if_splits option.splits)
  show ?thesis
    using assms refused read "write" ask create meth unfolding on_request_def Let_def
    by (simp split: if_splits)
qed

lemma spends_hear:
  assumes "books_ok t" "tr_ready t" "incoming m t = ((es, ms), t')"
  shows "spends s spec t es t'"
proof (cases m)
  case (Response i v)
  have q: "tr_queued t = []" using assms(1,2) by (simp add: books_ok_def)
  have "tr_ready t' \<and> tr_permissions t' = tr_permissions t \<and> tr_next_id t' = tr_next_id t
      \<and> count_list (tr_grants t') (s, spec) \<le> count_list (tr_grants t) (s, spec)
      \<and> (\<forall>e\<in>set es. \<not> preauthorized s spec e \<and> (\<forall>i. \<not> asks_to_run s spec i e))"
    using assms(2,3) q Response count_filter
    by (auto simp: on_response_def session_opened_def parse_session_modes_def expire_terminal_grants_def Let_def
        split: option.splits pending.splits bind_splits if_splits)
  then show ?thesis
    using waits_cong [of t' t s spec] assms(2) by (auto simp: spends_def filter_empty_conv [THEN iffD2])
next
  case (Error i c msg)
  then show ?thesis
    using assms(2,3) count_filter by (auto simp: on_error_def expire_terminal_grants_def Let_def spends_def waits_to_run_def)
next
  case (Notification meth params)
  then obtain u where u: "on_notification meth params t = (es, t')"
    using assms(3) by (auto split: prod.splits)
  show ?thesis using notification_fields [OF u] by (auto intro: spends_nothing)
qed (use assms spends_request in simp)

text \<open>One step of a run: at most one allowance is won, by the verdict on a waiting request.\<close>

lemma step_allowances:
  assumes "books_ok t" "tr_ready t" "acp_step x t = ((es, ms), t')"
  shows "length (filter (preauthorized s spec) es) + count_list (tr_grants t') (s, spec)
      \<le> count_list (tr_grants t) (s, spec)
         + (if \<exists>i. allowing i x \<and> waits_to_run t s spec i \<and> \<not> waits_to_run t' s spec i then 1 else 0)"
    and "tr_next_id t \<le> tr_next_id t' \<and> tr_ready t'"
    and "waits_to_run t' s spec i \<Longrightarrow> waits_to_run t s spec i \<or> (\<exists>e\<in>set es. asks_to_run s spec i e)"
    and "\<exists>e\<in>set es. asks_to_run s spec i e \<Longrightarrow> tr_next_id t < i"
proof -
  have "(length (filter (preauthorized s spec) es) + count_list (tr_grants t') (s, spec)
      \<le> count_list (tr_grants t) (s, spec)
         + (if \<exists>i. allowing i x \<and> waits_to_run t s spec i \<and> \<not> waits_to_run t' s spec i then 1 else 0))
    \<and> tr_next_id t \<le> tr_next_id t' \<and> tr_ready t'
    \<and> (\<forall>i. waits_to_run t' s spec i \<longrightarrow> waits_to_run t s spec i \<or> (\<exists>e\<in>set es. asks_to_run s spec i e))
    \<and> (\<forall>i. (\<exists>e\<in>set es. asks_to_run s spec i e) \<longrightarrow> tr_next_id t < i)"
  proof (cases x)
    case (Hear m)
    then have "spends s spec t es t'" using spends_hear [OF assms(1,2)] assms(3) by simp
    then show ?thesis using assms(2) by (auto simp: spends_def)
  next
    case (Send r)
    then have t': "t' = snd (encode r t)" "es = []"
      using assms(2,3) by (auto simp: outgoing_def split: prod.splits)
    have "count_list (tr_grants t') (s, spec) \<le> count_list (tr_grants t) (s, spec)
         + (if \<exists>i. allowing i x \<and> waits_to_run t s spec i \<and> \<not> waits_to_run t' s spec i then 1 else 0)"
    proof (cases "\<exists>i d. r = Permission i d")
      case True
      then obtain i d where r: "r = Permission i d" by blast
      then show ?thesis
        using permission_grants [of i d t "fst (encode r t)" t' s spec] t' Send by (auto split: if_splits)
    qed (use encode_grants t' in \<open>simp add: trans_le_add1\<close>)
    then show ?thesis using t' assms(2) waits_encode by auto
  qed
  then show "length (filter (preauthorized s spec) es) + count_list (tr_grants t') (s, spec)
      \<le> count_list (tr_grants t) (s, spec)
         + (if \<exists>i. allowing i x \<and> waits_to_run t s spec i \<and> \<not> waits_to_run t' s spec i then 1 else 0)"
    "tr_next_id t \<le> tr_next_id t' \<and> tr_ready t'"
    "waits_to_run t' s spec i \<Longrightarrow> waits_to_run t s spec i \<or> (\<exists>e\<in>set es. asks_to_run s spec i e)"
    "\<exists>e\<in>set es. asks_to_run s spec i e \<Longrightarrow> tr_next_id t < i"
    by blast+
qed

lemma finite_allowing: "finite {i. \<exists>x\<in>set ss. allowing i x}"
proof (induction ss)
  case (Cons x ss)
  have "{i. allowing i x} \<subseteq> (case x of Send (Permission j d) \<Rightarrow> {j} | _ \<Rightarrow> {})"
    by (cases x) (auto split: agent_request.splits)
  then have "finite {i. allowing i x}"
    by (rule finite_subset) (simp split: acp_traffic.split agent_request.split)
  moreover have "{i. \<exists>y\<in>set (x # ss). allowing i y} = {i. allowing i x} \<union> {i. \<exists>y\<in>set ss. allowing i y}"
    by auto
  ultimately show ?case using Cons.IH by simp
qed simp

lemma waits_old: "books_ok t \<Longrightarrow> waits_to_run t s spec i \<Longrightarrow> i \<le> tr_next_id t"
  by (auto simp: waits_to_run_def books_ok_def fresh_keys_def split: option.splits dest!: map_of_SomeD)

lemma run_asks_fresh:
  assumes "books_ok t" "tr_ready t" "acp_run ss t = ((es, ms), t')" "\<exists>e\<in>set es. asks_to_run s spec i e"
  shows "tr_next_id t < i"
  using assms
proof (induction ss arbitrary: t es ms)
  case (Cons x ss)
  obtain es1 ms1 u where u: "acp_step x t = ((es1, ms1), u)" by (metis surj_pair)
  obtain es2 ms2 where v: "acp_run ss u = ((es2, ms2), t')" and es: "es = es1 @ es2"
    using Cons.prems(3) u by (auto split: prod.splits)
  note step = step_allowances [OF Cons.prems(1,2) u]
  have b: "books_ok u" using settles_step [OF Cons.prems(1) u] by (simp add: settles_def)
  show ?case
    using Cons.prems(4) es step(4) [of s spec i] step(2) Cons.IH [OF b _ v] by fastforce
qed simp

text \<open>The requests for a command that are allowed in a run and were waiting or come up in it.\<close>

definition allowed_ids ::
    "translator \<Rightarrow> acp_traffic list \<Rightarrow> agent_event list \<Rightarrow> session_id \<Rightarrow> terminal_spec \<Rightarrow> nat set" where
  "allowed_ids t ss es s spec =
     {i. (\<exists>x\<in>set ss. allowing i x) \<and> (waits_to_run t s spec i \<or> (\<exists>e\<in>set es. asks_to_run s spec i e))}"

lemma finite_allowed [simp]: "finite (allowed_ids t ss es s spec)"
  by (rule finite_subset [OF _ finite_allowing [of ss]]) (auto simp: allowed_ids_def)

lemma run_allowances:
  assumes "books_ok t" "tr_ready t" "acp_run ss t = ((es, ms), t')"
  shows "length (filter (preauthorized s spec) es) + count_list (tr_grants t') (s, spec)
    \<le> count_list (tr_grants t) (s, spec) + card (allowed_ids t ss es s spec)"
  using assms
proof (induction ss arbitrary: t es ms)
  case (Cons x ss)
  obtain es1 ms1 u where u: "acp_step x t = ((es1, ms1), u)" by (metis surj_pair)
  obtain es2 ms2 where v: "acp_run ss u = ((es2, ms2), t')" and es: "es = es1 @ es2"
    using Cons.prems(3) u by (auto split: prod.splits)
  note step = step_allowances [OF Cons.prems(1,2) u]
  have b: "books_ok u" using settles_step [OF Cons.prems(1) u] by (simp add: settles_def)
  have r: "tr_ready u" using step(2) by simp
  let ?A = "allowed_ids t (x # ss) es s spec" and ?B = "allowed_ids u ss es2 s spec"
  have sub: "?B \<subseteq> ?A" using step(3) [of s spec] es by (auto simp: allowed_ids_def)
  have card: "card ?B + (if \<exists>i. allowing i x \<and> waits_to_run t s spec i \<and> \<not> waits_to_run u s spec i then 1 else 0)
      \<le> card ?A"
  proof (cases "\<exists>i. allowing i x \<and> waits_to_run t s spec i \<and> \<not> waits_to_run u s spec i")
    case True
    then obtain i where i: "allowing i x" "waits_to_run t s spec i" "\<not> waits_to_run u s spec i" by blast
    have "\<not> tr_next_id u < i" using waits_old [OF Cons.prems(1) i(2)] step(2) by simp
    then have "i \<notin> ?B" using i(3) run_asks_fresh [OF b r v] by (auto simp: allowed_ids_def)
    moreover have "i \<in> ?A" using i by (auto simp: allowed_ids_def)
    ultimately have "card (insert i ?B) \<le> card ?A" using sub by (intro card_mono) auto
    then show ?thesis using True \<open>i \<notin> ?B\<close> by simp
  next
    case False
    then show ?thesis using card_mono [OF finite_allowed sub] by (simp only: if_False add_0_right)
  qed
  show ?case using Cons.IH [OF b r v] step(1) [of s spec] card es by simp
qed simp

lemma waits_encode_all: "encode_all rs t = (ms, t') \<Longrightarrow> waits_to_run t' s spec i \<Longrightarrow> waits_to_run t s spec i"
proof (induction rs arbitrary: t ms)
  case (Cons r rs)
  obtain ns where "encode_all rs (snd (encode r t)) = (ns, t')"
    using Cons.prems(1) by (auto split: prod.splits)
  then show ?case using Cons.IH Cons.prems(2) waits_encode by blast
qed simp

lemma waits_step:
  assumes "acp_step x t = ((es, ms), t')" "waits_to_run t' s spec i"
  shows "waits_to_run t s spec i \<or> (\<exists>e\<in>set es. asks_to_run s spec i e)"
proof (cases x)
  case (Send r)
  show ?thesis
  proof (cases "\<not> tr_ready t \<and> r \<noteq> Shutdown")
    case True
    then show ?thesis using assms Send by (auto simp: outgoing_def waits_to_run_def)
  next
    case False
    then have "t' = snd (encode r t)" using assms Send by (auto simp: outgoing_def split: prod.splits)
    then show ?thesis using waits_encode assms(2) by simp
  qed
next
  case (Hear m)
  then have m: "incoming m t = ((es, ms), t')" using assms(1) by simp
  show ?thesis
  proof (cases m)
    case (Response j v)
    let ?h = "t\<lparr>tr_pending := AList.delete j (tr_pending t), tr_ready := True, tr_queued := []\<rparr>"
    have "waits_to_run ?h s spec i = waits_to_run t s spec i" by (rule waits_cong) simp
    then have q: "encode_all (tr_queued t) ?h = (ns, t') \<Longrightarrow> waits_to_run t s spec i" for ns
      using waits_encode_all assms(2) by metis
    show ?thesis
      using m Response assms(2) q
      by (auto simp: on_response_def session_opened_def expire_terminal_grants_def waits_to_run_def Let_def
          split: option.splits pending.splits prod.splits)
  next
    case (Error j c msg)
    then show ?thesis using m assms(2)
      by (auto simp: on_error_def expire_terminal_grants_def waits_to_run_def Let_def)
  next
    case (Notification meth params)
    then obtain u where u: "on_notification meth params t = (es, t')" using m by (auto split: prod.splits)
    then show ?thesis using notification_fields [OF u] waits_cong assms(2) by blast
  next
    case (Request j meth params)
    then show ?thesis using spends_request [of j meth params t es ms t' s spec] m assms(2) by (simp add: spends_def)
  qed
qed

lemma waits_run:
  "acp_run ss t = ((es, ms), t') \<Longrightarrow> waits_to_run t' s spec i \<Longrightarrow>
    waits_to_run t s spec i \<or> (\<exists>e\<in>set es. asks_to_run s spec i e)"
proof (induction ss arbitrary: t es ms)
  case (Cons x ss)
  obtain es1 ms1 u where u: "acp_step x t = ((es1, ms1), u)" by (metis surj_pair)
  obtain es2 ms2 where v: "acp_run ss u = ((es2, ms2), t')" and es: "es = es1 @ es2"
    using Cons.prems(1) u by (auto split: prod.splits)
  show ?case using Cons.IH [OF v Cons.prems(2)] waits_step [OF u] es by auto
qed simp

lemma no_turn_end:
  "on_notification meth params t = (es, t') \<Longrightarrow> TurnEnded s r \<notin> set es"
  "on_request j meth params t = ((es, ms), t') \<Longrightarrow> TurnEnded s r \<notin> set es"
proof -
  have c: "events_of_contents s' cs t = (es, t') \<Longrightarrow> TurnEnded s r \<notin> set es" for s' cs t es t'
    by (induction cs arbitrary: t es) (auto simp: event_of_content_def Let_def split: prod.splits option.splits if_splits)
  show "on_notification meth params t = (es, t') \<Longrightarrow> TurnEnded s r \<notin> set es"
    using c by (auto simp: on_notification_def events_from_tool_call_def Let_def split: option.splits if_splits)
  show "on_request j meth params t = ((es, ms), t') \<Longrightarrow> TurnEnded s r \<notin> set es"
    by (auto simp: on_request_def on_read_text_file_def on_write_text_file_def on_request_permission_def
        on_terminal_create_def on_terminal_method_def invalid_params_def refuse_call_def
        allocate_terminal_request_def Let_def split: if_splits option.splits sum.splits prod.splits)
qed

lemma turn_end_expires:
  assumes "books_ok t" "acp_step x t = ((es, ms), t')" "TurnEnded s r \<in> set es"
  shows "tr_ready t'" "count_list (tr_grants t') (s, spec) = 0"
proof -
  have no: "count_list (filter (\<lambda>(owner, _). owner \<noteq> s) gs) (s, spec) = 0" for gs :: "(session_id \<times> terminal_spec) list"
    by (induction gs) auto
  have "\<exists>i v. x = Hear (Response i v) \<and> map_of (tr_pending t) i = Some (PPrompt s)
      \<and> t' = expire_terminal_grants s (t\<lparr>tr_pending := AList.delete i (tr_pending t)\<rparr>)"
  proof (cases x)
    case (Hear m)
    then show ?thesis
      using assms(2,3) no_turn_end
      by (cases m) (auto simp: on_response_def on_error_def session_opened_def parse_session_modes_def Let_def
          simp del: AList.delete_eq
          split: option.splits pending.splits prod.splits bind_splits if_splits)
  qed (use assms in \<open>auto split: prod.splits\<close>)
  then obtain i where i: "map_of (tr_pending t) i = Some (PPrompt s)"
    "t' = expire_terminal_grants s (t\<lparr>tr_pending := AList.delete i (tr_pending t)\<rparr>)" by blast
  have "tr_ready t" using assms(1) map_of_SomeD [OF i(1)] by (fastforce simp: books_ok_def list_all_iff)
  then show "tr_ready t'" "count_list (tr_grants t') (s, spec) = 0"
    using i(2) no by (simp_all add: expire_terminal_grants_def)
qed

text \<open>
  C9. An allowance to run a command is spent once and dies with its turn.  Once a turn of a session
  has ended, the launches of a command that go through without asking are at most as many as the
  permission requests for that very command in that session which are allowed after that point.
\<close>

theorem allowances_are_spent_once:
  assumes "acp_run before (connected cap) = ((es0, ms0), t0)"
    and "acp_step x t0 = ((es1, ms1), t1)" and "TurnEnded s reason \<in> set es1"
    and "acp_run after t1 = ((es2, ms2), t2)"
  shows "length (filter (preauthorized s spec) es2)
    \<le> card {i. (\<exists>y\<in>set after. allowing i y) \<and> (\<exists>e\<in>set (es0 @ es1 @ es2). asks_to_run s spec i e)}"
proof -
  have b0: "books_ok t0" using settles_run [OF connected_books(1) assms(1)] by (simp add: settles_def)
  have b1: "books_ok t1" using settles_step [OF b0 assms(2)] by (simp add: settles_def)
  note ended = turn_end_expires [OF b0 assms(2,3)]
  have "\<not> waits_to_run (connected cap) s spec i" for i
    by (simp add: connected_def initialize_def allocate_def translator_new_def waits_to_run_def)
  then have "waits_to_run t1 s spec i \<Longrightarrow> \<exists>e\<in>set (es0 @ es1). asks_to_run s spec i e" for i
    using waits_step [OF assms(2)] waits_run [OF assms(1)] by fastforce
  then have "allowed_ids t1 after es2 s spec
      \<subseteq> {i. (\<exists>y\<in>set after. allowing i y) \<and> (\<exists>e\<in>set (es0 @ es1 @ es2). asks_to_run s spec i e)}"
    by (auto simp: allowed_ids_def)
  from card_mono [OF finite_subset [OF _ finite_allowing [of after]] this]
  show ?thesis using run_allowances [OF b1 ended(1) assms(4), of s spec] ended(2) by fastforce
qed

end
