(* ===== verification/Acp_Terminals.thy ===== *)
theory Acp_Terminals
  imports Acp_Safety
begin

text \<open>
  Agent terminals: a session operates only the terminals that were opened for it, under the names
  the translator gave them.  Also concrete exchanges for the promises of \<open>Acp_Safety\<close>.
\<close>

section \<open>Where terminals come from\<close>

text \<open>\<open>T\<close> is what was asked of the terminals so far, \<open>R\<close> the requests the editor has made.\<close>

definition opened :: "agent_event set \<Rightarrow> agent_request set \<Rightarrow> terminal_binding \<Rightarrow> bool" where
  "opened T R b \<longleftrightarrow> (\<exists>r spec limit pre.
     TerminalRequest (tb_session b) r (TCreate spec limit pre) \<in> T
       \<and> TerminalResponse r (RCreated (tb_local b)) \<in> R)"

definition terminals_ok :: "agent_event set \<Rightarrow> agent_request set \<Rightarrow> translator \<Rightarrow> bool" where
  "terminals_ok T R t \<longleftrightarrow>
     (\<forall>(r, p)\<in>set (tr_terminal_rpcs t). pt_kind p = KCreate \<longrightarrow>
        (\<exists>spec limit pre. TerminalRequest (pt_session p) r (TCreate spec limit pre) \<in> T))
     \<and> (\<forall>b\<in>set (tr_terminals t). tb_wire b = ustr ''termesh-'' @ decimal (tb_local b) \<and> opened T R b)
     \<and> distinct (map tb_local (tr_terminals t)) \<and> set (tr_queued t) \<subseteq> R"

lemma opened_mono: "opened T R b \<Longrightarrow> T \<subseteq> T' \<Longrightarrow> R \<subseteq> R' \<Longrightarrow> opened T' R' b"
  unfolding opened_def by blast

lemma terminals_ok_mono: "terminals_ok T R t \<Longrightarrow> T \<subseteq> T' \<Longrightarrow> R \<subseteq> R' \<Longrightarrow> terminals_ok T' R' t"
  unfolding terminals_ok_def by (auto split: prod.splits) (blast, meson opened_mono)

lemma terminals_ok_cong:
  "terminals_ok T R t \<Longrightarrow> tr_terminal_rpcs u = tr_terminal_rpcs t \<Longrightarrow> tr_terminals u = tr_terminals t \<Longrightarrow>
    set (tr_queued u) \<subseteq> R \<Longrightarrow> terminals_ok T R u"
  by (simp add: terminals_ok_def)

lemma release_locals [simp]:
  "map tb_local (release_first P bs) = map tb_local bs"
  "map tb_wire (release_first P bs) = map tb_wire bs"
  "map tb_session (release_first P bs) = map tb_session bs"
  by (induction bs) simp_all

lemma release_member:
  "b \<in> set (release_first P bs) \<Longrightarrow>
    \<exists>b'\<in>set bs. tb_local b' = tb_local b \<and> tb_wire b' = tb_wire b \<and> tb_session b' = tb_session b"
  by (induction bs) (auto split: if_splits)

lemma set_delete_subset: "set (AList.delete k al) \<subseteq> set al"
  by (auto simp: AList.delete_eq)

lemma terminals_response:
  assumes ok: "terminals_ok T R t" and R: "TerminalResponse r resp \<in> R"
  shows "terminals_ok T R (snd (encode_terminal_response r resp t))"
proof (cases "map_of (tr_terminal_rpcs t) r")
  case None
  then show ?thesis using ok by (simp add: encode_terminal_response_def)
next
  case (Some p)
  let ?u = "t\<lparr>tr_terminal_rpcs := AList.delete r (tr_terminal_rpcs t)\<rparr>"
  have u: "terminals_ok T R ?u"
    using ok set_delete_subset [of r "tr_terminal_rpcs t"] unfolding terminals_ok_def by auto
  have "terminals_ok T R (snd (terminal_result (pt_kind p) resp (pt_session p) ?u))"
  proof (cases "\<exists>k. pt_kind p = KCreate \<and> resp = RCreated k")
    case True
    then obtain k where k: "pt_kind p = KCreate" "resp = RCreated k" by blast
    have "\<exists>spec limit pre. TerminalRequest (pt_session p) r (TCreate spec limit pre) \<in> T"
      using ok map_of_SomeD [OF Some] k(1) unfolding terminals_ok_def by fast
    then have new: "opened T R \<lparr>tb_local = k, tb_wire = w, tb_session = pt_session p, tb_released = f\<rparr>" for w f
      using R k(2) unfolding opened_def by auto
    show ?thesis
    proof (cases "list_ex (\<lambda>b. tb_local b = k) (tr_terminals t)")
      case True
      then show ?thesis using k u by simp
    next
      case False
      then have "k \<notin> tb_local ` set (tr_terminals t)" by (auto simp: list_ex_iff)
      then show ?thesis using k False u new by (auto simp: Let_def terminals_ok_def)
    qed
  next
    case False
    show ?thesis
    proof (cases "\<exists>k. pt_kind p = KRelease k \<and> resp = RAcknowledged")
      case True
      then obtain k where "pt_kind p = KRelease k" "resp = RAcknowledged" by blast
      moreover have "opened T R b \<Longrightarrow> tb_local b = tb_local c \<Longrightarrow> tb_session b = tb_session c \<Longrightarrow> opened T R c" for b c
        by (simp add: opened_def)
      ultimately show ?thesis
        using u by (auto simp: terminals_ok_def dest!: release_member)
    next
      case other: False
      have "snd (terminal_result (pt_kind p) resp (pt_session p) ?u) = ?u"
        using False other by (cases "(pt_kind p, resp, pt_session p, ?u)" rule: terminal_result.cases) auto
      then show ?thesis using u by simp
    qed
  qed
  then show ?thesis using Some by (simp add: encode_terminal_response_def Let_def case_prod_beta)
qed

lemma call_rpcs [simp]:
  "tr_terminal_rpcs (snd (call meth params p t)) = tr_terminal_rpcs t"
  "tr_queued (snd (call meth params p t)) = tr_queued t"
  by (simp_all add: call_def allocate_def)

lemma terminals_encode:
  assumes "terminals_ok T R t" "r \<in> R"
  shows "terminals_ok T R (snd (encode r t))"
proof (cases "\<exists>i resp. r = TerminalResponse i resp")
  case False
  have "tr_terminal_rpcs (snd (encode r t)) = tr_terminal_rpcs t \<and> tr_terminals (snd (encode r t)) = tr_terminals t
      \<and> tr_queued (snd (encode r t)) = tr_queued t"
    using False by (cases r) (auto simp: encode_new_session_def encode_set_mode_def encode_prompt_def
      encode_file_contents_def encode_permission_def encode_permission_cancelled_def encode_cancel_def
      expire_terminal_grants_def Let_def split: option.split)
  then show ?thesis using assms(1) by (intro terminals_ok_cong [OF assms(1)]) (auto simp: terminals_ok_def)
qed (use assms terminals_response in auto)

lemma terminals_encode_all:
  "terminals_ok T R t \<Longrightarrow> set rs \<subseteq> R \<Longrightarrow> terminals_ok T R (snd (encode_all rs t))"
proof (induction rs arbitrary: t)
  case (Cons r rs)
  have "terminals_ok T R (snd (encode_all rs (snd (encode r t))))"
    using Cons terminals_encode by simp
  then show ?case by (simp add: Let_def case_prod_beta)
qed simp

lemma terminals_request:
  assumes ok: "terminals_ok T R t" and b: "books_ok t"
    and q: "on_request i meth params t = ((es, ms), t')"
  shows "terminals_ok (T \<union> set es) R t'"
proof -
  let ?s = "or_default 0 (Option.bind (get_string params ''sessionId'') (our_session t))"
  have ok': "terminals_ok (T \<union> set es) R t" using terminals_ok_mono [OF ok] by blast
  have same: "terminals_ok (T \<union> set es) R t'"
    if "tr_terminal_rpcs t' = tr_terminal_rpcs t" "tr_terminals t' = tr_terminals t" "tr_queued t' = tr_queued t"
    using that ok' by (intro terminals_ok_cong [OF ok']) (auto simp: terminals_ok_def)
  have rpc: "terminals_ok (T \<union> set es) R t'"
    if e: "allocate_terminal_request i ?s k op (t\<lparr>tr_grants := g\<rparr>) = (e, t')" "es = [e]"
      and k: "k = KCreate \<Longrightarrow> \<exists>spec limit pre. op = TCreate spec limit pre" for k op g e
  proof -
    have n: "AList.update (Suc (tr_next_id t)) v (tr_terminal_rpcs t)
        = tr_terminal_rpcs t @ [(Suc (tr_next_id t), v)]" for v
      using b by (simp add: books_ok_def update_next)
    have *: "es = [TerminalRequest ?s (Suc (tr_next_id t)) op]"
      "tr_terminal_rpcs t' = tr_terminal_rpcs t
          @ [(Suc (tr_next_id t), \<lparr>pt_wire_request = i, pt_session = ?s, pt_kind = k\<rparr>)]"
      "tr_terminals t' = tr_terminals t" "tr_queued t' = tr_queued t"
      using e n by (auto simp: allocate_terminal_request_def Let_def)
    show ?thesis using ok' k unfolding terminals_ok_def * by auto
  qed
  have create: "terminals_ok (T \<union> set es) R t'" if "on_terminal_create i ?s params t = ((es, ms), t')"
    using that same rpc [of KCreate] by (auto simp: on_terminal_create_def invalid_params_def refuse_call_def Let_def
        split: if_splits sum.splits prod.splits)
  have meth: "terminals_ok (T \<union> set es) R t'" if "on_terminal_method i meth ?s params t = ((es, ms), t')"
  proof -
    have "t' = t \<or> (\<exists>k op e. k \<noteq> KCreate \<and> allocate_terminal_request i ?s k op t = (e, t') \<and> es = [e])"
      using that by (auto simp: on_terminal_method_def invalid_params_def refuse_call_def Let_def case_prod_beta
          terminal_method_def split: if_splits option.splits) (metis prod.collapse terminal_rpc_kind.distinct)+
    then show ?thesis
    proof
      assume "\<exists>k op e. k \<noteq> KCreate \<and> allocate_terminal_request i ?s k op t = (e, t') \<and> es = [e]"
      then obtain k op e where e: "k \<noteq> KCreate" "allocate_terminal_request i ?s k op t = (e, t')" "es = [e]"
        by blast
      show ?thesis by (rule rpc [where g = "tr_grants t"]) (use e in auto)
    qed (use same in simp)
  qed
  show ?thesis
    using q same create meth
    by (auto simp: on_request_def on_read_text_file_def on_write_text_file_def on_request_permission_def
        invalid_params_def refuse_call_def Let_def split: if_splits option.splits)
qed

fun requests_of :: "acp_traffic \<Rightarrow> agent_request set" where
  "requests_of (Send r) = {r}"
| "requests_of (Hear m) = {}"

lemma notification_rpcs:
  "on_notification meth params t = (es, t') \<Longrightarrow>
    tr_terminal_rpcs t' = tr_terminal_rpcs t \<and> tr_queued t' = tr_queued t"
proof -
  have c: "events_of_contents s cs t = (es, t') \<Longrightarrow>
      tr_terminal_rpcs t' = tr_terminal_rpcs t \<and> tr_queued t' = tr_queued t" for s cs t es t'
  proof (induction cs arbitrary: t es)
    case (Cons c cs)
    obtain e u where u: "event_of_content s c t = (e, u)" by (metis surj_pair)
    then obtain fs where "events_of_contents s cs u = (fs, t')"
      using Cons.prems by (auto split: prod.splits)
    then show ?case using Cons.IH event_of_content_state [OF u] by fastforce
  qed simp
  show "on_notification meth params t = (es, t') \<Longrightarrow>
    tr_terminal_rpcs t' = tr_terminal_rpcs t \<and> tr_queued t' = tr_queued t"
    using c by (auto simp: on_notification_def events_from_tool_call_def Let_def split: option.splits if_splits)
qed

lemma terminals_step:
  assumes ok: "terminals_ok T R t" and b: "books_ok t" and x: "acp_step x t = ((es, ms), t')"
  shows "terminals_ok (T \<union> set es) (R \<union> requests_of x) t'"
proof -
  have ok': "terminals_ok (T \<union> set es) (R \<union> requests_of x) t" using terminals_ok_mono [OF ok] by blast
  show ?thesis
  proof (cases x)
    case (Send r)
    show ?thesis
    proof (cases "\<not> tr_ready t \<and> r \<noteq> Shutdown")
      case True
      then have "t' = t\<lparr>tr_queued := tr_queued t @ [r]\<rparr>" using x Send by (simp add: outgoing_def)
      then show ?thesis using ok' Send by (auto simp: terminals_ok_def)
    next
      case False
      then have "t' = snd (encode r t)" using x Send by (auto simp: outgoing_def split: prod.splits)
      then show ?thesis using terminals_encode [OF ok'] Send by simp
    qed
  next
    case (Hear m)
    then have m: "incoming m t = ((es, ms), t')" using x by simp
    have same: "terminals_ok (T \<union> set es) (R \<union> requests_of x) u"
      if "tr_terminal_rpcs u = tr_terminal_rpcs t" "tr_terminals u = tr_terminals t"
        "set (tr_queued u) \<subseteq> set (tr_queued t)" for u
      using that ok' by (intro terminals_ok_cong [OF ok']) (auto simp: terminals_ok_def)
    show ?thesis
    proof (cases m)
      case (Response j v)
      let ?h = "t\<lparr>tr_pending := AList.delete j (tr_pending t), tr_ready := True, tr_queued := []\<rparr>"
      have "terminals_ok (T \<union> set es) (R \<union> requests_of x) (snd (encode_all (tr_queued t) ?h))"
        using ok' by (intro terminals_encode_all same) (auto simp: terminals_ok_def)
      then have q: "encode_all (tr_queued t) ?h = (ns, t') \<Longrightarrow> ?thesis" for ns by simp
      show ?thesis
        using m Response q same [of t']
        by (auto simp: on_response_def session_opened_def expire_terminal_grants_def Let_def
            simp del: AList.delete_eq split: option.splits pending.splits prod.splits)
    next
      case (Error j c msg)
      then show ?thesis using m same [of t']
        by (auto simp: on_error_def expire_terminal_grants_def Let_def)
    next
      case (Notification meth params)
      then obtain u where u: "on_notification meth params t = (es, t')" using m by (auto split: prod.splits)
      show ?thesis using notification_rpcs [OF u] notification_fields [OF u] by (intro same) auto
    next
      case (Request j meth params)
      then have "terminals_ok (T \<union> set es) R t'" using terminals_request [OF ok b] m by simp
      then show ?thesis using Hear by simp
    qed
  qed
qed

lemma terminals_run:
  "terminals_ok T R t \<Longrightarrow> books_ok t \<Longrightarrow> acp_run ss t = ((es, ms), t') \<Longrightarrow>
    terminals_ok (T \<union> set es) (R \<union> \<Union> (requests_of ` set ss)) t'"
proof (induction ss arbitrary: T R t es ms)
  case (Cons x ss)
  obtain es1 ms1 u where u: "acp_step x t = ((es1, ms1), u)" by (metis surj_pair)
  obtain es2 ms2 where v: "acp_run ss u = ((es2, ms2), t')" and es: "es = es1 @ es2"
    using Cons.prems(3) u by (auto split: prod.splits)
  have "books_ok u" using settles_step [OF Cons.prems(2) u] by (simp add: settles_def)
  from Cons.IH [OF terminals_step [OF Cons.prems(1,2) u] this v] show ?case
    using es by (simp add: Un_assoc)
qed simp

lemma decimal_inject [simp]: "decimal m = decimal n \<longleftrightarrow> m = n"
  using decimal_value by metis

text \<open>The terminal an operation works on.\<close>

fun operates_on :: "terminal_operation \<Rightarrow> terminal_id option" where
  "operates_on (TCreate _ _ _) = None"
| "operates_on (TOutput k) = Some k"
| "operates_on (TWaitForExit k) = Some k"
| "operates_on (TKill k) = Some k"
| "operates_on (TRelease k) = Some k"

lemma live_terminal_Some:
  "live_terminal t w s = Some k \<Longrightarrow>
    \<exists>b\<in>set (tr_terminals t). tb_wire b = w \<and> tb_session b = s \<and> tb_local b = k \<and> \<not> tb_released b"
  by (auto simp: live_terminal_def find_binding_def split: option.splits if_splits dest!: find_SomeD)

text \<open>
  C10. A session reaches no terminal but its own.  Whenever a call of the agent is passed on as an
  operation on a terminal, the call named it by the name this client gave it, the terminal was
  created because that very session asked for one and the editor answered with it, and the session has
  not released it; no other terminal has its name or its id.
\<close>

theorem sessions_reach_own_terminals:
  assumes "acp_run ss (connected cap) = ((es, ms), t)"
    and "incoming (Request i meth params) t = ((es', ms'), t')"
    and "TerminalRequest s r op \<in> set es'" and "operates_on op = Some k"
  shows "\<exists>b\<in>set (tr_terminals t).
      get_string params ''terminalId'' = Some (ustr ''termesh-'' @ decimal k)
      \<and> tb_local b = k \<and> tb_session b = s \<and> \<not> tb_released b
      \<and> (\<exists>r0 spec limit pre. TerminalRequest s r0 (TCreate spec limit pre) \<in> set es
           \<and> Send (TerminalResponse r0 (RCreated k)) \<in> set ss)
      \<and> (\<forall>c\<in>set (tr_terminals t). tb_local c = k \<or> tb_wire c = tb_wire b \<longrightarrow> c = b)"
proof -
  have "terminals_ok {} {} (connected cap)"
    by (simp add: terminals_ok_def connected_def initialize_def allocate_def translator_new_def)
  from terminals_run [OF this connected_books(1) assms(1)]
  have ok: "terminals_ok (set es) (\<Union> (requests_of ` set ss)) t" by simp
  have R: "r \<in> \<Union> (requests_of ` set ss) \<Longrightarrow> Send r \<in> set ss" for r
  proof -
    assume "r \<in> \<Union> (requests_of ` set ss)"
    then obtain x where x: "x \<in> set ss" "r \<in> requests_of x" by blast
    show "Send r \<in> set ss" by (cases x) (use x in auto)
  qed
  have "\<exists>w. get_string params ''terminalId'' = Some w \<and> live_terminal t w s = Some k"
    using assms(2-4) by (auto simp: on_request_def on_read_text_file_def on_write_text_file_def
        on_request_permission_def on_terminal_create_def on_terminal_method_def invalid_params_def
        refuse_call_def allocate_terminal_request_def terminal_method_def Let_def
        split: if_splits option.splits sum.splits prod.splits)
  then obtain w b where w: "get_string params ''terminalId'' = Some w"
    and b: "b \<in> set (tr_terminals t)" "tb_wire b = w" "tb_session b = s" "tb_local b = k" "\<not> tb_released b"
    using live_terminal_Some by blast
  have wire: "tb_wire b = ustr ''termesh-'' @ decimal k" and o: "opened (set es) (\<Union> (requests_of ` set ss)) b"
    using ok b unfolding terminals_ok_def by auto
  from o obtain r0 spec limit pre where r0: "TerminalRequest s r0 (TCreate spec limit pre) \<in> set es"
    "Send (TerminalResponse r0 (RCreated k)) \<in> set ss"
    using R b(3,4) unfolding opened_def by blast
  have "\<forall>c\<in>set (tr_terminals t). tb_local c = k \<or> tb_wire c = tb_wire b \<longrightarrow> c = b"
    using ok b unfolding terminals_ok_def distinct_map inj_on_def by auto
  moreover have "get_string params ''terminalId'' = Some (ustr ''termesh-'' @ decimal k)" using w b(2) wire by simp
  ultimately show ?thesis using b(3-5) r0 by (intro bexI [OF _ b(1)] conjI exI) assumption+
qed

section \<open>Concrete exchanges\<close>

definition demo_spec :: terminal_spec where
  "demo_spec = \<lparr>ts_program = [108], ts_args = [], ts_cwd = [RootDir], ts_env = []\<rparr>"

abbreviation in_session :: "(string \<times> json) list \<Rightarrow> json" where
  "in_session fs \<equiv> jobj ((''sessionId'', JString (ustr ''s'')) # fs)"

definition demo_open :: "acp_traffic list" where
  "demo_open =
     [Hear (Response 1 JNull), Send (NewSession [RootDir]),
      Hear (Response 2 (in_session [])), Send (Prompt 1 [104] [])]"

definition demo_create :: rpc_message where
  "demo_create = Request 9 (ustr ''terminal/create'')
     (in_session [(''command'', JString [108]), (''cwd'', JString [47])])"

definition demo_allow :: "acp_traffic list" where
  "demo_allow =
     [Hear (Request 8 (ustr ''session/request_permission'') (in_session
        [(''options'', JArray [jobj [(''optionId'', JString [121]), (''kind'', JString (ustr ''allow_once''))]]),
         (''toolCall'', jobj [(''rawInput'', jobj
            [(''command'', JArray [JString [108]]), (''cwd'', JString [47]), (''env'', JArray [])])])])),
      Send (Permission 1 AllowOnce), Hear demo_create, Hear demo_create]"

abbreviation opened_session :: heard where
  "opened_session \<equiv> acp_run demo_open (connected client_capabilities_default)"

definition demo_state :: translator where
  "demo_state = translator_new\<lparr>tr_ids := 3, tr_sessions := [(1, ustr ''s'')], tr_next_session := 1, tr_ready := True\<rparr>"

lemmas run_simps = connected_def initialize_def allocate_def translator_new_def outgoing_def call_def
  encode_new_session_def encode_prompt_def wire_session_def our_session_def on_response_def
  session_opened_def parse_session_modes_def get_string_def or_default_def expire_terminal_grants_def
  on_request_def demo_state_def Let_def

lemma slash_path: "path_of_text [47] = [RootDir]" "valid_absolute_path [RootDir]"
  by (simp_all add: path_of_text_def starts_with_def Let_def valid_absolute_path_def is_absolute_def)

lemma opened_state: "snd opened_session = demo_state\<lparr>tr_pending := [(3, PPrompt 1)]\<rparr>"
  by (simp add: demo_open_def run_simps)

abbreviation turn_over :: heard where
  "turn_over \<equiv> acp_step (Hear (Response 3 JNull)) (snd opened_session)"

lemma over_state: "turn_over = (([TurnEnded 1 EndTurn], []), demo_state)"
  unfolding opened_state by (simp add: run_simps stop_reason_of_def)

lemmas terminal_simps = on_terminal_create_def terminal_spec_of_create_def string_array_def env_array_def
  output_limit_def allocate_terminal_request_def demo_create_def slash_path

lemma demo_launches:
  "length (filter (preauthorized 1 demo_spec) (fst (fst (acp_run demo_allow (snd turn_over))))) = 1"
  unfolding over_state
  by (simp add: demo_allow_def run_simps terminal_simps on_request_permission_def terminal_spec_of_permission_def
      map_filter_def offered_option_def encode_permission_def choose_option_def allows_def demo_spec_def)

lemma allowances_are_spent_once_witness:
  "1 \<le> card {i. (\<exists>y\<in>set demo_allow. allowing i y)
     \<and> (\<exists>e\<in>set (fst (fst opened_session) @ fst (fst turn_over) @ fst (fst (acp_run demo_allow (snd turn_over)))).
          asks_to_run 1 demo_spec i e)}"
proof -
  have "TurnEnded 1 EndTurn \<in> set (fst (fst turn_over))" unfolding over_state by simp
  then show ?thesis
    using allowances_are_spent_once [of demo_open client_capabilities_default "fst (fst opened_session)"
      "snd (fst opened_session)" "snd opened_session" "Hear (Response 3 JNull)" "fst (fst turn_over)"
      "snd (fst turn_over)" "snd turn_over" 1 EndTurn demo_allow "fst (fst (acp_run demo_allow (snd turn_over)))"
      "snd (fst (acp_run demo_allow (snd turn_over)))" "snd (acp_run demo_allow (snd turn_over))" demo_spec]
    demo_launches
    by (simp only: prod.collapse)
qed

definition demo_terminal :: "acp_traffic list" where
  "demo_terminal = demo_open @ [Hear demo_create, Send (TerminalResponse 1 (RCreated 5))]"

abbreviation with_terminal :: heard where
  "with_terminal \<equiv> acp_run demo_terminal (connected client_capabilities_default)"

abbreviation demo_output :: json where
  "demo_output \<equiv> in_session [(''terminalId'', JString (ustr ''termesh-'' @ decimal 5))]"

abbreviation read_output :: heard where
  "read_output \<equiv> incoming (Request 10 (ustr ''terminal/output'') demo_output) (snd with_terminal)"

lemma with_terminal_state:
  "snd with_terminal = demo_state\<lparr>tr_pending := [(3, PPrompt 1)], tr_next_id := 1, tr_terminals :=
     [\<lparr>tb_local = 5, tb_wire = ustr ''termesh-'' @ decimal 5, tb_session = 1, tb_released = False\<rparr>]\<rparr>"
proof -
  have "snd with_terminal = snd (acp_run [Hear demo_create, Send (TerminalResponse 1 (RCreated 5))] (snd opened_session))"
    by (simp add: demo_terminal_def acp_run_append Let_def case_prod_beta)
  then show ?thesis
    unfolding opened_state by (simp add: run_simps terminal_simps encode_terminal_response_def)
qed

lemma demo_reads: "TerminalRequest 1 2 (TOutput 5) \<in> set (fst (fst read_output))"
  unfolding with_terminal_state
  by (simp add: run_simps on_terminal_method_def live_terminal_def find_binding_def terminal_method_def
      allocate_terminal_request_def)

lemma sessions_reach_own_terminals_witness:
  "\<exists>b\<in>set (tr_terminals (snd with_terminal)). tb_local b = 5 \<and> tb_session b = 1 \<and> \<not> tb_released b"
proof -
  have "operates_on (TOutput 5) = Some 5" by simp
  from sessions_reach_own_terminals [of demo_terminal client_capabilities_default "fst (fst with_terminal)"
      "snd (fst with_terminal)" "snd with_terminal" 10 "ustr ''terminal/output''" demo_output
      "fst (fst read_output)" "snd (fst read_output)" "snd read_output", OF _ _ demo_reads this]
  show ?thesis by (simp only: prod.collapse) blast
qed

lemma verdicts_keep_direction_witness:
  "\<exists>t'. encode_permission 1 AllowAlways (translator_new\<lparr>tr_permissions :=
       [(1, \<lparr>pp_wire_request = 4, pp_session = 1, pp_options = [\<lparr>po_id = [121], po_kind = ustr ''allow_once''\<rparr>],
             pp_terminal_spec = None\<rparr>)]\<rparr>) = (Some (Response 4 (selected_outcome [121])), t')"
  using verdicts_keep_direction [of "translator_new\<lparr>tr_permissions :=
       [(1, \<lparr>pp_wire_request = 4, pp_session = 1, pp_options = [\<lparr>po_id = [121], po_kind = ustr ''allow_once''\<rparr>],
             pp_terminal_spec = None\<rparr>)]\<rparr>" 1 _ AllowAlways]
  by (simp add: allows_def split: prod.splits)

end
