(* ===== verification/Acp_Worker.thy ===== *)
theory Acp_Worker
  imports Acp_Ledger
begin

text \<open>
  The worker thread of \<open>crates/agent/src/acp.rs\<close>: the one owner of the translator and of the agent's
  input.  What it does with an item of its inbox is one step.  Threads, pipes and the child process
  are the system's: \<open>accepts\<close> says whether the agent takes a line after those it has taken, and
  the text of JSON is written and read by a third-party library.
\<close>

section \<open>The loop\<close>

datatype work = WorkRequest agent_request | WorkLine utext | Disconnected

record acp_worker =
  aw_translator :: translator
  aw_written :: "utext list"
  aw_events :: "agent_event list"
  aw_running :: bool

record acp_wire =
  wire_show :: "json \<Rightarrow> utext"
  wire_parse :: "utext \<Rightarrow> json option"
  wire_accepts :: "utext list \<Rightarrow> utext \<Rightarrow> bool"

definition failed :: "string \<Rightarrow> agent_event" where
  "failed msg = AgentFailed 0 (ustr msg)"

definition sink :: "agent_event list \<Rightarrow> acp_worker \<Rightarrow> acp_worker" where
  "sink es w = w\<lparr>aw_events := aw_events w @ es\<rparr>"

definition stop_with :: "string \<Rightarrow> acp_worker \<Rightarrow> acp_worker" where
  "stop_with msg w = (sink [failed msg] w)\<lparr>aw_running := False\<rparr>"

fun write_messages :: "acp_wire \<Rightarrow> rpc_message list \<Rightarrow> acp_worker \<Rightarrow> acp_worker" where
  "write_messages wire [] w = w"
| "write_messages wire (m # ms) w =
     (let line = acp_encode (wire_show wire) m in
      if wire_accepts wire (aw_written w) line
      then write_messages wire ms (w\<lparr>aw_written := aw_written w @ [line]\<rparr>)
      else stop_with ''the agent stopped listening'' w)"

definition worker_start :: "acp_wire \<Rightarrow> client_capabilities \<Rightarrow> acp_worker" where
  "worker_start wire cap =
     (let (hello, t) = initialize cap translator_new;
          line = acp_encode (wire_show wire) hello;
          w = \<lparr>aw_translator = t, aw_written = [], aw_events = [], aw_running = True\<rparr> in
      if wire_accepts wire [] line then w\<lparr>aw_written := [line]\<rparr>
      else stop_with ''could not reach the agent'' w)"

definition worker_step :: "acp_wire \<Rightarrow> work \<Rightarrow> acp_worker \<Rightarrow> acp_worker" where
  "worker_step wire item w =
     (if \<not> aw_running w then w else
      case item of
        WorkRequest request \<Rightarrow>
          if request = Shutdown then w\<lparr>aw_running := False\<rparr>
          else (let (ms, t) = outgoing request (aw_translator w) in
                write_messages wire ms (w\<lparr>aw_translator := t\<rparr>))
      | WorkLine line \<Rightarrow>
          (case acp_decode (wire_parse wire) line of
             Inr m \<Rightarrow>
               (let ((es, ms), t) = incoming m (aw_translator w) in
                write_messages wire ms (sink es (w\<lparr>aw_translator := t\<rparr>)))
           | Inl _ \<Rightarrow> w)
      | Disconnected \<Rightarrow> stop_with ''the agent exited'' w)"

fun worker_run :: "acp_wire \<Rightarrow> work list \<Rightarrow> acp_worker \<Rightarrow> acp_worker" where
  "worker_run wire [] w = w"
| "worker_run wire (x # xs) w = worker_run wire xs (worker_step wire x w)"

section \<open>What it does\<close>

text \<open>What of the inbox reaches the translator.\<close>

fun traffic_of :: "acp_wire \<Rightarrow> work \<Rightarrow> acp_traffic list" where
  "traffic_of wire (WorkRequest r) = [Send r]"
| "traffic_of wire (WorkLine line) =
     (case acp_decode (wire_parse wire) line of Inr m \<Rightarrow> [Hear m] | Inl _ \<Rightarrow> [])"
| "traffic_of wire Disconnected = []"

lemma write_running:
  "aw_running (write_messages wire ms w) \<Longrightarrow>
     write_messages wire ms w = w\<lparr>aw_written := aw_written w @ map (acp_encode (wire_show wire)) ms\<rparr>"
proof (induction ms arbitrary: w)
  case (Cons m ms)
  let ?u = "w\<lparr>aw_written := aw_written w @ [acp_encode (wire_show wire) m]\<rparr>"
  show ?case using Cons.IH [of ?u] Cons.prems by (simp add: Let_def stop_with_def split: if_splits)
qed simp

lemma write_stops:
  "aw_running w \<Longrightarrow> \<not> aw_running (write_messages wire ms w) \<Longrightarrow>
     aw_events (write_messages wire ms w) = aw_events w @ [failed ''the agent stopped listening'']"
  by (induction ms arbitrary: w) (auto simp: Let_def stop_with_def sink_def split: if_splits)

lemma stopped_stays: "\<not> aw_running w \<Longrightarrow> worker_run wire xs w = w"
  by (induction xs) (simp_all add: worker_step_def)

lemma run_running: "aw_running (worker_run wire xs w) \<Longrightarrow> aw_running w"
  using stopped_stays by metis

lemma worker_run_append: "worker_run wire (xs @ ys) w = worker_run wire ys (worker_run wire xs w)"
  by (induction xs arbitrary: w) simp_all

lemma step_running:
  assumes "aw_running (worker_step wire x w)"
    and "acp_run (traffic_of wire x) (aw_translator w) = ((es, ms), t)"
  shows "worker_step wire x w = w\<lparr>aw_translator := t, aw_events := aw_events w @ es,
      aw_written := aw_written w @ map (acp_encode (wire_show wire)) ms\<rparr>"
proof -
  have w: "aw_running w" using assms(1) by (auto simp: worker_step_def split: if_splits)
  show ?thesis
    using assms w
    by (cases x) (auto simp: worker_step_def stop_with_def sink_def Let_def write_running
        split: if_splits prod.splits sum.splits)
qed

lemma worker_refines:
  assumes "aw_running (worker_run wire xs w)"
    and "acp_run (concat (map (traffic_of wire) xs)) (aw_translator w) = ((es, ms), t)"
  shows "worker_run wire xs w = w\<lparr>aw_translator := t, aw_events := aw_events w @ es,
      aw_written := aw_written w @ map (acp_encode (wire_show wire)) ms\<rparr>"
  using assms
proof (induction xs arbitrary: w es ms)
  case (Cons x xs)
  obtain es1 ms1 u where u: "acp_run (traffic_of wire x) (aw_translator w) = ((es1, ms1), u)" by (metis surj_pair)
  obtain es2 ms2 v where v: "acp_run (concat (map (traffic_of wire) xs)) u = ((es2, ms2), v)" by (metis surj_pair)
  have "aw_running (worker_step wire x w)" using Cons.prems(1) run_running by simp
  note step = step_running [OF this u]
  show ?case
    using Cons.IH [of "worker_step wire x w" es2 ms2] Cons.prems step u v
    by (auto simp: acp_run_append)
qed simp

text \<open>
  C11. While the worker runs it is the translator and nothing else: the lines the agent has been sent are
  the handshake and the translator's messages, one line each and in order, the editor has heard
  exactly the translator's events, and lines that are no messages leave no trace.
\<close>

theorem worker_is_translator:
  assumes "aw_running (worker_run wire xs (worker_start wire cap))"
    and "acp_run (concat (map (traffic_of wire) xs)) (connected cap) = ((es, ms), t)"
  shows "worker_run wire xs (worker_start wire cap) =
    \<lparr>aw_translator = t,
     aw_written = map (acp_encode (wire_show wire)) (fst (initialize cap translator_new) # ms),
     aw_events = es, aw_running = True\<rparr>"
proof -
  have r: "aw_running (worker_start wire cap)" using assms(1) run_running by blast
  then have start: "worker_start wire cap = \<lparr>aw_translator = connected cap,
      aw_written = [acp_encode (wire_show wire) (fst (initialize cap translator_new))],
      aw_events = [], aw_running = True\<rparr>"
    by (auto simp: worker_start_def connected_def Let_def case_prod_beta stop_with_def split: if_splits)
  show ?thesis
    using worker_refines [OF assms(1), of es ms t] assms(2) by (simp add: start)
qed

text \<open>
  The editor is never left waiting on a dead agent.  Unless it was told to shut down, a worker that
  has stopped, because the agent was not reached, stopped listening or exited, has said so, and its
  last word is that failure; once the agent hangs up the worker has always stopped.
\<close>

theorem death_is_announced:
  assumes "WorkRequest Shutdown \<notin> set xs"
  shows "(aw_running (worker_run wire xs (worker_start wire cap)) \<longleftrightarrow>
      Disconnected \<notin> set xs \<and> aw_running (worker_run wire (filter (\<lambda>x. x \<noteq> Disconnected) xs) (worker_start wire cap)))
    \<and> (\<not> aw_running (worker_run wire xs (worker_start wire cap)) \<longrightarrow>
        (\<exists>before msg. aw_events (worker_run wire xs (worker_start wire cap)) = before @ [AgentFailed 0 msg]))"
proof -
  have step: "aw_running w \<Longrightarrow> x \<noteq> WorkRequest Shutdown \<Longrightarrow> \<not> aw_running (worker_step wire x w) \<Longrightarrow>
      \<exists>before msg. aw_events (worker_step wire x w) = before @ [AgentFailed 0 msg]" for x w
    by (cases x) (auto simp: worker_step_def stop_with_def sink_def failed_def write_stops Let_def
        split: if_splits prod.splits sum.splits)
  have dies: "\<not> aw_running (worker_step wire Disconnected w)" for w
    by (simp add: worker_step_def stop_with_def)
  have run: "WorkRequest Shutdown \<notin> set xs \<Longrightarrow> aw_running w \<Longrightarrow> \<not> aw_running (worker_run wire xs w) \<Longrightarrow>
      \<exists>before msg. aw_events (worker_run wire xs w) = before @ [AgentFailed 0 msg]" for w
  proof (induction xs arbitrary: w)
    case (Cons x xs)
    show ?case
    proof (cases "aw_running (worker_step wire x w)")
      case False
      then show ?thesis using step [of w x] Cons.prems stopped_stays [OF False] by auto
    qed (use Cons in simp)
  qed simp
  have alive: "aw_running (worker_run wire xs w) \<longleftrightarrow>
      Disconnected \<notin> set xs \<and> aw_running (worker_run wire (filter (\<lambda>x. x \<noteq> Disconnected) xs) w)" for w
  proof (induction xs arbitrary: w)
    case (Cons x xs)
    show ?case using Cons stopped_stays [OF dies [of w], of wire xs] dies [of w] by (cases "x = Disconnected") auto
  qed simp
  show ?thesis
  proof (cases "aw_running (worker_start wire cap)")
    case True
    then show ?thesis using run [OF assms True] alive by blast
  next
    case False
    then have "aw_events (worker_start wire cap) = [AgentFailed 0 (ustr ''could not reach the agent'')]"
      by (auto simp: worker_start_def Let_def case_prod_beta stop_with_def sink_def failed_def split: if_splits)
    then show ?thesis using alive stopped_stays [OF False] by (metis append_Nil)
  qed
qed

definition deaf_wire :: acp_wire where
  "deaf_wire = \<lparr>wire_show = (\<lambda>_. []), wire_parse = (\<lambda>_. None), wire_accepts = (\<lambda>ls _. length ls < 1)\<rparr>"

lemma deaf_start: "aw_running (worker_start deaf_wire client_capabilities_default)"
  by (simp add: worker_start_def deaf_wire_def Let_def case_prod_beta)

lemma worker_is_translator_witness:
  "worker_run deaf_wire [WorkLine [104], WorkRequest (NewSession [RootDir])] (worker_start deaf_wire client_capabilities_default)
     = \<lparr>aw_translator = (connected client_capabilities_default)\<lparr>tr_queued := [NewSession [RootDir]]\<rparr>,
        aw_written = [[10]], aw_events = [], aw_running = True\<rparr>"
proof -
  let ?xs = "[WorkLine [104], WorkRequest (NewSession [RootDir])]"
  have t: "acp_run (concat (map (traffic_of deaf_wire) ?xs)) (connected client_capabilities_default)
      = (([], []), (connected client_capabilities_default)\<lparr>tr_queued := [NewSession [RootDir]]\<rparr>)"
    by (simp add: deaf_wire_def acp_decode_def Let_def trim_def is_whitespace_def outgoing_def
        connected_def initialize_def allocate_def translator_new_def)
  have "aw_running (worker_run deaf_wire ?xs (worker_start deaf_wire client_capabilities_default))"
    by (simp add: worker_start_def worker_step_def deaf_wire_def acp_decode_def Let_def trim_def
        is_whitespace_def outgoing_def initialize_def allocate_def translator_new_def)
  from worker_is_translator [OF this t] show ?thesis by (simp add: deaf_wire_def acp_encode_def)
qed

lemma death_is_announced_witness:
  "\<exists>before msg. aw_events (worker_run deaf_wire [Disconnected] (worker_start deaf_wire client_capabilities_default))
     = before @ [AgentFailed 0 msg]"
proof -
  have "WorkRequest Shutdown \<notin> set [Disconnected]" by simp
  from death_is_announced [OF this, of deaf_wire client_capabilities_default] show ?thesis by simp
qed

end
