(* ===== verification/Lsp_Types.thy ===== *)
theory Lsp_Types
  imports Json Filesystem
begin

text \<open>
  The language-server vocabulary shared across the service boundary, \<open>crates/core/src/lsp.rs\<close>.  Ids,
  lines, characters and percentages are numbers; requests, events and kinds carry a prefix, because
  the source names a request and its answer alike.
\<close>

type_synonym lsp_id = nat

record text_position =
  pos_line :: nat
  pos_character :: nat

record text_range =
  tr_start :: text_position
  tr_end :: text_position

datatype diagnostic_severity = DsError | DsWarning | DsInfo | DsHint

datatype diagnostic_origin = FromLanguageServer | FromTask

record diagnostic_item =
  dg_path :: path
  dg_range :: text_range
  dg_severity :: diagnostic_severity
  dg_origin :: diagnostic_origin
  dg_source :: utext
  dg_code :: "utext option"
  dg_message :: utext

record lsp_location =
  loc_path :: path
  loc_range :: text_range

record lsp_text_edit =
  te_path :: path
  te_range :: text_range
  te_new_text :: utext

record workspace_edit =
  we_edits :: "lsp_text_edit list"
  we_versions :: "(path \<times> nat) list"

datatype (plugins only: code) symbol_kind =
    SkFile | SkModule | SkStruct | SkEnum | SkTrait | SkFunction | SkMethod | SkField | SkConstant
  | SkVariable | SkTypeAlias | SkMacro | SkOther

datatype document_symbol =
  DocumentSymbol (ds_name: utext) (ds_kind: symbol_kind) (ds_detail: "utext option")
    (ds_range: text_range) (ds_children: "document_symbol list")

record symbol_location =
  sl_name :: utext
  sl_kind :: symbol_kind
  sl_container :: "utext option"
  sl_location :: lsp_location

record completion_item =
  ci_label :: utext
  ci_detail :: "utext option"
  ci_kind :: symbol_kind
  ci_insert_text :: utext
  ci_edit :: "lsp_text_edit option"

record hover_text =
  ht_text :: utext
  ht_range :: "text_range option"
  ht_truncated :: bool

record code_action =
  ca_title :: utext
  ca_kind :: "utext option"
  ca_edit :: "workspace_edit option"

record text_change =
  tc_range :: "text_range option"
  tc_text :: utext

datatype watched_file_change = FileCreated path | FileChanged path | FileDeleted path

datatype lsp_request =
    RqStart nat path "utext list" utext "utext option"
  | RqDidOpen path utext nat utext
  | RqDidChange path nat text_change
  | RqDidSave path
  | RqDidClose path
  | RqWatchedFilesChanged "watched_file_change list"
  | RqReloadProject "path list"
  | RqDefinition lsp_id path text_position
  | RqHover lsp_id path text_position
  | RqCompletion lsp_id path text_position
  | RqReferences lsp_id path text_position
  | RqDocumentSymbols lsp_id path
  | RqWorkspaceSymbols lsp_id utext
  | RqRename lsp_id path text_position utext
  | RqCodeActions lsp_id path text_range
  | RqFormatting lsp_id path
  | RqCancel lsp_id
  | RqShutdown

datatype lsp_failure_kind = NotInstalled | Handshake | Transport | Server | Unsupported

record lsp_failure =
  lf_kind :: lsp_failure_kind
  lf_message :: utext

datatype lsp_event =
    EvStarted
  | EvReady
  | EvIndexing utext "nat option"
  | EvDiagnostics path "nat option" "diagnostic_item list"
  | EvDefinition lsp_id "lsp_location list"
  | EvHover lsp_id "hover_text option"
  | EvCompletion lsp_id "completion_item list"
  | EvReferences lsp_id "lsp_location list"
  | EvDocumentSymbols lsp_id "document_symbol list"
  | EvWorkspaceSymbols lsp_id "symbol_location list"
  | EvRename lsp_id workspace_edit
  | EvCodeActions lsp_id "code_action list"
  | EvFormatting lsp_id "lsp_text_edit list"
  | EvFailed "lsp_id option" lsp_failure
  | EvUnavailable utext
  | EvExited "int option"

end
