(* ===== verification/Lsp_Parse.thy ===== *)
theory Lsp_Parse
  imports Lsp_Types Permissions Utf8
begin

text \<open>
  What \<open>crates/lsp/src/protocol.rs\<close> reads out of a server's JSON and writes into its own: file URIs,
  positions and ranges, and the answers to every kind of request, each within its limit.  A JSON
  object lists its fields in the order the JSON library iterates them.
\<close>

definition max_diagnostics :: nat where "max_diagnostics = 500"
definition max_locations :: nat where "max_locations = 500"
definition max_completions :: nat where "max_completions = 200"
definition max_symbols :: nat where "max_symbols = 500"
definition max_code_actions :: nat where "max_code_actions = 100"
definition max_hover_chars :: nat where "max_hover_chars = 32 * 1024"

section \<open>File URIs\<close>

definition hex_digit :: "nat \<Rightarrow> uchar" where
  "hex_digit d = (if d < 10 then 48 + d else 55 + d)"

definition uri_plain :: "byte \<Rightarrow> bool" where
  "uri_plain b \<longleftrightarrow> (48 \<le> b \<and> b \<le> 57) \<or> (65 \<le> b \<and> b \<le> 90) \<or> (97 \<le> b \<and> b \<le> 122)
     \<or> b \<in> {47, 45, 95, 46, 126, 58}"

definition uri_byte :: "byte \<Rightarrow> utext" where
  "uri_byte b = (if uri_plain b then [b] else [37, hex_digit (b div 16), hex_digit (b mod 16)])"

definition text_to_uri :: "utext \<Rightarrow> utext" where
  "text_to_uri s = ustr ''file://'' @ concat (map uri_byte (utf8_encode s))"

definition path_to_uri :: "path \<Rightarrow> utext" where
  "path_to_uri p = text_to_uri (path_components_display p)"

definition hex :: "byte \<Rightarrow> nat option" where
  "hex b =
     (if 48 \<le> b \<and> b \<le> 57 then Some (b - 48)
      else if 97 \<le> b \<and> b \<le> 102 then Some (b - 97 + 10)
      else if 65 \<le> b \<and> b \<le> 70 then Some (b - 65 + 10)
      else None)"

fun uri_decode :: "bytes \<Rightarrow> bytes option" where
  "uri_decode [] = Some []"
| "uri_decode (b # h # l # r) =
     (if b = 37 then
        (case (hex h, hex l) of
           (Some high, Some low) \<Rightarrow> map_option ((#) (16 * high + low)) (uri_decode r)
         | _ \<Rightarrow> None)
      else map_option ((#) b) (uri_decode (h # l # r)))"
| "uri_decode (b # r) = map_option ((#) b) (uri_decode r)"

definition uri_to_text :: "utext \<Rightarrow> utext option" where
  "uri_to_text uri =
     do { encoded \<leftarrow> strip_prefix (ustr ''file://'') uri;
          decoded \<leftarrow> uri_decode (utf8_encode encoded);
          utf8_decode decoded }"

definition uri_to_path :: "utext \<Rightarrow> path option" where
  "uri_to_path uri = map_option path_of_text (uri_to_text uri)"

section \<open>Positions\<close>

definition position_json :: "text_position \<Rightarrow> json" where
  "position_json p = jobj [(''line'', JInt (int (pos_line p))), (''character'', JInt (int (pos_character p)))]"

definition range_json :: "text_range \<Rightarrow> json" where
  "range_json r = jobj [(''start'', position_json (tr_start r)), (''end'', position_json (tr_end r))]"

definition as_u32 :: "json \<Rightarrow> nat option" where
  "as_u32 v = (case as_u64 v of Some n \<Rightarrow> if n < 2 ^ 32 then Some n else None | None \<Rightarrow> None)"

definition text_position :: "json \<Rightarrow> text_position option" where
  "text_position v =
     do { l \<leftarrow> jget v ''line''; line \<leftarrow> as_u32 l;
          c \<leftarrow> jget v ''character''; char \<leftarrow> as_u32 c;
          Some \<lparr>pos_line = line, pos_character = char\<rparr> }"

definition text_range :: "json \<Rightarrow> text_range option" where
  "text_range v =
     do { s \<leftarrow> jget v ''start''; start \<leftarrow> text_position s;
          e \<leftarrow> jget v ''end''; stop \<leftarrow> text_position e;
          Some \<lparr>tr_start = start, tr_end = stop\<rparr> }"

section \<open>Answers\<close>

definition or_else :: "'a option \<Rightarrow> 'a option \<Rightarrow> 'a option" where
  "or_else x y = (case x of Some a \<Rightarrow> Some a | None \<Rightarrow> y)"

definition get_u64 :: "json \<Rightarrow> string \<Rightarrow> nat option" where
  "get_u64 v k = Option.bind (jget v k) as_u64"

text \<open>\<open>as_array().into_iter().flatten()\<close>: the items there are.\<close>

definition items_of :: "json option \<Rightarrow> json list" where
  "items_of v = or_default [] (Option.bind v as_list)"

definition lsp_location :: "json \<Rightarrow> lsp_location option" where
  "lsp_location v =
     do { u \<leftarrow> or_else (jget v ''uri'') (jget v ''targetUri''); uri \<leftarrow> as_string u;
          range \<leftarrow> or_else (jget v ''range'')
            (or_else (jget v ''targetSelectionRange'') (jget v ''targetRange''));
          p \<leftarrow> uri_to_path uri; r \<leftarrow> text_range range;
          Some \<lparr>loc_path = p, loc_range = r\<rparr> }"

definition locations :: "json \<Rightarrow> lsp_location list" where
  "locations v =
     (case v of
        JNull \<Rightarrow> []
      | JArray vs \<Rightarrow> List.map_filter lsp_location (take max_locations vs)
      | _ \<Rightarrow> (case lsp_location v of Some l \<Rightarrow> [l] | None \<Rightarrow> []))"

fun join :: "utext \<Rightarrow> utext list \<Rightarrow> utext" where
  "join sep [] = []"
| "join sep [s] = s"
| "join sep (s # ss) = s @ sep @ join sep ss"

fun hover_contents :: "json \<Rightarrow> utext option" and hover_parts :: "json list \<Rightarrow> utext list" where
  "hover_contents (JString s) = Some s"
| "hover_contents (JArray vs) = Some (join [10, 10] (hover_parts vs))"
| "hover_contents v = get_string v ''value''"
| "hover_parts [] = []"
| "hover_parts (v # vs) = (case hover_contents v of Some s \<Rightarrow> s # hover_parts vs | None \<Rightarrow> hover_parts vs)"

definition truncate_chars :: "utext \<Rightarrow> nat \<Rightarrow> utext \<times> bool" where
  "truncate_chars s limit = (if length s \<le> limit then (s, False) else (take limit s, True))"

definition hover :: "json \<Rightarrow> hover_text option" where
  "hover v =
     (if v = JNull then None
      else do { contents \<leftarrow> jget v ''contents''; s \<leftarrow> hover_contents contents;
                let (txt, truncated) = truncate_chars s max_hover_chars;
                Some \<lparr>ht_text = txt, ht_range = Option.bind (jget v ''range'') text_range,
                      ht_truncated = truncated\<rparr> })"

definition text_edit :: "path \<Rightarrow> json \<Rightarrow> lsp_text_edit option" where
  "text_edit p v =
     do { range \<leftarrow> or_else (jget v ''range'') (jget v ''replace''); r \<leftarrow> text_range range;
          new \<leftarrow> get_string v ''newText'';
          Some \<lparr>te_path = p, te_range = r, te_new_text = new\<rparr> }"

definition text_edits :: "path \<Rightarrow> json \<Rightarrow> lsp_text_edit list" where
  "text_edits p v = List.map_filter (text_edit p) (items_of (Some v))"

definition symbol_kind :: "nat option \<Rightarrow> symbol_kind" where
  "symbol_kind kind =
     (case kind of None \<Rightarrow> SkOther | Some k \<Rightarrow>
        if k = 1 then SkFile
        else if k \<in> {2, 3, 4} then SkModule
        else if k \<in> {5, 23} then SkStruct
        else if k = 6 then SkMethod
        else if k \<in> {7, 8} then SkField
        else if k \<in> {9, 12} then SkFunction
        else if k = 10 then SkEnum
        else if k = 11 then SkTrait
        else if k = 13 then SkVariable
        else if k \<in> {14, 22} then SkConstant
        else if k = 26 then SkTypeAlias
        else SkOther)"

definition completion_kind :: "nat option \<Rightarrow> symbol_kind" where
  "completion_kind kind =
     (case kind of None \<Rightarrow> SkOther | Some k \<Rightarrow>
        if k = 2 then SkMethod
        else if k \<in> {3, 4} then SkFunction
        else if k \<in> {5, 10} then SkField
        else if k = 6 then SkVariable
        else if k \<in> {7, 22} then SkStruct
        else if k = 8 then SkTrait
        else if k \<in> {9, 19} then SkModule
        else if k = 13 then SkEnum
        else if k = 15 then SkMacro
        else if k = 17 then SkFile
        else if k \<in> {20, 21} then SkConstant
        else if k = 25 then SkTypeAlias
        else SkOther)"

definition completion_item :: "path \<Rightarrow> json \<Rightarrow> completion_item option" where
  "completion_item p item =
     do { label \<leftarrow> get_string item ''label'';
          Some \<lparr>ci_label = label, ci_detail = get_string item ''detail'',
                ci_kind = completion_kind (get_u64 item ''kind''),
                ci_insert_text = or_default label (get_string item ''insertText''),
                ci_edit = Option.bind (jget item ''textEdit'') (text_edit p)\<rparr> }"

definition completion_items :: "json \<Rightarrow> path \<Rightarrow> completion_item list" where
  "completion_items v p =
     (let values = or_default [] (or_else (as_list v) (Option.bind (jget v ''items'') as_list)) in
      List.map_filter (completion_item p) (take max_completions values))"

text \<open>Symbols nest: the children of a symbol are parsed as it is, at most \<open>max_symbols\<close> at each level.\<close>

lemma field_smaller: "jget v k = Some w \<Longrightarrow> size w < size v"
proof (cases v)
  case (JObject fs)
  assume "jget v k = Some w"
  then have "(ustr k, w) \<in> set fs" using JObject by (simp add: map_of_SomeD)
  then show ?thesis using JObject by (induction fs arbitrary: v) auto
qed auto

lemma item_smaller: "v \<in> set vs \<Longrightarrow> size v < size (JArray vs)"
  by (induction vs) auto

definition children_of :: "json \<Rightarrow> json list" where
  "children_of v = take max_symbols (items_of (jget v ''children''))"

lemma children_smaller: "size_list size (children_of v) \<le> size v"
proof (cases "Option.bind (jget v ''children'') as_list")
  case None
  then show ?thesis by (simp add: children_of_def items_of_def or_default_def)
next
  case (Some vs)
  then obtain w where w: "jget v ''children'' = Some w" "as_list w = Some vs" by (auto simp: bind_eq_Some_iff)
  then have "w = JArray vs" by (cases w) simp_all
  moreover have "size_list size (take n vs) \<le> size_list size vs" for n :: nat and vs :: "json list"
    by (induction vs arbitrary: n) (auto simp: take_Cons' intro: le_SucI)
  ultimately show ?thesis using field_smaller [OF w(1)] Some
    by (simp add: children_of_def items_of_def or_default_def) (meson le_trans less_imp_le_nat Suc_leD)
qed

function document_symbol :: "json \<Rightarrow> document_symbol option"
  and child_symbols :: "json list \<Rightarrow> document_symbol list" where
  "document_symbol v =
     do { range \<leftarrow> or_else (jget v ''range'') (Option.bind (jget v ''location'') (\<lambda>l. jget l ''range''));
          name \<leftarrow> get_string v ''name'';
          r \<leftarrow> text_range range;
          Some (DocumentSymbol name (symbol_kind (get_u64 v ''kind''))
            (Option.bind (or_else (jget v ''detail'') (jget v ''containerName'')) as_string) r
            (child_symbols (children_of v))) }"
| "child_symbols [] = []"
| "child_symbols (v # vs) =
     (case document_symbol v of Some s \<Rightarrow> s # child_symbols vs | None \<Rightarrow> child_symbols vs)"
  by pat_completeness auto
termination
  by (relation "measure (\<lambda>x. case x of Inl v \<Rightarrow> 2 * size v + 2 | Inr vs \<Rightarrow> 2 * size_list size vs + 1)")
    (use children_smaller in \<open>auto simp: less_Suc_eq_le\<close>)

declare document_symbol.simps [simp del]

definition document_symbols :: "json \<Rightarrow> document_symbol list" where
  "document_symbols v = List.map_filter document_symbol (take max_symbols (items_of (Some v)))"

definition workspace_symbol :: "json \<Rightarrow> symbol_location option" where
  "workspace_symbol symbol =
     do { name \<leftarrow> get_string symbol ''name'';
          l \<leftarrow> jget symbol ''location''; loc \<leftarrow> lsp_location l;
          Some \<lparr>sl_name = name, sl_kind = symbol_kind (get_u64 symbol ''kind''),
                sl_container = get_string symbol ''containerName'', sl_location = loc\<rparr> }"

definition workspace_symbols :: "json \<Rightarrow> symbol_location list" where
  "workspace_symbols v = List.map_filter workspace_symbol (take max_symbols (items_of (Some v)))"

fun as_object :: "json \<Rightarrow> (utext \<times> json) list option" where
  "as_object (JObject fs) = Some fs"
| "as_object _ = None"

text \<open>One entry of \<open>changes\<close> and one of \<open>documentChanges\<close>: what it adds to the edit.\<close>

definition add_file_changes :: "utext \<times> json \<Rightarrow> workspace_edit \<Rightarrow> workspace_edit" where
  "add_file_changes change edit =
     (case uri_to_path (fst change) of
        None \<Rightarrow> edit
      | Some p \<Rightarrow> edit\<lparr>we_edits := we_edits edit @ text_edits p (snd change)\<rparr>)"

definition add_document_change :: "json \<Rightarrow> workspace_edit \<Rightarrow> workspace_edit" where
  "add_document_change change edit =
     (case do { document \<leftarrow> jget change ''textDocument''; uri \<leftarrow> get_string document ''uri'';
                p \<leftarrow> uri_to_path uri; Some (document, p) } of
        None \<Rightarrow> edit
      | Some (document, p) \<Rightarrow>
          (let edit = (case get_u64 document ''version'' of
                 Some version \<Rightarrow> edit\<lparr>we_versions := we_versions edit @ [(p, version)]\<rparr>
               | None \<Rightarrow> edit) in
           case jget change ''edits'' of
             Some edits \<Rightarrow> edit\<lparr>we_edits := we_edits edit @ text_edits p edits\<rparr>
           | None \<Rightarrow> edit))"

definition workspace_edit :: "json \<Rightarrow> workspace_edit" where
  "workspace_edit v =
     (let edit = \<lparr>we_edits = [], we_versions = []\<rparr>;
          edit = fold add_file_changes (or_default [] (Option.bind (jget v ''changes'') as_object)) edit in
      fold add_document_change (items_of (jget v ''documentChanges'')) edit)"

definition code_action :: "json \<Rightarrow> code_action option" where
  "code_action action =
     do { title \<leftarrow> get_string action ''title'';
          Some \<lparr>ca_title = title, ca_kind = get_string action ''kind'',
                ca_edit = map_option workspace_edit (jget action ''edit'')\<rparr> }"

definition code_actions :: "json \<Rightarrow> code_action list" where
  "code_actions v = List.map_filter code_action (take max_code_actions (items_of (Some v)))"

section \<open>What the server says unasked\<close>

definition diagnostic_severity :: "nat option \<Rightarrow> diagnostic_severity" where
  "diagnostic_severity severity =
     (if severity = Some 1 then DsError else if severity = Some 2 then DsWarning
      else if severity = Some 4 then DsHint else DsInfo)"

definition signed_decimal :: "int \<Rightarrow> utext" where
  "signed_decimal i = (if i < 0 then 45 # decimal (nat (- i)) else decimal (nat i))"

definition code_string :: "json \<Rightarrow> utext option" where
  "code_string v =
     or_else (as_string v)
       (or_else (map_option signed_decimal (as_i64 v)) (map_option decimal (as_u64 v)))"

definition parse_diagnostic :: "path \<Rightarrow> json \<Rightarrow> diagnostic_item option" where
  "parse_diagnostic p item =
     do { range \<leftarrow> jget item ''range''; r \<leftarrow> text_range range;
          Some \<lparr>dg_path = p, dg_range = r,
                dg_severity = diagnostic_severity (get_u64 item ''severity''),
                dg_origin = FromLanguageServer,
                dg_source = or_default (ustr ''language server'') (get_string item ''source''),
                dg_code = Option.bind (jget item ''code'') code_string,
                dg_message = or_default [] (get_string item ''message'')\<rparr> }"

definition parse_diagnostics :: "json \<Rightarrow> lsp_event option" where
  "parse_diagnostics params =
     do { uri \<leftarrow> get_string params ''uri''; p \<leftarrow> uri_to_path uri;
          d \<leftarrow> jget params ''diagnostics''; items \<leftarrow> as_list d;
          Some (EvDiagnostics p (get_u64 params ''version'')
            (List.map_filter (parse_diagnostic p) (take max_diagnostics items))) }"

definition parse_progress :: "json \<Rightarrow> lsp_event option" where
  "parse_progress params =
     do { v \<leftarrow> jget params ''value'';
          Some (EvIndexing
            (or_default (ustr ''indexing'') (or_else (get_string v ''message'') (get_string v ''title'')))
            (map_option (min 100) (get_u64 v ''percentage''))) }"

definition parse_jdt_language_status :: "json \<Rightarrow> lsp_event" where
  "parse_jdt_language_status params =
     (let ty = get_string params ''type'' in
      if ty = Some (ustr ''Started'') \<or> ty = Some (ustr ''ServiceReady'') then EvReady
      else EvIndexing (or_default (ustr ''indexing Java workspace'') (get_string params ''message'')) None)"

text \<open>A token is a string or a number; a float is printed by the JSON library.\<close>

definition progress_token :: "(nat \<Rightarrow> utext) \<Rightarrow> json \<Rightarrow> utext option" where
  "progress_token show_float params =
     (case jget params ''token'' of
        Some (JString s) \<Rightarrow> Some s
      | Some (JInt i) \<Rightarrow> Some (signed_decimal i)
      | Some (JFloat f) \<Rightarrow> Some (show_float f)
      | _ \<Rightarrow> None)"

end
