(* ===== verification/Lsp_Uris.thy ===== *)
theory Lsp_Uris
  imports Lsp_Parse
begin

text \<open>
  Paths and URIs: what a path is sent as is read back as the path, whatever chars its names have.
\<close>

lemma hex_hex_digit: "d < 16 \<Longrightarrow> hex (hex_digit d) = Some d"
  by (auto simp: hex_def hex_digit_def)

lemma uri_decode_plain: "b \<noteq> 37 \<Longrightarrow> uri_decode (b # r) = map_option ((#) b) (uri_decode r)"
  by (cases "b # r" rule: uri_decode.cases) auto

lemma uri_decode_byte:
  assumes "b < 256"
  shows "uri_decode (uri_byte b @ r) = map_option ((#) b) (uri_decode r)"
proof (cases "uri_plain b")
  case True
  then show ?thesis using uri_decode_plain [of b r] by (auto simp: uri_byte_def uri_plain_def)
next
  case False
  have "b div 16 < 16" "b mod 16 < 16" using assms by simp_all
  note h = hex_hex_digit [OF this(1)] hex_hex_digit [OF this(2)]
  have "uri_decode (37 # hex_digit (b div 16) # hex_digit (b mod 16) # r)
      = map_option ((#) (16 * (b div 16) + b mod 16)) (uri_decode r)"
    by (simp only: uri_decode.simps h option.case prod.case simp_thms if_True)
  then show ?thesis using False by (simp add: uri_byte_def)
qed

lemma uri_decode_bytes: "list_all (\<lambda>b. b < 256) bs \<Longrightarrow> uri_decode (concat (map uri_byte bs)) = Some bs"
  by (induction bs) (auto simp: uri_decode_byte)

lemma utf8_char_bytes: "valid_char c \<Longrightarrow> list_all (\<lambda>b. b < 256) (utf8_char c)"
  by (auto simp: utf8_char_def valid_char_def div_less_dividend less_mult_imp_div_less)

lemma utf8_bytes: "valid_text s \<Longrightarrow> list_all (\<lambda>b. b < 256) (utf8_encode s)"
  by (induction s) (auto simp: utf8_char_bytes)

lemma ascii_encode: "list_all (\<lambda>c. c < 128) s \<Longrightarrow> utf8_encode s = s"
  by (induction s) (auto simp: utf8_char_def)

lemma uri_byte_ascii: "b < 256 \<Longrightarrow> list_all (\<lambda>c. c < 128) (uri_byte b)"
proof -
  assume "b < 256"
  then have "b div 16 < 16" "b mod 16 < 16" by auto
  moreover have "hex_digit d < 128" if "d < 16" for d using that by (simp add: hex_digit_def)
  moreover have "uri_plain b \<Longrightarrow> b < 128" unfolding uri_plain_def by force
  ultimately show ?thesis by (simp add: uri_byte_def)
qed

lemma uri_bytes_ascii: "list_all (\<lambda>b. b < 256) bs \<Longrightarrow> list_all (\<lambda>c. c < 128) (concat (map uri_byte bs))"
  by (induction bs) (simp_all add: uri_byte_ascii)

lemma uri_text: "valid_text s \<Longrightarrow> uri_to_text (text_to_uri s) = Some s"
  by (simp add: uri_to_text_def text_to_uri_def ascii_encode uri_bytes_ascii utf8_bytes uri_decode_bytes
      utf8_decode_encode)

lemma display_absolute:
  "ns \<noteq> [] \<Longrightarrow> path_components_display (RootDir # map Normal ns) = 47 # path_components_display (map Normal ns)"
  by (cases ns) (simp_all add: ustr_def)

lemma path_of_display_absolute:
  assumes "list_all name_ok ns"
  shows "path_of_text (path_components_display (RootDir # map Normal ns)) = RootDir # map Normal ns"
proof (cases "ns = []")
  case True
  then show ?thesis by (simp add: path_of_text_def ustr_def starts_with_def Let_def)
next
  case False
  have f: "filter (\<lambda>p. p \<noteq> [] \<and> p \<noteq> [46]) ns = ns"
    using assms by (intro filter_True) (auto simp: list_all_iff name_ok_def)
  have m: "map piece_component ns = map Normal ns"
    using assms by (auto simp: list_all_iff name_ok_def piece_component_def)
  show ?thesis
    using f m display_names [OF False assms]
    by (simp add: display_absolute [OF False] path_of_text_def starts_with_def Let_def)
qed

text \<open>
  C32. A path survives the wire.  The URI a path is sent to a server as is read back as that very path,
  for every absolute path whose names are real names, spaces, percent signs and any other Unicode
  chars included; no two such paths share a URI.
\<close>

theorem uri_round_trip:
  assumes "list_all name_ok ns" and "list_all valid_text ns"
  shows "uri_to_path (path_to_uri (RootDir # map Normal ns)) = Some (RootDir # map Normal ns)"
proof -
  have "valid_text (path_components_display (map Normal ns))"
    using assms(2)
  proof (induction ns)
    case (Cons n ns)
    then show ?case by (cases ns) (simp_all add: valid_char_def ustr_def)
  qed simp
  then have "valid_text (path_components_display (RootDir # map Normal ns))"
    by (cases "ns = []") (simp_all add: display_absolute valid_char_def ustr_def)
  then show ?thesis
    using path_of_display_absolute [OF assms(1)] by (simp add: uri_to_path_def path_to_uri_def uri_text)
qed

lemma uri_round_trip_witness:
  "uri_to_path (path_to_uri [RootDir, Normal [97, 32, 37], Normal [233]]) = Some [RootDir, Normal [97, 32, 37], Normal [233]]"
  using uri_round_trip [of "[[97, 32, 37], [233]]"] by (simp add: name_ok_def valid_char_def)

end
