(* ===== verification/Lsp_Translator.thy ===== *)
theory Lsp_Translator
  imports Lsp_Parse "HOL-Library.AList"
begin

text \<open>
  The translator between the editor's language requests and the language-server protocol,
  \<open>crates/lsp/src/protocol.rs\<close>: its state, what it sends for a request and what it makes of a message.
  Maps are association lists with distinct keys, sets are lists without duplicates.
\<close>

section \<open>State\<close>

datatype lsp_state = LsNew | LsInitializing nat | LsReady

datatype pending_kind =
    PkDefinition
  | PkHover
  | PkCompletion path
  | PkReferences
  | PkDocumentSymbols
  | PkWorkspaceSymbols
  | PkRename
  | PkCodeActions
  | PkFormatting path
  | PkShutdown

record lsp_pending =
  lp_external_id :: "lsp_id option"
  lp_kind :: pending_kind

record lsp_translator =
  lt_state :: lsp_state
  lt_ids :: request_ids
  lt_pending :: "(nat \<times> lsp_pending) list"
  lt_external_to_wire :: "(lsp_id \<times> nat) list"
  lt_cancelled :: "nat list"
  lt_queued :: "lsp_request list"
  lt_active_progress :: "utext list"

definition lsp_translator_new :: lsp_translator where
  "lsp_translator_new =
     \<lparr>lt_state = LsNew, lt_ids = 0, lt_pending = [], lt_external_to_wire = [], lt_cancelled = [],
      lt_queued = [], lt_active_progress = []\<rparr>"

section \<open>The handshake\<close>

definition workspace_name :: "path \<Rightarrow> utext" where
  "workspace_name root =
     (case path_file_name root of Some n \<Rightarrow> n | None \<Rightarrow> path_components_display root)"

text \<open>\<open>value[key] = v\<close> on an object.\<close>

fun set_field :: "json \<Rightarrow> string \<Rightarrow> json \<Rightarrow> json" where
  "set_field (JObject fs) k v = JObject (AList.update (ustr k) v fs)"
| "set_field j k v = j"

abbreviation no_registration :: json where
  "no_registration \<equiv> jobj [(''dynamicRegistration'', JBool False)]"

definition document_capabilities :: json where
  "document_capabilities = jobj
     [(''synchronization'', jobj
         [(''dynamicRegistration'', JBool False), (''didSave'', JBool True), (''willSave'', JBool False),
          (''willSaveWaitUntil'', JBool False)]),
      (''definition'', jobj [(''dynamicRegistration'', JBool False), (''linkSupport'', JBool True)]),
      (''hover'', jobj [(''dynamicRegistration'', JBool False),
         (''contentFormat'', JArray [JString (ustr ''markdown''), JString (ustr ''plaintext'')])]),
      (''completion'', no_registration),
      (''references'', no_registration),
      (''documentSymbol'', jobj [(''dynamicRegistration'', JBool False),
         (''hierarchicalDocumentSymbolSupport'', JBool True)]),
      (''rename'', jobj [(''dynamicRegistration'', JBool False), (''prepareSupport'', JBool False)]),
      (''codeAction'', no_registration),
      (''formatting'', no_registration)]"

definition initialize_params :: "path \<Rightarrow> json" where
  "initialize_params root = jobj
     [(''processId'', JNull),
      (''rootUri'', JString (path_to_uri root)),
      (''capabilities'', jobj
         [(''window'', jobj [(''workDoneProgress'', JBool True)]),
          (''workspace'', jobj
             [(''workspaceFolders'', JBool True),
              (''didChangeWatchedFiles'', jobj [(''dynamicRegistration'', JBool True)]),
              (''symbol'', no_registration)]),
          (''textDocument'', document_capabilities)]),
      (''workspaceFolders'', JArray
         [jobj [(''uri'', JString (path_to_uri root)), (''name'', JString (workspace_name root))]])]"

definition initialize_with ::
    "(utext \<Rightarrow> utext + json) \<Rightarrow> path \<Rightarrow> utext option \<Rightarrow> lsp_translator
      \<Rightarrow> (lsp_failure + rpc_message) \<times> lsp_translator" where
  "initialize_with from_str root options t =
     (case map_option from_str options of
        Some (Inl error) \<Rightarrow>
          (Inl \<lparr>lf_kind = Handshake, lf_message = ustr ''invalid initializationOptions: '' @ error\<rparr>, t)
      | parsed \<Rightarrow>
          (let (i, ids) = allocate (lt_ids t);
               params = initialize_params root;
               params = (case parsed of
                   Some (Inr options) \<Rightarrow> set_field params ''initializationOptions'' options
                 | _ \<Rightarrow> params) in
           (Inr (Request i (ustr ''initialize'') params),
            t\<lparr>lt_ids := ids, lt_state := LsInitializing i\<rparr>)))"

section \<open>What the editor sends\<close>

definition notification :: "string \<Rightarrow> json \<Rightarrow> rpc_message" where
  "notification meth params = Notification (ustr meth) params"

definition uri_json :: "path \<Rightarrow> json" where
  "uri_json p = JString (path_to_uri p)"

definition text_document :: "path \<Rightarrow> json" where
  "text_document p = jobj [(''uri'', uri_json p)]"

definition document_position :: "path \<Rightarrow> text_position \<Rightarrow> json" where
  "document_position p pos = jobj [(''textDocument'', text_document p), (''position'', position_json pos)]"

definition tracked_request ::
    "lsp_id \<Rightarrow> pending_kind \<Rightarrow> string \<Rightarrow> json \<Rightarrow> lsp_translator \<Rightarrow> rpc_message option \<times> lsp_translator" where
  "tracked_request external kind meth params t =
     (let (i, ids) = allocate (lt_ids t) in
      (Some (Request i (ustr meth) params),
       t\<lparr>lt_ids := ids,
         lt_pending := AList.update i \<lparr>lp_external_id = Some external, lp_kind = kind\<rparr> (lt_pending t),
         lt_external_to_wire := AList.update external i (lt_external_to_wire t)\<rparr>))"

fun watched_json :: "watched_file_change \<Rightarrow> json" where
  "watched_json (FileCreated p) = jobj [(''uri'', uri_json p), (''type'', JInt 1)]"
| "watched_json (FileChanged p) = jobj [(''uri'', uri_json p), (''type'', JInt 2)]"
| "watched_json (FileDeleted p) = jobj [(''uri'', uri_json p), (''type'', JInt 3)]"

definition change_json :: "text_change \<Rightarrow> json" where
  "change_json c =
     (let content = jobj [(''text'', JString (tc_text c))] in
      case tc_range c of Some r \<Rightarrow> set_field content ''range'' (range_json r) | None \<Rightarrow> content)"

text \<open>A request that is a notification on the wire; the others are tracked.\<close>

fun notification_of :: "lsp_request \<Rightarrow> rpc_message option" where
  "notification_of (RqDidOpen p language version txt) =
     Some (notification ''textDocument/didOpen'' (jobj [(''textDocument'', jobj
       [(''uri'', uri_json p), (''languageId'', JString language), (''version'', JInt (int version)),
        (''text'', JString txt)])]))"
| "notification_of (RqDidChange p version change) =
     Some (notification ''textDocument/didChange'' (jobj
       [(''textDocument'', jobj [(''uri'', uri_json p), (''version'', JInt (int version))]),
        (''contentChanges'', JArray [change_json change])]))"
| "notification_of (RqDidSave p) =
     Some (notification ''textDocument/didSave'' (jobj [(''textDocument'', text_document p)]))"
| "notification_of (RqDidClose p) =
     Some (notification ''textDocument/didClose'' (jobj [(''textDocument'', text_document p)]))"
| "notification_of (RqWatchedFilesChanged changes) =
     Some (notification ''workspace/didChangeWatchedFiles''
       (jobj [(''changes'', JArray (map watched_json changes))]))"
| "notification_of _ = None"

text \<open>The tracked requests: whose answer, of which kind, the method and its parameters.\<close>

fun tracked_of :: "lsp_request \<Rightarrow> (lsp_id \<times> pending_kind \<times> string \<times> json) option" where
  "tracked_of (RqDefinition i p pos) =
     Some (i, PkDefinition, ''textDocument/definition'', document_position p pos)"
| "tracked_of (RqHover i p pos) = Some (i, PkHover, ''textDocument/hover'', document_position p pos)"
| "tracked_of (RqCompletion i p pos) =
     Some (i, PkCompletion p, ''textDocument/completion'', document_position p pos)"
| "tracked_of (RqReferences i p pos) =
     Some (i, PkReferences, ''textDocument/references'',
       set_field (document_position p pos) ''context'' (jobj [(''includeDeclaration'', JBool True)]))"
| "tracked_of (RqDocumentSymbols i p) =
     Some (i, PkDocumentSymbols, ''textDocument/documentSymbol'', jobj [(''textDocument'', text_document p)])"
| "tracked_of (RqWorkspaceSymbols i query) =
     Some (i, PkWorkspaceSymbols, ''workspace/symbol'', jobj [(''query'', JString query)])"
| "tracked_of (RqRename i p pos new_name) =
     Some (i, PkRename, ''textDocument/rename'',
       set_field (document_position p pos) ''newName'' (JString new_name))"
| "tracked_of (RqCodeActions i p rng) =
     Some (i, PkCodeActions, ''textDocument/codeAction'', jobj
       [(''textDocument'', text_document p), (''range'', range_json rng),
        (''context'', jobj [(''diagnostics'', JArray [])])])"
| "tracked_of (RqFormatting i p) =
     Some (i, PkFormatting p, ''textDocument/formatting'', jobj
       [(''textDocument'', text_document p),
        (''options'', jobj [(''tabSize'', JInt 4), (''insertSpaces'', JBool True)])])"
| "tracked_of _ = None"

definition encode_lsp_cancel :: "lsp_id \<Rightarrow> lsp_translator \<Rightarrow> rpc_message option \<times> lsp_translator" where
  "encode_lsp_cancel i t =
     (case map_of (lt_external_to_wire t) i of
        None \<Rightarrow> (None, t)
      | Some wire \<Rightarrow>
          (Some (notification ''$/cancelRequest'' (jobj [(''id'', JInt (int wire))])),
           t\<lparr>lt_cancelled := List.insert wire (lt_cancelled t)\<rparr>))"

definition encode_lsp_shutdown :: "lsp_translator \<Rightarrow> rpc_message option \<times> lsp_translator" where
  "encode_lsp_shutdown t =
     (let (i, ids) = allocate (lt_ids t) in
      (Some (Request i (ustr ''shutdown'') JNull),
       t\<lparr>lt_ids := ids,
         lt_pending := AList.update i \<lparr>lp_external_id = None, lp_kind = PkShutdown\<rparr> (lt_pending t)\<rparr>))"

text \<open>\<open>encode_request\<close>; a batch of project reloads never gets here (\<open>unreachable!\<close>), it has no message.\<close>

definition encode_request :: "lsp_request \<Rightarrow> lsp_translator \<Rightarrow> rpc_message option \<times> lsp_translator" where
  "encode_request request t =
     (case request of
        RqCancel i \<Rightarrow> encode_lsp_cancel i t
      | RqShutdown \<Rightarrow> encode_lsp_shutdown t
      | _ \<Rightarrow>
          (case tracked_of request of
             Some (i, kind, meth, params) \<Rightarrow> tracked_request i kind meth params t
           | None \<Rightarrow> (notification_of request, t)))"

definition reload_message :: "path \<Rightarrow> rpc_message" where
  "reload_message p = notification ''java/projectConfigurationUpdate'' (jobj [(''uri'', uri_json p)])"

definition encode_ready :: "lsp_request \<Rightarrow> lsp_translator \<Rightarrow> rpc_message list \<times> lsp_translator" where
  "encode_ready request t =
     (case request of
        RqReloadProject paths \<Rightarrow> (map reload_message paths, t)
      | _ \<Rightarrow> (let (m, t) = encode_request request t in (case m of Some m \<Rightarrow> [m] | None \<Rightarrow> [], t)))"

definition lsp_outgoing :: "lsp_request \<Rightarrow> lsp_translator \<Rightarrow> rpc_message list \<times> lsp_translator" where
  "lsp_outgoing request t =
     (if lt_state t \<noteq> LsReady then ([], t\<lparr>lt_queued := lt_queued t @ [request]\<rparr>)
      else encode_ready request t)"

section \<open>What the server sends\<close>

definition answer_client_request :: "nat \<Rightarrow> utext \<Rightarrow> json \<Rightarrow> rpc_message" where
  "answer_client_request i meth params =
     (if meth \<in> {ustr ''client/registerCapability'', ustr ''window/workDoneProgress/create'',
                 ustr ''telemetry/event''}
      then Response i JNull
      else if meth = ustr ''workspace/configuration''
      then Response i (JArray (replicate (length (items_of (jget params ''items''))) JNull))
      else Error i (- 32601) (ustr ''Method not found''))"

definition progress_events ::
    "(nat \<Rightarrow> utext) \<Rightarrow> json \<Rightarrow> lsp_translator \<Rightarrow> lsp_event list \<times> lsp_translator" where
  "progress_events show_float params t =
     (case parse_progress params of
        None \<Rightarrow> ([], t)
      | Some indexing \<Rightarrow>
     (case progress_token show_float params of
        None \<Rightarrow> ([indexing], t)
      | Some token \<Rightarrow>
          if Option.bind (jget params ''value'') (\<lambda>v. get_string v ''kind'') = Some (ustr ''end'')
          then (let active = removeAll token (lt_active_progress t) in
                (if active = [] then [EvReady] else [], t\<lparr>lt_active_progress := active\<rparr>))
          else ([indexing], t\<lparr>lt_active_progress := List.insert token (lt_active_progress t)\<rparr>)))"

definition notification_events ::
    "(nat \<Rightarrow> utext) \<Rightarrow> utext \<Rightarrow> json \<Rightarrow> lsp_translator \<Rightarrow> lsp_event list \<times> lsp_translator" where
  "notification_events show_float meth params t =
     (if meth = ustr ''textDocument/publishDiagnostics''
      then (case parse_diagnostics params of Some e \<Rightarrow> [e] | None \<Rightarrow> [], t)
      else if meth = ustr ''$/progress'' then progress_events show_float params t
      else if meth = ustr ''language/status'' then ([parse_jdt_language_status params], t)
      else ([], t))"

fun response_event :: "lsp_id \<Rightarrow> pending_kind \<Rightarrow> json \<Rightarrow> lsp_event option" where
  "response_event i PkDefinition r = Some (EvDefinition i (locations r))"
| "response_event i PkHover r = Some (EvHover i (hover r))"
| "response_event i (PkCompletion p) r = Some (EvCompletion i (completion_items r p))"
| "response_event i PkReferences r = Some (EvReferences i (locations r))"
| "response_event i PkDocumentSymbols r = Some (EvDocumentSymbols i (document_symbols r))"
| "response_event i PkWorkspaceSymbols r = Some (EvWorkspaceSymbols i (workspace_symbols r))"
| "response_event i PkRename r = Some (EvRename i (workspace_edit r))"
| "response_event i PkCodeActions r = Some (EvCodeActions i (code_actions r))"
| "response_event i (PkFormatting p) r = Some (EvFormatting i (text_edits p r))"
| "response_event i PkShutdown r = None"

fun lsp_outgoing_all :: "lsp_request list \<Rightarrow> lsp_translator \<Rightarrow> rpc_message list \<times> lsp_translator" where
  "lsp_outgoing_all [] t = ([], t)"
| "lsp_outgoing_all (r # rs) t =
     (let (ms, t) = lsp_outgoing r t; (ns, t) = lsp_outgoing_all rs t in (ms @ ns, t))"

type_synonym lsp_heard = "(lsp_event list \<times> rpc_message list) \<times> lsp_translator"

definition handshake_response :: "(int \<times> utext) + json \<Rightarrow> lsp_translator \<Rightarrow> lsp_heard" where
  "handshake_response response t =
     (case response of
        Inr _ \<Rightarrow>
          (let (ms, t) = lsp_outgoing_all (lt_queued t) (t\<lparr>lt_state := LsReady, lt_queued := []\<rparr>) in
           (([EvReady], notification ''initialized'' (jobj []) # ms), t))
      | Inl (code, msg) \<Rightarrow>
          (([EvFailed None \<lparr>lf_kind = Handshake,
               lf_message = ustr ''initialize failed ('' @ signed_decimal code @ ustr ''): '' @ msg\<rparr>], []),
           t\<lparr>lt_state := LsNew\<rparr>))"

definition lsp_response :: "nat \<Rightarrow> (int \<times> utext) + json \<Rightarrow> lsp_translator \<Rightarrow> lsp_heard" where
  "lsp_response i response t =
     (if lt_state t = LsInitializing i then handshake_response response t else
      case map_of (lt_pending t) i of
        None \<Rightarrow> (([], []), t)
      | Some p \<Rightarrow>
          (let t = t\<lparr>lt_pending := AList.delete i (lt_pending t)\<rparr>;
               t = (case lp_external_id p of
                   Some external \<Rightarrow>
                     t\<lparr>lt_external_to_wire := AList.delete external (lt_external_to_wire t)\<rparr>
                 | None \<Rightarrow> t) in
           if i \<in> set (lt_cancelled t)
           then (([], []), t\<lparr>lt_cancelled := removeAll i (lt_cancelled t)\<rparr>)
           else (case lp_external_id p of
                None \<Rightarrow> (([], []), t)
              | Some external \<Rightarrow>
                  (case response of
                     Inr r \<Rightarrow>
                       ((case response_event external (lp_kind p) r of Some e \<Rightarrow> [e] | None \<Rightarrow> [], []), t)
                   | Inl (code, msg) \<Rightarrow>
                       (([EvFailed (Some external) \<lparr>lf_kind = Server,
                            lf_message = ustr ''language request failed ('' @ signed_decimal code
                              @ ustr ''): '' @ msg\<rparr>], []), t)))))"

fun lsp_incoming :: "(nat \<Rightarrow> utext) \<Rightarrow> rpc_message \<Rightarrow> lsp_translator \<Rightarrow> lsp_heard" where
  "lsp_incoming sf (Request i meth params) t = (([], [answer_client_request i meth params]), t)"
| "lsp_incoming sf (Notification meth params) t =
     (let (es, t) = notification_events sf meth params t in ((es, []), t))"
| "lsp_incoming sf (Response i r) t = lsp_response i (Inr r) t"
| "lsp_incoming sf (Error i code msg) t = lsp_response i (Inl (code, msg)) t"

end
