(* ===== verification/Lsp_Claims.thy ===== *)
theory Lsp_Claims
  imports Lsp_Translator Request_Queue Fresh_Keys
begin

text \<open>
  What the language translator promises: requests made during the handshake are not lost, an answer
  is of the kind that was asked for and comes at most once, a cancelled request is never answered,
  and no answer is larger than its limit.
\<close>

section \<open>Runs\<close>

datatype lsp_traffic = LspSend lsp_request | LspHear rpc_message

fun lsp_step :: "(nat \<Rightarrow> utext) \<Rightarrow> lsp_traffic \<Rightarrow> lsp_translator \<Rightarrow> lsp_heard" where
  "lsp_step sf (LspSend r) t = (let (ms, t) = lsp_outgoing r t in (([], ms), t))"
| "lsp_step sf (LspHear m) t = lsp_incoming sf m t"

fun lsp_run :: "(nat \<Rightarrow> utext) \<Rightarrow> lsp_traffic list \<Rightarrow> lsp_translator \<Rightarrow> lsp_heard" where
  "lsp_run sf [] t = (([], []), t)"
| "lsp_run sf (x # xs) t =
     (let ((es, ms), t) = lsp_step sf x t; ((es', ms'), t) = lsp_run sf xs t in ((es @ es', ms @ ms'), t))"

definition greeted :: lsp_translator where
  "greeted = lsp_translator_new\<lparr>lt_ids := 1, lt_state := LsInitializing 1\<rparr>"

lemma greeted_eq:
  assumes "\<And>e. map_option from_str options \<noteq> Some (Inl e)"
  shows "snd (initialize_with from_str root options lsp_translator_new) = greeted"
  using assms by (auto simp: initialize_with_def greeted_def allocate_def lsp_translator_new_def Let_def
      split: option.splits sum.splits)

lemma lsp_run_append:
  "lsp_run sf (xs @ ys) t =
     (let ((es, ms), t) = lsp_run sf xs t; ((es', ms'), t) = lsp_run sf ys t in ((es @ es', ms @ ms'), t))"
  by (induction xs arbitrary: t) (simp_all add: Let_def split: prod.split)

section \<open>The handshake\<close>

definition lsp_hold :: "lsp_request \<Rightarrow> lsp_translator \<Rightarrow> lsp_translator" where
  "lsp_hold r t = t\<lparr>lt_queued := lt_queued t @ [r]\<rparr>"

definition lsp_release :: "lsp_translator \<Rightarrow> lsp_translator" where
  "lsp_release t = t\<lparr>lt_state := LsReady, lt_queued := []\<rparr>"

abbreviation lsp_ready :: "lsp_translator \<Rightarrow> bool" where
  "lsp_ready t \<equiv> lt_state t = LsReady"

lemma encode_ready_state [simp]: "lt_state (snd (encode_ready r t)) = lt_state t"
  by (cases r) (simp_all add: encode_ready_def encode_request_def tracked_request_def encode_lsp_cancel_def
      encode_lsp_shutdown_def allocate_def Let_def case_prod_beta split: option.split)

interpretation lsp_queue: request_queue lsp_ready lt_queued lsp_hold encode_ready lsp_release
  by unfold_locales (simp_all add: lsp_hold_def lsp_release_def)

lemma lsp_outgoing_send: "lsp_outgoing r t = lsp_queue.send r t"
  by (simp add: lsp_outgoing_def lsp_queue.send_def lsp_hold_def)

lemma lsp_outgoing_all_drain: "lsp_outgoing_all rs t = drain_requests lsp_queue.send rs t"
  by (induction rs arbitrary: t) (simp_all add: lsp_outgoing_send)

lemma lsp_sends_drain:
  "lsp_run sf (map LspSend rs) t =
     (([], fst (drain_requests lsp_queue.send rs t)), snd (drain_requests lsp_queue.send rs t))"
  by (induction rs arbitrary: t) (simp_all add: lsp_outgoing_send Let_def case_prod_beta)

lemma handshake_answered:
  "handshake_response (Inr v) t = (([EvReady], notification ''initialized'' (jobj []) # fst (lsp_queue.after_answer t)),
     snd (lsp_queue.after_answer t))"
proof -
  have "lsp_ready (lsp_release t)" by (simp add: lsp_release_def)
  then show ?thesis
    by (simp add: handshake_response_def lsp_outgoing_all_drain lsp_queue.after_answer_def
        lsp_queue.drain_send_ready Let_def case_prod_beta flip: lsp_release_def)
qed

text \<open>
  A request made before the server has finished its handshake is as good as one made after it:
  the messages, their order, the events and the state are those of hearing the server first.
\<close>

theorem lsp_handshake_loses_nothing:
  assumes "lt_state t = LsInitializing i"
  shows "lsp_run sf (map LspSend rs @ [LspHear (Response i v)]) t
    = lsp_run sf (LspHear (Response i v) # map LspSend rs) t"
proof -
  have held: "lt_state (snd (drain_requests lsp_queue.send rs t)) = LsInitializing i"
    using assms
  proof (induction rs arbitrary: t)
    case (Cons r rs)
    have h: "lt_state (lsp_hold r t) = LsInitializing i" using Cons.prems by (simp add: lsp_hold_def)
    from Cons.IH [OF this] show ?case
      using Cons.prems by (simp add: lsp_queue.send_def Let_def case_prod_beta)
  qed simp
  have "\<not> lsp_ready t" using assms by simp
  note late = lsp_queue.early_is_late [OF this, of rs] and none = lsp_queue.drain_send_held [OF this, of rs]
  show ?thesis
    using assms held late none
    by (simp add: lsp_run_append lsp_sends_drain lsp_response_def handshake_answered Let_def case_prod_beta)
qed

text \<open>For messages without floats their text does not matter.\<close>

definition no_floats :: "nat \<Rightarrow> utext" where
  "no_floats x = []"

lemma lsp_handshake_loses_nothing_witness:
  "lsp_run no_floats (map LspSend [RqDidSave [RootDir], RqShutdown] @ [LspHear (Response 1 JNull)]) greeted
     = lsp_run no_floats (LspHear (Response 1 JNull) # map LspSend [RqDidSave [RootDir], RqShutdown]) greeted"
  by (rule lsp_handshake_loses_nothing) (simp add: greeted_def)

section \<open>Answers\<close>

text \<open>Whom an event answers, and whether it is the answer a request asks for.\<close>

fun event_id :: "lsp_event \<Rightarrow> lsp_id option" where
  "event_id (EvDefinition i _) = Some i"
| "event_id (EvHover i _) = Some i"
| "event_id (EvCompletion i _) = Some i"
| "event_id (EvReferences i _) = Some i"
| "event_id (EvDocumentSymbols i _) = Some i"
| "event_id (EvWorkspaceSymbols i _) = Some i"
| "event_id (EvRename i _) = Some i"
| "event_id (EvCodeActions i _) = Some i"
| "event_id (EvFormatting i _) = Some i"
| "event_id (EvFailed i _) = i"
| "event_id _ = None"

definition asked_id :: "lsp_request \<Rightarrow> lsp_id option" where
  "asked_id r = map_option fst (tracked_of r)"

fun fits :: "lsp_event \<Rightarrow> pending_kind \<Rightarrow> bool" where
  "fits (EvDefinition _ _) k \<longleftrightarrow> k = PkDefinition"
| "fits (EvHover _ _) k \<longleftrightarrow> k = PkHover"
| "fits (EvCompletion _ items) k \<longleftrightarrow>
     (case k of PkCompletion p \<Rightarrow> \<forall>c\<in>set items. \<forall>e. ci_edit c = Some e \<longrightarrow> te_path e = p | _ \<Rightarrow> False)"
| "fits (EvReferences _ _) k \<longleftrightarrow> k = PkReferences"
| "fits (EvDocumentSymbols _ _) k \<longleftrightarrow> k = PkDocumentSymbols"
| "fits (EvWorkspaceSymbols _ _) k \<longleftrightarrow> k = PkWorkspaceSymbols"
| "fits (EvRename _ _) k \<longleftrightarrow> k = PkRename"
| "fits (EvCodeActions _ _) k \<longleftrightarrow> k = PkCodeActions"
| "fits (EvFormatting _ es) k \<longleftrightarrow> (case k of PkFormatting p \<Rightarrow> \<forall>e\<in>set es. te_path e = p | _ \<Rightarrow> False)"
| "fits (EvFailed _ f) k \<longleftrightarrow> lf_kind f = Server"
| "fits _ k \<longleftrightarrow> False"

definition answers :: "lsp_request \<Rightarrow> lsp_event \<Rightarrow> bool" where
  "answers r e \<longleftrightarrow> (case tracked_of r of
     Some (i, kind, _, _) \<Rightarrow> event_id e = Some i \<and> fits e kind | None \<Rightarrow> False)"

fun lsp_requests :: "lsp_traffic \<Rightarrow> lsp_request list" where
  "lsp_requests (LspSend r) = [r]"
| "lsp_requests (LspHear m) = []"

abbreviation requested :: "lsp_traffic list \<Rightarrow> lsp_request list" where
  "requested xs \<equiv> concat (map lsp_requests xs)"

text \<open>Ids as bags: those asked for by requests, those answered by events, those outstanding.\<close>

definition ids_asked :: "lsp_request list \<Rightarrow> lsp_id multiset" where
  "ids_asked rs = mset (List.map_filter asked_id rs)"

definition ids_answered :: "lsp_event list \<Rightarrow> lsp_id multiset" where
  "ids_answered es = mset (List.map_filter event_id es)"

definition ids_outstanding :: "lsp_translator \<Rightarrow> lsp_id multiset" where
  "ids_outstanding t = mset (List.map_filter (\<lambda>(_, p). lp_external_id p) (lt_pending t))"

lemma text_edit_path: "text_edit p v = Some e \<Longrightarrow> te_path e = p"
  by (auto simp: text_edit_def bind_eq_Some_iff)

lemma response_fits: "response_event i k r = Some e \<Longrightarrow> event_id e = Some i \<and> fits e k"
  by (cases k) (auto simp: completion_items_def completion_item_def text_edits_def map_filter_set
      bind_eq_Some_iff text_edit_path Let_def)

lemma ids_simps [simp]:
  "ids_asked [] = {#}" "ids_asked (rs @ qs) = ids_asked rs + ids_asked qs"
  "ids_asked (r # rs) = (case asked_id r of Some i \<Rightarrow> add_mset i (ids_asked rs) | None \<Rightarrow> ids_asked rs)"
  "ids_answered [] = {#}" "ids_answered (es @ fs) = ids_answered es + ids_answered fs"
  by (simp_all add: ids_asked_def ids_answered_def List.map_filter_def split: option.split)

subsection \<open>The books\<close>

text \<open>
  \<open>R\<close> are the requests made so far, \<open>q\<close> those of them still to be sent, \<open>es\<close> the events so far.  An id
  asked for once is found under its wire id as long as its answer is outstanding.
\<close>

definition lsp_books ::
    "lsp_request list \<Rightarrow> lsp_request list \<Rightarrow> lsp_event list \<Rightarrow> lsp_translator \<Rightarrow> bool" where
  "lsp_books R q es t \<longleftrightarrow>
     fresh_keys (lt_ids t) (lt_pending t) \<and> (\<forall>w\<in>set (lt_cancelled t). w \<le> lt_ids t)
     \<and> (\<forall>i w. map_of (lt_external_to_wire t) i = Some w \<longrightarrow> w \<le> lt_ids t)
     \<and> (\<forall>w p i. (w, p) \<in> set (lt_pending t) \<longrightarrow> lp_external_id p = Some i \<longrightarrow>
          (\<exists>r\<in>set R. \<exists>m v. tracked_of r = Some (i, lp_kind p, m, v))
          \<and> (count (ids_asked R) i \<le> 1 \<longrightarrow> map_of (lt_external_to_wire t) i = Some w))
     \<and> set q \<subseteq> set R
     \<and> ids_answered es + ids_outstanding t + ids_asked q \<subseteq># ids_asked R
     \<and> (\<forall>e\<in>set es. event_id e \<noteq> None \<longrightarrow> (\<exists>r\<in>set R. answers r e))"

lemma outstanding_member:
  "(w, p) \<in> set (lt_pending t) \<Longrightarrow> lp_external_id p = Some i \<Longrightarrow> i \<in># ids_outstanding t"
  by (force simp: ids_outstanding_def map_filter_set)

lemma books_tracked:
  assumes ok: "lsp_books R (r # q) es t" and r: "tracked_of r = Some (i, k, m, v)"
  shows "lsp_books R q es (snd (tracked_request i k m v t))"
proof -
  let ?p = "\<lparr>lp_external_id = Some i, lp_kind = k\<rparr>"
  let ?t = "snd (tracked_request i k m v t)"
  have f: "fresh_keys (lt_ids t) (lt_pending t)" using ok by (simp add: lsp_books_def)
  have t: "lt_ids ?t = Suc (lt_ids t)" "lt_pending ?t = lt_pending t @ [(Suc (lt_ids t), ?p)]"
    "lt_external_to_wire ?t = AList.update i (Suc (lt_ids t)) (lt_external_to_wire t)"
    "lt_cancelled ?t = lt_cancelled t"
    using f by (simp_all add: tracked_request_def allocate_def update_next)
  have out: "ids_outstanding ?t = add_mset i (ids_outstanding t)"
    by (simp add: ids_outstanding_def t List.map_filter_def)
  have law: "ids_answered es + ids_outstanding t + ({#i#} + ids_asked q) \<subseteq># ids_asked R"
    using ok r by (simp add: lsp_books_def asked_id_def)
  have fresh: "j \<noteq> i" if "(w, p) \<in> set (lt_pending t)" "lp_external_id p = Some j" "count (ids_asked R) j \<le> 1" for w p j
  proof
    assume "j = i"
    then have "count (ids_asked R) i \<ge> count (ids_outstanding t) i + 1"
      using mset_subset_eq_count [OF law, of i] by simp
    moreover have "0 < count (ids_outstanding t) i"
      using outstanding_member [OF that(1,2)] unfolding \<open>j = i\<close> by (simp only: count_greater_zero_iff)
    ultimately show False using that(3) unfolding \<open>j = i\<close> by linarith
  qed
  have pend: "(\<exists>r\<in>set R. \<exists>m v. tracked_of r = Some (j, lp_kind p, m, v))
      \<and> (count (ids_asked R) j \<le> 1 \<longrightarrow> map_of (lt_external_to_wire ?t) j = Some w)"
    if wp: "(w, p) \<in> set (lt_pending ?t)" "lp_external_id p = Some j" for w p j
  proof (cases "(w, p) \<in> set (lt_pending t)")
    case True
    have "map_of (lt_external_to_wire ?t) j = Some w" if "count (ids_asked R) j \<le> 1"
      using fresh [OF True wp(2) that] ok True wp(2) that unfolding lsp_books_def t(3) update_conv' by simp
    moreover have "\<exists>r\<in>set R. \<exists>m v. tracked_of r = Some (j, lp_kind p, m, v)"
      using ok True wp(2) unfolding lsp_books_def by blast
    ultimately show ?thesis by blast
  next
    case False
    then have "p = ?p" "w = Suc (lt_ids t)" "j = i" using wp by (auto simp: t(2))
    moreover have "r \<in> set R" using ok by (simp add: lsp_books_def)
    ultimately show ?thesis using r by (auto simp: t(3) update_conv')
  qed
  have "\<forall>w\<in>set (lt_cancelled ?t). w \<le> lt_ids ?t" using ok by (auto simp: lsp_books_def t)
  moreover have "\<forall>j w. map_of (lt_external_to_wire ?t) j = Some w \<longrightarrow> w \<le> lt_ids ?t"
    using ok by (fastforce simp: lsp_books_def t update_conv' split: if_splits)
  ultimately show ?thesis
    using ok law fresh_keys_snoc [OF f] pend
    unfolding lsp_books_def out by (simp add: t(1,2))
qed

lemma books_skip:
  "lsp_books R (r # q) es t \<Longrightarrow> tracked_of r = None \<Longrightarrow> lsp_books R q es t"
  by (simp add: lsp_books_def asked_id_def)

lemma books_cancel:
  assumes "lsp_books R q es t"
  shows "lsp_books R q es (snd (encode_lsp_cancel i t))"
proof (cases "map_of (lt_external_to_wire t) i")
  case None
  then show ?thesis using assms by (simp add: encode_lsp_cancel_def)
next
  case (Some w)
  let ?t = "t\<lparr>lt_cancelled := List.insert w (lt_cancelled t)\<rparr>"
  have "ids_outstanding ?t = ids_outstanding t" by (simp add: ids_outstanding_def)
  moreover have "w \<le> lt_ids t" using assms Some by (simp add: lsp_books_def)
  ultimately have "lsp_books R q es ?t" using assms unfolding lsp_books_def by simp
  then show ?thesis using Some by (simp add: encode_lsp_cancel_def)
qed

lemma books_shutdown:
  assumes ok: "lsp_books R q es t"
  shows "lsp_books R q es (snd (encode_lsp_shutdown t))"
proof -
  let ?p = "\<lparr>lp_external_id = None, lp_kind = PkShutdown\<rparr>"
  have f: "fresh_keys (lt_ids t) (lt_pending t)" using ok by (simp add: lsp_books_def)
  have t: "snd (encode_lsp_shutdown t) =
      t\<lparr>lt_ids := Suc (lt_ids t), lt_pending := lt_pending t @ [(Suc (lt_ids t), ?p)]\<rparr>"
    using f by (simp add: encode_lsp_shutdown_def allocate_def update_next)
  have "ids_outstanding (snd (encode_lsp_shutdown t)) = ids_outstanding t"
    by (simp add: ids_outstanding_def t List.map_filter_def)
  then show ?thesis
    using ok fresh_keys_snoc [OF f] unfolding lsp_books_def t
    by (auto intro: le_SucI)
qed

lemma books_encode:
  assumes ok: "lsp_books R (r # q) es t"
  shows "lsp_books R q es (snd (encode_ready r t))"
proof (cases "tracked_of r")
  case None
  then have skip: "lsp_books R q es t" by (rule books_skip [OF ok])
  show ?thesis
    using None skip books_cancel [OF skip] books_shutdown [OF skip]
    by (cases r) (simp_all add: encode_ready_def encode_request_def case_prod_beta)
next
  case (Some x)
  obtain i k m v where x: "x = (i, k, m, v)" by (cases x)
  have "snd (encode_ready r t) = snd (tracked_request i k m v t)"
    using Some x by (cases r) (simp_all add: encode_ready_def encode_request_def case_prod_beta)
  then show ?thesis using books_tracked [OF ok] Some x by simp
qed

lemma books_drain: "lsp_books R (rs @ q) es t \<Longrightarrow> lsp_books R q es (snd (drain_requests encode_ready rs t))"
  by (induction rs arbitrary: t) (simp_all add: Let_def case_prod_beta books_encode)

text \<open>An answer settles one id, whether it is reported or dropped.\<close>

lemma outstanding_delete:
  assumes "fresh_keys n (lt_pending t)" "map_of (lt_pending t) w = Some p"
  shows "ids_outstanding t = ids_outstanding (t\<lparr>lt_pending := AList.delete w (lt_pending t)\<rparr>)
    + (case lp_external_id p of Some i \<Rightarrow> {#i#} | None \<Rightarrow> {#})"
proof -
  have "add_mset (w, p) (mset (AList.delete w (lt_pending t))) = mset (lt_pending t)"
    using mset_delete [of "lt_pending t" w p id] assms by (simp add: fresh_keys_def)
  from arg_cong [OF this, of "\<lambda>M. image_mset (\<lambda>x. the (lp_external_id (snd x))) (filter_mset (\<lambda>x. lp_external_id (snd x) \<noteq> None) M)"]
  show ?thesis
    by (cases "lp_external_id p")
      (simp_all add: ids_outstanding_def List.map_filter_def comp_def case_prod_beta flip: mset_filter mset_map)
qed

lemma books_answer:
  assumes ok: "lsp_books R q es t" and w: "map_of (lt_pending t) w = Some p"
    and i: "lp_external_id p = Some i"
    and es': "es' = [] \<or> (\<exists>e. es' = [e] \<and> event_id e = Some i \<and> fits e (lp_kind p))"
    and c: "set c \<subseteq> set (lt_cancelled t)"
  shows "lsp_books R q (es @ es') (t\<lparr>lt_pending := AList.delete w (lt_pending t),
    lt_external_to_wire := AList.delete i (lt_external_to_wire t), lt_cancelled := c\<rparr>)"
proof -
  let ?u = "t\<lparr>lt_pending := AList.delete w (lt_pending t)\<rparr>"
  let ?t = "?u\<lparr>lt_external_to_wire := AList.delete i (lt_external_to_wire t), lt_cancelled := c\<rparr>"
  have f: "fresh_keys (lt_ids t) (lt_pending t)" using ok by (simp add: lsp_books_def)
  have mem: "(w, p) \<in> set (lt_pending t)" using w by (rule map_of_SomeD)
  have law: "ids_answered es + ids_outstanding t + ids_asked q \<subseteq># ids_asked R"
    using ok by (simp add: lsp_books_def)
  have out: "ids_outstanding t = add_mset i (ids_outstanding ?u)" "ids_outstanding ?t = ids_outstanding ?u"
    using outstanding_delete [OF f w] i by (simp_all add: ids_outstanding_def)
  have ids': "ids_answered es' \<subseteq># {#i#}"
    using es' by (auto simp: ids_answered_def List.map_filter_def)
  have "ids_answered es + ids_answered es' + ids_outstanding ?u + ids_asked q
      \<subseteq># ids_answered es + ids_outstanding t + ids_asked q"
    using ids' unfolding out(1) by (simp add: add.assoc add.left_commute [of _ "ids_answered es'"])
  from subset_mset.order_trans [OF this law]
  have law': "ids_answered (es @ es') + ids_outstanding ?t + ids_asked q \<subseteq># ids_asked R"
    by (simp only: ids_simps out(2))
  have other: "j \<noteq> i" if "(w', p') \<in> set (lt_pending ?u)" "lp_external_id p' = Some j" "count (ids_asked R) j \<le> 1" for w' p' j
  proof
    assume "j = i"
    have "0 < count (ids_outstanding ?u) i"
      using outstanding_member [OF that(1,2)] unfolding \<open>j = i\<close> by (simp only: count_greater_zero_iff)
    then have "2 \<le> count (ids_outstanding t) i" unfolding out(1) by simp
    moreover have "count (ids_outstanding t) i \<le> count (ids_asked R) i"
      using mset_subset_eq_count [OF law, of i] by simp
    ultimately show False using that(3) unfolding \<open>j = i\<close> by linarith
  qed
  have pend: "(\<exists>r\<in>set R. \<exists>m v. tracked_of r = Some (j, lp_kind p', m, v))
      \<and> (count (ids_asked R) j \<le> 1 \<longrightarrow> map_of (lt_external_to_wire ?t) j = Some w')"
    if "(w', p') \<in> set (lt_pending ?t)" "lp_external_id p' = Some j" for w' p' j
    using that ok other [of w' p' j] by (auto simp: lsp_books_def set_delete delete_conv simp del: AList.delete_eq)
  obtain r m v where "r \<in> set R" "tracked_of r = Some (i, lp_kind p, m, v)"
    using ok mem i unfolding lsp_books_def by blast
  then have "\<forall>e\<in>set es'. event_id e \<noteq> None \<longrightarrow> (\<exists>r\<in>set R. answers r e)"
    using es' by (auto simp: answers_def intro!: bexI [of _ r])
  moreover have "\<forall>j w'. map_of (lt_external_to_wire ?t) j = Some w' \<longrightarrow> w' \<le> lt_ids ?t"
    using ok by (auto simp: lsp_books_def delete_conv simp del: AList.delete_eq split: if_splits)
  ultimately show ?thesis
    using ok law' pend c fresh_keys_delete [OF f, of w]
    unfolding lsp_books_def by (simp del: AList.delete_eq ids_simps(5)) blast
qed

lemma books_shutdown_answer:
  assumes ok: "lsp_books R q es t" and w: "map_of (lt_pending t) w = Some p" and i: "lp_external_id p = None"
    and c: "set c \<subseteq> set (lt_cancelled t)"
  shows "lsp_books R q es (t\<lparr>lt_pending := AList.delete w (lt_pending t), lt_cancelled := c\<rparr>)"
proof -
  let ?t = "t\<lparr>lt_pending := AList.delete w (lt_pending t), lt_cancelled := c\<rparr>"
  have f: "fresh_keys (lt_ids t) (lt_pending t)" using ok by (simp add: lsp_books_def)
  have "ids_outstanding ?t = ids_outstanding t"
    using outstanding_delete [OF f w] i by (simp add: ids_outstanding_def)
  then show ?thesis
    using ok c fresh_keys_delete [OF f, of w]
    unfolding lsp_books_def by (simp add: set_delete del: AList.delete_eq) blast
qed

lemma books_more:
  assumes "lsp_books R q es t"
  shows "lsp_books (R @ [r]) (q @ [r]) es t"
proof -
  have "count (ids_asked R) i \<le> 1" if "count (ids_asked (R @ [r])) i \<le> 1" for i
    using that by simp
  moreover have "ids_answered es + ids_outstanding t + ids_asked (q @ [r]) \<subseteq># ids_asked (R @ [r])"
    using assms unfolding lsp_books_def ids_simps(2) add.assoc [symmetric] by (blast intro: subset_mset.add_right_mono)
  ultimately show ?thesis
    using assms unfolding lsp_books_def set_append by blast
qed

lemma books_quiet:
  assumes "lsp_books R q es t" and "\<forall>e\<in>set es'. event_id e = None"
    and "lt_ids u = lt_ids t" "lt_pending u = lt_pending t" "lt_cancelled u = lt_cancelled t"
      "lt_external_to_wire u = lt_external_to_wire t"
  shows "lsp_books R q (es @ es') u"
proof -
  have "List.map_filter event_id es' = []" using assms(2) by (simp add: List.map_filter_def)
  then have "ids_answered es' = {#}" by (simp add: ids_answered_def)
  moreover have "ids_outstanding u = ids_outstanding t" by (simp add: ids_outstanding_def assms)
  ultimately show ?thesis using assms unfolding lsp_books_def by auto
qed

definition lsp_inv :: "lsp_request list \<Rightarrow> lsp_event list \<Rightarrow> lsp_translator \<Rightarrow> bool" where
  "lsp_inv R es t \<longleftrightarrow> lsp_books R (lt_queued t) es t
     \<and> (if lsp_ready t then lt_queued t = [] else lt_pending t = [])"

lemma encode_ready_queued [simp]: "lt_queued (snd (encode_ready r t)) = lt_queued t"
  by (cases r) (simp_all add: encode_ready_def encode_request_def tracked_request_def encode_lsp_cancel_def
      encode_lsp_shutdown_def allocate_def Let_def case_prod_beta split: option.split)

lemma drain_queued: "lt_queued (snd (drain_requests encode_ready rs t)) = lt_queued t"
  by (induction rs arbitrary: t) (simp_all add: Let_def case_prod_beta)

lemma inv_send:
  assumes "lsp_inv R es t"
  shows "lsp_inv (R @ [r]) es (snd (lsp_outgoing r t))"
proof (cases "lsp_ready t")
  case True
  then have "lsp_books (R @ [r]) (r # []) es t" using assms books_more by (fastforce simp: lsp_inv_def)
  from books_encode [OF this] True assms show ?thesis by (simp add: lsp_inv_def lsp_outgoing_def)
next
  case False
  have "lsp_books (R @ [r]) (lt_queued t @ [r]) es t" using assms books_more by (simp add: lsp_inv_def)
  from books_quiet [OF this, of "[]" "t\<lparr>lt_queued := lt_queued t @ [r]\<rparr>"] show ?thesis
    using False assms by (simp add: lsp_inv_def lsp_outgoing_def)
qed

lemma inv_handshake:
  assumes ok: "lsp_inv R es t" and "\<not> lsp_ready t" and h: "handshake_response v t = ((es', ms), t')"
  shows "lsp_inv R (es @ es') t'"
proof (cases v)
  case (Inl e)
  then show ?thesis
    using assms books_quiet [of R "lt_queued t" es t es' t']
    by (auto simp: handshake_response_def lsp_inv_def split: prod.splits)
next
  case (Inr r)
  let ?u = "lsp_release t"
  have "lsp_books R (lt_queued t) (es @ [EvReady]) ?u"
    using ok by (intro books_quiet) (auto simp: lsp_inv_def lsp_release_def)
  then have "lsp_books R [] (es @ [EvReady]) (snd (drain_requests encode_ready (lt_queued t) ?u))"
    using books_drain [of R "lt_queued t" "[]"] by simp
  moreover have "lsp_ready (snd (drain_requests encode_ready (lt_queued t) ?u))"
    by (rule lsp_queue.drain_ready) (simp add: lsp_release_def)
  moreover have queued: "lt_queued (snd (drain_requests encode_ready (lt_queued t) ?u)) = []"
    by (simp add: drain_queued lsp_release_def)
  ultimately show ?thesis
    using h Inr by (auto simp: handshake_answered lsp_queue.after_answer_def lsp_inv_def)
qed

lemma inv_response:
  assumes ok: "lsp_inv R es t" and r: "lsp_response w v t = ((es', ms), t')"
  shows "lsp_inv R (es @ es') t'"
proof (cases "lt_state t = LsInitializing w")
  case True
  then show ?thesis using inv_handshake [OF ok] r by (simp add: lsp_response_def)
next
  case False
  show ?thesis
  proof (cases "map_of (lt_pending t) w")
    case None
    then show ?thesis using ok r False by (simp add: lsp_response_def)
  next
    case (Some p)
    then have ready: "lsp_ready t" "lt_queued t = []" and b: "lsp_books R [] es t"
      using ok by (auto simp: lsp_inv_def split: if_splits)
    have c: "set (removeAll w (lt_cancelled t)) \<subseteq> set (lt_cancelled t)" by auto
    show ?thesis
    proof (cases "lp_external_id p")
      case None
      then have "es' = [] \<and> t' = t\<lparr>lt_pending := AList.delete w (lt_pending t),
          lt_cancelled := removeAll w (lt_cancelled t)\<rparr>"
        using r False Some by (auto simp: lsp_response_def Let_def simp del: AList.delete_eq split: if_splits)
      then show ?thesis using books_shutdown_answer [OF b Some None c] ready by (simp add: lsp_inv_def)
    next
      case (Some i)
      have "(es' = [] \<or> (\<exists>e. es' = [e] \<and> event_id e = Some i \<and> fits e (lp_kind p)))
          \<and> t' = t\<lparr>lt_pending := AList.delete w (lt_pending t),
            lt_external_to_wire := AList.delete i (lt_external_to_wire t),
            lt_cancelled := removeAll w (lt_cancelled t)\<rparr>"
        using r False \<open>map_of (lt_pending t) w = Some p\<close> Some
        by (auto simp: lsp_response_def Let_def response_fits simp del: AList.delete_eq
            split: if_splits sum.splits option.splits)
      then show ?thesis
        using books_answer [OF b \<open>map_of (lt_pending t) w = Some p\<close> Some _ c] ready by (auto simp: lsp_inv_def)
    qed
  qed
qed

lemma inv_notification:
  assumes ok: "lsp_inv R es t" and n: "notification_events sf meth params t = (es', t')"
  shows "lsp_inv R (es @ es') t'"
proof -
  have "(\<forall>e\<in>set es'. event_id e = None) \<and> (\<exists>a. t' = t\<lparr>lt_active_progress := a\<rparr>)"
    using n by (auto simp: notification_events_def progress_events_def parse_diagnostics_def parse_progress_def
        parse_jdt_language_status_def Let_def bind_eq_Some_iff split: if_splits option.splits
        intro: exI [of _ "lt_active_progress t"])
  then obtain a where "\<forall>e\<in>set es'. event_id e = None" "t' = t\<lparr>lt_active_progress := a\<rparr>" by blast
  then show ?thesis
    using ok books_quiet [of R "lt_queued t" es t es' t'] by (simp add: lsp_inv_def)
qed

lemma inv_step:
  assumes ok: "lsp_inv R es t" and x: "lsp_step sf x t = ((es', ms), t')"
  shows "lsp_inv (R @ lsp_requests x) (es @ es') t'"
proof (cases x)
  case (LspSend r)
  then show ?thesis using x inv_send [OF ok, of r] by (simp add: case_prod_beta)
next
  case (LspHear m)
  then show ?thesis
    using x ok inv_response [OF ok] inv_notification [OF ok]
    by (cases m) (auto split: prod.splits)
qed

lemma inv_run:
  "lsp_inv R es t \<Longrightarrow> lsp_run sf xs t = ((es', ms), t') \<Longrightarrow> lsp_inv (R @ requested xs) (es @ es') t'"
proof (induction xs arbitrary: R es t es' ms)
  case (Cons x xs)
  obtain es1 ms1 u where u: "lsp_step sf x t = ((es1, ms1), u)" by (metis surj_pair)
  obtain es2 ms2 where v: "lsp_run sf xs u = ((es2, ms2), t')" and es: "es' = es1 @ es2"
    using Cons.prems(2) u by (auto split: prod.splits)
  from Cons.IH [OF inv_step [OF Cons.prems(1) u] v] show ?case using es by simp
qed simp

lemma inv_greeted: "lsp_inv [] [] greeted"
  by (simp add: lsp_inv_def lsp_books_def greeted_def lsp_translator_new_def ids_outstanding_def List.map_filter_def)

text \<open>
  C12. Every answer is the answer to a question, and of its kind.  After any exchange with the server each
  event that carries an id answers a request that was made with that id and has the shape that
  request asks for, down to the file its edits are for; and no request is answered more than once.
\<close>

theorem answers_fit_requests:
  assumes "lsp_run sf xs greeted = ((es, ms), t)"
  shows "(\<forall>e\<in>set es. event_id e \<noteq> None \<longrightarrow> (\<exists>r\<in>set (requested xs). answers r e))
    \<and> ids_answered es \<subseteq># ids_asked (requested xs)"
proof -
  have "lsp_books (requested xs) (lt_queued t) es t"
    using inv_run [OF inv_greeted assms] by (simp add: lsp_inv_def)
  then have *: "\<forall>e\<in>set es. event_id e \<noteq> None \<longrightarrow> (\<exists>r\<in>set (requested xs). answers r e)"
    and "ids_answered es + (ids_outstanding t + ids_asked (lt_queued t)) \<subseteq># ids_asked (requested xs)"
    by (simp_all add: lsp_books_def add.assoc)
  from subset_mset.order_trans [OF mset_subset_eq_add_left this(2)] * show ?thesis by blast
qed

section \<open>Cancelling\<close>

text \<open>No answer to the id can come out any more.\<close>

definition silenced :: "lsp_id \<Rightarrow> lsp_translator \<Rightarrow> bool" where
  "silenced i t \<longleftrightarrow> (\<forall>w p. (w, p) \<in> set (lt_pending t) \<longrightarrow> lp_external_id p = Some i \<longrightarrow> w \<in> set (lt_cancelled t))"

lemma cancel_silences:
  assumes "lsp_books R q es t" "count (ids_asked R) i \<le> 1"
  shows "silenced i (snd (encode_lsp_cancel i t))"
proof -
  have "map_of (lt_external_to_wire t) i = Some w" if "(w, p) \<in> set (lt_pending t)" "lp_external_id p = Some i" for w p
    using assms that unfolding lsp_books_def by blast
  then show ?thesis
    by (cases "map_of (lt_external_to_wire t) i") (auto simp: silenced_def encode_lsp_cancel_def)
qed

lemma silenced_encode:
  assumes "silenced i t" "fresh_keys (lt_ids t) (lt_pending t)" "asked_id r \<noteq> Some i"
  shows "silenced i (snd (encode_ready r t))"
proof (cases "tracked_of r")
  case None
  then show ?thesis
    using assms by (cases r) (auto simp: encode_ready_def encode_request_def encode_lsp_cancel_def
        encode_lsp_shutdown_def allocate_def silenced_def update_next split: option.split)
next
  case (Some x)
  obtain j k m v where x: "x = (j, k, m, v)" by (cases x)
  have "snd (encode_ready r t) = snd (tracked_request j k m v t)"
    using Some x by (cases r) (simp_all add: encode_ready_def encode_request_def case_prod_beta)
  then show ?thesis
    using assms Some x by (auto simp: tracked_request_def allocate_def silenced_def asked_id_def update_next)
qed

lemma silenced_response:
  assumes "silenced i t" "lsp_ready t" "fresh_keys (lt_ids t) (lt_pending t)" "lsp_response w v t = ((es, ms), t')"
  shows "silenced i t' \<and> (\<forall>e\<in>set es. event_id e \<noteq> Some i)"
proof (cases "map_of (lt_pending t) w")
  case None
  then show ?thesis using assms by (simp add: lsp_response_def)
next
  case (Some p)
  have "silenced i (t\<lparr>lt_pending := AList.delete w (lt_pending t), lt_cancelled := removeAll w (lt_cancelled t)\<rparr>)"
    using assms(1) unfolding silenced_def by (auto simp: set_delete simp del: AList.delete_eq)
  moreover have "w \<in> set (lt_cancelled t)" if "lp_external_id p = Some i"
    using assms(1) map_of_SomeD [OF Some] that by (auto simp: silenced_def)
  ultimately show ?thesis
    using assms(2,4) Some
    by (auto simp: lsp_response_def silenced_def Let_def removeAll_id simp del: AList.delete_eq
        split: if_splits option.splits sum.splits dest!: response_fits)
qed

lemma silenced_run:
  assumes "lsp_inv R es0 t" "lsp_ready t" "silenced i t" "i \<notin># ids_asked (requested xs)"
    and "lsp_run sf xs t = ((es, ms), t')"
  shows "\<forall>e\<in>set es. event_id e \<noteq> Some i"
  using assms
proof (induction xs arbitrary: R es0 t es ms)
  case (Cons x xs)
  obtain es1 ms1 u where u: "lsp_step sf x t = ((es1, ms1), u)" by (metis surj_pair)
  obtain es2 ms2 where v: "lsp_run sf xs u = ((es2, ms2), t')" and es: "es = es1 @ es2"
    using Cons.prems(5) u by (auto split: prod.splits)
  have f: "fresh_keys (lt_ids t) (lt_pending t)" using Cons.prems(1) by (simp add: lsp_inv_def lsp_books_def)
  have "lsp_ready u \<and> silenced i u \<and> (\<forall>e\<in>set es1. event_id e \<noteq> Some i)"
  proof (cases x)
    case (LspSend r)
    then have "u = snd (encode_ready r t)" "es1 = []"
      using u Cons.prems(2) by (auto simp: lsp_outgoing_def split: prod.splits)
    moreover have "asked_id r \<noteq> Some i" using Cons.prems(4) LspSend by (auto split: option.splits)
    ultimately show ?thesis using silenced_encode [OF Cons.prems(3) f] Cons.prems(2) by simp
  next
    case (LspHear m)
    show ?thesis
    proof (cases m)
      case (Request j meth params)
      then show ?thesis using u LspHear Cons.prems(2,3) by auto
    next
      case (Notification meth params)
      then show ?thesis
        using u LspHear Cons.prems(2,3)
        by (auto simp: notification_events_def progress_events_def parse_diagnostics_def parse_progress_def
            parse_jdt_language_status_def silenced_def Let_def bind_eq_Some_iff split: if_splits option.splits prod.splits)
    next
      case (Response j v)
      then have r: "lsp_response j (Inr v) t = ((es1, ms1), u)" using u LspHear by simp
      have "lsp_ready u" using r Cons.prems(2)
        by (auto simp: lsp_response_def Let_def split: option.splits if_splits)
      then show ?thesis using silenced_response [OF Cons.prems(3,2) f r] by blast
    next
      case (Error j c msg)
      then have r: "lsp_response j (Inl (c, msg)) t = ((es1, ms1), u)" using u LspHear by simp
      have "lsp_ready u" using r Cons.prems(2)
        by (auto simp: lsp_response_def Let_def split: option.splits if_splits)
      then show ?thesis using silenced_response [OF Cons.prems(3,2) f r] by blast
    qed
  qed
  moreover have "i \<notin># ids_asked (requested xs)" using Cons.prems(4) by simp
  ultimately show ?case using Cons.IH [OF inv_step [OF Cons.prems(1) u] _ _ _ v] es by auto
qed simp

text \<open>
  C13. A cancelled request is never answered.  Once the handshake is done, cancelling a request whose id
  was used once silences it for good: whatever the server and the editor do next, answer already
  on its way included, no event carries that id again unless it is asked for anew.
\<close>

theorem cancelled_stays_silent:
  assumes "lsp_run sf xs greeted = ((es0, ms0), t)" and "lsp_ready t"
    and "count (ids_asked (requested xs)) i \<le> 1" and "i \<notin># ids_asked (requested ys)"
    and "lsp_run sf (LspSend (RqCancel i) # ys) t = ((es, ms), t')"
  shows "\<forall>e\<in>set es. event_id e \<noteq> Some i"
proof -
  have inv: "lsp_inv (requested xs) es0 t" using inv_run [OF inv_greeted assms(1)] by simp
  have out: "lsp_outgoing (RqCancel i) t = (fst (lsp_outgoing (RqCancel i) t), snd (encode_lsp_cancel i t))"
    using assms(2) by (simp add: lsp_outgoing_def encode_ready_def encode_request_def case_prod_beta)
  then obtain ms2 where run: "lsp_run sf ys (snd (encode_lsp_cancel i t)) = ((es, ms2), t')"
    using assms(5) by (auto split: prod.splits)
  have "lsp_books (requested xs) (lt_queued t) es0 t" using inv by (simp add: lsp_inv_def)
  from cancel_silences [OF this assms(3)] have "silenced i (snd (encode_lsp_cancel i t))" .
  moreover have "lsp_inv (requested xs @ [RqCancel i]) es0 (snd (encode_lsp_cancel i t))"
    using inv_send [OF inv, of "RqCancel i"] out by (metis snd_conv)
  moreover have "lsp_ready (snd (encode_lsp_cancel i t))"
    using assms(2) by (simp add: encode_lsp_cancel_def split: option.split)
  ultimately show ?thesis using silenced_run [OF _ _ _ assms(4) run] by blast
qed

lemma cancelled_stays_silent_witness:
  "Some 7 \<notin> event_id ` set (fst (fst (lsp_run no_floats (LspSend (RqCancel 7) # [LspHear (Response 2 JNull)])
      (snd (lsp_run no_floats [LspHear (Response 1 JNull), LspSend (RqDocumentSymbols 7 [RootDir])] greeted)))))"
proof -
  let ?xs = "[LspHear (Response 1 JNull), LspSend (RqDocumentSymbols 7 [RootDir])]"
  let ?a = "lsp_run no_floats ?xs greeted"
  let ?b = "lsp_run no_floats (LspSend (RqCancel 7) # [LspHear (Response 2 JNull)]) (snd ?a)"
  have "lsp_ready (snd ?a)"
    by (simp add: greeted_def lsp_translator_new_def lsp_response_def handshake_response_def lsp_outgoing_def
        encode_ready_def encode_request_def tracked_request_def allocate_def)
  from cancelled_stays_silent [of no_floats ?xs "fst (fst ?a)" "snd (fst ?a)" "snd ?a" 7 "[LspHear (Response 2 JNull)]"
      "fst (fst ?b)" "snd (fst ?b)" "snd ?b", OF _ this]
  have "\<forall>e\<in>set (fst (fst ?b)). event_id e \<noteq> Some 7" by (simp add: asked_id_def del: lsp_run.simps)
  then show ?thesis by auto
qed

lemma answers_fit_requests_witness:
  "ids_answered (fst (fst (lsp_run no_floats [LspSend (RqHover 3 [RootDir] \<lparr>pos_line = 0, pos_character = 0\<rparr>),
     LspHear (Response 1 JNull), LspHear (Response 2 JNull), LspHear (Response 2 JNull)] greeted))) \<subseteq># {#3#}"
proof -
  let ?xs = "[LspSend (RqHover 3 [RootDir] \<lparr>pos_line = 0, pos_character = 0\<rparr>),
     LspHear (Response 1 JNull), LspHear (Response 2 JNull), LspHear (Response 2 JNull)]"
  let ?a = "lsp_run no_floats ?xs greeted"
  from answers_fit_requests [of no_floats ?xs "fst (fst ?a)" "snd (fst ?a)" "snd ?a"]
  show ?thesis by (simp add: asked_id_def del: lsp_run.simps)
qed

end
