(* ===== verification/Lsp_Session.thy ===== *)
theory Lsp_Session
  imports Lsp_Claims Framing
begin

text \<open>
  The process transport and its supervision, \<open>crates/lsp/src/session.rs\<close>.  A connection owns a
  translator, a frame reader and the server's input, and takes work from the inbox of the session;
  the supervisor starts one connection per generation of the server.  The inbox is the list of what
  has arrived so far, a connection that has used it up waits.  Pipes and processes are the system's:
  \<open>lw_accepts\<close> says whether the server takes a frame after those it has taken, \<open>se_respawn\<close> whether a
  restart fails, \<open>se_exit_code\<close> how a process ended.  Lines of the server's standard error go through
  \<open>push_log\<close> as decoding errors do, from a thread of their own.
\<close>

section \<open>State\<close>

definition stderr_lines :: nat where "stderr_lines = 200"
definition max_restarts :: nat where "max_restarts = 3"

datatype lsp_work = ServerRequest lsp_request | ServerBytes nat bytes | ServerGone nat

datatype connection_end = EndShutdown | EndHandshakeFailed | EndDisconnected

record lsp_wire =
  lw_to_vec :: "json \<Rightarrow> bytes"
  lw_from_slice :: "bytes \<Rightarrow> json option"
  lw_from_str :: "utext \<Rightarrow> utext + json"
  lw_show_float :: "nat \<Rightarrow> utext"
  lw_show_json :: "json \<Rightarrow> utext"
  lw_accepts :: "nat \<Rightarrow> bytes list \<Rightarrow> bytes \<Rightarrow> bool"

record lsp_connection =
  lc_translator :: lsp_translator
  lc_frames :: frame_reader
  lc_written :: "bytes list"
  lc_events :: "lsp_event list"
  lc_log :: "utext list"
  lc_end :: "connection_end option"

definition push_log :: "utext \<Rightarrow> utext list \<Rightarrow> utext list" where
  "push_log line log = (if length log = stderr_lines then drop 1 log else log) @ [line]"

definition lsp_failed :: "lsp_failure_kind \<Rightarrow> utext \<Rightarrow> lsp_event" where
  "lsp_failed kind msg = EvFailed None \<lparr>lf_kind = kind, lf_message = msg\<rparr>"

fun lsp_decode_error_fmt :: "lsp_decode_error \<Rightarrow> utext" where
  "lsp_decode_error_fmt (LspMalformed v) = ustr ''not a JSON-RPC message: '' @ v"

section \<open>A connection\<close>

definition write_message :: "lsp_wire \<Rightarrow> nat \<Rightarrow> rpc_message \<Rightarrow> bytes list \<Rightarrow> bytes list option" where
  "write_message wire gen m written =
     (let frame = encode_frame (lw_to_vec wire) (encode_value m) in
      if lw_accepts wire gen written frame then Some (written @ [frame]) else None)"

definition hear_events :: "lsp_event list \<Rightarrow> lsp_connection \<Rightarrow> lsp_connection" where
  "hear_events es c = c\<lparr>lc_events := lc_events c @ es\<rparr>"

definition end_with :: "connection_end \<Rightarrow> lsp_connection \<Rightarrow> lsp_connection" where
  "end_with e c = c\<lparr>lc_end := Some e\<rparr>"

fun write_all :: "lsp_wire \<Rightarrow> nat \<Rightarrow> rpc_message list \<Rightarrow> lsp_connection \<Rightarrow> lsp_connection" where
  "write_all wire gen [] c = c"
| "write_all wire gen (m # ms) c =
     (case write_message wire gen m (lc_written c) of
        Some written \<Rightarrow> write_all wire gen ms (c\<lparr>lc_written := written\<rparr>)
      | None \<Rightarrow> end_with EndDisconnected
          (hear_events [lsp_failed Transport (ustr ''language server stopped listening'')] c))"

text \<open>On the way out a message that cannot be written is let go.\<close>

fun write_anyway :: "lsp_wire \<Rightarrow> nat \<Rightarrow> rpc_message list \<Rightarrow> bytes list \<Rightarrow> bytes list" where
  "write_anyway wire gen [] written = written"
| "write_anyway wire gen (m # ms) written =
     write_anyway wire gen ms (case write_message wire gen m written of Some w \<Rightarrow> w | None \<Rightarrow> written)"

definition handshake_failure :: "lsp_event \<Rightarrow> bool" where
  "handshake_failure e = (case e of EvFailed _ f \<Rightarrow> lf_kind f = Handshake | _ \<Rightarrow> False)"

definition take_value :: "lsp_wire \<Rightarrow> nat \<Rightarrow> json \<Rightarrow> lsp_connection \<Rightarrow> lsp_connection" where
  "take_value wire gen v c =
     (case lsp_decode (lw_show_json wire) v of
        Inl error \<Rightarrow> c\<lparr>lc_log := push_log (lsp_decode_error_fmt error) (lc_log c)\<rparr>
      | Inr m \<Rightarrow>
          (let ((es, replies), t) = lsp_incoming (lw_show_float wire) m (lc_translator c);
               c = write_all wire gen replies (hear_events es (c\<lparr>lc_translator := t\<rparr>)) in
           if lc_end c = None \<and> list_ex handshake_failure es then end_with EndHandshakeFailed c else c))"

function take_frames :: "lsp_wire \<Rightarrow> nat \<Rightarrow> frame_reader \<Rightarrow> lsp_connection \<Rightarrow> lsp_connection" where
  "take_frames wire gen r c =
     (case next_frame (lw_from_slice wire) r of
        (None, r) \<Rightarrow> c\<lparr>lc_frames := r\<rparr>
      | (Some v, r) \<Rightarrow>
          (let c = take_value wire gen v c in
           if lc_end c = None then take_frames wire gen r c else c))"
  by pat_completeness auto

termination
  by (relation "measure (\<lambda>(_, _, r, _). length (fr_buffer r))") (auto dest: next_frame_shorter [OF sym])

declare take_frames.simps [simp del]

definition connection_step :: "lsp_wire \<Rightarrow> nat \<Rightarrow> lsp_work \<Rightarrow> lsp_connection \<Rightarrow> lsp_connection" where
  "connection_step wire gen work c =
     (case work of
        ServerRequest request \<Rightarrow>
          (let (ms, t) = lsp_outgoing request (lc_translator c) in
           if request = RqShutdown
           then end_with EndShutdown (c\<lparr>lc_translator := t, lc_written :=
               write_anyway wire gen (ms @ [Notification (ustr ''exit'') JNull]) (lc_written c)\<rparr>)
           else write_all wire gen ms (c\<lparr>lc_translator := t\<rparr>))
      | ServerBytes incoming bs \<Rightarrow>
          if incoming = gen then take_frames wire gen (push bs (lc_frames c)) c else c
      | ServerGone incoming \<Rightarrow> if incoming = gen then end_with EndDisconnected c else c)"

fun serve :: "lsp_wire \<Rightarrow> nat \<Rightarrow> lsp_work list \<Rightarrow> lsp_connection \<Rightarrow> lsp_connection \<times> lsp_work list" where
  "serve wire gen [] c = (c, [])"
| "serve wire gen (x # xs) c =
     (if lc_end c = None then serve wire gen xs (connection_step wire gen x c) else (c, x # xs))"

definition connection_start ::
    "lsp_wire \<Rightarrow> nat \<Rightarrow> path \<Rightarrow> utext option \<Rightarrow> utext list \<Rightarrow> lsp_connection" where
  "connection_start wire gen root options log =
     (let (hello, t) = initialize_with (lw_from_str wire) root options lsp_translator_new;
          c = \<lparr>lc_translator = t, lc_frames = reader_new, lc_written = [], lc_events = [], lc_log = log,
               lc_end = None\<rparr> in
      case hello of
        Inl failure \<Rightarrow> end_with EndHandshakeFailed (hear_events [EvFailed None failure] c)
      | Inr m \<Rightarrow>
          (case write_message wire gen m [] of
             Some written \<Rightarrow> c\<lparr>lc_written := written\<rparr>
           | None \<Rightarrow> end_with EndDisconnected
               (hear_events [lsp_failed Transport (ustr ''could not reach language server'')] c)))"

text \<open>A closed inbox that is used up ends the connection, an open one lets it wait.\<close>

definition run_connection ::
    "lsp_wire \<Rightarrow> nat \<Rightarrow> path \<Rightarrow> utext option \<Rightarrow> bool \<Rightarrow> lsp_work list \<Rightarrow> utext list
      \<Rightarrow> lsp_connection \<times> lsp_work list" where
  "run_connection wire gen root options closed inbox log =
     (let (c, rest) = serve wire gen inbox (connection_start wire gen root options log) in
      (if lc_end c = None \<and> closed then end_with EndShutdown c else c, rest))"

section \<open>Supervision\<close>

record server_env =
  se_wire :: lsp_wire
  se_exit_code :: "nat \<Rightarrow> int option"
  se_respawn :: "nat \<Rightarrow> utext option"

record supervision =
  sv_events :: "lsp_event list"
  sv_starts :: nat
  sv_sleeps :: "nat list"
  sv_log :: "utext list"
  sv_stopped :: bool

definition report :: "lsp_event list \<Rightarrow> supervision \<Rightarrow> supervision" where
  "report es s = s\<lparr>sv_events := sv_events s @ es\<rparr>"

text \<open>
  One turn of the supervisor's loop.  The supervisor keeps a sender of its own inbox, so the inbox is
  never closed.
\<close>

function supervise ::
    "server_env \<Rightarrow> path \<Rightarrow> utext option \<Rightarrow> nat \<Rightarrow> nat \<Rightarrow> lsp_work list \<Rightarrow> supervision \<Rightarrow> supervision" where
  "supervise env root options gen restarts inbox s =
     (let s = report [EvStarted] (s\<lparr>sv_starts := sv_starts s + 1\<rparr>);
          (c, inbox) = run_connection (se_wire env) gen root options False inbox (sv_log s);
          s = report (lc_events c) (s\<lparr>sv_log := lc_log c\<rparr>) in
      case lc_end c of
        None \<Rightarrow> s
      | Some EndShutdown \<Rightarrow> s\<lparr>sv_stopped := True\<rparr>
      | Some EndHandshakeFailed \<Rightarrow> s\<lparr>sv_stopped := True\<rparr>
      | Some EndDisconnected \<Rightarrow>
          (let s = report [EvExited (se_exit_code env gen)] s in
           if max_restarts \<le> restarts
           then (report [EvUnavailable
               (ustr ''language server exited repeatedly; automatic restart stopped'')] s)\<lparr>sv_stopped := True\<rparr>
           else
             (let s = s\<lparr>sv_sleeps := sv_sleeps s @ [50 * 2 ^ restarts]\<rparr> in
              case se_respawn env (gen + 1) of
                Some error \<Rightarrow>
                  (report [lsp_failed Transport (ustr ''could not restart server: '' @ error)] s)\<lparr>sv_stopped := True\<rparr>
              | None \<Rightarrow> supervise env root options (gen + 1) (restarts + 1) inbox s)))"
  by pat_completeness auto

termination
  by (relation "measure (\<lambda>(_, _, _, _, restarts, _, _). max_restarts - restarts)") auto

declare supervise.simps [simp del]

definition supervise_session ::
    "server_env \<Rightarrow> path \<Rightarrow> utext option \<Rightarrow> lsp_work list \<Rightarrow> supervision" where
  "supervise_session env root options inbox = supervise env root options 0 0 inbox
     \<lparr>sv_events = [], sv_starts = 0, sv_sleeps = [], sv_log = [], sv_stopped = False\<rparr>"

end
