(* ===== verification/Lsp_Supervision.thy ===== *)
theory Lsp_Supervision
  imports Lsp_Session "HOL-Library.Sublist"
begin

text \<open>
  What the session promises: while it serves, a connection is the translator behind frames; what an
  earlier server left in the inbox is passed over; a server that keeps dying is restarted three times
  and no more, and the editor is told why a session is over.
\<close>

section \<open>Connections\<close>

text \<open>The server has heard and the editor been told what the translator makes of the traffic.\<close>

definition follows :: "lsp_wire \<Rightarrow> lsp_connection \<Rightarrow> lsp_traffic list \<Rightarrow> lsp_connection \<Rightarrow> bool" where
  "follows wire c xs c' \<longleftrightarrow>
     (let ((es, ms), t) = lsp_run (lw_show_float wire) xs (lc_translator c) in
      lc_translator c' = t \<and> lc_events c' = lc_events c @ es
      \<and> lc_written c' = lc_written c @ map (encode_frame (lw_to_vec wire) \<circ> encode_value) ms)"

lemma follows_refl: "follows wire c [] c"
  by (simp add: follows_def)

lemma follows_trans: "follows wire c xs c1 \<Longrightarrow> follows wire c1 ys c2 \<Longrightarrow> follows wire c (xs @ ys) c2"
  by (auto simp: follows_def lsp_run_append Let_def split: prod.splits)

lemma follows_frames: "follows wire c xs c' \<Longrightarrow> follows wire c xs (c'\<lparr>lc_frames := r\<rparr>)"
  by (simp add: follows_def Let_def case_prod_beta)

lemma write_all_running:
  "lc_end (write_all wire gen ms c) = None \<Longrightarrow>
     write_all wire gen ms c = c\<lparr>lc_written := lc_written c @ map (encode_frame (lw_to_vec wire) \<circ> encode_value) ms\<rparr>"
proof (induction ms arbitrary: c)
  case (Cons m ms)
  show ?case
    using Cons.IH [of "c\<lparr>lc_written := lc_written c @ [encode_frame (lw_to_vec wire) (encode_value m)]\<rparr>"] Cons.prems
    by (simp add: write_message_def Let_def end_with_def split: if_splits)
qed simp

lemma write_all_end:
  "lc_end c = None \<Longrightarrow> lc_end (write_all wire gen ms c) \<noteq> None \<Longrightarrow>
     lc_end (write_all wire gen ms c) = Some EndDisconnected"
  by (induction ms arbitrary: c) (auto simp: end_with_def split: option.splits)

lemma write_all_frames [simp]: "lc_frames (write_all wire gen ms c) = lc_frames c"
  by (induction ms arbitrary: c) (auto simp: end_with_def hear_events_def split: option.splits)

lemma take_value_follows:
  assumes "lc_end (take_value wire gen v c) = None"
  shows "follows wire c (case decode_value v of Some m \<Rightarrow> [LspHear m] | None \<Rightarrow> []) (take_value wire gen v c)"
proof (cases "decode_value v")
  case None
  then show ?thesis by (simp add: take_value_def lsp_decode_def follows_def)
next
  case (Some m)
  obtain es ms t where i: "lsp_incoming (lw_show_float wire) m (lc_translator c) = ((es, ms), t)" by (metis surj_pair)
  have "lc_end (write_all wire gen ms (hear_events es (c\<lparr>lc_translator := t\<rparr>))) = None"
    using assms Some i by (auto simp: take_value_def lsp_decode_def end_with_def Let_def split: if_splits)
  from write_all_running [OF this] show ?thesis
    using assms Some i by (auto simp: take_value_def lsp_decode_def follows_def hear_events_def end_with_def Let_def
        split: if_splits)
qed

definition messages_of :: "json list \<Rightarrow> rpc_message list" where
  "messages_of vs = List.map_filter decode_value vs"

lemma take_frames_follows:
  assumes "lc_end (take_frames wire gen r c) = None" "drain (lw_from_slice wire) r = (vs, r')"
  shows "follows wire c (map LspHear (messages_of vs)) (take_frames wire gen r c)
    \<and> lc_frames (take_frames wire gen r c) = r'"
  using assms
proof (induction wire gen r c arbitrary: vs rule: take_frames.induct)
  case (1 wire gen r c)
  obtain v u where n: "next_frame (lw_from_slice wire) r = (v, u)" by (metis surj_pair)
  show ?case
  proof (cases v)
    case None
    then show ?thesis using 1(3) n
      by (simp add: take_frames.simps [of wire gen r] drain.simps [of _ r] messages_of_def List.map_filter_simps
          follows_refl follows_frames)
  next
    case (Some x)
    let ?c = "take_value wire gen x c"
    have step: "take_frames wire gen r c = (if lc_end ?c = None then take_frames wire gen u ?c else ?c)"
      using n Some by (simp add: take_frames.simps [of wire gen r] Let_def)
    then have e: "lc_end ?c = None" using 1(2) by (auto split: if_splits)
    obtain ws where ws: "drain (lw_from_slice wire) u = (ws, r')" "vs = x # ws"
      using 1(3) n Some by (auto simp: drain.simps [of _ r] split: prod.splits)
    have "follows wire ?c (map LspHear (messages_of ws)) (take_frames wire gen u ?c)
      \<and> lc_frames (take_frames wire gen u ?c) = r'"
      using 1(1) [OF n [symmetric] Some refl e _ ws(1)] 1(2) step e Some by simp
    with take_value_follows [OF e] show ?thesis
      using follows_trans [OF take_value_follows [OF e]] step e ws
      by (force simp: messages_of_def List.map_filter_simps split: option.splits)
  qed
qed

text \<open>What of an inbox reaches the translator of a generation.\<close>

fun inbox_traffic :: "lsp_wire \<Rightarrow> nat \<Rightarrow> lsp_work list \<Rightarrow> frame_reader \<Rightarrow> lsp_traffic list" where
  "inbox_traffic wire gen [] r = []"
| "inbox_traffic wire gen (ServerRequest request # xs) r = LspSend request # inbox_traffic wire gen xs r"
| "inbox_traffic wire gen (ServerBytes g bs # xs) r =
     (if g = gen
      then (case drain (lw_from_slice wire) (push bs r) of
              (vs, r) \<Rightarrow> map LspHear (messages_of vs) @ inbox_traffic wire gen xs r)
      else inbox_traffic wire gen xs r)"
| "inbox_traffic wire gen (ServerGone g # xs) r = inbox_traffic wire gen xs r"

lemma serve_stopped: "lc_end c \<noteq> None \<Longrightarrow> serve wire gen xs c = (c, xs)"
  by (cases xs) auto

lemma step_follows:
  assumes "lc_end (connection_step wire gen x c) = None" "lc_end c = None"
  shows "\<exists>ys. inbox_traffic wire gen (x # xs) (lc_frames c)
        = ys @ inbox_traffic wire gen xs (lc_frames (connection_step wire gen x c))
      \<and> follows wire c ys (connection_step wire gen x c)"
proof (cases x)
  case (ServerRequest request)
  obtain ms t where o: "lsp_outgoing request (lc_translator c) = (ms, t)" by (metis surj_pair)
  show ?thesis
    using assms ServerRequest o write_all_running [of wire gen ms "c\<lparr>lc_translator := t\<rparr>"]
    by (auto simp: connection_step_def end_with_def follows_def Let_def split: if_splits
        intro!: exI [of _ "[LspSend request]"])
next
  case (ServerBytes g bs)
  obtain vs r' where d: "drain (lw_from_slice wire) (push bs (lc_frames c)) = (vs, r')" by (metis surj_pair)
  show ?thesis
    using assms ServerBytes d take_frames_follows [OF _ d, of gen c]
    by (auto simp: connection_step_def follows_refl)
next
  case (ServerGone g)
  then show ?thesis using assms by (auto simp: connection_step_def end_with_def follows_refl split: if_splits)
qed

lemma serve_running: "lc_end (fst (serve wire gen xs c)) = None \<Longrightarrow> lc_end c = None"
  using serve_stopped [of c wire gen xs] by (cases "lc_end c") auto

lemma serve_follows:
  assumes "lc_end (fst (serve wire gen xs c)) = None"
  shows "follows wire c (inbox_traffic wire gen xs (lc_frames c)) (fst (serve wire gen xs c))"
  using assms
proof (induction xs arbitrary: c)
  case (Cons x xs)
  let ?c = "connection_step wire gen x c"
  have c: "lc_end c = None" by (rule serve_running [OF Cons.prems])
  have r: "lc_end (fst (serve wire gen xs ?c)) = None" using Cons.prems c by simp
  obtain ys where ys: "inbox_traffic wire gen (x # xs) (lc_frames c) = ys @ inbox_traffic wire gen xs (lc_frames ?c)"
    "follows wire c ys ?c"
    using step_follows [OF serve_running [OF r] c] by metis
  show ?case using follows_trans [OF ys(2) Cons.IH [OF r]] ys(1) c by simp
qed (simp add: follows_refl)


lemma serve_rest: "lc_end (fst (serve wire gen xs c)) = None \<Longrightarrow> snd (serve wire gen xs c) = []"
  by (induction xs arbitrary: c) (auto split: if_splits)

text \<open>
  C15. While a connection serves, the server has been sent the handshake and then exactly the frames of
  the translator's messages, and the editor has heard exactly the translator's events, for the
  requests and the frames that arrived, in that order; what belongs to another generation of the
  server leaves no trace.
\<close>

theorem session_is_translator:
  assumes "serve wire gen inbox (connection_start wire gen root options log) = (c, rest)"
    and "lc_end c = None"
    and "initialize_with (lw_from_str wire) root options lsp_translator_new = (Inr hello, t0)"
    and "lsp_run (lw_show_float wire) (inbox_traffic wire gen inbox reader_new) t0 = ((es, ms), t)"
  shows "rest = [] \<and> lc_translator c = t \<and> lc_events c = es
    \<and> lc_written c = map (encode_frame (lw_to_vec wire) \<circ> encode_value) (hello # ms)"
proof -
  let ?s = "connection_start wire gen root options log"
  have "lc_end ?s = None" using serve_running [of wire gen inbox ?s] assms(1,2) by simp
  then have s: "lc_translator ?s = t0" "lc_frames ?s = reader_new" "lc_events ?s = []"
    "lc_written ?s = [encode_frame (lw_to_vec wire) (encode_value hello)]"
    using assms(3) by (auto simp: connection_start_def write_message_def end_with_def Let_def split: if_splits)
  have "rest = []" using serve_rest [of wire gen inbox ?s] assms(1,2) by simp
  then show ?thesis
    using serve_follows [of wire gen inbox ?s] assms s by (simp add: follows_def)
qed

text \<open>Another generation's work changes nothing.\<close>

definition concerns :: "nat \<Rightarrow> lsp_work \<Rightarrow> bool" where
  "concerns gen x = (case x of ServerRequest _ \<Rightarrow> True | ServerBytes g _ \<Rightarrow> g = gen | ServerGone g \<Rightarrow> g = gen)"

lemma stale_step: "\<not> concerns gen x \<Longrightarrow> connection_step wire gen x c = c"
  by (cases x) (auto simp: concerns_def connection_step_def)

lemma serve_concerns: "fst (serve wire gen (filter (concerns gen) xs) c) = fst (serve wire gen xs c)"
  by (induction xs arbitrary: c) (auto simp: stale_step serve_stopped)

section \<open>Ends\<close>

text \<open>A connection ends with a word to the editor, unless it was told to end or the server hung up.\<close>

definition last_word :: "lsp_event list \<Rightarrow> bool" where
  "last_word es \<longleftrightarrow> es \<noteq> [] \<and> (case last es of EvFailed None _ \<Rightarrow> True | EvUnavailable _ \<Rightarrow> True | _ \<Rightarrow> False)"

definition ends_well :: "lsp_connection \<Rightarrow> bool" where
  "ends_well c \<longleftrightarrow> lc_end c \<noteq> Some EndShutdown \<and> (lc_end c = Some EndHandshakeFailed \<longrightarrow> last_word (lc_events c))"

lemma lsp_failed_last [simp]: "last_word (es @ [lsp_failed k m])" "last_word (es @ [EvFailed None f])"
    "last_word (es @ [EvUnavailable m])" "last_word [EvFailed None f]"
  by (simp_all add: last_word_def lsp_failed_def)

lemma handshake_event:
  assumes "lsp_incoming sf m t = ((es, ms), t')" "list_ex handshake_failure es"
  shows "\<exists>f. es = [EvFailed None f] \<and> ms = []"
proof (cases m)
  case (Notification meth params)
  then have "\<not> list_ex handshake_failure es"
    using assms(1)
    by (auto simp: notification_events_def parse_diagnostics_def progress_events_def parse_progress_def
        parse_jdt_language_status_def handshake_failure_def Let_def bind_eq_Some_conv
        split: prod.splits if_splits option.splits)
  then show ?thesis using assms(2) by simp
next
  case (Response i r)
  have "response_event x k r = Some e \<Longrightarrow> \<not> handshake_failure e" for x k e
    by (cases k) (auto simp: handshake_failure_def)
  then show ?thesis
    using assms Response
    by (auto simp: lsp_response_def handshake_response_def Let_def handshake_failure_def
        split: prod.splits if_splits option.splits)
qed (use assms in \<open>auto simp: lsp_response_def handshake_response_def handshake_failure_def Let_def
    split: prod.splits if_splits option.splits\<close>)


lemma take_value_ends:
  assumes "lc_end c = None"
  shows "ends_well (take_value wire gen v c)"
proof (cases "decode_value v")
  case None
  then show ?thesis using assms by (simp add: take_value_def lsp_decode_def ends_well_def)
next
  case (Some m)
  obtain es ms t where i: "lsp_incoming (lw_show_float wire) m (lc_translator c) = ((es, ms), t)" by (metis surj_pair)
  let ?w = "write_all wire gen ms (hear_events es (c\<lparr>lc_translator := t\<rparr>))"
  have w: "lc_end ?w \<in> {None, Some EndDisconnected}"
    using write_all_end [of "hear_events es (c\<lparr>lc_translator := t\<rparr>)" wire gen ms] assms
    by (cases "lc_end ?w") (simp_all add: hear_events_def)
  show ?thesis
  proof (cases "list_ex handshake_failure es")
    case True
    then obtain f where "es = [EvFailed None f]" "ms = []" using handshake_event [OF i] by auto
    then show ?thesis
      using Some i True assms
      by (simp add: take_value_def lsp_decode_def ends_well_def end_with_def hear_events_def Let_def)
  next
    case False
    then show ?thesis using Some i w by (auto simp: take_value_def lsp_decode_def ends_well_def Let_def)
  qed
qed

lemma take_frames_ends: "lc_end c = None \<Longrightarrow> ends_well (take_frames wire gen r c)"
proof (induction wire gen r c rule: take_frames.induct)
  case (1 wire gen r c)
  show ?case
    using 1 take_value_ends [OF 1(2)]
    by (auto simp: take_frames.simps [of wire gen r] Let_def ends_well_def split: prod.split option.split)
qed

lemma step_ends:
  assumes "lc_end c = None" "x \<noteq> ServerRequest RqShutdown"
  shows "ends_well (connection_step wire gen x c)"
proof (cases x)
  case (ServerRequest request)
  obtain ms t where o: "lsp_outgoing request (lc_translator c) = (ms, t)" by (metis surj_pair)
  show ?thesis
    using assms ServerRequest o write_all_end [of "c\<lparr>lc_translator := t\<rparr>" wire gen ms]
    by (auto simp: connection_step_def ends_well_def)
next
  case (ServerBytes g bs)
  then show ?thesis using assms take_frames_ends [of c] by (auto simp: connection_step_def ends_well_def)
next
  case (ServerGone g)
  then show ?thesis using assms by (auto simp: connection_step_def ends_well_def end_with_def)
qed

lemma serve_ends:
  "ServerRequest RqShutdown \<notin> set xs \<Longrightarrow> ends_well c \<Longrightarrow> ends_well (fst (serve wire gen xs c))"
proof (induction xs arbitrary: c)
  case (Cons x xs)
  then show ?case using step_ends [of c x wire gen] by auto
qed simp

lemma start_ends: "ends_well (connection_start wire gen root options log)"
  by (auto simp: connection_start_def ends_well_def end_with_def hear_events_def Let_def
      split: prod.split sum.split option.split)

lemma serve_suffix: "suffix (snd (serve wire gen xs c)) xs"
  by (induction xs arbitrary: c) (auto intro: suffix_ConsI)

lemma serve_takes_hangup:
  assumes "subseq (ServerGone gen # ys) xs"
  shows "lc_end (fst (serve wire gen xs c)) \<noteq> None \<and> subseq ys (snd (serve wire gen xs c))"
  using assms
proof (induction xs arbitrary: c rule: list.induct)
  case (Cons x xs)
  show ?case
  proof (cases "lc_end c")
    case (Some e)
    then show ?thesis using subseq_Cons' [OF Cons.prems] by simp
  next
    case None
    show ?thesis
    proof (cases "x = ServerGone gen")
      case True
      then have "lc_end (connection_step wire gen x c) \<noteq> None" by (simp add: connection_step_def end_with_def)
      then show ?thesis using serve_stopped None Cons.prems True by (simp add: subseq_Cons2_iff)
    next
      case False
      then show ?thesis using Cons None by (simp add: subseq_Cons2_iff)
    qed
  qed
qed simp

section \<open>The supervisor\<close>

lemma run_connection_eq:
  "run_connection wire gen root options False inbox log = serve wire gen inbox (connection_start wire gen root options log)"
  by (simp add: run_connection_def)

text \<open>
  How the servers of a session would fare one after the other if each were replaced by the next: the
  connection the \<open>n\<close>th of them ends in, and the work it leaves.
\<close>

fun server_run ::
    "server_env \<Rightarrow> path \<Rightarrow> utext option \<Rightarrow> nat \<Rightarrow> lsp_work list \<Rightarrow> utext list \<Rightarrow> nat \<Rightarrow> lsp_connection \<times> lsp_work list" where
  "server_run env root options gen inbox log 0 = run_connection (se_wire env) gen root options False inbox log"
| "server_run env root options gen inbox log (Suc n) =
     (let (c, rest) = run_connection (se_wire env) gen root options False inbox log in
      server_run env root options (gen + 1) rest (lc_log c) n)"

text \<open>A server hung up by itself, and whether a new one can be put in its place.\<close>

definition hung_up :: "lsp_connection \<times> lsp_work list \<Rightarrow> bool" where
  "hung_up r \<longleftrightarrow> lc_end (fst r) = Some EndDisconnected"

lemma supervise_exactly:
  assumes "restarts \<le> max_restarts" "\<not> sv_stopped s"
  shows "\<exists>m k. sv_starts (supervise env root options gen restarts inbox s) = sv_starts s + Suc m
    \<and> sv_sleeps (supervise env root options gen restarts inbox s)
        = sv_sleeps s @ map (\<lambda>i. 50 * 2 ^ i) [restarts..<restarts + k]
    \<and> (\<forall>n. n \<le> m \<longleftrightarrow> restarts + n \<le> max_restarts
         \<and> (\<forall>i<n. hung_up (server_run env root options gen inbox (sv_log s) i)
               \<and> se_respawn env (gen + i + 1) = None))
    \<and> (\<forall>n. n < k \<longleftrightarrow> n \<le> m \<and> restarts + n < max_restarts
         \<and> hung_up (server_run env root options gen inbox (sv_log s) n))
    \<and> (sv_stopped (supervise env root options gen restarts inbox s)
       \<longleftrightarrow> lc_end (fst (server_run env root options gen inbox (sv_log s) m)) \<noteq> None)"
  using assms
proof (induction env root options gen restarts inbox s rule: supervise.induct)
  case (1 env root options gen restarts inbox s)
  obtain c rest where r: "run_connection (se_wire env) gen root options False inbox (sv_log s) = (c, rest)" by (metis surj_pair)
  let ?run = "server_run env root options gen inbox (sv_log s)"
  have runs: "?run 0 = (c, rest)" "?run (Suc n) = server_run env root options (gen + 1) rest (lc_log c) n" for n
    by (simp_all add: r)
  show ?case
  proof (cases "lc_end c = Some EndDisconnected \<and> restarts < max_restarts \<and> se_respawn env (gen + 1) = None")
    case True
    let ?s = "report [EvExited (se_exit_code env gen)] (report (lc_events c)
        (report [EvStarted] (s\<lparr>sv_starts := sv_starts s + 1\<rparr>)\<lparr>sv_log := lc_log c\<rparr>))"
    let ?t = "?s\<lparr>sv_sleeps := sv_sleeps ?s @ [50 * 2 ^ restarts]\<rparr>"
    have t: "sv_log ?t = lc_log c" "\<not> sv_stopped ?t" "sv_starts ?t = Suc (sv_starts s)"
      "sv_sleeps ?t = sv_sleeps s @ [50 * 2 ^ restarts]"
      using 1(3) by (simp_all add: report_def)
    have rec: "supervise env root options gen restarts inbox s
        = supervise env root options (gen + 1) (restarts + 1) rest ?t"
      using True r by (subst supervise.simps) (simp add: report_def Let_def)
    have ih: "restarts + 1 \<le> max_restarts \<Longrightarrow> \<not> sv_stopped ?t \<Longrightarrow>
      \<exists>m k. sv_starts (supervise env root options (gen + 1) (restarts + 1) rest ?t) = sv_starts ?t + Suc m
      \<and> sv_sleeps (supervise env root options (gen + 1) (restarts + 1) rest ?t)
          = sv_sleeps ?t @ map (\<lambda>i. 50 * 2 ^ i) [restarts + 1..<restarts + 1 + k]
      \<and> (\<forall>n. n \<le> m \<longleftrightarrow> restarts + 1 + n \<le> max_restarts
           \<and> (\<forall>i<n. hung_up (server_run env root options (gen + 1) rest (sv_log ?t) i)
                 \<and> se_respawn env (gen + 1 + i + 1) = None))
      \<and> (\<forall>n. n < k \<longleftrightarrow> n \<le> m \<and> restarts + 1 + n < max_restarts
           \<and> hung_up (server_run env root options (gen + 1) rest (sv_log ?t) n))
      \<and> (sv_stopped (supervise env root options (gen + 1) (restarts + 1) rest ?t)
         \<longleftrightarrow> lc_end (fst (server_run env root options (gen + 1) rest (sv_log ?t) m)) \<noteq> None)"
      using 1(1) [of _ _ c rest _ EndDisconnected _ ?t] True r by (simp add: report_def)
    have "restarts + 1 \<le> max_restarts" using True by simp
    from ih [OF this t(2)] obtain m k where
      m: "sv_starts (supervise env root options (gen + 1) (restarts + 1) rest ?t) = Suc (sv_starts s) + Suc m"
      and k: "sv_sleeps (supervise env root options (gen + 1) (restarts + 1) rest ?t)
          = (sv_sleeps s @ [50 * 2 ^ restarts]) @ map (\<lambda>i. 50 * 2 ^ i) [restarts + 1..<restarts + 1 + k]"
      and ms: "\<And>n. n \<le> m \<longleftrightarrow> restarts + 1 + n \<le> max_restarts
           \<and> (\<forall>i<n. hung_up (?run (Suc i)) \<and> se_respawn env (gen + 1 + i + 1) = None)"
      and ks: "\<And>n. n < k \<longleftrightarrow> n \<le> m \<and> restarts + 1 + n < max_restarts \<and> hung_up (?run (Suc n))"
      and st: "sv_stopped (supervise env root options (gen + 1) (restarts + 1) rest ?t)
         \<longleftrightarrow> lc_end (fst (?run (Suc m))) \<noteq> None"
      unfolding t runs(2) by blast
    have first: "hung_up (?run 0)" using True by (simp only: runs(1)) (simp add: hung_up_def)
    have "n \<le> Suc m \<longleftrightarrow> restarts + n \<le> max_restarts
         \<and> (\<forall>i<n. hung_up (?run i) \<and> se_respawn env (gen + i + 1) = None)" for n
    proof (cases n)
      case 0
      with True show ?thesis by simp
    next
      case (Suc l)
      have "(\<forall>i<Suc l. hung_up (?run i) \<and> se_respawn env (gen + i + 1) = None)
          \<longleftrightarrow> (\<forall>i<l. hung_up (?run (Suc i)) \<and> se_respawn env (gen + 1 + i + 1) = None)"
        using first True by (simp only: All_less_Suc2) simp
      then show ?thesis using ms [of l] Suc by simp
    qed
    moreover have "n < Suc k \<longleftrightarrow> n \<le> Suc m \<and> restarts + n < max_restarts \<and> hung_up (?run n)" for n
      using first True ks [of "n - 1"] by (cases n) auto
    moreover have "map (\<lambda>i. 50 * 2 ^ i) [restarts..<restarts + Suc k]
        = (50 * 2 ^ restarts) # map (\<lambda>i. 50 * 2 ^ i :: nat) [restarts + 1..<restarts + 1 + k]"
      by (simp add: upt_rec [of restarts])
    ultimately show ?thesis
      using m k st unfolding rec by (intro exI [of _ "Suc m"] exI [of _ "Suc k"] conjI) auto
  next
    case False
    let ?k = "if lc_end c = Some EndDisconnected \<and> restarts < max_restarts then 1 else 0 :: nat"
    have ends: "sv_starts (supervise env root options gen restarts inbox s) = sv_starts s + Suc 0
        \<and> sv_sleeps (supervise env root options gen restarts inbox s)
            = sv_sleeps s @ (if ?k = 1 then [50 * 2 ^ restarts] else [])
        \<and> (sv_stopped (supervise env root options gen restarts inbox s) \<longleftrightarrow> lc_end c \<noteq> None)"
    proof (cases "lc_end c")
      case None
      with r 1(3) show ?thesis by (subst (1 2 3) supervise.simps) (simp add: report_def Let_def)
    next
      case (Some e)
      with False r 1(3) show ?thesis
        by (cases e; cases "max_restarts \<le> restarts"; cases "se_respawn env (gen + 1)";
            subst (1 2 3) supervise.simps) (simp_all add: report_def Let_def)
    qed
    have "n \<le> 0 \<longleftrightarrow> restarts + n \<le> max_restarts
         \<and> (\<forall>i<n. hung_up (?run i) \<and> se_respawn env (gen + i + 1) = None)" for n
      using False 1(2) by (cases n) (auto simp: All_less_Suc2 runs(1) hung_up_def simp del: server_run.simps)
    moreover have "n < ?k \<longleftrightarrow> n \<le> 0 \<and> restarts + n < max_restarts \<and> hung_up (?run n)" for n
      by (auto simp: runs(1) hung_up_def simp del: server_run.simps)
    moreover have "sv_starts (supervise env root options gen restarts inbox s) = sv_starts s + Suc 0"
      using ends by (rule conjunct1)
    moreover have "sv_sleeps (supervise env root options gen restarts inbox s)
        = sv_sleeps s @ map (\<lambda>i. 50 * 2 ^ i) [restarts..<restarts + ?k]"
      using ends [THEN conjunct2, THEN conjunct1] 
      by (cases "lc_end c = Some EndDisconnected \<and> restarts < max_restarts") (simp_all split: if_splits)
    moreover have "sv_stopped (supervise env root options gen restarts inbox s) \<longleftrightarrow> lc_end (fst (?run 0)) \<noteq> None"
      using ends [THEN conjunct2, THEN conjunct2] by (simp only: runs(1) fst_conv)
    ultimately show ?thesis by (intro exI [of _ 0] exI [of _ ?k] conjI allI)
  qed
qed

lemma supervise_ends:
  assumes "ServerRequest RqShutdown \<notin> set inbox" "\<not> sv_stopped s"
    "sv_stopped (supervise env root options gen restarts inbox s)"
  shows "last_word (sv_events (supervise env root options gen restarts inbox s))"
  using assms
proof (induction env root options gen restarts inbox s rule: supervise.induct)
  case (1 env root options gen restarts inbox s)
  obtain c rest where r: "run_connection (se_wire env) gen root options False inbox (sv_log s) = (c, rest)" by (metis surj_pair)
  have e: "ends_well c"
    using serve_ends [OF 1(2) start_ends [of "se_wire env" gen root options "sv_log s"], of "se_wire env" gen] r by (simp add: run_connection_eq)
  have q: "ServerRequest RqShutdown \<notin> set rest"
    using serve_suffix [of "se_wire env" gen inbox] r 1(2) set_mono_suffix
    by (metis run_connection_eq snd_conv subsetD)
  show ?case
  proof (cases "lc_end c = Some EndDisconnected \<and> restarts < max_restarts \<and> se_respawn env (gen + 1) = None")
    case True
    let ?s = "report [EvExited (se_exit_code env gen)] (report (lc_events c)
        (report [EvStarted] (s\<lparr>sv_starts := sv_starts s + 1\<rparr>)\<lparr>sv_log := lc_log c\<rparr>))"
    let ?t = "?s\<lparr>sv_sleeps := sv_sleeps ?s @ [50 * 2 ^ restarts]\<rparr>"
    have rec: "supervise env root options gen restarts inbox s
        = supervise env root options (gen + 1) (restarts + 1) rest ?t"
      using True r by (subst supervise.simps) (simp add: report_def Let_def)
    have "last_word (sv_events (supervise env root options (gen + 1) (restarts + 1) rest ?t))"
      using 1(1) [of _ _ c rest _ EndDisconnected] True r q 1(3,4) rec by (auto simp: report_def)
    then show ?thesis by (simp add: rec)
  next
    case False
    have words: "last_word es \<Longrightarrow> last_word (ys @ es)" "last_word es \<Longrightarrow> last_word (y # es)"
      "last_word [EvUnavailable m]" "last_word [lsp_failed k m]" for es ys y m k
      by (auto simp: last_word_def lsp_failed_def)
    show ?thesis
      using False r 1(3,4) e
      by (subst supervise.simps, subst (asm) supervise.simps)
        (auto simp: report_def Let_def ends_well_def words split: option.splits connection_end.splits if_splits)
  qed
qed

lemma supervise_stops:
  assumes "subseq (map ServerGone [gen..<gen + (max_restarts - restarts) + 1]) inbox"
  shows "sv_stopped (supervise env root options gen restarts inbox s)"
  using assms
proof (induction env root options gen restarts inbox s rule: supervise.induct)
  case (1 env root options gen restarts inbox s)
  obtain c rest where r: "run_connection (se_wire env) gen root options False inbox (sv_log s) = (c, rest)" by (metis surj_pair)
  let ?n = "gen + (max_restarts - restarts) + 1"
  have "[gen..<?n] = gen # [gen + 1..<?n]" by (simp add: upt_rec)
  then have gone: "subseq (ServerGone gen # map ServerGone [gen + 1..<?n]) inbox" using 1(2) by simp
  have e: "lc_end c \<noteq> None" "subseq (map ServerGone [gen + 1..<?n]) rest"
    using serve_takes_hangup [OF gone, of "se_wire env" "connection_start (se_wire env) gen root options (sv_log s)"] r
    by (simp_all add: run_connection_eq)
  show ?case
  proof (cases "lc_end c = Some EndDisconnected \<and> restarts < max_restarts \<and> se_respawn env (gen + 1) = None")
    case True
    then have "subseq (map ServerGone [gen + 1..<gen + 1 + (max_restarts - (restarts + 1)) + 1]) rest"
      using e(2) by (simp add: Suc_diff_Suc)
    then show ?thesis
      using 1(1) [of _ _ c rest _ EndDisconnected] True r
      by (subst supervise.simps) (simp add: report_def Let_def)
  next
    case False
    then show ?thesis using r e(1)
      by (subst supervise.simps)
        (auto simp: report_def Let_def split: option.splits connection_end.splits)
  qed
qed

text \<open>
  C14. Supervision, exactly: the first server is started, and the next one precisely when the one before hung
  up by itself, its replacement could be spawned and fewer than three restarts were made, so a session
  runs at most four servers.  Each hang-up of one of the first three is answered by a wait, of 50, 100
  and 200 milliseconds in turn, and nothing else is.  The supervisor has stopped exactly when the last
  server it started has ended, and in particular once all four have hung up.
\<close>

theorem restarts_are_bounded:
  "let s = supervise_session env root options inbox;
       server = server_run env root options 0 inbox [] in
     (\<forall>n. n < sv_starts s \<longleftrightarrow> n \<le> 3 \<and> (\<forall>i<n. hung_up (server i) \<and> se_respawn env (i + 1) = None))
   \<and> sv_sleeps s = take (length (sv_sleeps s)) [50, 100, 200]
   \<and> (\<forall>n. n < length (sv_sleeps s) \<longleftrightarrow> n < sv_starts s \<and> n < 3 \<and> hung_up (server n))
   \<and> sv_starts s \<in> {1, 2, 3, 4}
   \<and> (sv_stopped s \<longleftrightarrow> lc_end (fst (server (sv_starts s - 1))) \<noteq> None)
   \<and> (subseq [ServerGone 0, ServerGone 1, ServerGone 2, ServerGone 3] inbox \<longrightarrow> sv_stopped s)"
proof -
  let ?s = "supervise_session env root options inbox"
  let ?z = "\<lparr>sv_events = [], sv_starts = 0, sv_sleeps = [], sv_log = [], sv_stopped = False\<rparr>"
  let ?run = "server_run env root options 0 inbox []"
  from supervise_exactly [of 0 ?z env root options 0 inbox] obtain m k where
    m: "sv_starts ?s = Suc m" and k: "sv_sleeps ?s = map (\<lambda>i. 50 * 2 ^ i) [0..<k]"
    and ms: "\<And>n. n \<le> m \<longleftrightarrow> n \<le> 3 \<and> (\<forall>i<n. hung_up (?run i) \<and> se_respawn env (i + 1) = None)"
    and ks: "\<And>n. n < k \<longleftrightarrow> n \<le> m \<and> n < 3 \<and> hung_up (?run n)"
    and st: "sv_stopped ?s \<longleftrightarrow> lc_end (fst (?run m)) \<noteq> None"
    by (auto simp: supervise_session_def max_restarts_def)
  have "m \<le> 3" using ms [of m] by simp
  have "\<not> 3 < k" using ks [of 3] by simp
  then have "k \<in> {0, 1, 2, 3}" by auto
  then have "sv_sleeps ?s = take k [50, 100, 200]" unfolding k by (auto simp: upt_rec)
  moreover have "length (sv_sleeps ?s) = k" by (simp add: k)
  moreover have "n < sv_starts ?s \<longleftrightarrow> n \<le> m" for n by (simp add: m less_Suc_eq_le)
  moreover have "map ServerGone [0..<0 + (max_restarts - 0) + 1] = [ServerGone 0, ServerGone 1, ServerGone 2, ServerGone 3]"
    by (simp add: max_restarts_def upt_rec)
  then have "subseq [ServerGone 0, ServerGone 1, ServerGone 2, ServerGone 3] inbox \<longrightarrow> sv_stopped ?s"
    using supervise_stops [of 0 0 inbox env root options ?z] by (auto simp: supervise_session_def)
  moreover have "sv_starts ?s \<in> {1, 2, 3, 4}" using m \<open>m \<le> 3\<close> by auto
  moreover have "sv_starts ?s - 1 = m" by (simp add: m)
  ultimately show ?thesis using ms ks st unfolding Let_def by (intro conjI allI) (simp_all only:)
qed

text \<open>
  C16. A session that was not told to shut down never ends in silence: when its supervisor stops, the last
  thing the editor heard is that the server failed or is unavailable, with the reason.
\<close>

theorem session_ends_with_reason:
  assumes "ServerRequest RqShutdown \<notin> set inbox"
    and "sv_stopped (supervise_session env root options inbox)"
  shows "\<exists>before e. sv_events (supervise_session env root options inbox) = before @ [e]
    \<and> ((\<exists>f. e = EvFailed None f) \<or> (\<exists>msg. e = EvUnavailable msg))"
proof -
  have "last_word (sv_events (supervise_session env root options inbox))"
    using supervise_ends [OF assms(1)] assms(2) by (simp add: supervise_session_def)
  then show ?thesis
    by (intro exI [of _ "butlast (sv_events (supervise_session env root options inbox))"]
        exI [of _ "last (sv_events (supervise_session env root options inbox))"])
      (auto simp: last_word_def split: lsp_event.splits option.splits)
qed


section \<open>Witnesses\<close>

definition mute_wire :: lsp_wire where
  "mute_wire = \<lparr>lw_to_vec = (\<lambda>_. []), lw_from_slice = (\<lambda>_. None), lw_from_str = (\<lambda>_. Inr JNull),
     lw_show_float = (\<lambda>_. []), lw_show_json = (\<lambda>_. []), lw_accepts = (\<lambda>_ _ _. True)\<rparr>"

definition mute_env :: server_env where
  "mute_env = \<lparr>se_wire = mute_wire, se_exit_code = (\<lambda>_. Some 1),
     se_respawn = (\<lambda>g. if g = 1 then Some (ustr ''no such file'') else None)\<rparr>"

lemma mute_start:
  "connection_start mute_wire g root None log =
    \<lparr>lc_translator = greeted, lc_frames = reader_new, lc_written = [encode_frame (\<lambda>_. []) JNull],
     lc_events = [], lc_log = log, lc_end = None\<rparr>"
  by (simp add: connection_start_def initialize_with_def allocate_def lsp_translator_new_def greeted_def
      write_message_def encode_frame_def mute_wire_def Let_def)

lemma session_is_translator_witness:
  "lc_written (fst (serve mute_wire 0 [ServerRequest (RqDidSave [RootDir]), ServerGone 7]
      (connection_start mute_wire 0 [RootDir] None []))) = [encode_frame (\<lambda>_. []) JNull]"
proof -
  obtain hello where h: "initialize_with (lw_from_str mute_wire) [RootDir] None lsp_translator_new = (Inr hello, greeted)"
    by (simp add: initialize_with_def greeted_def allocate_def lsp_translator_new_def Let_def)
  let ?x = "[ServerRequest (RqDidSave [RootDir]), ServerGone 7]"
  let ?c = "connection_start mute_wire 0 [RootDir] None []"
  have e: "lc_end (fst (serve mute_wire 0 ?x ?c)) = None"
    by (simp add: mute_start connection_step_def lsp_outgoing_def greeted_def)
  have t: "lsp_run (lw_show_float mute_wire) (inbox_traffic mute_wire 0 ?x reader_new) greeted
      = (([], []), lsp_hold (RqDidSave [RootDir]) greeted)"
    by (simp add: lsp_outgoing_def greeted_def lsp_hold_def)
  have "lc_written (fst (serve mute_wire 0 ?x ?c)) = map (encode_frame (lw_to_vec mute_wire) \<circ> encode_value) [hello]"
    using session_is_translator [OF surjective_pairing e h t] by blast
  then show ?thesis by (simp add: encode_frame_def mute_wire_def)
qed

lemma mute_servers:
  assumes "env = mute_env\<lparr>se_respawn := \<lambda>_. None\<rparr>"
    and "inbox = [ServerGone 0, ServerRequest (RqDidSave [RootDir]), ServerGone 1, ServerGone 2, ServerGone 3]"
  shows "hung_up (server_run env [RootDir] None 0 inbox [] 0)" "hung_up (server_run env [RootDir] None 0 inbox [] 1)"
    "hung_up (server_run env [RootDir] None 0 inbox [] 2)"
  unfolding assms hung_up_def
  by (simp_all add: eval_nat_numeral mute_env_def run_connection_def mute_start connection_step_def
      end_with_def lsp_outgoing_def greeted_def)

lemma restarts_are_bounded_witness:
  "let s = supervise_session (mute_env\<lparr>se_respawn := \<lambda>_. None\<rparr>) [RootDir] None
       [ServerGone 0, ServerRequest (RqDidSave [RootDir]), ServerGone 1, ServerGone 2, ServerGone 3] in
     sv_starts s = 4 \<and> sv_sleeps s = [50, 100, 200] \<and> sv_stopped s"
proof -
  let ?env = "mute_env\<lparr>se_respawn := \<lambda>_. None\<rparr>"
    and ?inbox = "[ServerGone 0, ServerRequest (RqDidSave [RootDir]), ServerGone 1, ServerGone 2, ServerGone 3]"
  let ?s = "supervise_session ?env [RootDir] None ?inbox" and ?run = "server_run ?env [RootDir] None 0 ?inbox []"
  have sub: "subseq [ServerGone 0, ServerGone 1, ServerGone 2, ServerGone 3] ?inbox" by simp
  have b: "n < sv_starts ?s \<longleftrightarrow> n \<le> 3 \<and> (\<forall>i<n. hung_up (?run i) \<and> se_respawn ?env (i + 1) = None)"
    "sv_sleeps ?s = take (length (sv_sleeps ?s)) [50, 100, 200]"
    "n < length (sv_sleeps ?s) \<longleftrightarrow> n < sv_starts ?s \<and> n < 3 \<and> hung_up (?run n)"
    "sv_starts ?s \<in> {1, 2, 3, 4}" "sv_stopped ?s" for n
    using restarts_are_bounded [of ?env "[RootDir]" None ?inbox] sub unfolding Let_def by blast+
  note r = mute_servers [OF refl refl]
  have "\<forall>i<3. hung_up (?run i)" using r by (simp only: eval_nat_numeral All_less_Suc2 One_nat_def) simp
  then have starts: "3 < sv_starts ?s" unfolding b(1) by simp
  then have "2 < length (sv_sleeps ?s)" using r(3) by (subst b(3)) simp
  then have "sv_sleeps ?s = [50, 100, 200]" by (subst b(2)) simp
  moreover have "sv_starts ?s = 4" using b(4) starts by auto
  ultimately show ?thesis using b(5) unfolding Let_def by blast
qed

lemma session_ends_with_reason_witness:
  "\<exists>before e. sv_events (supervise_session mute_env [RootDir] None [ServerGone 0]) = before @ [e]
    \<and> ((\<exists>f. e = EvFailed None f) \<or> (\<exists>msg. e = EvUnavailable msg))"
proof (rule session_ends_with_reason)
  show "sv_stopped (supervise_session mute_env [RootDir] None [ServerGone 0])"
    unfolding supervise_session_def
    by (subst supervise.simps)
      (simp add: run_connection_def mute_env_def mute_start connection_step_def
        end_with_def report_def max_restarts_def Let_def)
qed simp

end
