(* ===== verification/Search.thy ===== *)
theory Search
  imports Text_Search Filesystem Permissions Json "HOL-Library.Sublist"
begin

text \<open>
  Workspace search: the vocabulary of \<open>crates/core/src/search.rs\<close> and the matchers of
  \<open>crates/search/src\<close>: ranking file names (\<open>fuzzy.rs\<close>), searching text without ripgrep
  (\<open>literal.rs\<close>) and reading ripgrep's records (\<open>protocol.rs\<close>).  \<open>char::to_lowercase\<close> is the
  parameter \<open>u_lower\<close> on a text of one char.
\<close>

section \<open>Vocabulary\<close>

datatype search_mode = FilesMode | TextMode

record search_request =
  sq_id :: nat
  sq_root :: path
  sq_mode :: search_mode
  sq_query :: utext
  sq_limit :: nat

record search_match =
  sm_path :: path
  sm_line :: "nat option"
  sm_column :: "nat option"
  sm_text :: "utext option"

datatype search_event =
    SearchStarted nat
  | SearchBatch nat "search_match list"
  | SearchFinished nat bool
  | SearchCancelled nat
  | SearchFailed nat utext bool

datatype search_error = MalformedJson utext | MalformedMatch | ProcessError utext

fun search_error_fmt :: "search_error \<Rightarrow> utext" where
  "search_error_fmt (MalformedJson e) = ustr ''malformed ripgrep JSON: '' @ e"
| "search_error_fmt MalformedMatch = ustr ''malformed ripgrep match record''"
| "search_error_fmt (ProcessError e) = ustr ''could not run search: '' @ e"

definition chars_equal :: "unicode_api \<Rightarrow> uchar \<Rightarrow> uchar \<Rightarrow> bool \<Rightarrow> bool" where
  "chars_equal U l r sensitive = (if sensitive then l = r else u_lower U [l] = u_lower U [r])"

definition smart_case :: "unicode_api \<Rightarrow> utext \<Rightarrow> bool" where
  "smart_case U query = list_ex (u_is_upper U) query"

section \<open>Ranking files\<close>

text \<open>Scores compare field by field, as the derived order does.\<close>

datatype score =
  Score (filename_miss: bool) (gap_count: nat) (first_match: nat) (path_len: nat) (stable_path: utext)

fun score_key :: "score \<Rightarrow> bool \<times> nat \<times> nat \<times> nat \<times> utext" where
  "score_key (Score m g f l p) = (m, g, f, l, p)"

lemma score_key_inject: "score_key x = score_key y \<longleftrightarrow> x = y"
  by (cases x; cases y) auto

instantiation score :: linorder
begin

definition less_eq_score :: "score \<Rightarrow> score \<Rightarrow> bool" where
  "less_eq_score x y = (score_key x \<le> score_key y)"

definition less_score :: "score \<Rightarrow> score \<Rightarrow> bool" where
  "less_score x y = (score_key x < score_key y)"

instance
  by standard (auto simp: less_eq_score_def less_score_def less_le_not_le score_key_inject
      dest: order.antisym)

end

fun positions_loop ::
    "unicode_api \<Rightarrow> bool \<Rightarrow> utext \<Rightarrow> uchar \<Rightarrow> utext \<Rightarrow> nat \<Rightarrow> nat list \<Rightarrow> nat list option" where
  "positions_loop U sensitive wanted current [] index positions = None"
| "positions_loop U sensitive wanted current (c # cs) index positions =
     (if chars_equal U c current sensitive
      then (case wanted of
          n # ns \<Rightarrow> positions_loop U sensitive ns n cs (index + 1) (positions @ [index])
        | [] \<Rightarrow> Some (positions @ [index]))
      else positions_loop U sensitive wanted current cs (index + 1) positions)"

definition subsequence_positions :: "unicode_api \<Rightarrow> utext \<Rightarrow> utext \<Rightarrow> bool \<Rightarrow> nat list option" where
  "subsequence_positions U haystack needle sensitive =
     (case needle of [] \<Rightarrow> None | n # ns \<Rightarrow> positions_loop U sensitive ns n haystack 0 [])"

fun sum_gaps :: "nat list \<Rightarrow> nat" where
  "sum_gaps (a # b # ps) = (b - (a + 1)) + sum_gaps (b # ps)"
| "sum_gaps _ = 0"

definition score_file :: "unicode_api \<Rightarrow> utext \<Rightarrow> bool \<Rightarrow> path \<Rightarrow> (score \<times> path) option" where
  "score_file U query sensitive p =
     (let display = path_components_display p in
      case subsequence_positions U display query sensitive of
        None \<Rightarrow> None
      | Some positions \<Rightarrow>
          Some (Score
            (\<not> (case path_file_name p of
                 Some name \<Rightarrow> subsequence_positions U name query sensitive \<noteq> None
               | None \<Rightarrow> False))
            (sum_gaps positions) (positions ! 0) (length display) display, p))"

definition rank_files :: "unicode_api \<Rightarrow> path list \<Rightarrow> utext \<Rightarrow> path list" where
  "rank_files U files query =
     (if query = [] then sort_key path_components_display files
      else map snd (sort_key fst
        (List.map_filter (score_file U query (smart_case U query)) files)))"

section \<open>Searching text\<close>

text \<open>The lines of \<open>split_inclusive\<close>, each without its newline and a carriage return before it.\<close>

definition literal_lines :: "utext \<Rightarrow> utext list" where
  "literal_lines s =
     (let ps = split_char newline s in map drop_last_cr (if last ps = [] then butlast ps else ps))"

definition hit_at :: "unicode_api \<Rightarrow> bool \<Rightarrow> utext \<Rightarrow> utext \<Rightarrow> nat \<Rightarrow> bool" where
  "hit_at U sensitive needle cs start =
     list_all (\<lambda>(l, r). chars_equal U l r sensitive) (zip (take (length needle) (drop start cs)) needle)"

function literal_starts :: "unicode_api \<Rightarrow> bool \<Rightarrow> utext \<Rightarrow> utext \<Rightarrow> nat \<Rightarrow> nat list" where
  "literal_starts U sensitive needle cs start =
     (if needle = [] \<or> length cs < start + length needle then []
      else if hit_at U sensitive needle cs start
      then start # literal_starts U sensitive needle cs (start + length needle)
      else literal_starts U sensitive needle cs (start + 1))"
  by auto
termination
  by (relation "measure (\<lambda>(_, _, needle, cs, start). Suc (length cs) - start)")
    (auto simp flip: length_greater_0_conv)

declare literal_starts.simps [simp del]

definition match_on :: "path \<Rightarrow> nat \<Rightarrow> utext \<Rightarrow> nat \<Rightarrow> search_match" where
  "match_on p line txt start =
     \<lparr>sm_path = p, sm_line = Some line, sm_column = Some (start + 1), sm_text = Some txt\<rparr>"

definition literal_matches :: "unicode_api \<Rightarrow> path \<Rightarrow> utext \<Rightarrow> utext \<Rightarrow> search_match list" where
  "literal_matches U p contents query =
     (if query = [] then []
      else concat (map (\<lambda>(i, line).
             map (match_on p (i + 1) line) (literal_starts U (smart_case U query) query line 0))
           (enumerate 0 (literal_lines contents))))"

section \<open>Records of ripgrep\<close>

text \<open>How many chars stand before a byte offset; \<open>None\<close> when it is no char boundary.\<close>

fun chars_before :: "utext \<Rightarrow> nat \<Rightarrow> nat option" where
  "chars_before s 0 = Some 0"
| "chars_before [] (Suc n) = None"
| "chars_before (c # s) (Suc n) =
     (if length (utf8_char c) \<le> Suc n
      then map_option Suc (chars_before s (Suc n - length (utf8_char c))) else None)"

definition trim_end_line :: "utext \<Rightarrow> utext" where
  "trim_end_line s = rev (dropWhile (\<lambda>c. c = newline \<or> c = carriage_return) (rev s))"

definition submatch_of :: "path \<Rightarrow> nat \<Rightarrow> utext \<Rightarrow> json \<Rightarrow> search_error + search_match" where
  "submatch_of p line line_text sub =
     (case Option.bind (jget sub ''start'') as_u64 of
        None \<Rightarrow> Inl MalformedMatch
      | Some start \<Rightarrow>
          (case chars_before line_text start of
             None \<Rightarrow> Inl MalformedMatch
           | Some n \<Rightarrow> Inr (match_on p line (trim_end_line line_text) n)))"

text \<open>\<open>collect\<close> into a result: the first error, or all values.\<close>

fun collect_results :: "('e + 'a) list \<Rightarrow> 'e + 'a list" where
  "collect_results [] = Inr []"
| "collect_results (Inl e # rs) = Inl e"
| "collect_results (Inr x # rs) =
     (case collect_results rs of Inl e \<Rightarrow> Inl e | Inr xs \<Rightarrow> Inr (x # xs))"

text \<open>Joined behind a root, a leading dot is no component any more.\<close>

definition join_found :: "path \<Rightarrow> path \<Rightarrow> path" where
  "join_found root p =
     (if is_absolute p then p
      else root @ (case p of CurDir # q \<Rightarrow> if root = [] then p else q | _ \<Rightarrow> p))"

definition match_record :: "path \<Rightarrow> json \<Rightarrow> search_error + search_match list" where
  "match_record root v =
     (case jget v ''data'' of
        None \<Rightarrow> Inl MalformedMatch
      | Some d \<Rightarrow>
     (case (Option.bind (jget d ''path'') (\<lambda>p. get_string p ''text''),
            Option.bind (jget d ''lines'') (\<lambda>l. get_string l ''text''),
            Option.bind (jget d ''line_number'') as_u64, Option.bind (jget d ''submatches'') as_list) of
        (Some raw_path, Some line_text, Some line, Some submatches) \<Rightarrow>
          if submatches = [] then Inl MalformedMatch
          else collect_results
            (map (submatch_of (join_found root (path_of_text raw_path)) line line_text) submatches)
      | _ \<Rightarrow> Inl MalformedMatch))"

definition parse_rg_json_line ::
    "(utext \<Rightarrow> utext + json) \<Rightarrow> path \<Rightarrow> utext \<Rightarrow> search_error + search_match list" where
  "parse_rg_json_line from_str root raw =
     (case from_str raw of
        Inl e \<Rightarrow> Inl (MalformedJson e)
      | Inr v \<Rightarrow> if get_string v ''type'' \<noteq> Some (ustr ''match'') then Inr [] else match_record root v)"

end
