(* ===== verification/Search_Claims.thy ===== *)
theory Search_Claims
  imports Search
begin

text \<open>
  What the matchers of workspace search find: quick open ranks exactly the paths the query is a
  subsequence of, text search finds exactly the occurrences, and ripgrep's records are read occurrence
  by occurrence.
\<close>

section \<open>Subsequences\<close>

definition fold_char :: "unicode_api \<Rightarrow> bool \<Rightarrow> uchar \<Rightarrow> utext" where
  "fold_char U sensitive c = (if sensitive then [c] else u_lower U [c])"

lemma chars_equal_fold: "chars_equal U l r s \<longleftrightarrow> fold_char U s l = fold_char U s r"
  by (simp add: chars_equal_def fold_char_def)

text \<open>The query stands in the text in order, gaps allowed, in the case the query asks for.\<close>

definition in_order :: "unicode_api \<Rightarrow> utext \<Rightarrow> utext \<Rightarrow> bool" where
  "in_order U query s \<longleftrightarrow>
     subseq (map (fold_char U (smart_case U query)) query) (map (fold_char U (smart_case U query)) s)"

lemma positions_found:
  "positions_loop U s ns n hay i ps \<noteq> None \<longleftrightarrow> subseq (map (fold_char U s) (n # ns)) (map (fold_char U s) hay)"
  by (induction hay arbitrary: n ns i ps) (auto simp: chars_equal_fold split: list.split)

definition rising :: "nat list \<Rightarrow> bool" where
  "rising ps \<longleftrightarrow> sorted_wrt (<) ps"

lemma positions_loop_spec:
  assumes "positions_loop U s ns n hay i ps = Some qs"
  shows "\<exists>rs. qs = ps @ rs \<and> length rs = Suc (length ns) \<and> rising rs \<and> (\<forall>r \<in> set rs. i \<le> r \<and> r < i + length hay)"
  using assms
proof (induction hay arbitrary: n ns i ps)
  case (Cons c cs)
  show ?case
  proof (cases "chars_equal U c n s")
    case False
    then show ?thesis using Cons.IH [of ns n "i + 1" ps] Cons.prems by fastforce
  next
    case True
    show ?thesis
    proof (cases ns)
      case Nil
      then show ?thesis using True Cons.prems by (auto simp: rising_def)
    next
      case (Cons m ms)
      then obtain rs where "qs = (ps @ [i]) @ rs" "length rs = Suc (length ms)" "rising rs"
        "\<forall>r \<in> set rs. i + 1 \<le> r \<and> r < i + 1 + length cs"
        using Cons.IH [of ms m "i + 1" "ps @ [i]"] Cons.prems True by auto
      then show ?thesis using Cons by (intro exI [of _ "i # rs"]) (auto simp: rising_def)
    qed
  qed
qed simp

lemma sum_gaps_span: "rising ps \<Longrightarrow> ps \<noteq> [] \<Longrightarrow> sum_gaps ps + length ps = last ps - hd ps + 1"
proof (induction ps rule: sum_gaps.induct)
  case (1 a b ps)
  have "b \<le> last (b # ps)"
    using 1(2) last_in_set [of ps] by (cases "ps = []") (auto simp: rising_def intro: less_imp_le)
  then show ?case using 1 by (auto simp: rising_def split: if_splits)
qed (simp_all add: rising_def)

lemma subsequence_found:
  "query \<noteq> [] \<Longrightarrow> subsequence_positions U hay query (smart_case U query) \<noteq> None \<longleftrightarrow> in_order U query hay"
  unfolding in_order_def subsequence_positions_def
  using positions_found [of U "smart_case U query"] by (cases query) auto

lemma subsequence_spec:
  assumes "subsequence_positions U hay query s = Some ps"
  shows "length ps = length query \<and> ps \<noteq> [] \<and> rising ps \<and> (\<forall>r \<in> set ps. r < length hay)"
  using assms positions_loop_spec [of U s "tl query" "hd query" hay 0 "[]" ps]
  by (cases query) (auto simp: subsequence_positions_def)

section \<open>Quick open\<close>

definition name_of :: "path \<Rightarrow> utext" where
  "name_of p = (case path_file_name p of Some n \<Rightarrow> n | None \<Rightarrow> [])"

lemma score_file_found:
  assumes "query \<noteq> []"
  shows "score_file U query (smart_case U query) p \<noteq> None \<longleftrightarrow> in_order U query (path_components_display p)"
  using subsequence_found [OF assms, of U "path_components_display p"]
  by (auto simp: score_file_def Let_def split: option.splits)

lemma score_file_spec:
  assumes "query \<noteq> []" "score_file U query (smart_case U query) p = Some (sc, q)"
  shows "q = p \<and> filename_miss sc = (\<not> in_order U query (name_of p))
    \<and> stable_path sc = path_components_display p \<and> path_len sc = length (path_components_display p)
    \<and> first_match sc + length query + gap_count sc \<le> path_len sc"
proof -
  let ?d = "path_components_display p"
  obtain ps where ps: "subsequence_positions U ?d query (smart_case U query) = Some ps"
    and sc: "q = p" "sc = Score (\<not> (case path_file_name p of
                 Some name \<Rightarrow> subsequence_positions U name query (smart_case U query) \<noteq> None
               | None \<Rightarrow> False)) (sum_gaps ps) (ps ! 0) (length ?d) ?d"
    using assms(2) by (auto simp: score_file_def Let_def split: option.splits)
  note spec = subsequence_spec [OF ps]
  have "last ps < length ?d" "hd ps = ps ! 0" using spec by (auto simp: hd_conv_nth)
  moreover have "hd ps \<le> last ps" using spec by (cases ps) (auto simp: rising_def less_imp_le)
  ultimately have "ps ! 0 + length query + sum_gaps ps \<le> length ?d"
    using sum_gaps_span [of ps] spec by linarith
  moreover have "(case path_file_name p of
                 Some name \<Rightarrow> subsequence_positions U name query (smart_case U query) \<noteq> None
               | None \<Rightarrow> False) = in_order U query (name_of p)"
    using subsequence_found [OF assms(1), of U] assms(1)
    by (auto simp: name_of_def in_order_def split: option.split)
  ultimately show ?thesis by (simp add: sc)
qed

lemma map_filter_mset: "mset (map snd (List.map_filter (score_file U q s) files)) = mset (filter (\<lambda>p. score_file U q s p \<noteq> None) files)"
proof (induction files)
  case (Cons p ps)
  have "score_file U q s p = Some x \<Longrightarrow> snd x = p" for x
    by (auto simp: score_file_def Let_def split: option.splits)
  then show ?case using Cons by (auto simp: List.map_filter_simps split: option.split)
qed (simp add: List.map_filter_simps)

definition rank_of :: "unicode_api \<Rightarrow> utext \<Rightarrow> path \<Rightarrow> score" where
  "rank_of U query p = fst (the (score_file U query (smart_case U query) p))"

text \<open>
  Quick open shows every path the query is a subsequence of, as often as it is listed, and no other:
  those whose file name alone has the query come first, then those with fewer gaps, an earlier
  match and a shorter path, ties in the order of their text.  An empty query lists every path in
  the order of its text.
\<close>

theorem quick_open_ranks:
  "(query \<noteq> [] \<longrightarrow>
      mset (rank_files U files query) = mset (filter (\<lambda>p. in_order U query (path_components_display p)) files)
    \<and> sorted (map (rank_of U query) (rank_files U files query))
    \<and> (\<forall>p \<in> set (rank_files U files query).
         filename_miss (rank_of U query p) = (\<not> in_order U query (name_of p))
         \<and> stable_path (rank_of U query p) = path_components_display p
         \<and> first_match (rank_of U query p) + length query + gap_count (rank_of U query p)
             \<le> length (path_components_display p)))
   \<and> mset (rank_files U files []) = mset files
   \<and> sorted (map path_components_display (rank_files U files []))"
proof -
  { assume q: "query \<noteq> []"
    let ?s = "score_file U query (smart_case U query)"
    let ?l = "sort_key fst (List.map_filter ?s files)"
    have r: "rank_files U files query = map snd ?l" using q by (simp add: rank_files_def)
    have "mset (map snd ?l) = mset (map snd (List.map_filter ?s files))" by simp
    then have m: "mset (rank_files U files query) = mset (filter (\<lambda>p. in_order U query (path_components_display p)) files)"
      using map_filter_mset [of U query "smart_case U query" files] score_file_found [OF q] by (simp add: r)
    have each: "?s (snd x) = Some x" if x: "x \<in> set ?l" for x
    proof -
      obtain p where p: "?s p = Some x" using x map_filter_set [of x ?s files] by auto
      then have "snd x = p" using score_file_spec [OF q] by (metis prod.collapse)
      with p show ?thesis by simp
    qed
    then have "map (rank_of U query) (map snd ?l) = map fst ?l" by (auto simp: rank_of_def)
    then have s: "sorted (map (rank_of U query) (rank_files U files query))"
      unfolding r by (metis sorted_sort_key)
    have "filename_miss (rank_of U query p) = (\<not> in_order U query (name_of p))
         \<and> stable_path (rank_of U query p) = path_components_display p
         \<and> first_match (rank_of U query p) + length query + gap_count (rank_of U query p)
             \<le> length (path_components_display p)" if "p \<in> set (rank_files U files query)" for p
    proof -
      from that obtain x where "x \<in> set ?l" "p = snd x" by (auto simp: r)
      with each have "?s p = Some x" by simp
      with score_file_spec [OF q, of U p "fst x" "snd x"] show ?thesis by (simp add: rank_of_def)
    qed
    note m s this }
  then show ?thesis by (auto simp: rank_files_def)
qed


section \<open>Text search\<close>

lemma hit_at_fold:
  assumes "start + length needle \<le> length cs"
  shows "hit_at U s needle cs start \<longleftrightarrow> occurs (map (fold_char U s) needle) (map (fold_char U s) cs) start"
proof -
  have "list_all (\<lambda>(l, r). fold_char U s l = fold_char U s r) (zip xs ys)
      \<longleftrightarrow> map (fold_char U s) xs = map (fold_char U s) ys" if "length xs = length ys" for xs ys
    using that by (induction xs ys rule: list_induct2) auto
  from this [of "take (length needle) (drop start cs)" needle] assms show ?thesis
    by (simp add: hit_at_def occurs_def chars_equal_fold take_map drop_map)
qed


lemma literal_starts_match:
  assumes "start \<le> length cs"
  shows "literal_starts U s needle cs start
    = match_starts (map (fold_char U s) needle) (map (fold_char U s) (drop start cs)) start"
  using assms
proof (induction U s needle cs start rule: literal_starts.induct)
  case (1 U s needle cs start)
  let ?f = "map (fold_char U s)"
  show ?case
  proof (cases "needle = [] \<or> length cs < start + length needle")
    case True
    then show ?thesis using 1(3)
      by (subst literal_starts.simps, subst match_starts.simps) auto
  next
    case False
    then have h: "hit_at U s needle cs start \<longleftrightarrow> take (length needle) (?f (drop start cs)) = ?f needle"
      using hit_at_fold [of start needle cs U s] by (simp add: occurs_def drop_map)
    have "tl (?f (drop start cs)) = ?f (drop (start + 1) cs)"
      "drop (length needle) (?f (drop start cs)) = ?f (drop (start + length needle) cs)"
      by (simp_all add: tl_drop drop_Suc flip: map_tl) (simp add: drop_map add.commute)
    moreover have "Suc start \<le> length cs" using False by (cases needle) auto
    ultimately show ?thesis using 1 False h
      by (subst literal_starts.simps, subst match_starts.simps) auto
  qed
qed

lemma enumerate_nth: "enumerate 0 xs = map (\<lambda>i. (i, xs ! i)) [0..<length xs]"
  by (rule nth_equalityI) (simp_all add: nth_enumerate_eq)

text \<open>A query stands on a line at an index, in the case the query asks for.\<close>

definition stands_at :: "unicode_api \<Rightarrow> utext \<Rightarrow> utext \<Rightarrow> nat \<Rightarrow> bool" where
  "stands_at U query line i \<longleftrightarrow> i + length query \<le> length line
     \<and> list_all2 (\<lambda>l r. chars_equal U l r (smart_case U query)) (take (length query) (drop i line)) query"

lemma stands_at_occurs:
  assumes "query \<noteq> []"
  shows "stands_at U query line i \<longleftrightarrow>
    occurs (map (fold_char U (smart_case U query)) query) (map (fold_char U (smart_case U query)) line) i"
proof -
  let ?f = "map (fold_char U (smart_case U query))"
  have "occurs (?f query) (?f line) i \<Longrightarrow> i + length query \<le> length line"
    using occurs_length [of "?f query" "?f line" i] assms by simp
  moreover have "list_all2 (\<lambda>l r. fold_char U s l = fold_char U s r) xs ys
      \<longleftrightarrow> map (fold_char U s) xs = map (fold_char U s) ys" for s xs ys
    by (induction xs arbitrary: ys) (auto simp: list_all2_Cons1 map_eq_Cons_conv Cons_eq_map_conv)
  ultimately show ?thesis
    by (auto simp: stands_at_def occurs_def chars_equal_fold take_map drop_map)
qed

lemma literal_starts_spec:
  assumes "query \<noteq> []" "ms = literal_starts U (smart_case U query) query line 0"
  shows "sorted_wrt (\<lambda>x y. x + length query \<le> y) ms \<and> (\<forall>x \<in> set ms. stands_at U query line x)
    \<and> (\<forall>i. stands_at U query line i \<longrightarrow> (\<exists>x \<in> set ms. x \<le> i \<and> i < x + length query))"
  using match_starts_spec [of "map (fold_char U (smart_case U query)) query"
      "map (fold_char U (smart_case U query)) line" 0] assms(1)
  by (simp add: assms(2) literal_starts_match stands_at_occurs)

text \<open>
  Without ripgrep, text search reports lines and columns from one, in order: every match reported
  has the query standing there, matches do not overlap, and wherever the query stands a match
  reported covers that place.
\<close>

theorem literal_search_exact:
  assumes "query \<noteq> []" and "ls = literal_lines contents"
  shows "\<exists>starts. literal_matches U p contents query
      = concat (map (\<lambda>i. map (match_on p (i + 1) (ls ! i)) (starts i)) [0..<length ls])
    \<and> (\<forall>i < length ls. sorted_wrt (\<lambda>x y. x + length query \<le> y) (starts i)
        \<and> (\<forall>x \<in> set (starts i). stands_at U query (ls ! i) x)
        \<and> (\<forall>j. stands_at U query (ls ! i) j \<longrightarrow> (\<exists>x \<in> set (starts i). x \<le> j \<and> j < x + length query)))"
proof (intro exI conjI)
  let ?s = "\<lambda>i. literal_starts U (smart_case U query) query (ls ! i) 0"
  show "literal_matches U p contents query
      = concat (map (\<lambda>i. map (match_on p (i + 1) (ls ! i)) (?s i)) [0..<length ls])"
    using assms(1) by (simp add: literal_matches_def enumerate_nth comp_def assms(2))
  show "\<forall>i < length ls. sorted_wrt (\<lambda>x y. x + length query \<le> y) (?s i)
        \<and> (\<forall>x \<in> set (?s i). stands_at U query (ls ! i) x)
        \<and> (\<forall>j. stands_at U query (ls ! i) j \<longrightarrow> (\<exists>x \<in> set (?s i). x \<le> j \<and> j < x + length query))"
    using literal_starts_spec [OF assms(1) refl] by blast
qed

section \<open>Ripgrep\<close>

lemma chars_before_take:
  "n \<le> length s \<Longrightarrow> chars_before s (length (utf8_encode (take n s))) = Some n"
proof (induction s arbitrary: n)
  case (Cons c s)
  have "0 < length (utf8_char c)" by (simp add: utf8_char_def)
  then show ?case using Cons
    by (cases n) (auto simp: gr0_conv_Suc)
qed simp

lemma chars_before_Some:
  "chars_before s b = Some n \<Longrightarrow> n \<le> length s \<and> b = length (utf8_encode (take n s))"
  by (induction s b arbitrary: n rule: chars_before.induct) (auto split: if_splits)

lemma collect_results_Some: "collect_results (map Inr xs) = Inr xs"
  by (induction xs) simp_all

lemma collect_results_Inr: "collect_results rs = Inr xs \<longleftrightarrow> rs = map Inr xs"
proof
  show "collect_results rs = Inr xs \<Longrightarrow> rs = map Inr xs"
    by (induction rs arbitrary: xs rule: collect_results.induct) (auto split: sum.splits)
qed (simp add: collect_results_Some)

lemma collect_results_Inl: "collect_results rs = Inl e \<Longrightarrow> Inl e \<in> set rs"
  by (induction rs rule: collect_results.induct) (auto split: sum.splits)

definition start_offset :: "json \<Rightarrow> nat option" where
  "start_offset sub = Option.bind (jget sub ''start'') as_u64"

lemma submatch_of_Inr:
  "submatch_of p line txt sub = Inr m \<longleftrightarrow> (\<exists>n \<le> length txt.
     start_offset sub = Some (length (utf8_encode (take n txt))) \<and> m = match_on p line (trim_end_line txt) n)"
  by (auto simp: submatch_of_def start_offset_def chars_before_take dest: chars_before_Some split: option.splits)

text \<open>
  C35. A match record of ripgrep is read occurrence by occurrence: as many results as the record lists, in
  its order, each on the record's line and with its text less the line end, and at the column which
  stands as many bytes into the line as the record says, counted in chars from one.  A record that lists
  no occurrence, or one offset that is no char boundary of the line, is refused as malformed.
\<close>

theorem ripgrep_record_read:
  assumes "from_str raw = Inr v" and "get_string v ''type'' = Some (ustr ''match'')"
    and "jget v ''data'' = Some d"
    and "Option.bind (jget d ''path'') (\<lambda>p. get_string p ''text'') = Some name"
    and "Option.bind (jget d ''lines'') (\<lambda>l. get_string l ''text'') = Some txt"
    and "Option.bind (jget d ''line_number'') as_u64 = Some number"
    and "Option.bind (jget d ''submatches'') as_list = Some subs"
  shows "(parse_rg_json_line from_str root raw = Inr ms \<longleftrightarrow> subs \<noteq> [] \<and>
      list_all2 (\<lambda>sub m. \<exists>n \<le> length txt. start_offset sub = Some (length (utf8_encode (take n txt)))
        \<and> m = \<lparr>sm_path = join_found root (path_of_text name), sm_line = Some number, sm_column = Some (n + 1),
               sm_text = Some (trim_end_line txt)\<rparr>) subs ms)
    \<and> (parse_rg_json_line from_str root raw = Inl e \<longrightarrow> e = MalformedMatch)"
proof -
  let ?p = "join_found root (path_of_text name)"
  have read: "parse_rg_json_line from_str root raw = (if subs = [] then Inl MalformedMatch
      else collect_results (map (submatch_of ?p number txt) subs))"
    using assms by (simp add: parse_rg_json_line_def match_record_def)
  have "map (submatch_of ?p number txt) subs = map Inr ms
      \<longleftrightarrow> list_all2 (\<lambda>sub m. submatch_of ?p number txt sub = Inr m) subs ms"
    by (simp add: list_all2_eq [symmetric] list_all2_map1 list_all2_map2 list.rel_eq [symmetric])
  moreover have "e = MalformedMatch" if "collect_results (map (submatch_of ?p number txt) subs) = Inl e"
    using collect_results_Inl [OF that] by (auto simp: submatch_of_def split: option.splits)
  ultimately show ?thesis
    by (simp add: read collect_results_Inr submatch_of_Inr match_on_def)
qed

text \<open>
  A matching line that is not UTF-8, which ripgrep writes as bytes, is refused as malformed; the
  search without ripgrep passes such files over.
\<close>

theorem binary_line_is_refused:
  "match_record root (jobj
     [(''type'', JString (ustr ''match'')),
      (''data'', jobj
        [(''path'', jobj [(''text'', JString name)]),
         (''lines'', jobj [(''bytes'', JString encoded)]),
         (''line_number'', JInt 1), (''submatches'', JArray subs)])]) = Inl MalformedMatch"
  by (simp add: match_record_def get_string_def)


section \<open>Witnesses\<close>

lemma quick_open_ranks_witness:
  "mset (rank_files ascii_unicode [[Normal [97, 98]], [Normal [98], Normal [99]], [Normal [99]]] [98])
     = {#[Normal [97, 98]], [Normal [98], Normal [99]]#}"
proof -
  have "in_order ascii_unicode [98] (path_components_display [Normal [97, 98]])"
    "in_order ascii_unicode [98] (path_components_display [Normal [98], Normal [99]])"
    "\<not> in_order ascii_unicode [98] (path_components_display [Normal [99]])"
    by (simp_all add: in_order_def fold_char_def smart_case_def ascii_unicode_def ascii_lower_def ustr_def)
  then show ?thesis
    using quick_open_ranks [of "[98]" ascii_unicode "[[Normal [97, 98]], [Normal [98], Normal [99]], [Normal [99]]]"]
    by simp
qed

lemma literal_search_exact_witness:
  "\<exists>starts. literal_matches ascii_unicode [Normal [120]] [97, 10, 98, 97, 97] [97]
      = concat (map (\<lambda>i. map (match_on [Normal [120]] (i + 1) ([[97], [98, 97, 97]] ! i)) (starts i)) [0..<2])
    \<and> set (starts 1) = {1, 2}"
proof -
  have ls: "[[97], [98, 97, 97]] = literal_lines [97, 10, 98, 97, 97]"
    by (simp add: literal_lines_def drop_last_cr_def)
  obtain starts where s: "literal_matches ascii_unicode [Normal [120]] [97, 10, 98, 97, 97] [97]
      = concat (map (\<lambda>i. map (match_on [Normal [120]] (i + 1) ([[97], [98, 97, 97]] ! i)) (starts i)) [0..<2])"
    and all: "\<forall>x \<in> set (starts 1). stands_at ascii_unicode [97] [98, 97, 97] x"
      "\<forall>j. stands_at ascii_unicode [97] [98, 97, 97] j \<longrightarrow> (\<exists>x \<in> set (starts 1). x \<le> j \<and> j < x + 1)"
    using literal_search_exact [of "[97]" "[[97], [98, 97, 97]]", OF _ ls, of ascii_unicode "[Normal [120]]"]
    by (auto simp: numeral_2_eq_2)
  have st: "stands_at ascii_unicode [97] [98, 97, 97] x \<longleftrightarrow> x = 1 \<or> x = 2" for x
  proof -
    consider "x = 0" | "x = 1" | "x = 2" | "3 \<le> x" by linarith
    then show ?thesis
      by cases (simp_all add: stands_at_def chars_equal_def smart_case_def ascii_unicode_def ascii_lower_def)
  qed
  have "j \<in> set (starts 1)" if j: "stands_at ascii_unicode [97] [98, 97, 97] j" for j
  proof -
    obtain x where "x \<in> set (starts 1)" "x \<le> j" "j < x + 1" using all(2) j by blast
    moreover from this have "x = j" by simp
    ultimately show ?thesis by simp
  qed
  then have "set (starts 1) = {1, 2}" using all(1) st by blast
  with s show ?thesis by blast
qed

text \<open>A record for the line whose chars are 233 and 97, one hit on it, after the two bytes of its first char.\<close>

definition sample_record :: json where
  "sample_record = jobj
     [(''type'', JString (ustr ''match'')),
      (''data'', jobj
        [(''path'', jobj [(''text'', JString [120])]),
         (''lines'', jobj [(''text'', JString [233, 97, 10])]),
         (''line_number'', JInt 7),
         (''submatches'', JArray [jobj [(''start'', JInt 2), (''end'', JInt 3)]])])]"

lemma ripgrep_record_read_witness:
  "parse_rg_json_line (\<lambda>_. Inr sample_record) [RootDir] [] = Inr
     [\<lparr>sm_path = [RootDir, Normal [120]], sm_line = Some 7, sm_column = Some 2, sm_text = Some [233, 97]\<rparr>]"
proof -
  let ?sub = "jobj [(''start'', JInt 2), (''end'', JInt 3)]"
  obtain d where d: "jget sample_record ''data'' = Some d"
    "Option.bind (jget d ''path'') (\<lambda>p. get_string p ''text'') = Some [120]"
    "Option.bind (jget d ''lines'') (\<lambda>l. get_string l ''text'') = Some [233, 97, 10]"
    "Option.bind (jget d ''line_number'') as_u64 = Some 7"
    "Option.bind (jget d ''submatches'') as_list = Some [?sub]"
    by (simp add: sample_record_def get_string_def)
  have t: "get_string sample_record ''type'' = Some (ustr ''match'')"
    by (simp add: sample_record_def get_string_def)
  have "join_found [RootDir] (path_of_text [120]) = [RootDir, Normal [120]]"
    by (simp add: join_found_def path_of_text_def is_absolute_def starts_with_def piece_component_def)
  moreover have "trim_end_line [233, 97, 10] = [233, 97]" by (simp add: trim_end_line_def)
  moreover have "\<exists>n \<le> length [233, 97, 10 :: uchar]. start_offset ?sub
      = Some (length (utf8_encode (take n [233, 97, 10]))) \<and> n + 1 = 2"
    by (intro exI [of _ 1]) (simp add: start_offset_def utf8_char_def)
  ultimately show ?thesis
    using ripgrep_record_read [OF refl t d, of "[RootDir]"] by simp
qed

end
