(* ===== verification/Search_Worker.thy ===== *)
theory Search_Worker
  imports Search "HOL-Library.Multiset"
begin

text \<open>
  The search worker, \<open>crates/search/src/worker.rs\<close>.  The client asks, cancels and closes; the worker
  thread takes what was asked, holds a text search back while more typing arrives, and runs the
  service, whose results are forwarded in bounded batches.  The two threads share the cancellation
  tokens: their interleaving is a list of moves.  A token is a number.  No lock joins the worker's
  reading of a token and what it reports next, so these are two moves, and a request or a cancellation
  may fall between them.
\<close>

section \<open>One request\<close>

definition max_batch :: nat where "max_batch = 64"

function chunks :: "nat \<Rightarrow> 'a list \<Rightarrow> 'a list list" where
  "chunks n xs = (if xs = [] \<or> n = 0 then [] else take n xs # chunks n (drop n xs))"
  by auto
termination by (relation "measure (\<lambda>(n, xs). length xs)") auto

declare chunks.simps [simp del]

text \<open>The bounded sink: what is forwarded of a service's event, and the count of forwarded matches.\<close>

fun forward_event :: "search_request \<Rightarrow> nat \<Rightarrow> search_event \<Rightarrow> search_event list \<times> nat" where
  "forward_event request already (SearchBatch i matches) =
     (if i \<noteq> sq_id request then ([], already)
      else (let kept = take (sq_limit request - already) matches in
            (map (SearchBatch (sq_id request)) (chunks max_batch kept), already + length kept)))"
| "forward_event request already _ = ([], already)"

fun forward_all :: "search_request \<Rightarrow> nat \<Rightarrow> search_event list \<Rightarrow> search_event list \<times> nat" where
  "forward_all request already [] = ([], already)"
| "forward_all request already (e # es) =
     (let (out, n) = forward_event request already e; (outs, n) = forward_all request n es in (out @ outs, n))"

text \<open>How a request that ran ends: the flag is read again when the service returns.\<close>

definition ending :: "search_request \<Rightarrow> bool \<Rightarrow> search_error option \<Rightarrow> nat \<Rightarrow> search_event" where
  "ending request cancelled err found =
     (if cancelled then SearchCancelled (sq_id request)
      else case err of
        Some e \<Rightarrow> SearchFailed (sq_id request) (search_error_fmt e) (0 < found)
      | None \<Rightarrow> SearchFinished (sq_id request) (sq_limit request \<le> found))"

record service_run =
  sr_events :: "search_event list"
  sr_error :: "search_error option"
  sr_cancelled :: bool

definition run_request :: "(search_request \<Rightarrow> service_run) \<Rightarrow> search_request \<Rightarrow> bool \<Rightarrow> search_event list" where
  "run_request service request cancelled =
     (if cancelled then [SearchCancelled (sq_id request)]
      else (let r = service request; (out, found) = forward_all request 0 (sr_events r) in
            SearchStarted (sq_id request) # out @ [ending request (sr_cancelled r) (sr_error r) found]))"

section \<open>Client and worker\<close>

datatype worker_request = Search search_request nat | StopWorker

text \<open>
  How far \<open>run_request\<close> has got: the flag was clear and the start is to be reported; the service runs and
  so many matches were forwarded; the flag was read and this ending is to be reported; it was reported
  and the token is to be taken out.
\<close>

datatype run_stage = Starting | Searching nat | Judged search_event | Told

record search_worker =
  sw_active :: "nat option"
  sw_cancelled :: "nat list"
  sw_next :: nat
  sw_queue :: "worker_request list"
  sw_waiting :: "(search_request \<times> nat) option"
  sw_running :: "(search_request \<times> nat \<times> run_stage) option"
  sw_events :: "search_event list"
  sw_open :: bool

definition search_worker_new :: search_worker where
  "search_worker_new = \<lparr>sw_active = None, sw_cancelled = [], sw_next = 0, sw_queue = [],
     sw_waiting = None, sw_running = None, sw_events = [], sw_open = True\<rparr>"

definition set_token :: "nat option \<Rightarrow> nat list \<Rightarrow> nat list" where
  "set_token token cancelled = (case token of Some t \<Rightarrow> List.insert t cancelled | None \<Rightarrow> cancelled)"

text \<open>\<open>SearchWorker::request\<close>, \<open>cancel\<close> and \<open>drop\<close>, on the client's thread.\<close>

definition worker_ask :: "search_request \<Rightarrow> search_worker \<Rightarrow> search_worker \<times> bool" where
  "worker_ask request s =
     (let token = sw_next s;
          s = s\<lparr>sw_next := token + 1, sw_cancelled := set_token (sw_active s) (sw_cancelled s),
                sw_active := Some token\<rparr> in
      if sw_open s then (s\<lparr>sw_queue := sw_queue s @ [Search request token]\<rparr>, True)
      else (s\<lparr>sw_cancelled := List.insert token (sw_cancelled s)\<rparr>, False))"

definition worker_cancel :: "search_worker \<Rightarrow> search_worker \<times> bool" where
  "worker_cancel s =
     (s\<lparr>sw_cancelled := set_token (sw_active s) (sw_cancelled s)\<rparr>, sw_active s \<noteq> None)"

definition worker_drop :: "search_worker \<Rightarrow> search_worker" where
  "worker_drop s = s\<lparr>sw_cancelled := set_token (sw_active s) (sw_cancelled s), sw_active := None,
     sw_queue := sw_queue s @ [StopWorker]\<rparr>"

text \<open>The worker's thread.  When a request is over its token is taken out, unless a newer one is there.\<close>

definition release_token :: "nat \<Rightarrow> search_worker \<Rightarrow> search_worker" where
  "release_token token s = (if sw_active s = Some token then s\<lparr>sw_active := None\<rparr> else s)"

definition emit :: "search_event list \<Rightarrow> search_worker \<Rightarrow> search_worker" where
  "emit es s = s\<lparr>sw_events := sw_events s @ es\<rparr>"

definition begin_request :: "search_request \<Rightarrow> nat \<Rightarrow> search_worker \<Rightarrow> search_worker" where
  "begin_request request token s = s\<lparr>sw_waiting := None, sw_running := Some (request, token,
     if token \<in> set (sw_cancelled s) then Judged (SearchCancelled (sq_id request)) else Starting)\<rparr>"

definition worker_stop :: "search_worker \<Rightarrow> search_worker" where
  "worker_stop s = s\<lparr>sw_waiting := None, sw_open := False\<rparr>"

text \<open>\<open>rx.recv()\<close> at the head of the loop, with the entry of \<open>debounce_request\<close>.\<close>

definition worker_take :: "bool \<Rightarrow> search_worker \<Rightarrow> search_worker" where
  "worker_take debounced s =
     (if \<not> sw_open s \<or> sw_waiting s \<noteq> None \<or> sw_running s \<noteq> None then s else
      case sw_queue s of
        [] \<Rightarrow> s
      | StopWorker # q \<Rightarrow> worker_stop (s\<lparr>sw_queue := q\<rparr>)
      | Search request token # q \<Rightarrow>
          (let s = s\<lparr>sw_queue := q\<rparr> in
           if sq_mode request \<noteq> TextMode \<or> \<not> debounced then begin_request request token s
           else s\<lparr>sw_waiting := Some (request, token)\<rparr>))"

text \<open>Within the debounce time: more arrived, or the time is over.\<close>

definition worker_replace :: "search_worker \<Rightarrow> search_worker" where
  "worker_replace s =
     (case (sw_waiting s, sw_queue s) of
        (Some (request, _), Search replacement token # q) \<Rightarrow>
          (let s = emit [SearchCancelled (sq_id request)] (s\<lparr>sw_queue := q\<rparr>) in
           if sq_mode replacement \<noteq> TextMode then begin_request replacement token s
           else s\<lparr>sw_waiting := Some (replacement, token)\<rparr>)
      | (Some _, StopWorker # q) \<Rightarrow> worker_stop (s\<lparr>sw_queue := q\<rparr>)
      | _ \<Rightarrow> s)"

definition worker_timeout :: "search_worker \<Rightarrow> search_worker" where
  "worker_timeout s =
     (case sw_waiting s of Some (request, token) \<Rightarrow> begin_request request token s | None \<Rightarrow> s)"

text \<open>The service reports something, or returns and the flag is read again.\<close>

definition worker_found :: "search_event \<Rightarrow> search_worker \<Rightarrow> search_worker" where
  "worker_found e s =
     (case sw_running s of
        Some (request, token, Searching found) \<Rightarrow>
          (let (out, n) = forward_event request found e in
           emit out (s\<lparr>sw_running := Some (request, token, Searching n)\<rparr>))
      | _ \<Rightarrow> s)"

definition worker_done :: "search_error option \<Rightarrow> search_worker \<Rightarrow> search_worker" where
  "worker_done err s =
     (case sw_running s of
        Some (request, token, Searching found) \<Rightarrow>
          s\<lparr>sw_running := Some (request, token,
             Judged (ending request (token \<in> set (sw_cancelled s)) err found))\<rparr>
      | _ \<Rightarrow> s)"

text \<open>The worker's own steps: the start or the ending is reported, and at last the token taken out.\<close>

definition worker_report :: "search_worker \<Rightarrow> search_worker" where
  "worker_report s =
     (case sw_running s of
        Some (request, token, Starting) \<Rightarrow>
          emit [SearchStarted (sq_id request)] (s\<lparr>sw_running := Some (request, token, Searching 0)\<rparr>)
      | Some (request, token, Judged e) \<Rightarrow> emit [e] (s\<lparr>sw_running := Some (request, token, Told)\<rparr>)
      | Some (request, token, Told) \<Rightarrow> release_token token (s\<lparr>sw_running := None\<rparr>)
      | _ \<Rightarrow> s)"

datatype worker_move =
    Ask search_request | CancelSearch | DropWorker
  | Take | Replace | Timeout | Found search_event | Done "search_error option" | Report

fun worker_move_step :: "bool \<Rightarrow> worker_move \<Rightarrow> search_worker \<Rightarrow> search_worker" where
  "worker_move_step d (Ask request) s = fst (worker_ask request s)"
| "worker_move_step d CancelSearch s = fst (worker_cancel s)"
| "worker_move_step d DropWorker s = worker_drop s"
| "worker_move_step d Take s = worker_take d s"
| "worker_move_step d Replace s = worker_replace s"
| "worker_move_step d Timeout s = worker_timeout s"
| "worker_move_step d (Found e) s = worker_found e s"
| "worker_move_step d (Done err) s = worker_done err s"
| "worker_move_step d Report s = worker_report s"

fun worker_moves :: "bool \<Rightarrow> worker_move list \<Rightarrow> search_worker \<Rightarrow> search_worker" where
  "worker_moves d [] s = s"
| "worker_moves d (m # ms) s = worker_moves d ms (worker_move_step d m s)"

lemma worker_moves_append: "worker_moves d (xs @ ys) s = worker_moves d ys (worker_moves d xs s)"
  by (induction xs arbitrary: s) simp_all

section \<open>Bounds\<close>

fun batch_of :: "search_event \<Rightarrow> search_match list" where
  "batch_of (SearchBatch _ ms) = ms"
| "batch_of _ = []"

fun is_ending :: "search_event \<Rightarrow> bool" where
  "is_ending (SearchFinished _ _) = True"
| "is_ending (SearchCancelled _) = True"
| "is_ending (SearchFailed _ _ _) = True"
| "is_ending _ = False"

fun event_request :: "search_event \<Rightarrow> nat" where
  "event_request (SearchStarted i) = i"
| "event_request (SearchBatch i _) = i"
| "event_request (SearchFinished i _) = i"
| "event_request (SearchCancelled i) = i"
| "event_request (SearchFailed i _ _) = i"

lemma chunks_Nil [simp]: "chunks n [] = []"
  by (simp add: chunks.simps)

lemma concat_batches [simp]: "concat (map (batch_of \<circ> SearchBatch i) cs) = concat cs"
  by (induction cs) auto

lemma concat_chunks: "0 < n \<Longrightarrow> concat (chunks n xs) = xs"
proof (induction n xs rule: chunks.induct)
  case (1 n xs)
  then show ?case by (cases "xs = []") (simp_all add: chunks.simps [of n xs])
qed

lemma chunks_sizes: "c \<in> set (chunks n xs) \<Longrightarrow> c \<noteq> [] \<and> length c \<le> n"
proof (induction n xs rule: chunks.induct)
  case (1 n xs)
  then show ?case by (cases "xs = [] \<or> n = 0") (auto simp: chunks.simps [of n xs])
qed

lemma forward_spec:
  assumes "forward_event request n e = (out, m)"
  shows "m = n + length (concat (map batch_of out)) \<and> m \<le> max n (sq_limit request)
    \<and> (\<forall>x \<in> set out. \<exists>ms. x = SearchBatch (sq_id request) ms \<and> ms \<noteq> [] \<and> length ms \<le> 64)"
proof (cases e)
  case (SearchBatch i ms)
  let ?kept = "take (sq_limit request - n) ms"
  have "\<forall>c \<in> set (chunks 64 ?kept). c \<noteq> [] \<and> length c \<le> 64" using chunks_sizes by blast
  then show ?thesis
    using assms SearchBatch by (auto simp: Let_def concat_chunks max_batch_def split: if_splits)
qed (use assms in auto)


lemma forward_all_spec:
  assumes "forward_all request n es = (out, m)"
  shows "m = n + length (concat (map batch_of out)) \<and> m \<le> max n (sq_limit request)
    \<and> (\<forall>x \<in> set out. \<exists>ms. x = SearchBatch (sq_id request) ms \<and> ms \<noteq> [] \<and> length ms \<le> 64)"
  using assms
proof (induction es arbitrary: n out)
  case (Cons e es)
  obtain o1 k where f: "forward_event request n e = (o1, k)" by (metis surj_pair)
  obtain o2 where g: "forward_all request k es = (o2, m)" "out = o1 @ o2"
    using Cons.prems f by (auto simp: Let_def split: prod.splits)
  show ?case using forward_spec [OF f] Cons.IH [OF g(1)] g(2) by auto
qed simp

text \<open>The matches of a request's own batches, in order, are what is forwarded, up to the limit.\<close>

definition own_matches :: "search_request \<Rightarrow> search_event list \<Rightarrow> search_match list" where
  "own_matches request es = concat (map batch_of (filter (\<lambda>e. event_request e = sq_id request) es))"

lemma forward_all_matches:
  assumes "forward_all request n es = (out, m)"
  shows "concat (map batch_of out) = take (sq_limit request - n) (own_matches request es)"
  using assms
proof (induction es arbitrary: n out)
  case (Cons e es)
  obtain o1 k where f: "forward_event request n e = (o1, k)" by (metis surj_pair)
  obtain o2 where g: "forward_all request k es = (o2, m)" "out = o1 @ o2"
    using Cons.prems f by (auto simp: Let_def split: prod.splits)
  have "concat (map batch_of o1) = take (sq_limit request - n)
      (if event_request e = sq_id request then batch_of e else []) \<and> k = n + length (concat (map batch_of o1))"
    using f by (cases e) (auto simp: Let_def concat_chunks max_batch_def split: if_splits)
  moreover have "l - (n + min b (l - n)) = l - (n + b)" for l b :: nat by (simp add: min_def)
  ultimately show ?case
    using Cons.IH [OF g(1)] g(2) by (auto simp: own_matches_def)
qed (simp add: own_matches_def)

text \<open>
  C36. A search that runs is told to the client as its start, its own matches in order up to the limit,
  in batches of one to 64, and one ending, and nothing else; it is called truncated exactly when
  as many matches as the limit were forwarded.
\<close>

theorem search_is_bounded:
  "\<exists>out last. run_request service request False = SearchStarted (sq_id request) # out @ [last]
    \<and> concat (map batch_of out) = take (sq_limit request) (own_matches request (sr_events (service request)))
    \<and> (\<forall>x \<in> set out. \<exists>ms. x = SearchBatch (sq_id request) ms \<and> 1 \<le> length ms \<and> length ms \<le> 64)
    \<and> is_ending last \<and> event_request last = sq_id request
    \<and> (\<forall>i truncated. last = SearchFinished i truncated \<longrightarrow>
        truncated = (sq_limit request \<le> length (own_matches request (sr_events (service request)))))"
proof -
  let ?r = "service request"
  obtain out m where f: "forward_all request 0 (sr_events ?r) = (out, m)" by (metis surj_pair)
  let ?last = "ending request (sr_cancelled ?r) (sr_error ?r) m"
  have "run_request service request False = SearchStarted (sq_id request) # out @ [?last]"
    by (simp add: run_request_def f Let_def)
  moreover have "is_ending ?last \<and> event_request ?last = sq_id request"
    by (simp add: ending_def split: option.split)
  moreover have "m = min (sq_limit request) (length (own_matches request (sr_events ?r)))"
    using forward_all_spec [OF f] forward_all_matches [OF f] by simp
  ultimately show ?thesis
    using forward_all_spec [OF f] forward_all_matches [OF f]
    by (intro exI [of _ out] exI [of _ ?last])
      (auto simp: ending_def Suc_le_eq split: option.splits if_splits)
qed


section \<open>Every request ends once\<close>

fun queued_search :: "worker_request \<Rightarrow> (search_request \<times> nat) option" where
  "queued_search (Search r t) = Some (r, t)"
| "queued_search StopWorker = None"

definition behind :: "search_worker \<Rightarrow> (search_request \<times> nat) list" where
  "behind s =
     (case sw_waiting s of Some x \<Rightarrow> [x] | None \<Rightarrow> []) @ List.map_filter queued_search (sw_queue s)"

text \<open>The searches whose ending is still to come, and those whose token is not taken out.\<close>

definition in_flight :: "search_worker \<Rightarrow> (search_request \<times> nat) list" where
  "in_flight s =
     (case sw_running s of
        Some (r, t, stage) \<Rightarrow> (if stage = Told then [] else [(r, t)])
      | None \<Rightarrow> [])
     @ behind s"

definition in_hand :: "search_worker \<Rightarrow> (search_request \<times> nat) list" where
  "in_hand s = (case sw_running s of Some (r, t, _) \<Rightarrow> [(r, t)] | None \<Rightarrow> []) @ behind s"

definition ended :: "search_event list \<Rightarrow> nat list" where
  "ended es = map event_request (filter is_ending es)"

fun asked :: "worker_move \<Rightarrow> nat list" where
  "asked (Ask r) = [sq_id r]"
| "asked _ = []"

definition all_asked :: "worker_move list \<Rightarrow> nat list" where
  "all_asked ms = concat (map asked ms)"

definition worker_ok :: "search_worker \<Rightarrow> bool" where
  "worker_ok s \<longleftrightarrow> sw_open s \<and> StopWorker \<notin> set (sw_queue s)
     \<and> (sw_waiting s \<noteq> None \<longrightarrow> sw_running s = None) \<and> distinct (map snd (in_hand s))
     \<and> (\<forall>(r, t) \<in> set (in_hand s). t < sw_next s \<and> (sw_active s = Some t \<or> t \<in> set (sw_cancelled s)))
     \<and> (\<forall>r t e. sw_running s = Some (r, t, Judged e) \<longrightarrow> is_ending e \<and> event_request e = sq_id r)"

lemmas lists_defs = in_flight_def in_hand_def behind_def

definition settled :: "search_worker \<Rightarrow> nat multiset" where
  "settled s = mset (ended (sw_events s)) + mset (map (sq_id \<circ> fst) (in_flight s))"

lemma forward_no_ending: "forward_event r n e = (out, m) \<Longrightarrow> filter is_ending out = []"
  using forward_spec [of r n e out m] by (auto simp: filter_empty_conv)

lemma release_fields [simp]:
  "sw_running (release_token t s) = sw_running s" "sw_waiting (release_token t s) = sw_waiting s"
  "sw_queue (release_token t s) = sw_queue s" "sw_events (release_token t s) = sw_events s"
  "sw_open (release_token t s) = sw_open s" "sw_next (release_token t s) = sw_next s"
  "sw_cancelled (release_token t s) = sw_cancelled s"
  "sw_active (release_token t s) = (if sw_active s = Some t then None else sw_active s)"
  by (simp_all add: release_token_def)

lemma emit_fields [simp]:
  "sw_running (emit es s) = sw_running s" "sw_waiting (emit es s) = sw_waiting s"
  "sw_queue (emit es s) = sw_queue s" "sw_events (emit es s) = sw_events s @ es"
  "sw_open (emit es s) = sw_open s" "sw_next (emit es s) = sw_next s"
  "sw_cancelled (emit es s) = sw_cancelled s" "sw_active (emit es s) = sw_active s"
  by (simp_all add: emit_def)

lemma ended_append [simp]: "ended [] = []" "ended (es @ fs) = ended es @ ended fs"
  "ended (e # es) = (if is_ending e then event_request e # ended es else ended es)"
  by (simp_all add: ended_def)

lemma ended_forward: "forward_event r n e = (out, m) \<Longrightarrow> ended out = []"
  by (simp add: ended_def forward_no_ending)

lemma begin_settled:
  assumes "sw_running s = None"
  shows "settled (begin_request r t s) = add_mset (sq_id r) (mset (ended (sw_events s))
    + mset (map (sq_id \<circ> fst) (List.map_filter queued_search (sw_queue s))))"
  using assms
  by (simp add: begin_request_def settled_def lists_defs)

lemma begin_ok:
  assumes "worker_ok (s\<lparr>sw_waiting := Some (r, t)\<rparr>)"
  shows "worker_ok (begin_request r t s)"
  using assms
  by (auto simp: begin_request_def worker_ok_def lists_defs)

lemma step_settles:
  assumes "worker_ok s" "m \<noteq> DropWorker"
  shows "settled (worker_move_step d m s) = settled s + mset (asked m)"
proof (cases m)
  case (Ask r)
  then show ?thesis using assms
    by (simp add: worker_ask_def Let_def settled_def lists_defs worker_ok_def map_filter_append
        List.map_filter_simps split: option.split)
next
  case CancelSearch
  then show ?thesis by (simp add: worker_cancel_def settled_def lists_defs)
next
  case Take
  show ?thesis
  proof (cases "sw_waiting s = None \<and> sw_running s = None")
    case False
    then show ?thesis using Take by (auto simp: worker_take_def)
  next
    case True
    have "settled (worker_take d s) = settled s" if "sw_queue s = x # q" for x q
      using that True assms(1)
      by (cases x) (simp_all add: worker_take_def begin_settled worker_ok_def settled_def [of s]
          settled_def [of "_ \<lparr>sw_waiting := _\<rparr>"] lists_defs List.map_filter_simps Let_def)
    then show ?thesis using Take by (cases "sw_queue s") (simp_all add: worker_take_def)
  qed
next
  case Replace
  show ?thesis
  proof (cases "sw_waiting s")
    case (Some w)
    then have r: "sw_running s = None" using assms(1) by (simp add: worker_ok_def)
    have "settled (worker_replace s) = settled s" if "sw_queue s = x # q" for x q
      using that Some r assms(1)
      by (cases x; cases w) (simp_all add: worker_replace_def begin_settled worker_ok_def settled_def [of s]
          settled_def [of "_ \<lparr>sw_waiting := _\<rparr>"] lists_defs List.map_filter_simps Let_def)
    then show ?thesis using Replace Some by (cases "sw_queue s"; cases w) (simp_all add: worker_replace_def)
  qed (simp add: Replace worker_replace_def)
next
  case Timeout
  show ?thesis
  proof (cases "sw_waiting s")
    case (Some w)
    then have r: "sw_running s = None" using assms(1) by (simp add: worker_ok_def)
    then show ?thesis using Timeout Some
      by (cases w) (simp add: worker_timeout_def begin_settled settled_def [of s] lists_defs)
  qed (simp add: Timeout worker_timeout_def)
next
  case (Found e)
  then show ?thesis
    by (auto simp: worker_found_def settled_def lists_defs ended_forward
        split: option.split run_stage.split prod.split)
next
  case (Done err)
  then show ?thesis
    by (auto simp: worker_done_def settled_def lists_defs split: option.split run_stage.split)
next
  case Report
  then show ?thesis using assms(1)
    by (auto simp: worker_report_def worker_ok_def settled_def lists_defs
        split: option.split run_stage.split)
qed (use assms in simp)


lemma ask_fields:
  assumes "sw_open s"
  shows "in_hand (fst (worker_ask r s)) = in_hand s @ [(r, sw_next s)]"
    "sw_next (fst (worker_ask r s)) = Suc (sw_next s)" "sw_active (fst (worker_ask r s)) = Some (sw_next s)"
    "set (sw_cancelled (fst (worker_ask r s))) = set (sw_cancelled s) \<union> set_option (sw_active s)"
    "sw_running (fst (worker_ask r s)) = sw_running s" "sw_waiting (fst (worker_ask r s)) = sw_waiting s"
    "sw_queue (fst (worker_ask r s)) = sw_queue s @ [Search r (sw_next s)]" "sw_open (fst (worker_ask r s))"
    "sw_events (fst (worker_ask r s)) = sw_events s"
  using assms by (auto simp: worker_ask_def Let_def lists_defs map_filter_append List.map_filter_simps
      set_token_def split: option.split)

lemma cancel_fields:
  "in_hand (fst (worker_cancel s)) = in_hand s"
  "set (sw_cancelled (fst (worker_cancel s))) = set (sw_cancelled s) \<union> set_option (sw_active s)"
  "sw_next (fst (worker_cancel s)) = sw_next s" "sw_active (fst (worker_cancel s)) = sw_active s"
  "sw_running (fst (worker_cancel s)) = sw_running s" "sw_waiting (fst (worker_cancel s)) = sw_waiting s"
  "sw_queue (fst (worker_cancel s)) = sw_queue s" "sw_open (fst (worker_cancel s)) = sw_open s"
  "sw_events (fst (worker_cancel s)) = sw_events s"
  by (auto simp: worker_cancel_def lists_defs set_token_def split: option.split)

lemma next_ok:
  assumes "worker_ok s" "sw_queue s = Search r t # q" "sw_running s = None"
  shows "worker_ok (s\<lparr>sw_queue := q, sw_waiting := Some (r, t)\<rparr>)"
  using assms by (auto simp: worker_ok_def lists_defs List.map_filter_simps)

lemma emit_ok: "worker_ok (emit es s) = worker_ok s"
  by (simp add: worker_ok_def lists_defs)

lemma stop_not_queued: "worker_ok s \<Longrightarrow> sw_queue s \<noteq> StopWorker # q"
  by (auto simp: worker_ok_def)

lemma report_fields:
  "sw_open (worker_report s) = sw_open s" "sw_queue (worker_report s) = sw_queue s"
  "sw_waiting (worker_report s) = sw_waiting s" "sw_next (worker_report s) = sw_next s"
  "sw_cancelled (worker_report s) = sw_cancelled s"
  by (auto simp: worker_report_def split: option.split run_stage.split)

lemma step_ok:
  assumes "worker_ok s" "m \<noteq> DropWorker"
  shows "worker_ok (worker_move_step d m s)"
proof (cases m)
  case (Ask r)
  then show ?thesis using assms(1) by (fastforce simp: worker_ok_def ask_fields)
next
  case CancelSearch
  then show ?thesis using assms(1) by (fastforce simp: worker_ok_def cancel_fields)
next
  case Take
  show ?thesis
  proof (cases "sw_waiting s = None \<and> sw_running s = None")
    case False
    then show ?thesis using Take assms(1) by (auto simp: worker_take_def)
  next
    case True
    have "worker_ok (worker_take d s)" if "sw_queue s = x # q" for x q
      using that True assms(1) next_ok [of s] stop_not_queued [of s q]
      by (cases x) (auto simp: worker_take_def Let_def intro!: begin_ok)
    then show ?thesis using Take assms(1) by (cases "sw_queue s") (simp_all add: worker_take_def)
  qed
next
  case Replace
  show ?thesis
  proof (cases "sw_waiting s")
    case (Some w)
    then have r: "sw_running s = None" using assms(1) by (simp add: worker_ok_def)
    have e: "emit es s\<lparr>sw_waiting := y\<rparr> = emit es (s\<lparr>sw_waiting := y\<rparr>)" for es s y by (simp add: emit_def)
    have "worker_ok (worker_replace s)" if "sw_queue s = x # q" for x q
      using that Some r assms(1) next_ok [of s] stop_not_queued [of s q]
      by (cases x; cases w) (auto simp: worker_replace_def Let_def emit_ok e intro!: begin_ok)
    then show ?thesis using Replace Some assms(1) by (cases "sw_queue s"; cases w) (simp_all add: worker_replace_def)
  qed (use Replace assms in \<open>simp add: worker_replace_def\<close>)
next
  case Timeout
  show ?thesis
  proof (cases "sw_waiting s")
    case (Some w)
    then have "s\<lparr>sw_waiting := Some (fst w, snd w)\<rparr> = s" by simp
    with assms(1) have "worker_ok (s\<lparr>sw_waiting := Some (fst w, snd w)\<rparr>)" by (simp only:)
    from begin_ok [OF this] show ?thesis using Timeout Some
      by (cases w) (simp add: worker_timeout_def)
  qed (use Timeout assms in \<open>simp add: worker_timeout_def\<close>)
next
  case (Found e)
  then show ?thesis using assms(1)
    by (auto simp: worker_found_def worker_ok_def lists_defs split: option.splits run_stage.splits prod.splits)
next
  case (Done err)
  then show ?thesis using assms(1)
    by (auto simp: worker_done_def worker_ok_def lists_defs ending_def
        split: option.splits run_stage.splits prod.splits)
next
  case Report
  show ?thesis
  proof (cases "\<exists>r t. sw_running s = Some (r, t, Told)")
    case True
    then obtain r t where run: "sw_running s = Some (r, t, Told)" by blast
    let ?u = "worker_report s"
    have u: "in_hand s = (r, t) # in_hand ?u" "sw_running ?u = None"
      "sw_active ?u = (if sw_active s = Some t then None else sw_active s)"
      using run by (simp_all add: worker_report_def lists_defs)
    then have "distinct (map snd (in_hand ?u))" "t \<notin> snd ` set (in_hand ?u)"
      "\<forall>(r', t') \<in> set (in_hand ?u). t' < sw_next s \<and> (sw_active s = Some t' \<or> t' \<in> set (sw_cancelled s))"
      using assms(1) by (simp_all add: worker_ok_def)
    moreover from this have "\<forall>(r', t') \<in> set (in_hand ?u). t' < sw_next s
        \<and> (sw_active ?u = Some t' \<or> t' \<in> set (sw_cancelled s))"
      by (fastforce simp: u(3) image_iff)
    ultimately show ?thesis using assms(1) Report u(2)
      by (simp add: worker_ok_def report_fields)
  next
    case False
    then have "in_hand (worker_report s) = in_hand s \<and> sw_active (worker_report s) = sw_active s
        \<and> (sw_running (worker_report s) = None) = (sw_running s = None)
        \<and> (\<forall>r t e. sw_running (worker_report s) \<noteq> Some (r, t, Judged e))"
      by (auto simp: worker_report_def lists_defs split: option.split run_stage.split)
    then show ?thesis using assms(1) Report by (simp add: worker_ok_def report_fields)
  qed
qed (use assms in simp)


lemma moves_ok:
  assumes "worker_ok s" "DropWorker \<notin> set ms"
  shows "worker_ok (worker_moves d ms s) \<and> settled (worker_moves d ms s) = settled s + mset (all_asked ms)"
  using assms
proof (induction ms arbitrary: s)
  case (Cons m ms)
  then have m: "m \<noteq> DropWorker" "DropWorker \<notin> set ms" by auto
  note IH = Cons.IH [OF step_ok [OF Cons.prems(1) m(1)] m(2)]
  show ?case using IH step_settles [OF Cons.prems(1) m(1)] by (simp add: all_asked_def)
qed (simp add: all_asked_def)

lemma worker_new_ok [simp]: "worker_ok search_worker_new" "settled search_worker_new = {#}"
  by (simp_all add: worker_ok_def search_worker_new_def lists_defs settled_def List.map_filter_simps)

text \<open>
  C34. Whatever the threads interleave, every search the client asked for is ended once, with a result,
  a failure or a cancellation, or is still in the worker's hands: none is answered twice, none is
  lost, and when the worker is idle every search has been ended.
\<close>

theorem searches_end_once:
  assumes "DropWorker \<notin> set ms" and "s = worker_moves debounced ms search_worker_new"
  shows "mset (ended (sw_events s)) + mset (map (sq_id \<circ> fst) (in_flight s)) = mset (all_asked ms)
    \<and> (sw_queue s = [] \<and> sw_waiting s = None \<and> sw_running s = None \<longrightarrow>
        mset (ended (sw_events s)) = mset (all_asked ms))"
proof -
  have "settled s = mset (all_asked ms)"
    using moves_ok [OF worker_new_ok(1) assms(1), of debounced] by (simp add: assms(2))
  moreover have "in_flight s = []" if "sw_queue s = [] \<and> sw_waiting s = None \<and> sw_running s = None"
    using that by (simp add: lists_defs List.map_filter_simps)
  ultimately show ?thesis by (auto simp: settled_def)
qed

section \<open>A newer search silences the older\<close>

definition answers_search :: "nat \<Rightarrow> search_event \<Rightarrow> bool" where
  "answers_search i e = (case e of SearchFinished j _ \<Rightarrow> i = j | SearchFailed j _ _ \<Rightarrow> i = j | _ \<Rightarrow> False)"

definition superseded :: "nat \<Rightarrow> search_worker \<Rightarrow> bool" where
  "superseded i s \<longleftrightarrow> (\<forall>(r, t) \<in> set (in_hand s). sq_id r = i \<longrightarrow> t \<in> set (sw_cancelled s))
     \<and> (\<forall>r t e. sw_running s = Some (r, t, Judged e) \<longrightarrow> \<not> answers_search i e)
     \<and> \<not> list_ex (answers_search i) (sw_events s)"

lemma begin_superseded:
  assumes "superseded i (s\<lparr>sw_waiting := Some (r, t)\<rparr>)" "sw_running s = None"
  shows "superseded i (begin_request r t s)"
  using assms by (auto simp: begin_request_def superseded_def lists_defs answers_search_def)

lemma next_superseded:
  assumes "superseded i s" "sw_queue s = Search r t # q" "sw_running s = None"
  shows "superseded i (s\<lparr>sw_queue := q, sw_waiting := Some (r, t)\<rparr>)"
  using assms by (auto simp: superseded_def lists_defs List.map_filter_simps)

lemma emit_superseded: "superseded i (emit [SearchCancelled j] s) = superseded i s"
  by (simp add: superseded_def lists_defs answers_search_def)

lemma forward_no_answer: "forward_event r n e = (out, m) \<Longrightarrow> \<not> list_ex (answers_search i) out"
  using forward_spec [of r n e out m] by (auto simp: list_ex_iff answers_search_def)

lemma step_superseded:
  assumes "worker_ok s" "superseded i s" "m \<noteq> DropWorker" "i \<notin> set (asked m)"
  shows "superseded i (worker_move_step d m s)"
proof (cases m)
  case (Ask r)
  then show ?thesis using assms by (auto simp: superseded_def ask_fields worker_ok_def)
next
  case CancelSearch
  then show ?thesis using assms by (auto simp: superseded_def cancel_fields)
next
  case Take
  show ?thesis
  proof (cases "sw_waiting s = None \<and> sw_running s = None")
    case False
    then show ?thesis using Take assms(2) by (auto simp: worker_take_def)
  next
    case True
    have "superseded i (worker_take d s)" if "sw_queue s = x # q" for x q
      using that True assms(1,2) next_superseded [of i s] stop_not_queued [of s q]
      by (cases x) (auto simp: worker_take_def Let_def intro!: begin_superseded)
    then show ?thesis using Take assms(2) by (cases "sw_queue s") (simp_all add: worker_take_def)
  qed
next
  case Replace
  show ?thesis
  proof (cases "sw_waiting s")
    case (Some w)
    then have r: "sw_running s = None" using assms(1) by (simp add: worker_ok_def)
    have e: "emit es s\<lparr>sw_waiting := y\<rparr> = emit es (s\<lparr>sw_waiting := y\<rparr>)" for es s y by (simp add: emit_def)
    have "superseded i (worker_replace s)" if "sw_queue s = x # q" for x q
      using that Some r assms(1,2) next_superseded [of i s] stop_not_queued [of s q]
      by (cases x; cases w) (auto simp: worker_replace_def Let_def emit_superseded e intro!: begin_superseded)
    then show ?thesis using Replace Some assms(2) by (cases "sw_queue s"; cases w) (simp_all add: worker_replace_def)
  qed (use Replace assms in \<open>simp add: worker_replace_def\<close>)
next
  case Timeout
  show ?thesis
  proof (cases "sw_waiting s")
    case (Some w)
    then have r: "sw_running s = None" "s\<lparr>sw_waiting := Some (fst w, snd w)\<rparr> = s"
      using assms(1) by (simp_all add: worker_ok_def)
    then have "superseded i (s\<lparr>sw_waiting := Some (fst w, snd w)\<rparr>)" using assms(2) by (simp only:)
    from begin_superseded [OF this r(1)] show ?thesis using Timeout Some
      by (cases w) (simp add: worker_timeout_def)
  qed (use Timeout assms in \<open>simp add: worker_timeout_def\<close>)
next
  case (Found e)
  then show ?thesis using assms(2)
    by (cases "sw_running s")
      (auto simp: worker_found_def superseded_def lists_defs forward_no_answer split: run_stage.splits prod.splits)
next
  case (Done err)
  then show ?thesis using assms(2)
    by (cases "sw_running s")
      (auto simp: worker_done_def superseded_def lists_defs ending_def answers_search_def
        split: run_stage.splits option.splits if_splits)
next
  case Report
  then show ?thesis using assms(2)
    by (cases "sw_running s")
      (auto simp: worker_report_def superseded_def lists_defs answers_search_def split: run_stage.splits)
qed (use assms in simp)

lemma moves_superseded:
  assumes "worker_ok s" "superseded i s" "DropWorker \<notin> set ms" "i \<notin> set (all_asked ms)"
  shows "superseded i (worker_moves d ms s)"
  using assms
proof (induction ms arbitrary: s)
  case (Cons m ms)
  then show ?case using step_ok [of s m d] step_superseded [of s i m d] by (auto simp: all_asked_def)
qed simp

text \<open>
  C33. Once a newer search is asked for, an older one that is still open, and has not yet read its
  cancellation flag for the last time, never reports that it finished or failed: whatever the threads do
  after that, it can only be cancelled.  (One that has read the flag just before reports what it decided.)
\<close>

theorem newer_search_wins:
  assumes "s = worker_moves debounced ms search_worker_new" and "i \<notin> set (ended (sw_events s))"
    and "\<forall>r t e. sw_running s = Some (r, t, Judged e) \<longrightarrow> sq_id r \<noteq> i"
    and "sq_id newer \<noteq> i" and "i \<notin> set (all_asked later)"
    and "DropWorker \<notin> set (ms @ later)"
  shows "\<forall>e \<in> set (sw_events (worker_moves debounced (Ask newer # later) s)).
     event_request e = i \<and> is_ending e \<longrightarrow> e = SearchCancelled i"
proof -
  let ?s = "fst (worker_ask newer s)"
  have ok: "worker_ok s" using moves_ok [OF worker_new_ok(1), of ms debounced] assms(1,6) by simp
  have "\<not> answers_search i e" if "e \<in> set (sw_events s)" for e
    using assms(2) that by (cases e) (force simp: ended_def answers_search_def)+
  moreover have "\<not> answers_search i e" if "sw_running s = Some (r, t, Judged e)" for r t e
    using ok assms(3) that by (cases e) (auto simp: worker_ok_def answers_search_def)
  ultimately have "superseded i ?s"
    using ok assms(4) by (fastforce simp: superseded_def ask_fields worker_ok_def list_ex_iff)
  moreover have "worker_ok ?s" using step_ok [OF ok, of "Ask newer" debounced] by simp
  ultimately have "superseded i (worker_moves debounced later ?s)"
    using moves_superseded assms(5,6) by simp
  then show ?thesis
    by (auto simp: superseded_def list_ex_iff answers_search_def split: search_event.splits)
      (metis is_ending.elims(2) event_request.simps search_event.distinct)
qed


section \<open>Witnesses\<close>

definition files_search :: "nat \<Rightarrow> search_request" where
  "files_search i = \<lparr>sq_id = i, sq_root = [RootDir], sq_mode = FilesMode, sq_query = [97], sq_limit = 1\<rparr>"

definition found_file :: "utext \<Rightarrow> search_match" where
  "found_file name = \<lparr>sm_path = [RootDir, Normal name], sm_line = None, sm_column = None, sm_text = None\<rparr>"

lemma search_is_bounded_witness:
  "\<exists>last out. run_request (\<lambda>_. \<lparr>sr_events = [SearchBatch 7 [found_file [97], found_file [98]], SearchCancelled 7],
        sr_error = None, sr_cancelled = False\<rparr>) (files_search 7) False = SearchStarted 7 # out @ [last]
    \<and> concat (map batch_of out) = [found_file [97]]"
  using search_is_bounded [of "\<lambda>_. \<lparr>sr_events = [SearchBatch 7 [found_file [97], found_file [98]], SearchCancelled 7],
        sr_error = None, sr_cancelled = False\<rparr>" "files_search 7"]
  by (auto simp: own_matches_def files_search_def)

lemma searches_end_once_witness:
  "mset (ended (sw_events (worker_moves True
     [Ask (files_search 1), Take, Report, Ask (files_search 2), Done None, Report, Report, Take, Report, Done None, Report]
     search_worker_new))) = {#1, 2#}"
  using searches_end_once [of "[Ask (files_search 1), Take, Report, Ask (files_search 2), Done None, Report, Report,
      Take, Report, Done None, Report]", OF _ refl, of True]
  by (simp add: search_worker_new_def worker_ask_def worker_take_def worker_done_def worker_report_def begin_request_def
      release_token_def emit_def set_token_def files_search_def ending_def all_asked_def lists_defs
      List.map_filter_simps Let_def)

lemma newer_search_wins_witness:
  "{e \<in> set (sw_events (worker_moves True [Ask (files_search 2), Done None, Report]
       (worker_moves True [Ask (files_search 1), Take, Report] search_worker_new))).
     event_request e = 1 \<and> is_ending e} \<subseteq> {SearchCancelled 1}"
proof -
  let ?s = "worker_moves True [Ask (files_search 1), Take, Report] search_worker_new"
  have "1 \<notin> set (ended (sw_events ?s))" "\<forall>r t e. sw_running ?s = Some (r, t, Judged e) \<longrightarrow> sq_id r \<noteq> 1"
    by (simp_all add: search_worker_new_def worker_ask_def worker_take_def worker_report_def begin_request_def emit_def
        set_token_def files_search_def Let_def)
  from newer_search_wins [OF refl this, of "files_search 2" "[Done None, Report]"]
  have "\<forall>e \<in> set (sw_events (worker_moves True [Ask (files_search 2), Done None, Report] ?s)).
      event_request e = 1 \<and> is_ending e \<longrightarrow> e = SearchCancelled 1"
    by (simp add: files_search_def all_asked_def)
  then show ?thesis by blast
qed

end
