(* ===== verification/Search_Overlay.thy ===== *)
theory Search_Overlay
  imports Search "HOL-Library.Option_ord"
begin

text \<open>
  The state of the search overlay, quick open and workspace text search:
  \<open>crates/app/src/search_state.rs\<close>.  The file names quick open matches are ranked by \<open>rank_files\<close>,
  text matches are kept in the order of path, line and column.
\<close>

section \<open>State\<close>

definition file_candidate_limit :: nat where "file_candidate_limit = 20000"
definition visible_limit :: nat where "visible_limit = 200"
definition text_match_limit :: nat where "text_match_limit = 1000"

datatype search_status = SsWaiting | SsSearching | SsFinished | SsCancelled | SsFailed utext

record 'pane search_overlay =
  so_mode :: search_mode
  so_query :: utext
  so_request :: nat
  so_root :: path
  so_matches :: "search_match list"
  so_visible :: "nat list"
  so_selected :: nat
  so_status :: search_status
  so_truncated :: bool
  so_previous_focus :: 'pane
  so_excluded :: "path set"
  so_preview_request :: "nat option"
  so_preview_path :: "path option"
  so_preview_line :: nat
  so_preview_start_line :: nat
  so_preview_text :: "utext option"

definition overlay_files :: "nat \<Rightarrow> path \<Rightarrow> 'pane \<Rightarrow> 'pane search_overlay" where
  "overlay_files request root focus =
     \<lparr>so_mode = FilesMode, so_query = [], so_request = request, so_root = root, so_matches = [],
      so_visible = [], so_selected = 0, so_status = SsWaiting, so_truncated = False,
      so_previous_focus = focus, so_excluded = {}, so_preview_request = None, so_preview_path = None,
      so_preview_line = 1, so_preview_start_line = 1, so_preview_text = None\<rparr>"

definition overlay_text :: "nat \<Rightarrow> path \<Rightarrow> 'pane \<Rightarrow> 'pane search_overlay" where
  "overlay_text request root focus = (overlay_files request root focus)\<lparr>so_mode := TextMode\<rparr>"

section \<open>Results\<close>

definition result_limit :: "'pane search_overlay \<Rightarrow> nat" where
  "result_limit s = (case so_mode s of FilesMode \<Rightarrow> file_candidate_limit | TextMode \<Rightarrow> text_match_limit)"

definition match_key :: "search_match \<Rightarrow> path \<times> nat option \<times> nat option" where
  "match_key m = (sm_path m, sm_line m, sm_column m)"

text \<open>The selection is kept inside what is shown.\<close>

definition clamp_selected :: "'pane search_overlay \<Rightarrow> 'pane search_overlay" where
  "clamp_selected s =
     (if length (so_visible s) \<le> so_selected s then s\<lparr>so_selected := length (so_visible s) - 1\<rparr> else s)"

text \<open>The index of a path: collected into a map, where a later match replaces an earlier one.\<close>

definition by_path :: "search_match list \<Rightarrow> path \<Rightarrow> nat option" where
  "by_path ms = map_of (rev (map (\<lambda>(i, m). (sm_path m, i)) (enumerate 0 ms)))"

definition refilter :: "unicode_api \<Rightarrow> 'pane search_overlay \<Rightarrow> 'pane search_overlay" where
  "refilter U s =
     (if so_mode s = TextMode
      then (let ms = sort_key match_key (so_matches s) in
            clamp_selected (s\<lparr>so_matches := ms, so_visible := [0..<min (length ms) visible_limit]\<rparr>))
      else clamp_selected (s\<lparr>so_visible := take visible_limit
        (List.map_filter (by_path (so_matches s)) (rank_files U (map sm_path (so_matches s)) (so_query s)))\<rparr>))"

definition clear_preview :: "'pane search_overlay \<Rightarrow> 'pane search_overlay" where
  "clear_preview s = s\<lparr>so_preview_request := None, so_preview_path := None, so_preview_line := 1,
     so_preview_text := None, so_preview_start_line := 1\<rparr>"

definition replace_results :: "unicode_api \<Rightarrow> search_match list \<Rightarrow> 'pane search_overlay \<Rightarrow> 'pane search_overlay" where
  "replace_results U ms s = refilter U (clear_preview (s\<lparr>so_matches := take (result_limit s) ms\<rparr>))"

definition append_results :: "unicode_api \<Rightarrow> search_match list \<Rightarrow> 'pane search_overlay \<Rightarrow> 'pane search_overlay" where
  "append_results U ms s =
     (let remaining = result_limit s - length (so_matches s) in
      refilter U (s\<lparr>so_matches := so_matches s
        @ take remaining (filter (\<lambda>m. sm_path m \<notin> so_excluded s) ms)\<rparr>))"

definition set_live_results ::
    "unicode_api \<Rightarrow> search_match list \<Rightarrow> path set \<Rightarrow> 'pane search_overlay \<Rightarrow> 'pane search_overlay" where
  "set_live_results U ms paths s = replace_results U ms (s\<lparr>so_excluded := paths\<rparr>)"

section \<open>Typing and moving\<close>

definition overlay_push_char :: "unicode_api \<Rightarrow> uchar \<Rightarrow> 'pane search_overlay \<Rightarrow> 'pane search_overlay" where
  "overlay_push_char U c s = refilter U (s\<lparr>so_query := so_query s @ [c]\<rparr>)"

definition overlay_pop_char :: "unicode_api \<Rightarrow> 'pane search_overlay \<Rightarrow> 'pane search_overlay" where
  "overlay_pop_char U s = refilter U (s\<lparr>so_query := butlast (so_query s)\<rparr>)"

definition overlay_move_down :: "'pane search_overlay \<Rightarrow> 'pane search_overlay" where
  "overlay_move_down s =
     (if so_visible s \<noteq> [] then s\<lparr>so_selected := (so_selected s + 1) mod length (so_visible s)\<rparr> else s)"

definition overlay_move_up :: "'pane search_overlay \<Rightarrow> 'pane search_overlay" where
  "overlay_move_up s =
     (if so_visible s \<noteq> []
      then s\<lparr>so_selected := (so_selected s + length (so_visible s) - 1) mod length (so_visible s)\<rparr> else s)"

definition nth_opt :: "'a list \<Rightarrow> nat \<Rightarrow> 'a option" where
  "nth_opt xs i = (if i < length xs then Some (xs ! i) else None)"

definition overlay_selected :: "'pane search_overlay \<Rightarrow> search_match option" where
  "overlay_selected s = Option.bind (nth_opt (so_visible s) (so_selected s)) (nth_opt (so_matches s))"

definition visible_matches :: "'pane search_overlay \<Rightarrow> search_match list" where
  "visible_matches s = List.map_filter (nth_opt (so_matches s)) (so_visible s)"

definition view_item :: "path \<Rightarrow> search_match \<Rightarrow> utext" where
  "view_item root m =
     (let p = path_components_display
        (case path_strip_prefix (sm_path m) root of Some q \<Rightarrow> q | None \<Rightarrow> sm_path m) in
      case (sm_line m, sm_column m, sm_text m) of
        (Some line, Some column, Some txt) \<Rightarrow>
          p @ ustr '':'' @ decimal line @ ustr '':'' @ decimal column @ ustr ''  '' @ trim txt
      | _ \<Rightarrow> p)"

definition view_items :: "'pane search_overlay \<Rightarrow> utext list" where
  "view_items s = map (view_item (so_root s)) (visible_matches s)"

section \<open>Requests, previews and status\<close>

definition set_request :: "nat \<Rightarrow> 'pane search_overlay \<Rightarrow> 'pane search_overlay" where
  "set_request request s = s\<lparr>so_request := request\<rparr>"

definition preview_key :: "'pane search_overlay \<Rightarrow> (path \<times> nat) option" where
  "preview_key s = map_option (\<lambda>p. (p, so_preview_line s)) (so_preview_path s)"

definition await_preview :: "nat \<Rightarrow> path \<Rightarrow> nat \<Rightarrow> 'pane search_overlay \<Rightarrow> 'pane search_overlay" where
  "await_preview request p line s = s\<lparr>so_preview_request := Some request, so_preview_path := Some p,
     so_preview_line := line, so_preview_text := None\<rparr>"

definition set_preview :: "path \<Rightarrow> nat \<Rightarrow> nat \<Rightarrow> utext \<Rightarrow> 'pane search_overlay \<Rightarrow> 'pane search_overlay" where
  "set_preview p line start_line txt s = s\<lparr>so_preview_request := None, so_preview_path := Some p,
     so_preview_line := line, so_preview_start_line := start_line, so_preview_text := Some txt\<rparr>"

definition status_text :: "'pane search_overlay \<Rightarrow> utext" where
  "status_text s =
     (case so_status s of
        SsWaiting \<Rightarrow> if so_query s = [] then ustr ''type to search'' else ustr ''searching'' @ [0x2026]
      | SsSearching \<Rightarrow> ustr ''searching'' @ [0x2026]
      | SsFinished \<Rightarrow> decimal (length (so_visible s)) @ ustr '' result(s)''
          @ (if so_truncated s then ustr '' '' @ [0xB7] @ ustr '' more results omitted'' else [])
      | SsCancelled \<Rightarrow> ustr ''cancelled''
      | SsFailed message \<Rightarrow> message)"

section \<open>The selection names a match\<close>

datatype overlay_op =
    PushChar uchar | PopChar | MoveDown | MoveUp
  | ReplaceResults "search_match list" | AppendResults "search_match list"
  | SetLive "search_match list" "path set" | SetRequest nat
  | AwaitPreview nat path nat | SetPreview path nat nat utext | ClearPreview
  | SetStatus search_status bool

fun overlay_apply :: "unicode_api \<Rightarrow> overlay_op \<Rightarrow> 'pane search_overlay \<Rightarrow> 'pane search_overlay" where
  "overlay_apply U (PushChar c) s = overlay_push_char U c s"
| "overlay_apply U PopChar s = overlay_pop_char U s"
| "overlay_apply U MoveDown s = overlay_move_down s"
| "overlay_apply U MoveUp s = overlay_move_up s"
| "overlay_apply U (ReplaceResults ms) s = replace_results U ms s"
| "overlay_apply U (AppendResults ms) s = append_results U ms s"
| "overlay_apply U (SetLive ms ps) s = set_live_results U ms ps s"
| "overlay_apply U (SetRequest i) s = set_request i s"
| "overlay_apply U (AwaitPreview i p l) s = await_preview i p l s"
| "overlay_apply U (SetPreview p l k t) s = set_preview p l k t s"
| "overlay_apply U ClearPreview s = clear_preview s"
| "overlay_apply U (SetStatus st tr) s = s\<lparr>so_status := st, so_truncated := tr\<rparr>"

inductive overlay_reach :: "unicode_api \<Rightarrow> 'pane search_overlay \<Rightarrow> bool" for U where
  reach_files: "overlay_reach U (overlay_files i root focus)"
| reach_text: "overlay_reach U (overlay_text i root focus)"
| reach_op: "overlay_reach U s \<Longrightarrow> overlay_reach U (overlay_apply U x s)"

definition overlay_ok :: "'pane search_overlay \<Rightarrow> bool" where
  "overlay_ok s \<longleftrightarrow> length (so_matches s) \<le> result_limit s \<and> length (so_visible s) \<le> visible_limit
     \<and> (\<forall>i \<in> set (so_visible s). i < length (so_matches s))
     \<and> (if so_visible s = [] then so_selected s = 0 else so_selected s < length (so_visible s))"

lemma by_path_bound: "by_path ms p = Some i \<Longrightarrow> i < length ms \<and> sm_path (ms ! i) = p"
  by (auto simp: by_path_def enumerate_eq_zip in_set_zip dest!: map_of_SomeD)

lemma clamp_ok:
  assumes "length (so_matches s) \<le> result_limit s" "length (so_visible s) \<le> visible_limit"
    "\<forall>i \<in> set (so_visible s). i < length (so_matches s)"
  shows "overlay_ok (clamp_selected s)"
  using assms by (cases "so_visible s") (auto simp: clamp_selected_def overlay_ok_def result_limit_def)

lemma refilter_ok: "length (so_matches s) \<le> result_limit s \<Longrightarrow> overlay_ok (refilter U s)"
  by (auto simp: refilter_def result_limit_def Let_def map_filter_set
      dest!: in_set_takeD by_path_bound intro!: clamp_ok)

lemma clear_ok: "overlay_ok (clear_preview s) = overlay_ok s"
  by (simp add: clear_preview_def overlay_ok_def result_limit_def)

lemma op_ok:
  assumes "overlay_ok s"
  shows "overlay_ok (overlay_apply U x s)"
proof -
  have l: "length (so_matches s) \<le> result_limit s" using assms by (simp add: overlay_ok_def)
  show ?thesis
  proof (cases x)
  case (AppendResults ms)
  then show ?thesis using l
    by (auto simp: append_results_def result_limit_def Let_def intro!: refilter_ok)
next
  case (ReplaceResults ms)
  then show ?thesis
    by (auto simp: replace_results_def clear_preview_def result_limit_def intro!: refilter_ok)
next
  case (SetLive ms ps)
  then show ?thesis
    by (auto simp: set_live_results_def replace_results_def clear_preview_def result_limit_def intro!: refilter_ok)
next
  case (PushChar c)
  then show ?thesis using l
    by (auto simp: overlay_push_char_def result_limit_def intro!: refilter_ok)
next
  case PopChar
  then show ?thesis using l
    by (auto simp: overlay_pop_char_def result_limit_def intro!: refilter_ok)
qed (use assms in \<open>auto simp: overlay_ok_def result_limit_def overlay_move_down_def overlay_move_up_def
    set_request_def await_preview_def set_preview_def clear_preview_def\<close>)
qed

lemma overlay_reach_ok: "overlay_reach U s \<Longrightarrow> overlay_ok s"
proof (induction rule: overlay_reach.induct)
  case (reach_op s x)
  then show ?case by (simp add: op_ok)
qed (simp_all add: overlay_files_def overlay_text_def overlay_ok_def)

text \<open>
  Whatever is typed, moved and however results stream in, the overlay holds and shows no more than
  its limits, every row it shows is a match it holds, and the selected row is one of those shown:
  there is a selected match exactly when anything is shown.
\<close>

theorem overlay_selection_valid:
  assumes "overlay_reach U s"
  shows "length (so_matches s) \<le> (if so_mode s = FilesMode then 20000 else 1000)
    \<and> length (visible_matches s) = length (so_visible s) \<and> length (so_visible s) \<le> 200
    \<and> set (visible_matches s) \<subseteq> set (so_matches s)
    \<and> overlay_selected s = (if so_visible s = [] then None else Some (visible_matches s ! so_selected s))"
proof -
  note ok = overlay_reach_ok [OF assms]
  have v: "visible_matches s = map ((!) (so_matches s)) (so_visible s)"
    using ok by (auto simp: visible_matches_def overlay_ok_def List.map_filter_def nth_opt_def
        intro!: filter_True arg_cong [of _ _ "map _"])
  show ?thesis
    using ok by (auto simp: v overlay_ok_def result_limit_def file_candidate_limit_def text_match_limit_def
        visible_limit_def overlay_selected_def nth_opt_def split: search_mode.splits if_splits)
qed

lemma overlay_selection_valid_witness:
  "overlay_selected (overlay_apply ascii_unicode MoveUp (overlay_apply ascii_unicode (AppendResults
     [\<lparr>sm_path = [Normal [97]], sm_line = Some 2, sm_column = Some 1, sm_text = None\<rparr>,
      \<lparr>sm_path = [Normal [97]], sm_line = Some 1, sm_column = Some 1, sm_text = None\<rparr>])
     (overlay_text 1 [RootDir] ()))) \<noteq> None" (is "overlay_selected ?s \<noteq> None")
proof -
  have "overlay_reach ascii_unicode ?s" by (intro reach_op reach_text)
  moreover have "so_visible ?s \<noteq> []"
    by (simp add: overlay_text_def overlay_files_def append_results_def refilter_def overlay_move_up_def
        clamp_selected_def result_limit_def text_match_limit_def visible_limit_def Let_def)
  ultimately show ?thesis using overlay_selection_valid [of ascii_unicode ?s] by simp
qed

end
