(* ===== verification/Fs_Messages.thy ===== *)
theory Fs_Messages
  imports Filesystem
begin

text \<open>
  What the application and the filesystem worker tell each other (\<open>FsRequest\<close> and \<open>FsEvent\<close>,
  \<open>crates/core/src/fs.rs\<close>).  Ids are numbers.
\<close>

datatype fs_request =
    FsReadDir nat path
  | FsReadFile nat path
  | FsReadPreview nat path nat nat
  | FsResolvePath nat path
  | FsWriteFile nat path bytes nat
  | FsWatch path
  | FsCreateFile path
  | FsCreateDir path
  | FsRename path path
  | FsRemove path bool
  | FsShutdown

datatype fs_event =
    DirLoaded nat "dir_entry_info list"
  | DirFailed nat fs_error
  | Changed "path list"
  | MutationFailed fs_error
  | FileLoaded nat path bytes
  | FileSaved nat nat
  | FileFailed nat fs_error
  | PreviewLoaded nat path nat utext
  | PreviewFailed nat path fs_error
  | PathResolved nat path
  | PathResolveFailed nat path fs_error

end
