(* ===== verification/Lsp_State.thy ===== *)
theory Lsp_State
  imports Buffer_Safety Lsp_Types Std_Text Fs_Messages
begin

text \<open>
  What the application knows of its language servers, \<open>crates/app/src/lsp_client_state.rs\<close>: the recipes
  it has not launched, one session per launched server with the documents that server has open and
  the requests in flight, and the diagnostics by path.  \<open>LspState::sessions\<close> is a \<open>BTreeMap\<close>: its
  entries in key order.  The nine \<open>active_*\<close> fields of a session are one function of the kind of
  request; \<open>SlotSymbols\<close> is \<open>active_document_symbols\<close>, \<open>SlotWorkspace\<close> \<open>active_workspace_symbols\<close>.
\<close>

section \<open>State\<close>

datatype lsp_load_state =
    LoadIdle
  | LoadStarting
  | LoadIndexing utext "nat option"
  | LoadReady
  | LoadUnavailable lsp_failure
  | LoadStale lsp_failure

record session_launch =
  ln_root :: path
  ln_command :: "utext list"
  ln_options :: "utext option"

record configured_recipe =
  cr_language :: utext
  cr_extensions :: "utext list"
  cr_launch :: session_launch
  cr_load :: lsp_load_state

datatype lsp_slot =
    SlotDefinition | SlotHover | SlotCompletion | SlotReferences | SlotSymbols | SlotWorkspace
  | SlotRename | SlotActions | SlotFormatting

record 'r lsp_session_state =
  ss_server :: nat
  ss_language :: utext
  ss_load :: lsp_load_state
  ss_extensions :: "utext list"
  ss_launch :: session_launch
  ss_open_docs :: "path \<rightharpoonup> nat"
  ss_next_version :: nat
  ss_synced :: "path \<rightharpoonup> 'r"
  ss_symbol_path :: "path option"
  ss_active :: "lsp_slot \<Rightarrow> lsp_id option"

record 'r lsp_client_state =
  ls_configured :: "configured_recipe list"
  ls_sessions :: "(nat \<times> 'r lsp_session_state) list"
  ls_diagnostics :: "path \<rightharpoonup> diagnostic_item list"

section \<open>Which server a document belongs to\<close>

text \<open>\<open>Path::extension\<close>: what follows the last dot of the name, unless that dot is its first char.\<close>

fun after_last_dot :: "utext \<Rightarrow> utext option" where
  "after_last_dot [] = None"
| "after_last_dot (c # s) =
     (case after_last_dot s of Some e \<Rightarrow> Some e | None \<Rightarrow> if c = of_char CHR ''.'' then Some s else None)"

definition path_extension :: "path \<Rightarrow> utext option" where
  "path_extension p =
     (case path_file_name p of
        Some (c # s) \<Rightarrow> after_last_dot s
      | _ \<Rightarrow> None)"

definition claims_extension :: "utext list \<Rightarrow> utext \<Rightarrow> bool" where
  "claims_extension claimed e \<longleftrightarrow>
     list_ex (\<lambda>c. to_ascii_lowercase c = to_ascii_lowercase e) claimed"

definition recipe_claims :: "configured_recipe \<Rightarrow> path \<Rightarrow> bool" where
  "recipe_claims r p \<longleftrightarrow>
     (case path_extension p of Some e \<Rightarrow> claims_extension (cr_extensions r) e | None \<Rightarrow> False)"

definition server_for :: "'r lsp_client_state \<Rightarrow> path \<Rightarrow> nat option" where
  "server_for st p =
     (case path_extension p of
        None \<Rightarrow> None
      | Some e \<Rightarrow> find_map (\<lambda>(_, s). if claims_extension (ss_extensions s) e then Some (ss_server s) else None)
          (ls_sessions st))"

fun find_position :: "('a \<Rightarrow> bool) \<Rightarrow> 'a list \<Rightarrow> nat option" where
  "find_position P [] = None"
| "find_position P (x # xs) = (if P x then Some 0 else map_option Suc (find_position P xs))"

lemma find_position_first:
  "find_position P xs = Some k \<Longrightarrow> k < length xs \<and> P (xs ! k)"
  by (induction xs arbitrary: k) (auto split: if_splits)

definition recipe_for_path :: "'r lsp_client_state \<Rightarrow> path \<Rightarrow> nat option" where
  "recipe_for_path st p =
     find_position (\<lambda>r. cr_load r = LoadIdle \<and> recipe_claims r p) (ls_configured st)"

section \<open>A session\<close>

definition recipe_new :: "utext \<Rightarrow> utext list \<Rightarrow> session_launch \<Rightarrow> configured_recipe" where
  "recipe_new language extensions launch =
     \<lparr>cr_language = language, cr_extensions = extensions, cr_launch = launch, cr_load = LoadIdle\<rparr>"

definition session_new ::
  "nat \<Rightarrow> utext \<Rightarrow> utext list \<Rightarrow> session_launch \<Rightarrow> 'r lsp_session_state" where
  "session_new server language extensions launch =
     \<lparr>ss_server = server, ss_language = language, ss_load = LoadStarting, ss_extensions = extensions,
      ss_launch = launch, ss_open_docs = Map.empty, ss_next_version = 0, ss_synced = Map.empty,
      ss_symbol_path = None, ss_active = (\<lambda>_. None)\<rparr>"

definition next_document_version :: "'r lsp_session_state \<Rightarrow> nat \<times> 'r lsp_session_state" where
  "next_document_version s =
     (let v = ss_next_version s + 1 in (v, s\<lparr>ss_next_version := v\<rparr>))"

definition reset_for_restart :: "'r lsp_session_state \<Rightarrow> 'r lsp_session_state" where
  "reset_for_restart s =
     s\<lparr>ss_load := LoadStarting, ss_open_docs := Map.empty, ss_synced := Map.empty,
       ss_next_version := 0, ss_symbol_path := None, ss_active := (\<lambda>_. None)\<rparr>"

definition all_slots :: "lsp_slot list" where
  "all_slots = [SlotDefinition, SlotHover, SlotCompletion, SlotReferences, SlotSymbols,
     SlotWorkspace, SlotRename, SlotActions, SlotFormatting]"

definition clear_request :: "lsp_id \<Rightarrow> 'r lsp_session_state \<Rightarrow> bool \<times> 'r lsp_session_state" where
  "clear_request i s =
     (list_ex (\<lambda>k. ss_active s k = Some i) all_slots,
      s\<lparr>ss_symbol_path := (if ss_active s SlotSymbols = Some i then None else ss_symbol_path s),
        ss_active := (\<lambda>k. if ss_active s k = Some i then None else ss_active s k)\<rparr>)"

lemma slot_listed [simp]: "k \<in> set all_slots"
  by (cases k) (simp_all add: all_slots_def)

lemma clear_request_matched: "fst (clear_request i s) \<longleftrightarrow> (\<exists>k. ss_active s k = Some i)"
  using slot_listed unfolding clear_request_def list_ex_iff by auto

text \<open>A server is named only if some live session, known by its own id, claims the extension.\<close>

definition sessions_named :: "'r lsp_client_state \<Rightarrow> bool" where
  "sessions_named st \<longleftrightarrow> sorted_wrt (<) (map fst (ls_sessions st))
     \<and> (\<forall>(i, s) \<in> set (ls_sessions st). ss_server s = i)"

lemma find_map_Some: "find_map f xs = Some y \<Longrightarrow> \<exists>x\<in>set xs. f x = Some y"
  by (induction xs) (auto split: option.splits)

lemma server_for_session:
  assumes "sessions_named st" "server_for st p = Some i"
  obtains s where "map_of (ls_sessions st) i = Some s" "ss_server s = i"
proof -
  obtain e where "find_map (\<lambda>(_, s). if claims_extension (ss_extensions s) e
      then Some (ss_server s) else None) (ls_sessions st) = Some i"
    using assms(2) by (auto simp: server_for_def split: option.splits)
  from find_map_Some [OF this] obtain j s where m: "(j, s) \<in> set (ls_sessions st)" "ss_server s = i"
    by (auto split: if_splits)
  moreover have "distinct (map fst (ls_sessions st))"
    using assms(1) by (simp add: sessions_named_def strict_sorted_iff)
  ultimately show thesis
    using that [of s] assms(1) by (auto simp: sessions_named_def)
qed

section \<open>The application's side\<close>

text \<open>
  The part of \<open>Model\<close> (\<open>crates/app/src/model.rs\<close>) the language client reads and writes: the open
  buffers and the active one, the sessions, the messages queued for servers, the counters ids come
  from, the files being opened with the requests to the filesystem worker, the workspace edit that
  waits for them, where to put the cursor once a file is open, the overlays opened by answers (the last one on top), and the notification.
  Which pane had the focus is left out, and every overlay of another feature is \<open>OvOther\<close>.
\<close>

record symbol_row =
  sr_label :: utext
  sr_detail :: "utext option"
  sr_depth :: nat
  sr_location :: lsp_location

datatype lsp_overlay =
    OvHover hover_text
  | OvCompletion "completion_item list" nat
  | OvReferences "lsp_location list" nat
  | OvSymbols utext "symbol_row list" nat
  | OvActions "code_action list" nat
  | OvPrompt utext
  | OvOther

record pending_workspace_edit =
  pw_edit :: workspace_edit
  pw_waiting :: "(buffer_id \<times> path) list"
  pw_previous :: "buffer_id option"

record 'r lsp_model =
  lm_buffers :: "'r buffer list"
  lm_active :: "nat option"
  lm_lsp :: "'r lsp_client_state"
  lm_outbox :: "(nat \<times> lsp_request) list"
  lm_next_server :: nat
  lm_next_request :: nat
  lm_symbols :: "path \<rightharpoonup> document_symbol list"
  lm_root :: "path option"
  lm_overlays :: "lsp_overlay list"
  lm_opening :: "(buffer_id \<times> path) list"
  lm_next_buffer :: nat
  lm_fs_outbox :: "fs_request list"
  lm_pending_edit :: "pending_workspace_edit option"
  lm_open_at :: "(path \<times> nat \<times> nat) option"
  lm_editor_height :: nat
  lm_notification :: "utext option"

end
