(* ===== verification/Lsp_Mirror.thy ===== *)
theory Lsp_Mirror
  imports Lsp_Documents
begin

text \<open>
  A server's copies of the documents, as the protocol defines them from the messages it is sent,
  and the proof that they are the buffers' texts.  \<open>S text line\<close> is where the server's lines start.
\<close>

section \<open>The server's copies\<close>

type_synonym replica = "path \<rightharpoonup> nat \<times> utext"

definition server_offset :: "(utext \<Rightarrow> nat \<Rightarrow> nat option) \<Rightarrow> utext \<Rightarrow> text_position \<Rightarrow> nat option" where
  "server_offset S t p =
     map_option (\<lambda>st. st + utf16_char (drop st t) (pos_character p)) (S t (pos_line p))"

definition server_edit ::
  "(utext \<Rightarrow> nat \<Rightarrow> nat option) \<Rightarrow> text_change \<Rightarrow> utext \<Rightarrow> utext option" where
  "server_edit S ch t =
     (case tc_range ch of
        None \<Rightarrow> Some (tc_text ch)
      | Some r \<Rightarrow> do {
          a \<leftarrow> server_offset S t (tr_start r);
          b \<leftarrow> server_offset S t (tr_end r);
          if a \<le> b then Some (take a t @ tc_text ch @ drop b t) else None })"

text \<open>
  \<open>None\<close> is a message the protocol forbids: opening an open document, changing or closing one that is
  not open, a version that does not increase, or a range outside the document.
\<close>

fun server_hears ::
  "(utext \<Rightarrow> nat \<Rightarrow> nat option) \<Rightarrow> lsp_request \<Rightarrow> replica \<Rightarrow> replica option" where
  "server_hears S (RqStart _ _ _ _ _) d = Some Map.empty"
| "server_hears S (RqDidOpen p _ v t) d = (if d p = None then Some (d(p \<mapsto> (v, t))) else None)"
| "server_hears S (RqDidChange p v ch) d =
     (case d p of
        None \<Rightarrow> None
      | Some (w, t) \<Rightarrow>
          if w < v then map_option (\<lambda>t'. d(p \<mapsto> (v, t'))) (server_edit S ch t) else None)"
| "server_hears S (RqDidClose p) d = (if d p = None then None else Some (d(p := None)))"
| "server_hears S _ d = Some d"

fun server_hears_all ::
  "(utext \<Rightarrow> nat \<Rightarrow> nat option) \<Rightarrow> lsp_request list \<Rightarrow> replica \<Rightarrow> replica option" where
  "server_hears_all S [] d = Some d"
| "server_hears_all S (r # rs) d = do { d' \<leftarrow> server_hears S r d; server_hears_all S rs d' }"

lemma hears_all_append:
  "server_hears_all S (xs @ ys) d = Option.bind (server_hears_all S xs d) (server_hears_all S ys)"
  by (induction xs arbitrary: d) (simp_all split: Option.bind_split)

text \<open>Every message reaches the server it is addressed to, in the order sent.\<close>

fun deliver ::
  "(utext \<Rightarrow> nat \<Rightarrow> nat option) \<Rightarrow> (nat \<times> lsp_request) list \<Rightarrow> (nat \<Rightarrow> replica) \<Rightarrow> (nat \<Rightarrow> replica) option" where
  "deliver S [] reps = Some reps"
| "deliver S ((i, r) # ms) reps =
     do { d \<leftarrow> server_hears S r (reps i); deliver S ms (reps(i := d)) }"

lemma deliver_append: "deliver S (xs @ ys) reps = Option.bind (deliver S xs reps) (deliver S ys)"
  by (induction xs arbitrary: reps) (auto split: Option.bind_split)

lemma deliver_one:
  "server_hears_all S rs (reps i) = Some d \<Longrightarrow> deliver S (map (Pair i) rs) reps = Some (reps(i := d))"
  by (induction rs arbitrary: reps) (auto split: Option.bind_splits)

section \<open>Positions\<close>

text \<open>
  Ropes also end a line at a vertical tab, a form feed, a next line, a line separator and a paragraph
  separator, which the protocol does not.  Of a text without these, rope and server see the same lines.
\<close>

definition line_breaks_of_ropes :: "uchar set" where
  "line_breaks_of_ropes = {11, 12, 133, 8232, 8233}"

definition plain_lines :: "utext \<Rightarrow> bool" where
  "plain_lines t \<longleftrightarrow> set t \<inter> line_breaks_of_ropes = {}"

definition same_lines :: "'r rope_api \<Rightarrow> (utext \<Rightarrow> nat \<Rightarrow> nat option) \<Rightarrow> bool" where
  "same_lines R S \<longleftrightarrow>
     (\<forall>r l. plain_lines (rope_chars R r) \<longrightarrow> S (rope_chars R r) l = rope_line_to_char R r l)"

context rope_lines begin

lemma line_start_ge:
  "l < rope_len_lines R r \<Longrightarrow> rope_line_to_char R r l = Some s \<Longrightarrow> l \<le> s"
proof (induction l arbitrary: s)
  case (Suc l)
  obtain s0 where s0: "rope_line_to_char R r l = Some s0"
    using line_start_in [of l r] Suc.prems(1) by auto
  then have "l \<le> s0" using Suc by simp
  moreover have "s0 < s" using line_nonempty [OF s0 Suc.prems(1,2)] .
  ultimately show ?case by simp
qed simp

lemma line_le_length: "l < rope_len_lines R r \<Longrightarrow> l \<le> length (rope_chars R r)"
  using line_start_in [of l r] line_start_ge [of l r] by force

end

lemma utf16_total_bound: "utf16_total t \<le> 2 * length t"
  by (induction t) (auto simp: utf16_len_def)

context rope_utf16 begin

lemma server_position:
  assumes "same_lines R S" "pos \<le> length (rope_chars R t)" "length (rope_chars R t) < 2 ^ 31"
    "plain_lines (rope_chars R t)"
  obtains lc where "utf16_position R t pos = Some lc"
    "server_offset S (rope_chars R t) (protocol_position lc) = Some pos"
proof -
  obtain l s e where l: "rope_line_to_char R t l = Some s" "l < rope_len_lines R t" "s \<le> pos"
    "utf16_position R t pos = Some (l mod 2 ^ 32,
       utf16_total (slice s pos (rope_chars R t)) mod 2 ^ 32)"
    using utf16_position_ok [OF assms(2)] by metis
  let ?w = "utf16_total (slice s pos (rope_chars R t))"
  have "length (slice s pos (rope_chars R t)) < 2 ^ 31" using assms by simp
  then have "?w < 2 ^ 32" using utf16_total_bound [of "slice s pos (rope_chars R t)"] by simp
  moreover have "l < 2 ^ 32" using line_le_length [OF l(2)] assms(3) by simp
  ultimately have p: "utf16_position R t pos = Some (l, ?w)" using l(4) by simp
  have "utf16_char (drop s (rope_chars R t)) ?w = pos - s"
    using utf16_char_prefix [of "drop s (rope_chars R t)" "pos - s"] assms(2) by (simp add: slice_def)
  then have "server_offset S (rope_chars R t) (protocol_position (l, ?w)) = Some pos"
    using assms(1,4) l(1,3) by (simp add: server_offset_def same_lines_def protocol_position_def)
  with p show thesis using that by blast
qed

end

section \<open>The changes of one document\<close>

definition typed_len :: "change_set list \<Rightarrow> nat" where
  "typed_len cs = sum_list (map (\<lambda>c. sum_list (map (\<lambda>x. case x of Insert t \<Rightarrow> length t | _ \<Rightarrow> 0) (cs_ops c))) cs)"

lemma out_len_bound:
  "out_len ops \<le> in_len ops + sum_list (map (\<lambda>x. case x of Insert t \<Rightarrow> length t | _ \<Rightarrow> 0) ops)"
  by (induction ops) (auto split: operation.split)

lemma after_bound: "wf_cs c \<Longrightarrow> cs_len_after c + typed_len cs \<le> cs_len_before c + typed_len (c # cs)"
  using out_len_bound [of "cs_ops c"] by (simp add: typed_len_def wf_cs_def)

text \<open>A text and the changes pending on it stay short, and have lines that rope and server agree on.\<close>

definition plain_changes :: "change_set list \<Rightarrow> bool" where
  "plain_changes cs \<longleftrightarrow> list_all (\<lambda>c. list_all (\<lambda>x. case x of Insert t \<Rightarrow> plain_lines t | _ \<Rightarrow> True) (cs_ops c)) cs"

definition changes_fit :: "utext \<Rightarrow> change_set list \<Rightarrow> bool" where
  "changes_fit t cs \<longleftrightarrow> length t + typed_len cs < 2 ^ 31 \<and> plain_lines t \<and> plain_changes cs"

lemma denote_plain:
  "list_all (\<lambda>x. case x of Insert t \<Rightarrow> plain_lines t | _ \<Rightarrow> True) ops \<Longrightarrow> plain_lines t \<Longrightarrow>
   plain_lines (denote ops t)"
proof (induction ops t rule: denote.induct)
  case (2 n ops t)
  then have "plain_lines (take n t)" "plain_lines (drop n t)"
    using set_take_subset [of n t] set_drop_subset [of n t] by (auto simp: plain_lines_def)
  with 2 show ?case by (simp add: plain_lines_def Int_Un_distrib2)
next
  case (3 n ops t)
  then have "plain_lines (drop n t)"
    using set_drop_subset [of n t] by (auto simp: plain_lines_def)
  with 3 show ?case by simp
next
  case (4 s ops t)
  then show ?case by (simp add: plain_lines_def Int_Un_distrib2)
qed (simp add: plain_lines_def)

lemma changes_fit_step:
  assumes "changes_fit t (c # cs)" "wf_cs c" "length t = cs_len_before c"
  shows "changes_fit (denote (cs_ops c) t) cs"
proof -
  have "carries c t (denote (cs_ops c) t)" using assms(2,3) by (simp add: carries_def)
  from carries_length [OF this] have "length (denote (cs_ops c) t) + typed_len cs < 2 ^ 31"
    using after_bound [OF assms(2), of cs] assms(1,3) by (simp add: changes_fit_def)
  then show ?thesis using assms(1) denote_plain by (simp add: changes_fit_def plain_changes_def)
qed

lemma changes_fit_skip: "changes_fit t (c # cs) \<Longrightarrow> changes_fit t cs"
  by (simp add: changes_fit_def plain_changes_def typed_len_def)

text \<open>What the changes of one pass leave of the session: only the version of the document moves.\<close>

definition bumped :: "path \<Rightarrow> nat \<Rightarrow> 'r lsp_session_state \<Rightarrow> 'r lsp_session_state" where
  "bumped p v s = s\<lparr>ss_open_docs := (ss_open_docs s)(p \<mapsto> v), ss_next_version := v\<rparr>"

lemma bump_document_eq: "bump_document p s = (Suc (ss_next_version s), bumped p (Suc (ss_next_version s)) s)"
  by (simp add: bump_document_def next_document_version_def bumped_def)

lemma bumped_simps [simp]:
  "ss_open_docs (bumped p v s) = (ss_open_docs s)(p \<mapsto> v)" "ss_next_version (bumped p v s) = v"
  "ss_synced (bumped p v s) = ss_synced s" "ss_server (bumped p v s) = ss_server s"
  "ss_extensions (bumped p v s) = ss_extensions s" "ss_language (bumped p v s) = ss_language s"
  "bumped p w (bumped p v s) = bumped p w s"
  by (simp_all add: bumped_def)

text \<open>The replacement a change sends, spliced into the old text at the span, is the new text.\<close>

lemma span_splice:
  assumes "take a out = take a doc" "drop b out = drop c doc" "a \<le> b" "b \<le> length out"
  shows "take a doc @ slice a b out @ drop c doc = out"
  using take_slice_drop [OF assms(3), of out] assms by simp

lemma send_changes_ok:
  assumes "rope_utf16 R" "same_lines R S" "list_all wf_cs cs"
    "changes_fit (rope_chars R shadow) cs"
    "d p = Some (v, rope_chars R shadow)" "ss_open_docs s p = Some v" "v \<le> ss_next_version s"
  shows "\<exists>rs s' shadow' lost v'. send_changes R p cs shadow s = Some (rs, s', shadow', lost)
    \<and> server_hears_all S rs d = Some (d(p \<mapsto> (v', rope_chars R shadow')))
    \<and> (rs = [] \<and> s' = s \<and> v' = v \<or> s' = bumped p v' s \<and> ss_next_version s < v')"
  using assms(3-)
proof (induction cs arbitrary: shadow s d v)
  case Nil
  then have "d(p \<mapsto> (v, rope_chars R shadow)) = d" by (simp add: fun_upd_idem)
  then have "send_changes R p [] shadow s = Some ([], s, shadow, False)
      \<and> server_hears_all S [] d = Some (d(p \<mapsto> (v, rope_chars R shadow)))" by simp
  then show ?case by blast
next
  case (Cons c cs)
  note rt = rope_utf16.axioms(1) [OF assms(1), THEN rope_lines.axioms(1)]
  have idle: "d(p \<mapsto> (v, rope_chars R shadow)) = d" using Cons.prems by (simp add: fun_upd_idem)
  show ?case
  proof (cases "cs_len_before c = rope_len R shadow")
    case False
    then have "send_changes R p (c # cs) shadow s = Some ([], s, shadow, True)
        \<and> server_hears_all S [] d = Some (d(p \<mapsto> (v, rope_chars R shadow)))"
      using idle by simp
    then show ?thesis by blast
  next
    case True
    have wf: "wf_cs c" using Cons.prems by simp
    have len: "length (rope_chars R shadow) = cs_len_before c"
      using True by (simp add: rope_text.len_chars [OF rt])
    obtain post where post: "cs_apply R c shadow = Some post"
      "rope_chars R post = denote (cs_ops c) (rope_chars R shadow)"
      using rope_text.apply_denote [OF rt wf len] by blast
    have fits: "changes_fit (rope_chars R post) cs"
      using changes_fit_step [OF Cons.prems(2) wf len] post(2) by simp
    note span = changed_span_covers_edit [OF rt wf post(1)]
    show ?thesis
    proof (cases "cs_changed_span c")
      case None
      have "changes_fit (rope_chars R shadow) cs" using changes_fit_skip [OF Cons.prems(2)] .
      moreover have "list_all wf_cs cs" using Cons.prems(1) by simp
      moreover have "send_changes R p (c # cs) shadow s = send_changes R p cs shadow s"
        using True None by simp
      ultimately show ?thesis using Cons.IH [of shadow d v s] Cons.prems(3-5) by metis
    next
      case (Some sp)
      have sp: "before_start sp = after_start sp" "before_start sp \<le> before_end sp"
        "before_end sp \<le> length (rope_chars R shadow)" "after_start sp \<le> after_end sp"
        "after_end sp \<le> length (rope_chars R post)"
        "take (after_start sp) (rope_chars R post) = take (before_start sp) (rope_chars R shadow)"
        "drop (after_end sp) (rope_chars R post) = drop (before_end sp) (rope_chars R shadow)"
        using span Some by (simp_all add: rope_text.len_chars [OF rt])
      have small: "length (rope_chars R shadow) < 2 ^ 31" "plain_lines (rope_chars R shadow)"
        using Cons.prems(2) by (simp_all add: changes_fit_def)
      obtain st where st: "utf16_position R shadow (before_start sp) = Some st"
        "server_offset S (rope_chars R shadow) (protocol_position st) = Some (before_start sp)"
        using rope_utf16.server_position [OF assms(1,2) _ small, of "before_start sp"] sp by auto
      obtain en where en: "utf16_position R shadow (before_end sp) = Some en"
        "server_offset S (rope_chars R shadow) (protocol_position en) = Some (before_end sp)"
        using rope_utf16.server_position [OF assms(1,2) sp(3) small] by auto
      obtain x where x: "rope_slice R post (after_start sp) (after_end sp) = Some x"
        "rope_chars R x = slice (after_start sp) (after_end sp) (rope_chars R post)"
        using rope_text.slice_in [OF rt sp(4,5)] by blast
      let ?v = "Suc (ss_next_version s)"
      let ?ch = "\<lparr>tc_range = Some \<lparr>tr_start = protocol_position st, tr_end = protocol_position en\<rparr>,
        tc_text = rope_chars R x\<rparr>"
      let ?d = "d(p \<mapsto> (?v, rope_chars R post))"
      have "server_edit S ?ch (rope_chars R shadow) = Some (rope_chars R post)"
        using st(2) en(2) sp span_splice [OF sp(6)[folded sp(1)] sp(7)] x(2) by (simp add: server_edit_def)
      then have hears: "server_hears S (RqDidChange p ?v ?ch) d = Some ?d"
        using Cons.prems(3,5) by simp
      obtain rs s' shadow' lost v' where ih:
        "send_changes R p cs post (bumped p ?v s) = Some (rs, s', shadow', lost)"
        "server_hears_all S rs ?d = Some (?d(p \<mapsto> (v', rope_chars R shadow')))"
        "rs = [] \<and> s' = bumped p ?v s \<and> v' = ?v
          \<or> s' = bumped p v' (bumped p ?v s) \<and> ss_next_version (bumped p ?v s) < v'"
      proof -
        have "list_all wf_cs cs" "?d p = Some (?v, rope_chars R post)"
          "ss_open_docs (bumped p ?v s) p = Some ?v" "?v \<le> ss_next_version (bumped p ?v s)"
          using Cons.prems(1) by simp_all
        from Cons.IH [where d = ?d and v = ?v and shadow = post and s = "bumped p ?v s",
            OF this(1) fits this(2-4)] show thesis using that by blast
      qed
      have "send_changes R p (c # cs) shadow s
          = Some (RqDidChange p ?v ?ch # rs, s', shadow', lost)"
        using True Some post(1) st(1) en(1) x(1) ih(1) by (simp add: bump_document_eq)
      moreover have "server_hears_all S (RqDidChange p ?v ?ch # rs) d
          = Some (d(p \<mapsto> (v', rope_chars R shadow')))"
        using hears ih(2) by (simp del: server_hears.simps)
      moreover have "s' = bumped p v' s \<and> ss_next_version s < v'" using ih(3) by auto
      ultimately show ?thesis by blast
    qed
  qed
qed

section \<open>One session in step with its server\<close>

text \<open>
  The server's copies are the session's shadows, at the versions the session has on record.
\<close>

definition in_step :: "'r rope_api \<Rightarrow> 'r lsp_session_state \<Rightarrow> replica \<Rightarrow> bool" where
  "in_step R s d \<longleftrightarrow> (\<forall>p. case ss_open_docs s p of
      None \<Rightarrow> d p = None
    | Some v \<Rightarrow> v \<le> ss_next_version s
        \<and> (\<exists>t. ss_synced s p = Some t \<and> d p = Some (v, rope_chars R t)))"

definition fits_shadow :: "'r rope_api \<Rightarrow> path \<Rightarrow> change_set list \<Rightarrow> 'r lsp_session_state \<Rightarrow> bool" where
  "fits_shadow R p cs s \<longleftrightarrow> (\<forall>t. ss_synced s p = Some t \<longrightarrow> changes_fit (rope_chars R t) cs)"

lemma in_step_iff: "in_step R s d \<longleftrightarrow>
    (\<forall>p. (ss_open_docs s p = None \<longrightarrow> d p = None)
       \<and> (\<forall>v. ss_open_docs s p = Some v \<longrightarrow> v \<le> ss_next_version s
            \<and> (\<exists>t. ss_synced s p = Some t \<and> d p = Some (v, rope_chars R t))))"
  unfolding in_step_def by (rule all_cong1) (simp split: option.split)

lemma in_step_open:
  assumes "in_step R s d" "ss_open_docs s p = Some v"
  obtains t where "ss_synced s p = Some t" "d p = Some (v, rope_chars R t)" "v \<le> ss_next_version s"
  using assms unfolding in_step_iff by blast

lemma in_step_closed: "in_step R s d \<Longrightarrow> ss_open_docs s p = None \<Longrightarrow> d p = None"
  unfolding in_step_iff by blast

lemma in_step_bumped:
  assumes "in_step R s d" "ss_next_version s \<le> v" "rope_chars R doc = t"
  shows "in_step R ((bumped p v s)\<lparr>ss_synced := (ss_synced s)(p \<mapsto> doc)\<rparr>) (d(p \<mapsto> (v, t)))"
  using assms unfolding in_step_iff by (auto intro: order_trans)

lemma in_step_synced:
  assumes "in_step R s d" "ss_open_docs s p = Some v" "d p = Some (v, rope_chars R t)"
  shows "in_step R (s\<lparr>ss_synced := (ss_synced s)(p \<mapsto> t)\<rparr>) d"
  using assms unfolding in_step_iff by auto

lemma did_open_eq: "did_open R p doc s =
    (RqDidOpen p (ss_language s) (Suc (ss_next_version s)) (rope_chars R doc),
     bumped p (Suc (ss_next_version s)) s)"
  by (simp add: did_open_def bump_document_eq)

text \<open>A pass over one document leaves the server with its text and every other copy as it was.\<close>

lemma sync_document_ok:
  assumes "rope_utf16 R" "same_lines R S" "list_all wf_cs cs" "fits_shadow R p cs s" "in_step R s d"
  shows "\<exists>rs s' v. sync_document R p doc cs s = Some (rs, s')
    \<and> server_hears_all S rs d = Some (d(p \<mapsto> (v, rope_chars R doc)))
    \<and> in_step R s' (d(p \<mapsto> (v, rope_chars R doc)))
    \<and> ss_server s' = ss_server s \<and> ss_extensions s' = ss_extensions s
    \<and> (\<forall>q. q \<noteq> p \<longrightarrow> ss_synced s' q = ss_synced s q)"
proof (cases "ss_open_docs s p")
  case None
  have "in_step R ((bumped p (Suc (ss_next_version s)) s)\<lparr>ss_synced := (ss_synced s)(p \<mapsto> doc)\<rparr>)
      (d(p \<mapsto> (Suc (ss_next_version s), rope_chars R doc)))"
    using in_step_bumped [OF assms(5)] by simp
  moreover have "sync_document R p doc cs s
      = Some ([RqDidOpen p (ss_language s) (Suc (ss_next_version s)) (rope_chars R doc)],
          (bumped p (Suc (ss_next_version s)) s)\<lparr>ss_synced := (ss_synced s)(p \<mapsto> doc)\<rparr>)"
    using None by (simp add: sync_document_def did_open_eq)
  ultimately show ?thesis
    using in_step_closed [OF assms(5) None] by (intro exI conjI) (assumption | simp)+
next
  case (Some v)
  obtain t where t: "ss_synced s p = Some t" "d p = Some (v, rope_chars R t)" "v \<le> ss_next_version s"
    using in_step_open [OF assms(5) Some] .
  then have "changes_fit (rope_chars R t) cs" using assms(4) by (simp add: fits_shadow_def)
  from send_changes_ok [where d = d and s = s and v = v, OF assms(1-3) this t(2) Some t(3)] obtain rs s' t' lost v' where
    sent: "send_changes R p cs t s = Some (rs, s', t', lost)"
    "server_hears_all S rs d = Some (d(p \<mapsto> (v', rope_chars R t')))"
    "rs = [] \<and> s' = s \<and> v' = v \<or> s' = bumped p v' s \<and> ss_next_version s < v'"
    by blast
  have same: "ss_server s' = ss_server s" "ss_extensions s' = ss_extensions s"
    "ss_synced s' = ss_synced s" "ss_open_docs s' p = Some v'"
    using sent(3) Some by auto
  have step: "in_step R (s'\<lparr>ss_synced := (ss_synced s')(p \<mapsto> t')\<rparr>) (d(p \<mapsto> (v', rope_chars R t')))"
  proof (cases "s' = bumped p v' s \<and> ss_next_version s < v'")
    case True
    with in_step_bumped [OF assms(5), of v' t'] show ?thesis by simp
  next
    case False
    then have "rs = []" "s' = s" "v' = v" using sent(3) by auto
    moreover from this have "d(p \<mapsto> (v', rope_chars R t')) = d" using sent(2) by simp
    ultimately show ?thesis
      using in_step_synced [OF assms(5) Some, of t'] by (metis fun_upd_same)
  qed
  let ?d = "d(p \<mapsto> (v', rope_chars R t'))"
  show ?thesis
  proof (cases "lost \<or> rope_chars R t' \<noteq> rope_chars R doc")
    case True
    let ?w = "Suc (ss_next_version s')"
    have "in_step R ((bumped p ?w s')\<lparr>ss_synced := (ss_synced s')(p \<mapsto> doc)\<rparr>)
        (?d(p \<mapsto> (?w, rope_chars R doc)))"
      using in_step_bumped [OF step, where v = ?w and p = p and doc = doc] by (simp add: bumped_def)
    moreover have "sync_document R p doc cs s = Some (rs @ [RqDidClose p,
        RqDidOpen p (ss_language s') ?w (rope_chars R doc)],
        (bumped p ?w s')\<lparr>ss_synced := (ss_synced s')(p \<mapsto> doc)\<rparr>)"
      using True Some t(1) sent(1) by (simp add: sync_document_def did_open_eq)
    moreover have "server_hears_all S (rs @ [RqDidClose p,
        RqDidOpen p (ss_language s') ?w (rope_chars R doc)]) d = Some (d(p \<mapsto> (?w, rope_chars R doc)))"
      using sent(2) by (simp add: hears_all_append)
    ultimately show ?thesis using same by (intro exI conjI) (assumption | simp)+
  next
    case False
    moreover from this have "sync_document R p doc cs s
        = Some (rs, s'\<lparr>ss_synced := (ss_synced s')(p \<mapsto> t')\<rparr>)"
      using Some t(1) sent(1) by (simp add: sync_document_def)
    ultimately show ?thesis using step sent(2) same by (intro exI conjI) (assumption | simp)+
  qed
qed

end
