(* ===== verification/Lsp_Mirrored.thy ===== *)
theory Lsp_Mirrored
  imports Lsp_Mirror
begin

text \<open>
  A pass over all buffers, a restart and the closing of a document keep every session in step with
  its server, and a pass leaves every buffer settled: its server's copy is its text.
\<close>

section \<open>Sessions and their names\<close>

definition mirrors :: "'r rope_api \<Rightarrow> 'r lsp_model \<Rightarrow> (nat \<Rightarrow> replica) \<Rightarrow> bool" where
  "mirrors R m reps \<longleftrightarrow> sessions_named (lm_lsp m)
     \<and> (\<forall>i s. session_of i m = Some s \<longrightarrow> i \<le> lm_next_server m \<and> in_step R s (reps i))"

definition buffer_fits :: "'r rope_api \<Rightarrow> 'r lsp_model \<Rightarrow> 'r buffer \<Rightarrow> bool" where
  "buffer_fits R m b \<longleftrightarrow> list_all wf_cs (b_pending b)
     \<and> (\<forall>p i s. b_path b = Some p \<longrightarrow> session_of i m = Some s \<longrightarrow> fits_shadow R p (b_pending b) s)"

definition settled :: "'r rope_api \<Rightarrow> 'r lsp_model \<Rightarrow> (nat \<Rightarrow> replica) \<Rightarrow> 'r buffer \<Rightarrow> bool" where
  "settled R m reps b \<longleftrightarrow>
     (\<forall>p. b_path b = Some p \<longrightarrow>
        (case server_for (lm_lsp m) p of
           Some i \<Rightarrow> \<exists>v. reps i p = Some (v, rope_chars R (b_text b))
         | None \<Rightarrow> recipe_for_path (lm_lsp m) p = None))"

text \<open>What a step for the document \<open>p\<close> leaves of every other buffer.\<close>

definition spares :: "'r rope_api \<Rightarrow> path \<Rightarrow> 'r lsp_model \<Rightarrow> (nat \<Rightarrow> replica) \<Rightarrow>
    'r lsp_model \<Rightarrow> (nat \<Rightarrow> replica) \<Rightarrow> bool" where
  "spares R p m reps m' reps' \<longleftrightarrow>
     (\<forall>b. b_path b \<noteq> Some p \<longrightarrow>
        (settled R m reps b \<longrightarrow> settled R m' reps' b) \<and> (buffer_fits R m b \<longrightarrow> buffer_fits R m' b))"

lemma spares_trans: "spares R p m reps m1 reps1 \<Longrightarrow> spares R p m1 reps1 m2 reps2 \<Longrightarrow> spares R p m reps m2 reps2"
  by (simp add: spares_def)

lemma map_of_if: "map_of (map (\<lambda>(k, x). (k, if k = i then s else x)) xs) j
    = (if j = i then map_option (\<lambda>_. s) (map_of xs i) else map_of xs j)"
  by (induction xs) auto

lemma session_of_set:
  "session_of j (set_session i s m) = (if j = i then map_option (\<lambda>_. s) (session_of i m) else session_of j m)"
  by (simp add: session_of_def set_session_def map_of_if)

lemma set_session_simps [simp]:
  "lm_outbox (set_session i s m) = lm_outbox m" "lm_buffers (set_session i s m) = lm_buffers m"
  "lm_next_server (set_session i s m) = lm_next_server m" "lm_next_request (set_session i s m) = lm_next_request m"
  "recipe_for_path (lm_lsp (set_session i s m)) = recipe_for_path (lm_lsp m)"
  by (simp_all add: set_session_def recipe_for_path_def fun_eq_iff)

lemma send_to_simps [simp]:
  "lm_outbox (send_to i rs m) = lm_outbox m @ map (Pair i) rs" "lm_buffers (send_to i rs m) = lm_buffers m"
  "lm_next_server (send_to i rs m) = lm_next_server m" "lm_next_request (send_to i rs m) = lm_next_request m"
  "lm_lsp (send_to i rs m) = lm_lsp m"
  "session_of j (send_to i rs m) = session_of j m"
  by (simp_all add: send_to_def session_of_def)

lemma forget_diagnostics_simps [simp]:
  "lm_outbox (forget_diagnostics p m) = lm_outbox m" "lm_buffers (forget_diagnostics p m) = lm_buffers m"
  "lm_next_server (forget_diagnostics p m) = lm_next_server m"
  "lm_next_request (forget_diagnostics p m) = lm_next_request m"
  "ls_sessions (lm_lsp (forget_diagnostics p m)) = ls_sessions (lm_lsp m)"
  "ls_configured (lm_lsp (forget_diagnostics p m)) = ls_configured (lm_lsp m)"
  by (simp_all add: forget_diagnostics_def)

text \<open>Only sessions, recipes and the last server id matter to the invariants.\<close>

definition same_servers :: "'r lsp_model \<Rightarrow> 'r lsp_model \<Rightarrow> bool" where
  "same_servers m m' \<longleftrightarrow> ls_sessions (lm_lsp m') = ls_sessions (lm_lsp m)
     \<and> ls_configured (lm_lsp m') = ls_configured (lm_lsp m) \<and> lm_next_server m' = lm_next_server m"

lemma same_servers_eq:
  assumes "same_servers m m'"
  shows "session_of i m' = session_of i m" "server_for (lm_lsp m') = server_for (lm_lsp m)"
    "recipe_for_path (lm_lsp m') = recipe_for_path (lm_lsp m)" "mirrors R m' = mirrors R m"
    "settled R m' = settled R m" "buffer_fits R m' = buffer_fits R m"
proof -
  show s: "session_of i m' = session_of i m" for i using assms by (simp add: same_servers_def session_of_def)
  show f: "server_for (lm_lsp m') = server_for (lm_lsp m)"
    using assms by (simp add: same_servers_def server_for_def fun_eq_iff split: option.split)
  show r: "recipe_for_path (lm_lsp m') = recipe_for_path (lm_lsp m)"
    using assms by (simp add: same_servers_def recipe_for_path_def fun_eq_iff)
  show "mirrors R m' = mirrors R m"
    using assms s by (simp add: fun_eq_iff mirrors_def same_servers_def sessions_named_def)
  show "settled R m' = settled R m" using f r unfolding settled_def by presburger
  show "buffer_fits R m' = buffer_fits R m" using s by (simp add: fun_eq_iff buffer_fits_def)
qed

lemma find_map_same:
  "\<forall>x\<in>set xs. f x = g x \<Longrightarrow> find_map f xs = find_map g xs"
  by (induction xs) (auto split: option.split)

lemma find_map_map: "find_map f (map g xs) = find_map (\<lambda>x. f (g x)) xs"
  by (induction xs) (auto split: option.split)

lemma find_map_append: "find_map f (xs @ ys) = (case find_map f xs of None \<Rightarrow> find_map f ys | Some y \<Rightarrow> Some y)"
  by (induction xs) (auto split: option.split)

lemma session_member:
  assumes "sessions_named st"
  shows "(i, s) \<in> set (ls_sessions st) \<longleftrightarrow> map_of (ls_sessions st) i = Some s"
  using assms by (simp add: sessions_named_def strict_sorted_iff)

lemma server_for_set:
  assumes "sessions_named (lm_lsp m)" "session_of i m = Some s0"
    "ss_server s = ss_server s0" "ss_extensions s = ss_extensions s0"
  shows "server_for (lm_lsp (set_session i s m)) = server_for (lm_lsp m)"
    "sessions_named (lm_lsp (set_session i s m))"
proof -
  have only: "x = s0" if "(i, x) \<in> set (ls_sessions (lm_lsp m))" for x
    using that session_member [OF assms(1)] assms(2) by (simp add: session_of_def)
  then show "server_for (lm_lsp (set_session i s m)) = server_for (lm_lsp m)"
    using assms(3,4)
    by (auto simp: server_for_def set_session_def find_map_map fun_eq_iff intro!: find_map_same
        split: option.split)
  show "sessions_named (lm_lsp (set_session i s m))"
    using assms(1,3) only by (auto simp: sessions_named_def set_session_def comp_def case_prod_beta)
qed

section \<open>Claiming a server\<close>

lemma bt_insert_last: "\<forall>k\<in>set (map fst xs). k < i \<Longrightarrow> bt_insert (i :: nat) s xs = xs @ [(i, s)]"
  by (induction xs) auto

lemma find_position_Some:
  "find_position P xs = Some k \<Longrightarrow> k < length xs \<and> P (xs ! k)"
  by (induction xs arbitrary: k) (auto split: if_splits)

lemma find_position_None: "find_position P xs = None \<longleftrightarrow> (\<forall>x\<in>set xs. \<not> P x)"
  by (induction xs) auto

text \<open>The session a launched recipe gets.\<close>

definition launched :: "nat \<Rightarrow> configured_recipe \<Rightarrow> 'r lsp_session_state" where
  "launched i r = session_new i (cr_language r) (cr_extensions r) (cr_launch r)"

lemma launched_simps [simp]:
  "ss_server (launched i r) = i" "ss_extensions (launched i r) = cr_extensions r"
  "ss_synced (launched i r) = Map.empty" "in_step R (launched i r) Map.empty"
  by (simp_all add: launched_def session_new_def in_step_def)

lemma claim_server_ok:
  assumes "mirrors R m reps" "claim_server p m = Some (i, m')"
  shows "\<exists>out reps'. lm_outbox m' = lm_outbox m @ out \<and> deliver S out reps = Some reps'
    \<and> mirrors R m' reps' \<and> lm_buffers m' = lm_buffers m \<and> server_for (lm_lsp m') p = Some i
    \<and> (\<exists>s. session_of i m' = Some s \<and> (session_of i m = Some s \<or> ss_synced s = Map.empty))
    \<and> spares R p m reps m' reps'"
proof (cases "server_for (lm_lsp m) p")
  case (Some j)
  with assms(2) have [simp]: "j = i" "m' = m" by (simp_all add: claim_server_def)
  have "sessions_named (lm_lsp m)" using assms(1) by (simp add: mirrors_def)
  from server_for_session [OF this Some] obtain s where "session_of i m = Some s"
    by (auto simp: session_of_def)
  then have "\<exists>s. session_of i m = Some s \<and> (session_of i m = Some s \<or> ss_synced s = Map.empty)" by blast
  moreover have "lm_outbox m' = lm_outbox m @ [] \<and> deliver S [] reps = Some reps" "spares R p m reps m' reps"
    by (simp_all add: spares_def)
  ultimately show ?thesis using assms(1) Some by (metis \<open>j = i\<close> \<open>m' = m\<close>)
next
  case None
  obtain k where k: "recipe_for_path (lm_lsp m) p = Some k"
    using assms(2) None by (auto simp: claim_server_def split: option.splits)
  let ?r = "ls_configured (lm_lsp m) ! k" and ?reps = "reps(i := Map.empty)"
  have i: "i = Suc (lm_next_server m)" using assms(2) None k by (simp add: claim_server_def Let_def)
  have named: "sessions_named (lm_lsp m)" using assms(1) by (simp add: mirrors_def)
  have below: "\<forall>x\<in>set (map fst (ls_sessions (lm_lsp m))). x < i"
    using assms(1) session_member [OF named] i by (fastforce simp: mirrors_def session_of_def)
  have m': "m' = send_to i [start_request i (cr_launch ?r) (cr_language ?r)]
      (m\<lparr>lm_next_server := i, lm_lsp := (lm_lsp m)\<lparr>
         ls_configured := take k (ls_configured (lm_lsp m)) @ drop (Suc k) (ls_configured (lm_lsp m)),
         ls_sessions := ls_sessions (lm_lsp m) @ [(i, launched i ?r)]\<rparr>\<rparr>)"
    using assms(2) None k bt_insert_last [OF below] i
    by (simp add: claim_server_def Let_def launched_def)
  have kr: "k < length (ls_configured (lm_lsp m))" "cr_load ?r = LoadIdle" "recipe_claims ?r p"
    using find_position_Some [OF k [unfolded recipe_for_path_def]] by auto
  have session: "session_of j m' = (if j = i then Some (launched i ?r) else session_of j m)" for j
  proof -
    have "map_of (ls_sessions (lm_lsp m)) i = None"
      using below by (force simp: map_of_eq_None_iff)
    then show ?thesis by (simp add: m' session_of_def map_add_def split: option.split)
  qed
  have server: "server_for (lm_lsp m') q = (case server_for (lm_lsp m) q of Some j \<Rightarrow> Some j
      | None \<Rightarrow> if recipe_claims ?r q then Some i else None)" for q
    by (simp add: m' server_for_def find_map_append recipe_claims_def split: option.split)
  have sub: "set (ls_configured (lm_lsp m')) \<subseteq> set (ls_configured (lm_lsp m))"
    using set_take_subset set_drop_subset by (fastforce simp: m')
  have none: "server_for (lm_lsp m') q = None \<and> recipe_for_path (lm_lsp m') q = None"
    if "server_for (lm_lsp m) q = None" "recipe_for_path (lm_lsp m) q = None" for q
    using that server [of q] kr(1,2) sub by (auto simp: recipe_for_path_def find_position_None)
  have "mirrors R m' ?reps"
  proof -
    have "sessions_named (lm_lsp m')"
      using named below by (auto simp: sessions_named_def m' sorted_wrt_append)
    then show ?thesis using assms(1) i session by (auto simp: mirrors_def m' intro: le_SucI)
  qed
  moreover have "deliver S [(i, start_request i (cr_launch ?r) (cr_language ?r))] reps = Some ?reps"
    by (simp add: start_request_def)
  moreover have "spares R p m reps m' ?reps"
    unfolding spares_def
  proof (intro allI impI conjI)
    fix b assume "settled R m reps b"
    show "settled R m' ?reps b"
      unfolding settled_def
    proof (intro allI impI)
      fix q assume q: "b_path b = Some q"
      show "case server_for (lm_lsp m') q of
          Some j \<Rightarrow> \<exists>v. ?reps j q = Some (v, rope_chars R (b_text b))
        | None \<Rightarrow> recipe_for_path (lm_lsp m') q = None"
      proof (cases "server_for (lm_lsp m) q")
        case (Some j)
        then have "j \<noteq> i"
          using server_for_session [OF named Some] below by (metis map_of_SomeD image_eqI fst_conv list.set_map order_less_irrefl)
        then show ?thesis
          using Some \<open>settled R m reps b\<close> q server [of q] by (auto simp: settled_def split: option.splits)
      next
        case n: None
        then have "recipe_for_path (lm_lsp m) q = None"
          using \<open>settled R m reps b\<close> q by (auto simp: settled_def split: option.splits)
        with n none show ?thesis by simp
      qed
    qed
  next
    fix b assume "buffer_fits R m b"
    then show "buffer_fits R m' b"
      using session by (auto simp: buffer_fits_def fits_shadow_def)
  qed
  moreover have "lm_outbox m' = lm_outbox m @ [(i, start_request i (cr_launch ?r) (cr_language ?r))]"
    "lm_buffers m' = lm_buffers m" by (simp_all add: m')
  moreover have "server_for (lm_lsp m') p = Some i" using server [of p] None kr(3) by simp
  ultimately show ?thesis using session [of i] launched_simps(3) by metis
qed

section \<open>A pass over the buffers\<close>

lemma drain_buffer_simps [simp]:
  "fst (drain_buffer b) = b_pending b" "b_path (snd (drain_buffer b)) = b_path b"
  "b_text (snd (drain_buffer b)) = b_text b"
  by (simp_all add: drain_buffer_def take_pending_changes_def)

lemma settled_cong: "b_path b' = b_path b \<Longrightarrow> b_text b' = b_text b \<Longrightarrow> settled R m reps b' = settled R m reps b"
  by (simp add: settled_def cong: option.case_cong)

text \<open>One session moves with its server; the others, and every other document, stay as they are.\<close>

lemma set_session_ok:
  assumes "mirrors R m reps" "session_of i m = Some s" "in_step R s' (reps' i)"
    "ss_server s' = ss_server s" "ss_extensions s' = ss_extensions s"
    "\<forall>q. q \<noteq> p \<longrightarrow> ss_synced s' q = ss_synced s q" "\<forall>j q. j \<noteq> i \<or> q \<noteq> p \<longrightarrow> reps' j q = reps j q"
  shows "mirrors R (set_session i s' m) reps'" "spares R p m reps (set_session i s' m) reps'"
    "server_for (lm_lsp (set_session i s' m)) = server_for (lm_lsp m)"
proof -
  note st = server_for_set [of m i s s', OF _ assms(2,4,5)]
  have named: "sessions_named (lm_lsp m)" using assms(1) by (simp add: mirrors_def)
  show f: "server_for (lm_lsp (set_session i s' m)) = server_for (lm_lsp m)" using st(1) [OF named] .
  have "reps' j = reps j" if "j \<noteq> i" for j using assms(7) that by auto
  then show "mirrors R (set_session i s' m) reps'"
    using assms(1,2,3) st(2) [OF named] by (auto simp: mirrors_def session_of_set)
  have "settled R (set_session i s' m) reps' b" if "settled R m reps b" "b_path b \<noteq> Some p" for b
    using that assms(7) f by (auto simp: settled_def split: option.splits)
  moreover have "buffer_fits R (set_session i s' m) b" if "buffer_fits R m b" "b_path b \<noteq> Some p" for b
    using that assms(2,6) by (auto simp: buffer_fits_def session_of_set fits_shadow_def split: if_splits)
  ultimately show "spares R p m reps (set_session i s' m) reps'" by (simp add: spares_def)
qed

lemma sync_claimed_ok:
  assumes "rope_utf16 R" "same_lines R S" "mirrors R m reps" "buffer_fits R m b" "b_path b = Some p"
    "claim_server p m = Some (i, m1)"
  shows "\<exists>s rs s' out reps'. session_of i m1 = Some s
    \<and> sync_document R p (b_text b) (b_pending b) s = Some (rs, s')
    \<and> lm_outbox (send_to i rs (set_session i s' m1)) = lm_outbox m @ out
    \<and> deliver S out reps = Some reps' \<and> mirrors R (send_to i rs (set_session i s' m1)) reps'
    \<and> lm_buffers (send_to i rs (set_session i s' m1)) = lm_buffers m
    \<and> settled R (send_to i rs (set_session i s' m1)) reps' b
    \<and> spares R p m reps (send_to i rs (set_session i s' m1)) reps'"
proof -
  from claim_server_ok [OF assms(3,6), of S] obtain out reps1 s where
    claimed: "lm_outbox m1 = lm_outbox m @ out" "deliver S out reps = Some reps1" "mirrors R m1 reps1"
      "lm_buffers m1 = lm_buffers m" "server_for (lm_lsp m1) p = Some i" "spares R p m reps m1 reps1"
    and s: "session_of i m1 = Some s" "session_of i m = Some s \<or> ss_synced s = Map.empty" by blast
  have wf: "list_all wf_cs (b_pending b)" using assms(4) by (simp add: buffer_fits_def)
  have fits: "fits_shadow R p (b_pending b) s"
    using s(2) assms(4,5) by (auto simp: buffer_fits_def fits_shadow_def)
  have step: "in_step R s (reps1 i)" using claimed(3) s(1) by (simp add: mirrors_def)
  from sync_document_ok [where d = "reps1 i" and p = p and cs = "b_pending b" and doc = "b_text b",
      OF assms(1,2) wf fits step]
  obtain rs s' v where sent: "sync_document R p (b_text b) (b_pending b) s = Some (rs, s')"
    "server_hears_all S rs (reps1 i) = Some ((reps1 i)(p \<mapsto> (v, rope_chars R (b_text b))))"
    "in_step R s' ((reps1 i)(p \<mapsto> (v, rope_chars R (b_text b))))"
    "ss_server s' = ss_server s" "ss_extensions s' = ss_extensions s"
    "\<forall>q. q \<noteq> p \<longrightarrow> ss_synced s' q = ss_synced s q" by blast
  obtain reps2 where reps2: "reps2 = reps1(i := (reps1 i)(p \<mapsto> (v, rope_chars R (b_text b))))" by blast
  let ?m = "send_to i rs (set_session i s' m1)"
  have "in_step R s' (reps2 i)" "\<forall>j q. j \<noteq> i \<or> q \<noteq> p \<longrightarrow> reps2 j q = reps1 j q"
    using sent(3) reps2 by auto
  note set = set_session_ok [OF claimed(3) s(1) this(1) sent(4-6) this(2)]
  have same: "same_servers (set_session i s' m1) ?m" by (simp add: same_servers_def)
  have "spares R p m reps ?m reps2"
    using spares_trans [OF claimed(6) set(2)] same_servers_eq(5,6) [OF same] by (simp add: spares_def)
  moreover have "settled R ?m reps2 b"
    using set(3) claimed(5) assms(5) reps2 by (simp add: settled_def)
  moreover have "deliver S (out @ map (Pair i) rs) reps = Some reps2"
    using claimed(2) deliver_one [where reps = reps1, OF sent(2)] reps2 by (simp add: deliver_append)
  moreover have "mirrors R ?m reps2" using set(1) same_servers_eq(4) [OF same] by metis
  moreover have "lm_outbox ?m = lm_outbox m @ (out @ map (Pair i) rs)" "lm_buffers ?m = lm_buffers m"
    using claimed(1,4) by simp_all
  ultimately show ?thesis using s(1) sent(1) by blast
qed

lemma sync_index_ok:
  assumes "rope_utf16 R" "same_lines R S" "mirrors R m reps" "buffer_fits R m (lm_buffers m ! k)"
  shows "\<exists>m' out reps'. sync_index R k m = Some m' \<and> lm_outbox m' = lm_outbox m @ out
    \<and> deliver S out reps = Some reps' \<and> mirrors R m' reps'
    \<and> lm_buffers m' = (lm_buffers m)[k := snd (drain_buffer (lm_buffers m ! k))]
    \<and> settled R m' reps' (lm_buffers m ! k)
    \<and> (\<forall>p. b_path (lm_buffers m ! k) = Some p \<longrightarrow> spares R p m reps m' reps')
    \<and> (b_path (lm_buffers m ! k) = None \<longrightarrow> same_servers m m' \<and> reps' = reps)"
proof -
  let ?b = "lm_buffers m ! k"
  let ?m1 = "m\<lparr>lm_buffers := (lm_buffers m)[k := snd (drain_buffer ?b)]\<rparr>"
  show ?thesis
  proof (cases "b_path ?b")
    case None
    moreover have "same_servers m ?m1" by (simp add: same_servers_def)
    moreover have "sync_index R k m = Some ?m1"
      using None by (simp add: sync_index_def case_prod_beta)
    moreover have "lm_outbox ?m1 = lm_outbox m @ []" "deliver S [] reps = Some reps" by simp_all
    ultimately show ?thesis
      using assms(3) same_servers_eq(4) [of m ?m1] by (intro exI conjI) (assumption | simp add: settled_def)+
  next
    case (Some p)
    let ?m2 = "if b_pending ?b = [] then ?m1 else forget_diagnostics p ?m1"
    have same: "same_servers m ?m2" by (simp add: same_servers_def)
    have m2: "mirrors R ?m2 reps" "buffer_fits R ?m2 ?b" "lm_outbox ?m2 = lm_outbox m"
      "lm_buffers ?m2 = (lm_buffers m)[k := snd (drain_buffer ?b)]"
      "\<And>m3 r3. spares R p ?m2 reps m3 r3 = spares R p m reps m3 r3"
      using assms(3,4) same_servers_eq(4-6) [OF same] by (auto simp: spares_def)
    have index: "sync_index R k m = (case claim_server p ?m2 of
        None \<Rightarrow> Some ?m2
      | Some (i, m3) \<Rightarrow>
          (case session_of i m3 of
             None \<Rightarrow> Some m3
           | Some s \<Rightarrow> do {
               (rs, s') \<leftarrow> sync_document R p (b_text ?b) (b_pending ?b) s;
               Some (send_to i rs (set_session i s' m3)) }))"
      unfolding sync_index_def Let_def case_prod_beta drain_buffer_simps(1) Some by simp
    show ?thesis
    proof (cases "claim_server p ?m2")
      case None
      then have "server_for (lm_lsp ?m2) p = None \<and> recipe_for_path (lm_lsp ?m2) p = None"
        by (auto simp: claim_server_def Let_def split: option.splits)
      then have "settled R ?m2 reps ?b" using Some by (simp add: settled_def)
      moreover have "spares R p m reps ?m2 reps" using m2(5) [of m reps] same_servers_eq(5,6) [OF same]
        by (simp add: spares_def)
      moreover have "lm_outbox ?m2 = lm_outbox m @ []" "deliver S [] reps = Some reps" by simp_all
      moreover have "sync_index R k m = Some ?m2" using index None by simp
      ultimately show ?thesis using m2(1,4) Some by (intro exI conjI) (assumption | simp)+
    next
      case c: (Some im)
      obtain i m3 where im: "claim_server p ?m2 = Some (i, m3)" using c by (cases im) auto
      from sync_claimed_ok [OF assms(1,2) m2(1,2) Some im] obtain s rs s' out reps' where
        fin: "session_of i m3 = Some s" "sync_document R p (b_text ?b) (b_pending ?b) s = Some (rs, s')"
        "lm_outbox (send_to i rs (set_session i s' m3)) = lm_outbox m @ out"
        "deliver S out reps = Some reps'" "mirrors R (send_to i rs (set_session i s' m3)) reps'"
        "lm_buffers (send_to i rs (set_session i s' m3)) = (lm_buffers m)[k := snd (drain_buffer ?b)]"
        "settled R (send_to i rs (set_session i s' m3)) reps' ?b"
        "spares R p m reps (send_to i rs (set_session i s' m3)) reps'"
        using m2(3-5) by metis
      have "sync_index R k m = Some (send_to i rs (set_session i s' m3))"
        using index im fin(1,2) by simp
      with fin(3-8) Some show ?thesis by (intro exI conjI) (assumption | simp)+
    qed
  qed
qed

lemma sync_from_ok:
  assumes "rope_utf16 R" "same_lines R S" "mirrors R m reps" "distinct ks"
    "\<forall>k\<in>set ks. k < length (lm_buffers m) \<and> buffer_fits R m (lm_buffers m ! k)"
    "distinct (List.map_filter (\<lambda>k. b_path (lm_buffers m ! k)) ks)"
  shows "\<exists>m' out reps'. sync_from R ks m = Some m' \<and> lm_outbox m' = lm_outbox m @ out
    \<and> deliver S out reps = Some reps' \<and> mirrors R m' reps'
    \<and> length (lm_buffers m') = length (lm_buffers m)
    \<and> (\<forall>k. lm_buffers m' ! k = (if k \<in> set ks then snd (drain_buffer (lm_buffers m ! k)) else lm_buffers m ! k))
    \<and> (\<forall>k\<in>set ks. settled R m' reps' (lm_buffers m ! k))
    \<and> (\<forall>b. settled R m reps b \<longrightarrow> (\<forall>k\<in>set ks. b_path b = None \<or> b_path b \<noteq> b_path (lm_buffers m ! k))
         \<longrightarrow> settled R m' reps' b)"
  using assms(3-)
proof (induction ks arbitrary: m reps)
  case Nil
  have "sync_from R [] m = Some m" "lm_outbox m = lm_outbox m @ []" "deliver S [] reps = Some reps" by simp_all
  with Nil.prems(1) show ?case by (intro exI conjI) (assumption | simp)+
next
  case (Cons k ks)
  let ?b = "lm_buffers m ! k"
  have k: "k < length (lm_buffers m)" "buffer_fits R m ?b" "k \<notin> set ks" using Cons.prems by simp_all
  from sync_index_ok [OF assms(1,2) Cons.prems(1) k(2)] obtain m1 out1 reps1 where
    one: "sync_index R k m = Some m1" "lm_outbox m1 = lm_outbox m @ out1" "deliver S out1 reps = Some reps1"
      "mirrors R m1 reps1" "lm_buffers m1 = (lm_buffers m)[k := snd (drain_buffer ?b)]"
      "settled R m1 reps1 ?b" "\<forall>p. b_path ?b = Some p \<longrightarrow> spares R p m reps m1 reps1"
      "b_path ?b = None \<longrightarrow> same_servers m m1 \<and> reps1 = reps"
    by - (elim exE conjE, rule that)
  have kept: "(settled R m reps b \<longrightarrow> settled R m1 reps1 b) \<and> (buffer_fits R m b \<longrightarrow> buffer_fits R m1 b)"
    if "b_path b = None \<or> b_path b \<noteq> b_path ?b" for b
  proof (cases "b_path ?b")
    case None
    then show ?thesis using one(8) same_servers_eq(5,6) [of m m1] by metis
  next
    case (Some p)
    then show ?thesis using one(7) that by (auto simp: spares_def)
  qed
  have other: "b_path (lm_buffers m ! j) = None \<or> b_path (lm_buffers m ! j) \<noteq> b_path ?b" if "j \<in> set ks" for j
  proof (cases "b_path ?b")
    case (Some p)
    then have "p \<notin> set (List.map_filter (\<lambda>k. b_path (lm_buffers m ! k)) ks)"
      using Cons.prems(4) by (simp add: List.map_filter_simps)
    with Some that show ?thesis by (auto simp: map_filter_set)
  qed auto
  have at: "lm_buffers m1 ! j = lm_buffers m ! j" if "j \<noteq> k" for j using one(5) that by simp
  have "distinct ks" using Cons.prems(2) by simp
  moreover have "\<forall>j\<in>set ks. j < length (lm_buffers m1) \<and> buffer_fits R m1 (lm_buffers m1 ! j)"
    using Cons.prems(3) k(3) kept other at one(5) by (metis length_list_update list.set_intros(2))
  moreover have "distinct (List.map_filter (\<lambda>j. b_path (lm_buffers m1 ! j)) ks)"
  proof -
    have "List.map_filter (\<lambda>j. b_path (lm_buffers m1 ! j)) ks = List.map_filter (\<lambda>j. b_path (lm_buffers m ! j)) ks"
      using at k(3) by (induction ks) (auto simp: List.map_filter_simps split: option.split)
    moreover have "distinct (List.map_filter (\<lambda>j. b_path (lm_buffers m ! j)) ks)"
      using Cons.prems(4) by (auto simp: List.map_filter_simps split: option.splits)
    ultimately show ?thesis by simp
  qed
  ultimately obtain m' out reps' where rest: "sync_from R ks m1 = Some m'" "lm_outbox m' = lm_outbox m1 @ out"
    "deliver S out reps1 = Some reps'" "mirrors R m' reps'" "length (lm_buffers m') = length (lm_buffers m1)"
    "\<forall>j. lm_buffers m' ! j = (if j \<in> set ks then snd (drain_buffer (lm_buffers m1 ! j)) else lm_buffers m1 ! j)"
    "\<forall>j\<in>set ks. settled R m' reps' (lm_buffers m1 ! j)"
    "\<forall>b. settled R m1 reps1 b \<longrightarrow> (\<forall>j\<in>set ks. b_path b = None \<or> b_path b \<noteq> b_path (lm_buffers m1 ! j))
         \<longrightarrow> settled R m' reps' b"
    using Cons.IH [OF one(4)] by blast
  have away: "\<forall>j\<in>set ks. lm_buffers m1 ! j = lm_buffers m ! j" using at k(3) by metis
  have "settled R m' reps' ?b" using rest(8) one(6) other away by metis
  then have "\<forall>j\<in>set (k # ks). settled R m' reps' (lm_buffers m ! j)" using rest(7) away by simp
  moreover have "\<forall>j. lm_buffers m' ! j = (if j \<in> set (k # ks) then snd (drain_buffer (lm_buffers m ! j)) else lm_buffers m ! j)"
    using rest(6) one(5) k(1,3) away by auto
  moreover have "\<forall>b. settled R m reps b \<longrightarrow>
      (\<forall>j\<in>set (k # ks). b_path b = None \<or> b_path b \<noteq> b_path (lm_buffers m ! j)) \<longrightarrow> settled R m' reps' b"
    using kept rest(8) away by simp
  moreover have "deliver S (out1 @ out) reps = Some reps'" using one(3) rest(3) by (simp add: deliver_append)
  moreover have "sync_from R (k # ks) m = Some m'" "lm_outbox m' = lm_outbox m @ (out1 @ out)"
    "length (lm_buffers m') = length (lm_buffers m)"
    using one(1,2,5) rest(1,2,5) by simp_all
  ultimately show ?case using rest(4) by blast
qed

end
