(* ===== verification/Lsp_Edits.thy ===== *)
theory Lsp_Edits
  imports Lsp_Documents File_Tree
begin

text \<open>
  Edits authored by a language server (\<open>build_lsp_changes\<close>, \<open>apply_text_edits\<close>,
  \<open>apply_workspace_edit\<close> and what they call, \<open>crates/app/src/model.rs\<close>).  All ranges are read against
  the same document; a workspace edit waits until every target is open, prepares the changes of
  every file and only then applies them.  Highlighting and proposals, which are brought up to date
  after an edit as well, are not part of this state.
\<close>

section \<open>The edits of one document\<close>

definition edit_error_fmt :: "edit_error \<Rightarrow> utext" where
  "edit_error_fmt e =
     (case e of
        StaleVersion expected found \<Rightarrow>
          ustr ''edit was written against version '' @ decimal expected
            @ ustr '' but the buffer is at '' @ decimal found
      | LengthMismatch expected found \<Rightarrow>
          ustr ''edit expects a '' @ decimal expected @ ustr ''-char document, buffer has '' @ decimal found
      | NotUtf8 p \<Rightarrow> ustr ''not valid UTF-8: '' @ path_components_display p
      | Fs f \<Rightarrow> fs_error_fmt f)"

definition convert_edit :: "'r rope_api \<Rightarrow> 'r \<Rightarrow> lsp_text_edit \<Rightarrow> (nat \<times> nat \<times> utext) option" where
  "convert_edit R doc e =
     do { st \<leftarrow> offset_from_utf16 R doc (pos_line (tr_start (te_range e)))
            (pos_character (tr_start (te_range e)));
          en \<leftarrow> offset_from_utf16 R doc (pos_line (tr_end (te_range e)))
            (pos_character (tr_end (te_range e)));
          Some (st, en, te_new_text e) }"

fun edits_overlap :: "(nat \<times> nat \<times> utext) list \<Rightarrow> bool" where
  "edits_overlap ((s1, e1, t1) # (s2, e2, t2) # es) \<longleftrightarrow>
     s2 < e1 \<or> (s1 = e1 \<and> s2 = e2 \<and> s1 = s2) \<or> edits_overlap ((s2, e2, t2) # es)"
| "edits_overlap _ \<longleftrightarrow> False"

text \<open>\<open>None\<close>: \<open>start - at\<close> or \<open>end - start\<close> underflows.\<close>

fun edits_loop ::
  "(nat \<times> nat \<times> utext) list \<Rightarrow> nat \<Rightarrow> change_set_builder \<Rightarrow> change_set_builder option" where
  "edits_loop [] at b = Some b"
| "edits_loop ((s, e, t) # es) at b =
     (if s < at \<or> e < s then None
      else edits_loop es e (bd_insert (bd_delete (bd_retain b (s - at)) (e - s)) t))"

definition build_lsp_changes ::
  "'r rope_api \<Rightarrow> 'r \<Rightarrow> lsp_text_edit list \<Rightarrow> (utext + change_set) option" where
  "build_lsp_changes R doc edits =
     do { converted \<leftarrow> those (map (convert_edit R doc) edits);
          if list_ex (\<lambda>(s, e, _). e < s) converted
          then Some (Inl (ustr ''Language server returned an edit with a reversed range''))
          else (let sorted = sort_key (\<lambda>(s, e, _). (s, e)) converted in
            if edits_overlap sorted
            then Some (Inl (ustr ''Language server returned overlapping edits''))
            else do {
              b \<leftarrow> edits_loop sorted 0 (cs_builder (rope_len R doc));
              cs \<leftarrow> bd_build b;
              Some (Inr cs) }) }"

section \<open>One file\<close>

definition notify :: "utext \<Rightarrow> 'r lsp_model \<Rightarrow> 'r lsp_model" where
  "notify msg m = m\<lparr>lm_notification := Some msg\<rparr>"

definition buffer_index :: "path \<Rightarrow> 'r lsp_model \<Rightarrow> nat option" where
  "buffer_index p m = find_position (\<lambda>b. b_path b = Some p) (lm_buffers m)"

definition active_buffer :: "'r lsp_model \<Rightarrow> 'r buffer option" where
  "active_buffer m =
     (case lm_active m of
        Some k \<Rightarrow> if k < length (lm_buffers m) then Some (lm_buffers m ! k) else None
      | None \<Rightarrow> None)"

definition apply_lsp_changes ::
  "'r rope_api \<Rightarrow> nat \<Rightarrow> change_set \<Rightarrow> 'r lsp_model \<Rightarrow> ((edit_error + unit) \<times> 'r lsp_model) option" where
  "apply_lsp_changes R k cs m =
     (let (tx, b) = transaction cs Lsp (lm_buffers m ! k) in
      do { (r, b') \<leftarrow> buffer_apply R tx b;
           Some (r, m\<lparr>lm_buffers := (lm_buffers m)[k := b']\<rparr>) })"

definition apply_text_edits ::
  "'r rope_api \<Rightarrow> lsp_text_edit list \<Rightarrow> 'r lsp_model \<Rightarrow> 'r lsp_model option" where
  "apply_text_edits R edits m =
     (case edits of
        [] \<Rightarrow> Some m
      | first # _ \<Rightarrow>
          if list_ex (\<lambda>e. te_path e \<noteq> te_path first) edits
          then Some (notify (ustr
            ''language server returned edits for multiple files in a single-file response'') m)
          else
            (case buffer_index (te_path first) m of
               None \<Rightarrow> Some (notify (ustr ''language server edit targets a file that is not open: ''
                 @ path_components_display (te_path first)) m)
             | Some k \<Rightarrow> do {
                 built \<leftarrow> build_lsp_changes R (b_text (lm_buffers m ! k)) edits;
                 case built of
                   Inl msg \<Rightarrow> Some (notify msg m)
                 | Inr cs \<Rightarrow> do {
                     (r, m') \<leftarrow> apply_lsp_changes R k cs m;
                     case r of
                       Inl e \<Rightarrow> Some (notify (edit_error_fmt e) m')
                     | Inr _ \<Rightarrow> sync_lsp_documents R m' } }))"

definition position_of_pair :: "nat \<times> nat \<Rightarrow> text_range" where
  "position_of_pair lc = \<lparr>tr_start = protocol_position lc, tr_end = protocol_position lc\<rparr>"

definition accept_completion ::
  "'r rope_api \<Rightarrow> completion_item \<Rightarrow> 'r lsp_model \<Rightarrow> 'r lsp_model option" where
  "accept_completion R item m =
     (case ci_edit item of
        Some e \<Rightarrow> apply_text_edits R [e] m
      | None \<Rightarrow>
          (case active_buffer m of
             None \<Rightarrow> Some m
           | Some b \<Rightarrow>
               (case b_path b of
                  None \<Rightarrow> Some m
                | Some p \<Rightarrow> do {
                    c \<leftarrow> cursor b;
                    lc \<leftarrow> utf16_position R (b_text b) c;
                    apply_text_edits R
                      [\<lparr>te_path = p, te_range = position_of_pair lc, te_new_text = ci_insert_text item\<rparr>] m })))"

section \<open>Many files\<close>

definition restore_active_buffer :: "buffer_id option \<Rightarrow> 'r lsp_model \<Rightarrow> 'r lsp_model" where
  "restore_active_buffer i m =
     (case i of
        None \<Rightarrow> m
      | Some i \<Rightarrow>
          (case find_position (\<lambda>b. b_id b = i) (lm_buffers m) of
             None \<Rightarrow> m
           | Some k \<Rightarrow> m\<lparr>lm_active := Some k\<rparr>))"

fun group_edits ::
  "lsp_text_edit list \<Rightarrow> (path \<times> lsp_text_edit list) list \<Rightarrow> (path \<times> lsp_text_edit list) list" where
  "group_edits [] g = g"
| "group_edits (e # es) g =
     group_edits es (bt_insert (te_path e)
       ((case map_of g (te_path e) of Some l \<Rightarrow> l | None \<Rightarrow> []) @ [e]) g)"

text \<open>\<open>Inl\<close>: the message shown, and no file is changed.\<close>

fun prepare_edits ::
  "'r rope_api \<Rightarrow> 'r lsp_model \<Rightarrow> (path \<times> lsp_text_edit list) list \<Rightarrow>
   (utext + (nat \<times> change_set) list) option" where
  "prepare_edits R m [] = Some (Inr [])"
| "prepare_edits R m ((p, es) # gs) =
     (case buffer_index p m of
        None \<Rightarrow> Some (Inl (ustr ''Could not open '' @ path_components_display p
          @ ustr '' for the language-server edit; no files were changed''))
      | Some k \<Rightarrow> do {
          built \<leftarrow> build_lsp_changes R (b_text (lm_buffers m ! k)) es;
          case built of
            Inl msg \<Rightarrow> Some (Inl (msg @ ustr ''; no files were changed''))
          | Inr cs \<Rightarrow> do {
              rest \<leftarrow> prepare_edits R m gs;
              Some (case rest of Inl msg \<Rightarrow> Inl msg | Inr ps \<Rightarrow> Inr ((k, cs) # ps)) } })"

fun apply_prepared ::
  "'r rope_api \<Rightarrow> (nat \<times> change_set) list \<Rightarrow> 'r lsp_model \<Rightarrow> ((edit_error + unit) \<times> 'r lsp_model) option" where
  "apply_prepared R [] m = Some (Inr (), m)"
| "apply_prepared R ((k, cs) # ps) m =
     do { (r, m') \<leftarrow> apply_lsp_changes R k cs m;
          case r of Inl e \<Rightarrow> Some (Inl e, m') | Inr _ \<Rightarrow> apply_prepared R ps m' }"

definition finish_pending_workspace_edit :: "'r rope_api \<Rightarrow> 'r lsp_model \<Rightarrow> 'r lsp_model option" where
  "finish_pending_workspace_edit R m =
     (case lm_pending_edit m of
        None \<Rightarrow> Some m
      | Some pending \<Rightarrow>
          if pw_waiting pending \<noteq> [] then Some m
          else
            (let m1 = m\<lparr>lm_pending_edit := None\<rparr>;
                 grouped = group_edits (we_edits (pw_edit pending)) []
             in do {
               prepared \<leftarrow> prepare_edits R m1 grouped;
               case prepared of
                 Inl msg \<Rightarrow> Some (notify msg (restore_active_buffer (pw_previous pending) m1))
               | Inr ps \<Rightarrow> do {
                   (r, m2) \<leftarrow> apply_prepared R ps m1;
                   case r of
                     Inl e \<Rightarrow> Some (notify (ustr ''Language-server edit failed: '' @ edit_error_fmt e) m2)
                   | Inr _ \<Rightarrow> do {
                       m3 \<leftarrow> sync_lsp_documents R (restore_active_buffer (pw_previous pending) m2);
                       Some (notify (ustr ''Applied language-server edit to '' @ decimal (length grouped)
                         @ ustr (if length grouped = 1 then '' file'' else '' files'')) m3) } } }))"

text \<open>Where each target of a workspace edit comes from: an open buffer, a read under way, or a new one.\<close>

fun open_targets ::
  "path list \<Rightarrow> 'r lsp_model \<Rightarrow> (buffer_id \<times> path) list \<Rightarrow> 'r lsp_model \<times> (buffer_id \<times> path) list" where
  "open_targets [] m waiting = (m, waiting)"
| "open_targets (p # ps) m waiting =
     (if buffer_index p m \<noteq> None then open_targets ps m waiting
      else case find (\<lambda>(_, q). q = p) (lm_opening m) of
        Some (b, _) \<Rightarrow> open_targets ps m (bt_insert b p waiting)
      | None \<Rightarrow>
          let b = lm_next_buffer m + 1 in
          open_targets ps (m\<lparr>lm_next_buffer := b, lm_opening := lm_opening m @ [(b, p)],
                             lm_fs_outbox := lm_fs_outbox m @ [FsReadFile b p]\<rparr>) (bt_insert b p waiting))"

definition open_version :: "path \<Rightarrow> 'r lsp_model \<Rightarrow> nat option" where
  "open_version p m =
     do { i \<leftarrow> server_for (lm_lsp m) p; s \<leftarrow> session_of i m; ss_open_docs s p }"

definition apply_workspace_edit ::
  "'r rope_api \<Rightarrow> workspace_edit \<Rightarrow> 'r lsp_model \<Rightarrow> 'r lsp_model option" where
  "apply_workspace_edit R ed m =
     (if lm_pending_edit m \<noteq> None
      then Some (notify (ustr ''Another language-server workspace edit is still loading'') m)
      else if we_edits ed = []
      then Some (notify (ustr ''The selected language action made no changes'') m)
      else case lm_root m of
        None \<Rightarrow> Some (notify (ustr ''A workspace must be open to apply a workspace edit'') m)
      | Some root \<Rightarrow>
          (let paths = remdups (sort (map te_path (we_edits ed))) in
           case find (\<lambda>p. \<not> path_starts_with p root) paths of
             Some p \<Rightarrow> Some (notify (ustr ''Language-server edit is outside the workspace: ''
               @ path_components_display p) m)
           | None \<Rightarrow>
               (case find (\<lambda>(p, v). open_version p m \<noteq> Some v) (we_versions ed) of
                  Some (p, _) \<Rightarrow> Some (notify (path_components_display p @ ustr
                    '' changed after the language server prepared this edit; no files were changed'') m)
                | None \<Rightarrow>
                    (let previous = map_option b_id (active_buffer m);
                         (m1, waiting) = open_targets paths m []
                     in finish_pending_workspace_edit R
                          (m1\<lparr>lm_pending_edit := Some \<lparr>pw_edit = ed, pw_waiting = waiting,
                                                       pw_previous = previous\<rparr>\<rparr>)))))"

definition abandon_pending_workspace_edit :: "utext \<Rightarrow> 'r lsp_model \<Rightarrow> 'r lsp_model" where
  "abandon_pending_workspace_edit msg m =
     notify msg
       (case lm_pending_edit m of
          Some pending \<Rightarrow> restore_active_buffer (pw_previous pending) (m\<lparr>lm_pending_edit := None\<rparr>)
        | None \<Rightarrow> m)"

definition accept_code_action ::
  "'r rope_api \<Rightarrow> code_action \<Rightarrow> 'r lsp_model \<Rightarrow> 'r lsp_model option" where
  "accept_code_action R action m =
     (case ca_edit action of
        Some ed \<Rightarrow> apply_workspace_edit R ed m
      | None \<Rightarrow> Some (notify (ustr ''Code action '' @ [39] @ ca_title action @ [39]
          @ ustr '' has no edit Termesh can apply'') m))"

end
