(* ===== verification/App_Files.thy ===== *)
theory App_Files
  imports Lsp_Edits
begin

text \<open>
  Opening, editing, saving, reloading and closing files (\<open>crates/app/src/model.rs\<close>).  Reads and
  writes go through the filesystem worker and come back as events.  Events for configuration files,
  agents, recovery drafts and the restored session are told apart first, by tables of their own that
  are not part of this state; nor are the focus, the draft files and the proposals.
\<close>

section \<open>Opening\<close>

definition open_file :: "path \<Rightarrow> 'r lsp_model \<Rightarrow> 'r lsp_model" where
  "open_file p m =
     (case buffer_index p m of
        Some k \<Rightarrow> m\<lparr>lm_active := Some k\<rparr>
      | None \<Rightarrow>
          if list_ex (\<lambda>(_, q). q = p) (lm_opening m) then m
          else (let i = lm_next_buffer m + 1 in
                m\<lparr>lm_next_buffer := i, lm_opening := lm_opening m @ [(i, p)],
                  lm_fs_outbox := lm_fs_outbox m @ [FsReadFile i p]\<rparr>))"

definition position_open_buffer ::
  "'r rope_api \<Rightarrow> path \<Rightarrow> nat \<Rightarrow> nat \<Rightarrow> 'r lsp_model \<Rightarrow> (bool \<times> 'r lsp_model) option" where
  "position_open_buffer R p line column m =
     (case buffer_index p m of
        None \<Rightarrow> Some (False, m)
      | Some k \<Rightarrow>
          (let b = lm_buffers m ! k;
               l = min (line - 1) (rope_len_lines R (b_text b) - 1)
           in do {
             (st, en) \<leftarrow> line_range R l b;
             b' \<leftarrow> scroll_to_cursor R (lm_editor_height m)
               (set_selection (selection_point (min (st + (column - 1)) en)) b);
             Some (True, m\<lparr>lm_buffers := (lm_buffers m)[k := b'], lm_active := Some k\<rparr>) }))"

definition open_file_at ::
  "'r rope_api \<Rightarrow> path \<Rightarrow> nat \<Rightarrow> nat \<Rightarrow> 'r lsp_model \<Rightarrow> 'r lsp_model option" where
  "open_file_at R p line column m =
     do { (found, m') \<leftarrow> position_open_buffer R p line column m;
          Some (if found then m' else open_file p (m'\<lparr>lm_open_at := Some (p, line, column)\<rparr>)) }"

section \<open>Editing and saving\<close>

definition edit_active ::
  "'r rope_api \<Rightarrow> ('r buffer \<Rightarrow> ((edit_error + unit) \<times> 'r buffer) option) \<Rightarrow> 'r lsp_model \<Rightarrow> 'r lsp_model option" where
  "edit_active R f m =
     (case lm_active m of
        None \<Rightarrow> Some m
      | Some k \<Rightarrow>
          if length (lm_buffers m) \<le> k then Some m
          else do {
            (r, b) \<leftarrow> f (lm_buffers m ! k);
            b' \<leftarrow> scroll_to_cursor R (lm_editor_height m) b;
            let m' = m\<lparr>lm_buffers := (lm_buffers m)[k := b']\<rparr>;
            Some (case r of Inl e \<Rightarrow> notify (edit_error_fmt e) m' | Inr _ \<Rightarrow> m') })"

definition type_char :: "'r rope_api \<Rightarrow> uchar \<Rightarrow> 'r lsp_model \<Rightarrow> 'r lsp_model option" where
  "type_char R c m =
     do { m' \<leftarrow> edit_active R (buffer_insert R [c] Keyboard) (m\<lparr>lm_notification := None\<rparr>);
          sync_lsp_documents R m' }"

definition save_active_buffer :: "'r rope_api \<Rightarrow> 'r lsp_model \<Rightarrow> 'r lsp_model" where
  "save_active_buffer R m =
     (case active_buffer m of
        None \<Rightarrow> notify (ustr ''nothing to save'') m
      | Some b \<Rightarrow>
          (case b_path b of
             None \<Rightarrow> notify (ustr ''buffer has no path'') m
           | Some p \<Rightarrow>
               if \<not> is_dirty b then notify (ustr ''no changes to save'') m
               else m\<lparr>lm_fs_outbox := lm_fs_outbox m
                 @ [FsWriteFile (b_id b) p (utf8_encode (to_disk_string R b)) (b_version b)]\<rparr>))"

text \<open>\<open>FsEvent::FileSaved\<close> of a buffer.\<close>

definition on_file_saved :: "buffer_id \<Rightarrow> nat \<Rightarrow> 'r lsp_model \<Rightarrow> 'r lsp_model" where
  "on_file_saved i v m =
     (case find_position (\<lambda>b. b_id b = i) (lm_buffers m) of
        None \<Rightarrow> m
      | Some k \<Rightarrow>
          (let m' = m\<lparr>lm_buffers := (lm_buffers m)[k := mark_saved v (lm_buffers m ! k)]\<rparr> in
           case b_path (lm_buffers m ! k) of
             None \<Rightarrow> m'
           | Some p \<Rightarrow>
               (case server_for (lm_lsp m') p of
                  None \<Rightarrow> m'
                | Some s \<Rightarrow> send_to s [RqDidSave p] m')))"

section \<open>Reading\<close>

definition arrived :: "buffer_id \<Rightarrow> 'r lsp_model \<Rightarrow> 'r lsp_model" where
  "arrived i m =
     (case lm_pending_edit m of
        None \<Rightarrow> m
      | Some pending \<Rightarrow>
          m\<lparr>lm_pending_edit := Some (pending\<lparr>pw_waiting := bt_remove i (pw_waiting pending)\<rparr>)\<rparr>)"

definition display_name :: "path \<Rightarrow> utext" where
  "display_name p = (case path_file_name p of Some n \<Rightarrow> n | None \<Rightarrow> path_components_display p)"

definition awaited :: "buffer_id \<Rightarrow> 'r lsp_model \<Rightarrow> bool" where
  "awaited i m \<longleftrightarrow>
     (case lm_pending_edit m of None \<Rightarrow> False | Some pending \<Rightarrow> map_of (pw_waiting pending) i \<noteq> None)"

definition reload_buffer ::
  "'r rope_api \<Rightarrow> nat \<Rightarrow> buffer_id \<Rightarrow> path \<Rightarrow> utext \<Rightarrow> 'r lsp_model \<Rightarrow> 'r lsp_model" where
  "reload_buffer R k i p t m =
     (let m' = (case b_path (lm_buffers m ! k) of Some old \<Rightarrow> close_lsp_document old m | None \<Rightarrow> m);
          b = set_selection (b_selection (lm_buffers m' ! k)) (buffer_from_text R i (Some p) t)
      in m'\<lparr>lm_buffers := (lm_buffers m')[k := b]\<rparr>)"

text \<open>\<open>FsEvent::FileLoaded\<close>; \<open>utf8_decode\<close> is \<open>String::from_utf8\<close>.\<close>

definition on_file_loaded ::
  "'r rope_api \<Rightarrow> buffer_id \<Rightarrow> path \<Rightarrow> bytes \<Rightarrow> 'r lsp_model \<Rightarrow> 'r lsp_model option" where
  "on_file_loaded R i p contents m =
     (let m1 = m\<lparr>lm_opening := filter (\<lambda>(j, _). j \<noteq> i) (lm_opening m)\<rparr> in
      case utf8_decode contents of
        None \<Rightarrow>
          (let msg = ustr ''not a text file: '' @ display_name p in
           Some (if awaited i m1
                 then abandon_pending_workspace_edit (msg @ ustr ''; no language-server edits were applied'') m1
                 else notify msg m1))
      | Some t \<Rightarrow>
          (case find_position (\<lambda>b. b_id b = i) (lm_buffers m1) of
             Some k \<Rightarrow> do {
               m2 \<leftarrow> sync_lsp_documents R (reload_buffer R k i p t m1);
               finish_pending_workspace_edit R (arrived i m2) }
           | None \<Rightarrow> do {
               let m2 = m1\<lparr>lm_buffers := lm_buffers m1 @ [buffer_from_text R i (Some p) t],
                           lm_active := Some (length (lm_buffers m1))\<rparr>;
               m3 \<leftarrow> (case lm_open_at m2 of
                        None \<Rightarrow> Some m2
                      | Some (q, line, column) \<Rightarrow>
                          if q = p
                          then map_option snd
                            (position_open_buffer R p line column (m2\<lparr>lm_open_at := None\<rparr>))
                          else Some m2);
               m4 \<leftarrow> sync_lsp_documents R m3;
               finish_pending_workspace_edit R (arrived i m4) }))"

definition on_file_failed :: "buffer_id \<Rightarrow> fs_error \<Rightarrow> 'r lsp_model \<Rightarrow> 'r lsp_model" where
  "on_file_failed i e m =
     (let m1 = m\<lparr>lm_opening := filter (\<lambda>(j, _). j \<noteq> i) (lm_opening m)\<rparr> in
      if awaited i m1
      then abandon_pending_workspace_edit (ustr ''Could not open a language-server edit target: ''
        @ fs_error_fmt e @ ustr ''; no files were changed'') m1
      else notify (fs_error_fmt e) m1)"

text \<open>The files that changed on disk: the reads asked for, and the warning of the last dirty one.\<close>

fun stale_buffers :: "path list \<Rightarrow> 'r lsp_model \<Rightarrow> (buffer_id \<times> path) list \<times> 'r lsp_model" where
  "stale_buffers [] m = ([], m)"
| "stale_buffers (p # ps) m =
     (case buffer_index p m of
        None \<Rightarrow> stale_buffers ps m
      | Some k \<Rightarrow>
          if is_dirty (lm_buffers m ! k)
          then stale_buffers ps
            (notify (display_name p @ ustr '' changed on disk; you have unsaved edits'') m)
          else (let (rest, m') = stale_buffers ps m in ((b_id (lm_buffers m ! k), p) # rest, m')))"

definition reload_changed_buffers :: "path list \<Rightarrow> 'r lsp_model \<Rightarrow> 'r lsp_model" where
  "reload_changed_buffers ps m =
     (let (stale, m') = stale_buffers ps m in
      m'\<lparr>lm_fs_outbox := lm_fs_outbox m' @ map (\<lambda>(i, p). FsReadFile i p) stale\<rparr>)"

section \<open>Closing and switching\<close>

definition discard_buffer :: "buffer_id \<Rightarrow> 'r lsp_model \<Rightarrow> 'r lsp_model" where
  "discard_buffer i m =
     (case find_position (\<lambda>b. b_id b = i) (lm_buffers m) of
        None \<Rightarrow> m
      | Some k \<Rightarrow>
          (let m' = (case b_path (lm_buffers m ! k) of
                       Some p \<Rightarrow> close_lsp_document p m | None \<Rightarrow> m);
               bs = take k (lm_buffers m') @ drop (Suc k) (lm_buffers m')
           in m'\<lparr>lm_buffers := bs,
                 lm_active := (if bs = [] then None else Some (min (k - 1) (length bs - 1)))\<rparr>))"

definition close_tab :: "'r lsp_model \<Rightarrow> 'r lsp_model" where
  "close_tab m =
     (case active_buffer m of
        None \<Rightarrow> notify (ustr ''nothing to close'') m
      | Some b \<Rightarrow>
          if is_dirty b
          then m\<lparr>lm_overlays := lm_overlays m @ [OvPrompt
            ((case b_path b of Some p \<Rightarrow> display_name p | None \<Rightarrow> ustr ''untitled'')
              @ ustr '' has unsaved changes '' @ [8212]
              @ ustr '' close anyway?  (Enter to confirm)'')]\<rparr>
          else discard_buffer (b_id b) m)"

definition cycle_tab :: "int \<Rightarrow> 'r lsp_model \<Rightarrow> 'r lsp_model" where
  "cycle_tab step m =
     (if length (lm_buffers m) < 2 then m
      else case lm_active m of
        None \<Rightarrow> m
      | Some k \<Rightarrow> m\<lparr>lm_active := Some (nat ((int k + step) mod int (length (lm_buffers m))))\<rparr>)"

end
