(* ===== verification/Lsp_Requests.thy ===== *)
theory Lsp_Requests
  imports App_Files
begin

text \<open>
  Asking a language server and hearing from it (\<open>request_lsp_*\<close>, \<open>on_lsp_event\<close> and what they call,
  \<open>crates/app/src/model.rs\<close>).  At most one request of a kind is active per session; a newer one
  cancels it, and an answer with another id than the active one is dropped.  \<open>lower\<close> is
  \<open>str::to_lowercase\<close>, by which symbols are sorted.
\<close>

section \<open>Asking\<close>

definition lsp_cursor_target ::
  "'r rope_api \<Rightarrow> 'r lsp_model \<Rightarrow> (nat \<times> path \<times> text_position) option option" where
  "lsp_cursor_target R m =
     (case active_buffer m of
        None \<Rightarrow> Some None
      | Some b \<Rightarrow>
          (case b_path b of
             None \<Rightarrow> Some None
           | Some p \<Rightarrow>
               (case server_for (lm_lsp m) p of
                  None \<Rightarrow> Some None
                | Some i \<Rightarrow> do {
                    c \<leftarrow> cursor b;
                    lc \<leftarrow> utf16_position R (b_text b) c;
                    Some (Some (i, p, protocol_position lc)) })))"

definition next_lsp_request :: "'r lsp_model \<Rightarrow> lsp_id \<times> 'r lsp_model" where
  "next_lsp_request m = (let i = lm_next_request m + 1 in (i, m\<lparr>lm_next_request := i\<rparr>))"

text \<open>Make the request with a fresh id the active one of its kind, cancelling the one it replaces.\<close>

definition ask_server ::
  "lsp_slot \<Rightarrow> ('r lsp_session_state \<Rightarrow> 'r lsp_session_state) \<Rightarrow> nat \<Rightarrow> (lsp_id \<Rightarrow> lsp_request) \<Rightarrow>
   'r lsp_model \<Rightarrow> 'r lsp_model" where
  "ask_server k note_path server request m =
     (let (i, m1) = next_lsp_request m in
      case session_of server m1 of
        None \<Rightarrow> m1
      | Some s \<Rightarrow>
          send_to server
            ((case ss_active s k of Some previous \<Rightarrow> [RqCancel previous] | None \<Rightarrow> []) @ [request i])
            (set_session server (note_path (s\<lparr>ss_active := (ss_active s)(k \<mapsto> i)\<rparr>)) m1))"

definition ask_at_cursor ::
  "'r rope_api \<Rightarrow> lsp_slot \<Rightarrow> (lsp_id \<Rightarrow> path \<Rightarrow> text_position \<Rightarrow> lsp_request) \<Rightarrow>
   'r lsp_model \<Rightarrow> 'r lsp_model option" where
  "ask_at_cursor R k request m =
     map_option (\<lambda>target. case target of
         None \<Rightarrow> m
       | Some (server, p, at) \<Rightarrow> ask_server k (\<lambda>s. s) server (\<lambda>i. request i p at) m)
       (lsp_cursor_target R m)"

definition request_lsp_definition :: "'r rope_api \<Rightarrow> 'r lsp_model \<Rightarrow> 'r lsp_model option" where
  "request_lsp_definition R = ask_at_cursor R SlotDefinition RqDefinition"

definition request_lsp_hover :: "'r rope_api \<Rightarrow> 'r lsp_model \<Rightarrow> 'r lsp_model option" where
  "request_lsp_hover R = ask_at_cursor R SlotHover RqHover"

definition request_lsp_completion :: "'r rope_api \<Rightarrow> 'r lsp_model \<Rightarrow> 'r lsp_model option" where
  "request_lsp_completion R = ask_at_cursor R SlotCompletion RqCompletion"

definition request_lsp_references :: "'r rope_api \<Rightarrow> 'r lsp_model \<Rightarrow> 'r lsp_model option" where
  "request_lsp_references R = ask_at_cursor R SlotReferences RqReferences"

definition request_lsp_rename :: "'r rope_api \<Rightarrow> utext \<Rightarrow> 'r lsp_model \<Rightarrow> 'r lsp_model option" where
  "request_lsp_rename R new_name = ask_at_cursor R SlotRename (\<lambda>i p at. RqRename i p at new_name)"

definition prompt_lsp_rename :: "'r rope_api \<Rightarrow> 'r lsp_model \<Rightarrow> 'r lsp_model option" where
  "prompt_lsp_rename R m =
     map_option (\<lambda>target. case target of
         None \<Rightarrow> notify (ustr ''No language server is available for this document'') m
       | Some _ \<Rightarrow> m\<lparr>lm_overlays := lm_overlays m @ [OvPrompt (ustr ''Code: Rename Symbol'')]\<rparr>)
       (lsp_cursor_target R m)"

text \<open>The active document and its server, for requests about the whole document.\<close>

definition lsp_document_target :: "'r lsp_model \<Rightarrow> (nat \<times> path \<times> 'r buffer) option" where
  "lsp_document_target m =
     do { b \<leftarrow> active_buffer m; p \<leftarrow> b_path b; i \<leftarrow> server_for (lm_lsp m) p; Some (i, p, b) }"

definition format_document :: "'r lsp_model \<Rightarrow> 'r lsp_model" where
  "format_document m =
     (case lsp_document_target m of
        None \<Rightarrow> m
      | Some (server, p, _) \<Rightarrow> ask_server SlotFormatting (\<lambda>s. s) server (\<lambda>i. RqFormatting i p) m)"

definition request_lsp_document_symbols :: "'r lsp_model \<Rightarrow> 'r lsp_model" where
  "request_lsp_document_symbols m =
     (case lsp_document_target m of
        None \<Rightarrow> m
      | Some (server, p, _) \<Rightarrow>
          ask_server SlotSymbols (\<lambda>s. s\<lparr>ss_symbol_path := Some p\<rparr>) server (\<lambda>i. RqDocumentSymbols i p) m)"

definition request_lsp_code_actions :: "'r rope_api \<Rightarrow> 'r lsp_model \<Rightarrow> 'r lsp_model option" where
  "request_lsp_code_actions R m =
     (case lsp_document_target m of
        None \<Rightarrow> Some m
      | Some (server, p, b) \<Rightarrow> do {
          selected \<leftarrow> selection_primary (b_selection b);
          st \<leftarrow> utf16_position R (b_text b) (range_start selected);
          en \<leftarrow> utf16_position R (b_text b) (range_end selected);
          let r = \<lparr>tr_start = protocol_position st, tr_end = protocol_position en\<rparr>;
          Some (ask_server SlotActions (\<lambda>s. s) server (\<lambda>i. RqCodeActions i p r) m) })"

definition request_lsp_workspace_symbols :: "'r lsp_model \<Rightarrow> 'r lsp_model" where
  "request_lsp_workspace_symbols m =
     (let m1 = m\<lparr>lm_overlays := lm_overlays m @ [OvSymbols (ustr ''Workspace Symbols'') [] 0]\<rparr> in
      fold (\<lambda>server. ask_server SlotWorkspace (\<lambda>s. s) server (\<lambda>i. RqWorkspaceSymbols i []))
        (map fst (ls_sessions (lm_lsp m1))) m1)"

section \<open>Overlays\<close>

definition selected_down :: "'a list \<Rightarrow> nat \<Rightarrow> nat" where
  "selected_down xs k = (if xs = [] then k else (k + 1) mod length xs)"

definition selected_up :: "'a list \<Rightarrow> nat \<Rightarrow> nat" where
  "selected_up xs k = (if xs = [] then k else (k + length xs - 1) mod length xs)"

fun flatten_document_symbols :: "document_symbol list \<Rightarrow> path \<Rightarrow> nat \<Rightarrow> symbol_row list" where
  "flatten_document_symbols [] p depth = []"
| "flatten_document_symbols (DocumentSymbol name kind detail rng children # rest) p depth =
     \<lparr>sr_label = name, sr_detail = detail, sr_depth = depth,
      sr_location = \<lparr>loc_path = p, loc_range = rng\<rparr>\<rparr>
     # flatten_document_symbols children p (depth + 1) @ flatten_document_symbols rest p depth"

text \<open>\<open>rows.extend(..)\<close> and the stable sort by the lower-cased label, on the overlay on top.\<close>

definition add_workspace_symbols ::
  "(utext \<Rightarrow> utext) \<Rightarrow> symbol_location list \<Rightarrow> lsp_overlay list \<Rightarrow> lsp_overlay list" where
  "add_workspace_symbols lower symbols ovs =
     (if ovs = [] then ovs
      else case last ovs of
        OvSymbols title rows selected \<Rightarrow>
          butlast ovs @ [OvSymbols title
            (sort_key (\<lambda>r. lower (sr_label r))
              (rows @ map (\<lambda>s. \<lparr>sr_label = sl_name s, sr_detail = sl_container s, sr_depth = 0,
                                sr_location = sl_location s\<rparr>) symbols)) selected]
      | _ \<Rightarrow> ovs)"

section \<open>Hearing\<close>

definition lsp_severity :: "diagnostic_severity \<Rightarrow> severity" where
  "lsp_severity s =
     (case s of DsError \<Rightarrow> severity.Error | DsWarning \<Rightarrow> Warning | DsInfo \<Rightarrow> Info | DsHint \<Rightarrow> Hint)"

definition diagnostic_decoration :: "'r rope_api \<Rightarrow> 'r \<Rightarrow> diagnostic_item \<Rightarrow> decoration option" where
  "diagnostic_decoration R doc d =
     do { st \<leftarrow> offset_from_utf16 R doc (pos_line (tr_start (dg_range d)))
            (pos_character (tr_start (dg_range d)));
          en \<leftarrow> offset_from_utf16 R doc (pos_line (tr_end (dg_range d)))
            (pos_character (tr_end (dg_range d)));
          Some (decoration_new st en (Diagnostic (lsp_severity (dg_severity d)))) }"

definition sync_lsp_diagnostics :: "'r rope_api \<Rightarrow> path \<Rightarrow> 'r lsp_model \<Rightarrow> 'r lsp_model option" where
  "sync_lsp_diagnostics R p m =
     (let ds = (case ls_diagnostics (lm_lsp m) p of Some ds \<Rightarrow> ds | None \<Rightarrow> []) in
      case buffer_index p m of
        None \<Rightarrow> Some m
      | Some k \<Rightarrow> do {
          let b = lm_buffers m ! k;
          decorations \<leftarrow> those (map (diagnostic_decoration R (b_text b)) ds);
          Some (m\<lparr>lm_buffers := (lm_buffers m)[k :=
            b\<lparr>b_decorations := fold (\<lambda>d s. decs_push s d) decorations
                (clear_diagnostics (b_decorations b))\<rparr>]\<rparr>) })"

definition open_lsp_location ::
  "'r rope_api \<Rightarrow> lsp_location \<Rightarrow> 'r lsp_model \<Rightarrow> 'r lsp_model option" where
  "open_lsp_location R loc m =
     (case lm_root m of
        Some root \<Rightarrow>
          if path_starts_with (loc_path loc) root
          then open_file_at R (loc_path loc) (pos_line (tr_start (loc_range loc)) + 1)
                 (pos_character (tr_start (loc_range loc)) + 1) m
          else Some (notify (ustr ''language-server location is outside workspace: ''
                 @ path_components_display (loc_path loc)) m)
      | None \<Rightarrow> Some (notify (ustr ''language-server location is outside workspace: ''
                 @ path_components_display (loc_path loc)) m))"

definition push_overlay :: "lsp_overlay \<Rightarrow> 'r lsp_model \<Rightarrow> 'r lsp_model" where
  "push_overlay ov m = m\<lparr>lm_overlays := lm_overlays m @ [ov]\<rparr>"

text \<open>Take the active request of a kind if the answer carries its id.\<close>

definition take_answer ::
  "nat \<Rightarrow> lsp_slot \<Rightarrow> lsp_id \<Rightarrow> 'r lsp_session_state \<Rightarrow> 'r lsp_model \<Rightarrow> 'r lsp_model option" where
  "take_answer server k i s m =
     (if ss_active s k = Some i
      then Some (set_session server (s\<lparr>ss_active := (ss_active s)(k := None)\<rparr>) m) else None)"

definition set_load :: "nat \<Rightarrow> lsp_load_state \<Rightarrow> 'r lsp_session_state \<Rightarrow> 'r lsp_model \<Rightarrow> 'r lsp_model" where
  "set_load server l s m = set_session server (s\<lparr>ss_load := l\<rparr>) m"

definition on_document_symbols ::
  "nat \<Rightarrow> lsp_id \<Rightarrow> document_symbol list \<Rightarrow> 'r lsp_session_state \<Rightarrow> 'r lsp_model \<Rightarrow> 'r lsp_model" where
  "on_document_symbols server i symbols s m =
     (if ss_active s SlotSymbols \<noteq> Some i then m
      else
        (let m1 = set_session server (s\<lparr>ss_active := (ss_active s)(SlotSymbols := None),
                                        ss_symbol_path := None\<rparr>) m in
         case ss_symbol_path s of
           None \<Rightarrow> m1
         | Some p \<Rightarrow>
             (let m2 = m1\<lparr>lm_symbols := (lm_symbols m1)(p \<mapsto> symbols)\<rparr>;
                  rows = flatten_document_symbols symbols p 0
              in if rows = [] then notify (ustr ''No document symbols'') m2
                 else push_overlay (OvSymbols (ustr ''Document Symbols'') rows 0) m2)))"

definition exit_message :: "int option \<Rightarrow> utext" where
  "exit_message code =
     (case code of
        Some c \<Rightarrow> ustr ''language server exited with status ''
          @ (if c < 0 then ustr ''-'' @ decimal (nat (- c)) else decimal (nat c))
      | None \<Rightarrow> ustr ''language server exited'')"

fun on_session_event ::
  "'r rope_api \<Rightarrow> (utext \<Rightarrow> utext) \<Rightarrow> nat \<Rightarrow> 'r lsp_session_state \<Rightarrow> lsp_event \<Rightarrow> 'r lsp_model \<Rightarrow>
   'r lsp_model option" where
  "on_session_event R lower i s EvStarted m = Some (set_load i LoadStarting s m)"
| "on_session_event R lower i s EvReady m = Some (set_load i LoadReady s m)"
| "on_session_event R lower i s (EvIndexing msg percent) m = Some (set_load i (LoadIndexing msg percent) s m)"
| "on_session_event R lower i s (EvDiagnostics p version ds) m =
     (if (case version of Some v \<Rightarrow> ss_open_docs s p \<noteq> Some v | None \<Rightarrow> False) then Some m
      else sync_lsp_diagnostics R p
        (m\<lparr>lm_lsp := (lm_lsp m)\<lparr>ls_diagnostics := (ls_diagnostics (lm_lsp m))(p \<mapsto> ds)\<rparr>\<rparr>))"
| "on_session_event R lower i s (EvDefinition q locations) m =
     (case take_answer i SlotDefinition q s m of
        None \<Rightarrow> Some m
      | Some m' \<Rightarrow>
          (case locations of
             loc # _ \<Rightarrow> open_lsp_location R loc m'
           | [] \<Rightarrow> Some (notify (ustr ''No definition found'') m')))"
| "on_session_event R lower i s (EvHover q hover) m =
     Some (case take_answer i SlotHover q s m of
        None \<Rightarrow> m
      | Some m' \<Rightarrow>
          (case hover of
             Some h \<Rightarrow> push_overlay (OvHover h) m'
           | None \<Rightarrow> notify (ustr ''No hover information'') m'))"
| "on_session_event R lower i s (EvCompletion q found) m =
     Some (case take_answer i SlotCompletion q s m of
        None \<Rightarrow> m
      | Some m' \<Rightarrow> if found = [] then notify (ustr ''No completions'') m'
                  else push_overlay (OvCompletion found 0) m')"
| "on_session_event R lower i s (EvReferences q locations) m =
     Some (case take_answer i SlotReferences q s m of
        None \<Rightarrow> m
      | Some m' \<Rightarrow> if locations = [] then notify (ustr ''No references found'') m'
                  else push_overlay (OvReferences locations 0) m')"
| "on_session_event R lower i s (EvDocumentSymbols q symbols) m = Some (on_document_symbols i q symbols s m)"
| "on_session_event R lower i s (EvWorkspaceSymbols q symbols) m =
     Some (case take_answer i SlotWorkspace q s m of
        None \<Rightarrow> m
      | Some m' \<Rightarrow> m'\<lparr>lm_overlays := add_workspace_symbols lower symbols (lm_overlays m')\<rparr>)"
| "on_session_event R lower i s (EvRename q ed) m =
     (case take_answer i SlotRename q s m of None \<Rightarrow> Some m | Some m' \<Rightarrow> apply_workspace_edit R ed m')"
| "on_session_event R lower i s (EvCodeActions q actions) m =
     Some (case take_answer i SlotActions q s m of
        None \<Rightarrow> m
      | Some m' \<Rightarrow> if actions = [] then notify (ustr ''No code actions available'') m'
                  else push_overlay (OvActions actions 0) m')"
| "on_session_event R lower i s (EvFormatting q edits) m =
     (case take_answer i SlotFormatting q s m of None \<Rightarrow> Some m | Some m' \<Rightarrow> apply_text_edits R edits m')"
| "on_session_event R lower i s (EvFailed q failure) m =
     (let (matched, s') = (case q of Some j \<Rightarrow> clear_request j s | None \<Rightarrow> (True, s)) in
      Some (if \<not> matched then set_session i s' m
            else notify (ss_language s @ ustr '': '' @ lf_message failure)
              (set_load i (if q = None then LoadUnavailable failure else LoadStale failure) s' m)))"
| "on_session_event R lower i s (EvUnavailable msg) m =
     Some (notify (ss_language s @ ustr '': '' @ msg)
       (set_load i (LoadUnavailable \<lparr>lf_kind = Transport, lf_message = msg\<rparr>) s m))"
| "on_session_event R lower i s (EvExited code) m =
     Some (set_load i (LoadStale \<lparr>lf_kind = Server, lf_message = exit_message code\<rparr>) s m)"

definition on_lsp_event ::
  "'r rope_api \<Rightarrow> (utext \<Rightarrow> utext) \<Rightarrow> nat \<Rightarrow> lsp_event \<Rightarrow> 'r lsp_model \<Rightarrow> 'r lsp_model option" where
  "on_lsp_event R lower i e m =
     (case session_of i m of None \<Rightarrow> Some m | Some s \<Rightarrow> on_session_event R lower i s e m)"

section \<open>Changed files\<close>

definition is_java_build_file :: "path \<Rightarrow> bool" where
  "is_java_build_file p \<longleftrightarrow>
     (case path_file_name p of
        None \<Rightarrow> False
      | Some n \<Rightarrow> n \<in> {ustr ''pom.xml'', ustr ''build.gradle'', ustr ''build.gradle.kts'',
                        ustr ''settings.gradle'', ustr ''settings.gradle.kts''})"

definition notify_lsp_watched_files :: "path list \<Rightarrow> 'r lsp_model \<Rightarrow> 'r lsp_model" where
  "notify_lsp_watched_files paths m =
     (case lm_root m of
        None \<Rightarrow> m
      | Some root \<Rightarrow>
          (let changed = filter (\<lambda>p. path_starts_with p root) paths;
               reload = filter is_java_build_file changed
           in if changed = [] then m
              else fold (\<lambda>(server, s) m'.
                send_to server (RqWatchedFilesChanged (map FileChanged changed)
                  # (if ss_language s = ustr ''java'' \<and> reload \<noteq> [] then [RqReloadProject reload] else [])) m')
                (ls_sessions (lm_lsp m)) m))"

end
