(* ===== verification/Lsp_Client.thy ===== *)
theory Lsp_Client
  imports Lsp_Mirrored Lsp_Requests
begin

text \<open>
  The application as the servers see it: whatever becomes of the buffers, the recipes and the
  requests, the messages queued for every server are ones the protocol allows, and after a pass each
  server's copies are the texts of its buffers.  The messages queued since the start stand for those
  taken by the main loop.  What the editor does to its buffers otherwise, by typing, reading files or
  applying a proposal, is any change of the buffers.
\<close>

section \<open>Restarting and closing\<close>

text \<open>A step whose messages the servers accept, and which leaves every session in step with its server.\<close>

definition moves :: "'r rope_api \<Rightarrow> (utext \<Rightarrow> nat \<Rightarrow> nat option) \<Rightarrow> 'r lsp_model \<Rightarrow> (nat \<Rightarrow> replica) \<Rightarrow>
    'r lsp_model \<Rightarrow> (nat \<Rightarrow> replica) \<Rightarrow> bool" where
  "moves R S m reps m' reps' \<longleftrightarrow> mirrors R m' reps'
     \<and> (\<exists>out. lm_outbox m' = lm_outbox m @ out \<and> deliver S out reps = Some reps')"

lemma moves_idle: "mirrors R m reps \<Longrightarrow> same_servers m m' \<Longrightarrow> lm_outbox m' = lm_outbox m \<Longrightarrow> moves R S m reps m' reps"
  using same_servers_eq(4) [of m m'] by (auto simp: moves_def intro!: exI [of _ "[]"])

lemma moves_trans: "moves R S m reps m1 reps1 \<Longrightarrow> moves R S m1 reps1 m2 reps2 \<Longrightarrow> moves R S m reps m2 reps2"
  unfolding moves_def by (elim conjE exE) (simp add: deliver_append)

lemma moves_one:
  assumes "mirrors R m' (reps(i := d))" "lm_outbox m' = lm_outbox m @ [(i, r)]" "server_hears S r (reps i) = Some d"
  shows "moves R S m reps m' (reps(i := d))"
  using assms by (simp add: moves_def)

text \<open>One session and its server change together.\<close>

lemma mirrors_set:
  assumes "mirrors R m reps" "session_of i m = Some s0" "in_step R s d"
    "ss_server s = ss_server s0" "ss_extensions s = ss_extensions s0" "same_servers (set_session i s m) m'"
  shows "mirrors R m' (reps(i := d))"
proof -
  have named: "sessions_named (lm_lsp m)" using assms(1) by (simp add: mirrors_def)
  have "mirrors R (set_session i s m) (reps(i := d))"
    using assms(1-3) server_for_set(2) [OF named assms(2,4,5)] by (auto simp: mirrors_def session_of_set)
  then show ?thesis using same_servers_eq(4) [OF assms(6)] by metis
qed

lemma restart_server_ok:
  assumes "mirrors R m reps"
  shows "\<exists>reps'. moves R S m reps (restart_server i m) reps'"
proof (cases "session_of i m")
  case None
  with moves_idle [OF assms, of m S] show ?thesis by (auto simp: restart_server_def same_servers_def)
next
  case (Some s)
  have "in_step R (reset_for_restart s) Map.empty" by (simp add: in_step_def reset_for_restart_def)
  from mirrors_set [OF assms Some this, of "restart_server i m"] Some
  have "mirrors R (restart_server i m) (reps(i := Map.empty))"
    by (simp add: restart_server_def same_servers_def reset_for_restart_def)
  from moves_one [OF this] Some show ?thesis by (auto simp: restart_server_def start_request_def)
qed

lemma restart_servers_ok:
  "mirrors R m reps \<Longrightarrow> \<exists>reps'. moves R S m reps (fold restart_server js m) reps'"
proof (induction js arbitrary: m reps)
  case Nil
  then show ?case using moves_idle [of R m reps m S] by (auto simp: same_servers_def)
next
  case (Cons i js)
  from restart_server_ok [OF Cons.prems, of S i] obtain reps1 where
    1: "moves R S m reps (restart_server i m) reps1" by blast
  then have "mirrors R (restart_server i m) reps1" by (simp add: moves_def)
  from Cons.IH [OF this] moves_trans [OF 1] show ?case by auto
qed

lemma restart_all_ok:
  assumes "mirrors R m reps"
  shows "\<exists>reps'. moves R S m reps (restart_language_servers m) reps'"
proof (cases "ls_sessions (lm_lsp m) = []")
  case True
  then have "same_servers m (restart_language_servers m)" "lm_outbox (restart_language_servers m) = lm_outbox m"
    by (simp_all add: restart_language_servers_def same_servers_def)
  from moves_idle [OF assms this] show ?thesis by blast
next
  case False
  let ?m = "fold restart_server (map fst (ls_sessions (lm_lsp m))) m"
  have same: "same_servers ?m (restart_language_servers m)" "lm_outbox (restart_language_servers m) = lm_outbox ?m"
    using False by (simp_all add: restart_language_servers_def same_servers_def Let_def)
  obtain reps1 where 1: "moves R S m reps ?m reps1" using restart_servers_ok [OF assms] by blast
  then have "mirrors R ?m reps1" by (simp add: moves_def)
  from moves_trans [OF 1 moves_idle [OF this same]] show ?thesis by blast
qed

lemma close_ok:
  assumes "mirrors R m reps"
  shows "\<exists>reps'. moves R S m reps (close_lsp_document p m) reps'"
proof (cases "\<exists>i s. server_for (lm_lsp m) p = Some i \<and> session_of i m = Some s \<and> ss_open_docs s p \<noteq> None")
  case False
  then have "same_servers m (close_lsp_document p m)" "lm_outbox (close_lsp_document p m) = lm_outbox m"
    by (auto simp: close_lsp_document_def same_servers_def Let_def split: option.split)
  from moves_idle [OF assms this] show ?thesis by blast
next
  case True
  then obtain i s v where i: "server_for (lm_lsp m) p = Some i" "session_of i m = Some s"
    "ss_open_docs s p = Some v" by auto
  let ?s = "s\<lparr>ss_open_docs := (ss_open_docs s)(p := None), ss_synced := (ss_synced s)(p := None)\<rparr>"
  have step: "in_step R s (reps i)" using assms i(2) by (simp add: mirrors_def)
  then have "in_step R ?s ((reps i)(p := None))" by (simp add: in_step_iff)
  moreover have "same_servers (set_session i ?s m) (close_lsp_document p m)"
    "lm_outbox (close_lsp_document p m) = lm_outbox m @ [(i, RqDidClose p)]"
    using i by (simp_all add: close_lsp_document_def same_servers_def Let_def)
  ultimately have m: "mirrors R (close_lsp_document p m) (reps(i := (reps i)(p := None)))"
    and out: "lm_outbox (close_lsp_document p m) = lm_outbox m @ [(i, RqDidClose p)]"
    using mirrors_set [OF assms i(2)] by simp_all
  obtain t where "reps i p = Some (v, rope_chars R t)" using in_step_open [OF step i(3)] .
  then have "server_hears S (RqDidClose p) (reps i) = Some ((reps i)(p := None))" by simp
  from moves_one [OF m out this] have "moves R S m reps (close_lsp_document p m) (reps(i := (reps i)(p := None)))" .
  then show ?thesis by blast
qed

section \<open>Asking and hearing\<close>

text \<open>A step that sends only what leaves the copies alone, and keeps what the sessions say of documents.\<close>

definition doc_state ::
  "'r lsp_session_state \<Rightarrow> nat \<times> utext list \<times> (path \<rightharpoonup> nat) \<times> nat \<times> (path \<rightharpoonup> 'r)" where
  "doc_state s = (ss_server s, ss_extensions s, ss_open_docs s, ss_next_version s, ss_synced s)"

definition quiet :: "'r lsp_model \<Rightarrow> 'r lsp_model \<Rightarrow> bool" where
  "quiet m m' \<longleftrightarrow> lm_next_server m' = lm_next_server m
     \<and> map (\<lambda>(i, s). (i, doc_state s)) (ls_sessions (lm_lsp m'))
         = map (\<lambda>(i, s). (i, doc_state s)) (ls_sessions (lm_lsp m))
     \<and> (\<exists>out. lm_outbox m' = lm_outbox m @ out \<and> (\<forall>(i, r)\<in>set out. \<forall>S d. server_hears S r d = Some d))"

lemma quiet_refl [simp]: "quiet m m"
  by (auto simp: quiet_def intro!: exI [of _ "[]"])

lemma quiet_trans: "quiet m m1 \<Longrightarrow> quiet m1 m2 \<Longrightarrow> quiet m m2"
  unfolding quiet_def by (elim conjE exE) (simp add: ball_Un)

lemma quiet_deliver:
  "\<forall>(i, r)\<in>set out. \<forall>S d. server_hears S r d = Some d \<Longrightarrow> deliver S out reps = Some reps"
proof (induction out)
  case (Cons e out)
  then show ?case by (cases e) (auto simp del: server_hears.simps)
qed simp

lemma map_of_doc_state:
  "map_of (map (\<lambda>(i, s). (i, doc_state s)) xs) i = map_option doc_state (map_of xs i)"
  by (induction xs) auto

lemma quiet_named:
  assumes "quiet m m'" "sessions_named (lm_lsp m)"
  shows "sessions_named (lm_lsp m')"
proof -
  have sessions: "map (\<lambda>(i, s). (i, doc_state s)) (ls_sessions (lm_lsp m'))
      = map (\<lambda>(i, s). (i, doc_state s)) (ls_sessions (lm_lsp m))"
    using assms(1) by (simp add: quiet_def)
  from arg_cong [OF sessions, of "map fst"]
  have "map fst (ls_sessions (lm_lsp m')) = map fst (ls_sessions (lm_lsp m))"
    by (simp add: comp_def case_prod_beta)
  moreover have "ss_server s = j" if "(j, s) \<in> set (ls_sessions (lm_lsp m'))" for j s
  proof -
    have "(j, doc_state s) \<in> set (map (\<lambda>(i, s). (i, doc_state s)) (ls_sessions (lm_lsp m)))"
      using that sessions by (metis (no_types, lifting) case_prod_conv image_eqI list.set_map)
    then show ?thesis using assms(2) by (auto simp: sessions_named_def doc_state_def)
  qed
  ultimately show ?thesis using assms(2) by (auto simp: sessions_named_def)
qed

lemma quiet_session:
  assumes "quiet m m'" "session_of j m' = Some s'"
  obtains s where "session_of j m = Some s" "doc_state s = doc_state s'"
proof -
  have "map (\<lambda>(i, s). (i, doc_state s)) (ls_sessions (lm_lsp m'))
      = map (\<lambda>(i, s). (i, doc_state s)) (ls_sessions (lm_lsp m))"
    using assms(1) by (simp add: quiet_def)
  from arg_cong [OF this, of "\<lambda>xs. map_of xs j"]
  have "map_option doc_state (session_of j m') = map_option doc_state (session_of j m)"
    by (simp add: map_of_doc_state session_of_def)
  with assms(2) that show thesis by (cases "session_of j m") auto
qed

lemma in_step_doc_state: "doc_state s = doc_state s' \<Longrightarrow> in_step R s d = in_step R s' d"
  by (simp add: in_step_iff doc_state_def)

lemma quiet_mirrors:
  assumes "quiet m m'" "mirrors R m reps"
  shows "mirrors R m' reps"
proof -
  have "j \<le> lm_next_server m' \<and> in_step R s' (reps j)" if s': "session_of j m' = Some s'" for j s'
  proof -
    obtain s where "session_of j m = Some s" "doc_state s = doc_state s'" using quiet_session [OF assms(1) s'] .
    then show ?thesis
      using assms in_step_doc_state [of s s' R "reps j"] by (simp add: mirrors_def quiet_def)
  qed
  with quiet_named [OF assms(1)] assms(2) show ?thesis by (simp add: mirrors_def)
qed

lemma quiet_moves: "quiet m m' \<Longrightarrow> mirrors R m reps \<Longrightarrow> moves R S m reps m' reps"
  using quiet_mirrors quiet_deliver unfolding moves_def quiet_def by blast

lemma quiet_set_session:
  assumes "session_of i m = Some s0" "sessions_named (lm_lsp m)" "doc_state s = doc_state s0"
  shows "quiet m (set_session i s m)"
proof -
  have "x = s0" if "(i, x) \<in> set (ls_sessions (lm_lsp m))" for x
    using that session_member [OF assms(2)] assms(1) by (simp add: session_of_def)
  then show ?thesis using assms(3) by (auto simp: quiet_def set_session_def intro!: exI [of _ "[]"])
qed

lemma quiet_send:
  "\<forall>r\<in>set rs. \<forall>S d. server_hears S r d = Some d \<Longrightarrow> quiet m (send_to i rs m)"
  by (auto simp: quiet_def)

text \<open>Everything but the sessions and the messages may change freely.\<close>

lemma quiet_same:
  assumes "ls_sessions (lm_lsp m') = ls_sessions (lm_lsp m)" "lm_outbox m' = lm_outbox m"
    "lm_next_server m' = lm_next_server m"
  shows "quiet m m'"
  using assms by (auto simp: quiet_def intro!: exI [of _ "[]"])

section \<open>What asking and hearing leave alone\<close>

definition keeps_documents :: "('r lsp_session_state \<Rightarrow> 'r lsp_session_state) \<Rightarrow> bool" where
  "keeps_documents f \<longleftrightarrow> (\<forall>s. doc_state (f s) = doc_state s)"

lemma quiet_ask:
  assumes "sessions_named (lm_lsp m)" "keeps_documents f" "\<And>i S d. server_hears S (request i) d = Some d"
  shows "quiet m (ask_server k f server request m)"
proof (cases "session_of server (snd (next_lsp_request m))")
  case None
  have "quiet m (snd (next_lsp_request m))" by (rule quiet_same) (simp_all add: next_lsp_request_def Let_def)
  with None show ?thesis by (simp add: ask_server_def case_prod_beta)
next
  case (Some s)
  let ?i = "fst (next_lsp_request m)" and ?m = "snd (next_lsp_request m)"
  let ?s = "f (s\<lparr>ss_active := (ss_active s)(k \<mapsto> ?i)\<rparr>)"
  have "doc_state ?s = doc_state s" using assms(2) by (simp add: keeps_documents_def doc_state_def)
  moreover have "quiet m ?m" by (rule quiet_same) (simp_all add: next_lsp_request_def Let_def)
  moreover have "sessions_named (lm_lsp ?m)" using assms(1) by (simp add: next_lsp_request_def Let_def)
  ultimately have "quiet m (set_session server ?s ?m)" using quiet_set_session [OF Some] quiet_trans by blast
  moreover have "quiet (set_session server ?s ?m)
      (send_to server ((case ss_active s k of Some previous \<Rightarrow> [RqCancel previous] | None \<Rightarrow> []) @ [request ?i])
        (set_session server ?s ?m))"
    by (rule quiet_send) (auto simp: assms(3) split: option.splits)
  ultimately show ?thesis using Some quiet_trans by (auto simp: ask_server_def case_prod_beta)
qed

lemma quiet_fold:
  assumes "\<And>x m. sessions_named (lm_lsp m) \<Longrightarrow> quiet m (f x m)" "sessions_named (lm_lsp m)"
  shows "quiet m (fold f xs m)"
  using assms(2)
proof (induction xs arbitrary: m)
  case (Cons x xs)
  have "quiet m (f x m)" using assms(1) [OF Cons.prems] .
  from quiet_trans [OF this Cons.IH [OF quiet_named [OF this Cons.prems]]] show ?case by simp
qed simp

lemma keeps_documents_simps [simp]:
  "keeps_documents (\<lambda>s. s)" "keeps_documents (\<lambda>s. s\<lparr>ss_symbol_path := p\<rparr>)"
  by (simp_all add: keeps_documents_def doc_state_def)

lemma quiet_cursor:
  assumes "ask_at_cursor R k request m = Some m'" "sessions_named (lm_lsp m)"
    "\<And>i p at S d. server_hears S (request i p at) d = Some d"
  shows "quiet m m'"
  using assms by (auto simp: ask_at_cursor_def intro!: quiet_ask split: option.splits)

text \<open>The questions the editor asks, by the kind of request they end up as.\<close>

datatype lsp_question =
    AskDefinition | AskHover | AskCompletion | AskReferences | AskRename utext | AskFormatting
  | AskDocumentSymbols | AskCodeActions | AskWorkspaceSymbols

fun ask :: "'r rope_api \<Rightarrow> lsp_question \<Rightarrow> 'r lsp_model \<Rightarrow> 'r lsp_model option" where
  "ask R AskDefinition m = request_lsp_definition R m"
| "ask R AskHover m = request_lsp_hover R m"
| "ask R AskCompletion m = request_lsp_completion R m"
| "ask R AskReferences m = request_lsp_references R m"
| "ask R (AskRename t) m = request_lsp_rename R t m"
| "ask R AskFormatting m = Some (format_document m)"
| "ask R AskDocumentSymbols m = Some (request_lsp_document_symbols m)"
| "ask R AskCodeActions m = request_lsp_code_actions R m"
| "ask R AskWorkspaceSymbols m = Some (request_lsp_workspace_symbols m)"

lemma quiet_question:
  assumes "sessions_named (lm_lsp m)" "ask R q m = Some m'"
  shows "quiet m m'"
proof (cases q)
  case AskWorkspaceSymbols
  let ?m = "m\<lparr>lm_overlays := lm_overlays m @ [OvSymbols (ustr ''Workspace Symbols'') [] 0]\<rparr>"
  have "quiet m ?m" by (rule quiet_same) simp_all
  moreover have "quiet ?m (fold (\<lambda>server. ask_server SlotWorkspace (\<lambda>s. s) server (\<lambda>i. RqWorkspaceSymbols i []))
      (map fst (ls_sessions (lm_lsp ?m))) ?m)"
    using assms(1) by (intro quiet_fold quiet_ask) simp_all
  ultimately show ?thesis
    using assms(2) AskWorkspaceSymbols quiet_trans by (auto simp: request_lsp_workspace_symbols_def Let_def)
qed (use assms in \<open>auto simp: request_lsp_definition_def request_lsp_hover_def request_lsp_completion_def
    request_lsp_references_def request_lsp_rename_def format_document_def request_lsp_document_symbols_def
    request_lsp_code_actions_def Let_def bind_eq_Some_iff elim!: quiet_cursor intro!: quiet_ask split: option.splits\<close>)

section \<open>Hearing\<close>

lemma quiet_then:
  "quiet m m1 \<Longrightarrow> ls_sessions (lm_lsp m2) = ls_sessions (lm_lsp m1) \<Longrightarrow> lm_outbox m2 = lm_outbox m1 \<Longrightarrow>
   lm_next_server m2 = lm_next_server m1 \<Longrightarrow> quiet m m2"
  using quiet_same quiet_trans by blast

lemma frame_simps [simp]:
  "lm_lsp (notify t m) = lm_lsp m" "lm_outbox (notify t m) = lm_outbox m"
  "lm_next_server (notify t m) = lm_next_server m"
  "lm_lsp (push_overlay ov m) = lm_lsp m" "lm_outbox (push_overlay ov m) = lm_outbox m"
  "lm_next_server (push_overlay ov m) = lm_next_server m"
  "lm_lsp (open_file p m) = lm_lsp m" "lm_outbox (open_file p m) = lm_outbox m"
  "lm_next_server (open_file p m) = lm_next_server m" "lm_next_request (notify t m) = lm_next_request m"
  "lm_next_request (push_overlay ov m) = lm_next_request m" "lm_next_request (open_file p m) = lm_next_request m"
  by (simp_all add: notify_def push_overlay_def open_file_def Let_def split: option.split)

lemma open_location_frame:
  assumes "open_lsp_location R loc m = Some m'"
  shows "lm_lsp m' = lm_lsp m \<and> lm_outbox m' = lm_outbox m \<and> lm_next_server m' = lm_next_server m
    \<and> lm_next_request m' = lm_next_request m"
  using assms
  by (auto simp: open_lsp_location_def open_file_at_def position_open_buffer_def bind_eq_Some_iff Let_def
      split: option.splits if_splits prod.splits)

lemma quiet_shown:
  "quiet m m1 \<Longrightarrow> quiet m (notify t m1)" "quiet m m1 \<Longrightarrow> quiet m (push_overlay ov m1)"
  "quiet m m1 \<Longrightarrow> quiet m (m1\<lparr>lm_overlays := ovs\<rparr>)" "quiet m m1 \<Longrightarrow> quiet m (m1\<lparr>lm_symbols := sy\<rparr>)"
  by (auto intro: quiet_then)

lemma quiet_take:
  assumes "take_answer i k q s m = Some m'" "session_of i m = Some s" "sessions_named (lm_lsp m)"
  shows "quiet m m'"
  using assms quiet_set_session [OF assms(2,3), of "s\<lparr>ss_active := (ss_active s)(k := None)\<rparr>"]
  by (auto simp: take_answer_def doc_state_def split: if_splits)

lemma quiet_load:
  assumes "session_of i m = Some s" "sessions_named (lm_lsp m)" "doc_state s' = doc_state s"
  shows "quiet m (set_load i l s' m)"
  using quiet_set_session [OF assms(1,2), of "s'\<lparr>ss_load := l\<rparr>"] assms(3)
  by (simp add: set_load_def doc_state_def)

text \<open>The answers that edit text, which are followed by a pass over the documents.\<close>

fun edits_text :: "lsp_event \<Rightarrow> bool" where
  "edits_text (EvRename _ _) = True"
| "edits_text (EvFormatting _ _) = True"
| "edits_text _ = False"

lemma clear_request_doc: "clear_request j s = (b, s') \<Longrightarrow> doc_state s' = doc_state s"
  by (auto simp: clear_request_def doc_state_def)

lemma quiet_symbols:
  assumes "session_of i m = Some s" "sessions_named (lm_lsp m)"
  shows "quiet m (on_document_symbols i q symbols s m)"
proof -
  have "quiet m (set_session i (s\<lparr>ss_active := (ss_active s)(SlotSymbols := None), ss_symbol_path := None\<rparr>) m)"
    by (rule quiet_set_session [OF assms]) (simp add: doc_state_def)
  then show ?thesis
    by (auto simp: on_document_symbols_def Let_def intro: quiet_shown split: option.split)
qed

lemma quiet_hear:
  assumes "sessions_named (lm_lsp m)" "on_lsp_event R lower i e m = Some m'" "\<not> edits_text e"
  shows "quiet m m'"
proof (cases "session_of i m")
  case None
  with assms(2) show ?thesis by (simp add: on_lsp_event_def)
next
  case (Some s)
  note take = quiet_take [OF _ Some assms(1)] and load = quiet_load [OF Some assms(1)]
  have e: "on_session_event R lower i s e m = Some m'" using assms(2) Some by (simp add: on_lsp_event_def)
  show ?thesis
  proof (cases e)
    case (EvDiagnostics p v ds)
    with e show ?thesis
      by (auto simp: sync_lsp_diagnostics_def bind_eq_Some_iff Let_def intro!: quiet_same split: if_splits option.splits)
  next
    case (EvDefinition q ls)
    show ?thesis
    proof (cases "take_answer i SlotDefinition q s m")
      case t: (Some m1)
      have "lm_lsp m' = lm_lsp m1 \<and> lm_outbox m' = lm_outbox m1 \<and> lm_next_server m' = lm_next_server m1"
        using e EvDefinition t by (auto dest: open_location_frame split: list.splits)
      then show ?thesis using quiet_then [OF take [OF t], of m'] by simp
    qed (use e EvDefinition in simp)
  next
    case (EvDocumentSymbols q symbols)
    with e quiet_symbols [OF Some assms(1)] show ?thesis by auto
  next
    case (EvFailed q f)
    obtain b s' where c: "(case q of Some j \<Rightarrow> clear_request j s | None \<Rightarrow> (True, s)) = (b, s')"
      by fastforce
    then have doc: "doc_state s' = doc_state s" by (auto dest: clear_request_doc split: option.splits)
    from e EvFailed c have "m' = (if \<not> b then set_session i s' m
        else notify (ss_language s @ ustr '': '' @ lf_message f)
          (set_load i (if q = None then LoadUnavailable f else LoadStale f) s' m))" by simp
    then show ?thesis
      using load [OF doc] quiet_set_session [OF Some assms(1) doc] by (auto intro: quiet_shown)
  next
    case (EvHover q h)
    with e take show ?thesis by (auto intro: quiet_shown split: option.splits)
  next
    case (EvCompletion q h)
    with e take show ?thesis by (auto intro: quiet_shown split: option.splits if_splits)
  next
    case (EvReferences q h)
    with e take show ?thesis by (auto intro: quiet_shown split: option.splits if_splits)
  next
    case (EvWorkspaceSymbols q h)
    with e take show ?thesis by (auto intro: quiet_shown split: option.splits)
  next
    case (EvCodeActions q h)
    with e take show ?thesis by (auto intro: quiet_shown split: option.splits if_splits)
  qed (use e assms(3) load in \<open>auto intro: quiet_shown\<close>)
qed

section \<open>Hearing answers that edit\<close>

text \<open>
  A rename or a formatting edits the buffers and ends in a pass over them.  The model that pass runs on,
  if the answer comes to one:
\<close>

definition finish_before_pass :: "'r rope_api \<Rightarrow> 'r lsp_model \<Rightarrow> 'r lsp_model option" where
  "finish_before_pass R m =
     (case lm_pending_edit m of
        None \<Rightarrow> None
      | Some pending \<Rightarrow>
          if pw_waiting pending \<noteq> [] then None
          else
            (let m1 = m\<lparr>lm_pending_edit := None\<rparr> in
             case prepare_edits R m1 (group_edits (we_edits (pw_edit pending)) []) of
               Some (Inr ps) \<Rightarrow>
                 (case apply_prepared R ps m1 of
                    Some (Inr _, m2) \<Rightarrow> Some (restore_active_buffer (pw_previous pending) m2)
                  | _ \<Rightarrow> None)
             | _ \<Rightarrow> None))"

definition workspace_begun :: "workspace_edit \<Rightarrow> 'r lsp_model \<Rightarrow> 'r lsp_model option" where
  "workspace_begun ed m =
     (if lm_pending_edit m \<noteq> None \<or> we_edits ed = [] then None
      else case lm_root m of
        None \<Rightarrow> None
      | Some root \<Rightarrow>
          (let paths = remdups (sort (map te_path (we_edits ed))) in
           if find (\<lambda>p. \<not> path_starts_with p root) paths \<noteq> None
             \<or> find (\<lambda>(p, v). open_version p m \<noteq> Some v) (we_versions ed) \<noteq> None then None
           else (let (m1, waiting) = open_targets paths m [] in
             Some (m1\<lparr>lm_pending_edit := Some \<lparr>pw_edit = ed, pw_waiting = waiting,
                        pw_previous = map_option b_id (active_buffer m)\<rparr>\<rparr>))))"

definition formatting_before_pass :: "'r rope_api \<Rightarrow> lsp_text_edit list \<Rightarrow> 'r lsp_model \<Rightarrow> 'r lsp_model option" where
  "formatting_before_pass R edits m =
     (case edits of
        [] \<Rightarrow> None
      | first # _ \<Rightarrow>
          if list_ex (\<lambda>e. te_path e \<noteq> te_path first) edits then None
          else
            (case buffer_index (te_path first) m of
               None \<Rightarrow> None
             | Some k \<Rightarrow>
                 (case build_lsp_changes R (b_text (lm_buffers m ! k)) edits of
                    Some (Inr cs) \<Rightarrow>
                      (case apply_lsp_changes R k cs m of Some (Inr _, m') \<Rightarrow> Some m' | _ \<Rightarrow> None)
                  | _ \<Rightarrow> None)))"

definition answer_before_pass :: "'r rope_api \<Rightarrow> nat \<Rightarrow> lsp_event \<Rightarrow> 'r lsp_model \<Rightarrow> 'r lsp_model option" where
  "answer_before_pass R i e m =
     (case session_of i m of
        None \<Rightarrow> None
      | Some s \<Rightarrow>
          (case e of
             EvRename q ed \<Rightarrow>
               Option.bind (take_answer i SlotRename q s m)
                 (\<lambda>m1. Option.bind (workspace_begun ed m1) (finish_before_pass R))
           | EvFormatting q edits \<Rightarrow>
               Option.bind (take_answer i SlotFormatting q s m) (formatting_before_pass R edits)
           | _ \<Rightarrow> None))"

text \<open>What the edits themselves leave alone.\<close>

definition undisturbed :: "'r lsp_model \<Rightarrow> 'r lsp_model \<Rightarrow> bool" where
  "undisturbed m m' \<longleftrightarrow> lm_lsp m' = lm_lsp m \<and> lm_outbox m' = lm_outbox m
     \<and> lm_next_server m' = lm_next_server m \<and> lm_next_request m' = lm_next_request m"

lemma undisturbed_refl [simp]:
  "undisturbed m m" "undisturbed m (notify t m)" "undisturbed m (m\<lparr>lm_pending_edit := pe\<rparr>)"
  "undisturbed m (restore_active_buffer i m)"
  by (simp_all add: undisturbed_def notify_def restore_active_buffer_def split: option.split)

lemma undisturbed_trans: "undisturbed m m1 \<Longrightarrow> undisturbed m1 m2 \<Longrightarrow> undisturbed m m2"
  by (simp add: undisturbed_def)

lemma undisturbed_quiet: "undisturbed m m' \<Longrightarrow> quiet m m'"
  by (auto simp: undisturbed_def intro: quiet_same)

lemma lsp_changes_undisturbed: "apply_lsp_changes R k cs m = Some (r, m') \<Longrightarrow> undisturbed m m'"
  by (auto simp: apply_lsp_changes_def undisturbed_def bind_eq_Some_iff split: prod.splits)

lemma prepared_undisturbed: "apply_prepared R ps m = Some (r, m') \<Longrightarrow> undisturbed m m'"
proof (induction ps arbitrary: m)
  case (Cons x ps)
  obtain k cs where x: "x = (k, cs)" by (cases x)
  then obtain r1 m1 where one: "apply_lsp_changes R k cs m = Some (r1, m1)"
    "(case r1 of Inl e \<Rightarrow> Some (Inl e, m1) | Inr _ \<Rightarrow> apply_prepared R ps m1) = Some (r, m')"
    using Cons.prems by (auto simp: bind_eq_Some_iff)
  from lsp_changes_undisturbed [OF one(1)] one(2) Cons.IH [of m1] show ?case
    by (cases r1) (auto intro: undisturbed_trans)
qed simp

lemma targets_undisturbed: "open_targets ps m w = (m', w') \<Longrightarrow> undisturbed m m'"
proof (induction ps arbitrary: m w)
  case (Cons p ps)
  have "undisturbed m (m\<lparr>lm_next_buffer := b, lm_opening := op, lm_fs_outbox := out\<rparr>)" for b op out
    by (simp add: undisturbed_def)
  then have "undisturbed m m'"
    if "open_targets ps (m\<lparr>lm_next_buffer := b, lm_opening := op, lm_fs_outbox := out\<rparr>) v = (m', w')" for b op out v
    using undisturbed_trans Cons.IH [OF that] by blast
  with Cons show ?case by (auto simp: Let_def split: if_splits option.splits)
qed simp

text \<open>A step that edits and perhaps passes: what it leaves alone, and its pass.\<close>

definition edits_and_passes :: "'r rope_api \<Rightarrow> 'r lsp_model option \<Rightarrow> 'r lsp_model \<Rightarrow> 'r lsp_model \<Rightarrow> bool" where
  "edits_and_passes R pass m m' \<longleftrightarrow>
     (case pass of
        None \<Rightarrow> undisturbed m m'
      | Some m2 \<Rightarrow> undisturbed m m2 \<and> (\<exists>m3. sync_lsp_documents R m2 = Some m3 \<and> undisturbed m3 m'))"

lemma finish_passes:
  assumes "finish_pending_workspace_edit R m = Some m'"
  shows "edits_and_passes R (finish_before_pass R m) m m'"
proof (cases "lm_pending_edit m")
  case None
  with assms show ?thesis by (simp add: edits_and_passes_def finish_before_pass_def finish_pending_workspace_edit_def)
next
  case (Some pending)
  let ?m1 = "m\<lparr>lm_pending_edit := None\<rparr>" and ?gs = "group_edits (we_edits (pw_edit pending)) []"
  have note_ok: "undisturbed a b \<Longrightarrow> undisturbed a (notify t b)" "undisturbed a b \<Longrightarrow> undisturbed a (restore_active_buffer i b)"
    for a b :: "'a lsp_model" and t i
    using undisturbed_trans undisturbed_refl by blast+
  show ?thesis
  proof (cases "pw_waiting pending = []")
    case False
    with Some assms show ?thesis
      by (simp add: edits_and_passes_def finish_before_pass_def finish_pending_workspace_edit_def)
  next
    case True
    then obtain prepared where prep: "prepare_edits R ?m1 ?gs = Some prepared"
      using assms Some by (auto simp: finish_pending_workspace_edit_def Let_def bind_eq_Some_iff)
    show ?thesis
    proof (cases prepared)
      case (Inl msg)
      then have "m' = notify msg (restore_active_buffer (pw_previous pending) ?m1)"
        "finish_before_pass R m = None"
        using assms Some True prep
        by (simp_all add: finish_pending_workspace_edit_def finish_before_pass_def Let_def)
      then show ?thesis by (simp add: edits_and_passes_def note_ok)
    next
      case (Inr ps)
      then obtain r m2 where app: "apply_prepared R ps ?m1 = Some (r, m2)"
        using assms Some True prep by (auto simp: finish_pending_workspace_edit_def Let_def bind_eq_Some_iff)
      have m2: "undisturbed m m2"
        using prepared_undisturbed [OF app] undisturbed_refl(3) undisturbed_trans by blast
      show ?thesis
        using assms Some True prep Inr app m2
        by (cases r) (auto simp: finish_pending_workspace_edit_def finish_before_pass_def edits_and_passes_def
            Let_def bind_eq_Some_iff note_ok)
    qed
  qed
qed

lemma workspace_passes:
  assumes "apply_workspace_edit R ed m = Some m'"
  shows "edits_and_passes R (Option.bind (workspace_begun ed m) (finish_before_pass R)) m m'"
proof (cases "workspace_begun ed m")
  case None
  with assms have "undisturbed m m'"
    by (auto simp: apply_workspace_edit_def workspace_begun_def Let_def split: if_splits option.splits prod.splits)
  with None show ?thesis by (simp add: edits_and_passes_def)
next
  case (Some m1)
  have "finish_pending_workspace_edit R m1 = Some m'"
    using assms Some
    by (auto simp: apply_workspace_edit_def workspace_begun_def Let_def split: if_splits option.splits prod.splits)
  from finish_passes [OF this] have "edits_and_passes R (finish_before_pass R m1) m1 m'" .
  moreover obtain ps m0 w pe where "open_targets ps m [] = (m0, w)" "m1 = m0\<lparr>lm_pending_edit := pe\<rparr>"
    using Some by (auto simp: workspace_begun_def Let_def split: if_splits option.splits prod.splits)
  then have "undisturbed m m1" using targets_undisturbed undisturbed_trans undisturbed_refl(3) by blast
  ultimately show ?thesis
    using Some by (auto simp: edits_and_passes_def split: option.splits intro: undisturbed_trans)
qed

lemma formatting_passes:
  assumes "apply_text_edits R edits m = Some m'"
  shows "edits_and_passes R (formatting_before_pass R edits m) m m'"
proof (cases edits)
  case Nil
  with assms show ?thesis by (simp add: apply_text_edits_def formatting_before_pass_def edits_and_passes_def)
next
  case (Cons first rest)
  show ?thesis
  proof (cases "list_ex (\<lambda>e. te_path e \<noteq> te_path first) edits \<or> buffer_index (te_path first) m = None")
    case True
    with assms Cons show ?thesis
      by (auto simp: apply_text_edits_def formatting_before_pass_def edits_and_passes_def)
  next
    case False
    then obtain k where k: "buffer_index (te_path first) m = Some k" by auto
    then obtain built where built: "build_lsp_changes R (b_text (lm_buffers m ! k)) edits = Some built"
      using assms Cons False by (auto simp: apply_text_edits_def bind_eq_Some_iff)
    have before: "formatting_before_pass R edits m = (case built of
        Inr cs \<Rightarrow> (case apply_lsp_changes R k cs m of Some (Inr _, m') \<Rightarrow> Some m' | _ \<Rightarrow> None)
      | Inl _ \<Rightarrow> None)"
      using Cons False k built by (simp add: formatting_before_pass_def split: sum.split)
    have after: "(case built of Inl msg \<Rightarrow> Some (notify msg m)
      | Inr cs \<Rightarrow> do { (r, m') \<leftarrow> apply_lsp_changes R k cs m;
          case r of Inl e \<Rightarrow> Some (notify (edit_error_fmt e) m') | Inr _ \<Rightarrow> sync_lsp_documents R m' }) = Some m'"
      using assms Cons False k built by (simp add: apply_text_edits_def)
    show ?thesis
    proof (cases built)
      case (Inl msg)
      with before after show ?thesis by (auto simp: edits_and_passes_def)
    next
      case (Inr cs)
      then obtain r m2 where app: "apply_lsp_changes R k cs m = Some (r, m2)"
        using after by (auto simp: bind_eq_Some_iff)
      from lsp_changes_undisturbed [OF this] have "undisturbed m m2" .
      with before after Inr app show ?thesis
        by (cases r) (auto simp: edits_and_passes_def intro: undisturbed_trans)
    qed
  qed
qed

text \<open>An answer that edits takes its request off the table, then edits and perhaps passes.\<close>

lemma hear_edit:
  assumes "on_lsp_event R lower i e m = Some m'" "edits_text e" "m' \<noteq> m"
  obtains s k q m1 where "session_of i m = Some s" "take_answer i k q s m = Some m1"
    "edits_and_passes R (answer_before_pass R i e m) m1 m'"
proof (cases "session_of i m")
  case None
  with assms(1,3) show thesis by (simp add: on_lsp_event_def)
next
  case (Some s)
  then have ev: "on_session_event R lower i s e m = Some m'" using assms(1) by (simp add: on_lsp_event_def)
  show thesis
  proof (cases e)
    case (EvRename q ed)
    then obtain m1 where m1: "take_answer i SlotRename q s m = Some m1" "apply_workspace_edit R ed m1 = Some m'"
      using ev assms(3) by (auto split: option.splits)
    have "edits_and_passes R (answer_before_pass R i e m) m1 m'"
      using workspace_passes [OF m1(2)] m1(1) Some EvRename by (simp add: answer_before_pass_def)
    with that Some m1(1) show thesis by blast
  next
    case (EvFormatting q edits)
    then obtain m1 where m1: "take_answer i SlotFormatting q s m = Some m1" "apply_text_edits R edits m1 = Some m'"
      using ev assms(3) by (auto split: option.splits)
    have "edits_and_passes R (answer_before_pass R i e m) m1 m'"
      using formatting_passes [OF m1(2)] m1(1) Some EvFormatting by (simp add: answer_before_pass_def)
    with that Some m1(1) show thesis by blast
  qed (use assms(2) in simp_all)
qed

section \<open>Runs\<close>

datatype 'r client_op =
    EditBuffers "'r buffer list"
  | ConfigureServers "configured_recipe list"
  | SyncDocuments
  | RestartServers
  | CloseDocument path
  | SaveDocument nat nat
  | Ask lsp_question
  | Hear nat lsp_event

fun client_step ::
  "'r rope_api \<Rightarrow> (utext \<Rightarrow> utext) \<Rightarrow> 'r client_op \<Rightarrow> 'r lsp_model \<Rightarrow> 'r lsp_model option" where
  "client_step R lower (EditBuffers bs) m = Some (m\<lparr>lm_buffers := bs\<rparr>)"
| "client_step R lower (ConfigureServers rs) m = Some (m\<lparr>lm_lsp := (lm_lsp m)\<lparr>ls_configured := rs\<rparr>\<rparr>)"
| "client_step R lower SyncDocuments m = sync_lsp_documents R m"
| "client_step R lower RestartServers m = Some (restart_language_servers m)"
| "client_step R lower (CloseDocument p) m = Some (close_lsp_document p m)"
| "client_step R lower (SaveDocument i v) m = Some (on_file_saved i v m)"
| "client_step R lower (Ask q) m = ask R q m"
| "client_step R lower (Hear i e) m = on_lsp_event R lower i e m"

text \<open>
  Before a pass no two buffers have the same path, the pending changes are well formed, no document
  grows to \<open>2 ^ 31\<close> chars on the way, and what the server has and what is inserted holds none of the
  line breaks that only ropes know.  The same goes for the pass at the end of an answer that edits.
\<close>

definition can_sync :: "'r rope_api \<Rightarrow> 'r lsp_model \<Rightarrow> bool" where
  "can_sync R m \<longleftrightarrow> list_all (buffer_fits R m) (lm_buffers m)
     \<and> distinct (List.map_filter b_path (lm_buffers m))"

definition client_allowed :: "'r rope_api \<Rightarrow> 'r client_op \<Rightarrow> 'r lsp_model \<Rightarrow> bool" where
  "client_allowed R op m \<longleftrightarrow>
     (case op of
        SyncDocuments \<Rightarrow> can_sync R m
      | Hear i e \<Rightarrow> (case answer_before_pass R i e m of Some m2 \<Rightarrow> can_sync R m2 | None \<Rightarrow> True)
      | _ \<Rightarrow> True)"

fun client_run ::
  "'r rope_api \<Rightarrow> (utext \<Rightarrow> utext) \<Rightarrow> 'r client_op list \<Rightarrow> 'r lsp_model \<Rightarrow> 'r lsp_model option" where
  "client_run R lower [] m = Some m"
| "client_run R lower (op # ops) m =
     (if client_allowed R op m
      then do { m' \<leftarrow> client_step R lower op m; client_run R lower ops m' } else None)"

lemma sync_ok:
  assumes "rope_utf16 R" "same_lines R S" "mirrors R m reps" "can_sync R m"
  obtains m' reps' where "sync_lsp_documents R m = Some m'" "moves R S m reps m' reps'"
    "\<And>b. b \<in> set (lm_buffers m') \<Longrightarrow> settled R m' reps' b"
    "map b_text (lm_buffers m') = map b_text (lm_buffers m)"
    "map b_path (lm_buffers m') = map b_path (lm_buffers m)"
proof -
  let ?ks = "[0 ..< length (lm_buffers m)]"
  have fits: "\<forall>k\<in>set ?ks. k < length (lm_buffers m) \<and> buffer_fits R m (lm_buffers m ! k)"
    using assms(4) by (simp add: can_sync_def list_all_length)
  have "List.map_filter (\<lambda>k. b_path (lm_buffers m ! k)) ?ks = List.map_filter b_path (map ((!) (lm_buffers m)) ?ks)"
    by (simp add: map_filter_def comp_def filter_map)
  then have paths: "distinct (List.map_filter (\<lambda>k. b_path (lm_buffers m ! k)) ?ks)"
    using assms(4) by (simp add: can_sync_def map_nth)
  from sync_from_ok [OF assms(1-3) distinct_upt fits paths] obtain m' out reps' where
    run: "sync_from R ?ks m = Some m'" "lm_outbox m' = lm_outbox m @ out" "deliver S out reps = Some reps'"
      "mirrors R m' reps'" "length (lm_buffers m') = length (lm_buffers m)"
      "\<forall>k. lm_buffers m' ! k = (if k \<in> set ?ks then snd (drain_buffer (lm_buffers m ! k)) else lm_buffers m ! k)"
      "\<forall>k\<in>set ?ks. settled R m' reps' (lm_buffers m ! k)" by blast
  have at: "lm_buffers m' ! k = snd (drain_buffer (lm_buffers m ! k))" if "k < length (lm_buffers m)" for k
    using run(6) that by simp
  show thesis
  proof (rule that)
    show "sync_lsp_documents R m = Some m'" using run(1) by (simp add: sync_lsp_documents_def)
    show "moves R S m reps m' reps'" using run(2-4) by (simp add: moves_def)
    show "settled R m' reps' b" if b: "b \<in> set (lm_buffers m')" for b
    proof -
      obtain k where k: "k < length (lm_buffers m)" "b = lm_buffers m' ! k"
        using b run(5) by (metis in_set_conv_nth)
      then show ?thesis using run(7) at [OF k(1)] settled_cong [of b "lm_buffers m ! k"] by simp
    qed
    show "map b_text (lm_buffers m') = map b_text (lm_buffers m)"
      "map b_path (lm_buffers m') = map b_path (lm_buffers m)"
      using run(5) at by (auto simp: list_eq_iff_nth_eq)
  qed
qed

lemma client_step_ok:
  assumes "rope_utf16 R" "same_lines R S" "mirrors R m reps" "client_allowed R op m"
    "client_step R lower op m = Some m'"
  shows "\<exists>reps'. moves R S m reps m' reps'"
proof (cases op)
  case (EditBuffers bs)
  with assms(5) moves_idle [OF assms(3), of m' S] show ?thesis by (auto simp: same_servers_def)
next
  case (ConfigureServers rs)
  with assms(5) have "quiet m m'" by (auto intro: quiet_same)
  from quiet_moves [OF this assms(3)] show ?thesis by blast
next
  case SyncDocuments
  with assms(4) have "can_sync R m" by (simp add: client_allowed_def)
  from sync_ok [OF assms(1-3) this] assms(5) SyncDocuments show ?thesis by (metis client_step.simps(3) option.inject)
next
  case RestartServers
  with assms(5) restart_all_ok [OF assms(3)] show ?thesis by auto
next
  case (CloseDocument p)
  with assms(5) close_ok [OF assms(3)] show ?thesis by auto
next
  case (SaveDocument i v)
  with assms(5) have "quiet m m'"
    by (auto simp: on_file_saved_def Let_def intro: quiet_same split: option.splits) (simp add: quiet_def)
  from quiet_moves [OF this assms(3)] show ?thesis by blast
next
  case (Ask q)
  then have "quiet m m'" using assms(3,5) quiet_question by (auto simp: mirrors_def)
  from quiet_moves [OF this assms(3)] show ?thesis by blast
next
  case (Hear i e)
  then have ev: "on_lsp_event R lower i e m = Some m'" using assms(5) by simp
  show ?thesis
  proof (cases "edits_text e \<and> m' \<noteq> m")
    case False
    then have "quiet m m'" using ev assms(3) quiet_hear by (cases "m' = m") (auto simp: mirrors_def)
    from quiet_moves [OF this assms(3)] show ?thesis by blast
  next
    case True
    then obtain s k q m1 where one: "session_of i m = Some s" "take_answer i k q s m = Some m1"
      "edits_and_passes R (answer_before_pass R i e m) m1 m'" using hear_edit [OF ev] by blast
    have "quiet m m1" using quiet_take [OF one(2,1)] assms(3) by (simp add: mirrors_def)
    then have m1: "moves R S m reps m1 reps" by (rule quiet_moves [OF _ assms(3)])
    show ?thesis
    proof (cases "answer_before_pass R i e m")
      case None
      then have "quiet m1 m'" using one(3) undisturbed_quiet by (simp add: edits_and_passes_def)
      with m1 quiet_moves [of m1 m' R reps S] show ?thesis using moves_trans by (blast intro: moves_trans dest: moves_def [THEN iffD1])
    next
      case (Some m2)
      then obtain m3 where m3: "undisturbed m1 m2" "sync_lsp_documents R m2 = Some m3" "undisturbed m3 m'"
        using one(3) by (auto simp: edits_and_passes_def)
      have "mirrors R m1 reps" using m1 by (simp add: moves_def)
      then have m2: "moves R S m1 reps m2 reps" using quiet_moves [OF undisturbed_quiet [OF m3(1)]] by blast
      then have "mirrors R m2 reps" by (simp add: moves_def)
      moreover have "can_sync R m2" using assms(4) Hear Some by (simp add: client_allowed_def)
      ultimately obtain reps' where r: "moves R S m2 reps m3 reps'"
        using sync_ok [OF assms(1,2)] m3(2) by (metis option.inject)
      then have "mirrors R m3 reps'" by (simp add: moves_def)
      then have "moves R S m3 reps' m' reps'" using quiet_moves [OF undisturbed_quiet [OF m3(3)]] by blast
      with m1 m2 r show ?thesis by (blast intro: moves_trans)
    qed
  qed
qed

lemma client_run_ok:
  assumes "rope_utf16 R" "same_lines R S" "mirrors R m reps" "client_run R lower ops m = Some m'"
  shows "\<exists>reps'. moves R S m reps m' reps'"
  using assms(3,4)
proof (induction ops arbitrary: m reps)
  case Nil
  then show ?case using moves_idle [of R m reps m S] by (auto simp: same_servers_def)
next
  case (Cons op ops)
  obtain m1 where 1: "client_allowed R op m" "client_step R lower op m = Some m1" "client_run R lower ops m1 = Some m'"
    using Cons.prems(2) by (auto simp: bind_eq_Some_iff split: if_splits)
  obtain reps1 where r: "moves R S m reps m1 reps1"
    using client_step_ok [OF assms(1,2) Cons.prems(1) 1(1,2)] by blast
  then have "mirrors R m1 reps1" by (simp add: moves_def)
  from Cons.IH [OF this 1(3)] moves_trans [OF r] show ?case by blast
qed

end
