(* ===== verification/Lsp_Samples.thy ===== *)
theory Lsp_Samples
  imports App_Files
begin

text \<open>
  Small states of the application for the witnesses: a recipe for \<open>rs\<close> files, a file it claims and
  a model with nothing open.
\<close>

definition rust_recipe :: configured_recipe where
  "rust_recipe = recipe_new (ustr ''rust'') [ustr ''rs'']
     \<lparr>ln_root = [RootDir], ln_command = [ustr ''ra''], ln_options = None\<rparr>"

definition rust_file :: path where "rust_file = [RootDir, Normal (ustr ''a.rs'')]"

definition bare_model :: "utext lsp_model" where
  "bare_model = \<lparr>lm_buffers = [], lm_active = None,
     lm_lsp = \<lparr>ls_configured = [rust_recipe], ls_sessions = [], ls_diagnostics = Map.empty\<rparr>,
     lm_outbox = [], lm_next_server = 0, lm_next_request = 0, lm_symbols = Map.empty,
     lm_root = Some [RootDir], lm_overlays = [], lm_opening = [], lm_next_buffer = 0,
     lm_fs_outbox = [], lm_pending_edit = None, lm_open_at = None, lm_editor_height = 0,
     lm_notification = None\<rparr>"

definition rust_buffer :: "utext \<Rightarrow> utext buffer" where
  "rust_buffer t = buffer_from_text list_rope 1 (Some rust_file) t"

lemma rust_extension: "path_extension rust_file = Some (ustr ''rs'')"
  by (simp add: path_extension_def rust_file_def path_file_name_def ustr_def)

lemma rust_buffer_simps [simp]:
  "b_id (rust_buffer t) = 1" "b_path (rust_buffer t) = Some rust_file" "b_text (rust_buffer t) = crlf_to_lf t"
  "b_pending (rust_buffer t) = []"
  by (simp_all add: rust_buffer_def buffer_from_text_def)

lemma buffer_ok_rust: "buffer_ok list_rope (rust_buffer t)"
  by (simp add: rust_buffer_def list_rope.buffer_ok_from_text)

end
