(* ===== verification/Lsp_Client_Claims.thy ===== *)
theory Lsp_Client_Claims
  imports Lsp_Client Lsp_Samples
begin






section \<open>Requests\<close>

text \<open>Between two states an active request either was active before or is newer than the counter was.\<close>

definition asks_forward :: "'r lsp_model \<Rightarrow> 'r lsp_model \<Rightarrow> bool" where
  "asks_forward m m' \<longleftrightarrow> lm_next_request m \<le> lm_next_request m'
     \<and> (\<forall>i s' k q. session_of i m' = Some s' \<longrightarrow> ss_active s' k = Some q \<longrightarrow>
          (\<exists>s. session_of i m = Some s \<and> ss_active s k = Some q) \<or> lm_next_request m < q)"

lemma forward_refl [simp]: "asks_forward m m"
  by (simp add: asks_forward_def)

lemma forward_trans: "asks_forward m m1 \<Longrightarrow> asks_forward m1 m2 \<Longrightarrow> asks_forward m m2"
  unfolding asks_forward_def by (meson le_trans order_le_less_trans)

lemma forward_same:
  "ls_sessions (lm_lsp m') = ls_sessions (lm_lsp m) \<Longrightarrow> lm_next_request m' = lm_next_request m \<Longrightarrow> asks_forward m m'"
  by (simp add: asks_forward_def session_of_def)

lemma forward_set:
  assumes "session_of i m = Some s" "\<And>k q. ss_active s' k = Some q \<Longrightarrow> ss_active s k = Some q \<or> lm_next_request m < q"
  shows "asks_forward m (set_session i s' m)"
  using assms by (auto simp: asks_forward_def session_of_set split: if_splits)

lemma forward_then:
  "asks_forward m m1 \<Longrightarrow> ls_sessions (lm_lsp m2) = ls_sessions (lm_lsp m1) \<Longrightarrow>
   lm_next_request m2 = lm_next_request m1 \<Longrightarrow> asks_forward m m2"
  using forward_same forward_trans by blast

lemma forward_fold: "(\<And>x m. asks_forward m (f x m)) \<Longrightarrow> asks_forward m (fold f xs m)"
  by (induction xs arbitrary: m) (auto intro: forward_trans)

lemma send_changes_active:
  "send_changes R p cs t s = Some (rs, s', t', lost) \<Longrightarrow> ss_active s' = ss_active s"
  by (induction cs arbitrary: t s rs s' t' lost)
    (auto simp: bump_document_def next_document_version_def Let_def bind_eq_Some_iff
      split: if_splits option.splits prod.splits)

lemma sync_document_active: "sync_document R p doc cs s = Some (rs, s') \<Longrightarrow> ss_active s' = ss_active s"
  by (auto simp: sync_document_def did_open_def bump_document_def next_document_version_def Let_def
      bind_eq_Some_iff dest!: send_changes_active split: if_splits option.splits prod.splits)

lemma map_of_bt_other: "map_of (bt_insert k v xs) j = (if j = k then Some v else map_of xs j)"
  by (induction xs) auto

lemma claim_forward:
  assumes "claim_server p m = Some (i, m')"
  shows "asks_forward m m'"
  using assms
  by (auto simp: claim_server_def Let_def asks_forward_def session_of_def send_to_def session_new_def
      map_of_bt_other split: option.splits if_splits)

lemma sync_index_forward:
  assumes "sync_index R k m = Some m'"
  shows "asks_forward m m'"
proof -
  let ?b = "lm_buffers m ! k"
  let ?m1 = "m\<lparr>lm_buffers := (lm_buffers m)[k := snd (drain_buffer ?b)]\<rparr>"
  show ?thesis
  proof (cases "b_path ?b")
    case None
    with assms show ?thesis by (auto simp: sync_index_def Let_def case_prod_beta intro: forward_same)
  next
    case (Some p)
    let ?m2 = "if b_pending ?b = [] then ?m1 else forget_diagnostics p ?m1"
    have m2: "asks_forward m ?m2" by (simp add: forward_same)
    have run: "(case claim_server p ?m2 of
        None \<Rightarrow> Some ?m2
      | Some (i, m3) \<Rightarrow>
          (case session_of i m3 of
             None \<Rightarrow> Some m3
           | Some s \<Rightarrow> do {
               (rs, s') \<leftarrow> sync_document R p (b_text ?b) (b_pending ?b) s;
               Some (send_to i rs (set_session i s' m3)) })) = Some m'"
      using assms unfolding sync_index_def Let_def case_prod_beta drain_buffer_simps(1) Some by simp
    show ?thesis
    proof (cases "claim_server p ?m2")
      case None
      with run m2 show ?thesis by simp
    next
      case c: (Some im)
      obtain i m3 where im: "claim_server p ?m2 = Some (i, m3)" using c by (cases im) auto
      have m3: "asks_forward m m3" using forward_trans [OF m2 claim_forward [OF im]] .
      show ?thesis
      proof (cases "session_of i m3")
        case None
        with run im m3 show ?thesis by simp
      next
        case (Some s)
        then obtain rs s' where d: "sync_document R p (b_text ?b) (b_pending ?b) s = Some (rs, s')"
          "m' = send_to i rs (set_session i s' m3)" using run im by (auto simp: bind_eq_Some_iff)
        have "asks_forward m3 (set_session i s' m3)"
          using sync_document_active [OF d(1)] by (intro forward_set [OF Some]) simp
        then have "asks_forward m3 m'" using d(2) forward_then by fastforce
        with m3 show ?thesis by (rule forward_trans)
      qed
    qed
  qed
qed

lemma sync_forward: "sync_from R ks m = Some m' \<Longrightarrow> asks_forward m m'"
proof (induction ks arbitrary: m)
  case (Cons k ks)
  then obtain m1 where "sync_index R k m = Some m1" "sync_from R ks m1 = Some m'"
    by (auto simp: bind_eq_Some_iff)
  with Cons.IH sync_index_forward show ?case by (blast intro: forward_trans)
qed simp

lemma restart_forward: "asks_forward m (restart_language_servers m)"
proof -
  have "asks_forward m (restart_server i m)" for i and m :: "'r lsp_model"
  proof (cases "session_of i m")
    case (Some s)
    have "asks_forward m (set_session i (reset_for_restart s) m)"
      by (rule forward_set [OF Some]) (simp add: reset_for_restart_def)
    then show ?thesis using Some by (auto simp: restart_server_def intro: forward_then)
  qed (simp add: restart_server_def)
  from forward_fold [of restart_server, OF this]
  have "asks_forward m (fold restart_server (map fst (ls_sessions (lm_lsp m))) m)" .
  from forward_then [OF this, of "restart_language_servers m"] show ?thesis
    by (cases "ls_sessions (lm_lsp m) = []") (simp_all add: restart_language_servers_def Let_def forward_same)
qed

lemma close_forward: "asks_forward m (close_lsp_document p m)"
proof (cases "\<exists>i s. server_for (lm_lsp m) p = Some i \<and> session_of i m = Some s \<and> ss_open_docs s p \<noteq> None")
  case True
  then obtain i s v where i: "server_for (lm_lsp m) p = Some i" "session_of i m = Some s" "ss_open_docs s p = Some v"
    by auto
  have "asks_forward m (set_session i (s\<lparr>ss_open_docs := (ss_open_docs s)(p := None),
      ss_synced := (ss_synced s)(p := None)\<rparr>) m)"
    by (rule forward_set [OF i(2)]) simp
  from forward_then [OF this, of "close_lsp_document p m"] i show ?thesis
    by (simp add: close_lsp_document_def Let_def)
next
  case False
  then show ?thesis
    by (intro forward_same) (auto simp: close_lsp_document_def Let_def split: option.split)
qed

lemma ask_server_forward:
  assumes "\<And>s. ss_active (f s) = ss_active s"
  shows "asks_forward m (ask_server k f server request m)"
proof -
  let ?m = "snd (next_lsp_request m)" and ?q = "fst (next_lsp_request m)"
  have n: "lm_next_request ?m = Suc (lm_next_request m)" "?q = Suc (lm_next_request m)"
    "session_of i ?m = session_of i m" for i
    by (simp_all add: next_lsp_request_def session_of_def Let_def)
  show ?thesis
  proof (cases "session_of server m")
    case None
    with n show ?thesis by (simp add: ask_server_def case_prod_beta asks_forward_def)
  next
    case (Some s)
    let ?s = "f (s\<lparr>ss_active := (ss_active s)(k \<mapsto> ?q)\<rparr>)"
    have act: "ss_active ?s = (ss_active s)(k \<mapsto> ?q)" using assms by simp
    have "asks_forward m (set_session server ?s ?m)"
      using Some n act by (auto simp: asks_forward_def session_of_set split: if_splits)
    then show ?thesis using Some n(3) by (auto simp: ask_server_def case_prod_beta intro: forward_then)
  qed
qed

lemma ask_cursor_forward: "ask_at_cursor R k request m = Some m' \<Longrightarrow> asks_forward m m'"
  by (auto simp: ask_at_cursor_def intro!: ask_server_forward split: option.splits)

lemma ask_forward:
  assumes "ask R q m = Some m'"
  shows "asks_forward m m'"
proof (cases q)
  case AskWorkspaceSymbols
  have "asks_forward m (m\<lparr>lm_overlays := lm_overlays m @ [OvSymbols (ustr ''Workspace Symbols'') [] 0]\<rparr>)"
    by (rule forward_same) simp_all
  with assms AskWorkspaceSymbols show ?thesis
    by (auto simp: request_lsp_workspace_symbols_def Let_def
        intro!: forward_trans [OF _ forward_fold] ask_server_forward)
qed (use assms in \<open>auto simp: request_lsp_definition_def request_lsp_hover_def request_lsp_completion_def
    request_lsp_references_def request_lsp_rename_def format_document_def request_lsp_document_symbols_def
    request_lsp_code_actions_def Let_def bind_eq_Some_iff elim!: ask_cursor_forward
    intro!: ask_server_forward split: option.splits\<close>)

lemma set_load_forward:
  "session_of i m = Some s \<Longrightarrow> \<forall>k q. ss_active s' k = Some q \<longrightarrow> ss_active s k = Some q \<Longrightarrow>
   asks_forward m (set_load i l s' m)"
  unfolding set_load_def by (rule forward_set) auto

lemma take_forward: "take_answer i k q s m = Some m' \<Longrightarrow> session_of i m = Some s \<Longrightarrow> asks_forward m m'"
  by (auto simp: take_answer_def intro!: forward_set split: if_splits)

lemma open_location_forward: "open_lsp_location R loc m = Some m' \<Longrightarrow> asks_forward m m'"
  using open_location_frame by (intro forward_same) auto

lemma forward_shown:
  "asks_forward m m1 \<Longrightarrow> asks_forward m (notify t m1)" "asks_forward m m1 \<Longrightarrow> asks_forward m (push_overlay ov m1)"
  "asks_forward m m1 \<Longrightarrow> asks_forward m (m1\<lparr>lm_overlays := ovs\<rparr>)"
  "asks_forward m m1 \<Longrightarrow> asks_forward m (m1\<lparr>lm_symbols := sy\<rparr>)"
  by (auto simp: notify_def push_overlay_def intro: forward_then)

lemma hear_forward:
  assumes "on_lsp_event R lower i e m = Some m'" "\<not> edits_text e"
  shows "asks_forward m m'"
proof (cases "session_of i m")
  case None
  with assms(1) show ?thesis by (simp add: on_lsp_event_def)
next
  case (Some s)
  note take = take_forward [OF _ Some] and load = set_load_forward [OF Some, of s]
  have e: "on_session_event R lower i s e m = Some m'" using assms(1) Some by (simp add: on_lsp_event_def)
  show ?thesis
  proof (cases e)
    case (EvDiagnostics p v ds)
    with e show ?thesis
      by (auto simp: sync_lsp_diagnostics_def bind_eq_Some_iff Let_def intro!: forward_same split: if_splits option.splits)
  next
    case (EvDefinition q ls)
    show ?thesis
    proof (cases "take_answer i SlotDefinition q s m")
      case t: (Some m1)
      have "asks_forward m1 m'"
        using e EvDefinition t by (auto intro: forward_shown dest: open_location_forward split: list.splits)
      with take [OF t] show ?thesis by (rule forward_trans)
    qed (use e EvDefinition in simp)
  next
    case (EvDocumentSymbols q symbols)
    have "asks_forward m (set_session i (s\<lparr>ss_active := (ss_active s)(SlotSymbols := None), ss_symbol_path := None\<rparr>) m)"
      by (rule forward_set [OF Some]) (auto split: if_splits)
    with e EvDocumentSymbols show ?thesis
      by (auto simp: on_document_symbols_def Let_def intro: forward_shown split: option.splits if_splits)
  next
    case (EvFailed q f)
    obtain b s' where c: "(case q of Some j \<Rightarrow> clear_request j s | None \<Rightarrow> (True, s)) = (b, s')"
      by fastforce
    then have sub: "\<forall>k q. ss_active s' k = Some q \<longrightarrow> ss_active s k = Some q"
      by (auto simp: clear_request_def split: option.splits if_splits)
    from e EvFailed c have "m' = (if \<not> b then set_session i s' m
        else notify (ss_language s @ ustr '': '' @ lf_message f)
          (set_load i (if q = None then LoadUnavailable f else LoadStale f) s' m))" by simp
    moreover have "asks_forward m (set_session i s' m)" using sub by (intro forward_set [OF Some]) auto
    ultimately show ?thesis using set_load_forward [OF Some sub] by (auto intro: forward_shown)
  next
    case (EvHover q h)
    with e take show ?thesis by (auto intro: forward_shown split: option.splits)
  next
    case (EvCompletion q h)
    with e take show ?thesis by (auto intro: forward_shown split: option.splits if_splits)
  next
    case (EvReferences q h)
    with e take show ?thesis by (auto intro: forward_shown split: option.splits if_splits)
  next
    case (EvWorkspaceSymbols q h)
    with e take show ?thesis by (auto intro: forward_shown split: option.splits)
  next
    case (EvCodeActions q h)
    with e take show ?thesis by (auto intro: forward_shown split: option.splits if_splits)
  qed (use e assms(2) load in \<open>auto intro: forward_shown\<close>)
qed

lemma undisturbed_forward: "undisturbed m m' \<Longrightarrow> asks_forward m m'"
  by (auto simp: undisturbed_def intro: forward_same)

lemma hear_any_forward:
  assumes "on_lsp_event R lower i e m = Some m'"
  shows "asks_forward m m'"
proof (cases "edits_text e \<and> m' \<noteq> m")
  case False
  with assms hear_forward show ?thesis by (cases "m' = m") auto
next
  case True
  then obtain s k q m1 where one: "session_of i m = Some s" "take_answer i k q s m = Some m1"
    "edits_and_passes R (answer_before_pass R i e m) m1 m'" using hear_edit [OF assms] by blast
  have "asks_forward m m1" using take_forward [OF one(2,1)] .
  moreover have "asks_forward m1 m'"
  proof (cases "answer_before_pass R i e m")
    case None
    with one(3) undisturbed_forward show ?thesis by (auto simp: edits_and_passes_def)
  next
    case (Some m2)
    then obtain m3 where "undisturbed m1 m2" "sync_lsp_documents R m2 = Some m3" "undisturbed m3 m'"
      using one(3) by (auto simp: edits_and_passes_def)
    then show ?thesis
      using undisturbed_forward sync_forward forward_trans unfolding sync_lsp_documents_def by metis
  qed
  ultimately show ?thesis by (rule forward_trans)
qed

lemma run_forward: "client_run R lower ops m = Some m' \<Longrightarrow> asks_forward m m'"
proof (induction ops arbitrary: m)
  case (Cons op ops)
  then obtain m1 where 1: "client_allowed R op m" "client_step R lower op m = Some m1" "client_run R lower ops m1 = Some m'"
    by (auto simp: bind_eq_Some_iff split: if_splits)
  have "asks_forward m m1"
    using 1(1,2)
    by (cases op) (auto simp: sync_lsp_documents_def client_allowed_def on_file_saved_def Let_def
        intro: forward_same restart_forward close_forward ask_forward hear_any_forward sync_forward
        split: option.splits)
  with Cons.IH [OF 1(3)] show ?case by (blast intro: forward_trans)
qed simp

text \<open>The kind of request an answer belongs to, with the id it carries.\<close>

fun answers :: "lsp_event \<Rightarrow> (lsp_slot \<times> lsp_id) option" where
  "answers (EvDefinition q _) = Some (SlotDefinition, q)"
| "answers (EvHover q _) = Some (SlotHover, q)"
| "answers (EvCompletion q _) = Some (SlotCompletion, q)"
| "answers (EvReferences q _) = Some (SlotReferences, q)"
| "answers (EvDocumentSymbols q _) = Some (SlotSymbols, q)"
| "answers (EvWorkspaceSymbols q _) = Some (SlotWorkspace, q)"
| "answers (EvRename q _) = Some (SlotRename, q)"
| "answers (EvCodeActions q _) = Some (SlotActions, q)"
| "answers (EvFormatting q _) = Some (SlotFormatting, q)"
| "answers _ = None"

lemma unasked_answer:
  assumes "answers e = Some (k, q)" "\<And>s. session_of i m = Some s \<Longrightarrow> ss_active s k \<noteq> Some q"
  shows "on_lsp_event R lower i e m = Some m"
proof (cases "session_of i m")
  case (Some s)
  then have "ss_active s k \<noteq> Some q" using assms(2) by blast
  then show ?thesis
    using assms(1) Some
    by (cases e) (auto simp: on_lsp_event_def take_answer_def on_document_symbols_def)
qed (simp add: on_lsp_event_def)

text \<open>Replacing an active request sends its cancellation.\<close>

definition cancels_replaced :: "'r lsp_model \<Rightarrow> 'r lsp_model \<Rightarrow> bool" where
  "cancels_replaced m m' \<longleftrightarrow> (\<exists>out. lm_outbox m' = lm_outbox m @ out
     \<and> (\<forall>i s s' k q. session_of i m = Some s \<longrightarrow> session_of i m' = Some s' \<longrightarrow>
          ss_active s k = Some q \<longrightarrow> ss_active s' k \<noteq> Some q \<longrightarrow> (i, RqCancel q) \<in> set out)
     \<and> (\<forall>i. session_of i m = None \<longleftrightarrow> session_of i m' = None))"

lemma cancels_refl: "lm_outbox m' = lm_outbox m \<Longrightarrow> ls_sessions (lm_lsp m') = ls_sessions (lm_lsp m) \<Longrightarrow>
    cancels_replaced m m'"
  by (auto simp: cancels_replaced_def session_of_def intro!: exI [of _ "[]"])

lemma cancels_trans:
  assumes "cancels_replaced m m1" "cancels_replaced m1 m2"
  shows "cancels_replaced m m2"
proof -
  obtain a where a: "lm_outbox m1 = lm_outbox m @ a"
    "\<And>i s s' k q. session_of i m = Some s \<Longrightarrow> session_of i m1 = Some s' \<Longrightarrow>
       ss_active s k = Some q \<Longrightarrow> ss_active s' k \<noteq> Some q \<Longrightarrow> (i, RqCancel q) \<in> set a"
    "\<And>i. session_of i m = None \<longleftrightarrow> session_of i m1 = None"
    using assms(1) unfolding cancels_replaced_def by metis
  obtain b where b: "lm_outbox m2 = lm_outbox m1 @ b"
    "\<And>i s s' k q. session_of i m1 = Some s \<Longrightarrow> session_of i m2 = Some s' \<Longrightarrow>
       ss_active s k = Some q \<Longrightarrow> ss_active s' k \<noteq> Some q \<Longrightarrow> (i, RqCancel q) \<in> set b"
    "\<And>i. session_of i m1 = None \<longleftrightarrow> session_of i m2 = None"
    using assms(2) unfolding cancels_replaced_def by metis
  have "(i, RqCancel q) \<in> set (a @ b)"
    if s: "session_of i m = Some s" "session_of i m2 = Some s'" "ss_active s k = Some q" "ss_active s' k \<noteq> Some q"
    for i s s' k q
  proof -
    obtain t where t: "session_of i m1 = Some t" using a(3) [of i] s(1) by (cases "session_of i m1") auto
    show ?thesis using a(2) [OF s(1) t s(3)] b(2) [OF t s(2) _ s(4)] by auto
  qed
  then show ?thesis unfolding cancels_replaced_def using a(1,3) b(1,3) by (intro exI [of _ "a @ b"]) auto
qed

lemma cancels_ask:
  assumes "\<And>s. ss_active (f s) = ss_active s"
  shows "cancels_replaced m (ask_server k f server request m)"
proof -
  let ?m = "snd (next_lsp_request m)" and ?q = "fst (next_lsp_request m)"
  have n: "lm_outbox ?m = lm_outbox m" "session_of i ?m = session_of i m" for i
    by (simp_all add: next_lsp_request_def session_of_def Let_def)
  show ?thesis
  proof (cases "session_of server m")
    case None
    with n show ?thesis
      by (auto simp: ask_server_def case_prod_beta cancels_replaced_def intro!: exI [of _ "[]"])
  next
    case (Some s)
    let ?s = "f (s\<lparr>ss_active := (ss_active s)(k \<mapsto> ?q)\<rparr>)"
    have "ss_active ?s = (ss_active s)(k \<mapsto> ?q)" using assms by simp
    then show ?thesis using Some n
      by (auto simp: ask_server_def case_prod_beta cancels_replaced_def session_of_set
          split: if_splits option.splits)
  qed
qed

lemma cancels_fold: "(\<And>x m. cancels_replaced m (f x m)) \<Longrightarrow> cancels_replaced m (fold f xs m)"
proof (induction xs arbitrary: m)
  case (Cons x xs)
  from cancels_trans [OF Cons.prems [where x = x and m = m] Cons.IH [OF Cons.prems]] show ?case by simp
qed (simp add: cancels_refl)

lemma cancels_cursor: "ask_at_cursor R k request m = Some m' \<Longrightarrow> cancels_replaced m m'"
  by (auto simp: ask_at_cursor_def cancels_refl intro!: cancels_ask split: option.splits)

lemma ask_cancels:
  assumes "ask R q m = Some m'"
  shows "cancels_replaced m m'"
proof (cases q)
  case AskWorkspaceSymbols
  have "cancels_replaced m (m\<lparr>lm_overlays := lm_overlays m @ [OvSymbols (ustr ''Workspace Symbols'') [] 0]\<rparr>)"
    by (rule cancels_refl) simp_all
  with assms AskWorkspaceSymbols show ?thesis
    by (auto simp: request_lsp_workspace_symbols_def Let_def
        intro!: cancels_trans [OF _ cancels_fold] cancels_ask)
qed (use assms in \<open>auto simp: request_lsp_definition_def request_lsp_hover_def request_lsp_completion_def
    request_lsp_references_def request_lsp_rename_def format_document_def request_lsp_document_symbols_def
    request_lsp_code_actions_def Let_def bind_eq_Some_iff cancels_refl elim!: cancels_cursor
    intro!: cancels_ask split: option.splits\<close>)

text \<open>
  C20. When a question replaces the request that was active for its kind, the server is told to cancel
  that one, and whatever happens afterwards an answer that still carries its id changes nothing.
\<close>

theorem newest_request_wins:
  assumes "ask R q m = Some m1" and "session_of i m = Some s" and "session_of i m1 = Some s1"
    and "ss_active s k = Some old" and "ss_active s1 k \<noteq> Some old" and "old \<le> lm_next_request m"
    and "client_run R lower ops m1 = Some m2" and "answers e = Some (k, old)"
  shows "(i, RqCancel old) \<in> set (drop (length (lm_outbox m)) (lm_outbox m1))
    \<and> on_lsp_event R lower i e m2 = Some m2"
proof
  obtain out where "lm_outbox m1 = lm_outbox m @ out" "(i, RqCancel old) \<in> set out"
    using ask_cancels [OF assms(1)] assms(2-5) unfolding cancels_replaced_def by metis
  then show "(i, RqCancel old) \<in> set (drop (length (lm_outbox m)) (lm_outbox m1))" by simp
  have "lm_next_request m \<le> lm_next_request m1" using ask_forward [OF assms(1)] by (simp add: asks_forward_def)
  then have "ss_active s2 k \<noteq> Some old" if "session_of i m2 = Some s2" for s2
    using run_forward [OF assms(7)] that assms(3,5,6) unfolding asks_forward_def
    by (metis leD le_trans option.inject)
  then show "on_lsp_event R lower i e m2 = Some m2" using unasked_answer [OF assms(8)] by blast
qed

text \<open>A client whose only server was asked twice to format the same file.\<close>

definition asked_model :: "utext lsp_model" where
  "asked_model = format_document
     (bare_model\<lparr>lm_buffers := [rust_buffer [97]], lm_active := Some 0,
       lm_lsp := \<lparr>ls_configured = [], ls_sessions = [(1, session_new 1 (ustr ''rust'') [ustr ''rs'']
         (cr_launch rust_recipe))], ls_diagnostics = Map.empty\<rparr>\<rparr>)"

lemma asked_model_facts:
  "lm_next_request asked_model = 1" "lm_outbox asked_model = [(1, RqFormatting 1 rust_file)]"
  "map_option ss_active (session_of 1 asked_model) = Some [SlotFormatting \<mapsto> 1]"
  "map_option ss_active (session_of 1 (format_document asked_model)) = Some [SlotFormatting \<mapsto> 2]"
  "lm_outbox (format_document asked_model)
     = [(1, RqFormatting 1 rust_file), (1, RqCancel 1), (1, RqFormatting 2 rust_file)]"
  by (simp_all add: asked_model_def format_document_def lsp_document_target_def active_buffer_def
      bare_model_def rust_buffer_def buffer_from_text_def server_for_def rust_extension claims_extension_def
      session_new_def ask_server_def next_lsp_request_def session_of_def set_session_def send_to_def fun_eq_iff)

lemma newest_request_wins_witness:
  "(1, RqCancel 1) \<in> set (drop 1 (lm_outbox (format_document asked_model)))
   \<and> on_lsp_event list_rope (\<lambda>t. t) 1 (EvFormatting 1 []) (format_document asked_model)
       = Some (format_document asked_model)"
proof -
  obtain s where s: "session_of 1 asked_model = Some s" "ss_active s SlotFormatting = Some 1"
    using asked_model_facts(3) by auto
  obtain s1 where s1: "session_of 1 (format_document asked_model) = Some s1" "ss_active s1 SlotFormatting \<noteq> Some 1"
    using asked_model_facts(4) by auto
  from newest_request_wins [of list_rope AskFormatting asked_model "format_document asked_model" 1 s s1
      SlotFormatting 1 "\<lambda>t. t" "[]" "format_document asked_model" "EvFormatting 1 []"]
  show ?thesis using s s1 asked_model_facts(1,2) by simp
qed

end
