(* ===== verification/Lsp_Edits_Claims.thy ===== *)
theory Lsp_Edits_Claims
  imports Lsp_Edits Lsp_Samples
begin

text \<open>
  A server's edits are applied as the protocol means them: all of them against the same document,
  or none; over several files, to all files or to none.
\<close>

section \<open>One document\<close>

text \<open>The edits in order and apart, inside a text of length \<open>n\<close>, from \<open>at\<close> on.\<close>

fun edits_in :: "nat \<Rightarrow> nat \<Rightarrow> (nat \<times> nat \<times> utext) list \<Rightarrow> bool" where
  "edits_in n at [] \<longleftrightarrow> at \<le> n"
| "edits_in n at ((s, e, t) # es) \<longleftrightarrow> at \<le> s \<and> s \<le> e \<and> edits_in n e es"

text \<open>The protocol's meaning: from the last edit to the first, so that no edit moves another.\<close>

fun edit_backwards :: "(nat \<times> nat \<times> utext) list \<Rightarrow> utext \<Rightarrow> utext" where
  "edit_backwards [] u = u"
| "edit_backwards ((s, e, t) # es) u =
     (let v = edit_backwards es u in take s v @ t @ drop e v)"

lemma edits_in_le: "edits_in n at es \<Longrightarrow> at \<le> n"
  by (induction n at es rule: edits_in.induct) auto

lemma edits_take:
  "edits_in n at es \<Longrightarrow> n = length u \<Longrightarrow> k \<le> at \<Longrightarrow> take k (edit_backwards es u) = take k u"
proof (induction n at es arbitrary: k rule: edits_in.induct)
  case (2 n at s e t es)
  then have "s \<le> length u" using edits_in_le [of n e es] by auto
  moreover have "take s (edit_backwards es u) = take s u" using 2 by auto
  ultimately show ?case using 2 by (simp add: Let_def)
qed simp

lemma edits_loop_spec:
  assumes "wf_builder b" "bd_consumed b = at" "edits_in (length u) at es"
  shows "\<exists>b'. edits_loop es at b = Some b' \<and> wf_builder b' \<and> bd_len_before b' = bd_len_before b
    \<and> bd_consumed b' \<le> length u
    \<and> denote (bd_ops b') u @ drop (bd_consumed b') u = denote (bd_ops b) u @ drop at (edit_backwards es u)"
  using assms
proof (induction es arbitrary: at b)
  case (Cons x es)
  obtain s e t where x: "x = (s, e, t)" by (cases x)
  have le: "at \<le> s" "s \<le> e" "edits_in (length u) e es" "e \<le> length u"
    using Cons.prems x edits_in_le by auto
  let ?b = "bd_insert (bd_delete (bd_retain b (s - at)) (e - s)) t"
  have "in_len (bd_ops b) = at" using Cons.prems by (simp add: wf_builder_def)
  then have d: "denote (bd_ops ?b) u = denote (bd_ops b) u @ slice at s u @ t"
    using le by (simp add: ops_simps slice_def)
  have "wf_builder ?b" "bd_consumed ?b = e" "bd_len_before ?b = bd_len_before b"
    using Cons.prems le by (simp_all add: ops_simps)
  from Cons.IH [OF this(1,2) le(3)] this(3) obtain b' where b': "edits_loop es e ?b = Some b'" "wf_builder b'"
    "bd_len_before b' = bd_len_before b" "bd_consumed b' \<le> length u"
    "denote (bd_ops b') u @ drop (bd_consumed b') u = denote (bd_ops ?b) u @ drop e (edit_backwards es u)"
    by auto
  have "drop at (edit_backwards (x # es) u) = slice at s u @ t @ drop e (edit_backwards es u)"
    using le x edits_take [OF le(3) refl, of s] by (simp add: Let_def slice_def drop_take min_def)
  then show ?case using b' d le x by (intro exI [of _ b']) simp
qed simp

lemma build_edits:
  assumes "edits_in (length u) 0 es" "length u = n"
  obtains b cs where "edits_loop es 0 (cs_builder n) = Some b" "bd_build b = Some cs"
    "carries cs u (edit_backwards es u)"
proof -
  have "wf_builder (cs_builder n)" "bd_consumed (cs_builder n) = 0" by (simp_all add: ops_simps)
  from edits_loop_spec [OF this assms(1)] obtain b where b: "edits_loop es 0 (cs_builder n) = Some b"
    "wf_builder b" "bd_len_before b = n" "bd_consumed b \<le> length u"
    "denote (bd_ops b) u @ drop (bd_consumed b) u = edit_backwards es u"
    by (auto simp: ops_simps)
  then have "bd_consumed b \<le> bd_len_before b" using assms(2) by simp
  from bd_build_ok [OF b(2) this] obtain cs where cs: "bd_build b = Some cs" "wf_cs cs"
    "cs_len_before cs = bd_len_before b"
    "\<And>t. length t = bd_len_before b \<Longrightarrow>
       denote (cs_ops cs) t = denote (bd_ops b) t @ drop (bd_consumed b) t"
    by metis
  with b assms(2) that show thesis by (simp add: carries_def)
qed

section \<open>What the positions stand for\<close>

definition offset_at :: "'r rope_api \<Rightarrow> 'r \<Rightarrow> text_position \<Rightarrow> nat" where
  "offset_at R doc p = the (offset_from_utf16 R doc (pos_line p) (pos_character p))"

definition edit_span :: "'r rope_api \<Rightarrow> 'r \<Rightarrow> lsp_text_edit \<Rightarrow> nat \<times> nat \<times> utext" where
  "edit_span R doc e = (offset_at R doc (tr_start (te_range e)), offset_at R doc (tr_end (te_range e)), te_new_text e)"

context rope_utf16 begin

lemma offset_total:
  "\<exists>k. offset_from_utf16 R t l c = Some k \<and> k \<le> length (rope_chars R t)"
proof (cases "rope_len_lines R t \<le> l")
  case True
  then show ?thesis by (simp add: offset_from_utf16_def len_chars)
next
  case False
  obtain s e where se: "rope_line_to_char R t l = Some s" "rope_line_to_char R t (Suc l) = Some e"
    using line_start_in [of l t] line_start_in [of "Suc l" t] False by auto
  define v where "v = (if s < e \<and> rope_chars R t ! (e - 1) = newline then e - 1 else e)"
  have v: "offset_from_utf16 R t l c
      = Some (s + utf16_char (slice s v (rope_chars R t)) (min c (utf16_total (slice s v (rope_chars R t)))))"
    "s \<le> v" "v \<le> length (rope_chars R t)"
    using offset_from_utf16_ok [of l t s e] False se unfolding v_def by auto
  have "utf16_char (slice s v (rope_chars R t)) x \<le> v - s" for x
    using utf16_char_le [of "slice s v (rope_chars R t)" x] v(3) by simp
  from add_left_mono [OF this, of s] v(2,3) have "s + utf16_char (slice s v (rope_chars R t)) x \<le> length (rope_chars R t)" for x
    by (metis le_add_diff_inverse le_trans)
  with v(1) show ?thesis by auto
qed

lemma offset_at_ok:
  "offset_from_utf16 R t (pos_line p) (pos_character p) = Some (offset_at R t p)"
  "offset_at R t p \<le> length (rope_chars R t)"
  using offset_total [of t "pos_line p" "pos_character p"] by (auto simp: offset_at_def)

lemma convert_edit_ok: "convert_edit R t e = Some (edit_span R t e)"
  by (simp add: convert_edit_def edit_span_def offset_at_ok)

end

lemma sorted_edits_in:
  assumes "sorted_wrt (\<lambda>a b. (fst a, fst (snd a)) \<le> (fst b, fst (snd b))) es" "\<not> edits_overlap es"
    "\<forall>(s, e, t)\<in>set es. s \<le> e \<and> e \<le> n" "\<forall>x\<in>set (take 1 es). at \<le> fst x" "at \<le> n"
  shows "edits_in n at es"
  using assms
proof (induction es arbitrary: at rule: edits_overlap.induct)
  case (1 s1 e1 t1 s2 e2 t2 es)
  then show ?case by auto
qed auto

lemma build_lsp_changes_ok:
  assumes "rope_utf16 R"
  shows "let spans = map (edit_span R doc) edits;
             sorted = sort_key (\<lambda>(s, e, _). (s, e)) spans
         in if \<exists>(s, e, _) \<in> set spans. e < s
            then build_lsp_changes R doc edits
              = Some (Inl (ustr ''Language server returned an edit with a reversed range''))
            else if edits_overlap sorted
            then build_lsp_changes R doc edits = Some (Inl (ustr ''Language server returned overlapping edits''))
            else \<exists>cs. build_lsp_changes R doc edits = Some (Inr cs)
              \<and> carries cs (rope_chars R doc) (edit_backwards sorted (rope_chars R doc))"
proof -
  obtain spans where spans: "spans = map (edit_span R doc) edits" by blast
  obtain es where es: "es = sort_key (\<lambda>(s, e, _). (s, e)) spans" by blast
  let ?u = "rope_chars R doc"
  have conv: "those (map (convert_edit R doc) edits) = Some spans"
    using those_eq [of edits "convert_edit R doc" "edit_span R doc"] rope_utf16.convert_edit_ok [OF assms] spans
    by simp
  have build: "build_lsp_changes R doc edits = (if \<exists>(s, e, _)\<in>set spans. e < s
      then Some (Inl (ustr ''Language server returned an edit with a reversed range''))
      else if edits_overlap es then Some (Inl (ustr ''Language server returned overlapping edits''))
      else do { b \<leftarrow> edits_loop es 0 (cs_builder (rope_len R doc)); cs \<leftarrow> bd_build b; Some (Inr cs) })"
    unfolding build_lsp_changes_def conv es by (simp add: Let_def list_ex_iff)
  have "\<exists>cs. build_lsp_changes R doc edits = Some (Inr cs) \<and> carries cs ?u (edit_backwards es ?u)"
    if fwd: "\<not> (\<exists>(s, e, _)\<in>set spans. e < s)" "\<not> edits_overlap es"
  proof -
    have "\<forall>(s, e, t)\<in>set es. s \<le> e \<and> e \<le> length ?u"
      using fwd(1) rope_utf16.offset_at_ok(2) [OF assms] by (auto simp: es spans edit_span_def)
    moreover have "sorted_wrt (\<lambda>a b. (fst a, fst (snd a)) \<le> (fst b, fst (snd b))) es"
      using sorted_sort_key [of "\<lambda>(s, e, _). (s, e)" spans]
      by (simp add: es sorted_map case_prod_beta)
    ultimately have "edits_in (length ?u) 0 es" using fwd(2) sorted_edits_in by simp
    from build_edits [OF this refl] obtain b cs where "edits_loop es 0 (cs_builder (length ?u)) = Some b"
      "bd_build b = Some cs" "carries cs ?u (edit_backwards es ?u)" by metis
    moreover have "rope_len R doc = length ?u"
      using assms by (simp add: rope_utf16_def rope_lines_def rope_text.len_chars)
    ultimately show ?thesis using build fwd by simp
  qed
  with build show ?thesis unfolding Let_def spans [symmetric] es [symmetric] by simp
qed

text \<open>
  C18. The edits of one response never panic.  They are refused when one of them is reversed or two
  of them overlap or insert at the same place; otherwise they become one changeset that edits the
  document as the protocol means it, every edit against the document as it was.
\<close>

theorem server_edits_are_simultaneous:
  assumes "rope_utf16 R"
  shows "let spans = map (edit_span R doc) edits;
             sorted = sort_key (\<lambda>(s, e, _). (s, e)) spans
         in if \<exists>(s, e, _) \<in> set spans. e < s
            then build_lsp_changes R doc edits
              = Some (Inl (ustr ''Language server returned an edit with a reversed range''))
            else if edits_overlap sorted
            then build_lsp_changes R doc edits = Some (Inl (ustr ''Language server returned overlapping edits''))
            else \<exists>cs. build_lsp_changes R doc edits = Some (Inr cs)
              \<and> carries cs (rope_chars R doc) (edit_backwards sorted (rope_chars R doc))"
  using assms by (rule build_lsp_changes_ok)

text \<open>Two edits of one line of \<open>abc\<close>, given last first.\<close>

definition line_edit :: "path \<Rightarrow> nat \<Rightarrow> nat \<Rightarrow> utext \<Rightarrow> lsp_text_edit" where
  "line_edit p a b t = \<lparr>te_path = p, te_range = \<lparr>tr_start = \<lparr>pos_line = 0, pos_character = a\<rparr>,
     tr_end = \<lparr>pos_line = 0, pos_character = b\<rparr>\<rparr>, te_new_text = t\<rparr>"

lemma server_edits_are_simultaneous_witness:
  "\<exists>cs. build_lsp_changes list_rope [97, 98, 99] [line_edit [] 2 3 [89], line_edit [] 0 1 [88, 88]] = Some (Inr cs)
    \<and> carries cs [97, 98, 99] [88, 88, 98, 89]"
  using server_edits_are_simultaneous [OF list_rope.rope_utf16_axioms,
    of "[97, 98, 99]" "[line_edit [] 2 3 [89], line_edit [] 0 1 [88, 88]]"]
  by (simp add: Let_def edit_span_def offset_at_def offset_from_utf16_def line_edit_def list_line_def
      slice_def utf16_len_def)

section \<open>Many files\<close>

context rope_text begin

lemma apply_lsp_changes_ok:
  assumes "k < length (lm_buffers m)" "buffer_ok R (lm_buffers m ! k)"
    "carries cs (rope_chars R (b_text (lm_buffers m ! k))) u"
  obtains b where "apply_lsp_changes R k cs m = Some (Inr (), m\<lparr>lm_buffers := (lm_buffers m)[k := b]\<rparr>)"
    "buffer_ok R b" "rope_chars R (b_text b) = u" "b_path b = b_path (lm_buffers m ! k)"
proof -
  let ?b = "lm_buffers m ! k"
  obtain g h where gh: "group_for (b_history ?b) Lsp = (g, h)" by fastforce
  let ?b1 = "?b\<lparr>b_history := h\<rparr>" and ?tx = "tx_new (b_id ?b) (b_version ?b) cs Lsp g"
  have tx: "transaction cs Lsp ?b = (?tx, ?b1)" by (simp add: transaction_def gh)
  have ok: "buffer_ok R ?b1"
    using assms(2) log_ok_group_for [of "b_history ?b" Lsp] gh by (simp add: buffer_ok_def)
  have len: "cs_len_before cs = rope_len R (b_text ?b)" using assms(3) by (simp add: carries_def len_chars)
  show thesis
  proof (cases "cs_is_identity cs")
    case True
    then have "u = rope_chars R (b_text ?b)" using carries_identity [OF assms(3)] by simp
    moreover have "buffer_apply R ?tx ?b1 = Some (Inr (), ?b1)"
      using True len by (simp add: buffer_apply_def tx_is_empty_def tx_new_def)
    ultimately show thesis using that [of ?b1] ok tx by (simp add: apply_lsp_changes_def)
  next
    case False
    then have *: "carries (tx_changes ?tx) (rope_chars R (b_text ?b1)) u" "tx_base_version ?tx = b_version ?b1"
      "\<not> tx_is_empty ?tx" "case tx_selection ?tx of None \<Rightarrow> True | Some s \<Rightarrow> selection_in (length u) s"
      using assms(3) by (simp_all add: tx_new_def tx_is_empty_def)
    from buffer_apply_ok [OF ok *] obtain b' where "buffer_apply R ?tx ?b1 = Some (Inr (), b')" "buffer_ok R b'"
      "edited R (tx_changes ?tx) u ?b1 b'" by metis
    then show thesis using that [of b'] tx by (simp add: apply_lsp_changes_def edited_def)
  qed
qed

text \<open>The changes prepared for distinct buffers are all applied, each to the buffer it was made for.\<close>

lemma apply_prepared_ok:
  assumes "distinct (map fst ps)" "\<forall>b\<in>set (lm_buffers m). buffer_ok R b"
    "\<forall>(k, cs)\<in>set ps. k < length (lm_buffers m) \<and> carries cs (rope_chars R (b_text (lm_buffers m ! k))) (f k)"
  shows "\<exists>m'. apply_prepared R ps m = Some (Inr (), m') \<and> length (lm_buffers m') = length (lm_buffers m)
    \<and> (\<forall>k<length (lm_buffers m). rope_chars R (b_text (lm_buffers m' ! k))
         = (if k \<in> fst ` set ps then f k else rope_chars R (b_text (lm_buffers m ! k))))"
  using assms
proof (induction ps arbitrary: m)
  case (Cons x ps)
  obtain k cs where x: "x = (k, cs)" by (cases x)
  have k: "k < length (lm_buffers m)" "carries cs (rope_chars R (b_text (lm_buffers m ! k))) (f k)"
    "k \<notin> fst ` set ps" using Cons.prems x by auto
  have "buffer_ok R (lm_buffers m ! k)" using Cons.prems(2) k(1) by simp
  from apply_lsp_changes_ok [OF k(1) this k(2)] obtain b where
    b: "apply_lsp_changes R k cs m = Some (Inr (), m\<lparr>lm_buffers := (lm_buffers m)[k := b]\<rparr>)"
    "buffer_ok R b" "rope_chars R (b_text b) = f k" by metis
  let ?m = "m\<lparr>lm_buffers := (lm_buffers m)[k := b]\<rparr>"
  have at: "lm_buffers ?m ! j = (if j = k then b else lm_buffers m ! j)" if "j < length (lm_buffers m)" for j
    using that by (simp add: nth_list_update)
  have "\<forall>y\<in>set (lm_buffers ?m). buffer_ok R y"
    using Cons.prems(2) b(2) set_update_subset_insert [of "lm_buffers m" k b] by auto
  moreover have "\<forall>(j, c)\<in>set ps. j < length (lm_buffers ?m)
      \<and> carries c (rope_chars R (b_text (lm_buffers ?m ! j))) (f j)"
  proof (intro ballI, clarify)
    fix j c assume j: "(j, c) \<in> set ps"
    then have "j \<noteq> k" using k(3) by force
    with j Cons.prems(3) x show "j < length (lm_buffers ?m) \<and> carries c (rope_chars R (b_text (lm_buffers ?m ! j))) (f j)"
      by auto
  qed
  moreover have "distinct (map fst ps)" using Cons.prems(1) by simp
  ultimately obtain m' where m': "apply_prepared R ps ?m = Some (Inr (), m')"
    "length (lm_buffers m') = length (lm_buffers ?m)"
    "\<forall>j<length (lm_buffers ?m). rope_chars R (b_text (lm_buffers m' ! j))
       = (if j \<in> fst ` set ps then f j else rope_chars R (b_text (lm_buffers ?m ! j)))"
    using Cons.IH [of ?m] by blast
  have "apply_prepared R (x # ps) m = Some (Inr (), m')" using b(1) m'(1) x by simp
  moreover have "rope_chars R (b_text (lm_buffers m' ! j))
      = (if j \<in> fst ` set (x # ps) then f j else rope_chars R (b_text (lm_buffers m ! j)))"
    if "j < length (lm_buffers m)" for j
    using m'(3) that at [OF that] b(3) x by auto
  ultimately show ?case using m'(2) by auto
qed simp

end

lemma buffer_index_path: "buffer_index p m = Some k \<Longrightarrow> k < length (lm_buffers m) \<and> b_path (lm_buffers m ! k) = Some p"
  unfolding buffer_index_def by (drule find_position_first) simp

text \<open>The groups of a workspace edit: every path once, with its edits in their order.\<close>

lemma group_edits_ok:
  "sorted_wrt (<) (map fst g) \<Longrightarrow> sorted_wrt (<) (map fst (group_edits es g))
    \<and> (\<forall>p. map_of (group_edits es g) p =
         (let l = filter (\<lambda>e. te_path e = p) es in
          case map_of g p of Some h \<Rightarrow> Some (h @ l) | None \<Rightarrow> if l = [] then None else Some l))"
proof (induction es arbitrary: g)
  case Nil
  then show ?case by (simp split: option.split)
next
  case (Cons e es)
  let ?g = "bt_insert (te_path e) ((case map_of g (te_path e) of Some l \<Rightarrow> l | None \<Rightarrow> []) @ [e]) g"
  have "sorted_wrt (<) (map fst ?g)" using Cons.prems by simp
  from Cons.IH [OF this] Cons.prems show ?case by (auto simp: Let_def split: option.splits)
qed

definition file_edits :: "path \<Rightarrow> lsp_text_edit list \<Rightarrow> lsp_text_edit list" where
  "file_edits p es = filter (\<lambda>e. te_path e = p) es"

lemma groups_of_edits:
  shows "distinct (map fst (group_edits es []))"
    "(p, l) \<in> set (group_edits es []) \<longleftrightarrow> l = file_edits p es \<and> l \<noteq> []"
proof -
  have g: "sorted_wrt (<) (map fst (group_edits es []))"
    "map_of (group_edits es []) q = (if file_edits q es = [] then None else Some (file_edits q es))" for q
    using group_edits_ok [of "[]" es] by (simp_all add: Let_def file_edits_def)
  then show d: "distinct (map fst (group_edits es []))" by (simp add: strict_sorted_iff)
  have "(p, l) \<in> set (group_edits es []) \<longleftrightarrow> map_of (group_edits es []) p = Some l" using d by simp
  then show "(p, l) \<in> set (group_edits es []) \<longleftrightarrow> l = file_edits p es \<and> l \<noteq> []"
    using g(2) [of p] by auto
qed

text \<open>What a workspace edit makes of a document: the edits of its path, or nothing.\<close>

definition server_edited :: "'r rope_api \<Rightarrow> 'r lsp_model \<Rightarrow> lsp_text_edit list \<Rightarrow> nat \<Rightarrow> utext" where
  "server_edited R m es k =
     (let b = lm_buffers m ! k; t = rope_chars R (b_text b) in
      case b_path b of
        Some p \<Rightarrow>
          if buffer_index p m = Some k
          then edit_backwards (sort_key (\<lambda>(s, e, _). (s, e)) (map (edit_span R (b_text b)) (file_edits p es))) t
          else t
      | None \<Rightarrow> t)"

lemma build_carries:
  assumes "rope_utf16 R" "build_lsp_changes R doc es = Some (Inr cs)"
  shows "carries cs (rope_chars R doc)
    (edit_backwards (sort_key (\<lambda>(s, e, _). (s, e)) (map (edit_span R doc) es)) (rope_chars R doc))"
  using build_lsp_changes_ok [OF assms(1), of doc es] assms(2) by (auto simp: Let_def split: if_splits)

lemma prepare_edits_ok:
  assumes "rope_utf16 R"
  shows "\<exists>r. prepare_edits R m gs = Some r \<and> (\<forall>ps. r = Inr ps \<longrightarrow>
    (distinct (map fst gs) \<longrightarrow> distinct (map fst ps))
    \<and> (\<forall>p l. (p, l) \<in> set gs \<longrightarrow> (\<exists>k cs. (k, cs) \<in> set ps \<and> buffer_index p m = Some k))
    \<and> (\<forall>k cs. (k, cs) \<in> set ps \<longrightarrow> (\<exists>p l. (p, l) \<in> set gs \<and> buffer_index p m = Some k
         \<and> build_lsp_changes R (b_text (lm_buffers m ! k)) l = Some (Inr cs))))"
proof (induction gs)
  case (Cons g gs)
  obtain p l where g: "g = (p, l)" by (cases g)
  show ?case
  proof (cases "buffer_index p m")
    case None
    with g show ?thesis by simp
  next
    case (Some k)
    obtain built where built: "build_lsp_changes R (b_text (lm_buffers m ! k)) l = Some built"
      using build_lsp_changes_ok [OF assms, of "b_text (lm_buffers m ! k)" l] by (auto simp: Let_def split: if_splits)
    obtain r where r: "prepare_edits R m gs = Some r" "\<forall>ps. r = Inr ps \<longrightarrow>
      (distinct (map fst gs) \<longrightarrow> distinct (map fst ps))
      \<and> (\<forall>p l. (p, l) \<in> set gs \<longrightarrow> (\<exists>k cs. (k, cs) \<in> set ps \<and> buffer_index p m = Some k))
      \<and> (\<forall>k cs. (k, cs) \<in> set ps \<longrightarrow> (\<exists>p l. (p, l) \<in> set gs \<and> buffer_index p m = Some k
           \<and> build_lsp_changes R (b_text (lm_buffers m ! k)) l = Some (Inr cs)))" using Cons.IH by blast
    show ?thesis
    proof (cases built)
      case (Inl msg)
      with Some built g show ?thesis by simp
    next
      case (Inr cs)
      show ?thesis
      proof (cases r)
        case i: (Inl msg)
        with Some built g Inr r(1) show ?thesis by simp
      next
        case i: (Inr ps)
        note ih = r(2) [rule_format, OF i]
        have new: "k \<notin> fst ` set ps" if "p \<notin> fst ` set gs"
        proof
          assume "k \<in> fst ` set ps"
          then obtain q l' where "(q, l') \<in> set gs" "buffer_index q m = Some k" using ih by force
          then show False using buffer_index_path [of q m k] buffer_index_path [OF Some] that by force
        qed
        have "prepare_edits R m (g # gs) = Some (Inr ((k, cs) # ps))"
          using Some built g Inr r(1) i by simp
        moreover have "distinct (map fst (g # gs)) \<longrightarrow> distinct (map fst ((k, cs) # ps))"
          using ih new g by auto
        moreover have "\<forall>p l. (p, l) \<in> set (g # gs) \<longrightarrow> (\<exists>k' cs'. (k', cs') \<in> set ((k, cs) # ps) \<and> buffer_index p m = Some k')"
        proof (intro allI impI)
          fix q l' assume "(q, l') \<in> set (g # gs)"
          then consider "q = p" | "(q, l') \<in> set gs" using g by auto
          then show "\<exists>k' cs'. (k', cs') \<in> set ((k, cs) # ps) \<and> buffer_index q m = Some k'"
          proof cases
            case 2
            then obtain k' cs' where "(k', cs') \<in> set ps" "buffer_index q m = Some k'" using ih by blast
            then show ?thesis by (intro exI conjI) auto
          qed (use Some in auto)
        qed
        moreover have "\<forall>k' cs'. (k', cs') \<in> set ((k, cs) # ps) \<longrightarrow> (\<exists>p l. (p, l) \<in> set (g # gs) \<and> buffer_index p m = Some k'
           \<and> build_lsp_changes R (b_text (lm_buffers m ! k')) l = Some (Inr cs'))"
        proof (intro allI impI)
          fix k' cs' assume "(k', cs') \<in> set ((k, cs) # ps)"
          then consider "k' = k" "cs' = cs" | "(k', cs') \<in> set ps" by auto
          then show "\<exists>p l. (p, l) \<in> set (g # gs) \<and> buffer_index p m = Some k'
              \<and> build_lsp_changes R (b_text (lm_buffers m ! k')) l = Some (Inr cs')"
          proof cases
            case 1
            then show ?thesis using g Some built Inr by (intro exI [of _ p] exI [of _ l]) simp
          next
            case 2
            then obtain q l' where "(q, l') \<in> set gs" "buffer_index q m = Some k'"
              "build_lsp_changes R (b_text (lm_buffers m ! k')) l' = Some (Inr cs')" using ih by blast
            then show ?thesis by (intro exI [of _ q] exI [of _ l']) simp
          qed
        qed
        ultimately show ?thesis by blast
      qed
    qed
  qed
qed simp

text \<open>A pass over the documents only takes the pending changes and stale diagnostics of a buffer.\<close>

definition core :: "'r buffer \<Rightarrow> 'r buffer" where
  "core b = b\<lparr>b_pending := [], b_decorations := decs_new\<rparr>"

lemma core_drain [simp]: "core (snd (drain_buffer b)) = core b"
  by (simp add: core_def drain_buffer_def take_pending_changes_def)

text \<open>Nor does it touch the files being opened and the edit that waits for them.\<close>

definition passed :: "'r lsp_model \<Rightarrow> 'r lsp_model \<Rightarrow> bool" where
  "passed m m' \<longleftrightarrow> map core (lm_buffers m') = map core (lm_buffers m) \<and> lm_active m' = lm_active m
     \<and> lm_opening m' = lm_opening m \<and> lm_next_buffer m' = lm_next_buffer m
     \<and> lm_pending_edit m' = lm_pending_edit m \<and> lm_open_at m' = lm_open_at m"

lemma passed_trans: "passed m m1 \<Longrightarrow> passed m1 m2 \<Longrightarrow> passed m m2"
  by (simp add: passed_def)

lemma passed_updates [simp]:
  "passed m (send_to i rs m1) = passed m m1" "passed m (set_session i s m1) = passed m m1"
  "passed m (forget_diagnostics p m1) = passed m m1" "passed m m"
  by (simp_all add: passed_def send_to_def set_session_def forget_diagnostics_def)

lemma sync_index_passed:
  assumes "sync_index R k m = Some m'"
  shows "passed m m'"
proof -
  have claim: "passed m0 m2 = passed m0 m1" if "claim_server p m1 = Some (i, m2)" for p i and m0 m1 m2 :: "'a lsp_model"
    using that by (auto simp: claim_server_def passed_def send_to_def Let_def split: option.splits)
  have "map core ((lm_buffers m)[k := snd (drain_buffer (lm_buffers m ! k))]) = map core (lm_buffers m)"
    by (cases "k < length (lm_buffers m)") (simp_all add: map_update list_update_same_conv list_update_beyond)
  then have drain: "passed m (m\<lparr>lm_buffers := (lm_buffers m)[k := snd (drain_buffer (lm_buffers m ! k))]\<rparr>)"
    by (simp add: passed_def)
  show ?thesis
    using assms drain
    by (auto simp: sync_index_def case_prod_beta Let_def bind_eq_Some_iff claim split: option.splits if_splits)
qed

lemma sync_passed:
  assumes "sync_lsp_documents R m = Some m'"
  shows "passed m m'"
proof -
  have "sync_from R ks m = Some m' \<Longrightarrow> passed m m'" for ks
  proof (induction ks arbitrary: m)
    case (Cons k ks)
    then obtain m1 where "sync_index R k m = Some m1" "sync_from R ks m1 = Some m'" by (auto simp: bind_eq_Some_iff)
    with Cons.IH sync_index_passed show ?case by (blast intro: passed_trans)
  qed simp
  with assms show ?thesis by (simp add: sync_lsp_documents_def)
qed

lemma restore_frame [simp]: "lm_buffers (restore_active_buffer i m) = lm_buffers m"
  by (simp add: restore_active_buffer_def split: option.split)

text \<open>
  C19. When every file a workspace edit waits for is there, either no document changes at all, or every
  file of the edit is open and each document is its old text with exactly the edits of its path, as
  the protocol means them; no document ends up with some of its edits, and none without its own.
\<close>

theorem workspace_edit_is_atomic:
  assumes "rope_utf16 R" and "\<forall>b\<in>set (lm_buffers m). buffer_ok R b"
    and "lm_pending_edit m = Some pending" and "pw_waiting pending = []"
  shows "(\<exists>msg. finish_pending_workspace_edit R m = Some (notify msg
      (restore_active_buffer (pw_previous pending) (m\<lparr>lm_pending_edit := None\<rparr>))))
    \<or> (\<forall>e\<in>set (we_edits (pw_edit pending)). buffer_index (te_path e) m \<noteq> None)
      \<and> (\<exists>m2 msg. finish_pending_workspace_edit R m = map_option (notify msg) (sync_lsp_documents R m2)
          \<and> length (lm_buffers m2) = length (lm_buffers m)
          \<and> (\<forall>k<length (lm_buffers m). rope_chars R (b_text (lm_buffers m2 ! k))
               = server_edited R m (we_edits (pw_edit pending)) k))"
proof -
  let ?es = "we_edits (pw_edit pending)" and ?m1 = "m\<lparr>lm_pending_edit := None\<rparr>"
  let ?gs = "group_edits ?es []"
  have index: "buffer_index p ?m1 = buffer_index p m" for p by (simp add: buffer_index_def)
  obtain r where r: "prepare_edits R ?m1 ?gs = Some r"
    and ps: "\<And>ps. r = Inr ps \<Longrightarrow> (distinct (map fst ?gs) \<longrightarrow> distinct (map fst ps))
      \<and> (\<forall>p l. (p, l) \<in> set ?gs \<longrightarrow> (\<exists>k cs. (k, cs) \<in> set ps \<and> buffer_index p m = Some k))
      \<and> (\<forall>k cs. (k, cs) \<in> set ps \<longrightarrow> (\<exists>p l. (p, l) \<in> set ?gs \<and> buffer_index p m = Some k
           \<and> build_lsp_changes R (b_text (lm_buffers m ! k)) l = Some (Inr cs)))"
    using prepare_edits_ok [OF assms(1), of ?m1 ?gs] unfolding index by auto
  show ?thesis
  proof (cases r)
    case (Inl msg)
    with r assms(3,4) have "finish_pending_workspace_edit R m = Some (notify msg
        (restore_active_buffer (pw_previous pending) ?m1))" by (simp add: finish_pending_workspace_edit_def Let_def)
    then show ?thesis by blast
  next
    case (Inr ps')
    note prepared = ps [OF Inr]
    have rt: "rope_text R" using assms(1) by (simp add: rope_utf16_def rope_lines_def)
    have carries: "k < length (lm_buffers m) \<and> carries cs (rope_chars R (b_text (lm_buffers m ! k))) (server_edited R m ?es k)"
      if "(k, cs) \<in> set ps'" for k cs
    proof -
      obtain p l where p: "(p, l) \<in> set ?gs" "buffer_index p m = Some k"
        "build_lsp_changes R (b_text (lm_buffers m ! k)) l = Some (Inr cs)" using prepared \<open>(k, cs) \<in> set ps'\<close> by blast
      then have "l = file_edits p ?es" using groups_of_edits(2) by blast
      then show ?thesis
        using build_carries [OF assms(1) p(3)] buffer_index_path [OF p(2)] p(2)
        by (simp add: server_edited_def Let_def)
    qed
    have "distinct (map fst ps')" using prepared groups_of_edits(1) by blast
    moreover have "\<forall>(k, cs)\<in>set ps'. k < length (lm_buffers ?m1)
        \<and> carries cs (rope_chars R (b_text (lm_buffers ?m1 ! k))) (server_edited R m ?es k)"
      using carries by auto
    moreover have "\<forall>b\<in>set (lm_buffers ?m1). buffer_ok R b" using assms(2) by simp
    ultimately obtain m2 where m2: "apply_prepared R ps' ?m1 = Some (Inr (), m2)" "length (lm_buffers m2) = length (lm_buffers m)"
      "\<forall>k<length (lm_buffers m). rope_chars R (b_text (lm_buffers m2 ! k))
        = (if k \<in> fst ` set ps' then server_edited R m ?es k else rope_chars R (b_text (lm_buffers m ! k)))"
      using rope_text.apply_prepared_ok [OF rt, of ps' ?m1 "server_edited R m ?es"] by auto
    have "server_edited R m ?es k = rope_chars R (b_text (lm_buffers m ! k))" if "k \<notin> fst ` set ps'" for k
    proof -
      have "file_edits p ?es = []" if "buffer_index p m = Some k" for p
        using prepared groups_of_edits(2) [of p "file_edits p ?es" ?es] that \<open>k \<notin> fst ` set ps'\<close> by force
      then show ?thesis by (auto simp: server_edited_def Let_def split: option.split)
    qed
    then have "\<forall>k<length (lm_buffers m). rope_chars R (b_text (lm_buffers m2 ! k)) = server_edited R m ?es k"
      using m2(3) by auto
    moreover have "buffer_index (te_path e) m \<noteq> None" if "e \<in> set ?es" for e
    proof -
      have "file_edits (te_path e) ?es \<noteq> []" using that by (auto simp: file_edits_def filter_empty_conv)
      then show ?thesis using prepared groups_of_edits(2) by (metis option.distinct(1))
    qed
    moreover have "finish_pending_workspace_edit R m = map_option
        (notify (ustr ''Applied language-server edit to '' @ decimal (length ?gs)
          @ ustr (if length ?gs = 1 then '' file'' else '' files'')))
        (sync_lsp_documents R (restore_active_buffer (pw_previous pending) m2))"
      using r Inr m2(1) assms(3,4)
      by (cases "sync_lsp_documents R (restore_active_buffer (pw_previous pending) m2)")
        (simp_all add: finish_pending_workspace_edit_def Let_def)
    ultimately show ?thesis using m2(2) restore_frame by metis
  qed
qed

definition awaiting_model :: "utext lsp_model" where
  "awaiting_model = bare_model\<lparr>lm_buffers := [rust_buffer [97, 98]], lm_pending_edit := Some
     \<lparr>pw_edit = \<lparr>we_edits = [line_edit rust_file 0 1 [88]], we_versions = []\<rparr>, pw_waiting = [],
      pw_previous = None\<rparr>\<rparr>"

lemma workspace_edit_is_atomic_witness:
  "(\<exists>msg. finish_pending_workspace_edit list_rope awaiting_model
      = Some (notify msg (awaiting_model\<lparr>lm_pending_edit := None\<rparr>)))
   \<or> (\<exists>m2 msg. finish_pending_workspace_edit list_rope awaiting_model
        = map_option (notify msg) (sync_lsp_documents list_rope m2)
      \<and> length (lm_buffers m2) = 1 \<and> b_text (lm_buffers m2 ! 0) = [88, 98])"
proof -
  have "\<forall>b\<in>set (lm_buffers awaiting_model). buffer_ok list_rope b"
    by (simp add: awaiting_model_def buffer_ok_rust)
  from workspace_edit_is_atomic [OF list_rope.rope_utf16_axioms this, of
      "\<lparr>pw_edit = \<lparr>we_edits = [line_edit rust_file 0 1 [88]], we_versions = []\<rparr>, pw_waiting = [], pw_previous = None\<rparr>"]
  show ?thesis
    by (simp add: awaiting_model_def restore_active_buffer_def server_edited_def Let_def buffer_index_def
        file_edits_def line_edit_def edit_span_def offset_at_def offset_from_utf16_def list_line_def slice_def
        utf16_len_def)
qed

text \<open>
  The versions of the documents a workspace edit was computed for are looked at when the edit
  arrives only: once the files it waits for are there it is applied whatever those versions are, so
  also to a document that was edited meanwhile.
\<close>

theorem waiting_edit_ignores_versions:
  assumes "pw_waiting pending = []"
  shows "finish_pending_workspace_edit R (m\<lparr>lm_pending_edit := Some
      (pending\<lparr>pw_edit := (pw_edit pending)\<lparr>we_versions := versions\<rparr>\<rparr>)\<rparr>)
    = finish_pending_workspace_edit R (m\<lparr>lm_pending_edit := Some pending\<rparr>)"
  using assms by (simp add: finish_pending_workspace_edit_def cong: option.case_cong sum.case_cong)

lemma waiting_edit_ignores_versions_witness:
  "finish_pending_workspace_edit list_rope (awaiting_model\<lparr>lm_pending_edit := Some
     \<lparr>pw_edit = \<lparr>we_edits = [line_edit rust_file 0 1 [88]], we_versions = [(rust_file, 7)]\<rparr>, pw_waiting = [],
      pw_previous = None\<rparr>\<rparr>)
   = finish_pending_workspace_edit list_rope awaiting_model"
  using waiting_edit_ignores_versions [where pending = "\<lparr>pw_edit = \<lparr>we_edits = [line_edit rust_file 0 1 [88]], we_versions = []\<rparr>,
    pw_waiting = [], pw_previous = None\<rparr>" and versions = "[(rust_file, 7)]" and R = list_rope and m = awaiting_model]
  by (simp add: awaiting_model_def)

end
