(* ===== verification/App_Files_Claims.thy ===== *)
theory App_Files_Claims
  imports Lsp_Edits_Claims Lsp_Requests
begin

text \<open>
  What opening, reloading and closing files keep and lose: one buffer per file as long as no reload
  outlives its buffer; and what happens when one does, or when the file or the text has changed.
\<close>

section \<open>One buffer per file\<close>

text \<open>Buffers and reads under way have different ids and different files; ids come from the counter.\<close>

definition known_ids :: "'r lsp_model \<Rightarrow> buffer_id list" where
  "known_ids m = map b_id (lm_buffers m) @ map fst (lm_opening m)"

definition known_files :: "'r lsp_model \<Rightarrow> path list" where
  "known_files m = List.map_filter b_path (lm_buffers m) @ map snd (lm_opening m)"

definition files_apart :: "'r lsp_model \<Rightarrow> bool" where
  "files_apart m \<longleftrightarrow> distinct (known_ids m) \<and> distinct (known_files m)
     \<and> (\<forall>i\<in>set (known_ids m). i \<le> lm_next_buffer m)"

datatype 'r file_op =
    OpenFile path
  | OpenFileAt path nat nat
  | EditBuffer "'r buffer \<Rightarrow> ((edit_error + unit) \<times> 'r buffer) option"
  | FileArrives buffer_id path bytes
  | FileFails buffer_id fs_error
  | FilesChange "path list"
  | WorkspaceEdit workspace_edit
  | CloseFile buffer_id

fun file_step :: "'r rope_api \<Rightarrow> 'r file_op \<Rightarrow> 'r lsp_model \<Rightarrow> 'r lsp_model option" where
  "file_step R (OpenFile p) m = Some (open_file p m)"
| "file_step R (OpenFileAt p line column) m = open_file_at R p line column m"
| "file_step R (EditBuffer f) m = edit_active R f m"
| "file_step R (FileArrives i p bs) m = on_file_loaded R i p bs m"
| "file_step R (FileFails i e) m = Some (on_file_failed i e m)"
| "file_step R (FilesChange ps) m = Some (reload_changed_buffers ps m)"
| "file_step R (WorkspaceEdit ed) m = apply_workspace_edit R ed m"
| "file_step R (CloseFile i) m = Some (discard_buffer i m)"

text \<open>
  A file arrives in answer to a read the editor asked for: under an id it has given out, and if that
  id is still in use, for its file.  An edit of a buffer leaves it its id and its file.
\<close>

definition file_allowed :: "'r file_op \<Rightarrow> 'r lsp_model \<Rightarrow> bool" where
  "file_allowed op m \<longleftrightarrow>
     (case op of
        FileArrives i p _ \<Rightarrow> i \<le> lm_next_buffer m \<and> (i \<in> set (known_ids m) \<longrightarrow>
          (i, p) \<in> set (lm_opening m) \<or> (\<exists>b\<in>set (lm_buffers m). b_id b = i \<and> b_path b = Some p))
      | EditBuffer f \<Rightarrow> \<forall>b r b'. f b = Some (r, b') \<longrightarrow> b_id b' = b_id b \<and> b_path b' = b_path b
      | _ \<Rightarrow> True)"

text \<open>
  The answer to a reload comes late: its buffer was closed, and the file has been opened or asked for
  again under another id.
\<close>

definition reopened_meanwhile :: "'r file_op \<Rightarrow> 'r lsp_model \<Rightarrow> bool" where
  "reopened_meanwhile op m \<longleftrightarrow>
     (case op of
        FileArrives i p bs \<Rightarrow> i \<notin> set (known_ids m) \<and> p \<in> set (known_files m) \<and> utf8_decode bs \<noteq> None
      | _ \<Rightarrow> False)"

text \<open>Most steps keep the ids and files of the buffers, the reads and the counter.\<close>

definition same_files :: "'r lsp_model \<Rightarrow> 'r lsp_model \<Rightarrow> bool" where
  "same_files m m' \<longleftrightarrow> map b_id (lm_buffers m') = map b_id (lm_buffers m)
     \<and> map b_path (lm_buffers m') = map b_path (lm_buffers m)
     \<and> lm_opening m' = lm_opening m \<and> lm_next_buffer m' = lm_next_buffer m"

lemma same_files_refl [simp]: "same_files m m"
  by (simp add: same_files_def)

lemma same_files_trans: "same_files m m1 \<Longrightarrow> same_files m1 m2 \<Longrightarrow> same_files m m2"
  by (simp add: same_files_def)

lemma map_filter_id: "List.map_filter f xs = List.map_filter id (map f xs)"
  by (simp add: map_filter_def comp_def filter_map)

lemma same_files_apart: "same_files m m' \<Longrightarrow> files_apart m \<Longrightarrow> files_apart m'"
  unfolding files_apart_def known_ids_def known_files_def same_files_def
  by (simp add: map_filter_id [of b_path])

lemma map_id_core: "map b_id (map core bs) = map b_id bs" "map b_path (map core bs) = map b_path bs"
  by (simp_all add: core_def comp_def)

lemma passed_files: "passed m m' \<Longrightarrow> same_files m m'"
  unfolding passed_def same_files_def using map_id_core by metis

lemma sync_files: "sync_lsp_documents R m = Some m' \<Longrightarrow> same_files m m'"
  using sync_passed passed_files by blast

lemma same_files_frame [simp]:
  "same_files m (notify t m1) = same_files m m1" "same_files m (restore_active_buffer i m1) = same_files m m1"
  "same_files m (arrived j m1) = same_files m m1" "same_files m (close_lsp_document p m1) = same_files m m1"
  "same_files m (m1\<lparr>lm_pending_edit := pe\<rparr>) = same_files m m1" "same_files m (m1\<lparr>lm_active := act\<rparr>) = same_files m m1"
  "same_files m (m1\<lparr>lm_open_at := loc\<rparr>) = same_files m m1" "same_files m (m1\<lparr>lm_fs_outbox := rs\<rparr>) = same_files m m1"
  "same_files m (abandon_pending_workspace_edit t m1) = same_files m m1"
  by (simp_all add: same_files_def notify_def restore_active_buffer_def arrived_def close_lsp_document_def
      forget_diagnostics_def send_to_def set_session_def abandon_pending_workspace_edit_def Let_def
      split: option.split)

lemma close_frame [simp]:
  "lm_buffers (close_lsp_document p m) = lm_buffers m" "lm_opening (close_lsp_document p m) = lm_opening m"
  "lm_next_buffer (close_lsp_document p m) = lm_next_buffer m"
  by (simp_all add: close_lsp_document_def forget_diagnostics_def send_to_def set_session_def Let_def
      split: option.split)

lemma same_files_update:
  assumes "b_id b = b_id (lm_buffers m ! k)" "b_path b = b_path (lm_buffers m ! k)"
  shows "same_files m (m\<lparr>lm_buffers := (lm_buffers m)[k := b]\<rparr>)"
  using assms by (cases "k < length (lm_buffers m)") (simp_all add: same_files_def map_update list_update_same_conv list_update_beyond)

lemma same_files_closed:
  assumes "b_id b = b_id (lm_buffers m ! k)" "b_path b = b_path (lm_buffers m ! k)"
  shows "same_files m ((close_lsp_document p m)\<lparr>lm_buffers := (lm_buffers m)[k := b]\<rparr>)"
  using same_files_update [OF assms] by (simp add: same_files_def)

lemma buffer_apply_ids: "buffer_apply R tx b = Some (r, b') \<Longrightarrow> b_id b' = b_id b \<and> b_path b' = b_path b"
  by (auto simp: buffer_apply_def bind_eq_Some_iff split: if_splits)

lemma scroll_ids: "scroll_to_cursor R h b = Some b' \<Longrightarrow> b_id b' = b_id b \<and> b_path b' = b_path b"
  by (auto simp: scroll_to_cursor_def bind_eq_Some_iff Let_def split: if_splits)

lemma lsp_changes_files: "apply_lsp_changes R k cs m = Some (r, m') \<Longrightarrow> same_files m m'"
  by (auto simp: apply_lsp_changes_def transaction_def case_prod_beta bind_eq_Some_iff
      dest!: buffer_apply_ids intro!: same_files_update)

lemma prepared_files: "apply_prepared R ps m = Some (r, m') \<Longrightarrow> same_files m m'"
proof (induction ps arbitrary: m)
  case (Cons x ps)
  obtain k cs where x: "x = (k, cs)" by (cases x)
  with Cons.prems obtain r1 m1 where one: "apply_lsp_changes R k cs m = Some (r1, m1)"
    "(case r1 of Inl e \<Rightarrow> Some (Inl e, m1) | Inr _ \<Rightarrow> apply_prepared R ps m1) = Some (r, m')"
    by (auto simp: bind_eq_Some_iff)
  from lsp_changes_files [OF one(1)] one(2) Cons.IH show ?case
    by (cases r1) (auto intro: same_files_trans)
qed simp

lemma finish_files:
  assumes "finish_pending_workspace_edit R m = Some m'"
  shows "same_files m m'"
proof (cases "\<exists>pending. lm_pending_edit m = Some pending \<and> pw_waiting pending = []")
  case False
  with assms show ?thesis by (auto simp: finish_pending_workspace_edit_def split: option.splits)
next
  case True
  then obtain pending where p: "lm_pending_edit m = Some pending" "pw_waiting pending = []" by blast
  let ?m = "m\<lparr>lm_pending_edit := None\<rparr>" and ?gs = "group_edits (we_edits (pw_edit pending)) []"
  obtain r where r: "prepare_edits R ?m ?gs = Some r"
    using assms p by (auto simp: finish_pending_workspace_edit_def Let_def bind_eq_Some_iff)
  show ?thesis
  proof (cases r)
    case (Inl msg)
    with assms p r show ?thesis by (auto simp: finish_pending_workspace_edit_def Let_def)
  next
    case (Inr ps)
    obtain q m2 where q: "apply_prepared R ps ?m = Some (q, m2)"
      using assms p r Inr by (auto simp: finish_pending_workspace_edit_def Let_def bind_eq_Some_iff)
    have m2: "same_files m m2" using prepared_files [OF q] by (simp add: same_files_def)
    show ?thesis
    proof (cases q)
      case i: (Inl e)
      with assms p r Inr q m2 show ?thesis by (auto simp: finish_pending_workspace_edit_def Let_def)
    next
      case i: (Inr u)
      then obtain m3 msg where "sync_lsp_documents R (restore_active_buffer (pw_previous pending) m2) = Some m3"
        "m' = notify msg m3"
        using assms p r Inr q by (auto simp: finish_pending_workspace_edit_def Let_def bind_eq_Some_iff)
      moreover from this(1) have "same_files m2 m3"
        using sync_files by (fastforce simp: same_files_def restore_active_buffer_def split: option.splits)
      ultimately show ?thesis using same_files_trans [OF m2] by simp
    qed
  qed
qed

text \<open>A new read takes a fresh id for a file that is not known.\<close>

lemma open_new_apart:
  assumes "files_apart m" "p \<notin> set (known_files m)"
  shows "files_apart (m\<lparr>lm_next_buffer := lm_next_buffer m + 1,
    lm_opening := lm_opening m @ [(lm_next_buffer m + 1, p)], lm_fs_outbox := rs\<rparr>)"
proof -
  have "lm_next_buffer m + 1 \<notin> set (known_ids m)" using assms(1) by (force simp: files_apart_def)
  moreover have "known_ids (m\<lparr>lm_next_buffer := lm_next_buffer m + 1,
      lm_opening := lm_opening m @ [(lm_next_buffer m + 1, p)], lm_fs_outbox := rs\<rparr>) = known_ids m @ [lm_next_buffer m + 1]"
    "known_files (m\<lparr>lm_next_buffer := lm_next_buffer m + 1,
      lm_opening := lm_opening m @ [(lm_next_buffer m + 1, p)], lm_fs_outbox := rs\<rparr>) = known_files m @ [p]"
    by (simp_all add: known_ids_def known_files_def)
  ultimately show ?thesis using assms unfolding files_apart_def by auto
qed

lemma buffer_index_None: "buffer_index p m = None \<longleftrightarrow> p \<notin> set (List.map_filter b_path (lm_buffers m))"
proof -
  have "find_position (\<lambda>b. b_path b = Some p) bs = None \<longleftrightarrow> p \<notin> set (List.map_filter b_path bs)" for bs
    by (induction bs) (auto simp: List.map_filter_simps split: option.splits)
  then show ?thesis by (simp add: buffer_index_def)
qed

lemma open_file_apart:
  assumes "files_apart m"
  shows "files_apart (open_file p m)"
proof (cases "p \<in> set (known_files m)")
  case True
  have "same_files m (open_file p m)"
  proof (cases "buffer_index p m")
    case None
    then have "list_ex (\<lambda>(_, q). q = p) (lm_opening m)"
      using True buffer_index_None [of p m] by (auto simp: known_files_def list_ex_iff)
    with None show ?thesis by (simp add: open_file_def)
  qed (simp add: open_file_def)
  with assms show ?thesis by (rule same_files_apart [rotated])
next
  case False
  then have "buffer_index p m = None" "\<not> list_ex (\<lambda>(_, q). q = p) (lm_opening m)"
    by (force simp: known_files_def buffer_index_None list_ex_iff)+
  with open_new_apart [OF assms False] show ?thesis by (simp add: open_file_def Let_def)
qed

lemma find_None_iff2: "find P xs = None \<longleftrightarrow> (\<forall>x\<in>set xs. \<not> P x)"
  by (auto simp: find_None_iff)

lemma open_targets_apart:
  "files_apart m \<Longrightarrow> files_apart (fst (open_targets ps m w))"
proof (induction ps arbitrary: m w)
  case (Cons p ps)
  show ?case
  proof (cases "buffer_index p m = None \<and> find (\<lambda>(_, q). q = p) (lm_opening m) = None")
    case True
    then have "p \<notin> set (known_files m)" by (force simp: known_files_def buffer_index_None find_None_iff2)
    from Cons.IH [OF open_new_apart [OF Cons.prems this]] True show ?thesis by (simp add: Let_def)
  next
    case False
    with Cons show ?thesis by (auto split: option.splits)
  qed
qed simp

lemma position_files: "position_open_buffer R p l c m = Some (found, m') \<Longrightarrow> same_files m m'"
  by (auto simp: position_open_buffer_def bind_eq_Some_iff Let_def set_selection_def
      split: option.splits prod.splits dest!: scroll_ids intro!: same_files_update)

text \<open>A read that ends leaves the table; a buffer that closes leaves the list.\<close>

lemma files_apart_sub:
  assumes "files_apart m" "lm_next_buffer m' = lm_next_buffer m" "lm_opening m' = filter P (lm_opening m)"
    "lm_buffers m = a @ b @ c" "map b_id (lm_buffers m') = map b_id (a @ c)"
    "map b_path (lm_buffers m') = map b_path (a @ c)"
  shows "files_apart m'"
proof -
  have files: "List.map_filter b_path (lm_buffers m') = List.map_filter b_path (a @ c)"
    using assms(6) by (simp add: map_filter_id [of b_path])
  have split: "List.map_filter b_path (xs @ ys) = List.map_filter b_path xs @ List.map_filter b_path ys" for xs ys :: "'a buffer list"
    by (simp add: map_filter_def)
  show ?thesis
    using assms(1-5) unfolding files_apart_def known_ids_def known_files_def files split assms(5)
    by (auto simp: split distinct_map_filter intro: distinct_map_filter)
qed

text \<open>The file of a read under way becomes a buffer.\<close>

lemma files_apart_arrive:
  assumes "files_apart m" "(i, p) \<in> set (lm_opening m)" "b_id b = i" "b_path b = Some p"
    "lm_buffers m' = lm_buffers m @ [b]" "lm_opening m' = filter (\<lambda>(j, _). j \<noteq> i) (lm_opening m)"
    "lm_next_buffer m' = lm_next_buffer m"
  shows "files_apart m'"
proof -
  obtain u v where uv: "lm_opening m = u @ (i, p) # v" using assms(2) by (meson split_list)
  have "i \<notin> fst ` set u \<union> fst ` set v" using assms(1) uv by (auto simp: files_apart_def known_ids_def)
  then have "filter (\<lambda>(j, _). j \<noteq> i) u = u" "filter (\<lambda>(j, _). j \<noteq> i) v = v" by (force simp: filter_id_conv)+
  then have "lm_opening m' = u @ v" using assms(6) uv by simp
  then show ?thesis
    using assms(1,3,4,5,7) uv
    by (auto simp: files_apart_def known_ids_def known_files_def map_filter_def)
qed

text \<open>A file that nobody waits for any more becomes a buffer under its old id.\<close>

lemma files_apart_late:
  assumes "files_apart m" "i \<notin> set (known_ids m)" "i \<le> lm_next_buffer m" "b_id b = i" "b_path b = Some p"
    "lm_buffers m' = lm_buffers m @ [b]" "lm_opening m' = lm_opening m" "lm_next_buffer m' = lm_next_buffer m"
  shows "files_apart m' \<longleftrightarrow> p \<notin> set (known_files m)"
  using assms by (auto simp: files_apart_def known_ids_def known_files_def map_filter_def)

lemma same_files_iff: "same_files m m' \<Longrightarrow> files_apart m' \<longleftrightarrow> files_apart m"
  using same_files_apart [of m m'] same_files_apart [of m' m] by (auto simp: same_files_def)

lemma find_position_None_iff: "find_position P xs = None \<longleftrightarrow> (\<forall>x\<in>set xs. \<not> P x)"
  by (induction xs) auto

lemma arrives_apart:
  assumes "files_apart m" "file_allowed (FileArrives i p bs) m" "on_file_loaded R i p bs m = Some m'"
  shows "files_apart m' \<longleftrightarrow> \<not> reopened_meanwhile (FileArrives i p bs) m"
proof -
  let ?m1 = "m\<lparr>lm_opening := filter (\<lambda>(j, _). j \<noteq> i) (lm_opening m)\<rparr>"
  have m1: "files_apart ?m1"
    by (rule files_apart_sub [OF assms(1), of _ "\<lambda>(j, _). j \<noteq> i" "lm_buffers m" "[]" "[]"]) simp_all
  show ?thesis
  proof (cases "utf8_decode bs")
    case None
    with assms(3) m1 have "files_apart m'"
      by (auto simp: on_file_loaded_def Let_def intro: same_files_apart [OF _ m1] split: if_splits)
    with None show ?thesis by (simp add: reopened_meanwhile_def)
  next
    case t: (Some t)
    show ?thesis
    proof (cases "find_position (\<lambda>b. b_id b = i) (lm_buffers m)")
      case None
      let ?m2 = "?m1\<lparr>lm_buffers := lm_buffers m @ [buffer_from_text R i (Some p) t], lm_active := Some (length (lm_buffers m))\<rparr>"
      have "files_apart ?m2 \<longleftrightarrow> \<not> reopened_meanwhile (FileArrives i p bs) m"
      proof (cases "i \<in> set (known_ids m)")
        case True
        then have open_read: "(i, p) \<in> set (lm_opening m)"
          using assms(2) None by (auto simp: file_allowed_def find_position_None_iff)
        have "files_apart ?m2"
          by (rule files_apart_arrive [OF assms(1) open_read]) (simp_all add: buffer_from_text_def)
        with True show ?thesis by (simp add: reopened_meanwhile_def)
      next
        case False
        then have "filter (\<lambda>(j, _). j \<noteq> i) (lm_opening m) = lm_opening m"
          by (force simp: known_ids_def filter_id_conv)
        then have "files_apart ?m2 \<longleftrightarrow> p \<notin> set (known_files m)"
          using assms(2) by (intro files_apart_late [OF assms(1) False]) (simp_all add: buffer_from_text_def file_allowed_def)
        with False t show ?thesis by (simp add: reopened_meanwhile_def)
      qed
      moreover have "same_files ?m2 m'"
      proof -
        obtain m3 m4 where m3: "(case lm_open_at ?m2 of None \<Rightarrow> Some ?m2
            | Some (q, line, column) \<Rightarrow>
                if q = p then map_option snd (position_open_buffer R p line column (?m2\<lparr>lm_open_at := None\<rparr>))
                else Some ?m2) = Some m3"
          and m4: "sync_lsp_documents R m3 = Some m4" "finish_pending_workspace_edit R (arrived i m4) = Some m'"
          using assms(3) None t by (auto simp: on_file_loaded_def Let_def bind_eq_Some_iff)
        have "same_files ?m2 m3"
          using m3 by (auto split: option.splits if_splits dest!: position_files) (simp_all add: same_files_def)
        moreover have "same_files m3 m4" using sync_files [OF m4(1)] .
        moreover have "same_files m4 m'" using finish_files [OF m4(2)] by (simp add: same_files_def arrived_def split: option.splits)
        ultimately show ?thesis by (blast intro: same_files_trans)
      qed
      ultimately show ?thesis using same_files_iff by blast
    next
      case (Some k)
      then have k: "k < length (lm_buffers m)" "b_id (lm_buffers m ! k) = i" using find_position_first by fastforce+
      have known: "i \<in> set (known_ids m)" using k by (auto simp: known_ids_def)
      have "b_path (lm_buffers m ! k) = Some p"
      proof -
        have d: "distinct (map b_id (lm_buffers m))" "i \<notin> fst ` set (lm_opening m)"
          using assms(1) k by (auto simp: files_apart_def known_ids_def dest: nth_mem)
        then obtain b where "b \<in> set (lm_buffers m)" "b_id b = i" "b_path b = Some p"
          using assms(2) known by (force simp: file_allowed_def)
        then show ?thesis using d(1) k by (metis distinct_map inj_onD nth_mem)
      qed
      then have "same_files ?m1 (reload_buffer R k i p t ?m1)"
        using k(2) same_files_closed [of "set_selection (b_selection (lm_buffers m ! k)) (buffer_from_text R i (Some p) t)" ?m1 k p]
        by (simp add: reload_buffer_def Let_def set_selection_def buffer_from_text_def)
      moreover obtain m2 where m2: "sync_lsp_documents R (reload_buffer R k i p t ?m1) = Some m2"
        "finish_pending_workspace_edit R (arrived i m2) = Some m'"
        using assms(3) Some t by (auto simp: on_file_loaded_def Let_def bind_eq_Some_iff)
      moreover have "same_files m2 m'" using finish_files [OF m2(2)] by (simp add: same_files_def arrived_def split: option.splits)
      ultimately have "same_files ?m1 m'" using sync_files [OF m2(1)] by (blast intro: same_files_trans)
      from same_files_apart [OF this m1] known show ?thesis by (simp add: reopened_meanwhile_def)
    qed
  qed
qed

lemma stale_files: "stale_buffers ps m = (xs, m') \<Longrightarrow> same_files m m'"
proof (induction ps arbitrary: m xs m')
  case (Cons p ps)
  then show ?case
    by (auto split: option.splits if_splits prod.splits dest: Cons.IH)
       (use Cons.IH in \<open>force simp: same_files_def notify_def\<close>)
qed simp

lemma edit_files:
  assumes "edit_active R f m = Some m'" "file_allowed (EditBuffer f) m"
  shows "same_files m m'"
proof (cases "\<exists>k. lm_active m = Some k \<and> k < length (lm_buffers m)")
  case False
  with assms(1) show ?thesis by (auto simp: edit_active_def not_less split: option.splits if_splits)
next
  case True
  then obtain k where k: "lm_active m = Some k" "k < length (lm_buffers m)" by blast
  obtain r b b' where "f (lm_buffers m ! k) = Some (r, b)"
    "scroll_to_cursor R (lm_editor_height m) b = Some b'"
    and m': "m' = (case r of Inl e \<Rightarrow> notify (edit_error_fmt e) (m\<lparr>lm_buffers := (lm_buffers m)[k := b']\<rparr>)
       | Inr _ \<Rightarrow> m\<lparr>lm_buffers := (lm_buffers m)[k := b']\<rparr>)"
    using assms(1) k by (auto simp: edit_active_def bind_eq_Some_iff Let_def)
  then have "b_id b' = b_id (lm_buffers m ! k)" "b_path b' = b_path (lm_buffers m ! k)"
    using assms(2) by (auto simp: file_allowed_def dest!: scroll_ids)
  from same_files_update [OF this] show ?thesis unfolding m' by (cases r) simp_all
qed

lemma discard_apart:
  assumes "files_apart m"
  shows "files_apart (discard_buffer i m)"
proof (cases "find_position (\<lambda>b. b_id b = i) (lm_buffers m)")
  case None
  with assms show ?thesis by (simp add: discard_buffer_def)
next
  case (Some k)
  then have k: "k < length (lm_buffers m)" using find_position_first by fastforce
  let ?m = "discard_buffer i m"
  have "lm_buffers ?m = take k (lm_buffers m) @ drop (Suc k) (lm_buffers m)"
    "lm_opening ?m = lm_opening m" "lm_next_buffer ?m = lm_next_buffer m"
    using Some by (auto simp: discard_buffer_def Let_def split: option.split)
  then show ?thesis
    by (intro files_apart_sub [OF assms, of _ "\<lambda>_. True" "take k (lm_buffers m)" "[lm_buffers m ! k]" "drop (Suc k) (lm_buffers m)"])
       (use k in \<open>simp_all add: id_take_nth_drop [symmetric]\<close>)
qed

lemma workspace_apart:
  assumes "files_apart m" "apply_workspace_edit R ed m = Some m'"
  shows "files_apart m'"
proof (cases "\<exists>t. m' = notify t m")
  case True
  with same_files_apart [OF _ assms(1), of m'] show ?thesis by auto
next
  case False
  then obtain ps w m1 pe where one: "open_targets ps m [] = (m1, w)"
    "finish_pending_workspace_edit R (m1\<lparr>lm_pending_edit := pe\<rparr>) = Some m'"
    using assms(2) by (auto simp: apply_workspace_edit_def Let_def split: if_splits option.splits prod.splits)
  have "files_apart m1" using open_targets_apart [OF assms(1), of ps "[]"] one(1) by simp
  then have "files_apart (m1\<lparr>lm_pending_edit := pe\<rparr>)" by (rule same_files_apart [rotated]) simp
  with finish_files [OF one(2)] show ?thesis by (rule same_files_apart)
qed

text \<open>
  C21. Every file is open in at most one buffer or being read once, and ids are never reused: opening,
  editing, reading, reloading, workspace edits and closing keep it, with one exception, which always
  breaks it.  The answer to a reload whose buffer was closed meanwhile opens the file again under the old
  id; if the file has been opened or asked for once more by then, it stands in two tabs
  (\<open>file_opens_twice\<close> runs into it).
\<close>

theorem one_buffer_per_file:
  assumes "files_apart m" "file_allowed op m" "file_step R op m = Some m'"
  shows "files_apart m' \<longleftrightarrow> \<not> reopened_meanwhile op m"
proof (cases op)
  case (OpenFileAt p l c)
  then obtain found m1 where one: "position_open_buffer R p l c m = Some (found, m1)"
    "m' = (if found then m1 else open_file p (m1\<lparr>lm_open_at := Some (p, l, c)\<rparr>))"
    using assms(3) by (auto simp: open_file_at_def bind_eq_Some_iff)
  have "files_apart m1" "files_apart (m1\<lparr>lm_open_at := Some (p, l, c)\<rparr>)"
    using same_files_apart [OF position_files [OF one(1)] assms(1)] by (auto intro: same_files_apart [rotated])
  with one(2) open_file_apart have "files_apart m'" by auto
  with OpenFileAt show ?thesis by (simp add: reopened_meanwhile_def)
next
  case (FileFails i e)
  have "files_apart (m\<lparr>lm_opening := filter (\<lambda>(j, _). j \<noteq> i) (lm_opening m)\<rparr>)"
    by (rule files_apart_sub [OF assms(1), of _ "\<lambda>(j, _). j \<noteq> i" "lm_buffers m" "[]" "[]"]) simp_all
  then have "files_apart m'"
    using assms(3) FileFails by (auto simp: on_file_failed_def Let_def intro: same_files_apart [rotated])
  with FileFails show ?thesis by (simp add: reopened_meanwhile_def)
next
  case (FilesChange ps)
  obtain xs m1 where "stale_buffers ps m = (xs, m1)" by fastforce
  with stale_files [OF this] assms(1,3) FilesChange have "files_apart m'"
    by (auto simp: reload_changed_buffers_def intro: same_files_apart)
  with FilesChange show ?thesis by (simp add: reopened_meanwhile_def)
next
  case (FileArrives i p bs)
  with arrives_apart [of m i p bs R m'] assms show ?thesis by simp
next
  case (EditBuffer f)
  with assms same_files_apart [OF edit_files] show ?thesis by (auto simp: reopened_meanwhile_def)
next
  case (OpenFile p)
  with assms open_file_apart show ?thesis by (auto simp: reopened_meanwhile_def)
next
  case (WorkspaceEdit ed)
  with assms workspace_apart show ?thesis by (auto simp: reopened_meanwhile_def)
next
  case (CloseFile i)
  with assms discard_apart show ?thesis by (auto simp: reopened_meanwhile_def)
qed

definition quiet_model :: "utext \<Rightarrow> utext lsp_model" where
  "quiet_model t = bare_model\<lparr>lm_lsp := \<lparr>ls_configured = [], ls_sessions = [], ls_diagnostics = Map.empty\<rparr>,
     lm_buffers := [rust_buffer t], lm_active := Some 0, lm_next_buffer := 1\<rparr>"

lemma files_apart_quiet: "files_apart (quiet_model t)"
  by (simp add: files_apart_def known_ids_def known_files_def quiet_model_def bare_model_def map_filter_def)

lemma one_buffer_per_file_witness:
  "files_apart (open_file rust_file (quiet_model [97])) \<and> files_apart (discard_buffer 1 (quiet_model [97]))"
  using one_buffer_per_file [OF files_apart_quiet [of "[97]"], of "OpenFile rust_file" list_rope]
    one_buffer_per_file [OF files_apart_quiet [of "[97]"], of "CloseFile 1" list_rope]
  by (simp add: file_allowed_def reopened_meanwhile_def)

section \<open>Reloads\<close>

lemma reload_core:
  assumes "find_position (\<lambda>b. b_id b = i) (lm_buffers m) = Some k" "utf8_decode bs = Some t"
    "lm_pending_edit m = None" "on_file_loaded R i p bs m = Some m'"
  shows "core (lm_buffers m' ! k)
      = core (set_selection (b_selection (lm_buffers m ! k)) (buffer_from_text R i (Some p) t))"
    "lm_active m' = lm_active m" "length (lm_buffers m') = length (lm_buffers m)"
    "k < length (lm_buffers m)"
proof -
  let ?m1 = "m\<lparr>lm_opening := filter (\<lambda>(j, _). j \<noteq> i) (lm_opening m)\<rparr>"
  let ?m2 = "reload_buffer R k i p t ?m1"
  show k: "k < length (lm_buffers m)" using find_position_first [OF assms(1)] by simp
  obtain m3 where m3: "sync_lsp_documents R ?m2 = Some m3" "finish_pending_workspace_edit R (arrived i m3) = Some m'"
    using assms by (auto simp: on_file_loaded_def Let_def bind_eq_Some_iff)
  have frame: "lm_pending_edit ?m2 = None" "lm_active ?m2 = lm_active m"
    "lm_buffers ?m2 = (lm_buffers m)[k := set_selection (b_selection (lm_buffers m ! k)) (buffer_from_text R i (Some p) t)]"
    using assms(3) by (auto simp: reload_buffer_def Let_def close_lsp_document_def forget_diagnostics_def
        send_to_def set_session_def split: option.split)
  have p: "passed ?m2 m3" using sync_passed [OF m3(1)] .
  with frame m3(2) have m': "m' = m3"
    by (simp add: passed_def arrived_def finish_pending_workspace_edit_def)
  show "lm_active m' = lm_active m" using p frame m' by (simp add: passed_def)
  have "map core (lm_buffers m') = map core (lm_buffers ?m2)" using p m' by (simp add: passed_def)
  then show len: "length (lm_buffers m') = length (lm_buffers m)"
    by (metis frame(3) length_list_update length_map)
  show "core (lm_buffers m' ! k)
      = core (set_selection (b_selection (lm_buffers m ! k)) (buffer_from_text R i (Some p) t))"
    using k len \<open>map core (lm_buffers m') = map core (lm_buffers ?m2)\<close> frame(3)
    by (metis length_list_update nth_list_update_eq nth_map)
qed

text \<open>
  C22. A file that arrives for an open buffer replaces whatever the buffer holds and marks it clean,
  also what was typed since the read was asked for; dirtiness is looked at before the read only.
\<close>

theorem reload_discards_edits:
  assumes "rope_text R" "find_position (\<lambda>b. b_id b = i) (lm_buffers m) = Some k"
    "utf8_decode bs = Some t" "lm_pending_edit m = None" "on_file_loaded R i p bs m = Some m'"
  shows "rope_chars R (b_text (lm_buffers m' ! k)) = crlf_to_lf t \<and> \<not> is_dirty (lm_buffers m' ! k)"
proof -
  let ?b = "lm_buffers m' ! k" and ?b' = "set_selection (b_selection (lm_buffers m ! k)) (buffer_from_text R i (Some p) t)"
  have "core ?b = core ?b'" by (rule reload_core [OF assms(2-5)])
  then have "b_text (core ?b) = b_text (core ?b')" "b_version (core ?b) = b_version (core ?b')"
    "b_saved_version (core ?b) = b_saved_version (core ?b')" by simp_all
  then show ?thesis
    by (simp add: core_def set_selection_def buffer_from_text_def is_dirty_def rope_text.chars_of [OF assms(1)])
qed

text \<open>
  C23. The reload keeps the cursor: when the file on disk is shorter than where it stands, the next
  character typed panics.
\<close>

theorem reload_then_typing_panics:
  assumes "rope_text R" "lm_active m = Some k" "find_position (\<lambda>b. b_id b = i) (lm_buffers m) = Some k"
    "utf8_decode bs = Some t" "lm_pending_edit m = None" "on_file_loaded R i p bs m = Some m'"
    "selection_primary (b_selection (lm_buffers m ! k)) = Some r" "length (crlf_to_lf t) < range_end r"
  shows "type_char R c m' = None"
proof -
  let ?b = "lm_buffers m' ! k" and ?b' = "set_selection (b_selection (lm_buffers m ! k)) (buffer_from_text R i (Some p) t)"
  note c = reload_core [OF assms(3-6)]
  then have "b_text (core ?b) = b_text (core ?b')" "b_selection (core ?b) = b_selection (core ?b')" by simp_all
  then have b: "b_text ?b = rope_of R (crlf_to_lf t)" "b_selection ?b = b_selection (lm_buffers m ! k)"
    by (simp_all add: core_def set_selection_def buffer_from_text_def)
  have "buffer_insert R [c] Keyboard ?b = None"
    using assms(7,8) b by (simp add: buffer_insert_def edit_def cs_replace_panics
        rope_text.len_chars [OF assms(1)] rope_text.chars_of [OF assms(1)])
  then show ?thesis using c(2-4) assms(2) by (simp add: type_char_def edit_active_def)
qed

text \<open>A file is found unchanged and read again; a character is typed before its contents arrive.\<close>

definition typed_model :: "utext lsp_model" where
  "typed_model = the (type_char list_rope 98 (reload_changed_buffers [rust_file] (quiet_model [97])))"

lemma typed_model: "lm_fs_outbox typed_model = [FsReadFile 1 rust_file]
    \<and> b_text (lm_buffers typed_model ! 0) = [98, 97] \<and> is_dirty (lm_buffers typed_model ! 0)
    \<and> lm_pending_edit typed_model = None \<and> map b_id (lm_buffers typed_model) = [1]
    \<and> on_file_loaded list_rope 1 rust_file [97] typed_model \<noteq> None"
  by code_simp

lemma reload_discards_edits_witness:
  "\<exists>m'. on_file_loaded list_rope 1 rust_file [97] typed_model = Some m'
     \<and> b_text (lm_buffers typed_model ! 0) = [98, 97] \<and> is_dirty (lm_buffers typed_model ! 0)
     \<and> b_text (lm_buffers m' ! 0) = [97] \<and> \<not> is_dirty (lm_buffers m' ! 0)"
proof -
  obtain m' where m': "on_file_loaded list_rope 1 rust_file [97] typed_model = Some m'"
    using typed_model by blast
  have one: "find_position (\<lambda>b. b_id b = 1) (lm_buffers typed_model) = Some 0"
    using typed_model by (cases "lm_buffers typed_model") auto
  have "utf8_decode [97] = Some [97]" "crlf_to_lf [97] = [97]" by code_simp+
  with reload_discards_edits [OF list_rope.rope_text_axioms one, of "[97]" "[97]" rust_file m'] m' typed_model
  show ?thesis by simp
qed

lemma reload_then_typing_panics_witness:
  "\<exists>m'. on_file_loaded list_rope 1 rust_file [] typed_model = Some m' \<and> type_char list_rope 98 m' = None"
proof -
  have m: "lm_active typed_model = Some 0" "selection_primary (b_selection (lm_buffers typed_model ! 0)) = Some (range_point 1)"
    "range_end (range_point 1) = 1" "utf8_decode [] = Some []" "crlf_to_lf [] = []"
    "on_file_loaded list_rope 1 rust_file [] typed_model \<noteq> None"
    by code_simp+
  then obtain m' where m': "on_file_loaded list_rope 1 rust_file [] typed_model = Some m'" by blast
  have one: "find_position (\<lambda>b. b_id b = 1) (lm_buffers typed_model) = Some 0"
    using typed_model by (cases "lm_buffers typed_model") auto
  from reload_then_typing_panics [OF list_rope.rope_text_axioms m(1) one m(4) _ m' m(2), of 98] m typed_model m'
  show ?thesis by simp
qed

section \<open>Late reloads and positions of the server\<close>

fun file_run :: "'r rope_api \<Rightarrow> 'r file_op list \<Rightarrow> 'r lsp_model \<Rightarrow> 'r lsp_model option" where
  "file_run R [] m = Some m"
| "file_run R (op # ops) m = do { m' \<leftarrow> file_step R op m; file_run R ops m' }"

text \<open>
  A file that was found changed, closed before it was read again and opened once more is open
  twice: the answer to the first read opens a buffer under the old id.
\<close>

theorem file_opens_twice:
  "map_option (\<lambda>m. map (\<lambda>b. (b_id b, b_path b)) (lm_buffers m))
     (file_run list_rope [FilesChange [rust_file], CloseFile 1, OpenFile rust_file,
        FileArrives 1 rust_file [97], FileArrives 2 rust_file [97]] (quiet_model [97]))
   = Some [(1, Some rust_file), (2, Some rust_file)]"
  by code_simp

definition after_emoji :: lsp_location where
  "after_emoji = \<lparr>loc_path = rust_file, loc_range = \<lparr>tr_start = \<lparr>pos_line = 0, pos_character = 2\<rparr>,
     tr_end = \<lparr>pos_line = 0, pos_character = 2\<rparr>\<rparr>\<rparr>"

text \<open>
  Going to a definition takes the server's UTF-16 column for a column of characters: behind an
  emoji the cursor lands one character too far, where the position conversion used for edits is right.
\<close>

theorem definition_lands_off:
  "map_option (\<lambda>m. cursor (lm_buffers m ! 0)) (open_lsp_location list_rope after_emoji (quiet_model [128512, 97, 98]))
   = Some (Some 2)
   \<and> offset_from_utf16 list_rope [128512, 97, 98] (pos_line (tr_start (loc_range after_emoji)))
       (pos_character (tr_start (loc_range after_emoji))) = Some 1"
proof (rule conjI)
  show "map_option (\<lambda>m. cursor (lm_buffers m ! 0)) (open_lsp_location list_rope after_emoji (quiet_model [128512, 97, 98]))
     = Some (Some 2)"
    by (simp add: open_lsp_location_def after_emoji_def quiet_model_def bare_model_def open_file_at_def
        position_open_buffer_def buffer_index_def line_range_def line_end_def visible_len_def line_of_def
        scroll_to_cursor_def cursor_def rust_buffer_def buffer_from_text_def rust_file_def path_starts_with_def
        list_line_def slice_def set_selection_def selection_point_def selection_primary_def
        selection_single_def range_point_def)
  show "offset_from_utf16 list_rope [128512, 97, 98] (pos_line (tr_start (loc_range after_emoji)))
       (pos_character (tr_start (loc_range after_emoji))) = Some 1"
    by (simp add: after_emoji_def offset_from_utf16_def offset_at_def list_line_def slice_def utf16_len_def)
qed

end
