(* ===== verification/Captured.thy ===== *)
theory Captured
  imports Utf8
begin

text \<open>
  The output kept of a terminal for an agent (\<open>CapturedOutput\<close>, \<open>crates/terminal/src/capture.rs\<close>):
  UTF-8 decoded as it arrives, broken sequences replaced, the oldest text dropped when there is too
  much.  \<open>utf8_valid\<close> and \<open>error_len\<close> are what \<open>str::from_utf8\<close> reports of bytes that are not UTF-8:
  the text before the first broken sequence (\<open>valid_up_to\<close>), and how long that sequence is, \<open>None\<close> if
  the bytes end before it is known to be broken.
\<close>

section \<open>What the decoder of the standard library reports\<close>

function utf8_valid :: "bytes \<Rightarrow> utext \<times> bytes" where
  "utf8_valid bs =
     (case utf8_next bs of
        None \<Rightarrow> ([], bs)
      | Some (c, r) \<Rightarrow> (let (s, q) = utf8_valid r in (c # s, q)))"
  by auto
termination
  by (relation "measure length") (auto dest: utf8_next_shorter)

declare utf8_valid.simps [simp del]

text \<open>Which second bytes can follow the first byte of a longer sequence.\<close>

definition second_ok :: "byte \<Rightarrow> byte \<Rightarrow> bool" where
  "second_ok a b \<longleftrightarrow>
     (if a = 0xE0 then 0xA0 \<le> b \<and> b < 0xC0
      else if a = 0xED then 0x80 \<le> b \<and> b < 0xA0
      else if a = 0xF0 then 0x90 \<le> b \<and> b < 0xC0
      else if a = 0xF4 then 0x80 \<le> b \<and> b < 0x90
      else continuation b)"

fun error_len :: "bytes \<Rightarrow> nat option" where
  "error_len [] = None"
| "error_len (a # r) =
     (if 0xC2 \<le> a \<and> a < 0xE0 then (case r of [] \<Rightarrow> None | _ \<Rightarrow> Some 1)
      else if 0xE0 \<le> a \<and> a < 0xF0 then
        (case r of
           [] \<Rightarrow> None
         | b # r' \<Rightarrow> if \<not> second_ok a b then Some 1 else case r' of [] \<Rightarrow> None | _ \<Rightarrow> Some 2)
      else if 0xF0 \<le> a \<and> a < 0xF5 then
        (case r of
           [] \<Rightarrow> None
         | b # r' \<Rightarrow>
             if \<not> second_ok a b then Some 1
             else (case r' of
                     [] \<Rightarrow> None
                   | c # r'' \<Rightarrow>
                       if \<not> continuation c then Some 2
                       else case r'' of [] \<Rightarrow> None | _ \<Rightarrow> Some 3))
      else Some 1)"

section \<open>The capture\<close>

definition max_capture_limit :: nat where
  "max_capture_limit = 8388608"

definition default_capture_limit :: nat where
  "default_capture_limit = 1048576"

record captured_output =
  cp_text :: utext
  cp_pending :: bytes
  cp_limit :: nat
  cp_truncated :: bool

definition capture_new :: "nat \<Rightarrow> captured_output" where
  "capture_new requested =
     \<lparr>cp_text = [], cp_pending = [], cp_limit = min requested max_capture_limit, cp_truncated = False\<rparr>"

lemma error_len_pos: "error_len bs = Some n \<Longrightarrow> 0 < n \<and> n \<le> length bs"
  by (cases bs) (auto split: if_splits list.splits)

lemma utf8_valid_rest: "length (snd (utf8_valid bs)) \<le> length bs"
  by (induction bs rule: utf8_valid.induct, subst utf8_valid.simps)
     (force split: option.splits prod.splits dest: utf8_next_shorter)

text \<open>The text that comes out of the pending bytes, and the bytes kept for the next chunk.\<close>

function decode_complete_prefix :: "bool \<Rightarrow> bytes \<Rightarrow> utext \<times> bytes" where
  "decode_complete_prefix fin bs =
     (let (s, r) = utf8_valid bs in
      if r = [] then (s, [])
      else case error_len r of
        Some n \<Rightarrow>
          (let (t, q) = decode_complete_prefix fin (drop n r) in (s @ 0xFFFD # t, q))
      | None \<Rightarrow> if fin then (s @ [0xFFFD], []) else (s, r))"
  by auto
termination
proof (relation "measure (\<lambda>(_, bs). length bs)", goal_cases)
  case (2 fin bs sr s r n)
  have "snd (utf8_valid bs) = r" using 2(1,2) by (metis snd_conv)
  then have "length r \<le> length bs" "0 < n" "r \<noteq> []"
    using utf8_valid_rest [of bs] error_len_pos [of r n] 2 by auto
  then show ?case by (cases r) auto
qed simp

declare decode_complete_prefix.simps [simp del]

text \<open>\<open>drain(..remove)\<close> with \<open>remove\<close> moved up to a char boundary.\<close>

fun drop_bytes :: "nat \<Rightarrow> utext \<Rightarrow> utext" where
  "drop_bytes n [] = []"
| "drop_bytes n (c # s) = (if n = 0 then c # s else drop_bytes (n - length (utf8_char c)) s)"

definition enforce_limit :: "captured_output \<Rightarrow> captured_output" where
  "enforce_limit c =
     (let len = length (utf8_encode (cp_text c)) in
      if len \<le> cp_limit c then c
      else c\<lparr>cp_text := drop_bytes (len - cp_limit c) (cp_text c), cp_truncated := True\<rparr>)"

definition take_in :: "bool \<Rightarrow> captured_output \<Rightarrow> captured_output" where
  "take_in fin c =
     (let (s, q) = decode_complete_prefix fin (cp_pending c) in
      enforce_limit (c\<lparr>cp_text := cp_text c @ s, cp_pending := q\<rparr>))"

definition capture_push :: "bytes \<Rightarrow> captured_output \<Rightarrow> captured_output" where
  "capture_push bs c = take_in False (c\<lparr>cp_pending := cp_pending c @ bs\<rparr>)"

definition capture_finish :: "captured_output \<Rightarrow> captured_output" where
  "capture_finish c = take_in True c"

section \<open>Chunks do not matter\<close>

lemma utf8_next_more: "utf8_next bs = Some (c, r) \<Longrightarrow> utf8_next (bs @ xs) = Some (c, r @ xs)"
  by (cases bs) (auto split: if_splits list.splits simp: Let_def)

lemma error_len_more: "error_len bs = Some n \<Longrightarrow> error_len (bs @ xs) = Some n"
  by (cases bs) (auto split: if_splits list.splits)

lemma second_of_three:
  assumes "0xE0 \<le> a" "a < 0xF0" "continuation c"
  shows "second_ok a b \<longleftrightarrow> continuation b \<and> 0x800 \<le> (a - 0xE0) * 0x1000 + (b - 0x80) * 0x40 + (c - 0x80)
    \<and> valid_char ((a - 0xE0) * 0x1000 + (b - 0x80) * 0x40 + (c - 0x80))"
proof -
  define x y z where "x = a - 0xE0" "y = b - 0x80" "z = c - 0x80"
  have a: "a = x + 0xE0" "x < 16" and c: "z < 64" using assms by (auto simp: x_y_z_def continuation_def)
  show ?thesis
  proof (cases "continuation b")
    case True
    then have b: "b = y + 0x80" "y < 64" by (auto simp: x_y_z_def continuation_def)
    show ?thesis unfolding x_y_z_def [symmetric]
      using a b c True by (auto simp: second_ok_def valid_char_def)
  qed (auto simp: second_ok_def continuation_def split: if_splits)
qed

lemma second_of_four:
  assumes "0xF0 \<le> a" "a < 0xF5" "continuation c" "continuation d"
  shows "second_ok a b \<longleftrightarrow> continuation b
    \<and> 0x10000 \<le> (a - 0xF0) * 0x40000 + (b - 0x80) * 0x1000 + (c - 0x80) * 0x40 + (d - 0x80)
    \<and> valid_char ((a - 0xF0) * 0x40000 + (b - 0x80) * 0x1000 + (c - 0x80) * 0x40 + (d - 0x80))"
proof -
  define x y z w where "x = a - 0xF0" "y = b - 0x80" "z = c - 0x80" "w = d - 0x80"
  have a: "a = x + 0xF0" "x < 5" and c: "z < 64" "w < 64"
    using assms by (auto simp: x_y_z_w_def continuation_def)
  show ?thesis
  proof (cases "continuation b")
    case True
    then have b: "b = y + 0x80" "y < 64" by (auto simp: x_y_z_w_def continuation_def)
    show ?thesis unfolding x_y_z_w_def [symmetric]
      using a b c True by (auto simp: second_ok_def valid_char_def)
  qed (auto simp: second_ok_def continuation_def split: if_splits)
qed

text \<open>A sequence the decoder calls broken is broken whatever follows.\<close>

lemma utf8_next_broken:
  assumes "utf8_next bs = None" "error_len bs = Some n"
  shows "utf8_next (bs @ xs) = None"
proof -
  obtain a r where bs: "bs = a # r" using assms(2) by (cases bs) auto
  consider "a < 0xC2" | "0xC2 \<le> a" "a < 0xE0" | "0xE0 \<le> a" "a < 0xF0" | "0xF0 \<le> a" "a < 0xF5" | "0xF5 \<le> a"
    by linarith
  then show ?thesis
  proof cases
    case 1
    with assms bs show ?thesis by (auto split: if_splits)
  next
    case 2
    with assms bs show ?thesis by (auto split: if_splits list.splits)
  next
    case 3
    have "utf8_next (a # b # c # r') = (if continuation c \<and> second_ok a b
        then Some ((a - 0xE0) * 0x1000 + (b - 0x80) * 0x40 + (c - 0x80), r') else None)" for b c r'
      using 3 second_of_three [of a c b] by (auto simp: Let_def)
    moreover have "utf8_next [a] = None" "utf8_next [a, b] = None" for b using 3 by simp_all
    ultimately show ?thesis
      using assms 3 unfolding bs by (cases r rule: remdups_adj.cases; cases xs rule: remdups_adj.cases) (auto split: if_splits list.splits)
  next
    case 4
    have "utf8_next (a # b # c # d # r') = (if continuation c \<and> continuation d \<and> second_ok a b
        then Some ((a - 0xF0) * 0x40000 + (b - 0x80) * 0x1000 + (c - 0x80) * 0x40 + (d - 0x80), r') else None)" for b c d r'
      using 4 second_of_four [of a c d b] by (auto simp: Let_def)
    moreover have "utf8_next [a] = None" "utf8_next [a, b] = None" "utf8_next [a, b, c] = None" for b c using 4 by simp_all
    ultimately show ?thesis
      using assms 4 unfolding bs by (cases r rule: remdups_adj.cases; cases xs rule: remdups_adj.cases) (auto split: if_splits list.splits)
  qed (simp add: bs)
qed

lemma utf8_valid_stuck: "utf8_next (snd (utf8_valid bs)) = None"
  by (induction bs rule: utf8_valid.induct, subst utf8_valid.simps) (auto split: option.splits prod.splits)

lemma utf8_valid_more:
  "utf8_valid bs = (s, r) \<Longrightarrow> utf8_valid (bs @ xs) = (s @ fst (utf8_valid (r @ xs)), snd (utf8_valid (r @ xs)))"
proof (induction bs arbitrary: s r rule: utf8_valid.induct)
  case (1 bs)
  show ?case
  proof (cases "utf8_next bs")
    case None
    with 1(2) show ?thesis by (simp add: utf8_valid.simps [of bs])
  next
    case (Some cr)
    obtain c r0 where cr: "cr = (c, r0)" by (cases cr)
    obtain t q where t: "utf8_valid r0 = (t, q)" by (cases "utf8_valid r0")
    with 1(2) Some cr have "s = c # t" "r = q" by (simp_all add: utf8_valid.simps [of bs])
    with 1(1) [OF Some cr [symmetric] t] utf8_next_more [of bs c r0 xs] Some cr show ?thesis
      by (simp add: utf8_valid.simps [of "bs @ xs"])
  qed
qed

lemma decode_after:
  assumes "utf8_valid bs = (s, r)"
  shows "decode_complete_prefix fin (bs @ xs)
    = (s @ fst (decode_complete_prefix fin (r @ xs)), snd (decode_complete_prefix fin (r @ xs)))"
  using utf8_valid_more [OF assms, of xs]
  by (simp add: decode_complete_prefix.simps [of fin "bs @ xs"] decode_complete_prefix.simps [of fin "r @ xs"]
      case_prod_beta Let_def split: option.split)

lemma decode_more:
  "decode_complete_prefix False bs = (s, r) \<Longrightarrow> decode_complete_prefix fin (bs @ xs)
    = (s @ fst (decode_complete_prefix fin (r @ xs)), snd (decode_complete_prefix fin (r @ xs)))"
proof (induction bs arbitrary: s r rule: measure_induct_rule [of length])
  case (less bs)
  obtain s0 r0 where v: "utf8_valid bs = (s0, r0)" by (cases "utf8_valid bs")
  then have stuck: "utf8_next r0 = None" using utf8_valid_stuck [of bs] by simp
  note after = decode_after [OF v, of fin xs]
  consider "r0 = []" | "r0 \<noteq> []" "error_len r0 = None" | n where "r0 \<noteq> []" "error_len r0 = Some n"
    by (cases "error_len r0") auto
  then show ?case
  proof cases
    case 1
    with less.prems v after show ?thesis by (simp add: decode_complete_prefix.simps [of False bs])
  next
    case 2
    with less.prems v after show ?thesis by (simp add: decode_complete_prefix.simps [of False bs])
  next
    case 3
    obtain t q where t: "decode_complete_prefix False (drop n r0) = (t, q)" by fastforce
    have len: "n \<le> length r0" "0 < n" "length r0 \<le> length bs"
      using error_len_pos [OF 3(2)] utf8_valid_rest [of bs] v by auto
    then have "length (drop n r0) < length bs" using 3(1) by (cases r0) auto
    note ih = less.IH [OF this t]
    have "utf8_valid (r0 @ xs) = ([], r0 @ xs)"
      using utf8_next_broken [OF stuck 3(2)] by (simp add: utf8_valid.simps)
    moreover have "error_len (r0 @ xs) = Some n" using error_len_more [OF 3(2)] .
    ultimately have "decode_complete_prefix fin (r0 @ xs)
        = (0xFFFD # fst (decode_complete_prefix fin (drop n r0 @ xs)), snd (decode_complete_prefix fin (drop n r0 @ xs)))"
      using 3(1) len(1) by (simp add: decode_complete_prefix.simps [of fin "r0 @ xs"] case_prod_beta Let_def)
    with after ih less.prems v 3 t show ?thesis by (simp add: decode_complete_prefix.simps [of False bs])
  qed
qed

text \<open>Dropping the oldest text piece by piece or at once is the same.\<close>

definition kept :: "nat \<Rightarrow> utext \<Rightarrow> utext" where
  "kept limit s = drop_bytes (length (utf8_encode s) - limit) s"

lemma drop_bytes_0 [simp]: "drop_bytes 0 s = s"
  by (cases s) simp_all

lemma utf8_char_pos [simp]: "0 < length (utf8_char c)"
  using utf8_char_nonempty [of c] by simp

lemma kept_simps:
  "kept limit [] = []"
  "kept limit (c # s) = (if length (utf8_encode (c # s)) \<le> limit then c # s else kept limit s)"
  by (auto simp: kept_def)

lemma kept_kept: "kept limit (kept limit s @ t) = kept limit (s @ t)"
proof (induction s)
  case (Cons c s)
  then show ?case by (auto simp: kept_simps)
qed (simp add: kept_simps)

lemma kept_bound: "length (utf8_encode (kept limit s)) \<le> limit"
  by (induction s) (auto simp: kept_simps)

lemma kept_suffix: "\<exists>t. s = t @ kept limit s"
  by (induction s) (auto simp: kept_simps intro: exI [of _ "_ # _"])

lemma kept_longest: "length (utf8_encode b) \<le> limit \<Longrightarrow> length b \<le> length (kept limit (a @ b))"
  by (induction a) (auto simp: kept_simps kept_def)

lemma kept_all: "length (utf8_encode s) \<le> limit \<Longrightarrow> kept limit s = s"
  by (simp add: kept_def)

lemma enforce_limit_kept:
  "enforce_limit c = c\<lparr>cp_text := kept (cp_limit c) (cp_text c),
     cp_truncated := cp_truncated c \<or> cp_limit c < length (utf8_encode (cp_text c))\<rparr>"
  by (simp add: enforce_limit_def kept_def Let_def)

text \<open>What a capture that has taken these bytes in holds.\<close>

definition captured :: "nat \<Rightarrow> bytes \<Rightarrow> captured_output" where
  "captured requested bs =
     (let (s, q) = decode_complete_prefix False bs; limit = min requested max_capture_limit in
      \<lparr>cp_text = kept limit s, cp_pending = q, cp_limit = limit,
       cp_truncated = (limit < length (utf8_encode s))\<rparr>)"

lemma captured_none: "capture_new requested = captured requested []"
  by (simp add: captured_def capture_new_def decode_complete_prefix.simps utf8_valid.simps kept_def)

lemma take_in_captured:
  assumes "decode_complete_prefix False bs = (s, r)" "decode_complete_prefix fin (r @ xs) = (t, q)"
  shows "take_in fin ((captured n bs)\<lparr>cp_pending := r @ xs\<rparr>) = \<lparr>cp_text = kept (min n max_capture_limit) (s @ t),
    cp_pending = q, cp_limit = min n max_capture_limit,
    cp_truncated = (min n max_capture_limit < length (utf8_encode (s @ t)))\<rparr>"
proof -
  let ?L = "min n max_capture_limit"
  have "?L < length (utf8_encode s) \<or> ?L < length (utf8_encode (kept ?L s @ t))
      \<longleftrightarrow> ?L < length (utf8_encode (s @ t))"
    by (cases "?L < length (utf8_encode s)") (auto simp: kept_all not_less)
  then show ?thesis
    using assms by (simp add: take_in_def captured_def enforce_limit_kept kept_kept Let_def)
qed

lemma captured_more: "capture_push xs (captured n bs) = captured n (bs @ xs)"
proof -
  obtain s r t q where d: "decode_complete_prefix False bs = (s, r)" "decode_complete_prefix False (r @ xs) = (t, q)"
    by fastforce
  moreover from d have "decode_complete_prefix False (bs @ xs) = (s @ t, q)" using decode_more [OF d(1), of False xs] by simp
  ultimately show ?thesis
    using take_in_captured [OF d] by (simp add: capture_push_def captured_def Let_def)
qed

lemma fold_captured: "fold capture_push chunks (captured limit bs) = captured limit (bs @ concat chunks)"
  by (induction chunks arbitrary: bs) (simp_all add: captured_more)

text \<open>
  C30. However the output of a process is cut into chunks, the same text is kept: what all of it at once
  would give.
\<close>

theorem capture_ignores_chunking:
  "fold capture_push chunks (capture_new limit) = capture_push (concat chunks) (capture_new limit)"
  using fold_captured [of chunks limit "[]"] by (simp add: captured_none captured_more)

lemma utf8_valid_encode: "valid_text s \<Longrightarrow> utf8_valid (utf8_encode s) = (s, [])"
proof (induction s)
  case (Cons c s)
  with utf8_next_char [of c "utf8_encode s"] show ?case
    by (subst utf8_valid.simps) simp
qed (simp add: utf8_valid.simps)

text \<open>
  C31. Text arrives as it was written, whatever the chunks: of valid UTF-8 exactly the longest suffix
  that fits the limit is kept, with nothing lost at the seams, and it is marked as truncated exactly
  when something was dropped.
\<close>

theorem capture_keeps_latest_text:
  assumes "valid_text s" "concat chunks = utf8_encode s"
  shows "let c = fold capture_push chunks (capture_new limit) in
    (\<exists>lost. s = lost @ cp_text c \<and> cp_truncated c = (lost \<noteq> []))
    \<and> length (utf8_encode (cp_text c)) \<le> min limit max_capture_limit
    \<and> (\<forall>a b. s = a @ b \<and> length (utf8_encode b) \<le> min limit max_capture_limit \<longrightarrow>
         length b \<le> length (cp_text c))
    \<and> cp_pending c = [] \<and> capture_finish c = c"
proof -
  let ?c = "fold capture_push chunks (capture_new limit)" and ?L = "min limit max_capture_limit"
  have d: "decode_complete_prefix fin (utf8_encode s) = (s, [])" for fin
    using utf8_valid_encode [OF assms(1)] by (simp add: decode_complete_prefix.simps)
  have c: "?c = \<lparr>cp_text = kept ?L s, cp_pending = [], cp_limit = ?L, cp_truncated = (?L < length (utf8_encode s))\<rparr>"
    using fold_captured [of chunks limit "[]"] d [of False] assms(2)
    by (simp add: captured_none [of limit]) (simp add: captured_def Let_def)
  obtain lost where lost: "s = lost @ kept ?L s" using kept_suffix by blast
  have "lost \<noteq> []" if "?L < length (utf8_encode s)"
    using that kept_bound [of ?L s] lost by (metis append_Nil not_less)
  moreover have "lost = []" if "\<not> ?L < length (utf8_encode s)"
    using that lost kept_all [of s ?L] by (metis not_less append_self_conv2)
  moreover have "capture_finish ?c = ?c"
    using kept_bound [of ?L s] unfolding c
    by (simp add: capture_finish_def take_in_def enforce_limit_def decode_complete_prefix.simps utf8_valid.simps Let_def)
  ultimately have "(\<exists>lost. s = lost @ cp_text ?c \<and> cp_truncated ?c = (lost \<noteq> []))
      \<and> cp_pending ?c = [] \<and> capture_finish ?c = ?c"
    using lost unfolding c by auto
  then show ?thesis using kept_bound [of ?L s] kept_longest unfolding c Let_def by simp
qed

lemma capture_keeps_latest_text_witness:
  "let c = fold capture_push [[226, 130], [172, 97]] (capture_new 3) in
    cp_truncated c \<and> cp_text c = [97] \<and> cp_pending c = []"
proof -
  let ?c = "fold capture_push [[226, 130], [172, 97]] (capture_new 3)"
  have "valid_text [8364, 97]" "concat [[226, 130], [172, 97]] = utf8_encode [8364, 97]"
    by (simp_all add: valid_char_def utf8_char_def)
  from capture_keeps_latest_text [OF this, of 3] obtain lost
    where lost: "[8364, 97] = lost @ cp_text ?c" "cp_truncated ?c = (lost \<noteq> [])"
      "length (utf8_encode (cp_text ?c)) \<le> 3" "cp_pending ?c = []"
    and longest: "\<And>a b. [8364, 97] = a @ b \<Longrightarrow> length (utf8_encode b) \<le> 3 \<Longrightarrow> length b \<le> length (cp_text ?c)"
    by (auto simp: Let_def max_capture_limit_def)
  have some_kept: "1 \<le> length (cp_text ?c)" using longest [of "[8364]" "[97]"] by (simp add: utf8_char_def)
  from lost(1) consider "lost = []" "cp_text ?c = [8364, 97]" | "lost = [8364]" "cp_text ?c = [97]"
    | "cp_text ?c = []"
    by (auto simp: Cons_eq_append_conv)
  then show ?thesis
  proof cases
    case 1
    with lost(3) show ?thesis by (simp add: utf8_char_def)
  next
    case 2
    with lost(2,4) show ?thesis by (simp add: Let_def)
  next
    case 3
    with some_kept show ?thesis by simp
  qed
qed

end
