(* ===== verification/Desk_State.thy ===== *)
theory Desk_State
  imports App_Files Lsp_Requests Acp_Types Proposal Captured Keymap
begin

text \<open>
  The part of the application that deals with agents and terminals (\<open>Model\<close> and its session types,
  \<open>crates/app/src/model.rs\<close>, \<open>crates/app/src/task_state.rs\<close>, \<open>crates/core/src/terminal.rs\<close> and
  \<open>task.rs\<close>).  Two things are parameters: the screen of a terminal, which wraps a third-party
  emulator (\<open>screen_api\<close>), and the decoders of the output of tasks, which the code calls through a
  trait object (\<open>decoder_api\<close>).
\<close>

section \<open>Terminals\<close>

datatype terminal_owner = HumanShell | HumanCommand | AgentOwner session_id

datatype terminal_status =
    TermStarting
  | TermRunning "nat option"
  | TermExited terminal_exit
  | TermFailed utext

type_synonym terminal_size = "nat \<times> nat"

datatype pty_request =
    PtySpawn terminal_id nat terminal_spec terminal_size
  | PtyWrite terminal_id nat bytes
  | PtyResize terminal_id nat terminal_size
  | PtyKill terminal_id nat
  | PtyRelease terminal_id nat

datatype pty_event =
    PtySpawned terminal_id nat "nat option"
  | PtyOutput terminal_id nat bytes
  | PtyExited terminal_id nat terminal_exit
  | PtyFailed terminal_id nat utext

record 's screen_api =
  sc_new :: "terminal_size \<Rightarrow> 's"
  sc_feed :: "bytes \<Rightarrow> 's \<Rightarrow> 's"
  sc_title :: "'s \<Rightarrow> utext option"
  sc_take_responses :: "'s \<Rightarrow> bytes list \<times> 's"
  sc_resize :: "terminal_size \<Rightarrow> 's \<Rightarrow> 's"
  sc_application_cursor :: "'s \<Rightarrow> bool"
  sc_begin_selection :: "'s \<Rightarrow> 's"
  sc_selected_text :: "'s \<Rightarrow> utext option"
  sc_clear_selection :: "'s \<Rightarrow> 's"

record 's terminal_session =
  tm_id :: terminal_id
  tm_generation :: nat
  tm_spec :: terminal_spec
  tm_owner :: terminal_owner
  tm_title :: utext
  tm_status :: terminal_status
  tm_screen :: 's
  tm_capture :: captured_output
  tm_released :: bool

definition is_live :: "terminal_status \<Rightarrow> bool" where
  "is_live st \<longleftrightarrow> (case st of TermStarting \<Rightarrow> True | TermRunning _ \<Rightarrow> True | _ \<Rightarrow> False)"

section \<open>Tasks\<close>

record task_spec =
  tk_id :: utext
  tk_label :: utext
  tk_program :: utext
  tk_args :: "utext list"
  tk_cwd :: path

datatype task_origin = HumanTask | AgentTask session_id

datatype task_status = TaskStarting | TaskRunning | TaskSucceeded | TaskFailed | TaskCancelled

datatype problem_severity = ProblemError | ProblemWarning

record problem =
  pb_path :: path
  pb_line :: nat
  pb_column :: nat
  pb_severity :: problem_severity
  pb_message :: utext

record decoded_task_output =
  do_display :: bytes
  do_problems :: "problem list"

record 'd decoder_api =
  dc_for :: "task_spec \<Rightarrow> 'd option"
  dc_push :: "bytes \<Rightarrow> 'd \<Rightarrow> decoded_task_output \<times> 'd"
  dc_finish :: "'d \<Rightarrow> decoded_task_output \<times> 'd"

record 'd task_run =
  run_id :: nat
  run_spec :: task_spec
  run_terminal :: terminal_id
  run_origin :: task_origin
  run_status :: task_status
  run_problems :: "problem list"
  run_cancel_requested :: bool
  run_decoder :: "'d option"

section \<open>The agent\<close>

datatype speaker = You | TheAgent | Thought

datatype permission_origin =
    AgentAsked nat "terminal_spec option"
  | TerminalAsked session_id nat terminal_spec nat

record pending_permission =
  pn_origin :: permission_origin
  pn_summary :: utext
  pn_command :: "utext list"
  pn_review :: "proposal_id option"

record agent_session =
  as_id :: session_id
  as_transcript :: "(speaker \<times> utext) list"
  as_proposals :: "edit_proposal list"
  as_permission :: "pending_permission option"
  as_attached :: "terminal_id list"
  as_turn_active :: bool
  as_modes :: "session_mode list"
  as_current_mode :: "utext option"

record pending_terminal_create =
  pc_request :: nat
  pc_terminal :: terminal_id
  pc_generation :: nat

record served_read =
  sv_path :: path
  sv_version :: version
  sv_text :: utext

record pending_agent_read =
  pr_buffer :: buffer_id
  pr_session :: session_id
  pr_request :: nat
  pr_path :: path

datatype pane = ProjectPane | EditorPane | TerminalPane | AgentPane

section \<open>The state\<close>

record ('r, 's, 'd) desk =
  dk_app :: "'r lsp_model"
  dk_agent :: "agent_session option"
  dk_agent_named :: bool
  dk_pending_prompt :: "utext option"
  dk_capabilities :: "agent_capabilities option"
  dk_scroll :: nat
  dk_policy :: permission_policy
  dk_creates :: "pending_terminal_create list"
  dk_waits :: "(nat \<times> terminal_id) list"
  dk_terminals :: "'s terminal_session list"
  dk_active_terminal :: "nat option"
  dk_next_terminal :: nat
  dk_focus :: pane
  dk_previous_focus :: pane
  dk_size :: terminal_size
  dk_pty_outbox :: "pty_request list"
  dk_copy_mode :: bool
  dk_clipboard :: "utext list"
  dk_outbox :: "agent_request list"
  dk_served :: "served_read list"
  dk_reads :: "pending_agent_read list"
  dk_runs :: "'d task_run list"
  dk_next_run :: nat
  dk_catalog :: "task_spec list"
  dk_problem_cursor :: "nat option"

definition dk_notify :: "utext \<Rightarrow> ('r, 's, 'd) desk \<Rightarrow> ('r, 's, 'd) desk" where
  "dk_notify msg d = d\<lparr>dk_app := notify msg (dk_app d)\<rparr>"

definition say :: "agent_request \<Rightarrow> ('r, 's, 'd) desk \<Rightarrow> ('r, 's, 'd) desk" where
  "say r d = d\<lparr>dk_outbox := dk_outbox d @ [r]\<rparr>"

definition to_pty :: "pty_request \<Rightarrow> ('r, 's, 'd) desk \<Rightarrow> ('r, 's, 'd) desk" where
  "to_pty r d = d\<lparr>dk_pty_outbox := dk_pty_outbox d @ [r]\<rparr>"

text \<open>\<open>iter_mut().find(..)\<close>: change the first element that is meant.\<close>

fun update_first :: "('a \<Rightarrow> bool) \<Rightarrow> ('a \<Rightarrow> 'a) \<Rightarrow> 'a list \<Rightarrow> 'a list" where
  "update_first P f [] = []"
| "update_first P f (x # xs) = (if P x then f x # xs else x # update_first P f xs)"

definition find_terminal :: "terminal_id \<Rightarrow> ('r, 's, 'd) desk \<Rightarrow> 's terminal_session option" where
  "find_terminal t d = find (\<lambda>x. tm_id x = t) (dk_terminals d)"

definition change_terminal ::
  "terminal_id \<Rightarrow> ('s terminal_session \<Rightarrow> 's terminal_session) \<Rightarrow> ('r, 's, 'd) desk \<Rightarrow> ('r, 's, 'd) desk" where
  "change_terminal t f d = d\<lparr>dk_terminals := update_first (\<lambda>x. tm_id x = t) f (dk_terminals d)\<rparr>"

definition change_run ::
  "terminal_id \<Rightarrow> ('d task_run \<Rightarrow> 'd task_run) \<Rightarrow> ('r, 's, 'd) desk \<Rightarrow> ('r, 's, 'd) desk" where
  "change_run t f d = d\<lparr>dk_runs := update_first (\<lambda>r. run_terminal r = t) f (dk_runs d)\<rparr>"

definition change_agent ::
  "(agent_session \<Rightarrow> agent_session) \<Rightarrow> ('r, 's, 'd) desk \<Rightarrow> ('r, 's, 'd) desk" where
  "change_agent f d = d\<lparr>dk_agent := map_option f (dk_agent d)\<rparr>"

end
