(* ===== verification/Desk_Terminals.thy ===== *)
theory Desk_Terminals
  imports Desk_State
begin

text \<open>
  Terminal tabs and the events of their processes (\<open>crates/app/src/model.rs\<close>), the tasks that run
  in them, and the bytes of a key (\<open>crates/terminal/src/input.rs\<close>).  The refresh of the git status at
  the end of a process is left out, and the command line of a shell is an argument.
\<close>

section \<open>Answers to the agent\<close>

definition respond_terminal :: "nat \<Rightarrow> terminal_response \<Rightarrow> ('r, 's, 'd) desk \<Rightarrow> ('r, 's, 'd) desk" where
  "respond_terminal request response d = say (TerminalResponse request response) d"

text \<open>Every wait for this terminal is answered, in order, and taken off the list.\<close>

definition complete_terminal_waits ::
  "terminal_id \<Rightarrow> terminal_response \<Rightarrow> ('r, 's, 'd) desk \<Rightarrow> ('r, 's, 'd) desk" where
  "complete_terminal_waits t response d =
     d\<lparr>dk_waits := filter (\<lambda>(_, u). u \<noteq> t) (dk_waits d),
       dk_outbox := dk_outbox d
         @ map (\<lambda>(request, _). TerminalResponse request response) (filter (\<lambda>(_, u). u = t) (dk_waits d))\<rparr>"

section \<open>Opening\<close>

definition focus_terminal_pane :: "('r, 's, 'd) desk \<Rightarrow> ('r, 's, 'd) desk" where
  "focus_terminal_pane d =
     (let d1 = (if dk_focus d \<noteq> TerminalPane then d\<lparr>dk_previous_focus := dk_focus d\<rparr> else d)
      in d1\<lparr>dk_focus := TerminalPane\<rparr>)"

definition agent_owned :: "terminal_owner \<Rightarrow> bool" where
  "agent_owned owner \<longleftrightarrow> (case owner of AgentOwner _ \<Rightarrow> True | _ \<Rightarrow> False)"

definition create_terminal_with_limit ::
  "'s screen_api \<Rightarrow> terminal_spec \<Rightarrow> terminal_owner \<Rightarrow> nat \<Rightarrow> ('r, 's, 'd) desk \<Rightarrow>
   terminal_id \<times> ('r, 's, 'd) desk" where
  "create_terminal_with_limit S spec owner limit d =
     (let i = dk_next_terminal d + 1;
          x = \<lparr>tm_id = i, tm_generation = 1, tm_spec = spec, tm_owner = owner,
               tm_title = ustr ''Terminal '' @ decimal i, tm_status = TermStarting,
               tm_screen = sc_new S (dk_size d), tm_capture = capture_new limit, tm_released = False\<rparr>;
          k = length (dk_terminals d);
          d1 = d\<lparr>dk_next_terminal := i, dk_terminals := dk_terminals d @ [x]\<rparr>;
          d2 = (if agent_owned owner
                then (if dk_focus d1 \<noteq> TerminalPane then d1\<lparr>dk_active_terminal := Some k\<rparr> else d1)
                else focus_terminal_pane (d1\<lparr>dk_active_terminal := Some k\<rparr>))
      in (i, to_pty (PtySpawn i 1 spec (dk_size d)) d2))"

definition create_terminal ::
  "'s screen_api \<Rightarrow> terminal_spec \<Rightarrow> terminal_owner \<Rightarrow> ('r, 's, 'd) desk \<Rightarrow>
   terminal_id \<times> ('r, 's, 'd) desk" where
  "create_terminal S spec owner d = create_terminal_with_limit S spec owner default_capture_limit d"

definition new_shell_terminal :: "'s screen_api \<Rightarrow> terminal_spec \<Rightarrow> ('r, 's, 'd) desk \<Rightarrow> ('r, 's, 'd) desk" where
  "new_shell_terminal S shell d = snd (create_terminal S shell HumanShell d)"

section \<open>Tasks\<close>

definition attach_task_run ::
  "'d decoder_api \<Rightarrow> task_spec \<Rightarrow> terminal_id \<Rightarrow> task_origin \<Rightarrow> ('r, 's, 'd) desk \<Rightarrow> ('r, 's, 'd) desk" where
  "attach_task_run DC spec t origin d =
     (let d1 = change_terminal t (\<lambda>x. x\<lparr>tm_title := tk_label spec\<rparr>) d;
          i = dk_next_run d1 + 1;
          runs = dk_runs d1 @ [\<lparr>run_id = i, run_spec = spec, run_terminal = t, run_origin = origin,
            run_status = TaskStarting, run_problems = [], run_cancel_requested = False,
            run_decoder = dc_for DC spec\<rparr>]
      in d1\<lparr>dk_next_run := i, dk_runs := (if length runs > 20 then tl runs else runs)\<rparr>)"

definition run_task ::
  "'s screen_api \<Rightarrow> 'd decoder_api \<Rightarrow> task_spec \<Rightarrow> ('r, 's, 'd) desk \<Rightarrow> ('r, 's, 'd) desk" where
  "run_task S DC spec d =
     (let (t, d1) = create_terminal S \<lparr>ts_program = tk_program spec, ts_args = tk_args spec,
            ts_cwd = tk_cwd spec, ts_env = []\<rparr> HumanCommand d
      in attach_task_run DC spec t HumanTask d1)"

definition cancellable :: "'d task_run \<Rightarrow> bool" where
  "cancellable r \<longleftrightarrow> run_status r \<in> {TaskStarting, TaskRunning} \<and> \<not> run_cancel_requested r"

definition cancel_latest_task :: "('r, 's, 'd) desk \<Rightarrow> ('r, 's, 'd) desk" where
  "cancel_latest_task d =
     (case find cancellable (rev (dk_runs d)) of
        None \<Rightarrow> dk_notify (ustr ''no running task'') d
      | Some r \<Rightarrow>
          (case find_terminal (run_terminal r) d of
             None \<Rightarrow> d
           | Some x \<Rightarrow>
               to_pty (PtyKill (tm_id x) (tm_generation x))
                 (d\<lparr>dk_runs := rev (update_first cancellable (\<lambda>r. r\<lparr>run_cancel_requested := True\<rparr>)
                     (rev (dk_runs d)))\<rparr>)))"

definition normalize_problem :: "path \<Rightarrow> problem \<Rightarrow> problem option" where
  "normalize_problem cwd p =
     (if ParentDir \<in> set (pb_path p) then None
      else Some (if is_absolute (pb_path p) then p else p\<lparr>pb_path := path_join cwd (pb_path p)\<rparr>))"

definition same_problem :: "problem \<Rightarrow> problem \<Rightarrow> bool" where
  "same_problem p q \<longleftrightarrow> pb_path p = pb_path q \<and> pb_line p = pb_line q \<and> pb_column p = pb_column q
     \<and> pb_message p = pb_message q"

definition add_problem :: "path \<Rightarrow> problem \<Rightarrow> problem list \<Rightarrow> problem list" where
  "add_problem cwd p ps =
     (case normalize_problem cwd p of
        None \<Rightarrow> ps
      | Some q \<Rightarrow> if \<not> list_ex (\<lambda>e. same_problem e q) ps \<and> length ps < 500 then ps @ [q] else ps)"

definition decode_task_output ::
  "'d decoder_api \<Rightarrow> terminal_id \<Rightarrow> bytes option \<Rightarrow> ('r, 's, 'd) desk \<Rightarrow> bytes \<times> ('r, 's, 'd) desk" where
  "decode_task_output DC t bs d =
     (let plain = (case bs of Some bs \<Rightarrow> bs | None \<Rightarrow> []) in
      case find (\<lambda>r. run_terminal r = t) (dk_runs d) of
        None \<Rightarrow> (plain, d)
      | Some r \<Rightarrow>
          (case run_decoder r of
             None \<Rightarrow> (plain, d)
           | Some dec \<Rightarrow>
               (let (out, dec') = (case bs of Some bs \<Rightarrow> dc_push DC bs dec | None \<Rightarrow> dc_finish DC dec);
                    ps = fold (add_problem (tk_cwd (run_spec r))) (do_problems out) (run_problems r);
                    d1 = change_run t (\<lambda>r. r\<lparr>run_decoder := Some dec', run_problems := ps\<rparr>) d
                in (do_display out,
                    if run_problems r = [] \<and> ps \<noteq> [] then d1\<lparr>dk_problem_cursor := None\<rparr> else d1))))"

section \<open>Events of the processes\<close>

text \<open>A create that waits for this process: the first, with its request.\<close>

definition creates_of :: "terminal_id \<Rightarrow> nat \<Rightarrow> pending_terminal_create \<Rightarrow> bool" where
  "creates_of t g c \<longleftrightarrow> pc_terminal c = t \<and> pc_generation c = g"

definition answer_create ::
  "(pending_terminal_create \<Rightarrow> bool) \<Rightarrow> terminal_response \<Rightarrow> ('r, 's, 'd) desk \<Rightarrow> ('r, 's, 'd) desk" where
  "answer_create P response d =
     (case find P (dk_creates d) of
        None \<Rightarrow> d
      | Some c \<Rightarrow> respond_terminal (pc_request c) response (d\<lparr>dk_creates := remove1 c (dk_creates d)\<rparr>))"

definition exited_status :: "terminal_exit \<Rightarrow> 'd task_run \<Rightarrow> task_status" where
  "exited_status exit r =
     (if run_cancel_requested r then TaskCancelled
      else if te_code exit = Some 0 then TaskSucceeded else TaskFailed)"

definition write_all_to_pty :: "terminal_id \<Rightarrow> nat \<Rightarrow> bytes list \<Rightarrow> ('r, 's, 'd) desk \<Rightarrow> ('r, 's, 'd) desk" where
  "write_all_to_pty t g bss d = fold (\<lambda>bs. to_pty (PtyWrite t g bs)) bss d"

definition take_output ::
  "'s screen_api \<Rightarrow> bytes \<Rightarrow> 's terminal_session \<Rightarrow> bytes list \<times> 's terminal_session" where
  "take_output S bs x =
     (let screen = sc_feed S bs (tm_screen x);
          title = (case sc_title S screen of
                     Some t \<Rightarrow> if t \<noteq> [] then t else tm_title x | None \<Rightarrow> tm_title x);
          (responses, screen') = sc_take_responses S screen
      in (responses, x\<lparr>tm_screen := screen', tm_capture := capture_push bs (tm_capture x), tm_title := title\<rparr>))"

fun event_terminal :: "pty_event \<Rightarrow> terminal_id \<times> nat" where
  "event_terminal (PtySpawned t g _) = (t, g)"
| "event_terminal (PtyOutput t g _) = (t, g)"
| "event_terminal (PtyExited t g _) = (t, g)"
| "event_terminal (PtyFailed t g _) = (t, g)"

fun on_live_pty_event ::
  "'s screen_api \<Rightarrow> 'd decoder_api \<Rightarrow> 's terminal_session \<Rightarrow> pty_event \<Rightarrow> ('r, 's, 'd) desk \<Rightarrow> ('r, 's, 'd) desk"
where
  "on_live_pty_event S DC x (PtySpawned t g pid) d =
     answer_create (creates_of t g) (RCreated t)
       (change_run t (\<lambda>r. r\<lparr>run_status := TaskRunning\<rparr>)
         (change_terminal t (\<lambda>x. x\<lparr>tm_status := TermRunning pid\<rparr>) d))"
| "on_live_pty_event S DC x (PtyOutput t g bs) d =
     (let (bs, d1) = decode_task_output DC t (Some bs) d in
      if \<not> is_live (tm_status x) then d1
      else let (responses, x') = take_output S bs x in
        write_all_to_pty t g responses (change_terminal t (\<lambda>_. x') d1))"
| "on_live_pty_event S DC x (PtyExited t g exit) d =
     (let (trailing, d1) = decode_task_output DC t None d in
      complete_terminal_waits t (RExited exit)
        (change_run t (\<lambda>r. r\<lparr>run_status := exited_status exit r\<rparr>)
          (change_terminal t
            (\<lambda>x. x\<lparr>tm_screen := sc_feed S trailing (tm_screen x),
                   tm_capture := capture_finish (capture_push trailing (tm_capture x)),
                   tm_status := TermExited exit\<rparr>) d1)))"
| "on_live_pty_event S DC x (PtyFailed t g msg) d =
     (case tm_status x of
        TermExited _ \<Rightarrow> d
      | _ \<Rightarrow>
          complete_terminal_waits t (RError msg)
            (answer_create (creates_of t g) (RError msg)
              (change_run t (\<lambda>r. r\<lparr>run_status := TaskFailed\<rparr>)
                (dk_notify (ustr ''terminal: '' @ msg)
                  (change_terminal t
                    (\<lambda>x. x\<lparr>tm_capture := capture_finish (tm_capture x), tm_status := TermFailed msg\<rparr>) d)))))"

definition on_pty_event ::
  "'s screen_api \<Rightarrow> 'd decoder_api \<Rightarrow> pty_event \<Rightarrow> ('r, 's, 'd) desk \<Rightarrow> ('r, 's, 'd) desk" where
  "on_pty_event S DC e d =
     (case find_terminal (fst (event_terminal e)) d of
        None \<Rightarrow> d
      | Some x \<Rightarrow>
          if tm_generation x \<noteq> snd (event_terminal e) \<or> tm_released x then d
          else on_live_pty_event S DC x e d)"

section \<open>Tabs\<close>

definition active_terminal :: "('r, 's, 'd) desk \<Rightarrow> 's terminal_session option" where
  "active_terminal d =
     (case dk_active_terminal d of
        None \<Rightarrow> None
      | Some k \<Rightarrow> if k < length (dk_terminals d) then Some (dk_terminals d ! k) else None)"

text \<open>\<open>self.terminals[index]\<close> of the active tab: \<open>None\<close> is the panic.\<close>

definition change_active ::
  "('s terminal_session \<Rightarrow> 's terminal_session) \<Rightarrow> ('r, 's, 'd) desk \<Rightarrow> ('r, 's, 'd) desk option" where
  "change_active f d =
     (case dk_active_terminal d of
        None \<Rightarrow> Some d
      | Some k \<Rightarrow>
          if k < length (dk_terminals d)
          then Some (d\<lparr>dk_terminals := (dk_terminals d)[k := f (dk_terminals d ! k)]\<rparr>) else None)"

definition cancel_terminal_copy_mode ::
  "'s screen_api \<Rightarrow> ('r, 's, 'd) desk \<Rightarrow> ('r, 's, 'd) desk option" where
  "cancel_terminal_copy_mode S d =
     map_option (\<lambda>d. d\<lparr>dk_copy_mode := False\<rparr>)
       (change_active (\<lambda>x. x\<lparr>tm_screen := sc_clear_selection S (tm_screen x)\<rparr>) d)"

definition enter_terminal_copy_mode ::
  "'s screen_api \<Rightarrow> ('r, 's, 'd) desk \<Rightarrow> ('r, 's, 'd) desk option" where
  "enter_terminal_copy_mode S d =
     (if active_terminal d = None then Some (dk_notify (ustr ''no terminal to copy from'') d)
      else change_active (\<lambda>x. x\<lparr>tm_screen := sc_begin_selection S (tm_screen x)\<rparr>)
             ((focus_terminal_pane d)\<lparr>dk_copy_mode := True\<rparr>))"

definition confirm_terminal_copy_mode ::
  "'s screen_api \<Rightarrow> ('r, 's, 'd) desk \<Rightarrow> ('r, 's, 'd) desk option" where
  "confirm_terminal_copy_mode S d =
     (if \<not> dk_copy_mode d then Some d
      else do {
        let copied = (case active_terminal d of
                        None \<Rightarrow> []
                      | Some x \<Rightarrow> (case sc_selected_text S (tm_screen x) of
                                     Some t \<Rightarrow> if t \<noteq> [] then [t] else [] | None \<Rightarrow> []));
        d1 \<leftarrow> change_active (\<lambda>x. x\<lparr>tm_screen := sc_clear_selection S (tm_screen x)\<rparr>)
               (d\<lparr>dk_clipboard := dk_clipboard d @ copied\<rparr>);
        Some (d1\<lparr>dk_copy_mode := False\<rparr>) })"

definition focus_pane :: "'s screen_api \<Rightarrow> pane \<Rightarrow> ('r, 's, 'd) desk \<Rightarrow> ('r, 's, 'd) desk option" where
  "focus_pane S p d =
     do { d1 \<leftarrow> (if dk_focus d = TerminalPane \<and> p \<noteq> TerminalPane then cancel_terminal_copy_mode S d else Some d);
          Some (d1\<lparr>dk_focus := p\<rparr>) }"

definition toggle_terminal_focus ::
  "'s screen_api \<Rightarrow> terminal_spec \<Rightarrow> ('r, 's, 'd) desk \<Rightarrow> ('r, 's, 'd) desk option" where
  "toggle_terminal_focus S shell d =
     (if dk_focus d = TerminalPane
      then map_option (\<lambda>d. d\<lparr>dk_focus := dk_previous_focus d\<rparr>) (cancel_terminal_copy_mode S d)
      else if dk_terminals d = [] then Some (new_shell_terminal S shell d)
      else Some (focus_terminal_pane d))"

definition cycle_terminal ::
  "'s screen_api \<Rightarrow> terminal_spec \<Rightarrow> int \<Rightarrow> ('r, 's, 'd) desk \<Rightarrow> ('r, 's, 'd) desk" where
  "cycle_terminal S shell delta d =
     (if dk_terminals d = [] then new_shell_terminal S shell d
      else let current = (case dk_active_terminal d of Some k \<Rightarrow> int k | None \<Rightarrow> 0) in
        focus_terminal_pane (d\<lparr>dk_active_terminal :=
          Some (nat ((current + delta) mod int (length (dk_terminals d))))\<rparr>))"

definition restart_terminal ::
  "'s screen_api \<Rightarrow> terminal_spec \<Rightarrow> ('r, 's, 'd) desk \<Rightarrow> ('r, 's, 'd) desk option" where
  "restart_terminal S shell d0 =
     do { d \<leftarrow> cancel_terminal_copy_mode S d0;
          case dk_active_terminal d of
            None \<Rightarrow> Some (new_shell_terminal S shell d)
          | Some k \<Rightarrow>
              if length (dk_terminals d) \<le> k then None
              else let x = dk_terminals d ! k in
                if list_ex (\<lambda>c. pc_terminal c = tm_id x) (dk_creates d)
                then Some (dk_notify (ustr ''agent terminal is still starting'') d)
                else (let d1 = complete_terminal_waits (tm_id x) (RError (ustr ''terminal restarted'')) d;
                          d2 = (if tm_released x then d1
                                else to_pty (PtyRelease (tm_id x) (tm_generation x))
                                  (if is_live (tm_status x)
                                   then to_pty (PtyKill (tm_id x) (tm_generation x)) d1 else d1));
                          g = tm_generation x + 1
                      in Some (to_pty (PtySpawn (tm_id x) g (tm_spec x) (dk_size d2))
                           (d2\<lparr>dk_terminals := (dk_terminals d2)[k := x\<lparr>tm_generation := g,
                              tm_screen := sc_new S (dk_size d2), tm_capture := capture_new default_capture_limit,
                              tm_status := TermStarting, tm_released := False\<rparr>]\<rparr>))) }"

definition remove_terminal :: "terminal_id \<Rightarrow> bool \<Rightarrow> ('r, 's, 'd) desk \<Rightarrow> ('r, 's, 'd) desk" where
  "remove_terminal t kill d =
     (case find_position (\<lambda>x. tm_id x = t) (dk_terminals d) of
        None \<Rightarrow> d
      | Some k \<Rightarrow>
          (let d1 = complete_terminal_waits t (RError (ustr ''terminal closed''))
                 (answer_create (\<lambda>c. pc_terminal c = t) (RError (ustr ''terminal closed'')) d);
               previous = dk_active_terminal d1;
               x = dk_terminals d1 ! k;
               d2 = d1\<lparr>dk_terminals := take k (dk_terminals d1) @ drop (Suc k) (dk_terminals d1)\<rparr>;
               d3 = (if previous = Some k then d2\<lparr>dk_copy_mode := False\<rparr> else d2);
               d4 = (if tm_released x then d3
                     else to_pty (PtyRelease t (tm_generation x))
                       (if kill then to_pty (PtyKill t (tm_generation x)) d3 else d3))
           in if dk_terminals d4 = []
              then (if dk_focus d4 = TerminalPane then d4\<lparr>dk_focus := dk_previous_focus d4\<rparr> else d4)
                     \<lparr>dk_active_terminal := None\<rparr>
              else let top = length (dk_terminals d4) - 1 in
                d4\<lparr>dk_active_terminal := Some (case previous of
                    Some active \<Rightarrow> if active = k then min k top else if active > k then active - 1 else active
                  | None \<Rightarrow> min k top)\<rparr>))"

definition close_terminal :: "('r, 's, 'd) desk \<Rightarrow> ('r, 's, 'd) desk" where
  "close_terminal d =
     (case active_terminal d of
        None \<Rightarrow> dk_notify (ustr ''no terminal to close'') d
      | Some x \<Rightarrow>
          if \<not> tm_released x \<and> is_live (tm_status x)
          then d\<lparr>dk_app := push_overlay (OvPrompt (ustr ''Close '' @ tm_title x
            @ ustr '' and stop its process?  (Enter to confirm)'')) (dk_app d)\<rparr>
          else remove_terminal (tm_id x) False d)"

definition set_terminal_size :: "'s screen_api \<Rightarrow> nat \<Rightarrow> nat \<Rightarrow> ('r, 's, 'd) desk \<Rightarrow> ('r, 's, 'd) desk" where
  "set_terminal_size S rows cols d =
     (let size = (max rows 1, max cols 1) in
      if size = dk_size d then d
      else d\<lparr>dk_size := size,
             dk_terminals := map (\<lambda>x. x\<lparr>tm_screen := sc_resize S size (tm_screen x)\<rparr>) (dk_terminals d),
             dk_pty_outbox := dk_pty_outbox d @ map (\<lambda>x. PtyResize (tm_id x) (tm_generation x) size)
               (filter (\<lambda>x. \<not> tm_released x \<and> is_live (tm_status x)) (dk_terminals d))\<rparr>)"

section \<open>Typing\<close>

definition terminal_accepts_input :: "('r, 's, 'd) desk \<Rightarrow> bool" where
  "terminal_accepts_input d \<longleftrightarrow>
     (case active_terminal d of None \<Rightarrow> False | Some x \<Rightarrow> \<not> tm_released x \<and> is_live (tm_status x))"

definition escape_text :: "string \<Rightarrow> bytes" where
  "escape_text s = 27 # map of_char s"

definition encode_char :: "uchar \<Rightarrow> mods \<Rightarrow> bytes option" where
  "encode_char c m =
     (let prefix = (if m_alt m then [27] else []) in
      if m_ctrl m
      then (if 65 \<le> c \<and> c \<le> 90 \<or> 97 \<le> c \<and> c \<le> 122
            then Some (prefix @ [char_to_ascii_uppercase c mod 32]) else None)
      else Some (prefix @ utf8_char c))"

definition modifier_parameter :: "mods \<Rightarrow> nat option" where
  "modifier_parameter m =
     (if mods_is_none m then None
      else Some (1 + (if m_shift m then 1 else 0) + (if m_alt m then 2 else 0) + (if m_ctrl m then 4 else 0)))"

definition encode_modified :: "string \<Rightarrow> nat \<Rightarrow> string \<Rightarrow> bytes" where
  "encode_modified before modifier after = escape_text before @ decimal modifier @ map of_char after"

fun encode_plain :: "key \<Rightarrow> bool \<Rightarrow> bytes option" where
  "encode_plain Key_Enter _ = Some [13]"
| "encode_plain Key_Esc _ = Some [27]"
| "encode_plain Key_Tab _ = Some [9]"
| "encode_plain Key_BackTab _ = Some (escape_text ''[Z'')"
| "encode_plain Key_Backspace _ = Some [127]"
| "encode_plain Key_Up app = Some (escape_text (if app then ''OA'' else ''[A''))"
| "encode_plain Key_Down app = Some (escape_text (if app then ''OB'' else ''[B''))"
| "encode_plain Key_Right app = Some (escape_text (if app then ''OC'' else ''[C''))"
| "encode_plain Key_Left app = Some (escape_text (if app then ''OD'' else ''[D''))"
| "encode_plain Key_Home app = Some (escape_text (if app then ''OH'' else ''[H''))"
| "encode_plain Key_End app = Some (escape_text (if app then ''OF'' else ''[F''))"
| "encode_plain Key_PageUp _ = Some (escape_text ''[5~'')"
| "encode_plain Key_PageDown _ = Some (escape_text ''[6~'')"
| "encode_plain Key_Delete _ = Some (escape_text ''[3~'')"
| "encode_plain (Key_F n) _ =
     (if 1 \<le> unat n \<and> unat n \<le> 12
      then Some (escape_text ([''OP'', ''OQ'', ''OR'', ''OS'', ''[15~'', ''[17~'', ''[18~'', ''[19~'',
        ''[20~'', ''[21~'', ''[23~'', ''[24~''] ! (unat n - 1))) else None)"
| "encode_plain _ _ = None"

fun encode_with_mods :: "key \<Rightarrow> nat \<Rightarrow> bytes option" where
  "encode_with_mods Key_Up m = Some (encode_modified ''[1;'' m ''A'')"
| "encode_with_mods Key_Down m = Some (encode_modified ''[1;'' m ''B'')"
| "encode_with_mods Key_Right m = Some (encode_modified ''[1;'' m ''C'')"
| "encode_with_mods Key_Left m = Some (encode_modified ''[1;'' m ''D'')"
| "encode_with_mods Key_Home m = Some (encode_modified ''[1;'' m ''H'')"
| "encode_with_mods Key_End m = Some (encode_modified ''[1;'' m ''F'')"
| "encode_with_mods Key_PageUp m = Some (encode_modified ''[5;'' m ''~'')"
| "encode_with_mods Key_PageDown m = Some (encode_modified ''[6;'' m ''~'')"
| "encode_with_mods Key_Delete m = Some (encode_modified ''[3;'' m ''~'')"
| "encode_with_mods _ _ = None"

definition encode_key :: "key_chord \<Rightarrow> bool \<Rightarrow> bytes option" where
  "encode_key chord application_cursor =
     (case kc_key chord of
        Key_Char c \<Rightarrow> encode_char c (kc_mods chord)
      | k \<Rightarrow>
          if k = Key_Tab \<and> kc_mods chord = mods_none\<lparr>m_shift := True\<rparr> then Some (escape_text ''[Z'')
          else (case modifier_parameter (kc_mods chord) of
                  None \<Rightarrow> encode_plain k application_cursor
                | Some m \<Rightarrow> encode_with_mods k m))"

definition type_terminal_chord ::
  "'s screen_api \<Rightarrow> key_chord \<Rightarrow> ('r, 's, 'd) desk \<Rightarrow> ('r, 's, 'd) desk" where
  "type_terminal_chord S chord d =
     (case active_terminal d of
        None \<Rightarrow> d
      | Some x \<Rightarrow>
          if tm_released x \<or> \<not> is_live (tm_status x) then d
          else (case encode_key chord (sc_application_cursor S (tm_screen x)) of
                  None \<Rightarrow> d
                | Some bs \<Rightarrow> to_pty (PtyWrite (tm_id x) (tm_generation x) bs) d))"

end
