(* ===== verification/Desk_Agent.thy ===== *)
theory Desk_Agent
  imports Desk_Terminals Acp_Parse
begin

text \<open>
  The application's side of the conversation with an agent (\<open>crates/app/src/model.rs\<close>): its events,
  the terminals it asks for, the files it reads, the edits it proposes and the permissions the human
  gives.  The line diff of proposals is the parameter \<open>D\<close>; the text that goes with a prompt is an
  argument.
\<close>

section \<open>Showing proposals\<close>

fun refresh_proposals ::
  "'r rope_api \<Rightarrow> line_diff \<Rightarrow> 'r lsp_model \<Rightarrow> edit_proposal list \<Rightarrow> edit_proposal list option" where
  "refresh_proposals R D m [] = Some []"
| "refresh_proposals R D m (p # ps) =
     do { p' \<leftarrow> (case buffer_index (ep_path p) m of
                   None \<Rightarrow> Some p
                 | Some k \<Rightarrow> proposal_refresh D p (rope_chars R (b_text (lm_buffers m ! k))));
          ps' \<leftarrow> refresh_proposals R D m ps;
          Some (p' # ps') }"

definition hunk_decoration :: "proposal_id \<Rightarrow> hunk \<Rightarrow> decoration" where
  "hunk_decoration i h =
     \<lparr>d_start = h_start h, d_end = h_end h,
      d_class = Hunk i (if hunk_is_insertion h then Added else Removed) (h_state h)\<rparr>"

definition repaint :: "edit_proposal list \<Rightarrow> 'r buffer \<Rightarrow> 'r buffer" where
  "repaint ps b =
     (let cleared = fold (\<lambda>p ds. remove_proposal ds (ep_id p)) ps (b_decorations b) in
      b\<lparr>b_decorations :=
          (case b_path b of
             None \<Rightarrow> cleared
           | Some q \<Rightarrow> fold (\<lambda>d ds. decs_push ds d)
               (concat (map (\<lambda>p. map (hunk_decoration (ep_id p)) (ep_hunks p))
                  (filter (\<lambda>p. ep_path p = q) ps))) cleared)\<rparr>)"

definition sync_proposals ::
  "'r rope_api \<Rightarrow> line_diff \<Rightarrow> ('r, 's, 'd) desk \<Rightarrow> ('r, 's, 'd) desk option" where
  "sync_proposals R D d =
     (case dk_agent d of
        None \<Rightarrow> Some d
      | Some a \<Rightarrow>
          if as_proposals a = [] then Some d
          else do {
            ps \<leftarrow> refresh_proposals R D (dk_app d) (as_proposals a);
            Some (d\<lparr>dk_agent := Some (a\<lparr>as_proposals := ps\<rparr>),
                    dk_app := (dk_app d)\<lparr>lm_buffers := map (repaint ps) (lm_buffers (dk_app d))\<rparr>\<rparr>) })"

section \<open>Terminals of the agent\<close>

definition task_matches :: "terminal_spec \<Rightarrow> task_spec \<Rightarrow> bool" where
  "task_matches spec t \<longleftrightarrow> tk_program t = ts_program spec \<and> tk_args t = ts_args spec
     \<and> tk_cwd t = ts_cwd spec \<and> ts_env spec = []"

definition spawn_agent_terminal ::
  "'s screen_api \<Rightarrow> 'd decoder_api \<Rightarrow> session_id \<Rightarrow> nat \<Rightarrow> terminal_spec \<Rightarrow> nat \<Rightarrow>
   ('r, 's, 'd) desk \<Rightarrow> ('r, 's, 'd) desk option" where
  "spawn_agent_terminal S DC session request spec limit d =
     (let task = find (task_matches spec) (dk_catalog d);
          (t, d1) = create_terminal_with_limit S spec (AgentOwner session) limit d;
          d2 = (case task of Some k \<Rightarrow> attach_task_run DC k t (AgentTask session) d1 | None \<Rightarrow> d1)
      in do { x \<leftarrow> find_terminal t d2;
              Some (d2\<lparr>dk_creates := dk_creates d2
                @ [\<lparr>pc_request = request, pc_terminal = t, pc_generation = tm_generation x\<rparr>]\<rparr>) })"

definition owns :: "session_id \<Rightarrow> 's terminal_session \<Rightarrow> bool" where
  "owns session x \<longleftrightarrow> tm_owner x = AgentOwner session \<and> \<not> tm_released x"

definition release_terminal ::
  "utext \<Rightarrow> 's terminal_session \<Rightarrow> ('r, 's, 'd) desk \<Rightarrow> ('r, 's, 'd) desk" where
  "release_terminal reason x d =
     complete_terminal_waits (tm_id x) (RError reason)
       (change_terminal (tm_id x) (\<lambda>y. y\<lparr>tm_released := True\<rparr>)
         (to_pty (PtyRelease (tm_id x) (tm_generation x))
           (if is_live (tm_status x) then to_pty (PtyKill (tm_id x) (tm_generation x)) d else d)))"

fun operate :: "nat \<Rightarrow> terminal_operation \<Rightarrow> 's terminal_session \<Rightarrow> ('r, 's, 'd) desk \<Rightarrow> ('r, 's, 'd) desk" where
  "operate request (TCreate _ _ _) x d = d"
| "operate request (TOutput _) x d =
     respond_terminal request
       (ROutput (cp_text (tm_capture x)) (cp_truncated (tm_capture x))
         (case tm_status x of TermExited exit \<Rightarrow> Some exit | _ \<Rightarrow> None)) d"
| "operate request (TWaitForExit _) x d =
     (case tm_status x of
        TermExited exit \<Rightarrow> respond_terminal request (RExited exit) d
      | TermFailed msg \<Rightarrow> respond_terminal request (RError msg) d
      | _ \<Rightarrow> d\<lparr>dk_waits := dk_waits d @ [(request, tm_id x)]\<rparr>)"
| "operate request (TKill _) x d =
     respond_terminal request RAcknowledged
       (complete_terminal_waits (tm_id x) (RExited \<lparr>te_code = None, te_signal = Some (ustr ''killed'')\<rparr>)
         (to_pty (PtyKill (tm_id x) (tm_generation x)) d))"
| "operate request (TRelease _) x d =
     respond_terminal request RAcknowledged (release_terminal (ustr ''terminal released'') x d)"

fun operation_terminal :: "terminal_operation \<Rightarrow> terminal_id option" where
  "operation_terminal (TCreate _ _ _) = None"
| "operation_terminal (TOutput t) = Some t"
| "operation_terminal (TWaitForExit t) = Some t"
| "operation_terminal (TKill t) = Some t"
| "operation_terminal (TRelease t) = Some t"

definition permitted :: "terminal_spec \<Rightarrow> bool \<Rightarrow> ('r, 's, 'd) desk \<Rightarrow> bool" where
  "permitted spec preauthorized d \<longleftrightarrow> preauthorized
     \<or> (case lm_root (dk_app d) of None \<Rightarrow> False | Some root \<Rightarrow> permits (dk_policy d) root spec)"

definition create_prompt :: "session_id \<Rightarrow> nat \<Rightarrow> terminal_spec \<Rightarrow> nat \<Rightarrow> pending_permission" where
  "create_prompt session request spec limit =
     \<lparr>pn_origin = TerminalAsked session request spec limit,
      pn_summary = ustr ''Run '' @ ts_program spec @ ustr '' in a managed terminal?'',
      pn_command = ts_program spec # ts_args spec, pn_review = None\<rparr>"

definition handle_agent_terminal ::
  "'s screen_api \<Rightarrow> 'd decoder_api \<Rightarrow> session_id \<Rightarrow> nat \<Rightarrow> terminal_operation \<Rightarrow>
   ('r, 's, 'd) desk \<Rightarrow> ('r, 's, 'd) desk option" where
  "handle_agent_terminal S DC session request operation d =
     (case dk_agent d of
        None \<Rightarrow> Some (respond_terminal request (RError (ustr ''unknown agent session'')) d)
      | Some a \<Rightarrow>
          if as_id a \<noteq> session
          then Some (respond_terminal request (RError (ustr ''unknown agent session'')) d)
          else (case operation of
            TCreate spec limit preauthorized \<Rightarrow>
              if permitted spec preauthorized d
              then spawn_agent_terminal S DC session request spec limit d
              else Some (if as_permission a \<noteq> None
                then respond_terminal request (RError (ustr ''another permission request is pending'')) d
                else d\<lparr>dk_agent := Some (a\<lparr>as_permission := Some (create_prompt session request spec limit)\<rparr>)\<rparr>)
          | _ \<Rightarrow>
              Some (case find (\<lambda>x. Some (tm_id x) = operation_terminal operation \<and> owns session x) (dk_terminals d) of
                      None \<Rightarrow> respond_terminal request (RError (ustr ''unknown or released terminal'')) d
                    | Some x \<Rightarrow> operate request operation x d)))"

definition reject_pending_permission ::
  "session_id option \<Rightarrow> utext \<Rightarrow> ('r, 's, 'd) desk \<Rightarrow> ('r, 's, 'd) desk" where
  "reject_pending_permission session reason d =
     (case dk_agent d of
        None \<Rightarrow> d
      | Some a \<Rightarrow>
          if session \<noteq> None \<and> session \<noteq> Some (as_id a) then d
          else (case as_permission a of
            None \<Rightarrow> d
          | Some pending \<Rightarrow>
              (let d1 = d\<lparr>dk_agent := Some (a\<lparr>as_permission := None\<rparr>)\<rparr> in
               case pn_origin pending of
                 AgentAsked request _ \<Rightarrow> say (PermissionCancelled request) d1
               | TerminalAsked _ request _ _ \<Rightarrow> respond_terminal request (RError reason) d1)))"

definition creates_owned :: "session_id \<Rightarrow> ('r, 's, 'd) desk \<Rightarrow> pending_terminal_create \<Rightarrow> bool" where
  "creates_owned session d c \<longleftrightarrow>
     list_ex (\<lambda>x. tm_id x = pc_terminal c \<and> tm_owner x = AgentOwner session) (dk_terminals d)"

definition cancel_agent_terminals ::
  "session_id \<Rightarrow> utext \<Rightarrow> ('r, 's, 'd) desk \<Rightarrow> ('r, 's, 'd) desk" where
  "cancel_agent_terminals session reason d =
     (let d1 = reject_pending_permission (Some session) reason d;
          d2 = d1\<lparr>dk_creates := filter (\<lambda>c. \<not> creates_owned session d1 c) (dk_creates d1),
                  dk_outbox := dk_outbox d1 @ map (\<lambda>c. TerminalResponse (pc_request c) (RError reason))
                    (filter (creates_owned session d1) (dk_creates d1))\<rparr>
      in fold (release_terminal reason) (filter (owns session) (dk_terminals d2)) d2)"

definition shutdown_terminals :: "('r, 's, 'd) desk \<Rightarrow> ('r, 's, 'd) desk" where
  "shutdown_terminals d =
     (let reason = ustr ''application shutting down'';
          d1 = reject_pending_permission None reason d;
          live = filter (\<lambda>x. \<not> tm_released x) (dk_terminals d1)
      in d1\<lparr>dk_creates := [], dk_waits := [],
            dk_outbox := dk_outbox d1
              @ map (\<lambda>c. TerminalResponse (pc_request c) (RError reason)) (dk_creates d1)
              @ map (\<lambda>(request, _). TerminalResponse request (RError reason)) (dk_waits d1),
            dk_pty_outbox := dk_pty_outbox d1 @ concat (map (\<lambda>x.
              (if is_live (tm_status x) then [PtyKill (tm_id x) (tm_generation x)] else [])
              @ [PtyRelease (tm_id x) (tm_generation x)]) live),
            dk_terminals := map (\<lambda>x. x\<lparr>tm_released := True\<rparr>) (dk_terminals d1)\<rparr>)"

section \<open>Reading and proposing\<close>

definition push_transcript :: "speaker \<Rightarrow> utext \<Rightarrow> ('r, 's, 'd) desk \<Rightarrow> ('r, 's, 'd) desk" where
  "push_transcript who t d =
     (case dk_agent d of
        None \<Rightarrow> d
      | Some a \<Rightarrow>
          (let ls = as_transcript a;
               ls' = (if ls \<noteq> [] \<and> fst (List.last ls) = who
                      then butlast ls @ [(who, snd (List.last ls) @ t)] else ls @ [(who, t)])
           in d\<lparr>dk_agent := Some (a\<lparr>as_transcript := (if length ls' > 500 then tl ls' else ls')\<rparr>), dk_scroll := 0\<rparr>))"

definition serve_read ::
  "'r rope_api \<Rightarrow> session_id \<Rightarrow> nat \<Rightarrow> path \<Rightarrow> ('r, 's, 'd) desk \<Rightarrow> ('r, 's, 'd) desk" where
  "serve_read R session request p d =
     (case buffer_index p (dk_app d) of
        Some k \<Rightarrow>
          (let b = lm_buffers (dk_app d) ! k; t = rope_chars R (b_text b) in
           say (FileContents session request p (Some t))
             (d\<lparr>dk_served := filter (\<lambda>r. sv_path r \<noteq> p) (dk_served d)
                 @ [\<lparr>sv_path = p, sv_version = b_version b, sv_text = t\<rparr>]\<rparr>))
      | None \<Rightarrow>
          if \<not> (case lm_root (dk_app d) of None \<Rightarrow> False | Some root \<Rightarrow> path_starts_with p root)
          then say (FileContents session request p None) d
          else (let i = lm_next_buffer (dk_app d) + 1 in
            d\<lparr>dk_reads := dk_reads d
                @ [\<lparr>pr_buffer = i, pr_session = session, pr_request = request, pr_path = p\<rparr>],
              dk_app := (dk_app d)\<lparr>lm_next_buffer := i,
                lm_fs_outbox := lm_fs_outbox (dk_app d) @ [FsReadFile i p]\<rparr>\<rparr>))"

text \<open>\<open>FileLoaded\<close> and \<open>FileFailed\<close>: the reads for the agent are told apart by their id first.\<close>

definition answer_read :: "pending_agent_read \<Rightarrow> utext option \<Rightarrow> ('r, 's, 'd) desk \<Rightarrow> ('r, 's, 'd) desk" where
  "answer_read r contents d =
     say (FileContents (pr_session r) (pr_request r) (pr_path r) contents)
       (d\<lparr>dk_reads := remove1 r (dk_reads d)\<rparr>)"

definition desk_file_loaded ::
  "'r rope_api \<Rightarrow> buffer_id \<Rightarrow> path \<Rightarrow> bytes \<Rightarrow> ('r, 's, 'd) desk \<Rightarrow> ('r, 's, 'd) desk option" where
  "desk_file_loaded R i p bs d =
     (case find (\<lambda>r. pr_buffer r = i) (dk_reads d) of
        Some r \<Rightarrow> Some (answer_read r (utf8_decode bs) d)
      | None \<Rightarrow> map_option (\<lambda>m. d\<lparr>dk_app := m\<rparr>) (on_file_loaded R i p bs (dk_app d)))"

definition desk_file_failed :: "buffer_id \<Rightarrow> fs_error \<Rightarrow> ('r, 's, 'd) desk \<Rightarrow> ('r, 's, 'd) desk" where
  "desk_file_failed i e d =
     (case find (\<lambda>r. pr_buffer r = i) (dk_reads d) of
        Some r \<Rightarrow> answer_read r None d
      | None \<Rightarrow> d\<lparr>dk_app := on_file_failed i e (dk_app d)\<rparr>)"

definition review_for_permission ::
  "'r rope_api \<Rightarrow> line_diff \<Rightarrow> nat \<Rightarrow> proposed_edit_diff \<Rightarrow> utext \<Rightarrow> ('r, 's, 'd) desk \<Rightarrow>
   ((proposal_id option \<times> utext) \<times> ('r, 's, 'd) desk) option" where
  "review_for_permission R D request ed summary d =
     (let name = display_name (pe_path ed) in
      case buffer_index (pe_path ed) (dk_app d) of
        None \<Rightarrow> Some ((None, summary @ ustr '' (open '' @ name @ ustr '' to see the diff)''), d)
      | Some k \<Rightarrow>
          (let current = rope_chars R (b_text (lm_buffers (dk_app d) ! k)) in
           case whole_file_from_permission_diff current (pe_old_text ed) (pe_new_text ed) of
             Inl anchor_failure.NotFound \<Rightarrow>
               Some ((None, summary @ ustr '' ('' @ name @ ustr '' has changed since the agent read it)''), d)
           | Inl Ambiguous \<Rightarrow>
               Some ((None, summary @ ustr '' (the change matches several places in '' @ name @ ustr '')''), d)
           | Inr whole \<Rightarrow> do {
               p \<leftarrow> proposal_new D request (pe_path ed) None current whole current;
               d' \<leftarrow> sync_proposals R D (change_agent (\<lambda>a. a\<lparr>as_proposals := as_proposals a @ [p]\<rparr>) d);
               Some ((Some request, summary), d') }))"

text \<open>The proposal a permission waits on the human for, if it is one that edits this file.\<close>

definition reviewed :: "agent_session \<Rightarrow> proposal_id option" where
  "reviewed a = Option.bind (as_permission a) pn_review"

definition gated_here :: "path \<Rightarrow> agent_session \<Rightarrow> bool" where
  "gated_here p a \<longleftrightarrow>
     (case reviewed a of
        None \<Rightarrow> False
      | Some i \<Rightarrow>
          (case find (\<lambda>q. ep_id q = i) (as_proposals a) of None \<Rightarrow> False | Some q \<Rightarrow> ep_path q = p))"

definition receive_proposal ::
  "'r rope_api \<Rightarrow> line_diff \<Rightarrow> proposal_id \<Rightarrow> path \<Rightarrow> utext option \<Rightarrow> utext \<Rightarrow>
   ('r, 's, 'd) desk \<Rightarrow> ('r, 's, 'd) desk option" where
  "receive_proposal R D i p old_text new_text d =
     (if (case dk_agent d of None \<Rightarrow> False | Some a \<Rightarrow> gated_here p a) then Some d
      else case buffer_index p (dk_app d) of
        None \<Rightarrow> Some (dk_notify (ustr ''agent proposed edits to '' @ display_name p
          @ ustr ''; open it to review'') d)
      | Some k \<Rightarrow>
          (let current = rope_chars R (b_text (lm_buffers (dk_app d) ! k));
               old = (case old_text of Some t \<Rightarrow> t | None \<Rightarrow> current);
               base = map_option sv_version
                 (find (\<lambda>r. sv_path r = p \<and> sv_text r = old) (rev (dk_served d)))
           in do { q \<leftarrow> proposal_new D i p base old new_text current;
                   sync_proposals R D
                     (change_agent (\<lambda>a. a\<lparr>as_proposals := filter (\<lambda>x. ep_id x \<noteq> i) (as_proposals a) @ [q]\<rparr>) d) }))"

section \<open>The human decides\<close>

definition remember_permission :: "terminal_spec \<Rightarrow> ('r, 's, 'd) desk \<Rightarrow> ('r, 's, 'd) desk" where
  "remember_permission spec d =
     (let (remembered, policy) = (case lm_root (dk_app d) of
            None \<Rightarrow> (False, dk_policy d) | Some root \<Rightarrow> remember root spec (dk_policy d));
          d1 = d\<lparr>dk_policy := policy\<rparr>
      in if remembered then d1
         else dk_notify (ustr ''approved once; cwd or environment made this command unsafe to remember'') d1)"

definition settle_permission ::
  "'s screen_api \<Rightarrow> 'd decoder_api \<Rightarrow> permission_decision \<Rightarrow> permission_origin \<Rightarrow>
   ('r, 's, 'd) desk \<Rightarrow> ('r, 's, 'd) desk option" where
  "settle_permission S DC decision origin d =
     (case origin of
        AgentAsked request spec \<Rightarrow>
          Some (say (Permission request decision)
            (case spec of
               Some s \<Rightarrow> if decision = AllowAlways then remember_permission s d else d
             | None \<Rightarrow> d))
      | TerminalAsked session request spec limit \<Rightarrow>
          if allows decision
          then spawn_agent_terminal S DC session request spec limit
                 (if decision = AllowAlways then remember_permission spec d else d)
          else Some (respond_terminal request (RError (ustr ''command rejected'')) d))"

definition notify_if_quiet :: "utext \<Rightarrow> ('r, 's, 'd) desk \<Rightarrow> ('r, 's, 'd) desk" where
  "notify_if_quiet msg d = (if lm_notification (dk_app d) = None then dk_notify msg d else d)"

definition decide_permission ::
  "'r rope_api \<Rightarrow> 's screen_api \<Rightarrow> 'd decoder_api \<Rightarrow> line_diff \<Rightarrow> permission_decision \<Rightarrow>
   ('r, 's, 'd) desk \<Rightarrow> ('r, 's, 'd) desk option" where
  "decide_permission R S DC D decision d =
     (case dk_agent d of
        None \<Rightarrow> Some d
      | Some a \<Rightarrow>
          (case as_permission a of
             None \<Rightarrow> Some d
           | Some pending \<Rightarrow> do {
               let d1 = d\<lparr>dk_agent := Some (a\<lparr>as_permission := None\<rparr>)\<rparr>;
               d2 \<leftarrow> (case pn_review pending of
                        None \<Rightarrow> Some d1
                      | Some i \<Rightarrow> sync_proposals R D
                          (change_agent (\<lambda>a. a\<lparr>as_proposals := filter (\<lambda>p. ep_id p \<noteq> i) (as_proposals a)\<rparr>) d1));
               d3 \<leftarrow> settle_permission S DC decision (pn_origin pending) d2;
               Some (notify_if_quiet ((if allows decision then ustr ''approved: '' else ustr ''denied: '')
                 @ pn_summary pending) d3) }))"

definition gated_first :: "agent_session \<Rightarrow> bool" where
  "gated_first a \<longleftrightarrow>
     (case (reviewed a, as_proposals a) of (Some i, p # _) \<Rightarrow> ep_id p = i | _ \<Rightarrow> False)"

text \<open>The clean hunks of an accepted proposal as one transaction, and how many were applied.\<close>

definition apply_proposal ::
  "'r rope_api \<Rightarrow> edit_proposal \<Rightarrow> ('r, 's, 'd) desk \<Rightarrow> (nat \<times> ('r, 's, 'd) desk) option" where
  "apply_proposal R p d =
     (case buffer_index (ep_path p) (dk_app d) of
        None \<Rightarrow> Some (0, d)
      | Some k \<Rightarrow>
          (let clean = applicable p; b = lm_buffers (dk_app d) ! k in
           if clean = [] then Some (0, d)
           else do {
             cs \<leftarrow> changeset_from_hunks clean (rope_len R (b_text b));
             let (tx, b1) = transaction cs (edit_source.Agent (ep_id p)) b;
             (r, b2) \<leftarrow> buffer_apply R tx b1;
             let d1 = d\<lparr>dk_app := (dk_app d)\<lparr>lm_buffers := (lm_buffers (dk_app d))[k := b2]\<rparr>\<rparr>;
             Some (case r of Inl e \<Rightarrow> (0, dk_notify (edit_error_fmt e) d1) | Inr _ \<Rightarrow> (length clean, d1)) }))"

definition review_note :: "bool \<Rightarrow> nat \<Rightarrow> nat \<Rightarrow> nat \<Rightarrow> utext" where
  "review_note accept taken satisfied all_hunks =
     (if \<not> accept then ustr ''rejected '' @ decimal all_hunks @ ustr '' edit(s)''
      else if taken = 0
      then (if satisfied = all_hunks then ustr ''nothing to apply '' @ [8212]
              @ ustr '' the buffer already matches what was proposed''
            else ustr ''nothing applied '' @ [8212] @ ustr '' every hunk conflicted'')
      else if taken + satisfied = all_hunks
      then ustr ''applied '' @ decimal taken @ ustr '' edit(s); '' @ decimal satisfied @ ustr '' already present''
      else if taken < all_hunks
      then ustr ''applied '' @ decimal taken @ ustr '' of '' @ decimal all_hunks @ ustr '' edit(s); the rest conflicted''
      else ustr ''applied '' @ decimal taken @ ustr '' edit(s)'')"

definition resolve_proposal ::
  "'r rope_api \<Rightarrow> 's screen_api \<Rightarrow> 'd decoder_api \<Rightarrow> line_diff \<Rightarrow> bool \<Rightarrow>
   ('r, 's, 'd) desk \<Rightarrow> ('r, 's, 'd) desk option" where
  "resolve_proposal R S DC D accept d =
     (case dk_agent d of
        None \<Rightarrow> Some (dk_notify (ustr ''no agent session'') d)
      | Some a \<Rightarrow>
          if gated_first a
          then map_option
            (dk_notify (if accept then ustr ''allowed '' @ [8212] @ ustr '' the agent is making the change''
                        else ustr ''rejected '' @ [8212] @ ustr '' the file is untouched''))
            (decide_permission R S DC D (if accept then AllowOnce else RejectOnce) d)
          else (case as_proposals a of
            [] \<Rightarrow> Some (dk_notify (ustr ''nothing to review'') d)
          | p # ps \<Rightarrow> do {
              let d1 = d\<lparr>dk_agent := Some (a\<lparr>as_proposals := ps\<rparr>)\<rparr>;
              let all_hunks = length (ep_hunks p);
              let satisfied = length (filter (\<lambda>h. h_state h = Satisfied) (ep_hunks p));
              (taken, d2) \<leftarrow> (if accept then apply_proposal R p d1 else Some (0, d1));
              let d3 = d2\<lparr>dk_app := (dk_app d2)\<lparr>lm_buffers :=
                map (\<lambda>b. b\<lparr>b_decorations := remove_proposal (b_decorations b) (ep_id p)\<rparr>)
                  (lm_buffers (dk_app d2))\<rparr>\<rparr>;
              Some (dk_notify (review_note accept taken satisfied all_hunks)
                (say (Permission (ep_id p) (permission_for_review taken all_hunks)) d3)) }))"

section \<open>Prompts and modes\<close>

definition new_agent_session :: "('r, 's, 'd) desk \<Rightarrow> ('r, 's, 'd) desk" where
  "new_agent_session d =
     (case lm_root (dk_app d) of
        None \<Rightarrow> dk_notify (ustr ''open a workspace before starting an agent'') d
      | Some root \<Rightarrow> say (NewSession root) d)"

definition prompt_agent :: "('r, 's, 'd) desk \<Rightarrow> ('r, 's, 'd) desk" where
  "prompt_agent d =
     (if \<not> dk_agent_named d
      then dk_notify (ustr ''no agent configured '' @ [8212] @ ustr '' see ~/.config/termesh/agents.toml'') d
      else if (case dk_agent d of Some a \<Rightarrow> as_turn_active a | None \<Rightarrow> False)
      then dk_notify (ustr ''the agent is still working'') d
      else d\<lparr>dk_app := push_overlay (OvPrompt (ustr ''Ask the agent'')) (dk_app d)\<rparr>)"

definition send_prompt :: "utext \<Rightarrow> session_id \<Rightarrow> utext \<Rightarrow> ('r, 's, 'd) desk \<Rightarrow> ('r, 's, 'd) desk" where
  "send_prompt ctx session t d =
     say (Prompt session t ctx)
       (change_agent (\<lambda>a. a\<lparr>as_turn_active := True, as_transcript := as_transcript a @ [(You, t)]\<rparr>) d)"

definition starting_session :: utext where
  "starting_session = ustr ''starting an agent session'' @ [8230]"

text \<open>The confirmed prompt \<open>AgentPrompt\<close>; \<open>session\<close> is the one of the moment the prompt was opened.\<close>

definition confirm_agent_prompt ::
  "utext \<Rightarrow> session_id \<Rightarrow> utext \<Rightarrow> ('r, 's, 'd) desk \<Rightarrow> ('r, 's, 'd) desk" where
  "confirm_agent_prompt ctx session name d =
     (if name = [] then dk_notify (ustr ''nothing to ask'') d
      else case dk_agent d of
        Some _ \<Rightarrow> send_prompt ctx session name d
      | None \<Rightarrow> dk_notify starting_session (new_agent_session (d\<lparr>dk_pending_prompt := Some name\<rparr>)))"

definition set_agent_mode :: "utext \<Rightarrow> ('r, 's, 'd) desk \<Rightarrow> ('r, 's, 'd) desk" where
  "set_agent_mode mode d =
     (case dk_agent d of None \<Rightarrow> d | Some a \<Rightarrow> say (SetMode (as_id a) mode) d)"

section \<open>What the agent says\<close>

definition session_started :: "utext \<Rightarrow> session_id \<Rightarrow> ('r, 's, 'd) desk \<Rightarrow> ('r, 's, 'd) desk" where
  "session_started ctx session d =
     (let d1 = (if lm_notification (dk_app d) = Some starting_session
                then d\<lparr>dk_app := (dk_app d)\<lparr>lm_notification := None\<rparr>\<rparr> else d);
          d2 = (case dk_agent d1 of
                  None \<Rightarrow> d1
                | Some a \<Rightarrow> cancel_agent_terminals (as_id a) (ustr ''agent session replaced'') d1);
          d3 = d2\<lparr>dk_agent := Some \<lparr>as_id = session, as_transcript = [], as_proposals = [],
                 as_permission = None, as_attached = [], as_turn_active = False, as_modes = [],
                 as_current_mode = None\<rparr>\<rparr>
      in case dk_pending_prompt d3 of
           None \<Rightarrow> d3
         | Some t \<Rightarrow> send_prompt ctx session t (d3\<lparr>dk_pending_prompt := None\<rparr>))"

definition permission_requested ::
  "'r rope_api \<Rightarrow> line_diff \<Rightarrow> session_id \<Rightarrow> nat \<Rightarrow> utext \<Rightarrow> utext list \<Rightarrow> terminal_spec option \<Rightarrow>
   proposed_edit_diff option \<Rightarrow> ('r, 's, 'd) desk \<Rightarrow> ('r, 's, 'd) desk option" where
  "permission_requested R D session request summary command spec ed d =
     (if (case dk_agent d of None \<Rightarrow> False | Some a \<Rightarrow> as_id a = session \<and> as_permission a = None)
      then do {
        ((review, summary'), d1) \<leftarrow>
          (case ed of Some e \<Rightarrow> review_for_permission R D request e summary d | None \<Rightarrow> Some ((None, summary), d));
        Some (change_agent (\<lambda>a. a\<lparr>as_permission := Some \<lparr>pn_origin = AgentAsked request spec,
          pn_summary = summary', pn_command = command, pn_review = review\<rparr>\<rparr>) d1) }
      else Some (say (Permission request RejectOnce) d))"

definition for_session :: "session_id \<Rightarrow> (agent_session \<Rightarrow> agent_session) \<Rightarrow> ('r, 's, 'd) desk \<Rightarrow> ('r, 's, 'd) desk" where
  "for_session session f d = change_agent (\<lambda>a. if as_id a = session then f a else a) d"

definition mode_changed :: "session_id \<Rightarrow> utext \<Rightarrow> ('r, 's, 'd) desk \<Rightarrow> ('r, 's, 'd) desk" where
  "mode_changed session mode d =
     (case dk_agent d of
        None \<Rightarrow> d
      | Some a \<Rightarrow>
          if as_id a \<noteq> session then d
          else dk_notify (ustr ''agent mode: ''
            @ (case find (\<lambda>m. sm_id m = mode) (as_modes a) of Some m \<Rightarrow> sm_name m | None \<Rightarrow> mode))
            (d\<lparr>dk_agent := Some (a\<lparr>as_current_mode := Some mode\<rparr>)\<rparr>))"

fun on_agent_event ::
  "'r rope_api \<Rightarrow> 's screen_api \<Rightarrow> 'd decoder_api \<Rightarrow> line_diff \<Rightarrow> utext \<Rightarrow> agent_event \<Rightarrow>
   ('r, 's, 'd) desk \<Rightarrow> ('r, 's, 'd) desk option" where
  "on_agent_event R S DC D ctx (Ready cap) d = Some (d\<lparr>dk_capabilities := Some cap\<rparr>)"
| "on_agent_event R S DC D ctx (ModesAvailable session current available) d =
     Some (for_session session (\<lambda>a. a\<lparr>as_modes := available, as_current_mode := Some current\<rparr>) d)"
| "on_agent_event R S DC D ctx (ModeChanged session mode) d = Some (mode_changed session mode d)"
| "on_agent_event R S DC D ctx (SessionStarted session) d = Some (session_started ctx session d)"
| "on_agent_event R S DC D ctx (MessageChunk _ t) d = Some (push_transcript TheAgent t d)"
| "on_agent_event R S DC D ctx (ThoughtChunk _ t) d = Some (push_transcript Thought t d)"
| "on_agent_event R S DC D ctx (ReadFileRequested session request p) d = Some (serve_read R session request p d)"
| "on_agent_event R S DC D ctx (ProposedEdit _ i p old new) d = receive_proposal R D i p old new d"
| "on_agent_event R S DC D ctx (PermissionRequested session request summary command spec ed) d =
     permission_requested R D session request summary command spec ed d"
| "on_agent_event R S DC D ctx (TerminalRequest session request operation) d =
     handle_agent_terminal S DC session request operation d"
| "on_agent_event R S DC D ctx (TerminalAttached session t) d =
     Some (if list_ex (\<lambda>x. tm_id x = t \<and> tm_owner x = AgentOwner session) (dk_terminals d)
           then for_session session (\<lambda>a. if t \<in> set (as_attached a) then a
                                        else a\<lparr>as_attached := as_attached a @ [t]\<rparr>) d
           else d)"
| "on_agent_event R S DC D ctx (TurnEnded session reason) d =
     (let d1 = change_agent (\<lambda>a. a\<lparr>as_turn_active := False\<rparr>) d in
      Some (if reason = Cancelled then cancel_agent_terminals session (ustr ''agent session cancelled'') d1 else d1))"
| "on_agent_event R S DC D ctx (AgentFailed session msg) d =
     Some (dk_notify (ustr ''agent: '' @ msg)
       (cancel_agent_terminals session (ustr ''agent session failed'')
         (change_agent (\<lambda>a. a\<lparr>as_turn_active := False\<rparr>) d)))"

end
