(* ===== verification/Desk_Claims.thy ===== *)
theory Desk_Claims
  imports Desk_Agent "HOL-Library.Multiset"
begin

text \<open>
  What the application owes the agent: every call the agent makes is answered once or still open,
  and what is open is in the hands of the human, of a running process or of the disk.
\<close>

section \<open>Runs\<close>

datatype 'r desk_op =
    AgentSays agent_event
  | ProcessSays pty_event
  | Decides permission_decision
  | Reviews bool
  | FileCame buffer_id path bytes
  | FileBroke buffer_id fs_error
  | AppMoves "'r lsp_model"
  | Repaints
  | ClosesTerminal
  | RemovesTerminal terminal_id bool
  | RestartsTerminal terminal_spec
  | OpensShell terminal_spec
  | CyclesTerminals terminal_spec int
  | TogglesTerminal terminal_spec
  | FocusesPane pane
  | EntersCopyMode
  | ConfirmsCopyMode
  | CancelsCopyMode
  | ResizesTerminals nat nat
  | TypesChord key_chord
  | RunsTask task_spec
  | CancelsTask
  | AsksForSession
  | AsksForPrompt
  | ConfirmsPrompt session_id utext
  | ChoosesMode utext
  | ShutsDown

fun desk_step ::
  "'r rope_api \<Rightarrow> 's screen_api \<Rightarrow> 'd decoder_api \<Rightarrow> line_diff \<Rightarrow> utext \<Rightarrow> 'r desk_op \<Rightarrow>
   ('r, 's, 'd) desk \<Rightarrow> ('r, 's, 'd) desk option" where
  "desk_step R S DC D ctx (AgentSays e) d = on_agent_event R S DC D ctx e d"
| "desk_step R S DC D ctx (ProcessSays e) d = Some (on_pty_event S DC e d)"
| "desk_step R S DC D ctx (Decides dec) d = decide_permission R S DC D dec d"
| "desk_step R S DC D ctx (Reviews accept) d = resolve_proposal R S DC D accept d"
| "desk_step R S DC D ctx (FileCame i p bs) d = desk_file_loaded R i p bs d"
| "desk_step R S DC D ctx (FileBroke i e) d = Some (desk_file_failed i e d)"
| "desk_step R S DC D ctx (AppMoves m) d = Some (d\<lparr>dk_app := m\<rparr>)"
| "desk_step R S DC D ctx Repaints d = sync_proposals R D d"
| "desk_step R S DC D ctx ClosesTerminal d = Some (close_terminal d)"
| "desk_step R S DC D ctx (RemovesTerminal t kill) d = Some (remove_terminal t kill d)"
| "desk_step R S DC D ctx (RestartsTerminal shell) d = restart_terminal S shell d"
| "desk_step R S DC D ctx (OpensShell shell) d = Some (new_shell_terminal S shell d)"
| "desk_step R S DC D ctx (CyclesTerminals shell delta) d = Some (cycle_terminal S shell delta d)"
| "desk_step R S DC D ctx (TogglesTerminal shell) d = toggle_terminal_focus S shell d"
| "desk_step R S DC D ctx (FocusesPane p) d = focus_pane S p d"
| "desk_step R S DC D ctx EntersCopyMode d = enter_terminal_copy_mode S d"
| "desk_step R S DC D ctx ConfirmsCopyMode d = confirm_terminal_copy_mode S d"
| "desk_step R S DC D ctx CancelsCopyMode d = cancel_terminal_copy_mode S d"
| "desk_step R S DC D ctx (ResizesTerminals rows cols) d = Some (set_terminal_size S rows cols d)"
| "desk_step R S DC D ctx (TypesChord chord) d = Some (type_terminal_chord S chord d)"
| "desk_step R S DC D ctx (RunsTask spec) d = Some (run_task S DC spec d)"
| "desk_step R S DC D ctx CancelsTask d = Some (cancel_latest_task d)"
| "desk_step R S DC D ctx AsksForSession d = Some (new_agent_session d)"
| "desk_step R S DC D ctx AsksForPrompt d = Some (prompt_agent d)"
| "desk_step R S DC D ctx (ConfirmsPrompt session t) d = Some (confirm_agent_prompt ctx session t d)"
| "desk_step R S DC D ctx (ChoosesMode mode) d = Some (set_agent_mode mode d)"
| "desk_step R S DC D ctx ShutsDown d = Some (shutdown_terminals d)"

fun desk_run ::
  "'r rope_api \<Rightarrow> 's screen_api \<Rightarrow> 'd decoder_api \<Rightarrow> line_diff \<Rightarrow> utext \<Rightarrow> 'r desk_op list \<Rightarrow>
   ('r, 's, 'd) desk \<Rightarrow> ('r, 's, 'd) desk option" where
  "desk_run R S DC D ctx [] d = Some d"
| "desk_run R S DC D ctx (op # ops) d =
     do { d' \<leftarrow> desk_step R S DC D ctx op d; desk_run R S DC D ctx ops d' }"

section \<open>The books\<close>

text \<open>A call of the agent: for a terminal, a permission or a file.\<close>

datatype agent_call = TerminalCall nat | PermissionCall nat | ReadCall nat

fun settled_by :: "agent_request \<Rightarrow> agent_call option" where
  "settled_by (FileContents _ r _ _) = Some (ReadCall r)"
| "settled_by (Permission r _) = Some (PermissionCall r)"
| "settled_by (PermissionCancelled r) = Some (PermissionCall r)"
| "settled_by (TerminalResponse r _) = Some (TerminalCall r)"
| "settled_by _ = None"

fun origin_call :: "permission_origin \<Rightarrow> agent_call" where
  "origin_call (AgentAsked r _) = PermissionCall r"
| "origin_call (TerminalAsked _ r _ _) = TerminalCall r"

definition answered_calls :: "('r, 's, 'd) desk \<Rightarrow> agent_call multiset" where
  "answered_calls d = mset (List.map_filter settled_by (dk_outbox d))"

definition prompted :: "agent_session option \<Rightarrow> agent_call multiset" where
  "prompted a = (case Option.bind a as_permission of None \<Rightarrow> {#} | Some p \<Rightarrow> {#origin_call (pn_origin p)#})"

definition open_calls :: "('r, 's, 'd) desk \<Rightarrow> agent_call multiset" where
  "open_calls d = prompted (dk_agent d) + mset (map (TerminalCall \<circ> pc_request) (dk_creates d))
     + mset (map (TerminalCall \<circ> fst) (dk_waits d)) + mset (map (ReadCall \<circ> pr_request) (dk_reads d))"

definition books :: "('r, 's, 'd) desk \<Rightarrow> agent_call multiset" where
  "books d = answered_calls d + open_calls d"

fun calls_of :: "agent_event \<Rightarrow> agent_call multiset" where
  "calls_of (ReadFileRequested _ r _) = {#ReadCall r#}"
| "calls_of (PermissionRequested _ r _ _ _ _) = {#PermissionCall r#}"
| "calls_of (TerminalRequest _ r _) = {#TerminalCall r#}"
| "calls_of _ = {#}"

text \<open>The report of a review that no permission waits for goes out under the id of its proposal.\<close>

definition reported :: "('r, 's, 'd) desk \<Rightarrow> agent_call multiset" where
  "reported d = (case dk_agent d of None \<Rightarrow> {#} | Some a \<Rightarrow>
     if gated_first a then {#} else (case as_proposals a of [] \<Rightarrow> {#} | p # _ \<Rightarrow> {#PermissionCall (ep_id p)#}))"

text \<open>The calls the agent makes in a step, and the reports of reviews that answer none of them.\<close>

fun op_calls :: "'r desk_op \<Rightarrow> agent_call multiset" where
  "op_calls (AgentSays e) = calls_of e"
| "op_calls _ = {#}"

fun op_reports :: "'r desk_op \<Rightarrow> ('r, 's, 'd) desk \<Rightarrow> agent_call multiset" where
  "op_reports (Reviews _) d = reported d"
| "op_reports _ d = {#}"

lemma books_frame:
  assumes "dk_outbox d' = dk_outbox d" "prompted (dk_agent d') = prompted (dk_agent d)"
    "dk_creates d' = dk_creates d" "dk_waits d' = dk_waits d" "dk_reads d' = dk_reads d"
  shows "books d' = books d"
  using assms by (simp add: books_def answered_calls_def open_calls_def)

declare map_filter_append [simp]

lemma books_updates [simp]:
  "books (d\<lparr>dk_app := app\<rparr>) = books d" "books (d\<lparr>dk_policy := pol\<rparr>) = books d"
  "books (d\<lparr>dk_terminals := ts\<rparr>) = books d" "books (d\<lparr>dk_active_terminal := k\<rparr>) = books d"
  "books (d\<lparr>dk_next_terminal := n\<rparr>) = books d" "books (d\<lparr>dk_focus := f\<rparr>) = books d"
  "books (d\<lparr>dk_previous_focus := f\<rparr>) = books d" "books (d\<lparr>dk_size := sz\<rparr>) = books d"
  "books (d\<lparr>dk_pty_outbox := out\<rparr>) = books d" "books (d\<lparr>dk_copy_mode := c\<rparr>) = books d"
  "books (d\<lparr>dk_clipboard := cl\<rparr>) = books d" "books (d\<lparr>dk_served := sv\<rparr>) = books d"
  "books (d\<lparr>dk_runs := rs\<rparr>) = books d" "books (d\<lparr>dk_next_run := n\<rparr>) = books d"
  "books (d\<lparr>dk_problem_cursor := pc\<rparr>) = books d" "books (d\<lparr>dk_pending_prompt := pp\<rparr>) = books d"
  "books (d\<lparr>dk_capabilities := caps\<rparr>) = books d" "books (d\<lparr>dk_scroll := sc\<rparr>) = books d"
  by (simp_all add: books_def answered_calls_def open_calls_def)

lemma books_moves [simp]:
  "books (dk_notify msg d) = books d" "books (to_pty r d) = books d" "books (change_terminal t f d) = books d"
  "books (change_run t g d) = books d" "books (focus_terminal_pane d) = books d"
  "books (notify_if_quiet msg d) = books d"
  by (simp_all add: dk_notify_def to_pty_def change_terminal_def change_run_def focus_terminal_pane_def
      notify_if_quiet_def Let_def)

lemma books_say:
  "books (say r d) = (case settled_by r of None \<Rightarrow> {#} | Some c \<Rightarrow> {#c#}) + books d"
  by (simp add: books_def answered_calls_def open_calls_def say_def map_filter_def split: option.split)

lemma books_respond [simp]: "books (respond_terminal r x d) = {#TerminalCall r#} + books d"
  by (simp add: respond_terminal_def books_say)

lemma books_complete [simp]: "books (complete_terminal_waits t x d) = books d"
proof -
  have "mset (map (TerminalCall \<circ> fst) (filter (\<lambda>(_, u). u \<noteq> t) ws))
      + mset (List.map_filter settled_by (map (\<lambda>(request, _). TerminalResponse request x) (filter (\<lambda>(_, u). u = t) ws)))
      = mset (map (TerminalCall \<circ> fst) ws)" for ws
    by (induction ws) (auto simp: List.map_filter_simps)
  then show ?thesis
    by (simp add: books_def answered_calls_def open_calls_def complete_terminal_waits_def add.assoc add.left_commute)
qed

lemma books_answer_create [simp]: "books (answer_create P x d) = books d"
proof (cases "find P (dk_creates d)")
  case (Some c)
  then have "c \<in> set (dk_creates d)" by (auto simp: find_Some_iff)
  then have take: "mset (dk_creates d) = add_mset c (mset (remove1 c (dk_creates d)))" by simp
  have "mset (map (TerminalCall \<circ> pc_request) (dk_creates d))
      = {#TerminalCall (pc_request c)#} + mset (map (TerminalCall \<circ> pc_request) (remove1 c (dk_creates d)))"
    unfolding mset_map by (subst take) simp
  with Some show ?thesis
    by (simp add: answer_create_def books_def answered_calls_def open_calls_def respond_terminal_def say_def
        List.map_filter_simps del: mset_map)
qed (simp add: answer_create_def)

lemma books_agent:
  "books (d\<lparr>dk_agent := a\<rparr>) + prompted (dk_agent d) = books d + prompted a"
  by (simp add: books_def answered_calls_def open_calls_def)

lemma prompted_simps [simp]:
  "prompted None = {#}"
  "prompted (Some a) = (case as_permission a of None \<Rightarrow> {#} | Some p \<Rightarrow> {#origin_call (pn_origin p)#})"
  by (simp_all add: prompted_def)

lemma books_change_agent:
  "(\<And>a. as_permission (f a) = as_permission a) \<Longrightarrow> books (change_agent f d) = books d"
  by (rule books_frame) (cases "dk_agent d"; simp add: change_agent_def)+

lemma books_waiting: "books (d\<lparr>dk_waits := dk_waits d @ [(r, t)]\<rparr>) = {#TerminalCall r#} + books d"
  by (simp add: books_def answered_calls_def open_calls_def)

lemma books_creating: "books (d\<lparr>dk_creates := dk_creates d @ [c]\<rparr>) = {#TerminalCall (pc_request c)#} + books d"
  by (simp add: books_def answered_calls_def open_calls_def)

lemma books_reading: "books (d\<lparr>dk_reads := dk_reads d @ [r]\<rparr>) = {#ReadCall (pr_request r)#} + books d"
  by (simp add: books_def answered_calls_def open_calls_def)

lemma books_create_terminal [simp]: "books (snd (create_terminal_with_limit S spec owner limit d)) = books d"
  by (simp add: create_terminal_with_limit_def Let_def)

lemma books_create [simp]: "books (snd (create_terminal S spec owner d)) = books d"
  by (simp add: create_terminal_def)

lemma books_attach [simp]: "books (attach_task_run DC spec t origin d) = books d"
  by (simp add: attach_task_run_def Let_def)

lemma books_decode [simp]: "books (snd (decode_task_output DC t bs d)) = books d"
  by (simp add: decode_task_output_def Let_def case_prod_beta split: option.split)

lemma books_write_all [simp]: "books (write_all_to_pty t g bss d) = books d"
proof -
  have "books (fold (\<lambda>bs. to_pty (PtyWrite t g bs)) bss d) = books d"
    by (induction bss arbitrary: d) simp_all
  then show ?thesis by (simp add: write_all_to_pty_def)
qed

lemma books_pty [simp]: "books (on_pty_event S DC e d) = books d"
proof -
  have "books (on_live_pty_event S DC x e d) = books d" for x
    by (cases "(S, DC, x, e, d)" rule: on_live_pty_event.cases)
       (simp_all add: case_prod_beta Let_def split: terminal_status.split)
  then show ?thesis by (simp add: on_pty_event_def split: option.split)
qed

lemma books_remove [simp]: "books (remove_terminal t kill d) = books d"
  by (cases "find_position (\<lambda>x. tm_id x = t) (dk_terminals d)")
     (simp_all only: remove_terminal_def Let_def option.case if_distrib [of books] books_updates books_moves
       books_complete books_answer_create if_cancel)

lemma books_release [simp]: "books (release_terminal reason x d) = books d"
  by (simp add: release_terminal_def)

lemma books_spawn:
  "spawn_agent_terminal S DC session request spec limit d = Some d' \<Longrightarrow> books d' = {#TerminalCall request#} + books d"
  by (auto simp: spawn_agent_terminal_def Let_def case_prod_beta bind_eq_Some_iff books_creating split: option.splits)

lemma books_operate:
  "operation_terminal operation \<noteq> None \<Longrightarrow>
    books (operate request operation x d) = {#TerminalCall request#} + books d"
  by (cases operation) (simp_all add: books_waiting split: terminal_status.split)

lemma books_reject [simp]: "books (reject_pending_permission session reason d) = books d"
proof (cases "dk_agent d")
  case (Some a)
  then show ?thesis
    using books_agent [where d = d and a = "Some (a\<lparr>as_permission := None\<rparr>)"]
    by (auto simp: reject_pending_permission_def Let_def books_say split: option.split permission_origin.split)
qed (simp add: reject_pending_permission_def)

lemma books_handle:
  assumes "handle_agent_terminal S DC session request operation d = Some d'"
  shows "books d' = {#TerminalCall request#} + books d"
proof (cases "\<exists>a. dk_agent d = Some a \<and> as_id a = session")
  case False
  with assms show ?thesis by (auto simp: handle_agent_terminal_def split: option.splits if_splits)
next
  case True
  then obtain a where a: "dk_agent d = Some a" "as_id a = session" by blast
  show ?thesis
  proof (cases operation)
    case (TCreate spec limit pre)
    show ?thesis
    proof (cases "permitted spec pre d")
      case True
      with assms a TCreate show ?thesis by (simp add: handle_agent_terminal_def books_spawn)
    next
      case False
      with assms a TCreate books_agent [where d = d and a = "Some (a\<lparr>as_permission := Some (create_prompt session request spec limit)\<rparr>)"]
      show ?thesis by (auto simp: handle_agent_terminal_def create_prompt_def split: if_splits)
    qed
  qed (use assms a in \<open>auto simp: handle_agent_terminal_def books_operate books_waiting
      split: option.splits terminal_status.splits\<close>)
qed

lemma books_release_all [simp]: "books (fold (release_terminal reason) xs d) = books d"
  by (induction xs arbitrary: d) simp_all

lemma desk_books_cancel [simp]: "books (cancel_agent_terminals session reason d) = books d"
proof -
  let ?d1 = "reject_pending_permission (Some session) reason d"
  let ?P = "creates_owned session ?d1"
  let ?d2 = "?d1\<lparr>dk_creates := filter (\<lambda>c. \<not> ?P c) (dk_creates ?d1),
    dk_outbox := dk_outbox ?d1 @ map (\<lambda>c. TerminalResponse (pc_request c) (RError reason)) (filter ?P (dk_creates ?d1))\<rparr>"
  have "mset (map (TerminalCall \<circ> pc_request) (filter (\<lambda>c. \<not> P c) cs))
      + mset (List.map_filter settled_by (map (\<lambda>c. TerminalResponse (pc_request c) (RError reason)) (filter P cs)))
      = mset (map (TerminalCall \<circ> pc_request) cs)" for P cs
    by (induction cs) (auto simp: List.map_filter_simps)
  then have "books ?d2 = books ?d1"
    by (simp add: books_def answered_calls_def open_calls_def add.assoc add.left_commute)
  then show ?thesis by (simp add: cancel_agent_terminals_def Let_def)
qed

lemma desk_books_shutdown [simp]: "books (shutdown_terminals d) = books d"
proof -
  have c: "mset (List.map_filter settled_by (map (\<lambda>c. TerminalResponse (pc_request c) (RError reason)) cs))
      = mset (map (TerminalCall \<circ> pc_request) cs)" for cs reason
    by (induction cs) (auto simp: List.map_filter_simps)
  have w: "mset (List.map_filter settled_by (map (\<lambda>(r, _). TerminalResponse r (RError reason)) ws))
      = mset (map (TerminalCall \<circ> fst) ws)" for ws :: "(nat \<times> nat) list" and reason
    by (induction ws) (auto simp: List.map_filter_simps)
  let ?d1 = "reject_pending_permission None (ustr ''application shutting down'') d"
  have "books (shutdown_terminals d) = books ?d1"
    by (simp add: shutdown_terminals_def books_def answered_calls_def open_calls_def Let_def c w)
  then show ?thesis by simp
qed

lemma books_sync [simp]: "sync_proposals R D d = Some d' \<Longrightarrow> books d' = books d"
  by (auto simp: sync_proposals_def bind_eq_Some_iff split: option.splits if_splits intro!: books_frame)

lemma books_settle:
  "settle_permission S DC decision origin d = Some d' \<Longrightarrow> books d' = {#origin_call origin#} + books d"
  by (auto simp: settle_permission_def books_say remember_permission_def Let_def case_prod_beta
      dest!: books_spawn split: permission_origin.splits option.splits if_splits)

lemma books_decide:
  assumes "decide_permission R S DC D decision d = Some d'"
  shows "books d' = books d"
proof (cases "\<exists>a pending. dk_agent d = Some a \<and> as_permission a = Some pending")
  case False
  with assms show ?thesis by (auto simp: decide_permission_def split: option.splits)
next
  case True
  then obtain a pending where a: "dk_agent d = Some a" "as_permission a = Some pending" by blast
  let ?d1 = "d\<lparr>dk_agent := Some (a\<lparr>as_permission := None\<rparr>)\<rparr>"
  have d1: "{#origin_call (pn_origin pending)#} + books ?d1 = books d"
    using books_agent [where d = d and a = "Some (a\<lparr>as_permission := None\<rparr>)"] a by simp
  obtain d2 d3 where d: "(case pn_review pending of None \<Rightarrow> Some ?d1
      | Some i \<Rightarrow> sync_proposals R D (change_agent (\<lambda>a. a\<lparr>as_proposals := filter (\<lambda>p. ep_id p \<noteq> i) (as_proposals a)\<rparr>) ?d1))
      = Some d2" "settle_permission S DC decision (pn_origin pending) d2 = Some d3" "books d' = books d3"
    using assms a by (auto simp: decide_permission_def bind_eq_Some_iff Let_def)
  have "books d2 = books ?d1"
    using d(1) by (auto split: option.splits simp: books_change_agent)
  with d1 books_settle [OF d(2)] d(3) show ?thesis by simp
qed

lemma books_apply:
  assumes "apply_proposal R p d1 = Some (n, d2)"
  shows "books d2 = books d1"
proof (cases "d2 = d1")
  case False
  then obtain k r b where "(n, d2) = (case r of
      Inl e \<Rightarrow> (0, dk_notify (edit_error_fmt e) (d1\<lparr>dk_app := (dk_app d1)\<lparr>lm_buffers := (lm_buffers (dk_app d1))[k := b]\<rparr>\<rparr>))
    | Inr (u :: unit) \<Rightarrow> (length (applicable p), d1\<lparr>dk_app := (dk_app d1)\<lparr>lm_buffers := (lm_buffers (dk_app d1))[k := b]\<rparr>\<rparr>))"
    using assms unfolding apply_proposal_def
    by (simp add: Let_def case_prod_beta bind_eq_Some_iff split: option.splits if_splits) metis
  then show ?thesis by (cases r) simp_all
qed simp

lemma books_resolve:
  assumes "resolve_proposal R S DC D accept d = Some d'"
  shows "books d' = reported d + books d"
proof (cases "dk_agent d")
  case None
  with assms show ?thesis by (auto simp: resolve_proposal_def reported_def)
next
  case a: (Some a)
  show ?thesis
  proof (cases "gated_first a")
    case True
    with assms a books_decide show ?thesis by (force simp: resolve_proposal_def reported_def)
  next
    case False
    show ?thesis
    proof (cases "as_proposals a")
      case (Cons p ps)
      have "books (d\<lparr>dk_agent := Some (a\<lparr>as_proposals := ps\<rparr>)\<rparr>) = books d"
        using a by (intro books_frame) simp_all
      then show ?thesis
        using assms a False Cons
        by (auto simp: resolve_proposal_def reported_def Let_def bind_eq_Some_iff books_say
            dest!: books_apply split: if_splits)
    qed (use assms a False in \<open>auto simp: resolve_proposal_def reported_def\<close>)
  qed
qed

lemma books_serve [simp]: "books (serve_read R session request p d) = {#ReadCall request#} + books d"
  by (auto simp: serve_read_def Let_def books_say books_def answered_calls_def open_calls_def say_def
      map_filter_def split: option.split)

lemma books_answer_read:
  assumes "find P (dk_reads d) = Some r"
  shows "books (answer_read r contents d) = books d"
proof -
  have "r \<in> set (dk_reads d)" using assms by (auto simp: find_Some_iff)
  then have take: "mset (dk_reads d) = add_mset r (mset (remove1 r (dk_reads d)))" by simp
  have "mset (map (ReadCall \<circ> pr_request) (dk_reads d))
      = {#ReadCall (pr_request r)#} + mset (map (ReadCall \<circ> pr_request) (remove1 r (dk_reads d)))"
    unfolding mset_map by (subst take) simp
  then show ?thesis
    by (simp add: answer_read_def books_def answered_calls_def open_calls_def say_def List.map_filter_simps del: mset_map)
qed

lemma books_permission:
  assumes "permission_requested R D session request summary command spec ed d = Some d'"
  shows "books d' = {#PermissionCall request#} + books d"
proof (cases "case dk_agent d of None \<Rightarrow> False | Some a \<Rightarrow> as_id a = session \<and> as_permission a = None")
  case False
  then show ?thesis using assms by (auto simp: permission_requested_def books_say split: option.splits)
next
  case True
  then obtain review summary' d1 where d1: "(case ed of Some e \<Rightarrow> review_for_permission R D request e summary d
      | None \<Rightarrow> Some ((None, summary), d)) = Some ((review, summary'), d1)"
    "d' = change_agent (\<lambda>a. a\<lparr>as_permission := Some \<lparr>pn_origin = AgentAsked request spec,
          pn_summary = summary', pn_command = command, pn_review = review\<rparr>\<rparr>) d1"
    using assms by (auto simp: permission_requested_def bind_eq_Some_iff)
  have keep: "prompted (dk_agent d2) = prompted (dk_agent d1) \<and> (dk_agent d2 = None \<longleftrightarrow> dk_agent d1 = None)"
    if "sync_proposals R D d1 = Some d2" for d1 d2
    using that by (auto simp: sync_proposals_def bind_eq_Some_iff split: option.splits if_splits)
  have "books d1 = books d \<and> prompted (dk_agent d1) = prompted (dk_agent d) \<and> dk_agent d1 \<noteq> None"
  proof (cases ed)
    case None
    with d1 True show ?thesis by (auto split: option.splits)
  next
    case (Some e)
    with d1 have "review_for_permission R D request e summary d = Some ((review, summary'), d1)" by simp
    then consider "d1 = d" | p where "sync_proposals R D (change_agent (\<lambda>a. a\<lparr>as_proposals := as_proposals a @ [p]\<rparr>) d) = Some d1"
      by (auto simp: review_for_permission_def Let_def bind_eq_Some_iff split: option.splits sum.splits anchor_failure.splits)
    then show ?thesis
    proof cases
      case 1
      with True show ?thesis by (auto split: option.splits)
    next
      case 2
      from keep [OF 2] books_sync [OF 2] True show ?thesis
        by (auto simp: change_agent_def books_change_agent [unfolded change_agent_def] split: option.splits)
    qed
  qed
  moreover from this True obtain a where "dk_agent d1 = Some a" "prompted (dk_agent d1) = {#}"
    by (auto split: option.splits)
  ultimately show ?thesis
    using books_agent [where d = d1 and a = "Some (a\<lparr>as_permission := Some \<lparr>pn_origin = AgentAsked request spec,
      pn_summary = summary', pn_command = command, pn_review = review\<rparr>\<rparr>)"]
    by (simp add: d1(2) change_agent_def)
qed

lemma books_receive:
  assumes "receive_proposal R D i p old new d = Some d'"
  shows "books d' = books d"
  using assms by (auto simp: receive_proposal_def Let_def bind_eq_Some_iff books_change_agent
      split: if_splits option.splits dest!: books_sync)

lemma books_prompt [simp]: "books (send_prompt c session t d) = books d"
  by (simp add: send_prompt_def books_say books_change_agent)

lemma books_started [simp]: "books (session_started c session d) = books d"
proof -
  let ?new = "Some \<lparr>as_id = session, as_transcript = [], as_proposals = [], as_permission = None,
    as_attached = [], as_turn_active = False, as_modes = [], as_current_mode = None\<rparr>"
  have replaced: "books (e\<lparr>dk_agent := ?new\<rparr>) = books e" if "prompted (dk_agent e) = {#}" for e :: "('a, 'b, 'c) desk"
    using books_agent [where d = e and a = ?new] that by simp
  have release: "dk_agent (fold (release_terminal reason) xs e) = dk_agent e" for xs reason and e :: "('a, 'b, 'c) desk"
    by (induction xs arbitrary: e)
       (simp_all add: release_terminal_def complete_terminal_waits_def change_terminal_def to_pty_def)
  have cancelled: "prompted (dk_agent (cancel_agent_terminals (as_id a) reason e)) = {#}"
    if "dk_agent e = Some a" for a reason and e :: "('a, 'b, 'c) desk"
    using that by (auto simp: cancel_agent_terminals_def release Let_def reject_pending_permission_def
        say_def respond_terminal_def split: option.split permission_origin.split)
  show ?thesis
    by (auto simp: session_started_def Let_def replaced cancelled split: option.split)
qed

lemma books_active [simp]: "change_active f d = Some d' \<Longrightarrow> books d' = books d"
  by (auto simp: change_active_def split: option.splits if_splits)

lemma books_cancel_copy [simp]: "cancel_terminal_copy_mode S d = Some d' \<Longrightarrow> books d' = books d"
  by (auto simp: cancel_terminal_copy_mode_def)

lemma books_restart [simp]:
  assumes "restart_terminal S shell d = Some d'"
  shows "books d' = books d"
proof -
  obtain d1 where d1: "cancel_terminal_copy_mode S d = Some d1"
    using assms by (auto simp: restart_terminal_def bind_eq_Some_iff)
  show ?thesis
  proof (cases "dk_active_terminal d1")
    case None
    with assms d1 books_cancel_copy [OF d1] show ?thesis by (auto simp: restart_terminal_def new_shell_terminal_def)
  next
    case (Some k)
    let ?x = "dk_terminals d1 ! k"
    from assms d1 Some have "books d' = books d1"
      by (cases "length (dk_terminals d1) \<le> k"; cases "list_ex (\<lambda>c. pc_terminal c = tm_id ?x) (dk_creates d1)";
          cases "tm_released ?x") (auto simp: restart_terminal_def Let_def)
    with books_cancel_copy [OF d1] show ?thesis by simp
  qed
qed

lemma books_tabs [simp]:
  "books (new_shell_terminal S shell d) = books d" "books (cycle_terminal S shell delta d) = books d"
  "books (close_terminal d) = books d" "books (set_terminal_size S rows cols d) = books d"
  "books (type_terminal_chord S chord d) = books d" "books (run_task S DC spec d) = books d"
  "books (cancel_latest_task d) = books d"
  by (simp_all add: new_shell_terminal_def cycle_terminal_def Let_def close_terminal_def set_terminal_size_def
      type_terminal_chord_def run_task_def case_prod_beta cancel_latest_task_def split: option.split)

lemma books_modes:
  "toggle_terminal_focus S shell d = Some d' \<Longrightarrow> books d' = books d"
  "focus_pane S p d = Some d' \<Longrightarrow> books d' = books d"
  "enter_terminal_copy_mode S d = Some d' \<Longrightarrow> books d' = books d"
  "confirm_terminal_copy_mode S d = Some d' \<Longrightarrow> books d' = books d"
  by (auto simp: toggle_terminal_focus_def focus_pane_def enter_terminal_copy_mode_def
      confirm_terminal_copy_mode_def bind_eq_Some_iff Let_def dest!: books_active books_cancel_copy
      split: if_splits option.splits)

lemma books_agent_side [simp]:
  "books (new_agent_session d) = books d" "books (prompt_agent d) = books d"
  "books (confirm_agent_prompt c session t d) = books d" "books (set_agent_mode mode d) = books d"
  "books (push_transcript who t d) = books d" "books (mode_changed session mode d) = books d"
  by (auto simp: new_agent_session_def prompt_agent_def confirm_agent_prompt_def set_agent_mode_def
      push_transcript_def mode_changed_def books_say Let_def intro!: books_frame split: option.split)

lemma books_event:
  assumes "on_agent_event R S DC D c e d = Some d'"
  shows "books d' = calls_of e + books d"
  using assms
  by (cases e) (auto simp: for_session_def books_change_agent Let_def books_handle books_permission books_receive
      split: if_splits)

lemma books_step:
  assumes "desk_step R S DC D c op d = Some d'"
  shows "books d' = op_calls op + op_reports op d + books d"
  using assms
  by (cases op) (auto simp: books_event books_decide books_resolve books_modes books_answer_read
      desk_file_loaded_def desk_file_failed_def split: option.splits)

end
