(* ===== verification/Desk_Duties.thy ===== *)
theory Desk_Duties
  imports Desk_Claims
begin

text \<open>
  What is open towards the agent is in somebody's hands: a terminal that is starting or running, so
  that the end of its process answers it.  Taken of the environment: a process is announced before
  it ends (\<open>RealPtyService::spawn\<close> starts the threads that report its output and end after
  \<open>Spawned\<close>), and the agent names only terminals it was told of.
\<close>

section \<open>The invariant\<close>

definition create_ok :: "'s terminal_session list \<Rightarrow> pending_terminal_create \<Rightarrow> bool" where
  "create_ok xs c \<longleftrightarrow> (\<exists>x\<in>set xs. tm_id x = pc_terminal c \<and> tm_generation x = pc_generation c
     \<and> tm_status x = TermStarting \<and> \<not> tm_released x)"

definition wait_ok :: "'s terminal_session list \<Rightarrow> nat \<times> terminal_id \<Rightarrow> bool" where
  "wait_ok xs w \<longleftrightarrow> (\<exists>x\<in>set xs. tm_id x = snd w \<and> is_live (tm_status x) \<and> \<not> tm_released x)"

definition desk_ok :: "('r, 's, 'd) desk \<Rightarrow> bool" where
  "desk_ok d \<longleftrightarrow> distinct (map tm_id (dk_terminals d)) \<and> (\<forall>x\<in>set (dk_terminals d). tm_id x \<le> dk_next_terminal d)
     \<and> distinct (map pc_terminal (dk_creates d)) \<and> list_all (create_ok (dk_terminals d)) (dk_creates d)
     \<and> list_all (wait_ok (dk_terminals d)) (dk_waits d)
     \<and> (\<forall>k. dk_active_terminal d = Some k \<longrightarrow> k < length (dk_terminals d))"

fun desk_allowed :: "'r desk_op \<Rightarrow> ('r, 's, 'd) desk \<Rightarrow> bool" where
  "desk_allowed (ProcessSays (PtyExited t _ _)) d = (\<forall>c\<in>set (dk_creates d). pc_terminal c \<noteq> t)"
| "desk_allowed (AgentSays (TerminalRequest _ _ operation)) d =
     (\<forall>c\<in>set (dk_creates d). operation_terminal operation \<noteq> Some (pc_terminal c))"
| "desk_allowed _ d = True"

definition same_duties :: "('r, 's, 'd) desk \<Rightarrow> ('r, 's, 'd) desk \<Rightarrow> bool" where
  "same_duties d d' \<longleftrightarrow> dk_terminals d' = dk_terminals d \<and> dk_next_terminal d' = dk_next_terminal d
     \<and> dk_creates d' = dk_creates d \<and> dk_waits d' = dk_waits d \<and> dk_active_terminal d' = dk_active_terminal d"

lemma same_duties_ok: "same_duties d d' \<Longrightarrow> desk_ok d' = desk_ok d"
  by (simp add: same_duties_def desk_ok_def)

lemma same_duties_trans: "same_duties d d1 \<Longrightarrow> same_duties d1 d2 \<Longrightarrow> same_duties d d2"
  by (simp add: same_duties_def)

lemma same_duties_updates [simp]:
  "same_duties d d" "same_duties d (d1\<lparr>dk_app := app\<rparr>) = same_duties d d1" "same_duties d (d1\<lparr>dk_policy := pol\<rparr>) = same_duties d d1"
  "same_duties d (d1\<lparr>dk_focus := f\<rparr>) = same_duties d d1" "same_duties d (d1\<lparr>dk_previous_focus := f\<rparr>) = same_duties d d1"
  "same_duties d (d1\<lparr>dk_size := sz\<rparr>) = same_duties d d1" "same_duties d (d1\<lparr>dk_pty_outbox := out\<rparr>) = same_duties d d1"
  "same_duties d (d1\<lparr>dk_copy_mode := c\<rparr>) = same_duties d d1" "same_duties d (d1\<lparr>dk_clipboard := cl\<rparr>) = same_duties d d1"
  "same_duties d (d1\<lparr>dk_served := sv\<rparr>) = same_duties d d1" "same_duties d (d1\<lparr>dk_runs := rs\<rparr>) = same_duties d d1"
  "same_duties d (d1\<lparr>dk_next_run := n\<rparr>) = same_duties d d1" "same_duties d (d1\<lparr>dk_problem_cursor := pc\<rparr>) = same_duties d d1"
  "same_duties d (d1\<lparr>dk_pending_prompt := pp\<rparr>) = same_duties d d1" "same_duties d (d1\<lparr>dk_capabilities := caps\<rparr>) = same_duties d d1"
  "same_duties d (d1\<lparr>dk_scroll := sc\<rparr>) = same_duties d d1" "same_duties d (d1\<lparr>dk_agent := a\<rparr>) = same_duties d d1"
  "same_duties d (d1\<lparr>dk_outbox := ob\<rparr>) = same_duties d d1" "same_duties d (d1\<lparr>dk_reads := rd\<rparr>) = same_duties d d1"
  by (simp_all add: same_duties_def)

lemma same_duties_moves [simp]:
  "same_duties d (dk_notify msg d1) = same_duties d d1" "same_duties d (to_pty r d1) = same_duties d d1"
  "same_duties d (change_run t g d1) = same_duties d d1" "same_duties d (focus_terminal_pane d1) = same_duties d d1"
  "same_duties d (notify_if_quiet msg d1) = same_duties d d1" "same_duties d (say q d1) = same_duties d d1"
  "same_duties d (respond_terminal i x d1) = same_duties d d1" "same_duties d (change_agent h d1) = same_duties d d1"
  "same_duties d (push_transcript who msg d1) = same_duties d d1" "same_duties d (remember_permission spec d1) = same_duties d d1"
  "same_duties d (send_prompt msg s u d1) = same_duties d d1" "same_duties d (reject_pending_permission ses reason d1) = same_duties d d1"
  by (simp_all add: dk_notify_def to_pty_def change_run_def focus_terminal_pane_def notify_if_quiet_def say_def
      respond_terminal_def change_agent_def push_transcript_def remember_permission_def send_prompt_def
      reject_pending_permission_def Let_def case_prod_beta split: option.split permission_origin.split)

lemma desk_ok_frame [simp]:
  "desk_ok (d\<lparr>dk_app := app\<rparr>) = desk_ok d" "desk_ok (dk_notify msg d) = desk_ok d" "desk_ok (to_pty r d) = desk_ok d"
  "desk_ok (change_run t g d) = desk_ok d" "desk_ok (focus_terminal_pane d) = desk_ok d" "desk_ok (say q d) = desk_ok d"
  "desk_ok (respond_terminal i x d) = desk_ok d" "desk_ok (change_agent h d) = desk_ok d"
  "desk_ok (notify_if_quiet msg d) = desk_ok d" "desk_ok (d\<lparr>dk_agent := a\<rparr>) = desk_ok d"
  "desk_ok (d\<lparr>dk_pending_prompt := pp\<rparr>) = desk_ok d" "desk_ok (send_prompt msg s u d) = desk_ok d"
  "desk_ok (push_transcript who msg d) = desk_ok d" "desk_ok (d\<lparr>dk_capabilities := caps\<rparr>) = desk_ok d"
  "desk_ok (remember_permission spec d) = desk_ok d" "desk_ok (reject_pending_permission ses reason d) = desk_ok d"
  by (rule same_duties_ok; simp)+

text \<open>With distinct ids, the first terminal of an id is the only one.\<close>

lemma update_first_map:
  "distinct (map tm_id xs) \<Longrightarrow> update_first (\<lambda>x. tm_id x = t) f xs = map (\<lambda>x. if tm_id x = t then f x else x) xs"
proof (induction xs)
  case (Cons x xs)
  have "tm_id x \<notin> tm_id ` set xs" using Cons.prems by simp
  then have "\<forall>y\<in>set xs. tm_id x = t \<longrightarrow> tm_id y \<noteq> t" by (metis imageI)
  then have "tm_id x = t \<Longrightarrow> map (\<lambda>y. if tm_id y = t then f y else y) xs = xs"
    by (simp add: map_idI)
  with Cons show ?case by simp
qed simp

lemma update_nth_map:
  assumes "distinct (map tm_id xs)" "k < length xs"
  shows "xs[k := f (xs ! k)] = map (\<lambda>x. if tm_id x = tm_id (xs ! k) then f x else x) xs"
  using assms by (auto simp: nth_list_update distinct_conv_nth intro!: nth_equalityI)

lemma ok_update:
  assumes "desk_ok d" "dk_terminals d' = map (\<lambda>x. if tm_id x = t then f x else x) (dk_terminals d)"
    "\<And>x. x \<in> set (dk_terminals d) \<Longrightarrow> tm_id x = t \<Longrightarrow> tm_id (f x) = t"
    "distinct (map pc_terminal (dk_creates d'))" "set (dk_creates d') \<subseteq> set (dk_creates d)"
    "\<And>c x. c \<in> set (dk_creates d') \<Longrightarrow> pc_terminal c = t \<Longrightarrow> x \<in> set (dk_terminals d) \<Longrightarrow> tm_id x = t \<Longrightarrow>
       tm_generation (f x) = tm_generation x \<and> tm_status (f x) = tm_status x \<and> tm_released (f x) = tm_released x"
    "\<And>r x. (r, t) \<in> set (dk_waits d') \<Longrightarrow> x \<in> set (dk_terminals d) \<Longrightarrow> tm_id x = t \<Longrightarrow>
       (is_live (tm_status x) \<longrightarrow> is_live (tm_status (f x))) \<and> tm_released (f x) = tm_released x"
    "set (dk_waits d') \<subseteq> set (dk_waits d)"
    "dk_next_terminal d' = dk_next_terminal d" "dk_active_terminal d' = dk_active_terminal d"
  shows "desk_ok d'"
proof -
  have ids: "map tm_id (dk_terminals d') = map tm_id (dk_terminals d)" using assms(2,3) by simp
  have "create_ok (dk_terminals d') c" if c: "c \<in> set (dk_creates d')" for c
  proof -
    have "create_ok (dk_terminals d) c" using assms(1,5) c by (auto simp: desk_ok_def list_all_iff)
    then obtain x where x: "x \<in> set (dk_terminals d)" "tm_id x = pc_terminal c" "tm_generation x = pc_generation c"
      "tm_status x = TermStarting" "\<not> tm_released x" by (auto simp: create_ok_def)
    let ?y = "if tm_id x = t then f x else x"
    have "?y \<in> set (dk_terminals d')" unfolding assms(2) using x(1) by simp
    moreover have "tm_id ?y = pc_terminal c" "tm_generation ?y = pc_generation c" "tm_status ?y = TermStarting"
      "\<not> tm_released ?y" using x assms(3) [OF x(1)] assms(6) [OF c _ x(1)] by auto
    ultimately show ?thesis unfolding create_ok_def by blast
  qed
  moreover have "wait_ok (dk_terminals d') w" if w: "w \<in> set (dk_waits d')" for w
  proof -
    have "wait_ok (dk_terminals d) w" using assms(1,8) w by (auto simp: desk_ok_def list_all_iff)
    then obtain x where x: "x \<in> set (dk_terminals d)" "tm_id x = snd w" "is_live (tm_status x)" "\<not> tm_released x"
      by (auto simp: wait_ok_def)
    let ?y = "if tm_id x = t then f x else x"
    have "?y \<in> set (dk_terminals d')" unfolding assms(2) using x(1) by simp
    moreover have "tm_id ?y = snd w" "is_live (tm_status ?y)" "\<not> tm_released ?y"
      using x assms(3) [OF x(1)] assms(7) [of "fst w", OF _ x(1)] w by auto
    ultimately show ?thesis unfolding wait_ok_def by blast
  qed
  moreover have "length (dk_terminals d') = length (dk_terminals d)" using assms(2) by simp
  moreover have "\<forall>x\<in>set (dk_terminals d'). tm_id x \<le> dk_next_terminal d'"
    using assms(1,2,3,9) by (auto simp: desk_ok_def)
  ultimately show ?thesis using assms(1,4,10) ids by (simp add: desk_ok_def list_all_iff)
qed

section \<open>Every step keeps it\<close>

lemma complete_fields [simp]:
  "dk_terminals (complete_terminal_waits t x d) = dk_terminals d"
  "dk_creates (complete_terminal_waits t x d) = dk_creates d"
  "dk_waits (complete_terminal_waits t x d) = filter (\<lambda>(_, u). u \<noteq> t) (dk_waits d)"
  "dk_next_terminal (complete_terminal_waits t x d) = dk_next_terminal d"
  "dk_active_terminal (complete_terminal_waits t x d) = dk_active_terminal d"
  by (simp_all add: complete_terminal_waits_def)

lemma move_fields [simp]:
  "dk_terminals (dk_notify msg d) = dk_terminals d" "dk_creates (dk_notify msg d) = dk_creates d"
  "dk_waits (dk_notify msg d) = dk_waits d" "dk_next_terminal (dk_notify msg d) = dk_next_terminal d"
  "dk_active_terminal (dk_notify msg d) = dk_active_terminal d"
  "dk_terminals (to_pty r d) = dk_terminals d" "dk_creates (to_pty r d) = dk_creates d"
  "dk_waits (to_pty r d) = dk_waits d" "dk_next_terminal (to_pty r d) = dk_next_terminal d"
  "dk_active_terminal (to_pty r d) = dk_active_terminal d"
  "dk_terminals (change_run t g d) = dk_terminals d" "dk_creates (change_run t g d) = dk_creates d"
  "dk_waits (change_run t g d) = dk_waits d" "dk_next_terminal (change_run t g d) = dk_next_terminal d"
  "dk_active_terminal (change_run t g d) = dk_active_terminal d"
  "dk_creates (change_terminal t f d) = dk_creates d"
  "dk_waits (change_terminal t f d) = dk_waits d" "dk_next_terminal (change_terminal t f d) = dk_next_terminal d"
  "dk_active_terminal (change_terminal t f d) = dk_active_terminal d"
  by (simp_all add: dk_notify_def to_pty_def change_run_def change_terminal_def)

lemma answer_create_fields [simp]:
  "dk_terminals (answer_create P x d) = dk_terminals d" "dk_waits (answer_create P x d) = dk_waits d"
  "dk_next_terminal (answer_create P x d) = dk_next_terminal d"
  "dk_active_terminal (answer_create P x d) = dk_active_terminal d"
  by (simp_all add: answer_create_def respond_terminal_def say_def split: option.split)

lemma change_terminal_map:
  "distinct (map tm_id (dk_terminals d)) \<Longrightarrow> dk_terminals (change_terminal t f d)
    = map (\<lambda>x. if tm_id x = t then f x else x) (dk_terminals d)"
  by (simp add: change_terminal_def update_first_map)

lemma find_terminal_Some:
  "find_terminal t d = Some x \<Longrightarrow> x \<in> set (dk_terminals d) \<and> tm_id x = t"
  by (auto simp: find_terminal_def find_Some_iff)

lemma same_id_same_terminal:
  "desk_ok d \<Longrightarrow> x \<in> set (dk_terminals d) \<Longrightarrow> y \<in> set (dk_terminals d) \<Longrightarrow> tm_id x = tm_id y \<Longrightarrow> x = y"
  unfolding desk_ok_def by (metis distinct_map inj_onD)

text \<open>Once the create of a terminal is answered, none is left for it.\<close>

lemma answered_create:
  assumes "distinct (map pc_terminal (dk_creates d))"
    and "\<And>c. c \<in> set (dk_creates d) \<Longrightarrow> pc_terminal c = t \<Longrightarrow> P c" and "\<And>c. P c \<Longrightarrow> pc_terminal c = t"
  shows "distinct (map pc_terminal (dk_creates (answer_create P x d)))
    \<and> set (dk_creates (answer_create P x d)) = {c \<in> set (dk_creates d). pc_terminal c \<noteq> t}"
proof (cases "find P (dk_creates d)")
  case None
  then have "answer_create P x d = d" by (simp add: answer_create_def)
  moreover have "pc_terminal c \<noteq> t" if "c \<in> set (dk_creates d)" for c
    using None assms(2) that by (auto simp: find_None_iff)
  ultimately show ?thesis using assms(1) by auto
next
  case (Some c)
  then have c: "c \<in> set (dk_creates d)" "P c" by (auto simp: find_Some_iff)
  have "distinct (dk_creates d)" using assms(1) by (simp add: distinct_map)
  moreover have "c' = c" if "c' \<in> set (dk_creates d)" "pc_terminal c' = t" for c'
    using assms(1,3) c that by (metis distinct_map inj_onD)
  moreover have "dk_creates (answer_create P x d) = remove1 c (dk_creates d)"
    using Some by (simp add: answer_create_def respond_terminal_def say_def)
  ultimately have left: "set (dk_creates (answer_create P x d)) = set (dk_creates d) - {c}"
    "distinct (dk_creates (answer_create P x d))" and uniq: "\<forall>c'\<in>set (dk_creates d). pc_terminal c' = t \<longrightarrow> c' = c"
    by auto
  have "inj_on pc_terminal (set (dk_creates (answer_create P x d)))"
    using assms(1) left(1) by (auto simp: distinct_map intro: inj_on_subset)
  then show ?thesis using left uniq assms(3) [OF c(2)] by (auto simp: distinct_map)
qed

lemma creates_of_terminal:
  assumes "desk_ok d" "x \<in> set (dk_terminals d)" "c \<in> set (dk_creates d)" "pc_terminal c = tm_id x"
  shows "creates_of (tm_id x) (tm_generation x) c" "tm_status x = TermStarting" "\<not> tm_released x"
proof -
  have "create_ok (dk_terminals d) c" using assms(1,3) by (auto simp: desk_ok_def list_all_iff)
  then obtain y where y: "y \<in> set (dk_terminals d)" "tm_id y = pc_terminal c" "tm_generation y = pc_generation c"
    "tm_status y = TermStarting" "\<not> tm_released y" by (auto simp: create_ok_def)
  then have "y = x" using same_id_same_terminal assms by metis
  then show "creates_of (tm_id x) (tm_generation x) c" "tm_status x = TermStarting" "\<not> tm_released x"
    using y by (auto simp: creates_of_def)
qed

lemma create_answered:
  assumes "desk_ok d" "x \<in> set (dk_terminals d)" "dk_creates d1 = dk_creates d"
  shows "distinct (map pc_terminal (dk_creates (answer_create (creates_of (tm_id x) (tm_generation x)) y d1)))"
    "set (dk_creates (answer_create (creates_of (tm_id x) (tm_generation x)) y d1))
      = {c \<in> set (dk_creates d). pc_terminal c \<noteq> tm_id x}"
proof -
  have "distinct (map pc_terminal (dk_creates d1))" using assms(1,3) by (simp add: desk_ok_def)
  moreover have "creates_of (tm_id x) (tm_generation x) c" if "c \<in> set (dk_creates d1)" "pc_terminal c = tm_id x" for c
    using creates_of_terminal(1) [OF assms(1,2)] that assms(3) by simp
  ultimately have "distinct (map pc_terminal (dk_creates (answer_create (creates_of (tm_id x) (tm_generation x)) y d1)))
    \<and> set (dk_creates (answer_create (creates_of (tm_id x) (tm_generation x)) y d1))
      = {c \<in> set (dk_creates d1). pc_terminal c \<noteq> tm_id x}"
    by (rule answered_create) (simp_all add: creates_of_def)
  with assms(3) show "distinct (map pc_terminal (dk_creates (answer_create (creates_of (tm_id x) (tm_generation x)) y d1)))"
    "set (dk_creates (answer_create (creates_of (tm_id x) (tm_generation x)) y d1))
      = {c \<in> set (dk_creates d). pc_terminal c \<noteq> tm_id x}" by simp_all
qed

lemma decode_duties [simp]: "same_duties d (snd (decode_task_output DC t bs d1)) = same_duties d d1"
  by (simp add: decode_task_output_def Let_def case_prod_beta split: option.split)

lemma write_all_duties [simp]: "same_duties d (write_all_to_pty t g bss d1) = same_duties d d1"
proof -
  have "same_duties d (fold (\<lambda>bs. to_pty (PtyWrite t g bs)) bss d1) = same_duties d d1"
    by (induction bss arbitrary: d1) simp_all
  then show ?thesis by (simp add: write_all_to_pty_def)
qed

lemma duties_eq: "same_duties d d1 \<Longrightarrow> desk_ok d \<Longrightarrow> desk_ok d1 \<and> dk_terminals d1 = dk_terminals d
    \<and> dk_creates d1 = dk_creates d \<and> dk_waits d1 = dk_waits d"
  using same_duties_ok [of d d1] by (simp add: same_duties_def)

lemma pty_event_ok:
  assumes "desk_ok d" "desk_allowed (ProcessSays e :: 'r desk_op) (d :: ('r, 's, 'd) desk)"
  shows "desk_ok (on_pty_event S DC e d)"
proof (cases "find_terminal (fst (event_terminal e)) d")
  case None
  with assms(1) show ?thesis by (simp add: on_pty_event_def)
next
  case (Some x)
  note x = find_terminal_Some [OF Some]
  have ids: "distinct (map tm_id (dk_terminals d))" and cs: "distinct (map pc_terminal (dk_creates d))"
    using assms(1) by (auto simp: desk_ok_def)
  show ?thesis
  proof (cases "tm_generation x \<noteq> snd (event_terminal e) \<or> tm_released x")
    case True
    with Some assms(1) show ?thesis by (simp add: on_pty_event_def)
  next
    case False
    then have e: "on_pty_event S DC e d = on_live_pty_event S DC x e d" "tm_generation x = snd (event_terminal e)"
      "\<not> tm_released x" using Some by (simp_all add: on_pty_event_def)
    show ?thesis
    proof (cases e)
      case (PtySpawned t g pid)
      let ?d1 = "change_run t (\<lambda>r. r\<lparr>run_status := TaskRunning\<rparr>)
         (change_terminal t (\<lambda>x. x\<lparr>tm_status := TermRunning pid\<rparr>) d)"
      have tg: "t = tm_id x" "g = tm_generation x" using x e(2) PtySpawned by simp_all
      have "dk_creates ?d1 = dk_creates d" by simp
      note c = create_answered [OF assms(1) conjunct1 [OF x] this, of "RCreated t", folded tg]
      show ?thesis unfolding e(1) [unfolded PtySpawned] PtySpawned on_live_pty_event.simps
        by (rule ok_update [OF assms(1), where t = t and f = "\<lambda>x. x\<lparr>tm_status := TermRunning pid\<rparr>"])
           (auto simp: change_terminal_map ids c is_live_def)
    next
      case (PtyOutput t g bs)
      let ?d1 = "snd (decode_task_output DC t (Some bs) d)" and ?bs = "fst (decode_task_output DC t (Some bs) d)"
      have d1: "desk_ok ?d1" "dk_terminals ?d1 = dk_terminals d" using duties_eq [of d ?d1] assms(1) by simp_all
      have "desk_ok (change_terminal t (\<lambda>_. x') ?d1)"
        if "tm_id x' = tm_id x" "tm_generation x' = tm_generation x" "tm_status x' = tm_status x" "tm_released x' = tm_released x" for x'
      proof (rule ok_update [OF d1(1), where t = t and f = "\<lambda>_. x'"])
        have t: "tm_id x = t" using x PtyOutput by simp
        have only: "y = x" if "y \<in> set (dk_terminals ?d1)" "tm_id y = t" for y
          using same_id_same_terminal [OF assms(1), of y x] x that d1(2) t by simp
        show "tm_id x' = t" using that(1) t by simp
        show "tm_generation x' = tm_generation y \<and> tm_status x' = tm_status y \<and> tm_released x' = tm_released y"
          if y: "y \<in> set (dk_terminals ?d1)" "tm_id y = t" for y
          unfolding only [OF y] by (simp add: \<open>tm_generation x' = tm_generation x\<close> \<open>tm_status x' = tm_status x\<close> \<open>tm_released x' = tm_released x\<close>)
        show "(is_live (tm_status y) \<longrightarrow> is_live (tm_status x')) \<and> tm_released x' = tm_released y"
          if y: "y \<in> set (dk_terminals ?d1)" "tm_id y = t" for y
          unfolding only [OF y] by (simp add: \<open>tm_status x' = tm_status x\<close> \<open>tm_released x' = tm_released x\<close>)
      qed (use d1 ids in \<open>simp_all add: change_terminal_map desk_ok_def\<close>)
      then have "desk_ok (change_terminal t (\<lambda>_. snd (take_output S ?bs x)) ?d1)"
        by (simp add: take_output_def Let_def case_prod_beta)
      then have "desk_ok (write_all_to_pty t g rs (change_terminal t (\<lambda>_. snd (take_output S ?bs x)) ?d1))" for rs
        using duties_eq by (metis same_duties_updates(1) write_all_duties)
      with d1 show ?thesis by (simp add: e(1) [unfolded PtyOutput] PtyOutput case_prod_beta Let_def)
    next
      case (PtyExited t g exit)
      let ?d1 = "snd (decode_task_output DC t None d)"
      have d1: "desk_ok ?d1" "dk_terminals ?d1 = dk_terminals d" "dk_creates ?d1 = dk_creates d"
        using duties_eq [of d ?d1] assms(1) by simp_all
      have free: "\<forall>c\<in>set (dk_creates d). pc_terminal c \<noteq> t" using assms(2) PtyExited by simp
      show ?thesis unfolding e(1) [unfolded PtyExited] PtyExited on_live_pty_event.simps Let_def case_prod_beta
        by (rule ok_update [OF d1(1), where t = t and f = "\<lambda>x. x\<lparr>tm_screen := sc_feed S (fst (decode_task_output DC t None d)) (tm_screen x),
                   tm_capture := capture_finish (capture_push (fst (decode_task_output DC t None d)) (tm_capture x)),
                   tm_status := TermExited exit\<rparr>"])
           (use free ids cs d1 in \<open>auto simp: change_terminal_map\<close>)
    next
      case (PtyFailed t g msg)
      show ?thesis
      proof (cases "\<exists>exit. tm_status x = TermExited exit")
        case True
        with assms(1) show ?thesis by (auto simp: e(1) [unfolded PtyFailed] PtyFailed)
      next
        case False
        let ?d1 = "change_run t (\<lambda>r. r\<lparr>run_status := TaskFailed\<rparr>) (dk_notify (ustr ''terminal: '' @ msg)
          (change_terminal t (\<lambda>x. x\<lparr>tm_capture := capture_finish (tm_capture x), tm_status := TermFailed msg\<rparr>) d))"
        have tg: "t = tm_id x" "g = tm_generation x" using x e(2) PtyFailed by simp_all
      have "dk_creates ?d1 = dk_creates d" by simp
      note c = create_answered [OF assms(1) conjunct1 [OF x] this, of "RError msg", folded tg]
        have "on_pty_event S DC e d = complete_terminal_waits t (RError msg) (answer_create (creates_of t g) (RError msg) ?d1)"
          using False unfolding e(1) [unfolded PtyFailed] PtyFailed on_live_pty_event.simps by (simp split: terminal_status.split)
        then show ?thesis
          by (simp, intro ok_update [OF assms(1), where t = t and f = "\<lambda>x. x\<lparr>tm_capture := capture_finish (tm_capture x), tm_status := TermFailed msg\<rparr>"])
             (auto simp: change_terminal_map ids c)
      qed
    qed
  qed
qed

text \<open>A new terminal, and the create that waits for it.\<close>

lemma ok_more:
  assumes "desk_ok d" "dk_terminals d' = dk_terminals d @ [x]" "tm_id x = dk_next_terminal d'"
    "dk_next_terminal d' = dk_next_terminal d + 1" "dk_creates d' = dk_creates d" "dk_waits d' = dk_waits d"
    "dk_active_terminal d' \<in> {dk_active_terminal d, Some (length (dk_terminals d))}"
  shows "desk_ok d'"
proof -
  have more: "create_ok (dk_terminals d) c \<Longrightarrow> create_ok (dk_terminals d') c"
    "wait_ok (dk_terminals d) w \<Longrightarrow> wait_ok (dk_terminals d') w" for c w
    unfolding create_ok_def wait_ok_def assms(2) by auto
  have "distinct (map tm_id (dk_terminals d'))" using assms(1-4) by (force simp: desk_ok_def)
  moreover have "\<forall>y\<in>set (dk_terminals d'). tm_id y \<le> dk_next_terminal d'" using assms(1-4) by (force simp: desk_ok_def)
  moreover have "\<forall>k. dk_active_terminal d' = Some k \<longrightarrow> k < length (dk_terminals d')"
    using assms(1,2,7) by (auto simp: desk_ok_def less_Suc_eq)
  ultimately show ?thesis
    using assms(1,5,6) more by (auto simp: desk_ok_def list_all_iff)
qed

lemma created_fields:
  assumes "create_terminal_with_limit S spec owner limit d = (t, d')"
  shows "t = dk_next_terminal d + 1" "\<exists>x. dk_terminals d' = dk_terminals d @ [x] \<and> tm_id x = t \<and> tm_generation x = 1
      \<and> tm_status x = TermStarting \<and> \<not> tm_released x \<and> tm_owner x = owner \<and> tm_spec x = spec"
    "dk_next_terminal d' = dk_next_terminal d + 1" "dk_creates d' = dk_creates d" "dk_waits d' = dk_waits d"
    "dk_active_terminal d' \<in> {dk_active_terminal d, Some (length (dk_terminals d))}" "dk_agent d' = dk_agent d"
  using assms by (auto simp: create_terminal_with_limit_def Let_def focus_terminal_pane_def to_pty_def split: if_splits)

lemma create_terminal_ok:
  assumes "desk_ok d" "create_terminal_with_limit S spec owner limit d = (t, d')"
  shows "desk_ok d'"
proof -
  note f = created_fields [OF assms(2)]
  then obtain x where x: "dk_terminals d' = dk_terminals d @ [x]" "tm_id x = t" by blast
  show ?thesis by (rule ok_more [OF assms(1) x(1)]) (use f x in simp_all)
qed

lemma change_kept:
  assumes "desk_ok d" "\<And>x. tm_id (f x) = tm_id x \<and> tm_generation (f x) = tm_generation x
     \<and> tm_status (f x) = tm_status x \<and> tm_released (f x) = tm_released x"
  shows "desk_ok (change_terminal t f d)"
  by (rule ok_update [OF assms(1), where t = t and f = f])
     (use assms in \<open>auto simp: desk_ok_def change_terminal_map\<close>)

lemma attach_ok: "desk_ok d \<Longrightarrow> desk_ok (attach_task_run DC spec t origin d)"
proof -
  assume "desk_ok d"
  then have "desk_ok (change_terminal t (\<lambda>x. x\<lparr>tm_title := tk_label spec\<rparr>) d)" by (rule change_kept) simp
  then show ?thesis using duties_eq [of "change_terminal t (\<lambda>x. x\<lparr>tm_title := tk_label spec\<rparr>) d"]
    by (simp add: attach_task_run_def Let_def)
qed

lemma spawn_ok:
  assumes "desk_ok d" "spawn_agent_terminal S DC session request spec limit d = Some d'"
  shows "desk_ok d'"
proof -
  obtain t d1 where c: "create_terminal_with_limit S spec (AgentOwner session) limit d = (t, d1)" by fastforce
  note f = created_fields [OF c]
  define d2 where "d2 = (case find (task_matches spec) (dk_catalog d) of
      Some k \<Rightarrow> attach_task_run DC k t (AgentTask session) d1 | None \<Rightarrow> d1)"
  obtain x where x: "dk_terminals d1 = dk_terminals d @ [x]" "tm_id x = t" "tm_generation x = 1"
    "tm_status x = TermStarting" "\<not> tm_released x" using f(2) by blast
  obtain y where y: "find_terminal t d2 = Some y"
    "d' = d2\<lparr>dk_creates := dk_creates d2 @ [\<lparr>pc_request = request, pc_terminal = t, pc_generation = tm_generation y\<rparr>]\<rparr>"
    using assms(2) c by (auto simp: spawn_agent_terminal_def d2_def Let_def bind_eq_Some_iff)
  have d1: "desk_ok d1" by (rule create_terminal_ok [OF assms(1) c])
  then have d2: "desk_ok d2" by (auto simp: d2_def attach_ok split: option.split)
  have same: "dk_creates d2 = dk_creates d" using f(4)
    by (auto simp: d2_def attach_task_run_def Let_def change_terminal_def split: option.split)
  have "\<exists>z\<in>set (dk_terminals d2). tm_id z = t \<and> tm_status z = TermStarting \<and> \<not> tm_released z"
  proof (cases "find (task_matches spec) (dk_catalog d)")
    case None
    with x show ?thesis by (simp add: d2_def)
  next
    case (Some k)
    have "distinct (map tm_id (dk_terminals d1))" using d1 by (simp add: desk_ok_def)
    with x Some show ?thesis
      by (auto simp: d2_def attach_task_run_def Let_def change_terminal_def update_first_map)
  qed
  then have y_ok: "tm_status y = TermStarting" "\<not> tm_released y" "y \<in> set (dk_terminals d2)" "tm_id y = t"
    using find_terminal_Some [OF y(1)] same_id_same_terminal [OF d2] by metis+
  have "\<forall>c\<in>set (dk_creates d). pc_terminal c \<noteq> t"
  proof
    fix c assume "c \<in> set (dk_creates d)"
    then have "create_ok (dk_terminals d) c" using assms(1) by (auto simp: desk_ok_def list_all_iff)
    then show "pc_terminal c \<noteq> t" using assms(1) f(1) by (force simp: create_ok_def desk_ok_def)
  qed
  with d2 y_ok same show ?thesis unfolding y(2) by (auto simp: desk_ok_def create_ok_def)
qed

lemma release_ok:
  assumes "desk_ok d" "\<forall>c\<in>set (dk_creates d). pc_terminal c \<noteq> tm_id x"
  shows "desk_ok (release_terminal reason x d)"
    "dk_creates (release_terminal reason x d) = dk_creates d"
proof -
  have ids: "distinct (map tm_id (dk_terminals d))" "distinct (map pc_terminal (dk_creates d))"
    using assms(1) by (auto simp: desk_ok_def)
  show "dk_creates (release_terminal reason x d) = dk_creates d" by (simp add: release_terminal_def)
  show "desk_ok (release_terminal reason x d)"
    by (rule ok_update [OF assms(1), where t = "tm_id x" and f = "\<lambda>y. y\<lparr>tm_released := True\<rparr>"])
       (use assms(2) ids in \<open>auto simp: release_terminal_def change_terminal_map split: if_splits\<close>)
qed

lemma handle_ok:
  assumes "desk_ok d" "handle_agent_terminal S DC session request operation d = Some d'"
    and allowed: "\<forall>c\<in>set (dk_creates d). operation_terminal operation \<noteq> Some (pc_terminal c)"
  shows "desk_ok d'"
proof (cases "\<exists>a. dk_agent d = Some a \<and> as_id a = session")
  case False
  with assms(1,2) show ?thesis by (auto simp: handle_agent_terminal_def split: option.splits if_splits)
next
  case True
  then obtain a where a: "dk_agent d = Some a" "as_id a = session" by blast
  show ?thesis
  proof (cases operation)
    case (TCreate spec limit pre)
    with assms(1,2) a spawn_ok show ?thesis
      by (auto simp: handle_agent_terminal_def split: if_splits)
  next
    case (TWaitForExit t)
    show ?thesis
    proof (cases "find (\<lambda>x. Some (tm_id x) = operation_terminal operation \<and> owns session x) (dk_terminals d)")
      case None
      with assms(1,2) a TWaitForExit show ?thesis by (auto simp: handle_agent_terminal_def)
    next
      case (Some x)
      then have x: "x \<in> set (dk_terminals d)" "\<not> tm_released x" by (auto simp: find_Some_iff owns_def)
      have "d' = operate request operation x d" using assms(2) a TWaitForExit Some by (simp add: handle_agent_terminal_def)
      with assms(1) x show ?thesis unfolding TWaitForExit
        by (cases "tm_status x") (auto simp: desk_ok_def wait_ok_def is_live_def respond_terminal_def say_def)
    qed
  next
    case (TOutput t)
    with assms(1,2) a show ?thesis by (auto simp: handle_agent_terminal_def split: option.splits)
  next
    case (TKill t)
    have "desk_ok (complete_terminal_waits u r (to_pty q d))" for u r q
      using assms(1) by (auto simp: desk_ok_def list_all_iff)
    with TKill assms(1,2) a show ?thesis by (auto simp: handle_agent_terminal_def split: option.splits)
  next
    case (TRelease t)
    have "desk_ok (release_terminal r x d)" if "tm_id x = t" for r x
      using release_ok(1) [OF assms(1), of x r] allowed that TRelease by fastforce
    with TRelease assms(1,2) a show ?thesis
      by (auto simp: handle_agent_terminal_def find_Some_iff split: option.splits)
  qed
qed

lemma release_all_ok:
  assumes "desk_ok d" "\<forall>x\<in>set xs. \<forall>c\<in>set (dk_creates d). pc_terminal c \<noteq> tm_id x"
  shows "desk_ok (fold (release_terminal reason) xs d)"
  using assms
proof (induction xs arbitrary: d)
  case (Cons x xs)
  then show ?case using release_ok [of d x reason] by simp
qed simp

lemma cancel_ok:
  assumes "desk_ok d"
  shows "desk_ok (cancel_agent_terminals session reason d)"
proof -
  let ?d1 = "reject_pending_permission (Some session) reason d"
  let ?d2 = "?d1\<lparr>dk_creates := filter (\<lambda>c. \<not> creates_owned session ?d1 c) (dk_creates ?d1),
    dk_outbox := dk_outbox ?d1 @ map (\<lambda>c. TerminalResponse (pc_request c) (RError reason))
      (filter (creates_owned session ?d1) (dk_creates ?d1))\<rparr>"
  have "desk_ok ?d1" using assms by simp
  then have "desk_ok ?d2" by (auto simp: desk_ok_def list_all_iff distinct_map_filter)
  moreover have "\<forall>x\<in>set (filter (owns session) (dk_terminals ?d2)). \<forall>c\<in>set (dk_creates ?d2). pc_terminal c \<noteq> tm_id x"
    by (auto simp: creates_owned_def list_ex_iff owns_def)
  ultimately show ?thesis unfolding cancel_agent_terminals_def Let_def by (rule release_all_ok)
qed

lemma shutdown_ok: "desk_ok d \<Longrightarrow> desk_ok (shutdown_terminals d)"
proof -
  assume "desk_ok d"
  then have "desk_ok (reject_pending_permission None (ustr ''application shutting down'') d)" by simp
  then show ?thesis by (auto simp: shutdown_terminals_def Let_def desk_ok_def comp_def)
qed

lemma started_ok: "desk_ok d \<Longrightarrow> desk_ok (session_started c session d)"
  by (auto simp: session_started_def Let_def cancel_ok split: option.split)

lemma sync_duties: "sync_proposals R D d = Some d' \<Longrightarrow> same_duties d d'"
  by (auto simp: sync_proposals_def bind_eq_Some_iff split: option.splits if_splits)

lemma apply_duties: "apply_proposal R p d = Some (n, d') \<Longrightarrow> same_duties d d'"
proof (cases "d' = d")
  assume "apply_proposal R p d = Some (n, d')" and "d' \<noteq> d"
  then obtain k r b where "(n, d') = (case r of
      Inl e \<Rightarrow> (0, dk_notify (edit_error_fmt e) (d\<lparr>dk_app := (dk_app d)\<lparr>lm_buffers := (lm_buffers (dk_app d))[k := b]\<rparr>\<rparr>))
    | Inr (u :: unit) \<Rightarrow> (length (applicable p), d\<lparr>dk_app := (dk_app d)\<lparr>lm_buffers := (lm_buffers (dk_app d))[k := b]\<rparr>\<rparr>))"
    unfolding apply_proposal_def
    by (simp add: Let_def case_prod_beta bind_eq_Some_iff split: option.splits if_splits) metis
  then show ?thesis by (cases r) simp_all
qed simp

lemma permission_duties:
  assumes "permission_requested R D session request summary command spec ed d = Some d'"
  shows "same_duties d d'"
proof -
  have review: "same_duties d d1" if "review_for_permission R D request e summary d = Some (r, d1)" for e r d1
    using that sync_duties by (fastforce simp: review_for_permission_def Let_def bind_eq_Some_iff same_duties_def
        change_agent_def split: option.splits sum.splits anchor_failure.splits)
  show ?thesis
    using assms review by (force simp: permission_requested_def bind_eq_Some_iff split: if_splits option.splits)
qed

lemma receive_duties:
  assumes "receive_proposal R D i p old new d = Some d'"
  shows "same_duties d d'"
  using assms sync_duties
  by (fastforce simp: receive_proposal_def Let_def bind_eq_Some_iff same_duties_def change_agent_def dk_notify_def
      split: if_splits option.splits)

lemma settle_ok: "desk_ok d \<Longrightarrow> settle_permission S DC decision origin d = Some d' \<Longrightarrow> desk_ok d'"
  by (auto simp: settle_permission_def dest: spawn_ok [rotated] split: permission_origin.splits option.splits if_splits)

lemma decide_ok:
  assumes "desk_ok d" "decide_permission R S DC D decision d = Some d'"
  shows "desk_ok d'"
proof (cases "d' = d")
  case False
  then obtain a pending where a: "dk_agent d = Some a" "as_permission a = Some pending"
    using assms(2) by (auto simp: decide_permission_def split: option.splits)
  let ?d1 = "d\<lparr>dk_agent := Some (a\<lparr>as_permission := None\<rparr>)\<rparr>"
  obtain d2 d3 where d: "(case pn_review pending of None \<Rightarrow> Some ?d1
      | Some i \<Rightarrow> sync_proposals R D (change_agent (\<lambda>a. a\<lparr>as_proposals := filter (\<lambda>p. ep_id p \<noteq> i) (as_proposals a)\<rparr>) ?d1))
      = Some d2" "settle_permission S DC decision (pn_origin pending) d2 = Some d3" "desk_ok d' = desk_ok d3"
    using assms a by (auto simp: decide_permission_def bind_eq_Some_iff Let_def)
  have "desk_ok d2" using d(1) assms(1) sync_duties same_duties_ok by (fastforce split: option.splits)
  with settle_ok d(2,3) show ?thesis by blast
qed (use assms in simp)

lemma resolve_ok:
  assumes "desk_ok d" "resolve_proposal R S DC D accept d = Some d'"
  shows "desk_ok d'"
proof -
  have "desk_ok d2" if "apply_proposal R p d1 = Some (n, d2)" "same_duties d d1" for p d1 n d2
    using apply_duties [OF that(1)] that(2) assms(1) same_duties_ok same_duties_trans by blast
  with assms show ?thesis
    by (auto simp: resolve_proposal_def Let_def bind_eq_Some_iff decide_ok
        split: option.splits if_splits list.splits)
qed

lemma event_ok:
  assumes "desk_ok d" "desk_allowed (AgentSays e :: 'r desk_op) (d :: ('r, 's, 'd) desk)"
    "on_agent_event R S DC D c e d = Some d'"
  shows "desk_ok d'"
proof (cases e)
  case (TerminalRequest session request operation)
  with assms handle_ok show ?thesis by force
next
  case (PermissionRequested s r su co sp ed)
  with assms permission_duties same_duties_ok show ?thesis by fastforce
next
  case (ProposedEdit s i p old new)
  with assms receive_duties same_duties_ok show ?thesis by fastforce
next
  case (ReadFileRequested s r p)
  have "same_duties d (serve_read R s r p d)" by (simp add: serve_read_def Let_def split: option.split)
  with assms ReadFileRequested same_duties_ok show ?thesis by auto
next
  case (ModeChanged s m)
  have "same_duties d (mode_changed s m d)" by (simp add: mode_changed_def split: option.split)
  with assms ModeChanged same_duties_ok show ?thesis by auto
qed (use assms in \<open>auto simp: started_ok cancel_ok for_session_def Let_def split: if_splits\<close>)

lemma kept_map:
  assumes "desk_ok d" "\<And>x. tm_id (f x) = tm_id x \<and> tm_generation (f x) = tm_generation x
     \<and> tm_status (f x) = tm_status x \<and> tm_released (f x) = tm_released x"
    "dk_terminals d' = map f (dk_terminals d)" "dk_creates d' = dk_creates d" "dk_waits d' = dk_waits d"
    "dk_next_terminal d' = dk_next_terminal d" "dk_active_terminal d' = dk_active_terminal d"
  shows "desk_ok d'"
proof -
  have "create_ok (dk_terminals d') c = create_ok (dk_terminals d) c" "wait_ok (dk_terminals d') w = wait_ok (dk_terminals d) w" for c w
    unfolding create_ok_def wait_ok_def assms(3) using assms(2) by auto
  moreover have "tm_id \<circ> f = tm_id" using assms(2) by auto
  ultimately show ?thesis using assms by (simp add: desk_ok_def list_all_iff)
qed

lemma active_kept:
  assumes "desk_ok d" "change_active f d = Some d'"
    "\<And>x. tm_id (f x) = tm_id x \<and> tm_generation (f x) = tm_generation x \<and> tm_status (f x) = tm_status x
      \<and> tm_released (f x) = tm_released x"
  shows "desk_ok d'"
proof (cases "dk_active_terminal d")
  case None
  with assms show ?thesis by (simp add: change_active_def)
next
  case (Some k)
  then have k: "k < length (dk_terminals d)" using assms(1) by (simp add: desk_ok_def)
  then have d': "d' = d\<lparr>dk_terminals := (dk_terminals d)[k := f (dk_terminals d ! k)]\<rparr>"
    using assms(2) Some by (simp add: change_active_def)
  have ids: "distinct (map tm_id (dk_terminals d))" using assms(1) by (simp add: desk_ok_def)
  show ?thesis unfolding d'
    by (rule kept_map [OF assms(1), where f = "\<lambda>x. if tm_id x = tm_id (dk_terminals d ! k) then f x else x"])
       (use assms(3) in \<open>simp_all add: update_nth_map [OF ids k]\<close>)
qed

lemma cancel_copy_ok: "desk_ok d \<Longrightarrow> cancel_terminal_copy_mode S d = Some d' \<Longrightarrow> desk_ok d'"
proof -
  assume d: "desk_ok d" "cancel_terminal_copy_mode S d = Some d'"
  then obtain e where e: "change_active (\<lambda>x. x\<lparr>tm_screen := sc_clear_selection S (tm_screen x)\<rparr>) d = Some e"
    "d' = e\<lparr>dk_copy_mode := False\<rparr>" by (auto simp: cancel_terminal_copy_mode_def)
  have "desk_ok e" by (rule active_kept [OF d(1) e(1)]) simp
  moreover have "same_duties e d'" by (simp add: e(2))
  ultimately show ?thesis using same_duties_ok by blast
qed

lemma shell_ok: "desk_ok d \<Longrightarrow> desk_ok (new_shell_terminal S shell d)"
  by (cases "create_terminal_with_limit S shell HumanShell default_capture_limit d")
     (simp add: new_shell_terminal_def create_terminal_def create_terminal_ok)

lemma copy_modes_ok:
  assumes "desk_ok d"
  shows "toggle_terminal_focus S shell d = Some d' \<Longrightarrow> desk_ok d'"
    "focus_pane S p d = Some d' \<Longrightarrow> desk_ok d'" "enter_terminal_copy_mode S d = Some d' \<Longrightarrow> desk_ok d'"
    "confirm_terminal_copy_mode S d = Some d' \<Longrightarrow> desk_ok d'"
proof -
  have frame: "desk_ok (e\<lparr>dk_focus := p\<rparr>) = desk_ok e" "desk_ok (e\<lparr>dk_copy_mode := b\<rparr>) = desk_ok e"
    "desk_ok (e\<lparr>dk_clipboard := cl\<rparr>) = desk_ok e" for e :: "('a, 'b, 'c) desk" and p b cl
    by (rule same_duties_ok; simp)+
  show "toggle_terminal_focus S shell d = Some d' \<Longrightarrow> desk_ok d'"
    using assms by (auto simp: toggle_terminal_focus_def shell_ok frame cancel_copy_ok split: if_splits)
  show "focus_pane S p d = Some d' \<Longrightarrow> desk_ok d'"
    using assms by (auto simp: focus_pane_def bind_eq_Some_iff frame cancel_copy_ok split: if_splits)
  show "enter_terminal_copy_mode S d = Some d' \<Longrightarrow> desk_ok d'"
    using assms by (auto simp: enter_terminal_copy_mode_def frame split: if_splits
        elim!: active_kept [rotated])
  show "confirm_terminal_copy_mode S d = Some d' \<Longrightarrow> desk_ok d'"
    using assms by (auto simp: confirm_terminal_copy_mode_def bind_eq_Some_iff Let_def frame split: if_splits
        elim!: active_kept [rotated])
qed

lemma restart_ok:
  fixes d :: "('a, 'b, 'c) desk"
  assumes "desk_ok d" "restart_terminal S shell d = Some d'"
  shows "desk_ok d'"
proof -
  obtain d1 where d1: "cancel_terminal_copy_mode S d = Some d1" "desk_ok d1"
    using assms cancel_copy_ok by (auto simp: restart_terminal_def bind_eq_Some_iff)
  show ?thesis
  proof (cases "dk_active_terminal d1")
    case None
    with assms(2) d1 shell_ok show ?thesis by (auto simp: restart_terminal_def)
  next
    case (Some k)
    then have k: "k < length (dk_terminals d1)" using d1(2) by (simp add: desk_ok_def)
    let ?x = "dk_terminals d1 ! k"
    have ids: "distinct (map tm_id (dk_terminals d1))" "distinct (map pc_terminal (dk_creates d1))"
      using d1(2) by (auto simp: desk_ok_def)
    show ?thesis
    proof (cases "list_ex (\<lambda>c. pc_terminal c = tm_id ?x) (dk_creates d1)")
      case True
      with assms(2) d1 Some k show ?thesis by (auto simp: restart_terminal_def Let_def)
    next
      case False
      define f :: "'b terminal_session \<Rightarrow> 'b terminal_session" where "f = (\<lambda>x. x\<lparr>tm_generation := tm_generation x + 1, tm_screen := sc_new S (dk_size d1),
        tm_capture := capture_new default_capture_limit, tm_status := TermStarting, tm_released := False\<rparr>)"
      have "dk_terminals d' = (dk_terminals d1)[k := f ?x] \<and> dk_creates d' = dk_creates d1
          \<and> dk_waits d' = filter (\<lambda>(_, u). u \<noteq> tm_id ?x) (dk_waits d1) \<and> dk_next_terminal d' = dk_next_terminal d1
          \<and> dk_active_terminal d' = dk_active_terminal d1"
        using assms(2) d1(1) Some k False unfolding f_def
        by (cases "tm_released ?x"; cases "is_live (tm_status ?x)")
           (auto simp: restart_terminal_def Let_def to_pty_def complete_terminal_waits_def)
      then have d': "dk_terminals d' = map (\<lambda>x. if tm_id x = tm_id ?x then f x else x) (dk_terminals d1)"
        "dk_creates d' = dk_creates d1" "dk_waits d' = filter (\<lambda>(_, u). u \<noteq> tm_id ?x) (dk_waits d1)"
        "dk_next_terminal d' = dk_next_terminal d1" "dk_active_terminal d' = dk_active_terminal d1"
        using update_nth_map [OF ids(1) k, of f] by simp_all
      have "tm_id (f x) = tm_id x" for x by (simp add: f_def)
      then show ?thesis
        using False ids(2) by (intro ok_update [OF d1(2) d'(1)]) (auto simp: d' list_ex_iff)
    qed
  qed
qed

lemma without_nth: "distinct (map f xs) \<Longrightarrow> distinct (map f (take k xs @ drop (Suc k) xs))"
  by (induction xs arbitrary: k) (auto simp: take_Cons drop_Cons split: nat.split dest: in_set_takeD in_set_dropD)

lemma remove_ok:
  assumes "desk_ok d"
  shows "desk_ok (remove_terminal t kill d)"
proof (cases "find_position (\<lambda>x. tm_id x = t) (dk_terminals d)")
  case None
  with assms show ?thesis by (simp add: remove_terminal_def)
next
  case (Some k)
  then have k: "k < length (dk_terminals d)" "tm_id (dk_terminals d ! k) = t"
    using find_position_first [OF Some] by simp_all
  define ys where "ys = take k (dk_terminals d) @ drop (Suc k) (dk_terminals d)"
  have ids: "distinct (map tm_id (dk_terminals d))" "distinct (map pc_terminal (dk_creates d))"
    using assms by (auto simp: desk_ok_def)
  have split: "dk_terminals d = take k (dk_terminals d) @ dk_terminals d ! k # drop (Suc k) (dk_terminals d)"
    by (rule id_take_nth_drop [OF k(1)])
  have left: "x \<in> set ys" if "x \<in> set (dk_terminals d)" "tm_id x \<noteq> t" for x
    using that k(2) split unfolding ys_def by (metis Un_iff set_ConsD set_append)
  have few: "set ys \<subseteq> set (dk_terminals d)" "length ys = length (dk_terminals d) - 1" "distinct (map tm_id ys)"
  proof -
    show "set ys \<subseteq> set (dk_terminals d)" unfolding ys_def set_append by (blast dest: in_set_takeD in_set_dropD)
    show "length ys = length (dk_terminals d) - 1" unfolding ys_def using k(1) by simp
    show "distinct (map tm_id ys)" unfolding ys_def by (rule without_nth [OF ids(1)])
  qed
  note c = answered_create [OF ids(2), of t "\<lambda>c. pc_terminal c = t" "RError (ustr ''terminal closed'')", simplified]
  let ?d' = "remove_terminal t kill d"
  define d1 where "d1 = complete_terminal_waits t (RError (ustr ''terminal closed''))
    (answer_create (\<lambda>c. pc_terminal c = t) (RError (ustr ''terminal closed'')) d)"
  have "\<exists>d4. same_duties (d1\<lparr>dk_terminals := take k (dk_terminals d1) @ drop (Suc k) (dk_terminals d1)\<rparr>) d4
      \<and> ?d' = (if dk_terminals d4 = []
           then (if dk_focus d4 = TerminalPane then d4\<lparr>dk_focus := dk_previous_focus d4\<rparr> else d4)\<lparr>dk_active_terminal := None\<rparr>
           else d4\<lparr>dk_active_terminal := Some (case dk_active_terminal d1 of
             Some active \<Rightarrow> if active = k then min k (length (dk_terminals d4) - 1) else if active > k then active - 1 else active
           | None \<Rightarrow> min k (length (dk_terminals d4) - 1))\<rparr>)"
    unfolding remove_terminal_def Some option.case Let_def d1_def [symmetric]
    by (rule exI, rule conjI [OF _ refl]) simp
  then obtain d4 where d4: "same_duties (d1\<lparr>dk_terminals := ys\<rparr>) d4"
    "?d' = (if dk_terminals d4 = []
           then (if dk_focus d4 = TerminalPane then d4\<lparr>dk_focus := dk_previous_focus d4\<rparr> else d4)\<lparr>dk_active_terminal := None\<rparr>
           else d4\<lparr>dk_active_terminal := Some (case dk_active_terminal d1 of
             Some active \<Rightarrow> if active = k then min k (length (dk_terminals d4) - 1) else if active > k then active - 1 else active
           | None \<Rightarrow> min k (length (dk_terminals d4) - 1))\<rparr>)"
    by (auto simp: d1_def ys_def)
  have fields: "dk_terminals ?d' = ys" "dk_creates ?d' = dk_creates d1" "dk_waits ?d' = dk_waits d1"
    "dk_next_terminal ?d' = dk_next_terminal d1"
    "dk_active_terminal ?d' = (if ys = [] then None else Some (case dk_active_terminal d of
             Some active \<Rightarrow> if active = k then min k (length ys - 1) else if active > k then active - 1 else active
           | None \<Rightarrow> min k (length ys - 1)))"
    using d4(1) by (simp_all add: d4(2) same_duties_def d1_def split: option.split)
  have d': "dk_terminals ?d' = ys" "dk_creates ?d' = dk_creates (answer_create (\<lambda>c. pc_terminal c = t) (RError (ustr ''terminal closed'')) d)"
    "dk_waits ?d' = filter (\<lambda>(_, u). u \<noteq> t) (dk_waits d)" "dk_next_terminal ?d' = dk_next_terminal d"
    using fields by (simp_all add: d1_def ys_def)
  have "create_ok ys c" if "c \<in> set (dk_creates ?d')" for c
  proof -
    have "create_ok (dk_terminals d) c" "pc_terminal c \<noteq> t" using that c assms by (auto simp: d' desk_ok_def list_all_iff)
    with left show ?thesis unfolding create_ok_def by metis
  qed
  moreover have "wait_ok ys w" if "w \<in> set (dk_waits ?d')" for w
  proof -
    have "wait_ok (dk_terminals d) w" "snd w \<noteq> t" using that assms by (auto simp: d' desk_ok_def list_all_iff)
    with left show ?thesis unfolding wait_ok_def by metis
  qed
  moreover have "j < length ys" if "dk_active_terminal ?d' = Some j" for j
  proof -
    have act: "\<forall>j. dk_active_terminal d = Some j \<longrightarrow> j < length (dk_terminals d)" using assms by (simp add: desk_ok_def)
    have n: "length (dk_terminals d) = Suc (length ys)" using few(2) k(1) by simp
    have pos: "0 < length ys" using that unfolding fields by (auto split: if_splits)
    then have "min k (length ys - 1) < length ys" by linarith
    with pos that act k(1) show ?thesis unfolding fields n by (auto split: if_splits option.splits)
  qed
  ultimately show ?thesis using assms few c d' by (auto simp: desk_ok_def list_all_iff)
qed

lemma tabs_ok:
  assumes "desk_ok d"
  shows "desk_ok (cycle_terminal S shell delta d)" "desk_ok (close_terminal d)"
    "desk_ok (set_terminal_size S rows cols d)" "desk_ok (type_terminal_chord S chord d)"
    "desk_ok (run_task S DC spec d)" "desk_ok (cancel_latest_task d)"
proof -
  have "nat (i mod int (length xs)) < length xs" if "xs \<noteq> []" for i and xs :: "'x list"
    using that by (simp add: nat_less_iff)
  with assms show "desk_ok (cycle_terminal S shell delta d)"
    by (auto simp: cycle_terminal_def Let_def shell_ok) (simp add: desk_ok_def)
  show "desk_ok (close_terminal d)"
    using assms by (auto simp: close_terminal_def remove_ok split: option.split)
  show "desk_ok (set_terminal_size S rows cols d)"
    by (auto simp: set_terminal_size_def Let_def assms
        intro: kept_map [OF assms, where f = "\<lambda>x. x\<lparr>tm_screen := sc_resize S (max rows 1, max cols 1) (tm_screen x)\<rparr>"])
  show "desk_ok (type_terminal_chord S chord d)"
    using assms by (auto simp: type_terminal_chord_def split: option.split)
  show "desk_ok (run_task S DC spec d)"
    using create_terminal_ok [OF assms]
    by (auto simp: run_task_def create_terminal_def case_prod_beta intro!: attach_ok) (metis prod.collapse)
  have "same_duties d (cancel_latest_task d)"
    by (auto simp: cancel_latest_task_def split: option.split)
  with assms same_duties_ok show "desk_ok (cancel_latest_task d)" by blast
qed

lemma agent_side_ok:
  assumes "desk_ok d"
  shows "desk_ok (new_agent_session d)" "desk_ok (prompt_agent d)" "desk_ok (confirm_agent_prompt c session t d)"
    "desk_ok (set_agent_mode mode d)" "desk_ok (desk_file_failed i e d)" "desk_file_loaded R i p bs d = Some d' \<Longrightarrow> desk_ok d'"
proof -
  have new: "same_duties d1 (new_agent_session d2) = same_duties d1 d2" for d1 d2 :: "('a, 'b, 'c) desk"
    by (simp add: new_agent_session_def split: option.split)
  have read: "same_duties d1 (answer_read r x d2) = same_duties d1 d2" for d1 d2 :: "('a, 'b, 'c) desk" and r x
    by (simp add: answer_read_def)
  have "same_duties d (new_agent_session d)" "same_duties d (prompt_agent d)" "same_duties d (confirm_agent_prompt c session t d)"
    "same_duties d (set_agent_mode mode d)" "same_duties d (desk_file_failed i e d)"
    "desk_file_loaded R i p bs d = Some d' \<Longrightarrow> same_duties d d'"
    by (auto simp: new read prompt_agent_def confirm_agent_prompt_def set_agent_mode_def desk_file_failed_def
        desk_file_loaded_def split: option.splits)
  with assms show "desk_ok (new_agent_session d)" "desk_ok (prompt_agent d)" "desk_ok (confirm_agent_prompt c session t d)"
    "desk_ok (set_agent_mode mode d)" "desk_ok (desk_file_failed i e d)" "desk_file_loaded R i p bs d = Some d' \<Longrightarrow> desk_ok d'"
    by (simp_all add: same_duties_ok)
qed

lemma desk_step_ok:
  assumes "desk_ok d" "desk_allowed op d" "desk_step R S DC D ctx op d = Some d'"
  shows "desk_ok d'"
proof (cases op)
  case (AgentSays e)
  with assms event_ok show ?thesis by fastforce
next
  case (ProcessSays e)
  with assms pty_event_ok show ?thesis by fastforce
next
  case Repaints
  with assms sync_duties same_duties_ok show ?thesis by fastforce
next
  case (Decides dec)
  with assms decide_ok show ?thesis by fastforce
next
  case (Reviews accept)
  with assms resolve_ok show ?thesis by fastforce
next
  case (FileCame i p bs)
  with assms agent_side_ok(6) show ?thesis by fastforce
next
  case (RestartsTerminal shell)
  with assms restart_ok show ?thesis by fastforce
next
  case (TogglesTerminal shell)
  with assms copy_modes_ok(1) show ?thesis by fastforce
next
  case (FocusesPane p)
  with assms copy_modes_ok(2) show ?thesis by fastforce
next
  case EntersCopyMode
  with assms copy_modes_ok(3) show ?thesis by fastforce
next
  case ConfirmsCopyMode
  with assms copy_modes_ok(4) show ?thesis by fastforce
next
  case CancelsCopyMode
  with assms cancel_copy_ok show ?thesis by fastforce
qed (use assms in \<open>auto simp: agent_side_ok(1-5) tabs_ok remove_ok shell_ok shutdown_ok\<close>)

end
