(* ===== verification/Desk_Answers.thy ===== *)
theory Desk_Answers
  imports Desk_Duties Lsp_Samples
begin

text \<open>
  The properties of the application's side of an agent: its calls are answered once, none is left to
  nobody, nothing runs unasked, and what a cancelled review does.
\<close>

section \<open>Runs and their calls\<close>

text \<open>What the agent called for, and the reviews reported under the id of their proposal.\<close>

definition run_calls :: "'r desk_op list \<Rightarrow> agent_call multiset" where
  "run_calls ops = sum_list (map op_calls ops)"

fun run_reports ::
  "'r rope_api \<Rightarrow> 's screen_api \<Rightarrow> 'd decoder_api \<Rightarrow> line_diff \<Rightarrow> utext \<Rightarrow> 'r desk_op list \<Rightarrow>
   ('r, 's, 'd) desk \<Rightarrow> agent_call multiset" where
  "run_reports R S DC D ctx [] d = {#}"
| "run_reports R S DC D ctx (op # ops) d =
     op_reports op d
     + (case desk_step R S DC D ctx op d of None \<Rightarrow> {#} | Some d' \<Rightarrow> run_reports R S DC D ctx ops d')"

fun run_allowed ::
  "'r rope_api \<Rightarrow> 's screen_api \<Rightarrow> 'd decoder_api \<Rightarrow> line_diff \<Rightarrow> utext \<Rightarrow> 'r desk_op list \<Rightarrow>
   ('r, 's, 'd) desk \<Rightarrow> bool" where
  "run_allowed R S DC D ctx [] d = True"
| "run_allowed R S DC D ctx (op # ops) d =
     (desk_allowed op d
      \<and> (case desk_step R S DC D ctx op d of None \<Rightarrow> True | Some d' \<Rightarrow> run_allowed R S DC D ctx ops d'))"

lemma books_run:
  "desk_run R S DC D ctx ops d = Some d' \<Longrightarrow>
   books d' = run_calls ops + run_reports R S DC D ctx ops d + books d"
  by (induction ops arbitrary: d) (fastforce simp: run_calls_def bind_eq_Some_iff dest: books_step)+

text \<open>Only permissions are reported.\<close>

lemma only_permissions_reported:
  "count (op_reports op d) (TerminalCall r) = 0" "count (op_reports op d) (ReadCall r) = 0"
  by (cases op; auto simp: reported_def split: option.split list.split)+

lemma run_reports_permissions:
  "count (run_reports R S DC D ctx ops d) (TerminalCall r) = 0"
  "count (run_reports R S DC D ctx ops d) (ReadCall r) = 0"
  by (induction ops arbitrary: d) (auto simp: only_permissions_reported split: option.split)

lemma desk_run_ok:
  "desk_run R S DC D ctx ops d = Some d' \<Longrightarrow> run_allowed R S DC D ctx ops d \<Longrightarrow> desk_ok d \<Longrightarrow> desk_ok d'"
  by (induction ops arbitrary: d) (auto simp: bind_eq_Some_iff dest: desk_step_ok)

lemma found_terminal:
  assumes "desk_ok d" "x \<in> set (dk_terminals d)"
  shows "find_terminal (tm_id x) d = Some x"
proof -
  obtain y where y: "find_terminal (tm_id x) d = Some y"
    using assms(2) by (cases "find_terminal (tm_id x) d") (auto simp: find_terminal_def find_None_iff)
  with find_terminal_Some [OF y] same_id_same_terminal [OF assms(1)] assms(2) show ?thesis by metis
qed

lemma waits_completed:
  "(r, t) \<in> set (dk_waits d) \<Longrightarrow> TerminalResponse r x \<in> set (dk_outbox (complete_terminal_waits t x d))"
  by (force simp: complete_terminal_waits_def)

lemma wait_in_hand:
  assumes "desk_ok d" "(r, t) \<in> set (dk_waits d)"
  obtains x where "find_terminal t d = Some x" "is_live (tm_status x)" "\<not> tm_released x"
proof -
  have "wait_ok (dk_terminals d) (r, t)" using assms by (auto simp: desk_ok_def list_all_iff)
  then obtain x where x: "x \<in> set (dk_terminals d)" "tm_id x = t" "is_live (tm_status x)" "\<not> tm_released x"
    by (auto simp: wait_ok_def)
  with that found_terminal [OF assms(1) x(1)] show thesis by simp
qed

lemma create_in_hand:
  assumes "desk_ok d" "c \<in> set (dk_creates d)"
  obtains x where "find_terminal (pc_terminal c) d = Some x" "tm_status x = TermStarting" "\<not> tm_released x"
    "tm_generation x = pc_generation c"
proof -
  have "create_ok (dk_terminals d) c" using assms by (auto simp: desk_ok_def list_all_iff)
  then obtain x where x: "x \<in> set (dk_terminals d)" "tm_id x = pc_terminal c" "tm_generation x = pc_generation c"
    "tm_status x = TermStarting" "\<not> tm_released x" by (auto simp: create_ok_def)
  with that found_terminal [OF assms(1) x(1)] show thesis by simp
qed

lemma exit_answers_waits:
  assumes "desk_ok d" "(r, t) \<in> set (dk_waits d)" "find_terminal t d = Some x"
  shows "TerminalResponse r (RExited exit) \<in> set (dk_outbox (on_pty_event S DC (PtyExited t (tm_generation x) exit) d))"
    "TerminalResponse r (RError msg) \<in> set (dk_outbox (on_pty_event S DC (PtyFailed t (tm_generation x) msg) d))"
proof -
  have x: "is_live (tm_status x)" "\<not> tm_released x" using wait_in_hand [OF assms(1,2)] assms(3) by auto
  have "dk_waits (snd (decode_task_output DC t None d)) = dk_waits d"
    using duties_eq [of d "snd (decode_task_output DC t None d)"] assms(1) by simp
  then show "TerminalResponse r (RExited exit) \<in> set (dk_outbox (on_pty_event S DC (PtyExited t (tm_generation x) exit) d))"
    using assms(2,3) x by (simp add: on_pty_event_def case_prod_beta Let_def waits_completed)
  show "TerminalResponse r (RError msg) \<in> set (dk_outbox (on_pty_event S DC (PtyFailed t (tm_generation x) msg) d))"
    using assms(2,3) x
    by (cases "tm_status x") (simp_all add: on_pty_event_def waits_completed is_live_def)
qed

lemma create_said:
  assumes "desk_ok d" "c \<in> set (dk_creates d)" "dk_creates d1 = dk_creates d"
  shows "TerminalResponse (pc_request c) x
    \<in> set (dk_outbox (answer_create (creates_of (pc_terminal c) (pc_generation c)) x d1))"
proof -
  have "distinct (map pc_terminal (dk_creates d1))" using assms(1,3) by (simp add: desk_ok_def)
  then have only: "c' = c" if "c' \<in> set (dk_creates d1)" "pc_terminal c' = pc_terminal c" for c'
    using that assms(2,3) by (metis distinct_map inj_onD)
  then have "find (creates_of (pc_terminal c) (pc_generation c)) (dk_creates d1) = Some c"
  proof (cases "find (creates_of (pc_terminal c) (pc_generation c)) (dk_creates d1)")
    case None
    with assms(2,3) show ?thesis by (auto simp: find_None_iff creates_of_def)
  next
    case (Some c')
    then have "c' \<in> set (dk_creates d1)" "pc_terminal c' = pc_terminal c" by (auto simp: find_Some_iff creates_of_def)
    with only Some show ?thesis by simp
  qed
  then show ?thesis by (simp add: answer_create_def respond_terminal_def say_def)
qed

lemma start_answers_create:
  assumes "desk_ok d" "c \<in> set (dk_creates d)"
  shows "TerminalResponse (pc_request c) (RCreated (pc_terminal c))
      \<in> set (dk_outbox (on_pty_event S DC (PtySpawned (pc_terminal c) (pc_generation c) pid) d))"
    "TerminalResponse (pc_request c) (RError msg)
      \<in> set (dk_outbox (on_pty_event S DC (PtyFailed (pc_terminal c) (pc_generation c) msg) d))"
proof -
  obtain x where x: "find_terminal (pc_terminal c) d = Some x" "tm_status x = TermStarting" "\<not> tm_released x"
    "tm_generation x = pc_generation c" by (rule create_in_hand [OF assms])
  show "TerminalResponse (pc_request c) (RCreated (pc_terminal c))
      \<in> set (dk_outbox (on_pty_event S DC (PtySpawned (pc_terminal c) (pc_generation c) pid) d))"
    using x by (simp add: on_pty_event_def create_said [OF assms])
  have keep: "set (dk_outbox d1) \<subseteq> set (dk_outbox (complete_terminal_waits t y d1))" for t y and d1 :: "('a, 'b, 'c) desk"
    by (auto simp: complete_terminal_waits_def)
  show "TerminalResponse (pc_request c) (RError msg)
      \<in> set (dk_outbox (on_pty_event S DC (PtyFailed (pc_terminal c) (pc_generation c) msg) d))"
    using x by (simp add: on_pty_event_def) (rule subsetD [OF keep]; simp add: create_said [OF assms])
qed

section \<open>What runs\<close>

fun spawn_spec :: "pty_request \<Rightarrow> terminal_spec option" where
  "spawn_spec (PtySpawn _ _ spec _) = Some spec"
| "spawn_spec _ = None"

definition spawned :: "('r, 's, 'd) desk \<Rightarrow> terminal_spec list" where
  "spawned d = List.map_filter spawn_spec (dk_pty_outbox d)"

text \<open>The commands the human starts with a key: a shell, a task, a restart.\<close>

fun starts_by_hand :: "'r desk_op \<Rightarrow> bool" where
  "starts_by_hand (OpensShell _) = True"
| "starts_by_hand (CyclesTerminals _ _) = True"
| "starts_by_hand (TogglesTerminal _) = True"
| "starts_by_hand (RestartsTerminal _) = True"
| "starts_by_hand (RunsTask _) = True"
| "starts_by_hand _ = False"

definition agent_in_session :: "session_id \<Rightarrow> ('r, 's, 'd) desk \<Rightarrow> bool" where
  "agent_in_session session d \<longleftrightarrow> (case dk_agent d of None \<Rightarrow> False | Some a \<Rightarrow> as_id a = session)"

text \<open>The command of the prompt on the screen, when it is one of a managed terminal.\<close>

definition asked_command :: "('r, 's, 'd) desk \<Rightarrow> terminal_spec list" where
  "asked_command d =
     (case Option.bind (dk_agent d) as_permission of
        None \<Rightarrow> []
      | Some p \<Rightarrow> (case pn_origin p of TerminalAsked _ _ spec _ \<Rightarrow> [spec] | AgentAsked _ _ \<Rightarrow> []))"

fun approved :: "'r desk_op \<Rightarrow> ('r, 's, 'd) desk \<Rightarrow> terminal_spec list" where
  "approved (AgentSays (TerminalRequest session _ (TCreate spec _ pre))) d =
     (if agent_in_session session d \<and> permitted spec pre d then [spec] else [])"
| "approved (Decides decision) d = (if allows decision then asked_command d else [])"
| "approved (Reviews accept) d =
     (if accept \<and> (case dk_agent d of None \<Rightarrow> False | Some a \<Rightarrow> gated_first a) then asked_command d else [])"
| "approved _ d = []"

lemma spawned_updates [simp]:
  "spawned (d\<lparr>dk_app := app\<rparr>) = spawned d" "spawned (d\<lparr>dk_policy := pol\<rparr>) = spawned d"
  "spawned (d\<lparr>dk_terminals := ts\<rparr>) = spawned d" "spawned (d\<lparr>dk_active_terminal := k\<rparr>) = spawned d"
  "spawned (d\<lparr>dk_next_terminal := n\<rparr>) = spawned d" "spawned (d\<lparr>dk_focus := f\<rparr>) = spawned d"
  "spawned (d\<lparr>dk_previous_focus := f\<rparr>) = spawned d" "spawned (d\<lparr>dk_size := sz\<rparr>) = spawned d"
  "spawned (d\<lparr>dk_outbox := out\<rparr>) = spawned d" "spawned (d\<lparr>dk_copy_mode := c\<rparr>) = spawned d"
  "spawned (d\<lparr>dk_clipboard := cl\<rparr>) = spawned d" "spawned (d\<lparr>dk_served := sv\<rparr>) = spawned d"
  "spawned (d\<lparr>dk_runs := rs\<rparr>) = spawned d" "spawned (d\<lparr>dk_next_run := n\<rparr>) = spawned d"
  "spawned (d\<lparr>dk_problem_cursor := pc\<rparr>) = spawned d" "spawned (d\<lparr>dk_pending_prompt := pp\<rparr>) = spawned d"
  "spawned (d\<lparr>dk_capabilities := caps\<rparr>) = spawned d" "spawned (d\<lparr>dk_scroll := sc\<rparr>) = spawned d"
  "spawned (d\<lparr>dk_agent := a\<rparr>) = spawned d" "spawned (d\<lparr>dk_creates := cs\<rparr>) = spawned d"
  "spawned (d\<lparr>dk_waits := ws\<rparr>) = spawned d" "spawned (d\<lparr>dk_reads := rd\<rparr>) = spawned d"
  by (simp_all add: spawned_def)

lemma spawned_to_pty [simp]:
  "spawned (to_pty (PtySpawn t g spec sz) d) = spawned d @ [spec]" "spawned (to_pty (PtyWrite t g bs) d) = spawned d"
  "spawned (to_pty (PtyResize t g sz) d) = spawned d" "spawned (to_pty (PtyKill t g) d) = spawned d"
  "spawned (to_pty (PtyRelease t g) d) = spawned d"
  by (simp_all add: spawned_def to_pty_def map_filter_def)

lemma spawned_moves [simp]:
  "spawned (dk_notify msg d) = spawned d" "spawned (say q d) = spawned d" "spawned (change_terminal t f d) = spawned d"
  "spawned (change_run t g d) = spawned d" "spawned (focus_terminal_pane d) = spawned d"
  "spawned (notify_if_quiet msg d) = spawned d" "spawned (respond_terminal r x d) = spawned d"
  "spawned (complete_terminal_waits t x d) = spawned d" "spawned (answer_create P x d) = spawned d"
  "spawned (change_agent h d) = spawned d" "spawned (attach_task_run DC k t origin d) = spawned d"
  "spawned (snd (decode_task_output DC t bs d)) = spawned d" "spawned (remember_permission spec d) = spawned d"
  "spawned (reject_pending_permission who_asked reason d) = spawned d" "spawned (push_transcript who msg d) = spawned d"
  "spawned (send_prompt ctx session msg d) = spawned d" "spawned (new_agent_session d) = spawned d"
  "spawned (prompt_agent d) = spawned d" "spawned (confirm_agent_prompt ctx session msg d) = spawned d"
  "spawned (set_agent_mode m d) = spawned d" "spawned (mode_changed session m d) = spawned d"
  "spawned (answer_read rd contents d) = spawned d" "spawned (serve_read R session request p d) = spawned d"
  "spawned (cancel_latest_task d) = spawned d" "spawned (type_terminal_chord S chord d) = spawned d"
  "spawned (release_terminal reason tm d) = spawned d" "spawned (for_session session h d) = spawned d"
  by (simp_all add: dk_notify_def say_def change_terminal_def change_run_def focus_terminal_pane_def
      notify_if_quiet_def respond_terminal_def complete_terminal_waits_def answer_create_def change_agent_def
      attach_task_run_def decode_task_output_def remember_permission_def reject_pending_permission_def
      push_transcript_def send_prompt_def new_agent_session_def prompt_agent_def confirm_agent_prompt_def
      set_agent_mode_def mode_changed_def answer_read_def serve_read_def cancel_latest_task_def
      type_terminal_chord_def release_terminal_def for_session_def Let_def case_prod_beta
      split: option.split permission_origin.split)

lemma spawned_write_all [simp]: "spawned (write_all_to_pty t g bss d) = spawned d"
proof -
  have "spawned (fold (\<lambda>bs. to_pty (PtyWrite t g bs)) bss d) = spawned d"
    by (induction bss arbitrary: d) simp_all
  then show ?thesis by (simp add: write_all_to_pty_def)
qed

lemma spawned_pty [simp]: "spawned (on_pty_event S DC e d) = spawned d"
proof -
  have "spawned (on_live_pty_event S DC x e d) = spawned d" for x
    by (cases "(S, DC, x, e, d)" rule: on_live_pty_event.cases)
       (simp_all add: case_prod_beta Let_def split: terminal_status.split)
  then show ?thesis by (simp add: on_pty_event_def split: option.split)
qed

lemma spawned_cancel [simp]: "spawned (cancel_agent_terminals session reason d) = spawned d"
proof -
  have "spawned (fold (release_terminal reason) xs e) = spawned e" for xs and e :: "('a, 'b, 'c) desk"
    by (induction xs arbitrary: e) simp_all
  then show ?thesis by (simp add: cancel_agent_terminals_def Let_def)
qed

lemma spawned_shutdown [simp]: "spawned (shutdown_terminals d) = spawned d"
proof -
  have "List.map_filter spawn_spec (concat (map (\<lambda>x. (if P x then [PtyKill (i x) (g x)] else []) @ [PtyRelease (i x) (g x)]) xs)) = []"
    for P i g and xs :: "'b terminal_session list"
    by (induction xs) (simp_all add: map_filter_def)
  then have "spawned (shutdown_terminals d) = spawned (reject_pending_permission None (ustr ''application shutting down'') d)"
    by (simp add: shutdown_terminals_def Let_def spawned_def)
  then show ?thesis by simp
qed

lemma spawned_tabs [simp]:
  "spawned (remove_terminal t kill d) = spawned d" "spawned (close_terminal d) = spawned d"
  "spawned (set_terminal_size S rows cols d) = spawned d"
proof -
  show remove: "spawned (remove_terminal t kill d) = spawned d" for t kill
    by (cases "find_position (\<lambda>x. tm_id x = t) (dk_terminals d)")
       (simp_all only: remove_terminal_def Let_def option.case if_distrib [of spawned] spawned_updates
         spawned_to_pty spawned_moves if_cancel)
  show "spawned (close_terminal d) = spawned d" by (simp add: close_terminal_def remove split: option.split)
  have "List.map_filter spawn_spec (map (\<lambda>x. PtyResize (i x) (g x) sz) xs) = []"
    for i g sz and xs :: "'b terminal_session list"
    by (induction xs) (simp_all add: map_filter_def)
  then show "spawned (set_terminal_size S rows cols d) = spawned d"
    by (simp add: set_terminal_size_def Let_def spawned_def)
qed

lemma spawned_agent_terminal:
  "spawn_agent_terminal S DC session request spec limit d = Some d' \<Longrightarrow> spawned d' = spawned d @ [spec]"
  by (auto simp: spawn_agent_terminal_def create_terminal_with_limit_def Let_def case_prod_beta bind_eq_Some_iff
      split: option.splits)

lemma spawned_sync: "sync_proposals R D d = Some d' \<Longrightarrow> spawned d' = spawned d"
  by (auto simp: sync_proposals_def bind_eq_Some_iff split: option.splits if_splits)

lemma spawned_active: "change_active f d = Some d' \<Longrightarrow> spawned d' = spawned d"
  by (auto simp: change_active_def split: option.splits if_splits)

lemma spawned_modes:
  "cancel_terminal_copy_mode S d = Some d' \<Longrightarrow> spawned d' = spawned d"
  "focus_pane S p d = Some d' \<Longrightarrow> spawned d' = spawned d"
  "enter_terminal_copy_mode S d = Some d' \<Longrightarrow> spawned d' = spawned d"
  "confirm_terminal_copy_mode S d = Some d' \<Longrightarrow> spawned d' = spawned d"
  by (auto simp: cancel_terminal_copy_mode_def focus_pane_def enter_terminal_copy_mode_def
      confirm_terminal_copy_mode_def bind_eq_Some_iff Let_def dest!: spawned_active split: if_splits option.splits)

lemma spawned_operate:
  "operation_terminal operation \<noteq> None \<Longrightarrow> spawned (operate request operation x d) = spawned d"
  by (cases operation) (simp_all split: terminal_status.split)

lemma spawned_handle:
  assumes "handle_agent_terminal S DC session request operation d = Some d'"
  shows "spawned d' = spawned d @ approved (AgentSays (TerminalRequest session request operation)) d"
proof (cases "agent_in_session session d")
  case False
  with assms show ?thesis
    by (cases operation) (auto simp: handle_agent_terminal_def agent_in_session_def split: option.splits if_splits)
next
  case True
  then obtain a where a: "dk_agent d = Some a" "as_id a = session" by (auto simp: agent_in_session_def split: option.splits)
  show ?thesis
  proof (cases operation)
    case (TCreate spec limit pre)
    with assms a True show ?thesis
      by (auto simp: handle_agent_terminal_def spawned_agent_terminal split: if_splits)
  qed (use assms a in \<open>auto simp: handle_agent_terminal_def spawned_operate
      split: option.splits terminal_status.splits\<close>)
qed

lemma spawned_settle:
  "settle_permission S DC decision origin d = Some d' \<Longrightarrow>
    spawned d' = spawned d @ (if allows decision then (case origin of TerminalAsked _ _ spec _ \<Rightarrow> [spec] | _ \<Rightarrow> []) else [])"
  by (auto simp: settle_permission_def dest!: spawned_agent_terminal split: permission_origin.splits option.splits if_splits)

lemma spawned_decide:
  assumes "decide_permission R S DC D decision d = Some d'"
  shows "spawned d' = spawned d @ (if allows decision then asked_command d else [])"
proof (cases "\<exists>a pending. dk_agent d = Some a \<and> as_permission a = Some pending")
  case False
  with assms show ?thesis by (auto simp: decide_permission_def asked_command_def split: option.splits)
next
  case True
  then obtain a pending where a: "dk_agent d = Some a" "as_permission a = Some pending" by blast
  let ?d1 = "d\<lparr>dk_agent := Some (a\<lparr>as_permission := None\<rparr>)\<rparr>"
  obtain d2 d3 where d: "(case pn_review pending of None \<Rightarrow> Some ?d1
      | Some i \<Rightarrow> sync_proposals R D (change_agent (\<lambda>a. a\<lparr>as_proposals := filter (\<lambda>p. ep_id p \<noteq> i) (as_proposals a)\<rparr>) ?d1))
      = Some d2" "settle_permission S DC decision (pn_origin pending) d2 = Some d3" "spawned d' = spawned d3"
    using assms a by (auto simp: decide_permission_def bind_eq_Some_iff Let_def)
  have "spawned d2 = spawned d" using d(1) by (auto dest!: spawned_sync split: option.splits)
  with spawned_settle [OF d(2)] d(3) a show ?thesis by (simp add: asked_command_def)
qed

lemma spawned_apply: "apply_proposal R p d1 = Some (n, d2) \<Longrightarrow> spawned d2 = spawned d1"
proof (cases "d2 = d1")
  assume "apply_proposal R p d1 = Some (n, d2)" "d2 \<noteq> d1"
  then obtain k r b where "(n, d2) = (case r of
      Inl e \<Rightarrow> (0, dk_notify (edit_error_fmt e) (d1\<lparr>dk_app := (dk_app d1)\<lparr>lm_buffers := (lm_buffers (dk_app d1))[k := b]\<rparr>\<rparr>))
    | Inr (u :: unit) \<Rightarrow> (length (applicable p), d1\<lparr>dk_app := (dk_app d1)\<lparr>lm_buffers := (lm_buffers (dk_app d1))[k := b]\<rparr>\<rparr>))"
    unfolding apply_proposal_def
    by (simp add: Let_def case_prod_beta bind_eq_Some_iff split: option.splits if_splits) metis
  then show ?thesis by (cases r) simp_all
qed simp

lemma spawned_resolve:
  assumes "resolve_proposal R S DC D accept d = Some d'"
  shows "spawned d' = spawned d @ approved (Reviews accept) d"
proof (cases "case dk_agent d of None \<Rightarrow> False | Some a \<Rightarrow> gated_first a")
  case True
  then obtain a where "dk_agent d = Some a" "gated_first a" by (auto split: option.splits)
  with assms spawned_decide show ?thesis by (force simp: resolve_proposal_def allows_def)
next
  case False
  with assms show ?thesis
    by (auto simp: resolve_proposal_def Let_def bind_eq_Some_iff dest!: spawned_apply split: option.splits if_splits list.splits)
qed

lemma spawned_event:
  assumes "on_agent_event R S DC D ctx e d = Some d'"
  shows "spawned d' = spawned d @ approved (AgentSays e) d"
proof (cases e)
  case (TerminalRequest session request operation)
  with assms spawned_handle show ?thesis by simp
next
  case (PermissionRequested session request summary command spec ed)
  have "spawned d1 = spawned d" if "review_for_permission R D request e summary d = Some (r, d1)" for e r d1
    using that by (auto simp: review_for_permission_def Let_def bind_eq_Some_iff dest!: spawned_sync
        split: option.splits sum.splits anchor_failure.splits)
  with assms PermissionRequested show ?thesis
    by (fastforce simp: permission_requested_def bind_eq_Some_iff split: if_splits option.splits)
next
  case (ProposedEdit s i p old new)
  with assms show ?thesis
    by (auto simp: receive_proposal_def Let_def bind_eq_Some_iff dest!: spawned_sync split: if_splits option.splits)
next
  case (SessionStarted session)
  with assms show ?thesis by (auto simp: session_started_def Let_def split: option.splits)
qed (use assms in \<open>auto simp: Let_def\<close>)

section \<open>Reviews\<close>

definition desk_texts :: "('r, 's, 'd) desk \<Rightarrow> 'r list" where
  "desk_texts d = map b_text (lm_buffers (dk_app d))"

lemma desk_texts_updates [simp]:
  "desk_texts (dk_notify msg d) = desk_texts d" "desk_texts (say q d) = desk_texts d"
  "desk_texts (d\<lparr>dk_agent := a\<rparr>) = desk_texts d" "desk_texts (change_agent h d) = desk_texts d"
  "desk_texts (notify_if_quiet msg d) = desk_texts d"
  by (simp_all add: desk_texts_def dk_notify_def say_def change_agent_def notify_if_quiet_def notify_def)

lemma desk_outbox_updates [simp]:
  "dk_outbox (dk_notify msg d) = dk_outbox d" "dk_outbox (change_agent h d) = dk_outbox d"
  "dk_outbox (notify_if_quiet msg d) = dk_outbox d" "dk_outbox (say q d) = dk_outbox d @ [q]"
  by (simp_all add: dk_notify_def say_def change_agent_def notify_if_quiet_def)

lemma sync_keeps:
  assumes "sync_proposals R D d = Some d'"
  shows "desk_texts d' = desk_texts d" "dk_outbox d' = dk_outbox d"
proof -
  have "b_text (repaint ps b) = b_text b" for ps and b :: "'a buffer" by (simp add: repaint_def Let_def)
  then show "desk_texts d' = desk_texts d" "dk_outbox d' = dk_outbox d"
    using assms by (auto simp: sync_proposals_def desk_texts_def bind_eq_Some_iff split: option.splits if_splits)
qed

lemma release_keeps:
  "dk_agent (fold (release_terminal reason) xs d) = dk_agent d"
  "set (dk_outbox d) \<subseteq> set (dk_outbox (fold (release_terminal reason) xs d))"
  by (induction xs arbitrary: d)
     (fastforce simp: release_terminal_def complete_terminal_waits_def change_terminal_def to_pty_def)+

text \<open>The end of a turn takes the permission back and leaves its diff where it is.\<close>

lemma cancelled_turn:
  assumes "dk_agent d = Some a" and "as_permission a = Some p" and "pn_origin p = AgentAsked r spec"
    and "desk_step R S DC D ctx (AgentSays (TurnEnded (as_id a) Cancelled)) d = Some d1"
  shows "dk_agent d1 = Some (a\<lparr>as_turn_active := False, as_permission := None\<rparr>)"
    "PermissionCancelled r \<in> set (dk_outbox d1)"
proof -
  let ?reason = "ustr ''agent session cancelled''" and ?d0 = "change_agent (\<lambda>a. a\<lparr>as_turn_active := False\<rparr>) d"
  have d1: "d1 = cancel_agent_terminals (as_id a) ?reason ?d0" using assms(4) by (simp add: Let_def)
  let ?e = "reject_pending_permission (Some (as_id a)) ?reason ?d0"
  have e: "dk_agent ?e = Some (a\<lparr>as_turn_active := False, as_permission := None\<rparr>)"
    "PermissionCancelled r \<in> set (dk_outbox ?e)"
    using assms(1-3) by (simp_all add: reject_pending_permission_def change_agent_def say_def)
  then show "dk_agent d1 = Some (a\<lparr>as_turn_active := False, as_permission := None\<rparr>)"
    by (simp add: d1 cancel_agent_terminals_def Let_def release_keeps(1))
  from e(2) show "PermissionCancelled r \<in> set (dk_outbox d1)"
    unfolding d1 cancel_agent_terminals_def Let_def by (intro subsetD [OF release_keeps(2)]) simp
qed

lemma accept_ungated:
  assumes "dk_agent d = Some a" "\<not> gated_first a" "as_proposals a = q # qs"
    and "desk_step R S DC D ctx (Reviews True) d = Some d'"
  shows "\<exists>n d1. apply_proposal R q (d\<lparr>dk_agent := Some (a\<lparr>as_proposals := qs\<rparr>)\<rparr>) = Some (n, d1)
    \<and> desk_texts d' = desk_texts d1
    \<and> dk_outbox d' = dk_outbox d1 @ [Permission (ep_id q) (permission_for_review n (length (ep_hunks q)))]"
proof -
  have texts: "desk_texts (e\<lparr>dk_app := (dk_app e)\<lparr>lm_buffers := map (\<lambda>b. b\<lparr>b_decorations := f b\<rparr>) (lm_buffers (dk_app e))\<rparr>\<rparr>)
      = desk_texts e" for e :: "('a, 'b, 'c) desk" and f
    by (simp add: desk_texts_def)
  show ?thesis
    using assms by (auto simp: resolve_proposal_def Let_def bind_eq_Some_iff texts)
qed

fun mark_of :: "proposal_id \<Rightarrow> decoration_class \<Rightarrow> bool" where
  "mark_of i (Hunk j _ _) = (j = i)"
| "mark_of i _ = False"

definition marked :: "proposal_id \<Rightarrow> 'r buffer \<Rightarrow> bool" where
  "marked i b \<longleftrightarrow> list_ex (\<lambda>d. mark_of i (d_class d)) (items (b_decorations b))"

definition marks :: "proposal_id \<Rightarrow> ('r, 's, 'd) desk \<Rightarrow> bool list" where
  "marks i d = map (marked i) (lm_buffers (dk_app d))"

lemma refresh_ids:
  "refresh_proposals R D m ps = Some qs \<Longrightarrow> map ep_id qs = map ep_id ps"
  by (induction ps arbitrary: qs)
     (auto simp: bind_eq_Some_iff proposal_refresh_def split: option.splits)

text \<open>Repainting looks only at the proposals that are left.\<close>

lemma marked_repaint:
  assumes "i \<notin> set (map ep_id ps)"
  shows "marked i (repaint ps b) = marked i b"
proof -
  have remove: "marked i (b\<lparr>b_decorations := fold (\<lambda>p ds. remove_proposal ds (ep_id p)) ps ds\<rparr>)
      = marked i (b\<lparr>b_decorations := ds\<rparr>)" for ds
    using assms
  proof (induction ps arbitrary: ds)
    case (Cons p ps)
    have "mark_of i (d_class d) \<Longrightarrow> (case d_class d of Hunk q _ _ \<Rightarrow> q \<noteq> ep_id p | _ \<Rightarrow> True)" for d
      using Cons.prems by (cases "d_class d") auto
    then have "marked i (b\<lparr>b_decorations := remove_proposal ds (ep_id p)\<rparr>) = marked i (b\<lparr>b_decorations := ds\<rparr>)"
      by (auto simp: marked_def remove_proposal_def list_ex_iff)
    with Cons show ?case by simp
  qed simp
  have push: "marked i (b\<lparr>b_decorations := fold (\<lambda>d ds. decs_push ds d) xs ds\<rparr>) = marked i (b\<lparr>b_decorations := ds\<rparr>)"
    if "\<forall>d\<in>set xs. \<not> mark_of i (d_class d)" for xs ds
    using that by (induction xs arbitrary: ds) (auto simp: marked_def decs_push_def)
  have "marked i (b\<lparr>b_decorations := b_decorations b\<rparr>) = marked i b" by simp
  moreover have "\<forall>d\<in>set (concat (map (\<lambda>p. map (hunk_decoration (ep_id p)) (ep_hunks p)) (filter Q ps))).
      \<not> mark_of i (d_class d)" for Q
    using assms by (auto simp: hunk_decoration_def)
  ultimately show ?thesis
    using remove push by (simp add: repaint_def Let_def split: option.split)
qed

lemma sync_ids:
  assumes "sync_proposals R D d = Some d'" "dk_agent d = Some a" "i \<notin> set (map ep_id (as_proposals a))"
  shows "\<forall>a'. dk_agent d' = Some a' \<longrightarrow> i \<notin> set (map ep_id (as_proposals a'))"
proof (cases "as_proposals a = []")
  case False
  then obtain ps where "refresh_proposals R D (dk_app d) (as_proposals a) = Some ps"
    "dk_agent d' = Some (a\<lparr>as_proposals := ps\<rparr>)"
    using assms(1,2) by (auto simp: sync_proposals_def bind_eq_Some_iff)
  moreover from this(1) have "i \<notin> set (map ep_id ps)" using assms(3) refresh_ids by metis
  ultimately show ?thesis by simp
qed (use assms in \<open>auto simp: sync_proposals_def\<close>)

lemma sync_marks:
  assumes "sync_proposals R D d = Some d'" "\<forall>a. dk_agent d = Some a \<longrightarrow> i \<notin> set (map ep_id (as_proposals a))"
  shows "marks i d' = marks i d"
proof (cases "\<exists>a. dk_agent d = Some a \<and> as_proposals a \<noteq> []")
  case True
  then obtain a ps where a: "dk_agent d = Some a" "refresh_proposals R D (dk_app d) (as_proposals a) = Some ps"
    "d' = d\<lparr>dk_agent := Some (a\<lparr>as_proposals := ps\<rparr>),
       dk_app := (dk_app d)\<lparr>lm_buffers := map (repaint ps) (lm_buffers (dk_app d))\<rparr>\<rparr>"
    using assms(1) by (auto simp: sync_proposals_def bind_eq_Some_iff)
  then have "i \<notin> set (map ep_id ps)" using assms(2) refresh_ids [OF a(2)] by metis
  with a(3) show ?thesis by (simp add: marks_def marked_repaint comp_def)
qed (use assms in \<open>auto simp: sync_proposals_def split: option.splits if_splits\<close>)

section \<open>A small desk\<close>

definition bare_screen :: "nat screen_api" where
  "bare_screen = \<lparr>sc_new = (\<lambda>_. 0), sc_feed = (\<lambda>bs n. n + length bs), sc_title = (\<lambda>_. None),
     sc_take_responses = (\<lambda>n. ([], n)), sc_resize = (\<lambda>_ n. n), sc_application_cursor = (\<lambda>_. False),
     sc_begin_selection = (\<lambda>n. n), sc_selected_text = (\<lambda>_. None), sc_clear_selection = (\<lambda>n. n)\<rparr>"

definition bare_decoder :: "unit decoder_api" where
  "bare_decoder = \<lparr>dc_for = (\<lambda>_. None), dc_push = (\<lambda>bs u. (\<lparr>do_display = bs, do_problems = []\<rparr>, u)),
     dc_finish = (\<lambda>u. (\<lparr>do_display = [], do_problems = []\<rparr>, u))\<rparr>"

definition no_diff :: line_diff where "no_diff = (\<lambda>_ _. [])"

definition bare_desk :: "(utext, nat, unit) desk" where
  "bare_desk = \<lparr>dk_app = bare_model, dk_agent = None, dk_agent_named = True, dk_pending_prompt = None,
     dk_capabilities = None, dk_scroll = 0, dk_policy = policy_default, dk_creates = [], dk_waits = [],
     dk_terminals = [], dk_active_terminal = None, dk_next_terminal = 0, dk_focus = EditorPane,
     dk_previous_focus = EditorPane, dk_size = (24, 80), dk_pty_outbox = [], dk_copy_mode = False,
     dk_clipboard = [], dk_outbox = [], dk_served = [], dk_reads = [], dk_runs = [], dk_next_run = 0,
     dk_catalog = [], dk_problem_cursor = None\<rparr>"

definition build_spec :: terminal_spec where
  "build_spec = \<lparr>ts_program = ustr ''make'', ts_args = [], ts_cwd = [RootDir], ts_env = []\<rparr>"

definition one_build :: "utext desk_op list" where
  "one_build = [AgentSays (SessionStarted 1), AgentSays (TerminalRequest 1 7 (TCreate build_spec 100 True)),
     ProcessSays (PtySpawned 1 1 (Some 42)), AgentSays (TerminalRequest 1 8 (TWaitForExit 1))]"

lemmas desk_defs = session_started_def handle_agent_terminal_def permitted_def
  spawn_agent_terminal_def create_terminal_with_limit_def focus_terminal_pane_def to_pty_def on_pty_event_def
  find_terminal_def change_terminal_def change_run_def answer_create_def respond_terminal_def say_def creates_of_def
  agent_owned_def owns_def bare_model_def starting_session_def

section \<open>The properties\<close>

text \<open>
  C24. Whatever the human, the agent, the processes and the disk do, each call the agent made for a
  terminal or a file is in the books exactly once: it has one answer, or it is still open.  The same
  holds of each permission asked for, but for the reviews of proposals that no permission waits for:
  these are reported under the id of the proposal as if that had been asked for (C28 shows that it can
  be the id of a permission answered before).
\<close>

theorem calls_answered_once:
  assumes "desk_run R S DC D ctx ops d = Some d'" and "books d = {#}"
  shows "(\<forall>r. count (answered_calls d') (TerminalCall r) + count (open_calls d') (TerminalCall r)
        = count (run_calls ops) (TerminalCall r))
    \<and> (\<forall>r. count (answered_calls d') (ReadCall r) + count (open_calls d') (ReadCall r)
        = count (run_calls ops) (ReadCall r))
    \<and> (\<forall>r. count (answered_calls d') (PermissionCall r) + count (open_calls d') (PermissionCall r)
        = count (run_calls ops) (PermissionCall r)
          + count (run_reports R S DC D ctx ops d) (PermissionCall r))"
proof -
  have "answered_calls d' + open_calls d' = run_calls ops + run_reports R S DC D ctx ops d"
    using books_run [OF assms(1)] assms(2) by (simp add: books_def)
  then have "count (answered_calls d') c + count (open_calls d') c
      = count (run_calls ops) c + count (run_reports R S DC D ctx ops d) c" for c
    by (metis count_union)
  then show ?thesis by (simp add: run_reports_permissions)
qed

theorem calls_answered_once_witness:
  "\<exists>d'. desk_run list_rope bare_screen bare_decoder no_diff [] one_build bare_desk = Some d'
    \<and> count (answered_calls d') (TerminalCall 7) + count (open_calls d') (TerminalCall 7) = 1"
proof -
  have run: "desk_run list_rope bare_screen bare_decoder no_diff [] one_build bare_desk \<noteq> None"
    by (simp add: one_build_def bare_desk_def desk_defs)
  then obtain d' where d': "desk_run list_rope bare_screen bare_decoder no_diff [] one_build bare_desk = Some d'" by blast
  have "books bare_desk = {#}" by (simp add: books_def answered_calls_def open_calls_def bare_desk_def List.map_filter_simps)
  moreover have "count (run_calls one_build) (TerminalCall 7) = 1" by (simp add: run_calls_def one_build_def)
  ultimately show ?thesis using calls_answered_once [OF d'] d' by metis
qed

text \<open>
  C25. Nothing that waits for a process is left to nobody: in every reachable state each waiting call
  names a terminal the application still holds, and the end of its process answers it; each create
  is answered by the start or the failure of its process.
\<close>

theorem no_call_is_orphaned:
  assumes "desk_run R S DC D ctx ops d0 = Some d" and "run_allowed R S DC D ctx ops d0" and "desk_ok d0"
  shows "(\<forall>(r, t)\<in>set (dk_waits d). \<exists>x. find_terminal t d = Some x \<and> is_live (tm_status x)
           \<and> TerminalResponse r (RExited exit) \<in> set (dk_outbox (on_pty_event S DC (PtyExited t (tm_generation x) exit) d))
           \<and> TerminalResponse r (RError msg) \<in> set (dk_outbox (on_pty_event S DC (PtyFailed t (tm_generation x) msg) d)))
    \<and> (\<forall>c\<in>set (dk_creates d). let t = pc_terminal c; g = pc_generation c in
           TerminalResponse (pc_request c) (RCreated t) \<in> set (dk_outbox (on_pty_event S DC (PtySpawned t g pid) d))
           \<and> TerminalResponse (pc_request c) (RError msg) \<in> set (dk_outbox (on_pty_event S DC (PtyFailed t g msg) d)))"
proof -
  note ok = desk_run_ok [OF assms]
  have "\<exists>x. find_terminal t d = Some x \<and> is_live (tm_status x)
      \<and> TerminalResponse r (RExited exit) \<in> set (dk_outbox (on_pty_event S DC (PtyExited t (tm_generation x) exit) d))
      \<and> TerminalResponse r (RError msg) \<in> set (dk_outbox (on_pty_event S DC (PtyFailed t (tm_generation x) msg) d))"
    if "(r, t) \<in> set (dk_waits d)" for r t
    using wait_in_hand [OF ok that] exit_answers_waits [OF ok that] by metis
  then show ?thesis using start_answers_create [OF ok] by (auto simp: Let_def)
qed

theorem no_call_is_orphaned_witness:
  "\<exists>d. desk_run list_rope bare_screen bare_decoder no_diff [] one_build bare_desk = Some d
    \<and> dk_waits d = [(8, 1)]
    \<and> TerminalResponse 8 (RExited \<lparr>te_code = Some 0, te_signal = None\<rparr>)
        \<in> set (dk_outbox (on_pty_event bare_screen bare_decoder (PtyExited 1 1 \<lparr>te_code = Some 0, te_signal = None\<rparr>) d))"
proof -
  have "desk_ok bare_desk" by (simp add: desk_ok_def bare_desk_def)
  moreover have "run_allowed list_rope bare_screen bare_decoder no_diff [] one_build bare_desk"
    by (simp add: one_build_def bare_desk_def desk_defs)
  moreover obtain d where d: "desk_run list_rope bare_screen bare_decoder no_diff [] one_build bare_desk = Some d"
    "dk_waits d = [(8, 1)]" "map tm_generation (dk_terminals d) = [1]" "map tm_id (dk_terminals d) = [1]"
    by (simp add: one_build_def bare_desk_def desk_defs)
  ultimately obtain x where "find_terminal 1 d = Some x"
    "TerminalResponse 8 (RExited \<lparr>te_code = Some 0, te_signal = None\<rparr>)
        \<in> set (dk_outbox (on_pty_event bare_screen bare_decoder (PtyExited 1 (tm_generation x) \<lparr>te_code = Some 0, te_signal = None\<rparr>) d))"
    using no_call_is_orphaned [of list_rope bare_screen bare_decoder no_diff "[]" one_build bare_desk d] by fastforce
  moreover have "tm_generation x = 1"
    using d(3) find_terminal_Some [OF \<open>find_terminal 1 d = Some x\<close>] by (auto simp: map_eq_Cons_conv)
  ultimately show ?thesis using d by auto
qed

text \<open>
  C26. A process starts only when the human asks for it with a key, when the policy permits the agent's
  very command or the human has already allowed it, or when the human allows the command of the
  prompt on the screen: then exactly that command starts, once.
\<close>

theorem nothing_runs_unasked:
  assumes "desk_step R S DC D ctx op d = Some d'" and "\<not> starts_by_hand op"
  shows "spawned d' = spawned d @ approved op d"
  using assms
proof (cases op)
  case (AgentSays e)
  with assms spawned_event show ?thesis by fastforce
next
  case (Decides dec)
  with assms spawned_decide show ?thesis by fastforce
next
  case (Reviews accept)
  with assms spawned_resolve show ?thesis by fastforce
next
  case (FileCame i p bs)
  with assms show ?thesis by (auto simp: desk_file_loaded_def split: option.splits)
next
  case (FileBroke i e)
  with assms show ?thesis by (auto simp: desk_file_failed_def split: option.splits)
next
  case Repaints
  with assms spawned_sync show ?thesis by fastforce
next
  case (FocusesPane p)
  with assms spawned_modes(2) show ?thesis by fastforce
next
  case EntersCopyMode
  with assms spawned_modes(3) show ?thesis by fastforce
next
  case ConfirmsCopyMode
  with assms spawned_modes(4) show ?thesis by fastforce
next
  case CancelsCopyMode
  with assms spawned_modes(1) show ?thesis by fastforce
qed auto

lemma nothing_permitted: "\<not> permits policy_default root spec"
  by (simp add: permits_def policy_default_def split: option.split)

definition asked_build :: "utext desk_op list" where
  "asked_build = [AgentSays (SessionStarted 1), AgentSays (TerminalRequest 1 7 (TCreate build_spec 100 False))]"

theorem nothing_runs_unasked_witness:
  "\<exists>d d'. desk_run list_rope bare_screen bare_decoder no_diff [] asked_build bare_desk = Some d \<and> spawned d = []
    \<and> desk_step list_rope bare_screen bare_decoder no_diff [] (Decides AllowOnce) d = Some d'
    \<and> spawned d' = spawned d @ [build_spec]"
proof -
  obtain d where d: "desk_run list_rope bare_screen bare_decoder no_diff [] asked_build bare_desk = Some d"
    "spawned d = []" "asked_command d = [build_spec]"
    "desk_step list_rope bare_screen bare_decoder no_diff [] (Decides AllowOnce) d \<noteq> None"
    by (simp add: asked_build_def bare_desk_def desk_defs spawned_def asked_command_def decide_permission_def
        settle_permission_def create_prompt_def policy_default_def List.map_filter_simps allows_def
        sync_proposals_def nothing_permitted [unfolded policy_default_def])
  then obtain d' where d': "desk_step list_rope bare_screen bare_decoder no_diff [] (Decides AllowOnce) d = Some d'" by auto
  with nothing_runs_unasked [OF d'] d show ?thesis by (auto simp: allows_def)
qed

text \<open>
  C27. Reviewing a diff the agent holds a permission open for answers that permission and leaves every
  buffer's text alone: the agent writes the file, and the change is not made twice.
\<close>

theorem gated_review_edits_nothing:
  assumes "dk_agent d = Some a" and "gated_first a" and "as_permission a = Some p" and "pn_origin p = AgentAsked r spec"
    and "desk_step R S DC D ctx (Reviews accept) d = Some d'"
  shows "desk_texts d' = desk_texts d
    \<and> dk_outbox d' = dk_outbox d @ [Permission r (if accept then AllowOnce else RejectOnce)]"
proof -
  let ?dec = "if accept then AllowOnce else RejectOnce" and ?d1 = "d\<lparr>dk_agent := Some (a\<lparr>as_permission := None\<rparr>)\<rparr>"
  obtain d3 where d3: "decide_permission R S DC D ?dec d = Some d3" "desk_texts d' = desk_texts d3" "dk_outbox d' = dk_outbox d3"
    using assms(1,2,5) by (auto simp: resolve_proposal_def)
  obtain d2 where d2: "(case pn_review p of None \<Rightarrow> Some ?d1
      | Some i \<Rightarrow> sync_proposals R D (change_agent (\<lambda>a. a\<lparr>as_proposals := filter (\<lambda>p. ep_id p \<noteq> i) (as_proposals a)\<rparr>) ?d1))
      = Some d2" "d3 = notify_if_quiet ((if allows ?dec then ustr ''approved: '' else ustr ''denied: '') @ pn_summary p)
        (say (Permission r ?dec) d2)"
    using d3(1) assms(1,3,4)
    by (cases accept) (auto simp: decide_permission_def settle_permission_def bind_eq_Some_iff Let_def split: option.splits)
  have "desk_texts d2 = desk_texts d" "dk_outbox d2 = dk_outbox d"
    using d2(1) by (auto dest: sync_keeps split: option.splits)
  with d2(2) d3 show ?thesis by simp
qed

definition small_edit :: edit_proposal where
  "small_edit = \<lparr>ep_id = 5, ep_path = rust_file, ep_base_version = None, ep_base_text = ustr ''a'',
     ep_proposed_text = ustr ''b'', ep_hunks = [hunk_new 0 1 (ustr ''b'')]\<rparr>"

definition review_agent :: agent_session where
  "review_agent = \<lparr>as_id = 1, as_transcript = [], as_proposals = [small_edit],
     as_permission = Some \<lparr>pn_origin = AgentAsked 5 None, pn_summary = [], pn_command = [], pn_review = Some 5\<rparr>,
     as_attached = [], as_turn_active = True, as_modes = [], as_current_mode = None\<rparr>"

definition review_desk :: "(utext, nat, unit) desk" where
  "review_desk = bare_desk\<lparr>dk_agent := Some review_agent,
     dk_app := bare_model\<lparr>lm_buffers := [rust_buffer (ustr ''a'')]\<rparr>\<rparr>"

theorem gated_review_edits_nothing_witness:
  "\<exists>d'. desk_step list_rope bare_screen bare_decoder no_diff [] (Reviews True) review_desk = Some d'
    \<and> desk_texts d' = [ustr ''a''] \<and> dk_outbox d' = [Permission 5 AllowOnce]"
proof -
  have run: "desk_step list_rope bare_screen bare_decoder no_diff [] (Reviews True) review_desk \<noteq> None"
    by (simp add: review_desk_def review_agent_def resolve_proposal_def gated_first_def reviewed_def small_edit_def
        decide_permission_def sync_proposals_def change_agent_def settle_permission_def)
  then obtain d' where d': "desk_step list_rope bare_screen bare_decoder no_diff [] (Reviews True) review_desk = Some d'" by blast
  have "desk_texts review_desk = [ustr ''a'']" "dk_outbox review_desk = []"
    by (simp_all add: review_desk_def bare_desk_def bare_model_def desk_texts_def ustr_def)
  with gated_review_edits_nothing [OF _ _ _ _ d', of review_agent "the (as_permission review_agent)" 5 None] d'
  show ?thesis by (simp add: review_desk_def review_agent_def gated_first_def reviewed_def small_edit_def)
qed

text \<open>
  C28. A turn the agent cancels takes its permission back, but the diff shown for it stays under review
  and no longer counts as gated: accepting it then edits the buffer and reports to the agent a second time.
\<close>

theorem cancelled_review_applies:
  assumes "dk_agent d = Some a" and "as_permission a = Some p" and "pn_origin p = AgentAsked r spec"
    and "as_proposals a = q # qs" and "ep_id q = r"
    and "desk_step R S DC D ctx (AgentSays (TurnEnded (as_id a) Cancelled)) d = Some d1"
    and "desk_step R S DC D ctx (Reviews True) d1 = Some d2"
  shows "PermissionCancelled r \<in> set (dk_outbox d1)
    \<and> (\<exists>n d3. apply_proposal R q (change_agent (\<lambda>a. a\<lparr>as_proposals := qs\<rparr>) d1) = Some (n, d3)
         \<and> desk_texts d2 = desk_texts d3
         \<and> dk_outbox d2 = dk_outbox d3 @ [Permission r (permission_for_review n (length (ep_hunks q)))])"
proof -
  note t = cancelled_turn [OF assms(1-3,6)]
  have "\<not> gated_first (a\<lparr>as_turn_active := False, as_permission := None\<rparr>)"
    by (simp add: gated_first_def reviewed_def)
  from accept_ungated [OF t(1) this _ assms(7)] t assms(4,5) show ?thesis by (simp add: change_agent_def)
qed

theorem cancelled_review_applies_witness:
  "\<exists>d1 d2. desk_step list_rope bare_screen bare_decoder no_diff [] (AgentSays (TurnEnded 1 Cancelled)) review_desk = Some d1
    \<and> PermissionCancelled 5 \<in> set (dk_outbox d1)
    \<and> desk_step list_rope bare_screen bare_decoder no_diff [] (Reviews True) d1 = Some d2 \<and> desk_texts d2 = [ustr ''b'']"
proof -
  have index: "buffer_index rust_file (dk_app review_desk) = Some 0"
    by (simp add: buffer_index_def review_desk_def bare_model_def)
  have "desk_step list_rope bare_screen bare_decoder no_diff [] (AgentSays (TurnEnded 1 Cancelled)) review_desk \<noteq> None"
    by (simp add: Let_def)
  then obtain d1 where d1: "desk_step list_rope bare_screen bare_decoder no_diff [] (AgentSays (TurnEnded 1 Cancelled)) review_desk = Some d1"
    by blast
  have d1_is: "d1 = review_desk\<lparr>dk_agent := Some (review_agent\<lparr>as_turn_active := False, as_permission := None\<rparr>),
      dk_outbox := [PermissionCancelled 5]\<rparr>"
    using d1 by (simp add: review_desk_def review_agent_def bare_desk_def cancel_agent_terminals_def
        reject_pending_permission_def change_agent_def say_def Let_def)
  have cs: "changeset_from_hunks [hunk_new 0 1 (ustr ''b'')] 1 = Some \<lparr>cs_ops = [Delete 1, Insert (ustr ''b'')], cs_len_before = 1, cs_len_after = 1\<rparr>"
    by code_simp
  let ?cs = "\<lparr>cs_ops = [Delete 1, Insert (ustr ''b'')], cs_len_before = 1, cs_len_after = 1\<rparr>"
  have "map_option (\<lambda>(r, b). (r, b_text b)) (buffer_apply list_rope (fst (transaction ?cs (edit_source.Agent 5) (rust_buffer (ustr ''a''))))
        (snd (transaction ?cs (edit_source.Agent 5) (rust_buffer (ustr ''a''))))) = Some (Inr (), ustr ''b'')"
    by code_simp
  then obtain b where b: "buffer_apply list_rope (fst (transaction ?cs (edit_source.Agent 5) (rust_buffer (ustr ''a''))))
        (snd (transaction ?cs (edit_source.Agent 5) (rust_buffer (ustr ''a'')))) = Some (Inr (), b)" "b_text b = ustr ''b''"
    by auto
  have flat: "crlf_to_lf (ustr ''a'') = ustr ''a''" "length (ustr ''a'') = 1" by (simp_all add: ustr_def)
  have index: "buffer_index rust_file (dk_app d1) = Some 0" "lm_buffers (dk_app d1) = [rust_buffer (ustr ''a'')]"
    by (simp_all add: d1_is review_desk_def bare_model_def buffer_index_def)
  have applied: "\<exists>d3. apply_proposal list_rope small_edit (change_agent f d1) = Some (1, d3) \<and> desk_texts d3 = [ustr ''b'']" for f
    using index b cs
    by (simp add: apply_proposal_def change_agent_def small_edit_def applicable_def hunk_new_def case_prod_beta
        bind_eq_Some_iff flat desk_texts_def list_rope_def)
  have "desk_step list_rope bare_screen bare_decoder no_diff [] (Reviews True) d1 \<noteq> None"
    using applied [of "\<lambda>a. a\<lparr>as_proposals := []\<rparr>"]
    by (auto simp: d1_is resolve_proposal_def gated_first_def reviewed_def review_agent_def change_agent_def Let_def)
  then obtain d2 where d2: "desk_step list_rope bare_screen bare_decoder no_diff [] (Reviews True) d1 = Some d2" by blast
  obtain p where p: "as_permission review_agent = Some p" "pn_origin p = AgentAsked 5 None" by (simp add: review_agent_def)
  have "dk_agent review_desk = Some review_agent" "as_proposals review_agent = [small_edit]" "ep_id small_edit = 5" "as_id review_agent = 1"
    by (simp_all add: review_desk_def review_agent_def small_edit_def)
  with cancelled_review_applies [OF _ p, of review_desk small_edit "[]", OF _ _ _ _ d2] d1
  obtain n d3 where "PermissionCancelled 5 \<in> set (dk_outbox d1)"
    "apply_proposal list_rope small_edit (change_agent (\<lambda>a. a\<lparr>as_proposals := []\<rparr>) d1) = Some (n, d3)" "desk_texts d2 = desk_texts d3"
    by auto
  with applied [of "\<lambda>a. a\<lparr>as_proposals := []\<rparr>"] d1 d2 show ?thesis by auto
qed

text \<open>
  C29. When the human decides a request whose diff is under review, the diff goes away and its marks in
  the buffers stay: no repaint clears the marks of a proposal that is no longer there.
\<close>

theorem decided_review_keeps_marks:
  assumes "dk_agent d = Some a" and "as_permission a = Some p" and "pn_origin p = AgentAsked r spec" and "pn_review p = Some i"
    and "desk_step R S DC D ctx (Decides decision) d = Some d'"
  shows "marks i d' = marks i d
    \<and> (\<forall>a'. dk_agent d' = Some a' \<longrightarrow> i \<notin> set (map ep_id (as_proposals a')))"
proof -
  let ?e = "change_agent (\<lambda>a. a\<lparr>as_proposals := filter (\<lambda>p. ep_id p \<noteq> i) (as_proposals a)\<rparr>) (d\<lparr>dk_agent := Some (a\<lparr>as_permission := None\<rparr>)\<rparr>)"
  obtain d2 d3 where d2: "sync_proposals R D ?e = Some d2" "settle_permission S DC decision (AgentAsked r spec) d2 = Some d3"
    "dk_agent d' = dk_agent d3" "marks i d' = marks i d3"
    using assms by (auto simp: decide_permission_def bind_eq_Some_iff Let_def marks_def notify_if_quiet_def dk_notify_def notify_def)
  have "dk_agent d3 = dk_agent d2" "marks i d3 = marks i d2"
    using d2(2) by (auto simp: settle_permission_def remember_permission_def Let_def say_def marks_def dk_notify_def notify_def
        split: option.splits if_splits prod.splits)
  moreover have "marks i d2 = marks i ?e" by (rule sync_marks [OF d2(1)]) (auto simp: change_agent_def)
  moreover have "marks i ?e = marks i d" by (simp add: marks_def change_agent_def)
  moreover have "\<forall>a'. dk_agent d2 = Some a' \<longrightarrow> i \<notin> set (map ep_id (as_proposals a'))"
    by (rule sync_ids [OF d2(1)]) (auto simp: change_agent_def)
  ultimately show ?thesis using d2(3,4) by simp
qed

definition marked_desk :: "(utext, nat, unit) desk" where
  "marked_desk = review_desk\<lparr>dk_app := bare_model\<lparr>lm_buffers := [(rust_buffer (ustr ''a''))
     \<lparr>b_decorations := \<lparr>items = [hunk_decoration 5 (hunk_new 0 1 (ustr ''b''))]\<rparr>\<rparr>]\<rparr>\<rparr>"

theorem decided_review_keeps_marks_witness:
  "\<exists>d'. desk_step list_rope bare_screen bare_decoder no_diff [] (Decides RejectOnce) marked_desk = Some d'
    \<and> marks 5 d' = [True] \<and> map_option as_proposals (dk_agent d') = Some []"
proof -
  have run: "\<exists>d'. desk_step list_rope bare_screen bare_decoder no_diff [] (Decides RejectOnce) marked_desk = Some d'
      \<and> map_option as_proposals (dk_agent d') = Some []"
    by (simp add: marked_desk_def review_desk_def review_agent_def small_edit_def decide_permission_def
        sync_proposals_def change_agent_def settle_permission_def notify_if_quiet_def dk_notify_def say_def)
  then obtain d' where d': "desk_step list_rope bare_screen bare_decoder no_diff [] (Decides RejectOnce) marked_desk = Some d'"
    "map_option as_proposals (dk_agent d') = Some []" by blast
  have "marks 5 marked_desk = [True]"
    by (simp add: marks_def marked_def marked_desk_def hunk_decoration_def)
  with decided_review_keeps_marks [OF _ _ _ _ d'(1), of review_agent "the (as_permission review_agent)" 5 None 5] d'
  show ?thesis by (simp add: marked_desk_def review_desk_def review_agent_def)
qed

end
