(* ===== verification/Spec2Isabelle.thy ===== *)
theory Spec2Isabelle
  imports Buffer_Safety Buffer_Files Find_Replace Proposal_Rebase Movement Decoration Filesystem
    File_Tree_Claims Keymap_Claims Permissions_Claims Framing
    Acp_Claims Acp_Terminals Acp_Worker Lsp_Uris Lsp_Supervision
    Search_Claims Search_Worker Search_Overlay Lsp_Client_Claims Lsp_Edits_Claims App_Files_Claims
    Desk_Answers
begin

text \<open>
  A verification library of Termesh, a terminal workbench for reviewing what coding agents do: an
  editor over one text spine, an explorer, terminals, a language-server client and an ACP agent
  client, whose proposed edits a human accepts hunk by hunk.  The source is a Rust workspace under
  \<open>src/crates/\<close>; paths below are relative to it.

  \<^bold>\<open>The program's parts and where they are modelled.\<close>

  \<^item> The text spine, \<open>editor/src\<close>.  \<open>Rope\<close> states what the editor needs of the third-party rope as
    locales (\<open>rope_text\<close>, \<open>rope_lines\<close>, \<open>rope_utf16\<close>) and interprets them on lists of chars.
    \<open>Change\<close> is \<open>change.rs\<close>: changesets, their canonical builder, \<open>apply\<close>, \<open>invert\<close>, \<open>compose\<close>;
    \<open>Change_Position\<close> what positions and ranges become under an edit.  \<open>Edit_History\<close> is
    \<open>selection.rs\<close>, \<open>transaction.rs\<close> and \<open>history.rs\<close>, with the locale \<open>change_algebra\<close> that undo and
    redo rest on; \<open>Decoration\<close> is \<open>decoration.rs\<close> and the hunk states of \<open>lib.rs\<close>; \<open>Movement\<close> is
    \<open>movement.rs\<close> and \<open>position.rs\<close>.  \<open>Buffer\<close> is \<open>buffer.rs\<close>: the record \<open>buffer\<close> has the fields of
    \<open>Buffer\<close>, an operation is a function from a buffer to an option of a buffer, \<open>None\<close> being a
    panic.  \<open>Buffer_Safety\<close> has the buffer as a state machine (\<open>buffer_step\<close>, \<open>buffer_reach\<close>) and its
    claims; \<open>Buffer_Files\<close> line endings and the file round trip; \<open>Text_Search\<close> and \<open>Find_Replace\<close>
    are \<open>search.rs\<close> and \<open>replace_all\<close> of \<open>app/src/model.rs\<close>.
  \<^item> Proposals, \<open>agent/src/proposal.rs\<close>: \<open>Proposal\<close> (hunks, the changeset of accepted hunks, placing
    a fragment) and \<open>Proposal_Rebase\<close> (rebasing over what the human typed meanwhile).  The diff
    algorithm is third-party: a parameter, whose contract is the locale \<open>line_differ\<close>.
  \<^item> The filesystem: \<open>Filesystem\<close> has paths, \<open>core/src/fs.rs\<close>, the trait of
    \<open>filesystem/src/service.rs\<close> as the record \<open>fs_api\<close> with the locale \<open>file_service\<close>, and its
    in-memory implementation \<open>test-support/src/fake_fs.rs\<close>, on which the locale is interpreted.
    \<open>File_Tree\<close>, \<open>File_Tree_Safety\<close> and \<open>File_Tree_Claims\<close> are the explorer's tree,
    \<open>filesystem/src/tree.rs\<close>; \<open>File_Tree_Churn\<close> is the law of its operations when a refresh can fail
    and a listing can repeat a name, so that a node can outlive its directory.
  \<^item> Commands and keys: \<open>Actions\<close> is the vocabulary of \<open>core/src/lib.rs\<close>; \<open>Keymap\<close> and
    \<open>Keymap_Claims\<close> are \<open>core/src/input.rs\<close>, \<open>config/src/lib.rs\<close> and \<open>config/src/keymap_file.rs\<close>.
  \<^item> Permissions: \<open>Permissions\<close> and \<open>Permissions_Claims\<close> are \<open>workspace/src/permissions.rs\<close>; the
    locale \<open>dir_service\<close> extends \<open>file_service\<close>.
  \<^item> The wire: \<open>Json\<close> has JSON values and the JSON-RPC messages of \<open>lsp/src/jsonrpc.rs\<close> and
    \<open>agent/src/jsonrpc.rs\<close>, \<open>Framing\<close> the frame reader of \<open>lsp/src/framing.rs\<close>; \<open>Request_Queue\<close> and
    \<open>Fresh_Keys\<close> what both protocol clients share: requests held back until a handshake is done (the
    locale \<open>request_queue\<close>), and ids handed out by a counter.
  \<^item> The agent protocol: \<open>Acp_Types\<close> is \<open>core/src/agent.rs\<close>; \<open>Acp_Parse\<close> and \<open>Acp_Translator\<close> are
    \<open>agent/src/protocol.rs\<close> (the record \<open>translator\<close>, \<open>outgoing\<close> for a request of the editor, \<open>incoming\<close>
    for a message of the agent), \<open>Acp_Worker\<close> the worker thread of \<open>agent/src/acp.rs\<close>.  \<open>Acp_Ledger\<close>
    keeps the books of calls and answers, \<open>Acp_Safety\<close>, \<open>Acp_Claims\<close> and \<open>Acp_Terminals\<close> have the claims.
  \<^item> The language-server protocol: \<open>Lsp_Types\<close>, \<open>Lsp_Parse\<close> and \<open>Lsp_Translator\<close> are \<open>core/src/lsp.rs\<close>
    and \<open>lsp/src/protocol.rs\<close>; \<open>Lsp_Session\<close> is the supervised process transport of
    \<open>lsp/src/session.rs\<close>, with the server and the pipe as parameters.  Claims: \<open>Lsp_Claims\<close>,
    \<open>Lsp_Uris\<close>, \<open>Lsp_Supervision\<close>.
  \<^item> The application, \<open>app/src/model.rs\<close>.  \<open>Lsp_State\<close> has the record \<open>lsp_model\<close> (the fields of \<open>Model\<close>
    the language client and the files use) and \<open>lsp_client_state.rs\<close>; \<open>Lsp_Documents\<close> keeps the
    servers' copies up to date, \<open>Lsp_Edits\<close> applies the edits of servers, \<open>Lsp_Requests\<close> asks and hears
    them, \<open>App_Files\<close> opens, saves, reloads and closes files, with the messages in \<open>Fs_Messages\<close>.
    \<open>Lsp_Client\<close> runs these operations together, the answers to rename and formatting requests
    included; \<open>Lsp_Mirror\<close> and \<open>Lsp_Mirrored\<close> define a server's copies from the messages it is sent.  The claims are in \<open>Lsp_Client_Claims\<close>, \<open>Lsp_Edits_Claims\<close>
    and \<open>App_Files_Claims\<close>; \<open>Lsp_Samples\<close> has small states for their witnesses.
  \<^item> The desk, the part of \<open>app/src/model.rs\<close> that faces agents and processes.  \<open>Desk_State\<close> has the
    record \<open>desk\<close> (a \<open>lsp_model\<close> with the agent session, the terminals, the tasks and the outboxes),
    \<open>Desk_Terminals\<close> the tabs, the events of processes, the tasks and the bytes of keys
    (\<open>terminal/src/input.rs\<close>), \<open>Desk_Agent\<close> the events of the agent, its terminals, reads, proposals
    and permissions; \<open>Captured\<close> is \<open>terminal/src/capture.rs\<close>.  \<open>Desk_Claims\<close> has one step per thing
    that can happen (\<open>desk_step\<close>) and the books of the agent's calls, \<open>Desk_Duties\<close> the invariant that
    what is open is in somebody's hands, \<open>Desk_Answers\<close> the properties.
  \<^item> Search: \<open>Search\<close> has the matchers of \<open>search/src\<close> and the records of ripgrep, \<open>Search_Claims\<close> what
    they find; \<open>Search_Worker\<close> is the worker with the interleavings of its threads as steps, reading
    the cancellation flag and reporting being separate ones; \<open>Search_Overlay\<close> is
    \<open>app/src/search_state.rs\<close>.
  \<^item> \<open>Prelude\<close>, \<open>Std_Text\<close> and \<open>Utf8\<close> hold what is used of the standard library: slices, ASCII
    case, splitting, decimal numbers, UTF-8.

  \<^bold>\<open>Conventions.\<close>  A \<open>char\<close> is its scalar value, a text the list of its chars, a byte a number
  below 256.  \<open>None\<close> in an operation's result is a panic of the debug profile, a failed assertion or
  an index or subtraction out of range; an error result is the left of a sum.  Counters and offsets
  (\<open>usize\<close>, \<open>u64\<close>) are natural numbers, they count things held in memory; widths are written out
  where the code compares against them (\<open>u32\<close> positions, frame lengths, JSON numbers, function keys).
  Loops over data are structural recursion or functions with a measure; loops over the explorer's
  arena are partial functions whose termination is proved from its invariant, and drawing its rows
  recurses with the size of the arena as its bound, which the parent-before-child order of the ids
  makes enough (\<open>push_rows_ok\<close>).

  Runs of several parties are lists of operations over an explicit state (\<open>acp_run\<close>, \<open>client_run\<close>,
  \<open>file_run\<close>, \<open>desk_run\<close>) or step relations (\<open>buffer_reach\<close>, \<open>worker_moves\<close>); fuel bounds only the life
  of a supervisor and of its connections, where \<open>restarts_are_bounded\<close> shows how many steps there are.

  \<^bold>\<open>What the claims show.\<close>  Edits compose, invert and map positions as the architecture notes say;
  the buffer never panics, and undoes and redoes exactly; proposals rebuild what the agent proposed
  and, after a rebase, replace the text they were written for, with what the human inserted exactly at
  its end (both as long as no text holds a carriage return); the explorer never runs forever, its
  nodes keep their identity, and its selection exists as long as no refresh fails and no listing
  repeats a name; a remembered command permits itself and nothing else.  Every call of an agent is
  answered exactly once by the translator; the application answers every call for a terminal or a
  file exactly once, whatever the human, the processes and the disk do, and every permission too, but
  for reviews that none waits for; none is left to nobody; no process starts unasked; captured output is the
  longest suffix of what was written that fits, however it was cut.  Every language server holds the
  texts of the buffers after each pass, as far as rope and protocol agree on what a line is
  (\<open>plain_lines\<close>); its edits are applied simultaneously or not at all; cancelled and superseded
  requests stay silent; a dying server is restarted three times, and exactly then.  Searches end once,
  and a newer one silences an older one that has not yet read its flag for the last time; records of
  ripgrep are read occurrence by occurrence.  Some claims record where the code falls short: a reload
  discards what was typed meanwhile and can make the next character panic, or open a file a second
  time when its buffer was closed; text inserted directly after a hunk is lost, the marks of a
  decided review stay in the buffer, and a review whose turn was cancelled can still be applied.

  \<^bold>\<open>Not modelled.\<close>  The screen of a terminal, the renderer and its widgets, the system side of the
  workers (pipes, processes, file watching), third-party parsers (TOML, JSON, tree-sitter) and the git
  commands; of the application model the git view, the list of problems, settings, restored sessions,
  explorer prompts and the table that dispatches actions; the output decoders of the task runners are
  a parameter.
\<close>

end
